(* ===== verification/Prelude.thy ===== *)
theory Prelude
  imports Main "HOL-Library.AList" "HOL-Library.Char_ord" "HOL-Library.List_Lexorder"
begin

text \<open>
  What the components share: Python dictionaries as association lists that keep insertion
  order, dictionary equality, decimal rendering of counters (\<open>%d\<close>), Python's
  \<open>x or default\<close> on optional strings, and results that carry the state reached when an
  exception leaves a method half way. A value of type \<open>error + 'a\<close> is a call that returned
  (\<open>Inr\<close>) or raised (\<open>Inl\<close>).
\<close>

named_theorems dict_simps "lookup, keys and distinctness of Python dictionaries"
named_theorems result_simps "facts about results that carry errors"

subsection \<open>Dictionaries\<close>

text \<open>
  A Python dict is an association list in insertion order. Storing under a key that is
  present keeps its place; storing under a new key appends. Both are what
  \<open>AList.update\<close> does.
\<close>

type_synonym ('k, 'v) pydict = "('k \<times> 'v) list"

abbreviation dict_get :: "('k, 'v) pydict \<Rightarrow> 'k \<Rightarrow> 'v option" where
  "dict_get d k \<equiv> map_of d k"

abbreviation dict_set :: "'k \<Rightarrow> 'v \<Rightarrow> ('k, 'v) pydict \<Rightarrow> ('k, 'v) pydict" where
  "dict_set k v d \<equiv> AList.update k v d"

abbreviation dict_del :: "'k \<Rightarrow> ('k, 'v) pydict \<Rightarrow> ('k, 'v) pydict" where
  "dict_del k d \<equiv> AList.delete k d"

abbreviation dict_keys :: "('k, 'v) pydict \<Rightarrow> 'k list" where
  "dict_keys d \<equiv> map fst d"

definition dict_has :: "('k, 'v) pydict \<Rightarrow> 'k \<Rightarrow> bool" where
  "dict_has d k = (map_of d k \<noteq> None)"

definition dict_wf :: "('k, 'v) pydict \<Rightarrow> bool" where
  "dict_wf d = distinct (dict_keys d)"

text \<open>\<open>==\<close> on dicts ignores the order of the entries.\<close>

definition dict_eq :: "('k, 'v) pydict \<Rightarrow> ('k, 'v) pydict \<Rightarrow> bool" where
  "dict_eq a b =
     (set (dict_keys a) = set (dict_keys b)
      \<and> list_all (\<lambda>(k, v). map_of b k = Some v) a)"

lemma dict_has_keys: "dict_has d k \<longleftrightarrow> k \<in> set (dict_keys d)"
  by (simp add: dict_has_def map_of_eq_None_iff)

lemma dict_get_set [dict_simps]:
  "dict_get (dict_set k v d) j = (if j = k then Some v else dict_get d j)"
  by (simp add: update_conv')

lemma dict_get_del [dict_simps]:
  "dict_get (dict_del k d) j = (if j = k then None else dict_get d j)"
  by (simp add: delete_conv')

lemma dict_get_set_fun: "dict_get (dict_set k v d) = (dict_get d)(k \<mapsto> v)"
  by (simp add: fun_eq_iff dict_get_set)

lemma dict_get_del_fun: "dict_get (dict_del k d) = (dict_get d)(k := None)"
  by (simp add: fun_eq_iff dict_get_del)

lemma dict_has_set [dict_simps]: "dict_has (dict_set k v d) j \<longleftrightarrow> j = k \<or> dict_has d j"
  by (simp add: dict_has_def dict_get_set)

lemma dict_wf_set [dict_simps, intro]: "dict_wf d \<Longrightarrow> dict_wf (dict_set k v d)"
  by (simp add: dict_wf_def distinct_update)

lemma dict_wf_del [dict_simps, intro]: "dict_wf d \<Longrightarrow> dict_wf (dict_del k d)"
  by (simp add: dict_wf_def distinct_delete)

lemma dict_has_Nil [dict_simps]: "\<not> dict_has [] k"
  by (simp add: dict_has_def)

lemma dict_has_del [dict_simps]: "dict_has (dict_del k d) j \<longleftrightarrow> j \<noteq> k \<and> dict_has d j"
  by (simp add: dict_has_def dict_get_del)

lemma dict_wf_Nil [dict_simps]: "dict_wf []"
  by (simp add: dict_wf_def)

lemma dict_set_keys_present: "dict_has d k \<Longrightarrow> dict_keys (dict_set k v d) = dict_keys d"
  by (induction d) (auto simp: dict_has_def split: if_splits)

lemma dict_set_fresh: "\<not> dict_has d k \<Longrightarrow> dict_set k v d = d @ [(k, v)]"
  by (induction d) (auto simp: dict_has_def split: if_splits)

lemma dict_set_map:
  "dict_wf d \<Longrightarrow> dict_has d k \<Longrightarrow>
     dict_set k v d = map (\<lambda>(j, w). if j = k then (k, v) else (j, w)) d"
proof (induction d)
  case Nil
  then show ?case by (simp add: dict_has_def)
next
  case (Cons p d)
  obtain j w where p: "p = (j, w)" by (cases p)
  show ?case
  proof (cases "j = k")
    case True
    with Cons.prems p have "k \<notin> fst ` set d" by (simp add: dict_wf_def)
    then have "map (\<lambda>(j, w). if j = k then (k, v) else (j, w)) d = d"
      by (induction d) auto
    with True p show ?thesis by simp
  next
    case False
    with Cons p show ?thesis by (simp add: dict_wf_def dict_has_def)
  qed
qed

lemma dict_wf_mem: "dict_wf d \<Longrightarrow> (k, v) \<in> set d \<longleftrightarrow> dict_get d k = Some v"
  by (simp add: dict_wf_def)

lemma dict_eq_map_of: "dict_wf a \<Longrightarrow> dict_wf b \<Longrightarrow> dict_eq a b \<longleftrightarrow> map_of a = map_of b"
proof
  assume wf: "dict_wf a" and eq: "dict_eq a b"
  show "map_of a = map_of b"
  proof
    fix k
    show "map_of a k = map_of b k"
    proof (cases "map_of a k")
      case None
      with eq have "k \<notin> set (dict_keys b)"
        by (simp add: dict_eq_def map_of_eq_None_iff)
      then have "map_of b k = None" by (simp add: map_of_eq_None_iff)
      with None show ?thesis by simp
    next
      case (Some v)
      then have "(k, v) \<in> set a" by (rule map_of_SomeD)
      with eq have "map_of b k = Some v" by (auto simp: dict_eq_def list_all_iff)
      with Some show ?thesis by simp
    qed
  qed
next
  assume wf: "dict_wf a" and eq: "map_of a = map_of b"
  then have "set (dict_keys a) = set (dict_keys b)"
    by (metis dom_map_of_conv_image_fst list.set_map)
  moreover have "list_all (\<lambda>(k, v). map_of b k = Some v) a"
    using wf eq [symmetric] by (auto simp: list_all_iff dict_wf_mem)
  ultimately show "dict_eq a b" by (simp add: dict_eq_def)
qed

subsection \<open>Counters in names\<close>

text \<open>\<open>'%d' % n\<close> for a counter \<open>n\<close>.\<close>

fun digit_char :: "nat \<Rightarrow> char" where
  "digit_char n = char_of (48 + n)"

fun py_str_nat :: "nat \<Rightarrow> string" where
  "py_str_nat n =
     (if n < 10 then [digit_char n] else py_str_nat (n div 10) @ [digit_char (n mod 10)])"

declare py_str_nat.simps [simp del]
declare digit_char.simps [simp del]

definition digit_value :: "char \<Rightarrow> nat" where
  "digit_value c = of_char c - 48"

definition nat_of_digits :: "string \<Rightarrow> nat" where
  "nat_of_digits s = foldl (\<lambda>n c. 10 * n + digit_value c) 0 s"

lemma digit_value_char: "n < 10 \<Longrightarrow> digit_value (digit_char n) = n"
  by (simp add: digit_value_def digit_char.simps)

lemma nat_of_digits_snoc: "nat_of_digits (s @ [c]) = 10 * nat_of_digits s + digit_value c"
  by (simp add: nat_of_digits_def)

lemma nat_of_digits_py_str: "nat_of_digits (py_str_nat n) = n"
proof (induction n rule: py_str_nat.induct)
  case (1 n)
  show ?case
  proof (cases "n < 10")
    case True
    then show ?thesis
      by (simp add: py_str_nat.simps [of n] nat_of_digits_def digit_value_char)
  next
    case False
    with 1 show ?thesis
      by (simp add: py_str_nat.simps [of n] nat_of_digits_snoc digit_value_char)
  qed
qed

lemma py_str_nat_inject [simp]: "py_str_nat m = py_str_nat n \<longleftrightarrow> m = n"
  by (metis nat_of_digits_py_str)

lemma digit_char_range: "n < 10 \<Longrightarrow> of_char (digit_char n) \<in> {48..57::nat}"
  by (simp add: digit_char.simps)

lemma py_str_nat_digits: "c \<in> set (py_str_nat n) \<Longrightarrow> of_char c \<in> {48..57::nat}"
proof (induction n rule: py_str_nat.induct)
  case (1 n)
  have last: "of_char (digit_char (n mod 10)) \<in> {48..57::nat}"
    by (rule digit_char_range) simp
  show ?case
  proof (cases "n < 10")
    case True
    with "1.prems" show ?thesis
      by (auto simp: py_str_nat.simps [of n] dest: digit_char_range)
  next
    case False
    with "1.prems" consider "c \<in> set (py_str_nat (n div 10))" | "c = digit_char (n mod 10)"
      by (auto simp: py_str_nat.simps [of n])
    then show ?thesis
      using "1.IH" False last by cases auto
  qed
qed

text \<open>
  \<open>'%s#%d' % (cname, generation)\<close>: the digits after the last \<open>#\<close> are the
  generation, so the two parts can be read back and the rendering is injective.
\<close>

definition numbered :: "string \<Rightarrow> nat \<Rightarrow> string" where
  "numbered cname n = cname @ ''#'' @ py_str_nat n"

lemma hash_not_digit: "CHR ''#'' \<notin> set (py_str_nat n)"
  by (auto dest: py_str_nat_digits)

lemma split_at_last_unique:
  assumes "xs @ c # ys = xs' @ c # ys'" and "c \<notin> set ys" and "c \<notin> set ys'"
  shows "xs = xs' \<and> ys = ys'"
  using assms by (auto simp: append_eq_append_conv2 Cons_eq_append_conv append_eq_Cons_conv)

lemma numbered_inject [simp]: "numbered a m = numbered b n \<longleftrightarrow> a = b \<and> m = n"
proof
  assume "numbered a m = numbered b n"
  then have "a @ CHR ''#'' # py_str_nat m = b @ CHR ''#'' # py_str_nat n"
    by (simp add: numbered_def)
  then have "a = b \<and> py_str_nat m = py_str_nat n"
    using hash_not_digit by (intro split_at_last_unique)
  then show "a = b \<and> m = n" by simp
qed simp

subsection \<open>Optional and empty strings\<close>

text \<open>\<open>s or default\<close> for a string argument whose default value is \<open>None\<close>.\<close>

definition or_default :: "string option \<Rightarrow> string \<Rightarrow> string" where
  "or_default s d = (case s of None \<Rightarrow> d | Some t \<Rightarrow> if t = [] then d else t)"

lemma names_where_Nil:
  "[c. (c, b) \<leftarrow> bs, P b] = [] \<longleftrightarrow> (\<forall>c b. (c, b) \<in> set bs \<longrightarrow> \<not> P b)"
proof (induction bs)
  case Nil
  show ?case by simp
next
  case (Cons p bs)
  obtain c b where "p = (c, b)" by (cases p)
  with Cons show ?case by (auto split: if_splits)
qed

subsection \<open>Searching\<close>

lemma find_Some_mem: "find P xs = Some x \<Longrightarrow> x \<in> set xs \<and> P x"
  by (induction xs) (auto split: if_splits)

subsection \<open>Results\<close>

definition returned :: "'e + 'a \<Rightarrow> bool" where
  "returned r = (case r of Inl _ \<Rightarrow> False | Inr _ \<Rightarrow> True)"

lemma returned_simps [simp, result_simps]: "\<not> returned (Inl e)" "returned (Inr a)"
  by (simp_all add: returned_def)

lemma returned_iff: "returned r \<longleftrightarrow> (\<exists>a. r = Inr a)"
  by (cases r) auto

definition bind_result :: "'e + 'a \<Rightarrow> ('a \<Rightarrow> 'e + 'b) \<Rightarrow> 'e + 'b" where
  "bind_result r f = (case r of Inl e \<Rightarrow> Inl e | Inr a \<Rightarrow> f a)"

lemma bind_result_simps [simp, result_simps]:
  "bind_result (Inl e) f = Inl e" "bind_result (Inr a) f = f a"
  by (simp_all add: bind_result_def)

lemma bind_result_Inr [result_simps]:
  "bind_result r f = Inr b \<longleftrightarrow> (\<exists>a. r = Inr a \<and> f a = Inr b)"
  by (cases r) auto

subsection \<open>Sorted tuples of names\<close>

lemma set_sorted_names [simp]: "set (sort (xs :: string list)) = set xs"
  by simp

lemma sort_Nil_iff [simp]: "sort (xs :: string list) = [] \<longleftrightarrow> xs = []"
  by (metis set_empty set_sort)

end
