(* ===== verification/HandleTypes.thy ===== *)
theory HandleTypes
  imports Prelude
begin

text \<open>
  The static half of \<open>Cython/Compiler/HandleModel.py\<close>: the enumerations, the storage
  contracts, the operation contracts and the storage-declaration check. Enumeration values
  carry a prefix of their class, because several Python enums use the same member names. A
  \<open>TypeError\<close> for an argument that is not a member of its enum has no counterpart: the
  types of the model exclude such arguments. An error keeps the format string of the
  \<open>raise\<close> and the values formatted into it.
\<close>

subsection \<open>Enumerations\<close>

datatype HandleStorageKind = SK_LOCAL | SK_FIELD | SK_GLOBAL | SK_CONTEXT_CONSTANT

fun storage_kind_value :: "HandleStorageKind \<Rightarrow> string" where
  "storage_kind_value SK_LOCAL = ''local''"
| "storage_kind_value SK_FIELD = ''field''"
| "storage_kind_value SK_GLOBAL = ''global''"
| "storage_kind_value SK_CONTEXT_CONSTANT = ''context-constant''"

datatype HandleOwnership = OWNED | BORROWED_ARGUMENT | IMMORTAL

fun ownership_value :: "HandleOwnership \<Rightarrow> string" where
  "ownership_value OWNED = ''owned''"
| "ownership_value BORROWED_ARGUMENT = ''borrowed-argument''"
| "ownership_value IMMORTAL = ''immortal''"

datatype HandleState = HS_LIVE | HS_MOVED | HS_CLOSED

fun handle_state_value :: "HandleState \<Rightarrow> string" where
  "handle_state_value HS_LIVE = ''live''"
| "handle_state_value HS_MOVED = ''moved''"
| "handle_state_value HS_CLOSED = ''closed''"

datatype HandleTransfer = TRANSFER_MOVE | TRANSFER_DUPLICATE

datatype HandleExitKind =
  EXIT_NORMAL | EXIT_RETURN | EXIT_BREAK | EXIT_CONTINUE | EXIT_GOTO | EXIT_EXCEPTION

datatype RuntimeFunctionKind =
  PURE_C | PYTHON_INTERACTING | CALLBACK | CLOSURE | GENERATOR | PUBLIC_C_API

fun function_kind_value :: "RuntimeFunctionKind \<Rightarrow> string" where
  "function_kind_value PURE_C = ''pure-c''"
| "function_kind_value PYTHON_INTERACTING = ''python-interacting''"
| "function_kind_value CALLBACK = ''callback''"
| "function_kind_value CLOSURE = ''closure''"
| "function_kind_value GENERATOR = ''generator''"
| "function_kind_value PUBLIC_C_API = ''public-c-api''"

datatype ContextRequirementKind = CTX_NONE | CTX_REQUIRED | CTX_REJECTED

datatype HandleBuilderState = BS_LIVE | BS_BUILT | BS_CANCELLED

fun builder_state_value :: "HandleBuilderState \<Rightarrow> string" where
  "builder_state_value BS_LIVE = ''live''"
| "builder_state_value BS_BUILT = ''built''"
| "builder_state_value BS_CANCELLED = ''cancelled''"

datatype HandleTrackerState = TS_LIVE | TS_CLOSED

fun tracker_state_value :: "HandleTrackerState \<Rightarrow> string" where
  "tracker_state_value TS_LIVE = ''live''"
| "tracker_state_value TS_CLOSED = ''closed''"

datatype HandleArgumentEffect = EFFECT_BORROW | EFFECT_CLOSE

datatype HandleOperation =
  OP_DUPLICATE | OP_CLOSE | OP_CALL | OP_CALL_METHOD
| OP_SEQUENCE_BUILDER_NEW | OP_SEQUENCE_BUILDER_SET
| OP_SEQUENCE_BUILDER_BUILD | OP_SEQUENCE_BUILDER_CANCEL
| OP_SEQUENCE_FROM_ARRAY | OP_SEQUENCE_PACK
| OP_DICT_NEW | OP_DICT_SET_ITEM | OP_DICT_SET_ITEM_STRING | OP_DICT_COPY
| OP_TO_PYTHON | OP_FROM_PYTHON
| OP_ERROR_SET_OBJECT | OP_ERROR_SET_NONE | OP_ERROR_FORMAT
| OP_EXCEPTION_MATCHES | OP_NAME_LOOKUP
| OP_GLOBAL_LOAD | OP_GLOBAL_STORE | OP_FIELD_LOAD | OP_FIELD_STORE
| OP_IMPORT_MODULE | OP_MODULE_SET_ATTR | OP_MODULE_SET_ATTR_STRING

fun operation_value :: "HandleOperation \<Rightarrow> string" where
  "operation_value OP_DUPLICATE = ''duplicate''"
| "operation_value OP_CLOSE = ''close''"
| "operation_value OP_CALL = ''call''"
| "operation_value OP_CALL_METHOD = ''call-method''"
| "operation_value OP_SEQUENCE_BUILDER_NEW = ''sequence-builder-new''"
| "operation_value OP_SEQUENCE_BUILDER_SET = ''sequence-builder-set''"
| "operation_value OP_SEQUENCE_BUILDER_BUILD = ''sequence-builder-build''"
| "operation_value OP_SEQUENCE_BUILDER_CANCEL = ''sequence-builder-cancel''"
| "operation_value OP_SEQUENCE_FROM_ARRAY = ''sequence-from-array''"
| "operation_value OP_SEQUENCE_PACK = ''sequence-pack''"
| "operation_value OP_DICT_NEW = ''dict-new''"
| "operation_value OP_DICT_SET_ITEM = ''dict-set-item''"
| "operation_value OP_DICT_SET_ITEM_STRING = ''dict-set-item-string''"
| "operation_value OP_DICT_COPY = ''dict-copy''"
| "operation_value OP_TO_PYTHON = ''to-python''"
| "operation_value OP_FROM_PYTHON = ''from-python''"
| "operation_value OP_ERROR_SET_OBJECT = ''error-set-object''"
| "operation_value OP_ERROR_SET_NONE = ''error-set-none''"
| "operation_value OP_ERROR_FORMAT = ''error-format''"
| "operation_value OP_EXCEPTION_MATCHES = ''exception-matches''"
| "operation_value OP_NAME_LOOKUP = ''name-lookup''"
| "operation_value OP_GLOBAL_LOAD = ''global-load''"
| "operation_value OP_GLOBAL_STORE = ''global-store''"
| "operation_value OP_FIELD_LOAD = ''field-load''"
| "operation_value OP_FIELD_STORE = ''field-store''"
| "operation_value OP_IMPORT_MODULE = ''import-module''"
| "operation_value OP_MODULE_SET_ATTR = ''module-set-attr''"
| "operation_value OP_MODULE_SET_ATTR_STRING = ''module-set-attr-string''"

text \<open>Iterating the enum class yields its members in the order of their declaration.\<close>

definition all_operations :: "HandleOperation list" where
  "all_operations =
     [OP_DUPLICATE, OP_CLOSE, OP_CALL, OP_CALL_METHOD,
      OP_SEQUENCE_BUILDER_NEW, OP_SEQUENCE_BUILDER_SET,
      OP_SEQUENCE_BUILDER_BUILD, OP_SEQUENCE_BUILDER_CANCEL,
      OP_SEQUENCE_FROM_ARRAY, OP_SEQUENCE_PACK,
      OP_DICT_NEW, OP_DICT_SET_ITEM, OP_DICT_SET_ITEM_STRING, OP_DICT_COPY,
      OP_TO_PYTHON, OP_FROM_PYTHON,
      OP_ERROR_SET_OBJECT, OP_ERROR_SET_NONE, OP_ERROR_FORMAT,
      OP_EXCEPTION_MATCHES, OP_NAME_LOOKUP,
      OP_GLOBAL_LOAD, OP_GLOBAL_STORE, OP_FIELD_LOAD, OP_FIELD_STORE,
      OP_IMPORT_MODULE, OP_MODULE_SET_ATTR, OP_MODULE_SET_ATTR_STRING]"

lemma all_operations_complete: "op \<in> set all_operations"
  by (cases op) (simp_all add: all_operations_def)

subsection \<open>Errors\<close>

text \<open>The class of the exception, its format string and the formatted values.\<close>

datatype handle_error =
  HandleModelError string "string list"
| InvalidHandleStorageError string "string list"
| InvalidHandleTransitionError string "string list"
| HandleValueError string
| HandleAssertionError string
| HandleKeyError

subsection \<open>Frozen dataclasses\<close>

record HandleStorage =
  hs_kind :: HandleStorageKind
  hs_c_type_cname :: string
  hs_long_lived :: bool
  hs_directly_usable :: bool
  hs_load_returns_owned_local :: bool
  hs_requires_owner_object :: bool
  hs_requires_module_registration :: bool

record HandleValue =
  hv_storage :: HandleStorage
  hv_ownership :: HandleOwnership
  hv_state :: HandleState

record HandleTemporaryBinding =
  tb_cname :: string
  tb_identity :: string
  tb_ownership :: HandleOwnership

record HandleCleanupPlan =
  cp_exit_kind :: HandleExitKind
  cp_close_names :: "string list"

record RuntimeFunctionContext =
  fc_function_name :: string
  fc_function_kind :: RuntimeFunctionKind
  fc_requirement :: ContextRequirementKind
  fc_parameter_type_cname :: string
  fc_parameter_cname :: string

record HandleBuilderBinding =
  bb_cname :: string
  bb_identity :: string
  bb_state :: HandleBuilderState

record HandleTrackerBinding =
  kb_cname :: string
  kb_identity :: string
  kb_state :: HandleTrackerState

record HandleOperationContract =
  oc_operation :: HandleOperation
  oc_handle_arguments :: "string list"
  oc_argument_effect :: HandleArgumentEffect
  oc_result_ownership :: "HandleOwnership option"
  oc_result_storage :: "HandleStorageKind option"
  oc_produces_builder :: bool
  oc_consumes_builder :: bool

text \<open>
  \<open>__post_init__\<close>: constructing a contract runs these checks; the \<open>isinstance\<close>
  checks are the types of the record.
\<close>

definition contract_post_init ::
  "HandleOperationContract \<Rightarrow> handle_error + HandleOperationContract" where
  "contract_post_init c =
     (if (oc_result_ownership c = None) \<noteq> (oc_result_storage c = None)
      then Inl (HandleValueError
        ''handle result ownership and storage must be specified together'')
      else if oc_produces_builder c \<and> oc_consumes_builder c
      then Inl (HandleValueError ''one operation cannot both produce and consume a builder'')
      else Inr c)"

subsection \<open>Storage contracts\<close>

fun STORAGE_CONTRACTS :: "HandleStorageKind \<Rightarrow> HandleStorage" where
  "STORAGE_CONTRACTS SK_LOCAL =
     \<lparr>hs_kind = SK_LOCAL, hs_c_type_cname = ''HPy'', hs_long_lived = False,
      hs_directly_usable = True, hs_load_returns_owned_local = False,
      hs_requires_owner_object = False, hs_requires_module_registration = False\<rparr>"
| "STORAGE_CONTRACTS SK_FIELD =
     \<lparr>hs_kind = SK_FIELD, hs_c_type_cname = ''HPyField'', hs_long_lived = True,
      hs_directly_usable = False, hs_load_returns_owned_local = True,
      hs_requires_owner_object = True, hs_requires_module_registration = False\<rparr>"
| "STORAGE_CONTRACTS SK_GLOBAL =
     \<lparr>hs_kind = SK_GLOBAL, hs_c_type_cname = ''HPyGlobal'', hs_long_lived = True,
      hs_directly_usable = False, hs_load_returns_owned_local = True,
      hs_requires_owner_object = False, hs_requires_module_registration = True\<rparr>"
| "STORAGE_CONTRACTS SK_CONTEXT_CONSTANT =
     \<lparr>hs_kind = SK_CONTEXT_CONSTANT, hs_c_type_cname = ''HPy'', hs_long_lived = False,
      hs_directly_usable = True, hs_load_returns_owned_local = False,
      hs_requires_owner_object = False, hs_requires_module_registration = False\<rparr>"

definition storage_contract :: "HandleStorageKind \<Rightarrow> HandleStorage" where
  "storage_contract kind = STORAGE_CONTRACTS kind"

lemma storage_contract_kind [simp]: "hs_kind (storage_contract k) = k"
  by (cases k) (simp_all add: storage_contract_def)

definition validate_storage_declaration ::
  "HandleStorageKind \<Rightarrow> string \<Rightarrow> bool \<Rightarrow> bool \<Rightarrow> handle_error + HandleStorage" where
  "validate_storage_declaration kind c_type_cname is_function_local is_long_lived =
     (let contract = storage_contract kind in
      if c_type_cname \<noteq> hs_c_type_cname contract
      then Inl (InvalidHandleStorageError ''%s storage requires C type %s, not %s''
             [storage_kind_value kind, hs_c_type_cname contract, c_type_cname])
      else if is_function_local \<and> kind \<in> {SK_FIELD, SK_GLOBAL}
      then Inl (InvalidHandleStorageError
             ''%s cannot be declared as function-local storage'' [c_type_cname])
      else if is_long_lived \<and> c_type_cname = ''HPy''
      then Inl (InvalidHandleStorageError
             ''plain HPy cannot be stored across calls; use HPyField or HPyGlobal'' [])
      else if is_long_lived \<noteq> hs_long_lived contract
      then Inl (InvalidHandleStorageError ''%s storage must be declared %s''
             [storage_kind_value kind,
              (if hs_long_lived contract then ''long-lived'' else ''call-scoped'')])
      else Inr contract)"

text \<open>
  A declaration is accepted exactly when the C type is the contract's, function-local names
  are not indirect storage, and the lifetime is the contract's.
\<close>

lemma validate_storage_declaration_iff:
  "validate_storage_declaration kind ct loc long = Inr c \<longleftrightarrow>
     c = storage_contract kind \<and> ct = hs_c_type_cname c \<and>
     \<not> (loc \<and> kind \<in> {SK_FIELD, SK_GLOBAL}) \<and> long = (kind \<in> {SK_FIELD, SK_GLOBAL})"
  by (cases kind)
     (auto simp: validate_storage_declaration_def storage_contract_def Let_def split: if_splits)

subsection \<open>Operation contracts\<close>

definition borrowed ::
  "HandleOperation \<Rightarrow> string list \<Rightarrow> bool \<Rightarrow> bool \<Rightarrow> bool \<Rightarrow> HandleOperationContract" where
  "borrowed operation arguments returns_owned produces_builder consumes_builder =
     \<lparr>oc_operation = operation,
      oc_handle_arguments = arguments,
      oc_argument_effect = EFFECT_BORROW,
      oc_result_ownership = (if returns_owned then Some OWNED else None),
      oc_result_storage = (if returns_owned then Some SK_LOCAL else None),
      oc_produces_builder = produces_builder,
      oc_consumes_builder = consumes_builder\<rparr>"

abbreviation borrows :: "HandleOperation \<Rightarrow> string list \<Rightarrow> HandleOperation \<times> HandleOperationContract"
  where "borrows operation arguments \<equiv> (operation, borrowed operation arguments False False False)"

abbreviation returns_owned ::
  "HandleOperation \<Rightarrow> string list \<Rightarrow> HandleOperation \<times> HandleOperationContract"
  where "returns_owned operation arguments \<equiv>
    (operation, borrowed operation arguments True False False)"

definition OPERATION_CONTRACTS :: "(HandleOperation, HandleOperationContract) pydict" where
  "OPERATION_CONTRACTS =
     [returns_owned OP_DUPLICATE [''source''],
      (OP_CLOSE,
        \<lparr>oc_operation = OP_CLOSE, oc_handle_arguments = [''handle''],
         oc_argument_effect = EFFECT_CLOSE, oc_result_ownership = None,
         oc_result_storage = None, oc_produces_builder = False,
         oc_consumes_builder = False\<rparr>),
      returns_owned OP_CALL [''callable'', ''arguments'', ''keywords''],
      returns_owned OP_CALL_METHOD [''name'', ''arguments''],
      (OP_SEQUENCE_BUILDER_NEW, borrowed OP_SEQUENCE_BUILDER_NEW [] False True False),
      borrows OP_SEQUENCE_BUILDER_SET [''item''],
      (OP_SEQUENCE_BUILDER_BUILD, borrowed OP_SEQUENCE_BUILDER_BUILD [] True False True),
      (OP_SEQUENCE_BUILDER_CANCEL, borrowed OP_SEQUENCE_BUILDER_CANCEL [] False False True),
      returns_owned OP_SEQUENCE_FROM_ARRAY [''items''],
      returns_owned OP_SEQUENCE_PACK [''items''],
      returns_owned OP_DICT_NEW [],
      borrows OP_DICT_SET_ITEM [''dictionary'', ''key'', ''value''],
      borrows OP_DICT_SET_ITEM_STRING [''dictionary'', ''value''],
      returns_owned OP_DICT_COPY [''dictionary''],
      returns_owned OP_TO_PYTHON [],
      borrows OP_FROM_PYTHON [''source''],
      borrows OP_ERROR_SET_OBJECT [''exception'', ''value''],
      borrows OP_ERROR_SET_NONE [''exception'', ''none''],
      borrows OP_ERROR_FORMAT [''exception'', ''format-values''],
      borrows OP_EXCEPTION_MATCHES [''pattern''],
      returns_owned OP_NAME_LOOKUP [''namespace'', ''name''],
      returns_owned OP_GLOBAL_LOAD [],
      borrows OP_GLOBAL_STORE [''value''],
      returns_owned OP_FIELD_LOAD [''owner''],
      borrows OP_FIELD_STORE [''owner'', ''value''],
      returns_owned OP_IMPORT_MODULE [],
      borrows OP_MODULE_SET_ATTR [''module'', ''name'', ''value''],
      borrows OP_MODULE_SET_ATTR_STRING [''module'', ''value'']]"

definition validate_operation_contracts ::
  "(HandleOperation, HandleOperationContract) pydict \<Rightarrow> handle_error + unit" where
  "validate_operation_contracts contracts =
     (if set (dict_keys contracts) \<noteq> set all_operations
      then Inl (HandleAssertionError ''every HPy handle operation requires an ownership contract'')
      else Inr ())"

definition operation_contract :: "HandleOperation \<Rightarrow> handle_error + HandleOperationContract" where
  "operation_contract operation =
     (case dict_get OPERATION_CONTRACTS operation of
        None \<Rightarrow> Inl HandleKeyError
      | Some c \<Rightarrow> Inr c)"

text \<open>Each operation's contract, computed once, and what all of them have in common.\<close>

lemma operation_contracts_computed:
  "\<exists>c. operation_contract op = Inr c \<and> oc_operation c = op
     \<and> contract_post_init c = Inr c
     \<and> (oc_argument_effect c = EFFECT_CLOSE \<longleftrightarrow> op = OP_CLOSE)
     \<and> (oc_result_ownership c, oc_result_storage c) \<in> {(None, None), (Some OWNED, Some SK_LOCAL)}
     \<and> (op = OP_CLOSE \<longrightarrow> oc_result_ownership c = None)"
  by (cases op)
     (simp_all add: operation_contract_def OPERATION_CONTRACTS_def borrowed_def
        contract_post_init_def)

lemma operation_contract_total: "\<exists>c. operation_contract op = Inr c"
  using operation_contracts_computed [of op] by blast

lemma operation_contract_cases:
  assumes "operation_contract op = Inr c"
  obtains (close) "op = OP_CLOSE" "oc_argument_effect c = EFFECT_CLOSE"
      "oc_result_ownership c = None" "oc_result_storage c = None"
    | (borrow) "op \<noteq> OP_CLOSE" "oc_argument_effect c = EFFECT_BORROW"
      "oc_result_ownership c = None" "oc_result_storage c = None"
    | (produce) "op \<noteq> OP_CLOSE" "oc_argument_effect c = EFFECT_BORROW"
      "oc_result_ownership c = Some OWNED" "oc_result_storage c = Some SK_LOCAL"
proof -
  from operation_contracts_computed [of op] assms
  have c: "oc_argument_effect c = EFFECT_CLOSE \<longleftrightarrow> op = OP_CLOSE"
    "(oc_result_ownership c, oc_result_storage c) \<in> {(None, None), (Some OWNED, Some SK_LOCAL)}"
    "op = OP_CLOSE \<longrightarrow> oc_result_ownership c = None"
    by auto
  then show thesis
    using close borrow produce by (cases "oc_argument_effect c") auto
qed

end
