(* ===== verification/HandleContext.thy ===== *)
theory HandleContext
  imports HandleTypes
begin

text \<open>
  \<open>ContextPropagationModel\<close> of \<open>Cython/Compiler/HandleModel.py\<close>: which generated
  C functions have an \<open>HPyContext *\<close> parameter, and which calls may pass it on. The
  state is the dict \<open>_functions\<close>.
\<close>

type_synonym ContextPropagationModel = "(string, RuntimeFunctionContext) pydict"

fun context_requirement :: "RuntimeFunctionKind \<Rightarrow> ContextRequirementKind" where
  "context_requirement PURE_C = CTX_NONE"
| "context_requirement PYTHON_INTERACTING = CTX_REQUIRED"
| "context_requirement CALLBACK = CTX_REJECTED"
| "context_requirement CLOSURE = CTX_REJECTED"
| "context_requirement GENERATOR = CTX_REJECTED"
| "context_requirement PUBLIC_C_API = CTX_REJECTED"

definition context_declare_function ::
  "string \<Rightarrow> RuntimeFunctionKind \<Rightarrow> ContextPropagationModel
     \<Rightarrow> handle_error + RuntimeFunctionContext \<times> ContextPropagationModel" where
  "context_declare_function function_name function_kind functions =
     (if dict_has functions function_name
      then Inl (HandleModelError ''runtime function %r is already declared'' [function_name])
      else
        let requirement = context_requirement function_kind;
            context =
              \<lparr>fc_function_name = function_name,
               fc_function_kind = function_kind,
               fc_requirement = requirement,
               fc_parameter_type_cname =
                 (if requirement = CTX_REQUIRED then ''HPyContext *'' else ''''),
               fc_parameter_cname = (if requirement = CTX_REQUIRED then ''ctx'' else '''')\<rparr>
        in Inr (context, dict_set function_name context functions))"

definition context_function ::
  "string \<Rightarrow> ContextPropagationModel \<Rightarrow> handle_error + RuntimeFunctionContext" where
  "context_function function_name functions =
     (case dict_get functions function_name of
        None \<Rightarrow> Inl (HandleModelError ''unknown runtime function %r'' [function_name])
      | Some context \<Rightarrow> Inr context)"

definition context_require_enabled ::
  "string \<Rightarrow> ContextPropagationModel \<Rightarrow> handle_error + RuntimeFunctionContext" where
  "context_require_enabled function_name functions =
     (case context_function function_name functions of
        Inl e \<Rightarrow> Inl e
      | Inr context \<Rightarrow>
          if fc_requirement context = CTX_REJECTED
          then Inl (HandleModelError ''%s context propagation is not defined for %s functions''
                 [function_kind_value (fc_function_kind context), function_name])
          else Inr context)"

definition context_call_argument ::
  "string \<Rightarrow> string \<Rightarrow> ContextPropagationModel \<Rightarrow> handle_error + string" where
  "context_call_argument caller_name callee_name functions =
     (case context_require_enabled caller_name functions of
        Inl e \<Rightarrow> Inl e
      | Inr caller \<Rightarrow>
        (case context_require_enabled callee_name functions of
           Inl e \<Rightarrow> Inl e
         | Inr callee \<Rightarrow>
             if fc_requirement callee = CTX_NONE then Inr ''''
             else if fc_requirement caller \<noteq> CTX_REQUIRED
             then Inl (HandleModelError
                    ''pure-C function %r cannot call context-requiring function %r''
                    [caller_name, callee_name])
             else Inr (fc_parameter_cname caller)))"

definition context_persist ::
  "string \<Rightarrow> string \<Rightarrow> ContextPropagationModel \<Rightarrow> handle_error + unit" where
  "context_persist function_name storage_description functions =
     (case context_require_enabled function_name functions of
        Inl e \<Rightarrow> Inl e
      | Inr context \<Rightarrow>
          if fc_requirement context \<noteq> CTX_REQUIRED
          then Inl (HandleModelError ''function %r has no HPyContext to persist''
                 [function_name])
          else Inl (InvalidHandleStorageError
                 ''HPyContext * from %r is call-scoped and cannot be persisted in %s''
                 [function_name, storage_description]))"

lemmas context_defs =
  context_declare_function_def context_function_def context_require_enabled_def
  context_call_argument_def context_persist_def Let_def

subsection \<open>Declared functions\<close>

text \<open>The models the compiler can build: successful declarations from an empty model.\<close>

inductive context_reachable :: "ContextPropagationModel \<Rightarrow> bool" where
  context_init: "context_reachable []"
| context_declare: "context_reachable m \<Longrightarrow>
     context_declare_function name kind m = Inr (c, m') \<Longrightarrow> context_reachable m'"

definition context_entry_ok :: "string \<Rightarrow> RuntimeFunctionContext \<Rightarrow> bool" where
  "context_entry_ok name c \<longleftrightarrow>
     fc_function_name c = name \<and> fc_requirement c = context_requirement (fc_function_kind c)
     \<and> fc_parameter_cname c = (if fc_requirement c = CTX_REQUIRED then ''ctx'' else '''')
     \<and> fc_parameter_type_cname c =
         (if fc_requirement c = CTX_REQUIRED then ''HPyContext *'' else '''')"

lemma context_reachable_entry:
  "context_reachable m \<Longrightarrow> dict_get m name = Some c \<Longrightarrow> context_entry_ok name c"
proof (induction arbitrary: c rule: context_reachable.induct)
  case context_init
  then show ?case by simp
next
  case (context_declare m fname kind c0 m')
  then show ?case
    by (auto simp: context_declare_function_def Let_def dict_simps context_entry_ok_def
        split: if_splits)
qed

lemma context_function_reachable:
  "context_reachable m \<Longrightarrow> context_function name m = Inr c \<Longrightarrow> context_entry_ok name c"
  by (auto simp: context_function_def split: option.splits dest: context_reachable_entry)

text \<open>The kind a name was declared with, read off the model.\<close>

definition declared_kind :: "ContextPropagationModel \<Rightarrow> string \<Rightarrow> RuntimeFunctionKind option" where
  "declared_kind m name = map_option fc_function_kind (dict_get m name)"

lemma context_require_enabled_iff:
  assumes "context_reachable m"
  shows "(\<exists>c. context_require_enabled name m = Inr c) \<longleftrightarrow>
           declared_kind m name \<in> {Some PURE_C, Some PYTHON_INTERACTING}"
proof (cases "dict_get m name")
  case None
  then show ?thesis
    by (simp add: context_require_enabled_def context_function_def declared_kind_def)
next
  case (Some c)
  with assms have "context_entry_ok name c" by (rule context_reachable_entry)
  with Some show ?thesis
    by (cases "fc_function_kind c")
       (simp_all add: context_require_enabled_def context_function_def declared_kind_def
          context_entry_ok_def)
qed

lemma context_require_enabled_entry:
  assumes "context_reachable m" and "context_require_enabled name m = Inr c"
  shows "declared_kind m name = Some (fc_function_kind c)" "context_entry_ok name c"
proof -
  have get: "dict_get m name = Some c"
    using assms(2)
    by (auto simp: context_require_enabled_def context_function_def
        split: option.splits if_splits)
  then show "declared_kind m name = Some (fc_function_kind c)"
    by (simp add: declared_kind_def)
  from assms(1) get show "context_entry_ok name c" by (rule context_reachable_entry)
qed

lemma context_call_argument_enabled:
  assumes m: "context_reachable m"
    and caller: "context_require_enabled caller_name m = Inr caller"
    and callee: "context_require_enabled callee_name m = Inr callee"
  shows "context_call_argument caller_name callee_name m =
     (if declared_kind m callee_name = Some PURE_C then Inr ''''
      else if declared_kind m caller_name = Some PYTHON_INTERACTING then Inr ''ctx''
      else Inl (HandleModelError ''pure-C function %r cannot call context-requiring function %r''
             [caller_name, callee_name]))"
proof -
  note er = context_require_enabled_entry [OF m caller]
  note ee = context_require_enabled_entry [OF m callee]
  from context_require_enabled_iff [OF m] caller callee
  have kinds: "declared_kind m caller_name \<in> {Some PURE_C, Some PYTHON_INTERACTING}"
    "declared_kind m callee_name \<in> {Some PURE_C, Some PYTHON_INTERACTING}"
    by blast+
  then show ?thesis
    using er ee caller callee by (auto simp: context_call_argument_def context_entry_ok_def)
qed

lemma context_persist_raises: "\<exists>e. context_persist name descr m = Inl e"
  by (simp add: context_persist_def split: sum.split)

subsection \<open>The property\<close>

text \<open>C1. A call passes a context argument exactly when both functions interact with Python and
  then it is the caller's own parameter \<open>ctx\<close>; a call to a pure-C function passes nothing;
  every other pair (an undeclared function, a callback, closure, generator or public C API
  function, or a pure-C caller of a Python-interacting callee) is refused.\<close>

theorem context_call_argument_spec:
  assumes "context_reachable m"
  shows "context_call_argument caller callee m = Inr arg \<longleftrightarrow>
     declared_kind m caller \<in> {Some PURE_C, Some PYTHON_INTERACTING} \<and>
     (declared_kind m callee = Some PURE_C \<and> arg = '''' \<or>
      declared_kind m callee = Some PYTHON_INTERACTING \<and>
      declared_kind m caller = Some PYTHON_INTERACTING \<and> arg = ''ctx'')"
proof -
  consider (no_caller) e where "context_require_enabled caller m = Inl e"
    | (no_callee) c e where "context_require_enabled caller m = Inr c"
        "context_require_enabled callee m = Inl e"
    | (both) c d where "context_require_enabled caller m = Inr c"
        "context_require_enabled callee m = Inr d"
    by (metis sum.exhaust)
  then show ?thesis
  proof cases
    case no_caller
    then show ?thesis
      using context_require_enabled_iff [OF assms, of caller]
      by (auto simp: context_call_argument_def)
  next
    case no_callee
    then show ?thesis
      using context_require_enabled_iff [OF assms, of callee]
      by (auto simp: context_call_argument_def)
  next
    case both
    then have "declared_kind m caller \<in> {Some PURE_C, Some PYTHON_INTERACTING}"
      "declared_kind m callee \<in> {Some PURE_C, Some PYTHON_INTERACTING}"
      using context_require_enabled_iff [OF assms] by blast+
    then show ?thesis
      using context_call_argument_enabled [OF assms both] by auto
  qed
qed

definition example_context_model :: ContextPropagationModel where
  "example_context_model =
     (case context_declare_function ''f'' PYTHON_INTERACTING [] of
        Inl e \<Rightarrow> []
      | Inr (c, m) \<Rightarrow>
          (case context_declare_function ''g'' PYTHON_INTERACTING m of
             Inl e \<Rightarrow> [] | Inr (c', m') \<Rightarrow> m'))"

lemma example_context_model_reachable: "context_reachable example_context_model"
proof -
  define m1 where "m1 = snd (projr (context_declare_function ''f'' PYTHON_INTERACTING []))"
  have "context_reachable m1"
    by (rule context_declare [OF context_init, where name = "''f''" and kind = PYTHON_INTERACTING])
       (simp add: m1_def context_declare_function_def dict_has_def Let_def)
  moreover have "\<exists>c. context_declare_function ''g'' PYTHON_INTERACTING m1 =
      Inr (c, example_context_model)"
    by (simp add: m1_def example_context_model_def context_declare_function_def dict_has_def Let_def)
  ultimately show ?thesis by (auto intro: context_declare)
qed

theorem context_call_argument_spec_witness:
  "context_call_argument ''f'' ''g'' example_context_model = Inr ''ctx''"
  by (subst context_call_argument_spec [OF example_context_model_reachable])
     (simp add: declared_kind_def example_context_model_def context_declare_function_def
        dict_has_def Let_def)

end
