(* ===== verification/HandleTracker.thy ===== *)
theory HandleTracker
  imports HandleTypes
begin

text \<open>
  \<open>HandleStateTracker\<close> of \<open>Cython/Compiler/HandleModel.py\<close>: the compile-time state
  of every HPy value and of every indirect storage location in one control-flow state. A method
  that raises before it mutates returns \<open>handle_error + _\<close> (on an error the state is the one
  before the call). The two methods that can raise half way, \<open>apply_operation\<close> and
  \<open>apply_cleanup_plan\<close>, return the result paired with the state they leave behind.
\<close>

record HandleStateTracker =
  st_storage :: "(string, HandleStorage) pydict"
  st_values :: "(string, HandleValue) pydict"

definition tracker_new :: HandleStateTracker where
  "tracker_new = \<lparr>st_storage = [], st_values = []\<rparr>"

subsection \<open>Declarations\<close>

definition require_new_name :: "string \<Rightarrow> HandleStateTracker \<Rightarrow> handle_error + unit" where
  "require_new_name name t =
     (if dict_has (st_storage t) name \<or> dict_has (st_values t) name
      then Inl (HandleModelError ''handle name %r is already declared'' [name])
      else Inr ())"

definition declare_storage ::
  "string \<Rightarrow> HandleStorageKind \<Rightarrow> string option \<Rightarrow> HandleStateTracker
     \<Rightarrow> handle_error + HandleStorage \<times> HandleStateTracker" where
  "declare_storage name kind c_type_cname t =
     (case require_new_name name t of
        Inl e \<Rightarrow> Inl e
      | Inr _ \<Rightarrow>
        let contract = storage_contract kind;
            ct = or_default c_type_cname (hs_c_type_cname contract)
        in case validate_storage_declaration kind ct False (hs_long_lived contract) of
             Inl e \<Rightarrow> Inl e
           | Inr contract' \<Rightarrow>
               Inr (contract', t\<lparr>st_storage := dict_set name contract' (st_storage t)\<rparr>))"

definition declare_value ::
  "string \<Rightarrow> HandleStorageKind \<Rightarrow> HandleOwnership \<Rightarrow> string option \<Rightarrow> HandleStateTracker
     \<Rightarrow> handle_error + HandleValue \<times> HandleStateTracker" where
  "declare_value name storage_kind ownership c_type_cname t =
     (case require_new_name name t of
        Inl e \<Rightarrow> Inl e
      | Inr _ \<Rightarrow>
        let contract = storage_contract storage_kind;
            ct = or_default c_type_cname (hs_c_type_cname contract)
        in case validate_storage_declaration storage_kind ct True False of
             Inl e \<Rightarrow> Inl e
           | Inr _ \<Rightarrow>
             if storage_kind = SK_LOCAL \<and> ownership = IMMORTAL
             then Inl (InvalidHandleStorageError
                    ''immortal handles must be declared as context constants'' [])
             else if storage_kind = SK_CONTEXT_CONSTANT \<and> ownership \<noteq> IMMORTAL
             then Inl (InvalidHandleStorageError
                    ''context constants must have immortal ownership'' [])
             else
               let v = \<lparr>hv_storage = contract, hv_ownership = ownership, hv_state = HS_LIVE\<rparr>
               in Inr (v, t\<lparr>st_values := dict_set name v (st_values t)\<rparr>))"

subsection \<open>Reading and consuming handles\<close>

definition tracker_value :: "string \<Rightarrow> HandleStateTracker \<Rightarrow> handle_error + HandleValue" where
  "tracker_value name t =
     (case dict_get (st_values t) name of
        None \<Rightarrow> Inl (HandleModelError ''unknown local handle %r'' [name])
      | Some v \<Rightarrow> Inr v)"

definition tracker_storage :: "string \<Rightarrow> HandleStateTracker \<Rightarrow> handle_error + HandleStorage" where
  "tracker_storage name t =
     (case dict_get (st_storage t) name of
        None \<Rightarrow> Inl (HandleModelError ''unknown indirect storage %r'' [name])
      | Some s \<Rightarrow> Inr s)"

definition tracker_use :: "string \<Rightarrow> HandleStateTracker \<Rightarrow> handle_error + HandleValue" where
  "tracker_use name t =
     (case tracker_value name t of
        Inl e \<Rightarrow> Inl e
      | Inr v \<Rightarrow>
          if hv_state v \<noteq> HS_LIVE
          then Inl (InvalidHandleTransitionError ''cannot use %s handle %r''
                 [handle_state_value (hv_state v), name])
          else Inr v)"

definition consume_owned ::
  "string \<Rightarrow> HandleState \<Rightarrow> string \<Rightarrow> HandleStateTracker
     \<Rightarrow> handle_error + HandleValue \<times> HandleStateTracker" where
  "consume_owned name target_state operation t =
     (case tracker_use name t of
        Inl e \<Rightarrow> Inl e
      | Inr v \<Rightarrow>
          if hv_ownership v \<noteq> OWNED
          then Inl (InvalidHandleTransitionError ''cannot %s %s handle %r; duplicate it first''
                 [operation, ownership_value (hv_ownership v), name])
          else
            let v' = v\<lparr>hv_state := target_state\<rparr>
            in Inr (v', t\<lparr>st_values := dict_set name v' (st_values t)\<rparr>))"

definition tracker_close ::
  "string \<Rightarrow> HandleStateTracker \<Rightarrow> handle_error + HandleValue \<times> HandleStateTracker" where
  "tracker_close name t = consume_owned name HS_CLOSED ''close'' t"

definition tracker_move ::
  "string \<Rightarrow> HandleStateTracker \<Rightarrow> handle_error + HandleValue \<times> HandleStateTracker" where
  "tracker_move name t = consume_owned name HS_MOVED ''move'' t"

definition tracker_duplicate ::
  "string \<Rightarrow> string \<Rightarrow> HandleStateTracker \<Rightarrow> handle_error + HandleValue \<times> HandleStateTracker" where
  "tracker_duplicate source_name target_name t =
     (case tracker_use source_name t of
        Inl e \<Rightarrow> Inl e
      | Inr _ \<Rightarrow> declare_value target_name SK_LOCAL OWNED None t)"

subsection \<open>Operations by contract\<close>

fun use_all :: "string list \<Rightarrow> HandleStateTracker \<Rightarrow> handle_error + unit" where
  "use_all [] t = Inr ()"
| "use_all (n # ns) t =
     (case tracker_use n t of Inl e \<Rightarrow> Inl e | Inr _ \<Rightarrow> use_all ns t)"

text \<open>The first half of \<open>apply_operation\<close>: the arguments are closed or only used.\<close>

definition apply_arguments ::
  "HandleOperation \<Rightarrow> HandleOperationContract \<Rightarrow> string list \<Rightarrow> HandleStateTracker
     \<Rightarrow> handle_error + HandleStateTracker" where
  "apply_arguments operation contract argument_names t =
     (if oc_argument_effect contract = EFFECT_CLOSE
      then if length argument_names \<noteq> 1
           then Inl (HandleModelError ''%s requires exactly one handle argument''
                  [operation_value operation])
           else (case tracker_close (argument_names ! 0) t of
                   Inl e \<Rightarrow> Inl e | Inr (_, t') \<Rightarrow> Inr t')
      else (case use_all argument_names t of Inl e \<Rightarrow> Inl e | Inr _ \<Rightarrow> Inr t))"

definition apply_operation ::
  "HandleOperation \<Rightarrow> string list \<Rightarrow> string option \<Rightarrow> HandleStateTracker
     \<Rightarrow> (handle_error + HandleValue option) \<times> HandleStateTracker" where
  "apply_operation operation argument_names result_name t =
     (case operation_contract operation of
        Inl e \<Rightarrow> (Inl e, t)
      | Inr contract \<Rightarrow>
        (case apply_arguments operation contract argument_names t of
           Inl e \<Rightarrow> (Inl e, t)
         | Inr t' \<Rightarrow>
           (case oc_result_ownership contract of
              None \<Rightarrow>
                if result_name \<noteq> None
                then (Inl (HandleModelError ''%s does not produce a handle result''
                        [operation_value operation]), t')
                else (Inr None, t')
            | Some ownership \<Rightarrow>
                (case result_name of
                   None \<Rightarrow> (Inl (HandleModelError ''%s requires a result handle name''
                              [operation_value operation]), t')
                 | Some rn \<Rightarrow>
                     (case oc_result_storage contract of
                        None \<Rightarrow> (Inl HandleKeyError, t')
                      | Some sk \<Rightarrow>
                          (case declare_value rn sk ownership None t' of
                             Inl e \<Rightarrow> (Inl e, t')
                           | Inr (v, t'') \<Rightarrow> (Inr (Some v), t'')))))))"

subsection \<open>Indirect storage and returns\<close>

definition load_storage ::
  "string \<Rightarrow> string \<Rightarrow> HandleStateTracker \<Rightarrow> handle_error + HandleValue \<times> HandleStateTracker" where
  "load_storage storage_name target_name t =
     (case tracker_storage storage_name t of
        Inl e \<Rightarrow> Inl e
      | Inr contract \<Rightarrow>
          if \<not> hs_load_returns_owned_local contract
          then Inl (InvalidHandleStorageError ''%s storage has no owned-load operation''
                 [storage_kind_value (hs_kind contract)])
          else declare_value target_name SK_LOCAL OWNED None t)"

definition store_storage ::
  "string \<Rightarrow> string \<Rightarrow> HandleStateTracker \<Rightarrow> handle_error + HandleValue" where
  "store_storage storage_name value_name t =
     (case tracker_storage storage_name t of
        Inl e \<Rightarrow> Inl e
      | Inr contract \<Rightarrow>
          if hs_kind contract \<notin> {SK_FIELD, SK_GLOBAL}
          then Inl (InvalidHandleStorageError ''%s storage has no long-lived store operation''
                 [storage_kind_value (hs_kind contract)])
          else tracker_use value_name t)"

definition prepare_return ::
  "string \<Rightarrow> HandleStateTracker \<Rightarrow> handle_error + HandleTransfer \<times> HandleStateTracker" where
  "prepare_return name t =
     (case tracker_use name t of
        Inl e \<Rightarrow> Inl e
      | Inr v \<Rightarrow>
          if hv_ownership v = OWNED
          then (case tracker_move name t of
                  Inl e \<Rightarrow> Inl e | Inr (_, t') \<Rightarrow> Inr (TRANSFER_MOVE, t'))
          else Inr (TRANSFER_DUPLICATE, t))"

subsection \<open>Cleanup\<close>

definition live_owned :: "HandleValue \<Rightarrow> bool" where
  "live_owned v = (hv_ownership v = OWNED \<and> hv_state v = HS_LIVE)"

text \<open>
  \<open>preserve_names\<close> is made a frozenset and its members are used in the set's order; the
  model uses them in the order given. The outcome is the same but for which of several errors
  is reported.
\<close>

definition cleanup_plan ::
  "HandleExitKind \<Rightarrow> string list \<Rightarrow> HandleStateTracker \<Rightarrow> handle_error + HandleCleanupPlan" where
  "cleanup_plan exit_kind preserve_names t =
     (case use_all preserve_names t of
        Inl e \<Rightarrow> Inl e
      | Inr _ \<Rightarrow>
          Inr \<lparr>cp_exit_kind = exit_kind,
               cp_close_names =
                 [name. (name, v) \<leftarrow> rev (st_values t),
                        live_owned v \<and> name \<notin> set preserve_names]\<rparr>)"

fun close_names :: "string list \<Rightarrow> HandleStateTracker
    \<Rightarrow> (handle_error + unit) \<times> HandleStateTracker" where
  "close_names [] t = (Inr (), t)"
| "close_names (n # ns) t =
     (case tracker_close n t of
        Inl e \<Rightarrow> (Inl e, t)
      | Inr (_, t') \<Rightarrow> close_names ns t')"

definition apply_cleanup_plan ::
  "HandleCleanupPlan \<Rightarrow> HandleStateTracker \<Rightarrow> (handle_error + unit) \<times> HandleStateTracker" where
  "apply_cleanup_plan plan t = close_names (cp_close_names plan) t"

subsection \<open>Branches\<close>

text \<open>The model's states are values, so a copy is the state itself.\<close>

definition tracker_fork :: "HandleStateTracker \<Rightarrow> HandleStateTracker" where
  "tracker_fork t = \<lparr>st_storage = st_storage t, st_values = st_values t\<rparr>"

fun merge_values ::
  "(string, HandleValue) pydict \<Rightarrow> (string, HandleValue) pydict \<Rightarrow> handle_error + unit" where
  "merge_values [] branch_values = Inr ()"
| "merge_values ((name, first_value) # rest) branch_values =
     (case dict_get branch_values name of
        None \<Rightarrow> Inl HandleKeyError
      | Some branch_value \<Rightarrow>
          if branch_value \<noteq> first_value
          then Inl (InvalidHandleTransitionError
                 ''handle %r has incompatible branch states %s and %s; emit matching cleanup before merging''
                 [name, handle_state_value (hv_state first_value),
                  handle_state_value (hv_state branch_value)])
          else merge_values rest branch_values)"

fun merge_branches ::
  "HandleStateTracker \<Rightarrow> HandleStateTracker list \<Rightarrow> handle_error + HandleStateTracker" where
  "merge_branches first [] = Inr (tracker_fork first)"
| "merge_branches first (branch # branches) =
     (if \<not> dict_eq (st_storage branch) (st_storage first)
      then Inl (InvalidHandleTransitionError
             ''indirect handle storage differs across control-flow branches'' [])
      else if set (dict_keys (st_values branch)) \<noteq> set (dict_keys (st_values first))
      then Inl (InvalidHandleTransitionError
             ''handle values differ across control-flow branches'' [])
      else (case merge_values (st_values first) (st_values branch) of
              Inl e \<Rightarrow> Inl e
            | Inr _ \<Rightarrow> merge_branches first branches))"

definition tracker_merge :: "HandleStateTracker list \<Rightarrow> handle_error + HandleStateTracker" where
  "tracker_merge branches =
     (case branches of
        [] \<Rightarrow> Inl (HandleModelError ''at least one handle-state branch is required'' [])
      | first # rest \<Rightarrow> merge_branches first rest)"

subsection \<open>Exit check\<close>

definition live_owned_handles :: "HandleStateTracker \<Rightarrow> string list" where
  "live_owned_handles t = sort [name. (name, v) \<leftarrow> st_values t, live_owned v]"

definition assert_no_live_owned_handles :: "HandleStateTracker \<Rightarrow> handle_error + unit" where
  "assert_no_live_owned_handles t =
     (let live = live_owned_handles t in
      if live \<noteq> []
      then Inl (InvalidHandleTransitionError
             ''owned handles remain live at control-flow exit: %s'' live)
      else Inr ())"

end
