(* ===== verification/HandleLifetime.thy ===== *)
theory HandleLifetime
  imports HandleTracker
begin

text \<open>
  What the methods of \<open>HandleStateTracker\<close> do: when each returns and what it leaves, read off the
  dictionaries; a call of any public method as data, and the states that calls reach; and that every
  call, returning or raising, is a chain of two primitive updates, over which the invariant and the
  lifetimes of HandleSafety are proved by induction.
\<close>

subsection \<open>Each method, read off the dictionaries\<close>

definition fresh_name :: "HandleStateTracker \<Rightarrow> string \<Rightarrow> bool" where
  "fresh_name t n \<longleftrightarrow> \<not> dict_has (st_storage t) n \<and> \<not> dict_has (st_values t) n"

lemma require_new_name_Inr: "require_new_name n t = Inr u \<longleftrightarrow> fresh_name t n"
  by (auto simp: require_new_name_def fresh_name_def)

lemma tracker_use_Inr:
  "tracker_use n t = Inr v \<longleftrightarrow> dict_get (st_values t) n = Some v \<and> hv_state v = HS_LIVE"
  by (auto simp: tracker_use_def tracker_value_def split: option.splits)

lemma consume_owned_Inr:
  "consume_owned n s w t = Inr (v', t') \<longleftrightarrow>
     (\<exists>v. dict_get (st_values t) n = Some v \<and> live_owned v \<and> v' = v\<lparr>hv_state := s\<rparr>
        \<and> t' = t\<lparr>st_values := dict_set n v' (st_values t)\<rparr>)"
proof (cases "tracker_use n t")
  case (Inl e)
  then have "\<nexists>v. dict_get (st_values t) n = Some v \<and> hv_state v = HS_LIVE"
    using tracker_use_Inr [of n t] by auto
  with Inl show ?thesis by (auto simp: consume_owned_def live_owned_def)
next
  case (Inr v)
  then have "dict_get (st_values t) n = Some v" "hv_state v = HS_LIVE"
    by (simp_all add: tracker_use_Inr)
  with Inr show ?thesis by (auto simp: consume_owned_def live_owned_def Let_def)
qed

lemma declare_value_Inr:
  "declare_value n k ow ct t = Inr (v, t') \<longleftrightarrow>
     fresh_name t n \<and> k \<in> {SK_LOCAL, SK_CONTEXT_CONSTANT}
     \<and> or_default ct ''HPy'' = ''HPy'' \<and> (k = SK_CONTEXT_CONSTANT \<longleftrightarrow> ow = IMMORTAL)
     \<and> v = \<lparr>hv_storage = storage_contract k, hv_ownership = ow, hv_state = HS_LIVE\<rparr>
     \<and> t' = t\<lparr>st_values := dict_set n v (st_values t)\<rparr>"
proof (cases "require_new_name n t")
  case (Inl e)
  then have "\<not> fresh_name t n" using require_new_name_Inr [of n t] by auto
  with Inl show ?thesis by (simp add: declare_value_def)
next
  case (Inr u)
  then have fresh: "fresh_name t n" by (simp add: require_new_name_Inr)
  show ?thesis
    using Inr fresh
    by (cases k) (auto simp: declare_value_def Let_def validate_storage_declaration_def
        storage_contract_def split: if_splits)
qed

lemma declare_storage_Inr:
  "declare_storage n k ct t = Inr (c, t') \<longleftrightarrow>
     fresh_name t n \<and> c = storage_contract k
     \<and> or_default ct (hs_c_type_cname c) = hs_c_type_cname c
     \<and> t' = t\<lparr>st_storage := dict_set n c (st_storage t)\<rparr>"
proof (cases "require_new_name n t")
  case (Inl e)
  then have "\<not> fresh_name t n" using require_new_name_Inr [of n t] by auto
  with Inl show ?thesis by (simp add: declare_storage_def)
next
  case (Inr u)
  then have fresh: "fresh_name t n" by (simp add: require_new_name_Inr)
  show ?thesis
    using Inr fresh
    by (cases k) (auto simp: declare_storage_def Let_def validate_storage_declaration_def
        storage_contract_def split: if_splits)
qed

lemmas tracker_method_iffs =
  tracker_use_Inr consume_owned_Inr declare_value_Inr declare_storage_Inr

lemma tracker_duplicate_Inr:
  "tracker_duplicate s n t = Inr (v, t') \<longleftrightarrow>
     (\<exists>w. tracker_use s t = Inr w) \<and> declare_value n SK_LOCAL OWNED None t = Inr (v, t')"
  by (auto simp: tracker_duplicate_def split: sum.splits)

lemma load_storage_Inr:
  "load_storage s n t = Inr (v, t') \<longleftrightarrow>
     (\<exists>c. dict_get (st_storage t) s = Some c \<and> hs_load_returns_owned_local c)
     \<and> declare_value n SK_LOCAL OWNED None t = Inr (v, t')"
  by (auto simp: load_storage_def tracker_storage_def split: option.splits)

lemma prepare_return_Inr:
  "prepare_return n t = Inr (k, t') \<longleftrightarrow>
     (\<exists>v. tracker_use n t = Inr v \<and>
        (if hv_ownership v = OWNED
         then k = TRANSFER_MOVE \<and> (\<exists>v'. tracker_move n t = Inr (v', t'))
         else k = TRANSFER_DUPLICATE \<and> t' = t))"
  by (auto simp: prepare_return_def split: sum.splits)

lemma use_all_Inr: "use_all ns t = Inr u \<longleftrightarrow> (\<forall>n \<in> set ns. \<exists>v. tracker_use n t = Inr v)"
  by (induction ns) (auto split: sum.splits)

subsection \<open>Running any method\<close>

text \<open>
  One public method call on a tracker, whether it returns, and the state the tracker is in
  afterwards, also after a call that raised. \<open>Do_apply_plan\<close> applies any plan, also one computed in
  another state; \<open>Do_cleanup\<close> computes a plan and applies it.
\<close>

datatype tracker_op =
  Do_declare_storage string HandleStorageKind "string option"
| Do_declare_value string HandleStorageKind HandleOwnership "string option"
| Do_close string
| Do_move string
| Do_duplicate string string
| Do_apply HandleOperation "string list" "string option"
| Do_load_storage string string
| Do_prepare_return string
| Do_use string
| Do_store_storage string string
| Do_cleanup_plan HandleExitKind "string list"
| Do_apply_plan HandleCleanupPlan
| Do_cleanup HandleExitKind "string list"
| Do_assert_no_live_owned_handles

fun state_after :: "HandleStateTracker \<Rightarrow> 'e + 'a \<times> HandleStateTracker \<Rightarrow> HandleStateTracker" where
  "state_after t (Inl e) = t"
| "state_after t (Inr (a, t')) = t'"

fun tracker_exec :: "tracker_op \<Rightarrow> HandleStateTracker \<Rightarrow> HandleStateTracker" where
  "tracker_exec (Do_declare_storage n k ct) t = state_after t (declare_storage n k ct t)"
| "tracker_exec (Do_declare_value n k ow ct) t = state_after t (declare_value n k ow ct t)"
| "tracker_exec (Do_close n) t = state_after t (tracker_close n t)"
| "tracker_exec (Do_move n) t = state_after t (tracker_move n t)"
| "tracker_exec (Do_duplicate s n) t = state_after t (tracker_duplicate s n t)"
| "tracker_exec (Do_apply op args res) t = snd (apply_operation op args res t)"
| "tracker_exec (Do_load_storage s n) t = state_after t (load_storage s n t)"
| "tracker_exec (Do_prepare_return n) t = state_after t (prepare_return n t)"
| "tracker_exec (Do_use n) t = t"
| "tracker_exec (Do_store_storage s n) t = t"
| "tracker_exec (Do_cleanup_plan k ps) t = t"
| "tracker_exec (Do_apply_plan plan) t = snd (apply_cleanup_plan plan t)"
| "tracker_exec (Do_cleanup k ps) t =
     (case cleanup_plan k ps t of
        Inl e \<Rightarrow> t
      | Inr plan \<Rightarrow> snd (apply_cleanup_plan plan t))"
| "tracker_exec Do_assert_no_live_owned_handles t = t"

fun tracker_returns :: "tracker_op \<Rightarrow> HandleStateTracker \<Rightarrow> bool" where
  "tracker_returns (Do_declare_storage n k ct) t = (\<not> isl (declare_storage n k ct t))"
| "tracker_returns (Do_declare_value n k ow ct) t = (\<not> isl (declare_value n k ow ct t))"
| "tracker_returns (Do_close n) t = (\<not> isl (tracker_close n t))"
| "tracker_returns (Do_move n) t = (\<not> isl (tracker_move n t))"
| "tracker_returns (Do_duplicate s n) t = (\<not> isl (tracker_duplicate s n t))"
| "tracker_returns (Do_apply op args res) t = (\<not> isl (fst (apply_operation op args res t)))"
| "tracker_returns (Do_load_storage s n) t = (\<not> isl (load_storage s n t))"
| "tracker_returns (Do_prepare_return n) t = (\<not> isl (prepare_return n t))"
| "tracker_returns (Do_use n) t = (\<not> isl (tracker_use n t))"
| "tracker_returns (Do_store_storage s n) t = (\<not> isl (store_storage s n t))"
| "tracker_returns (Do_cleanup_plan k ps) t = (\<not> isl (cleanup_plan k ps t))"
| "tracker_returns (Do_apply_plan plan) t = (\<not> isl (fst (apply_cleanup_plan plan t)))"
| "tracker_returns (Do_cleanup k ps) t =
     (case cleanup_plan k ps t of
        Inl e \<Rightarrow> False
      | Inr plan \<Rightarrow> \<not> isl (fst (apply_cleanup_plan plan t)))"
| "tracker_returns Do_assert_no_live_owned_handles t = (\<not> isl (assert_no_live_owned_handles t))"

fun tracker_run :: "tracker_op list \<Rightarrow> HandleStateTracker \<Rightarrow> HandleStateTracker" where
  "tracker_run [] t = t"
| "tracker_run (op # ops) t = tracker_run ops (tracker_exec op t)"

inductive tracker_reachable :: "HandleStateTracker \<Rightarrow> bool" where
  tracker_start: "tracker_reachable tracker_new"
| tracker_next: "tracker_reachable t \<Longrightarrow> tracker_reachable (tracker_exec op t)"

text \<open>
  Every method is a chain of two primitive updates: a fresh name gets a live value or a storage
  contract, and a live owned value is closed or moved. All later inductions are over this
  relation.
\<close>

inductive primitive_step :: "HandleStateTracker \<Rightarrow> HandleStateTracker \<Rightarrow> bool" where
  prim_storage: "declare_storage n k ct t = Inr (c, t') \<Longrightarrow> primitive_step t t'"
| prim_value: "declare_value n k ow ct t = Inr (v, t') \<Longrightarrow> primitive_step t t'"
| prim_consume: "consume_owned n s w t = Inr (v, t') \<Longrightarrow> s \<noteq> HS_LIVE \<Longrightarrow> primitive_step t t'"

lemma close_primitive: "tracker_close n t = Inr (v, t') \<Longrightarrow> primitive_step t t'"
  by (auto simp: tracker_close_def intro: prim_consume)

lemma move_primitive: "tracker_move n t = Inr (v, t') \<Longrightarrow> primitive_step t t'"
  by (auto simp: tracker_move_def intro: prim_consume)

lemma close_names_primitive: "primitive_step\<^sup>*\<^sup>* t (snd (close_names ns t))"
proof (induction ns arbitrary: t)
  case Nil
  then show ?case by simp
next
  case (Cons n ns)
  show ?case
  proof (cases "tracker_close n t")
    case (Inl e)
    then show ?thesis by simp
  next
    case (Inr p)
    obtain v t' where p: "p = (v, t')" by (cases p)
    with Inr have "primitive_step t t'" by (simp add: close_primitive)
    then have "primitive_step\<^sup>*\<^sup>* t (snd (close_names ns t'))"
      using Cons.IH [of t'] by (rule converse_rtranclp_into_rtranclp)
    with Inr p show ?thesis by simp
  qed
qed

lemma apply_arguments_primitive:
  "apply_arguments op c args t = Inr t' \<Longrightarrow> primitive_step\<^sup>*\<^sup>* t t'"
  by (auto simp: apply_arguments_def split: if_splits sum.splits dest: close_primitive)

lemma apply_operation_primitive: "primitive_step\<^sup>*\<^sup>* t (snd (apply_operation op args res t))"
proof (cases "operation_contract op")
  case (Inl e)
  then show ?thesis by (simp add: apply_operation_def)
next
  case (Inr c)
  show ?thesis
  proof (cases "apply_arguments op c args t")
    case (Inl e)
    with Inr show ?thesis by (simp add: apply_operation_def)
  next
    case args: (Inr t1)
    then have chain: "primitive_step\<^sup>*\<^sup>* t t1" by (rule apply_arguments_primitive)
    have "snd (apply_operation op args res t) = t1 \<or>
      primitive_step t1 (snd (apply_operation op args res t))"
      using Inr args
      by (auto simp: apply_operation_def split: option.split sum.split intro: prim_value)
    with chain show ?thesis by (auto intro: rtranclp.rtrancl_into_rtrancl)
  qed
qed

lemma primitive_chain: "primitive_step t t' \<Longrightarrow> primitive_step\<^sup>*\<^sup>* t t'"
  by (rule r_into_rtranclp)

lemmas primitive_chains =
  primitive_chain [OF prim_storage] primitive_chain [OF prim_value]
  primitive_chain [OF close_primitive] primitive_chain [OF move_primitive]

lemma tracker_exec_primitive: "primitive_step\<^sup>*\<^sup>* t (tracker_exec op t)"
proof (cases op)
  case (Do_declare_storage n k ct)
  then show ?thesis
    by (cases "declare_storage n k ct t") (auto intro: primitive_chains)
next
  case (Do_declare_value n k ow ct)
  then show ?thesis
    by (cases "declare_value n k ow ct t") (auto intro: primitive_chains)
next
  case (Do_close n)
  then show ?thesis
    by (cases "tracker_close n t") (auto intro: primitive_chains)
next
  case (Do_move n)
  then show ?thesis
    by (cases "tracker_move n t") (auto intro: primitive_chains)
next
  case (Do_duplicate s n)
  then show ?thesis
    by (cases "tracker_duplicate s n t") (auto simp: tracker_duplicate_Inr intro: primitive_chains)
next
  case (Do_apply opn args res)
  then show ?thesis by (simp add: apply_operation_primitive)
next
  case (Do_load_storage s n)
  then show ?thesis
    by (cases "load_storage s n t") (auto simp: load_storage_Inr intro: primitive_chains)
next
  case (Do_prepare_return n)
  then show ?thesis
    by (cases "prepare_return n t")
       (auto simp: prepare_return_Inr split: if_splits intro: primitive_chains)
next
  case (Do_cleanup k ps)
  then show ?thesis
    by (auto simp: apply_cleanup_plan_def close_names_primitive split: sum.split)
next
  case (Do_apply_plan plan)
  then show ?thesis by (simp add: apply_cleanup_plan_def close_names_primitive)
qed simp_all

lemma tracker_run_primitive: "primitive_step\<^sup>*\<^sup>* t (tracker_run ops t)"
  by (induction ops arbitrary: t)
     (auto intro: rtranclp_trans tracker_exec_primitive)

end
