(* ===== verification/HandleSafety.thy ===== *)
theory HandleSafety
  imports HandleLifetime
begin

text \<open>
  The properties of \<open>HandleStateTracker\<close>: its invariant, the lifetimes of its names, and what
  they give for consumption, cleanup plans, branch merges and
  contract-driven operations.
\<close>

subsection \<open>Invariant\<close>

definition value_ok :: "HandleValue \<Rightarrow> bool" where
  "value_ok v \<longleftrightarrow>
     (\<exists>k \<in> {SK_LOCAL, SK_CONTEXT_CONSTANT}. hv_storage v = storage_contract k
        \<and> (k = SK_CONTEXT_CONSTANT \<longleftrightarrow> hv_ownership v = IMMORTAL))
     \<and> (hv_state v \<noteq> HS_LIVE \<longrightarrow> hv_ownership v = OWNED)"

definition tracker_inv :: "HandleStateTracker \<Rightarrow> bool" where
  "tracker_inv t \<longleftrightarrow>
     dict_wf (st_storage t) \<and> dict_wf (st_values t)
     \<and> (\<forall>n. \<not> (dict_has (st_storage t) n \<and> dict_has (st_values t) n))
     \<and> (\<forall>n s. dict_get (st_storage t) n = Some s \<longrightarrow> s = storage_contract (hs_kind s))
     \<and> (\<forall>n v. dict_get (st_values t) n = Some v \<longrightarrow> value_ok v)"

lemma tracker_inv_new: "tracker_inv tracker_new"
  by (simp add: tracker_inv_def tracker_new_def dict_simps)

lemma tracker_inv_primitive:
  assumes "primitive_step t t'" and inv: "tracker_inv t"
  shows "tracker_inv t'"
  using assms(1)
proof cases
  case (prim_storage n k ct c)
  with inv show ?thesis
    by (auto simp: declare_storage_Inr tracker_inv_def dict_simps fresh_name_def)
next
  case (prim_value n k ow ct v)
  with inv show ?thesis
    by (auto simp: declare_value_Inr tracker_inv_def dict_simps fresh_name_def value_ok_def)
next
  case (prim_consume n s w v)
  then obtain u where u: "dict_get (st_values t) n = Some u" "live_owned u"
      "v = u\<lparr>hv_state := s\<rparr>" "t' = t\<lparr>st_values := dict_set n v (st_values t)\<rparr>"
    by (auto simp: consume_owned_Inr)
  from inv u(1) have "value_ok u" by (auto simp: tracker_inv_def)
  with u(2,3) have v: "value_ok v" by (auto simp: value_ok_def live_owned_def)
  from u(1) have "dict_has (st_values t) n" by (simp add: dict_has_def)
  with inv v u(4) show ?thesis
    by (auto simp: tracker_inv_def dict_get_set dict_has_set)
qed

lemma tracker_inv_primitives: "primitive_step\<^sup>*\<^sup>* t t' \<Longrightarrow> tracker_inv t \<Longrightarrow> tracker_inv t'"
  by (induction rule: rtranclp_induct) (auto intro: tracker_inv_primitive)

lemma tracker_reachable_inv: "tracker_reachable t \<Longrightarrow> tracker_inv t"
  by (induction rule: tracker_reachable.induct)
     (auto intro: tracker_inv_new tracker_inv_primitives tracker_exec_primitive)

subsection \<open>The lifetime machine\<close>

datatype lifetime = Unborn | Permanent | Held | Spent

fun value_lifetime :: "HandleValue option \<Rightarrow> lifetime" where
  "value_lifetime None = Unborn"
| "value_lifetime (Some v) =
     (if hv_ownership v \<noteq> OWNED then Permanent
      else if hv_state v = HS_LIVE then Held else Spent)"

definition lifetimes :: "HandleStateTracker \<Rightarrow> string \<Rightarrow> lifetime" where
  "lifetimes t n = value_lifetime (dict_get (st_values t) n)"

inductive lifetime_move :: "(string \<Rightarrow> lifetime) \<Rightarrow> (string \<Rightarrow> lifetime) \<Rightarrow> bool" where
  become_held: "l n = Unborn \<Longrightarrow> lifetime_move l (l(n := Held))"
| become_permanent: "l n = Unborn \<Longrightarrow> lifetime_move l (l(n := Permanent))"
| spend: "l n = Held \<Longrightarrow> lifetime_move l (l(n := Spent))"

inductive_cases lifetime_moveE: "lifetime_move l l'"

lemma lifetimes_set:
  "lifetimes (t\<lparr>st_values := dict_set n v (st_values t)\<rparr>) =
     (lifetimes t)(n := value_lifetime (Some v))"
  by (auto simp: lifetimes_def fun_eq_iff dict_get_set)

lemma primitive_lifetime_move:
  assumes "primitive_step t t'"
  shows "lifetimes t' = lifetimes t \<or> lifetime_move (lifetimes t) (lifetimes t')"
  using assms
proof cases
  case (prim_storage n k ct c)
  then show ?thesis by (auto simp: declare_storage_Inr lifetimes_def)
next
  case (prim_value n k ow ct v)
  then have n: "lifetimes t n = Unborn"
    and t': "lifetimes t' = (lifetimes t)(n := (if ow = OWNED then Held else Permanent))"
    by (auto simp: declare_value_Inr fresh_name_def dict_has_def lifetimes_set)
       (simp_all add: lifetimes_def)
  from n have "lifetime_move (lifetimes t) (lifetimes t')"
    unfolding t' by (cases "ow = OWNED") (auto intro: lifetime_move.intros)
  then show ?thesis by simp
next
  case (prim_consume n s w v)
  then obtain u where u: "dict_get (st_values t) n = Some u" "live_owned u"
      "v = u\<lparr>hv_state := s\<rparr>" "t' = t\<lparr>st_values := dict_set n v (st_values t)\<rparr>" "s \<noteq> HS_LIVE"
    by (auto simp: consume_owned_Inr)
  then have "lifetimes t n = Held" "lifetimes t' = (lifetimes t)(n := Spent)"
    by (simp_all add: lifetimes_set live_owned_def) (simp add: lifetimes_def)
  then show ?thesis using spend [of "lifetimes t" n] by simp
qed

lemma primitives_lifetime_moves:
  "primitive_step\<^sup>*\<^sup>* t t' \<Longrightarrow> lifetime_move\<^sup>*\<^sup>* (lifetimes t) (lifetimes t')"
proof (induction rule: rtranclp_induct)
  case base
  show ?case by simp
next
  case (step t1 t2)
  from primitive_lifetime_move [OF step.hyps(2)] step.IH show ?case
    by (auto intro: rtranclp.rtrancl_into_rtrancl)
qed

lemma spent_stays: "lifetime_move\<^sup>*\<^sup>* l l' \<Longrightarrow> l n = Spent \<Longrightarrow> l' n = Spent"
  by (induction rule: rtranclp_induct) (auto elim!: lifetime_moveE)

lemma permanent_stays: "lifetime_move\<^sup>*\<^sup>* l l' \<Longrightarrow> l n = Permanent \<Longrightarrow> l' n = Permanent"
  by (induction rule: rtranclp_induct) (auto elim!: lifetime_moveE)

text \<open>What a caller can do with a name, by its lifetime.\<close>

lemma use_returns_iff:
  assumes "tracker_inv t"
  shows "(\<exists>v. tracker_use n t = Inr v) \<longleftrightarrow> lifetimes t n \<in> {Permanent, Held}"
  using assms by (cases "dict_get (st_values t) n")
    (auto simp: tracker_use_Inr lifetimes_def tracker_inv_def value_ok_def)

lemma consume_returns_iff:
  "(\<exists>r. consume_owned n s w t = Inr r) \<longleftrightarrow> lifetimes t n = Held"
  by (cases "dict_get (st_values t) n")
     (auto simp: consume_owned_Inr lifetimes_def live_owned_def)

lemma spent_raises:
  assumes "lifetimes t n = Spent"
  shows "\<exists>e. tracker_use n t = Inl e" "\<exists>e. consume_owned n s w t = Inl e"
    "\<exists>e. declare_value n k ow ct t = Inl e" "\<exists>e. declare_storage n k ct t = Inl e"
proof -
  obtain v where v: "dict_get (st_values t) n = Some v" "hv_state v \<noteq> HS_LIVE"
    using assms by (cases "dict_get (st_values t) n") (auto simp: lifetimes_def split: if_splits)
  then have "\<not> fresh_name t n" by (simp add: fresh_name_def dict_has_def)
  then show "\<exists>e. declare_value n k ow ct t = Inl e" "\<exists>e. declare_storage n k ct t = Inl e"
    by (cases "declare_value n k ow ct t"; auto simp: declare_value_Inr)
       (cases "declare_storage n k ct t"; auto simp: declare_storage_Inr \<open>\<not> fresh_name t n\<close>)
  show "\<exists>e. tracker_use n t = Inl e"
    using v by (cases "tracker_use n t") (auto simp: tracker_use_Inr)
  show "\<exists>e. consume_owned n s w t = Inl e"
    using v by (cases "consume_owned n s w t") (auto simp: consume_owned_Inr live_owned_def)
qed

lemma consumed_spent:
  assumes "consume_owned n s w t = Inr (v, t')" and "s \<noteq> HS_LIVE"
  shows "lifetimes t' n = Spent"
  using assms by (auto simp: consume_owned_Inr lifetimes_set live_owned_def)

subsection \<open>Properties: linear consumption\<close>

definition example_tracker :: HandleStateTracker where
  "example_tracker =
     tracker_run [Do_declare_value ''arg'' SK_LOCAL BORROWED_ARGUMENT None,
                  Do_declare_storage ''g'' SK_GLOBAL None,
                  Do_duplicate ''arg'' ''a'', Do_load_storage ''g'' ''b''] tracker_new"

lemma tracker_run_reachable: "tracker_reachable t \<Longrightarrow> tracker_reachable (tracker_run ops t)"
  by (induction ops arbitrary: t) (auto intro: tracker_next)

lemma example_tracker_reachable: "tracker_reachable example_tracker"
  unfolding example_tracker_def by (rule tracker_run_reachable [OF tracker_start])

lemma example_tracker_value:
  "example_tracker =
     \<lparr>st_storage = [(''g'', storage_contract SK_GLOBAL)],
      st_values =
        [(''arg'', \<lparr>hv_storage = storage_contract SK_LOCAL, hv_ownership = BORROWED_ARGUMENT,
            hv_state = HS_LIVE\<rparr>),
         (''a'', \<lparr>hv_storage = storage_contract SK_LOCAL, hv_ownership = OWNED,
            hv_state = HS_LIVE\<rparr>),
         (''b'', \<lparr>hv_storage = storage_contract SK_LOCAL, hv_ownership = OWNED,
            hv_state = HS_LIVE\<rparr>)]\<rparr>"
  by code_simp

text \<open>C3. No use after consumption: once a handle has been closed or moved, then after any further
  sequence of calls (returning or raising) using, closing or moving it raises, and its name
  cannot be declared again, as a value or as storage.\<close>

theorem consumed_handle_unusable:
  assumes "tracker_close n t = Inr (v, t1) \<or> tracker_move n t = Inr (v, t1)"
    and "t2 = tracker_run ops t1"
  shows "(\<exists>e. tracker_use n t2 = Inl e) \<and> (\<exists>e. tracker_close n t2 = Inl e)
    \<and> (\<exists>e. tracker_move n t2 = Inl e) \<and> (\<exists>e. declare_value n k ow ct t2 = Inl e)
    \<and> (\<exists>e. declare_storage n k ct t2 = Inl e)"
proof -
  have "lifetimes t1 n = Spent"
    using assms(1) by (auto simp: tracker_close_def tracker_move_def dest: consumed_spent)
  then have "lifetimes t2 n = Spent"
    unfolding assms(2)
    using primitives_lifetime_moves [OF tracker_run_primitive] by (rule spent_stays [rotated])
  from spent_raises [OF this] show ?thesis by (simp add: tracker_close_def tracker_move_def)
qed

theorem consumed_handle_unusable_witness:
  "\<exists>v t1. tracker_close ''a'' example_tracker = Inr (v, t1)
     \<and> (\<exists>e. tracker_use ''a'' (tracker_run [Do_duplicate ''arg'' ''a''] t1) = Inl e)"
proof -
  obtain v t1 where close: "tracker_close ''a'' example_tracker = Inr (v, t1)"
    by (simp add: example_tracker_value tracker_close_def consume_owned_def tracker_use_def
        tracker_value_def Let_def)
  with consumed_handle_unusable [of "''a''" example_tracker v t1] show ?thesis by blast
qed

subsection \<open>Cleanup plans\<close>

definition close_value :: "HandleValue \<Rightarrow> HandleValue" where
  "close_value v = v\<lparr>hv_state := HS_CLOSED\<rparr>"

text \<open>The tracker after closing exactly the names of a set.\<close>

definition with_closed :: "string set \<Rightarrow> HandleStateTracker \<Rightarrow> HandleStateTracker" where
  "with_closed ns t =
     t\<lparr>st_values := map (\<lambda>(n, v). (n, if n \<in> ns then close_value v else v)) (st_values t)\<rparr>"

lemma with_closed_empty [simp]: "with_closed {} t = t"
  by (simp add: with_closed_def)

lemma tracker_close_with_closed:
  assumes "dict_wf (st_values t)" and "dict_get (st_values t) n = Some v" and "live_owned v"
  shows "tracker_close n t = Inr (close_value v, with_closed {n} t)"
proof -
  have has: "dict_has (st_values t) n" using assms(2) by (simp add: dict_has_def)
  have "map (\<lambda>(j, w). if j = n then (n, close_value v) else (j, w)) (st_values t)
      = map (\<lambda>(j, w). (j, if j \<in> {n} then close_value w else w)) (st_values t)"
    using assms(1,2) by (intro map_cong refl) (auto simp: dict_wf_mem)
  then have "tracker_close n t = Inr (close_value v, with_closed {n} t)"
    using assms has
    by (simp add: tracker_close_def consume_owned_Inr dict_set_map with_closed_def
        close_value_def [symmetric])
  then show ?thesis .
qed

lemma with_closed_with_closed: "with_closed B (with_closed A t) = with_closed (A \<union> B) t"
proof -
  have "(\<lambda>(n, v). (n, if n \<in> B then close_value v else v))
      \<circ> (\<lambda>(n, v). (n, if n \<in> A then close_value v else v))
      = (\<lambda>(n, v). (n, if n \<in> A \<union> B then close_value v else v))"
    by (auto simp: fun_eq_iff close_value_def)
  then show ?thesis by (simp add: with_closed_def)
qed

lemma with_closed_keys: "dict_keys (st_values (with_closed A t)) = dict_keys (st_values t)"
  by (simp add: with_closed_def case_prod_beta comp_def)

lemma with_closed_wf: "dict_wf (st_values (with_closed A t)) = dict_wf (st_values t)"
  using with_closed_keys [of A t] by (simp add: dict_wf_def)

lemma with_closed_get:
  "dict_get (st_values (with_closed A t)) n =
     map_option (\<lambda>v. if n \<in> A then close_value v else v) (dict_get (st_values t) n)"
proof -
  have "dict_get (map (\<lambda>(n, v). (n, if n \<in> A then close_value v else v)) vs) n =
      map_option (\<lambda>v. if n \<in> A then close_value v else v) (dict_get vs n)" for vs
    by (induction vs) auto
  then show ?thesis by (simp add: with_closed_def)
qed

lemma close_names_with_closed:
  "dict_wf (st_values t) \<Longrightarrow> distinct ns
   \<Longrightarrow> (\<And>n. n \<in> set ns \<Longrightarrow> \<exists>v. dict_get (st_values t) n = Some v \<and> live_owned v)
   \<Longrightarrow> close_names ns t = (Inr (), with_closed (set ns) t)"
proof (induction ns arbitrary: t)
  case Nil
  then show ?case by simp
next
  case (Cons n ns)
  from Cons.prems(3) [of n] obtain v
    where v: "dict_get (st_values t) n = Some v" "live_owned v" by auto
  have close: "tracker_close n t = Inr (close_value v, with_closed {n} t)"
    by (rule tracker_close_with_closed [OF Cons.prems(1) v])
  have "close_names ns (with_closed {n} t) = (Inr (), with_closed (set ns) (with_closed {n} t))"
  proof (rule Cons.IH)
    show "dict_wf (st_values (with_closed {n} t))" using Cons.prems(1) by (simp add: with_closed_wf)
    show "distinct ns" using Cons.prems(2) by simp
    fix m assume "m \<in> set ns"
    with Cons.prems(2) have "m \<noteq> n" by auto
    with Cons.prems(3) [of m] \<open>m \<in> set ns\<close>
    show "\<exists>v. dict_get (st_values (with_closed {n} t)) m = Some v \<and> live_owned v"
      by (auto simp: with_closed_get)
  qed
  with close show ?case by (simp add: with_closed_with_closed)
qed

definition live_owned_names :: "HandleStateTracker \<Rightarrow> string list" where
  "live_owned_names t = [name. (name, v) \<leftarrow> st_values t, live_owned v]"

lemma live_owned_names_filter:
  "live_owned_names t = map fst (filter (\<lambda>(n, v). live_owned v) (st_values t))"
proof -
  have "[name. (name, v) \<leftarrow> vs, live_owned v] = map fst (filter (\<lambda>(n, v). live_owned v) vs)" for vs
    by (induction vs) auto
  then show ?thesis by (simp add: live_owned_names_def)
qed

lemma live_owned_handles_names: "live_owned_handles t = sort (live_owned_names t)"
  by (simp add: live_owned_handles_def live_owned_names_def)

lemma live_owned_names_set:
  assumes "dict_wf (st_values t)"
  shows "set (live_owned_names t) = {n. lifetimes t n = Held}"
proof -
  have "set (live_owned_names t) = {n. \<exists>v. (n, v) \<in> set (st_values t) \<and> live_owned v}"
    by (auto simp: live_owned_names_def)
  also have "\<dots> = {n. \<exists>v. dict_get (st_values t) n = Some v \<and> live_owned v}"
    using assms by (simp add: dict_wf_mem)
  also have "\<dots> = {n. lifetimes t n = Held}"
    by (auto simp: lifetimes_def live_owned_def split: option.splits if_splits
        elim: value_lifetime.elims)
  finally show ?thesis .
qed

lemma cleanup_close_names:
  "[name. (name, v) \<leftarrow> rev vs, live_owned v \<and> name \<notin> P] =
     rev (filter (\<lambda>n. n \<notin> P) [name. (name, v) \<leftarrow> vs, live_owned v])"
  by (induction vs) auto

lemma cleanup_plan_Inr:
  "cleanup_plan k P t = Inr plan \<longleftrightarrow>
     (\<forall>n \<in> set P. \<exists>v. tracker_use n t = Inr v)
     \<and> plan = \<lparr>cp_exit_kind = k,
         cp_close_names = rev (filter (\<lambda>n. n \<notin> set P) (live_owned_names t))\<rparr>"
proof -
  have "cleanup_plan k P t =
     (case use_all P t of Inl e \<Rightarrow> Inl e
      | Inr _ \<Rightarrow> Inr \<lparr>cp_exit_kind = k,
         cp_close_names = rev (filter (\<lambda>n. n \<notin> set P) (live_owned_names t))\<rparr>)"
    by (simp only: cleanup_plan_def cleanup_close_names live_owned_names_def)
  then show ?thesis
    using use_all_Inr [of P t] by (cases "use_all P t") auto
qed

lemma live_owned_names_distinct:
  assumes "dict_wf (st_values t)"
  shows "distinct (live_owned_names t)"
  using assms
  by (simp add: live_owned_names_filter dict_wf_def distinct_map_filter)

lemma apply_cleanup_plan_reachable:
  assumes wf: "dict_wf (st_values t)" and plan: "cleanup_plan k P t = Inr plan"
  shows "apply_cleanup_plan plan t =
     (Inr (), with_closed ({n. lifetimes t n = Held} - set P) t)"
proof -
  let ?ns = "rev (filter (\<lambda>n. n \<notin> set P) (live_owned_names t))"
  have ns: "cp_close_names plan = ?ns" using plan by (simp add: cleanup_plan_Inr)
  have "close_names ?ns t = (Inr (), with_closed (set ?ns) t)"
  proof (rule close_names_with_closed [OF wf])
    show "distinct ?ns" using live_owned_names_distinct [OF wf] by simp
    fix n assume "n \<in> set ?ns"
    then show "\<exists>v. dict_get (st_values t) n = Some v \<and> live_owned v"
      using wf by (auto simp: live_owned_names_def dict_wf_mem)
  qed
  moreover have "set ?ns = {n. lifetimes t n = Held} - set P"
    using live_owned_names_set [OF wf] by auto
  ultimately show ?thesis by (simp add: apply_cleanup_plan_def ns)
qed

lemma lifetimes_with_closed:
  "lifetimes (with_closed ({n. lifetimes t n = Held} - P) t) n =
     (if lifetimes t n = Held \<and> n \<notin> P then Spent else lifetimes t n)"
  by (cases "dict_get (st_values t) n")
     (auto simp: lifetimes_def with_closed_get close_value_def)

text \<open>C4. Cleanup: on every reachable tracker, a plan that could be computed applies without an error,
  closes exactly the live owned handles that are not preserved, each once and in reverse order
  of declaration, changes no other handle, and leaves the preserved ones as the only live owned
  handles; with nothing to preserve the exit check then passes.\<close>

theorem cleanup_plan_closes_exactly:
  assumes t: "tracker_reachable t" and plan: "cleanup_plan k P t = Inr plan"
  shows "cp_close_names plan = rev (filter (\<lambda>n. lifetimes t n = Held \<and> n \<notin> set P)
           (dict_keys (st_values t)))
    \<and> (\<exists>t'. apply_cleanup_plan plan t = (Inr (), t')
      \<and> st_storage t' = st_storage t
      \<and> (\<forall>n. lifetimes t' n =
            (if lifetimes t n = Held \<and> n \<notin> set P then Spent else lifetimes t n))
      \<and> set (live_owned_handles t') = {n. lifetimes t n = Held} \<inter> set P
      \<and> (P = [] \<longrightarrow> assert_no_live_owned_handles t' = Inr ()))"
proof (rule conjI)
  have wf: "dict_wf (st_values t)" using tracker_reachable_inv [OF t] by (simp add: tracker_inv_def)
  have names: "live_owned_names t = filter (\<lambda>n. lifetimes t n = Held) (dict_keys (st_values t))"
  proof -
    note live_owned_names_filter [of t]
    also have "filter (\<lambda>(n, v). live_owned v) (st_values t)
        = filter (\<lambda>p. lifetimes t (fst p) = Held) (st_values t)"
    proof (rule filter_cong [OF refl])
      fix p assume "p \<in> set (st_values t)"
      with wf have "dict_get (st_values t) (fst p) = Some (snd p)"
        by (metis dict_wf_mem prod.collapse)
      then show "(case p of (n, v) \<Rightarrow> live_owned v) = (lifetimes t (fst p) = Held)"
        by (simp add: lifetimes_def live_owned_def case_prod_beta)
    qed
    finally show ?thesis by (simp add: filter_map comp_def)
  qed
  show "cp_close_names plan = rev (filter (\<lambda>n. lifetimes t n = Held \<and> n \<notin> set P)
      (dict_keys (st_values t)))"
    using plan by (simp add: cleanup_plan_Inr names filter_filter conj_commute)
  let ?t' = "with_closed ({n. lifetimes t n = Held} - set P) t"
  have live: "set (live_owned_handles ?t') = {n. lifetimes t n = Held} \<inter> set P"
    using wf by (auto simp: live_owned_handles_names live_owned_names_set with_closed_wf
        lifetimes_with_closed)
  have "P = [] \<longrightarrow> assert_no_live_owned_handles ?t' = Inr ()"
    using live by (auto simp: assert_no_live_owned_handles_def)
  then show "\<exists>t'. apply_cleanup_plan plan t = (Inr (), t')
      \<and> st_storage t' = st_storage t
      \<and> (\<forall>n. lifetimes t' n =
            (if lifetimes t n = Held \<and> n \<notin> set P then Spent else lifetimes t n))
      \<and> set (live_owned_handles t') = {n. lifetimes t n = Held} \<inter> set P
      \<and> (P = [] \<longrightarrow> assert_no_live_owned_handles t' = Inr ())"
    using apply_cleanup_plan_reachable [OF wf plan] live
    by (intro exI [of _ ?t']) (simp add: lifetimes_with_closed, simp add: with_closed_def)
qed

theorem cleanup_plan_closes_exactly_witness:
  "\<exists>plan. cleanup_plan EXIT_RETURN [''a''] example_tracker = Inr plan
     \<and> cp_close_names plan = [''b'']"
proof -
  obtain plan where plan: "cleanup_plan EXIT_RETURN [''a''] example_tracker = Inr plan"
    by (simp add: example_tracker_value cleanup_plan_def tracker_use_def tracker_value_def)
  have "cp_close_names plan = rev (filter (\<lambda>n. lifetimes example_tracker n = Held \<and> n \<notin> set [''a''])
      (dict_keys (st_values example_tracker)))"
    by (rule conjunct1 [OF cleanup_plan_closes_exactly [OF example_tracker_reachable plan]])
  also have "\<dots> = [''b'']" by (simp add: example_tracker_value lifetimes_def)
  finally show ?thesis using plan by blast
qed

subsection \<open>Branch merges\<close>

lemma merge_values_Inr:
  "merge_values vs ws = Inr u \<longleftrightarrow> list_all (\<lambda>(n, v). dict_get ws n = Some v) vs"
  by (induction vs) (auto split: option.splits if_splits)

definition same_dicts :: "HandleStateTracker \<Rightarrow> HandleStateTracker \<Rightarrow> bool" where
  "same_dicts a b \<longleftrightarrow>
     dict_get (st_storage a) = dict_get (st_storage b) \<and> dict_get (st_values a) = dict_get (st_values b)"

lemma merge_branches_Inr:
  assumes "tracker_inv first" and "\<forall>b \<in> set bs. tracker_inv b"
  shows "merge_branches first bs = Inr r \<longleftrightarrow> (\<forall>b \<in> set bs. same_dicts b first) \<and> r = first"
  using assms(2)
proof (induction bs)
  case Nil
  then show ?case by (auto simp: tracker_fork_def)
next
  case (Cons b bs)
  then have wf: "dict_wf (st_storage b)" "dict_wf (st_storage first)"
      "dict_wf (st_values b)" "dict_wf (st_values first)"
    using assms(1) by (auto simp: tracker_inv_def)
  have same: "same_dicts b first \<longleftrightarrow>
      dict_eq (st_storage b) (st_storage first)
      \<and> set (dict_keys (st_values b)) = set (dict_keys (st_values first))
      \<and> merge_values (st_values first) (st_values b) = Inr ()"
    using dict_eq_map_of [OF wf(1,2)] dict_eq_map_of [OF wf(4,3)]
    by (auto simp: same_dicts_def merge_values_Inr dict_eq_def)
  from Cons.prems have "\<forall>b \<in> set bs. tracker_inv b" by simp
  note IH = Cons.IH [OF this]
  show ?case
  proof (cases "merge_values (st_values first) (st_values b)")
    case (Inl e)
    with same show ?thesis by simp
  next
    case (Inr u)
    with same IH show ?thesis by simp
  qed
qed

text \<open>C8. Merging control-flow branches: for reachable branch states, \<open>merge\<close> returns exactly when
  every branch has the same indirect storage and the same value under every name as the first
  one, and then returns the first; any difference is an error.\<close>

theorem tracker_merge_spec:
  assumes "list_all tracker_reachable (first # rest)"
  shows "tracker_merge (first # rest) = Inr r \<longleftrightarrow>
     list_all (\<lambda>b. dict_get (st_storage b) = dict_get (st_storage first)
       \<and> dict_get (st_values b) = dict_get (st_values first)) rest \<and> r = first"
proof -
  have "tracker_inv first" "\<forall>b \<in> set rest. tracker_inv b"
    using assms by (auto simp: list_all_iff intro: tracker_reachable_inv)
  from merge_branches_Inr [OF this] show ?thesis
    by (simp add: tracker_merge_def list_all_iff same_dicts_def)
qed

theorem tracker_merge_spec_witness:
  "tracker_merge [example_tracker, example_tracker] = Inr example_tracker
   \<and> (\<exists>e. tracker_merge [example_tracker, tracker_exec (Do_close ''a'') example_tracker] = Inl e)"
proof
  show "tracker_merge [example_tracker, example_tracker] = Inr example_tracker"
    by (subst tracker_merge_spec) (simp_all add: example_tracker_reachable)
  let ?closed = "tracker_exec (Do_close ''a'') example_tracker"
  have "list_all tracker_reachable [example_tracker, ?closed]"
    by (simp only: list.pred_inject example_tracker_reachable
        tracker_next [OF example_tracker_reachable] simp_thms)
  note spec = tracker_merge_spec [OF this]
  have "dict_get (st_values ?closed) ''a'' \<noteq> dict_get (st_values example_tracker) ''a''"
    by code_simp
  then have "\<not> (\<exists>r. tracker_merge [example_tracker, ?closed] = Inr r)"
    unfolding spec by auto
  then show "\<exists>e. tracker_merge [example_tracker, ?closed] = Inl e"
    by (cases "tracker_merge [example_tracker, ?closed]") auto
qed

subsection \<open>Operations by contract\<close>

text \<open>C9. Contract-driven operations: \<open>CLOSE\<close> consumes its single owned argument and has no result;
  every other operation only needs its arguments to be live and leaves them as they are, and
  when its contract has a result the result is a new owned local handle under a fresh name.\<close>

theorem apply_operation_spec:
  "apply_operation op args res t = (Inr r, t') \<longleftrightarrow>
     (\<exists>c. operation_contract op = Inr c \<and>
       (if op = OP_CLOSE
        then \<exists>n v. args = [n] \<and> res = None \<and> r = None \<and> tracker_close n t = Inr (v, t')
        else list_all (\<lambda>n. \<exists>v. tracker_use n t = Inr v) args
          \<and> (case oc_result_ownership c of
               None \<Rightarrow> res = None \<and> r = None \<and> t' = t
             | Some ow \<Rightarrow> ow = OWNED \<and> (\<exists>n v. res = Some n \<and> r = Some v
                 \<and> declare_value n SK_LOCAL OWNED None t = Inr (v, t')))))"
proof -
  obtain c where c: "operation_contract op = Inr c" using operation_contract_total by blast
  then show ?thesis
  proof (cases rule: operation_contract_cases)
    case close
    show ?thesis
    proof (cases "\<exists>n. args = [n]")
      case True
      with c close show ?thesis
        by (auto simp: apply_operation_def apply_arguments_def split: sum.splits)
    next
      case False
      then have "length args \<noteq> 1" by (auto simp: length_Suc_conv)
      with False c close show ?thesis by (auto simp: apply_operation_def apply_arguments_def)
    qed
  next
    case borrow
    with c use_all_Inr [of args t] show ?thesis
      by (cases "use_all args t")
         (auto simp: apply_operation_def apply_arguments_def list_all_iff)
  next
    case produce
    with c use_all_Inr [of args t] show ?thesis
      by (cases "use_all args t")
         (auto simp: apply_operation_def apply_arguments_def list_all_iff
            split: option.splits sum.splits)
  qed
qed

end
