(* ===== verification/HandleRefinement.thy ===== *)
theory HandleRefinement
  imports HandleSafety
begin

text \<open>
  The contract of \<open>HandleStateTracker\<close>, stated without its dictionaries, contracts and
  exceptions: an abstract machine that knows only which kind of place each storage name is and
  which of four lifetimes each value name has. \<open>lifetime_call\<close> says for each public method when it
  returns and what it does to the lifetimes, also when it raises; the tracker is shown to be a
  functional refinement of it.
\<close>

subsection \<open>The abstract machine\<close>

record lifetime_state =
  ls_places :: "string \<Rightarrow> HandleStorageKind option"
  ls_names :: "string \<Rightarrow> lifetime"

definition unused_name :: "lifetime_state \<Rightarrow> string \<Rightarrow> bool" where
  "unused_name s n \<longleftrightarrow> ls_places s n = None \<and> ls_names s n = Unborn"

definition usable :: "lifetime_state \<Rightarrow> string \<Rightarrow> bool" where
  "usable s n \<longleftrightarrow> ls_names s n \<in> {Permanent, Held}"

definition bear :: "string \<Rightarrow> lifetime \<Rightarrow> lifetime_state \<Rightarrow> bool \<times> lifetime_state" where
  "bear n l s =
     (if unused_name s n then (True, s\<lparr>ls_names := (ls_names s)(n := l)\<rparr>) else (False, s))"

definition spend_name :: "string \<Rightarrow> lifetime_state \<Rightarrow> bool \<times> lifetime_state" where
  "spend_name n s =
     (if ls_names s n = Held then (True, s\<lparr>ls_names := (ls_names s)(n := Spent)\<rparr>) else (False, s))"

fun spend_names :: "string list \<Rightarrow> lifetime_state \<Rightarrow> bool \<times> lifetime_state" where
  "spend_names [] s = (True, s)"
| "spend_names (n # ns) s =
     (if ls_names s n = Held then spend_names ns (snd (spend_name n s)) else (False, s))"

fun handle_c_type :: "HandleStorageKind \<Rightarrow> string" where
  "handle_c_type SK_FIELD = ''HPyField''"
| "handle_c_type SK_GLOBAL = ''HPyGlobal''"
| "handle_c_type SK_LOCAL = ''HPy''"
| "handle_c_type SK_CONTEXT_CONSTANT = ''HPy''"

definition yields_handle :: "HandleOperation \<Rightarrow> bool" where
  "yields_handle op \<longleftrightarrow> op \<in>
     {OP_DUPLICATE, OP_CALL, OP_CALL_METHOD, OP_SEQUENCE_BUILDER_BUILD, OP_SEQUENCE_FROM_ARRAY,
      OP_SEQUENCE_PACK, OP_DICT_NEW, OP_DICT_COPY, OP_TO_PYTHON, OP_NAME_LOOKUP, OP_GLOBAL_LOAD,
      OP_FIELD_LOAD, OP_IMPORT_MODULE}"

fun lifetime_call :: "tracker_op \<Rightarrow> lifetime_state \<Rightarrow> bool \<times> lifetime_state" where
  "lifetime_call (Do_declare_storage n k ct) s =
     (if unused_name s n \<and> ct \<in> {None, Some [], Some (handle_c_type k)}
      then (True, s\<lparr>ls_places := (ls_places s)(n \<mapsto> k)\<rparr>) else (False, s))"
| "lifetime_call (Do_declare_value n k ow ct) s =
     (if ct \<in> {None, Some [], Some ''HPy''}
         \<and> (k = SK_LOCAL \<and> ow \<noteq> IMMORTAL \<or> k = SK_CONTEXT_CONSTANT \<and> ow = IMMORTAL)
      then bear n (if ow = OWNED then Held else Permanent) s else (False, s))"
| "lifetime_call (Do_close n) s = spend_name n s"
| "lifetime_call (Do_move n) s = spend_name n s"
| "lifetime_call (Do_duplicate m n) s = (if usable s m then bear n Held s else (False, s))"
| "lifetime_call (Do_apply op args res) s =
     (if op = OP_CLOSE
      then (case args of
              [n] \<Rightarrow> (case spend_name n s of (ok, s') \<Rightarrow> (ok \<and> res = None, s'))
            | _ \<Rightarrow> (False, s))
      else if \<not> list_all (usable s) args then (False, s)
      else if yields_handle op
      then (case res of None \<Rightarrow> (False, s) | Some n \<Rightarrow> bear n Held s)
      else (res = None, s))"
| "lifetime_call (Do_load_storage p n) s =
     (if ls_places s p \<in> {Some SK_FIELD, Some SK_GLOBAL} then bear n Held s else (False, s))"
| "lifetime_call (Do_prepare_return n) s =
     (if ls_names s n = Permanent then (True, s) else spend_name n s)"
| "lifetime_call (Do_use n) s = (usable s n, s)"
| "lifetime_call (Do_store_storage p n) s =
     (ls_places s p \<in> {Some SK_FIELD, Some SK_GLOBAL} \<and> usable s n, s)"
| "lifetime_call (Do_cleanup_plan k ps) s = (list_all (usable s) ps, s)"
| "lifetime_call (Do_apply_plan plan) s = spend_names (cp_close_names plan) s"
| "lifetime_call (Do_cleanup k ps) s =
     (if list_all (usable s) ps
      then (True, s\<lparr>ls_names :=
             \<lambda>n. if ls_names s n = Held \<and> n \<notin> set ps then Spent else ls_names s n\<rparr>)
      else (False, s))"
| "lifetime_call Do_assert_no_live_owned_handles s = (\<forall>n. ls_names s n \<noteq> Held, s)"

subsection \<open>The abstraction\<close>

definition tracker_lifetimes :: "HandleStateTracker \<Rightarrow> lifetime_state" where
  "tracker_lifetimes t =
     \<lparr>ls_places = \<lambda>n. map_option hs_kind (dict_get (st_storage t) n), ls_names = lifetimes t\<rparr>"

lemma tracker_lifetimes_simps [simp]:
  "ls_places (tracker_lifetimes t) n = map_option hs_kind (dict_get (st_storage t) n)"
  "ls_names (tracker_lifetimes t) = lifetimes t"
  by (simp_all add: tracker_lifetimes_def)

lemma tracker_lifetimes_value:
  "tracker_lifetimes (t\<lparr>st_values := dict_set n v (st_values t)\<rparr>) =
     (tracker_lifetimes t)\<lparr>ls_names := (lifetimes t)(n := value_lifetime (Some v))\<rparr>"
  by (simp only: tracker_lifetimes_def lifetimes_set) simp

lemma tracker_lifetimes_storage:
  "tracker_lifetimes (t\<lparr>st_storage := dict_set n c (st_storage t)\<rparr>) =
     (tracker_lifetimes t)\<lparr>ls_places := (ls_places (tracker_lifetimes t))(n \<mapsto> hs_kind c)\<rparr>"
  by (auto simp: tracker_lifetimes_def lifetimes_def dict_get_set fun_eq_iff)

text \<open>Whether a call that can only raise before it mutates returned, and the lifetimes it leaves.\<close>

definition outcome ::
  "HandleStateTracker \<Rightarrow> 'e + 'a \<times> HandleStateTracker \<Rightarrow> bool \<times> lifetime_state" where
  "outcome t r = (\<not> isl r, tracker_lifetimes (state_after t r))"

lemma outcome_simps [simp]:
  "outcome t (Inl e) = (False, tracker_lifetimes t)"
  "outcome t (Inr (a, t')) = (True, tracker_lifetimes t')"
  by (simp_all add: outcome_def)

lemma not_isl_iff: "\<not> isl r \<longleftrightarrow> (\<exists>x. r = Inr x)"
  by (cases r) auto

subsection \<open>Each method\<close>

lemma use_refines: "tracker_inv t \<Longrightarrow> \<not> isl (tracker_use n t) \<longleftrightarrow> usable (tracker_lifetimes t) n"
  by (simp add: not_isl_iff use_returns_iff usable_def)

lemma unused_refines: "unused_name (tracker_lifetimes t) n \<longleftrightarrow> fresh_name t n"
  by (auto simp: unused_name_def fresh_name_def dict_has_def lifetimes_def split: if_splits
      elim!: value_lifetime.elims)

lemma consume_refines:
  assumes "s \<noteq> HS_LIVE"
  shows "outcome t (consume_owned n s w t) = spend_name n (tracker_lifetimes t)"
proof (cases "consume_owned n s w t")
  case (Inl e)
  then have "lifetimes t n \<noteq> Held" using consume_returns_iff [of n s w t] by auto
  with Inl show ?thesis by (simp add: spend_name_def)
next
  case (Inr r)
  obtain v t' where r: "r = (v, t')" by (cases r)
  from Inr r have "lifetimes t n = Held" using consume_returns_iff [of n s w t] by auto
  moreover from Inr r obtain u where "live_owned u" "v = u\<lparr>hv_state := s\<rparr>"
      "t' = t\<lparr>st_values := dict_set n v (st_values t)\<rparr>"
    by (auto simp: consume_owned_Inr)
  ultimately show ?thesis
    using Inr r assms by (simp add: spend_name_def live_owned_def tracker_lifetimes_value)
qed

lemma close_refines: "outcome t (tracker_close n t) = spend_name n (tracker_lifetimes t)"
  by (simp add: tracker_close_def consume_refines)

lemma move_refines: "outcome t (tracker_move n t) = spend_name n (tracker_lifetimes t)"
  by (simp add: tracker_move_def consume_refines)

lemma or_default_iff: "d \<noteq> [] \<Longrightarrow> or_default ct d = d \<longleftrightarrow> ct \<in> {None, Some [], Some d}"
  by (cases ct) (auto simp: or_default_def)

lemma declare_value_refines:
  "outcome t (declare_value n k ow ct t) =
     lifetime_call (Do_declare_value n k ow ct) (tracker_lifetimes t)"
proof (cases "declare_value n k ow ct t")
  case (Inl e)
  then have "\<not> (fresh_name t n \<and> k \<in> {SK_LOCAL, SK_CONTEXT_CONSTANT}
      \<and> or_default ct ''HPy'' = ''HPy'' \<and> (k = SK_CONTEXT_CONSTANT \<longleftrightarrow> ow = IMMORTAL))"
    using declare_value_Inr [of n k ow ct t] by auto
  then have "\<not> (fresh_name t n \<and> ct \<in> {None, Some [], Some ''HPy''}
      \<and> (k = SK_LOCAL \<and> ow \<noteq> IMMORTAL \<or> k = SK_CONTEXT_CONSTANT \<and> ow = IMMORTAL))"
    by (auto simp: or_default_iff)
  with Inl show ?thesis
    by (auto simp: bear_def unused_refines)
next
  case (Inr r)
  obtain v t' where r: "r = (v, t')" by (cases r)
  from Inr r have "fresh_name t n" "or_default ct ''HPy'' = ''HPy''"
      "k = SK_LOCAL \<and> ow \<noteq> IMMORTAL \<or> k = SK_CONTEXT_CONSTANT \<and> ow = IMMORTAL"
      "t' = t\<lparr>st_values := dict_set n v (st_values t)\<rparr>" "hv_state v = HS_LIVE"
      "hv_ownership v = ow"
    by (auto simp: declare_value_Inr)
  moreover from this(2) have "ct \<in> {None, Some [], Some ''HPy''}" by (simp add: or_default_iff)
  ultimately show ?thesis
    using Inr r by (simp add: bear_def unused_refines tracker_lifetimes_value)
qed

lemma declare_owned_refines:
  "outcome t (declare_value n SK_LOCAL OWNED None t) = bear n Held (tracker_lifetimes t)"
  by (simp add: declare_value_refines)

lemma handle_c_type_contract: "hs_c_type_cname (storage_contract k) = handle_c_type k"
  by (cases k) (simp_all add: storage_contract_def)

lemma declare_storage_refines:
  "outcome t (declare_storage n k ct t) =
     lifetime_call (Do_declare_storage n k ct) (tracker_lifetimes t)"
proof -
  have nonempty: "handle_c_type k \<noteq> []" by (cases k) simp_all
  show ?thesis
  proof (cases "declare_storage n k ct t")
    case (Inl e)
    then have "\<not> (fresh_name t n \<and> or_default ct (handle_c_type k) = handle_c_type k)"
      using declare_storage_Inr [of n k ct t "storage_contract k"]
      by (auto simp: handle_c_type_contract)
    with Inl nonempty show ?thesis
      by (auto simp: unused_refines or_default_iff)
  next
    case (Inr r)
    obtain c t' where r: "r = (c, t')" by (cases r)
    from Inr r have "fresh_name t n" "or_default ct (handle_c_type k) = handle_c_type k"
        "c = storage_contract k" "t' = t\<lparr>st_storage := dict_set n c (st_storage t)\<rparr>"
      by (auto simp: declare_storage_Inr handle_c_type_contract)
    moreover from this(2) nonempty have "ct \<in> {None, Some [], Some (handle_c_type k)}"
      by (simp add: or_default_iff)
    ultimately show ?thesis
      using Inr r by (simp add: unused_refines tracker_lifetimes_storage)
  qed
qed

lemma duplicate_refines:
  assumes "tracker_inv t"
  shows "outcome t (tracker_duplicate m n t) =
     lifetime_call (Do_duplicate m n) (tracker_lifetimes t)"
  using use_refines [OF assms, of m] declare_owned_refines [of t n]
  by (cases "tracker_use m t") (auto simp: tracker_duplicate_def)

lemma load_refines:
  assumes "tracker_inv t"
  shows "outcome t (load_storage p n t) =
     lifetime_call (Do_load_storage p n) (tracker_lifetimes t)"
proof (cases "dict_get (st_storage t) p")
  case None
  then show ?thesis by (simp add: load_storage_def tracker_storage_def)
next
  case (Some c)
  with assms have "c = storage_contract (hs_kind c)" by (auto simp: tracker_inv_def)
  then have "hs_load_returns_owned_local c \<longleftrightarrow> hs_kind c \<in> {SK_FIELD, SK_GLOBAL}"
    by (cases "hs_kind c") (simp_all add: storage_contract_def)
  with Some show ?thesis
    by (simp add: load_storage_def tracker_storage_def declare_owned_refines)
qed

lemma store_refines:
  assumes "tracker_inv t"
  shows "(\<not> isl (store_storage p n t), tracker_lifetimes t) =
     lifetime_call (Do_store_storage p n) (tracker_lifetimes t)"
  using use_refines [OF assms, of n]
  by (cases "dict_get (st_storage t) p") (auto simp: store_storage_def tracker_storage_def)

lemma prepare_return_refines:
  assumes "tracker_inv t"
  shows "outcome t (prepare_return n t) =
     lifetime_call (Do_prepare_return n) (tracker_lifetimes t)"
proof (cases "tracker_use n t")
  case (Inl e)
  then have "\<not> usable (tracker_lifetimes t) n" using use_refines [OF assms, of n] by simp
  with Inl show ?thesis by (auto simp: prepare_return_def usable_def spend_name_def)
next
  case (Inr v)
  then have "lifetimes t n = (if hv_ownership v = OWNED then Held else Permanent)"
    by (simp add: tracker_use_Inr lifetimes_def)
  with Inr move_refines [of t n] show ?thesis
    by (cases "tracker_move n t") (auto simp: prepare_return_def)
qed

lemma use_all_refines:
  "tracker_inv t \<Longrightarrow> \<not> isl (use_all ns t) \<longleftrightarrow> list_all (usable (tracker_lifetimes t)) ns"
  by (simp add: not_isl_iff use_all_Inr list_all_iff use_refines [symmetric])

text \<open>Closing a list of names stops at the first one that is not held; those before stay closed.\<close>

lemma close_names_refines:
  "(\<not> isl (fst (close_names ns t)), tracker_lifetimes (snd (close_names ns t))) =
     spend_names ns (tracker_lifetimes t)"
proof (induction ns arbitrary: t)
  case Nil
  show ?case by simp
next
  case (Cons n ns)
  show ?case
  proof (cases "tracker_close n t")
    case (Inl e)
    with close_refines [of t n] show ?thesis by (simp add: spend_name_def split: if_splits)
  next
    case (Inr r)
    with close_refines [of t n] Cons.IH [of "snd r"] show ?thesis
      by (cases r) (auto simp: spend_name_def split: if_splits)
  qed
qed

lemma apply_plan_refines:
  "(\<not> isl (fst (apply_cleanup_plan plan t)), tracker_lifetimes (snd (apply_cleanup_plan plan t))) =
     lifetime_call (Do_apply_plan plan) (tracker_lifetimes t)"
  by (simp add: apply_cleanup_plan_def close_names_refines)

lemma cleanup_plan_refines:
  "tracker_inv t \<Longrightarrow>
     (\<not> isl (cleanup_plan k ps t), tracker_lifetimes t) =
       lifetime_call (Do_cleanup_plan k ps) (tracker_lifetimes t)"
  by (simp add: not_isl_iff cleanup_plan_Inr list_all_iff use_refines [symmetric])

lemma tracker_lifetimes_closed:
  "tracker_lifetimes (with_closed ({n. lifetimes t n = Held} - P) t) =
     (tracker_lifetimes t)\<lparr>ls_names :=
        \<lambda>n. if lifetimes t n = Held \<and> n \<notin> P then Spent else lifetimes t n\<rparr>"
  by (simp add: tracker_lifetimes_def fun_eq_iff lifetimes_with_closed) (simp add: with_closed_def)

lemma cleanup_refines:
  assumes inv: "tracker_inv t"
  shows "(tracker_returns (Do_cleanup k ps) t, tracker_lifetimes (tracker_exec (Do_cleanup k ps) t)) =
     lifetime_call (Do_cleanup k ps) (tracker_lifetimes t)"
proof (cases "cleanup_plan k ps t")
  case (Inl e)
  with cleanup_plan_refines [OF inv, of k ps] show ?thesis by simp
next
  case (Inr plan)
  from inv have "dict_wf (st_values t)" by (simp add: tracker_inv_def)
  from apply_cleanup_plan_reachable [OF this Inr] cleanup_plan_refines [OF inv, of k ps] Inr
  show ?thesis by (simp add: tracker_lifetimes_closed cong: if_cong)
qed

lemma exit_check_refines:
  assumes "tracker_inv t"
  shows "\<not> isl (assert_no_live_owned_handles t) \<longleftrightarrow> (\<forall>n. lifetimes t n \<noteq> Held)"
proof -
  from assms have "dict_wf (st_values t)" by (simp add: tracker_inv_def)
  from live_owned_names_set [OF this] have "live_owned_handles t = [] \<longleftrightarrow> (\<forall>n. lifetimes t n \<noteq> Held)"
    by (auto simp: live_owned_handles_names)
  then show ?thesis by (simp add: assert_no_live_owned_handles_def)
qed

text \<open>Contract-driven operations.\<close>

lemma yields_handle_contract:
  assumes "operation_contract op = Inr c"
  shows "yields_handle op \<longleftrightarrow> oc_result_ownership c \<noteq> None"
  using assms
  by (cases op) (auto simp: yields_handle_def operation_contract_def OPERATION_CONTRACTS_def borrowed_def)

lemma apply_close_refines:
  "(\<not> isl (fst (apply_operation OP_CLOSE args res t)),
    tracker_lifetimes (snd (apply_operation OP_CLOSE args res t))) =
     lifetime_call (Do_apply OP_CLOSE args res) (tracker_lifetimes t)"
proof -
  obtain c where c: "operation_contract OP_CLOSE = Inr c" using operation_contract_total by blast
  then have close: "oc_argument_effect c = EFFECT_CLOSE" "oc_result_ownership c = None"
    by (auto elim: operation_contract_cases)
  show ?thesis
  proof (cases "\<exists>n. args = [n]")
    case True
    then obtain n where "args = [n]" by blast
    with c close close_refines [of t n, symmetric] show ?thesis
      by (cases "tracker_close n t") (auto simp: apply_operation_def apply_arguments_def)
  next
    case False
    then have "length args \<noteq> 1" by (auto simp: length_Suc_conv)
    with False c close show ?thesis
      by (auto simp: apply_operation_def apply_arguments_def split: list.split)
  qed
qed

lemma apply_other_refines:
  assumes inv: "tracker_inv t" and op: "op \<noteq> OP_CLOSE"
  shows "(\<not> isl (fst (apply_operation op args res t)),
    tracker_lifetimes (snd (apply_operation op args res t))) =
     lifetime_call (Do_apply op args res) (tracker_lifetimes t)"
proof -
  obtain c where c: "operation_contract op = Inr c" using operation_contract_total by blast
  note yields = yields_handle_contract [OF c]
  note used = use_all_refines [OF inv, of args]
  from c show ?thesis
  proof (cases rule: operation_contract_cases)
    case close
    with op show ?thesis by simp
  next
    case borrow
    with c used yields op show ?thesis
      by (cases "use_all args t") (auto simp: apply_operation_def apply_arguments_def)
  next
    case produce
    show ?thesis
    proof (cases "use_all args t")
      case (Inl e)
      with c used produce op show ?thesis
        by (simp add: apply_operation_def apply_arguments_def)
    next
      case (Inr u)
      have "outcome t (declare_value n SK_LOCAL OWNED None t) = bear n Held (tracker_lifetimes t)"
        for n by (rule declare_owned_refines)
      note declared = this [unfolded outcome_def]
      from Inr c used yields produce op show ?thesis
        by (auto simp: apply_operation_def apply_arguments_def declared [symmetric]
            split: option.split sum.split)
    qed
  qed
qed

subsection \<open>Refinement\<close>

text \<open>C2. Refinement: the tracker implements the abstract lifetime machine. Whatever public method but
  \<open>merge\<close> and \<open>fork\<close> is called on a reachable tracker, with whatever arguments (an operation with any
  contract, any cleanup plan, also a stale one), it returns exactly when the machine says so and
  the lifetimes of all names afterwards are the machine's, also when it raised half way: closing
  and moving need a held name and spend it, using needs a permanent or held one, a result needs an
  unused name and is held, a plan closes up to the first name that is not held.\<close>

theorem tracker_refines_lifetimes:
  assumes "tracker_reachable t"
  shows "(tracker_returns op t, tracker_lifetimes (tracker_exec op t)) =
     lifetime_call op (tracker_lifetimes t)"
proof -
  from assms have inv: "tracker_inv t" by (rule tracker_reachable_inv)
  note refines = declare_storage_refines declare_value_refines close_refines move_refines
    duplicate_refines [OF inv] load_refines [OF inv] prepare_return_refines [OF inv]
  show ?thesis
  proof (cases op)
    case (Do_apply opn args res)
    then show ?thesis
      using apply_close_refines [of args res t] apply_other_refines [OF inv, of opn args res]
      by (cases "opn = OP_CLOSE") (simp_all del: lifetime_call.simps)
  next
    case (Do_cleanup k ps)
    then show ?thesis by (simp only: cleanup_refines [OF inv])
  next
    case (Do_store_storage p n)
    then show ?thesis using store_refines [OF inv, of p n] by simp
  next
    case (Do_cleanup_plan k ps)
    then show ?thesis using cleanup_plan_refines [OF inv, of k ps] by simp
  next
    case (Do_apply_plan plan)
    then show ?thesis using apply_plan_refines [of plan t] by simp
  qed (simp_all add: outcome_def [symmetric] refines use_refines [OF inv] exit_check_refines [OF inv]
      del: lifetime_call.simps(1,2,5,7,8))
qed

text \<open>Closing a borrowed argument raises; a stale plan closes \<open>b\<close> and raises at \<open>arg\<close>.\<close>

theorem tracker_refines_lifetimes_witness:
  "\<not> tracker_returns (Do_close ''arg'') example_tracker
   \<and> lifetimes (tracker_exec (Do_close ''arg'') example_tracker) ''arg'' = Permanent
   \<and> (let op = Do_apply_plan \<lparr>cp_exit_kind = EXIT_RETURN, cp_close_names = [''b'', ''arg'', ''a'']\<rparr>;
          l = lifetimes (tracker_exec op example_tracker)
      in \<not> tracker_returns op example_tracker \<and> l ''b'' = Spent \<and> l ''arg'' = Permanent
         \<and> l ''a'' = Held)"
proof -
  note refines = tracker_refines_lifetimes [OF example_tracker_reachable]
  have l: "lifetimes example_tracker = (\<lambda>n. if n = ''arg'' then Permanent
      else if n = ''a'' \<or> n = ''b'' then Held else Unborn)"
    by (auto simp: lifetimes_def example_tracker_value fun_eq_iff)
  have ret: "tracker_returns op example_tracker =
        fst (lifetime_call op (tracker_lifetimes example_tracker))"
    and after: "lifetimes (tracker_exec op example_tracker) =
        ls_names (snd (lifetime_call op (tracker_lifetimes example_tracker)))" for op
    by (simp_all add: refines [symmetric])
  show ?thesis
    unfolding ret after Let_def by (simp add: spend_name_def l)
qed

end
