(* ===== verification/HandleManagers.thy ===== *)
theory HandleManagers
  imports HandleTracker
begin

text \<open>
  The three resource managers of \<open>Cython/Compiler/HandleModel.py\<close>.
  \<open>HandleTemporaryManager\<close> maps a reusable C temporary to a fresh handle lifetime
  (\<open>cname#generation\<close>) of its own \<open>HandleStateTracker\<close>; \<open>HandleBuilderManager\<close> and
  \<open>HandleTrackerManager\<close> track HPy builders and argument trackers.
\<close>

subsection \<open>HandleTemporaryManager\<close>

record HandleTemporaryManager =
  tm_state :: HandleStateTracker
  tm_active :: "(string, HandleTemporaryBinding) pydict"
  tm_generations :: "(string, nat) pydict"

definition temp_new :: HandleTemporaryManager where
  "temp_new = \<lparr>tm_state = tracker_new, tm_active = [], tm_generations = []\<rparr>"

definition next_generation :: "(string, nat) pydict \<Rightarrow> string \<Rightarrow> nat" where
  "next_generation generations cname =
     (case dict_get generations cname of None \<Rightarrow> 0 | Some g \<Rightarrow> g) + 1"

text \<open>The generation is stored before the declaration, which may raise.\<close>

definition temp_allocate ::
  "string \<Rightarrow> HandleOwnership \<Rightarrow> HandleTemporaryManager
     \<Rightarrow> (handle_error + HandleTemporaryBinding) \<times> HandleTemporaryManager" where
  "temp_allocate cname ownership m =
     (if dict_has (tm_active m) cname
      then (Inl (HandleModelError ''handle temporary %r is already allocated'' [cname]), m)
      else
        let generation = next_generation (tm_generations m) cname;
            m1 = m\<lparr>tm_generations := dict_set cname generation (tm_generations m)\<rparr>;
            identity = numbered cname generation
        in case declare_value identity SK_LOCAL ownership None (tm_state m1) of
             Inl e \<Rightarrow> (Inl e, m1)
           | Inr (v, t') \<Rightarrow>
               let binding = \<lparr>tb_cname = cname, tb_identity = identity, tb_ownership = ownership\<rparr>
               in (Inr binding,
                   m1\<lparr>tm_state := t', tm_active := dict_set cname binding (tm_active m1)\<rparr>))"

definition temp_binding ::
  "string \<Rightarrow> HandleTemporaryManager \<Rightarrow> handle_error + HandleTemporaryBinding" where
  "temp_binding cname m =
     (case dict_get (tm_active m) cname of
        None \<Rightarrow> Inl (HandleModelError ''handle temporary %r is not allocated'' [cname])
      | Some b \<Rightarrow> Inr b)"

definition temp_is_active :: "string \<Rightarrow> HandleTemporaryManager \<Rightarrow> bool" where
  "temp_is_active cname m = dict_has (tm_active m) cname"

definition temp_use :: "string \<Rightarrow> HandleTemporaryManager \<Rightarrow> handle_error + HandleValue" where
  "temp_use cname m =
     (case temp_binding cname m of
        Inl e \<Rightarrow> Inl e
      | Inr b \<Rightarrow> tracker_use (tb_identity b) (tm_state m))"

definition temp_close ::
  "string \<Rightarrow> HandleTemporaryManager \<Rightarrow> handle_error + HandleValue \<times> HandleTemporaryManager" where
  "temp_close cname m =
     (case temp_binding cname m of
        Inl e \<Rightarrow> Inl e
      | Inr b \<Rightarrow>
          (case tracker_close (tb_identity b) (tm_state m) of
             Inl e \<Rightarrow> Inl e | Inr (v, t') \<Rightarrow> Inr (v, m\<lparr>tm_state := t'\<rparr>)))"

definition temp_move ::
  "string \<Rightarrow> HandleTemporaryManager \<Rightarrow> handle_error + HandleValue \<times> HandleTemporaryManager" where
  "temp_move cname m =
     (case temp_binding cname m of
        Inl e \<Rightarrow> Inl e
      | Inr b \<Rightarrow>
          (case tracker_move (tb_identity b) (tm_state m) of
             Inl e \<Rightarrow> Inl e | Inr (v, t') \<Rightarrow> Inr (v, m\<lparr>tm_state := t'\<rparr>)))"

definition temp_release ::
  "string \<Rightarrow> HandleTemporaryManager \<Rightarrow> handle_error + HandleValue \<times> HandleTemporaryManager" where
  "temp_release cname m =
     (case temp_binding cname m of
        Inl e \<Rightarrow> Inl e
      | Inr b \<Rightarrow>
        (case tracker_value (tb_identity b) (tm_state m) of
           Inl e \<Rightarrow> Inl e
         | Inr v \<Rightarrow>
             if hv_ownership v = OWNED \<and> hv_state v = HS_LIVE
             then Inl (InvalidHandleTransitionError
                    ''cannot release live owned handle temporary %r; close or move it first''
                    [cname])
             else Inr (v, m\<lparr>tm_active := dict_del cname (tm_active m)\<rparr>)))"

definition temp_active_cnames :: "HandleTemporaryManager \<Rightarrow> string list" where
  "temp_active_cnames m = sort (dict_keys (tm_active m))"

text \<open>The generator over the active bindings: looking a value up may raise.\<close>

fun live_owned_bindings ::
  "HandleStateTracker \<Rightarrow> (string \<times> HandleTemporaryBinding) list \<Rightarrow> handle_error + string list" where
  "live_owned_bindings t [] = Inr []"
| "live_owned_bindings t ((cname, b) # bs) =
     (case tracker_value (tb_identity b) t of
        Inl e \<Rightarrow> Inl e
      | Inr v \<Rightarrow>
          (case live_owned_bindings t bs of
             Inl e \<Rightarrow> Inl e
           | Inr cnames \<Rightarrow> Inr (if live_owned v then cname # cnames else cnames)))"

definition temp_live_owned_handles ::
  "HandleTemporaryManager \<Rightarrow> handle_error + string list" where
  "temp_live_owned_handles m =
     (case live_owned_bindings (tm_state m) (tm_active m) of
        Inl e \<Rightarrow> Inl e | Inr cnames \<Rightarrow> Inr (sort cnames))"

definition temp_assert_no_live :: "HandleTemporaryManager \<Rightarrow> handle_error + unit" where
  "temp_assert_no_live m =
     (case temp_live_owned_handles m of
        Inl e \<Rightarrow> Inl e
      | Inr live \<Rightarrow>
          if live \<noteq> []
          then Inl (InvalidHandleTransitionError
                 ''owned handle temporaries remain live at function exit: %s'' live)
          else Inr ())"

subsection \<open>HandleBuilderManager\<close>

record HandleBuilderManager =
  bm_active :: "(string, HandleBuilderBinding) pydict"
  bm_generations :: "(string, nat) pydict"

definition builder_new :: HandleBuilderManager where
  "builder_new = \<lparr>bm_active = [], bm_generations = []\<rparr>"

definition builder_allocate ::
  "string \<Rightarrow> HandleBuilderManager \<Rightarrow> handle_error + HandleBuilderBinding \<times> HandleBuilderManager" where
  "builder_allocate cname m =
     (if dict_has (bm_active m) cname
      then Inl (HandleModelError ''HPy builder temporary %r is already allocated'' [cname])
      else
        let generation = next_generation (bm_generations m) cname;
            binding = \<lparr>bb_cname = cname, bb_identity = numbered cname generation,
                       bb_state = BS_LIVE\<rparr>
        in Inr (binding,
                \<lparr>bm_active = dict_set cname binding (bm_active m),
                 bm_generations = dict_set cname generation (bm_generations m)\<rparr>))"

definition builder_binding ::
  "string \<Rightarrow> HandleBuilderManager \<Rightarrow> handle_error + HandleBuilderBinding" where
  "builder_binding cname m =
     (case dict_get (bm_active m) cname of
        None \<Rightarrow> Inl (HandleModelError ''HPy builder temporary %r is not allocated'' [cname])
      | Some b \<Rightarrow> Inr b)"

definition builder_is_active :: "string \<Rightarrow> HandleBuilderManager \<Rightarrow> bool" where
  "builder_is_active cname m = dict_has (bm_active m) cname"

definition builder_use ::
  "string \<Rightarrow> HandleBuilderManager \<Rightarrow> handle_error + HandleBuilderBinding" where
  "builder_use cname m =
     (case builder_binding cname m of
        Inl e \<Rightarrow> Inl e
      | Inr b \<Rightarrow>
          if bb_state b \<noteq> BS_LIVE
          then Inl (InvalidHandleTransitionError ''cannot use %s HPy builder %r''
                 [builder_state_value (bb_state b), cname])
          else Inr b)"

definition builder_finish ::
  "string \<Rightarrow> HandleBuilderState \<Rightarrow> HandleBuilderManager
     \<Rightarrow> handle_error + HandleBuilderBinding \<times> HandleBuilderManager" where
  "builder_finish cname state m =
     (case builder_use cname m of
        Inl e \<Rightarrow> Inl e
      | Inr b \<Rightarrow>
          let b' = b\<lparr>bb_state := state\<rparr>
          in Inr (b', m\<lparr>bm_active := dict_set cname b' (bm_active m)\<rparr>))"

definition builder_build ::
  "string \<Rightarrow> HandleBuilderManager \<Rightarrow> handle_error + HandleBuilderBinding \<times> HandleBuilderManager" where
  "builder_build cname m = builder_finish cname BS_BUILT m"

definition builder_cancel ::
  "string \<Rightarrow> HandleBuilderManager \<Rightarrow> handle_error + HandleBuilderBinding \<times> HandleBuilderManager" where
  "builder_cancel cname m = builder_finish cname BS_CANCELLED m"

definition builder_release ::
  "string \<Rightarrow> HandleBuilderManager \<Rightarrow> handle_error + HandleBuilderBinding \<times> HandleBuilderManager" where
  "builder_release cname m =
     (case builder_binding cname m of
        Inl e \<Rightarrow> Inl e
      | Inr b \<Rightarrow>
          if bb_state b = BS_LIVE
          then Inl (InvalidHandleTransitionError
                 ''cannot release live HPy builder %r; build or cancel it first'' [cname])
          else Inr (b, m\<lparr>bm_active := dict_del cname (bm_active m)\<rparr>))"

definition live_builders :: "HandleBuilderManager \<Rightarrow> string list" where
  "live_builders m = sort [cname. (cname, b) \<leftarrow> bm_active m, bb_state b = BS_LIVE]"

definition builder_assert_no_live :: "HandleBuilderManager \<Rightarrow> handle_error + unit" where
  "builder_assert_no_live m =
     (let live = live_builders m in
      if live \<noteq> []
      then Inl (InvalidHandleTransitionError ''HPy builders remain live at function exit: %s'' live)
      else Inr ())"

subsection \<open>HandleTrackerManager\<close>

record HandleTrackerManager =
  km_active :: "(string, HandleTrackerBinding) pydict"
  km_generations :: "(string, nat) pydict"

definition argtracker_new :: HandleTrackerManager where
  "argtracker_new = \<lparr>km_active = [], km_generations = []\<rparr>"

definition argtracker_allocate ::
  "string \<Rightarrow> HandleTrackerManager \<Rightarrow> handle_error + HandleTrackerBinding \<times> HandleTrackerManager" where
  "argtracker_allocate cname m =
     (if dict_has (km_active m) cname
      then Inl (HandleModelError ''HPy tracker %r is already allocated'' [cname])
      else
        let generation = next_generation (km_generations m) cname;
            binding = \<lparr>kb_cname = cname, kb_identity = numbered cname generation,
                       kb_state = TS_LIVE\<rparr>
        in Inr (binding,
                \<lparr>km_active = dict_set cname binding (km_active m),
                 km_generations = dict_set cname generation (km_generations m)\<rparr>))"

definition argtracker_binding ::
  "string \<Rightarrow> HandleTrackerManager \<Rightarrow> handle_error + HandleTrackerBinding" where
  "argtracker_binding cname m =
     (case dict_get (km_active m) cname of
        None \<Rightarrow> Inl (HandleModelError ''HPy tracker %r is not allocated'' [cname])
      | Some b \<Rightarrow> Inr b)"

definition argtracker_use ::
  "string \<Rightarrow> HandleTrackerManager \<Rightarrow> handle_error + HandleTrackerBinding" where
  "argtracker_use cname m =
     (case argtracker_binding cname m of
        Inl e \<Rightarrow> Inl e
      | Inr b \<Rightarrow>
          if kb_state b \<noteq> TS_LIVE
          then Inl (InvalidHandleTransitionError ''cannot use %s HPy tracker %r''
                 [tracker_state_value (kb_state b), cname])
          else Inr b)"

definition argtracker_close ::
  "string \<Rightarrow> HandleTrackerManager \<Rightarrow> handle_error + HandleTrackerBinding \<times> HandleTrackerManager" where
  "argtracker_close cname m =
     (case argtracker_use cname m of
        Inl e \<Rightarrow> Inl e
      | Inr b \<Rightarrow>
          let b' = b\<lparr>kb_state := TS_CLOSED\<rparr>
          in Inr (b', m\<lparr>km_active := dict_set cname b' (km_active m)\<rparr>))"

definition argtracker_release ::
  "string \<Rightarrow> HandleTrackerManager \<Rightarrow> handle_error + HandleTrackerBinding \<times> HandleTrackerManager" where
  "argtracker_release cname m =
     (case argtracker_binding cname m of
        Inl e \<Rightarrow> Inl e
      | Inr b \<Rightarrow>
          if kb_state b = TS_LIVE
          then Inl (InvalidHandleTransitionError
                 ''cannot release live HPy tracker %r; close it first'' [cname])
          else Inr (b, m\<lparr>km_active := dict_del cname (km_active m)\<rparr>))"

definition argtracker_is_active :: "string \<Rightarrow> HandleTrackerManager \<Rightarrow> bool" where
  "argtracker_is_active cname m = dict_has (km_active m) cname"

definition live_trackers :: "HandleTrackerManager \<Rightarrow> string list" where
  "live_trackers m = sort [cname. (cname, b) \<leftarrow> km_active m, kb_state b = TS_LIVE]"

definition argtracker_assert_no_live :: "HandleTrackerManager \<Rightarrow> handle_error + unit" where
  "argtracker_assert_no_live m =
     (let live = live_trackers m in
      if live \<noteq> []
      then Inl (InvalidHandleTransitionError ''HPy trackers remain live at function exit: %s'' live)
      else Inr ())"

end
