(* ===== verification/LinearResources.thy ===== *)
theory LinearResources
  imports Prelude
begin

text \<open>
  The contract the compiler relies on for every resource it tracks under reusable C names: each
  call may acquire one resource with a fresh identity, finish one live resource, or do neither.
  The locale states the laws of one call; its theorem is about every sequence of calls: no
  identity is acquired or finished twice, only acquired ones are finished, and what is live is
  what was acquired and not yet finished.
\<close>

datatype resource_event = Acquired string | Finished string

fun run_events ::
  "('op \<Rightarrow> 's \<Rightarrow> 's \<times> resource_event option) \<Rightarrow> 'op list \<Rightarrow> 's \<Rightarrow> 's \<times> resource_event list" where
  "run_events exec [] s = (s, [])"
| "run_events exec (op # ops) s =
     (case exec op s of (s', e) \<Rightarrow>
        (case run_events exec ops s' of (s'', es) \<Rightarrow>
           (s'', (case e of None \<Rightarrow> es | Some ev \<Rightarrow> ev # es))))"

definition acquired :: "resource_event list \<Rightarrow> string list" where
  "acquired es = [i. Acquired i \<leftarrow> es]"

definition finished :: "resource_event list \<Rightarrow> string list" where
  "finished es = [i. Finished i \<leftarrow> es]"

lemma acquired_simps [simp]:
  "acquired [] = []" "acquired (Acquired i # es) = i # acquired es"
  "acquired (Finished i # es) = acquired es"
  by (simp_all add: acquired_def)

lemma finished_simps [simp]:
  "finished [] = []" "finished (Finished i # es) = i # finished es"
  "finished (Acquired i # es) = finished es"
  by (simp_all add: finished_def)

locale linear_resources =
  fixes exec :: "'op \<Rightarrow> 's \<Rightarrow> 's \<times> resource_event option"
    and generation :: "'s \<Rightarrow> string \<Rightarrow> nat"
    and live :: "'s \<Rightarrow> string set"
    and inv :: "'s \<Rightarrow> bool"
  assumes inv_exec: "inv s \<Longrightarrow> exec op s = (s', e) \<Longrightarrow> inv s'"
    and exec_acquired: "inv s \<Longrightarrow> exec op s = (s', Some (Acquired i)) \<Longrightarrow>
      \<exists>c. i = numbered c (Suc (generation s c)) \<and> generation s' c = Suc (generation s c)
        \<and> live s' = insert i (live s)"
    and exec_finished: "inv s \<Longrightarrow> exec op s = (s', Some (Finished i)) \<Longrightarrow>
      i \<in> live s \<and> live s' = live s - {i}"
    and exec_silent: "inv s \<Longrightarrow> exec op s = (s', None) \<Longrightarrow> live s' = live s"
    and exec_generation: "inv s \<Longrightarrow> exec op s = (s', e) \<Longrightarrow> generation s c \<le> generation s' c"
    and live_generation: "inv s \<Longrightarrow> i \<in> live s \<Longrightarrow> \<exists>c n. i = numbered c n \<and> n \<le> generation s c"
begin

text \<open>An identity is old in a state when its generation has been handed out.\<close>

definition old :: "'s \<Rightarrow> string \<Rightarrow> bool" where
  "old s i \<longleftrightarrow> (\<exists>c n. i = numbered c n \<and> n \<le> generation s c)"

lemma old_exec: "inv s \<Longrightarrow> exec op s = (s', e) \<Longrightarrow> old s i \<Longrightarrow> old s' i"
proof -
  assume h: "inv s" "exec op s = (s', e)" "old s i"
  from h(3) obtain c n where i: "i = numbered c n" "n \<le> generation s c" by (auto simp: old_def)
  from exec_generation [OF h(1,2), of c] i(2) have "n \<le> generation s' c" by simp
  with i(1) show ?thesis by (auto simp: old_def)
qed

lemma acquired_not_old: "inv s \<Longrightarrow> exec op s = (s', Some (Acquired i)) \<Longrightarrow> \<not> old s i \<and> old s' i"
  by (auto simp: old_def dest!: exec_acquired intro: exI)

lemma run_acquired_fresh:
  "inv s \<Longrightarrow> run_events exec ops s = (s', es) \<Longrightarrow>
     distinct (acquired es) \<and> (\<forall>i \<in> set (acquired es). \<not> old s i) \<and> inv s'"
proof (induction ops arbitrary: s es)
  case Nil
  then show ?case by auto
next
  case (Cons op ops)
  obtain s1 e where ex: "exec op s = (s1, e)" by (cases "exec op s")
  obtain es1 where run: "run_events exec ops s1 = (s', es1)"
    and es: "es = (case e of None \<Rightarrow> es1 | Some ev \<Rightarrow> ev # es1)"
    using Cons.prems(2) ex by (auto split: prod.splits)
  have inv1: "inv s1" using Cons.prems(1) ex by (rule inv_exec)
  note IH = Cons.IH [OF inv1 run]
  have later: "\<forall>i \<in> set (acquired es1). \<not> old s i"
    using IH old_exec [OF Cons.prems(1) ex] by blast
  show ?case
  proof (cases "\<exists>i. e = Some (Acquired i)")
    case True
    then obtain i where e: "e = Some (Acquired i)" by blast
    then have "\<not> old s i \<and> old s1 i" using acquired_not_old [OF Cons.prems(1)] ex by blast
    with IH later es e show ?thesis by auto
  next
    case False
    then have "acquired es = acquired es1"
      by (cases e; cases "the e") (auto simp: es)
    with IH later show ?thesis by simp
  qed
qed

text \<open>The account of a run: what is live, and what may still be finished.\<close>

lemma run_account:
  "inv s \<Longrightarrow> run_events exec ops s = (s', es) \<Longrightarrow>
     distinct (finished es)
     \<and> set (finished es) \<subseteq> live s \<union> set (acquired es)
     \<and> live s' = (live s \<union> set (acquired es)) - set (finished es)"
proof (induction ops arbitrary: s es)
  case Nil
  then show ?case by auto
next
  case (Cons op ops)
  obtain s1 e where ex: "exec op s = (s1, e)" by (cases "exec op s")
  obtain es1 where run: "run_events exec ops s1 = (s', es1)"
    and es: "es = (case e of None \<Rightarrow> es1 | Some ev \<Rightarrow> ev # es1)"
    using Cons.prems(2) ex by (auto split: prod.splits)
  have inv1: "inv s1" using Cons.prems(1) ex by (rule inv_exec)
  note IH = Cons.IH [OF inv1 run]
  consider (none) "e = None" | (acq) i where "e = Some (Acquired i)"
    | (fin) i where "e = Some (Finished i)"
    by (metis option.exhaust resource_event.exhaust)
  then show ?case
  proof cases
    case none
    then have "live s1 = live s" using exec_silent [OF Cons.prems(1)] ex by simp
    with IH none es show ?thesis by simp
  next
    case acq
    then have "live s1 = insert i (live s)" using exec_acquired [OF Cons.prems(1)] ex by blast
    with IH acq es show ?thesis by auto
  next
    case fin
    then have i: "i \<in> live s" "live s1 = live s - {i}"
      using exec_finished [OF Cons.prems(1)] ex by blast+
    from live_generation [OF Cons.prems(1) i(1)] have "old s i" by (auto simp: old_def)
    then have "old s1 i" by (rule old_exec [OF Cons.prems(1) ex])
    then have "i \<notin> set (acquired es1)" using run_acquired_fresh [OF inv1 run] by blast
    with IH i fin es show ?thesis by auto
  qed
qed

lemma linear_use:
  assumes "inv s" and "live s = {}" and "run_events exec ops s = (s', es)"
  shows "distinct (acquired es) \<and> distinct (finished es)
    \<and> set (finished es) \<subseteq> set (acquired es)
    \<and> live s' = set (acquired es) - set (finished es)"
  using run_acquired_fresh [OF assms(1,3)] run_account [OF assms(1,3)] assms(2) by auto

end

text \<open>
  Managers that keep their live resources in a table of bindings give the contract: an
  allocation binds an unused name to a live binding of the next generation, finishing marks a
  live binding as dead and keeps its identity, and only dead bindings are released.
\<close>

locale binding_manager =
  fixes exec :: "'op \<Rightarrow> 's \<Rightarrow> 's \<times> resource_event option"
    and active :: "'s \<Rightarrow> string \<Rightarrow> 'b option"
    and generation :: "'s \<Rightarrow> string \<Rightarrow> nat"
    and ident :: "'b \<Rightarrow> string"
    and blive :: "'b \<Rightarrow> bool"
  assumes allocates: "exec op s = (s', Some (Acquired i)) \<Longrightarrow>
      \<exists>c b. active s c = None \<and> ident b = i \<and> blive b
        \<and> i = numbered c (Suc (generation s c)) \<and> active s' = (active s)(c \<mapsto> b)
        \<and> generation s' = (generation s)(c := Suc (generation s c))"
    and finishes: "exec op s = (s', Some (Finished i)) \<Longrightarrow>
      \<exists>c b b'. active s c = Some b \<and> blive b \<and> ident b = i \<and> ident b' = i \<and> \<not> blive b'
        \<and> active s' = (active s)(c \<mapsto> b') \<and> generation s' = generation s"
    and keeps: "exec op s = (s', None) \<Longrightarrow> generation s' = generation s
        \<and> (active s' = active s
           \<or> (\<exists>c b. active s c = Some b \<and> \<not> blive b \<and> active s' = (active s)(c := None)))"
begin

definition live_idents :: "'s \<Rightarrow> string set" where
  "live_idents s = {i. \<exists>c b. active s c = Some b \<and> blive b \<and> ident b = i}"

definition table_inv :: "'s \<Rightarrow> bool" where
  "table_inv s \<longleftrightarrow> (\<forall>c b. active s c = Some b \<longrightarrow> (\<exists>n \<le> generation s c. ident b = numbered c n))"

lemma exec_cases:
  assumes "exec op s = (s', e)"
  obtains (allocate) i c b where "e = Some (Acquired i)" "active s c = None" "ident b = i" "blive b"
      "i = numbered c (Suc (generation s c))" "active s' = (active s)(c \<mapsto> b)"
      "generation s' = (generation s)(c := Suc (generation s c))"
    | (finish) i c b b' where "e = Some (Finished i)" "active s c = Some b" "blive b" "ident b = i"
      "ident b' = i" "\<not> blive b'" "active s' = (active s)(c \<mapsto> b')" "generation s' = generation s"
    | (keep) "e = None" "generation s' = generation s" "active s' = active s"
    | (release) c b where "e = None" "generation s' = generation s" "active s c = Some b"
      "\<not> blive b" "active s' = (active s)(c := None)"
proof (cases e)
  case None
  with keeps [of op s s'] assms keep release show ?thesis by blast
next
  case (Some ev)
  show ?thesis
  proof (cases ev)
    case (Acquired i)
    with allocates [of op s s' i] assms Some allocate show ?thesis by blast
  next
    case (Finished i)
    with finishes [of op s s' i] assms Some finish show ?thesis by blast
  qed
qed

lemma other_ident:
  "table_inv s \<Longrightarrow> active s c = Some b \<Longrightarrow> active s k = Some d \<Longrightarrow> k \<noteq> c \<Longrightarrow> ident d \<noteq> ident b"
  unfolding table_inv_def by (metis numbered_inject)

lemma table_inv_exec: "table_inv s \<Longrightarrow> exec op s = (s', e) \<Longrightarrow> table_inv s'"
  by (erule exec_cases) (fastforce simp: table_inv_def)+

lemma live_exec:
  assumes inv: "table_inv s" and ex: "exec op s = (s', e)"
  shows "live_idents s' =
     (case e of None \<Rightarrow> live_idents s
      | Some (Acquired i) \<Rightarrow> insert i (live_idents s)
      | Some (Finished i) \<Rightarrow> live_idents s - {i})"
  using ex
proof (cases rule: exec_cases)
  case (allocate i c b)
  have "j \<in> live_idents s' \<longleftrightarrow> j = i \<or> j \<in> live_idents s" for j
    using allocate(2-4,6) unfolding live_idents_def mem_Collect_eq
    by (metis fun_upd_apply option.discI option.inject)
  with allocate(1) show ?thesis by auto
next
  case (finish i c b b')
  note other = other_ident [OF inv finish(2)]
  have "j \<in> live_idents s' \<longleftrightarrow> j \<in> live_idents s \<and> j \<noteq> i" for j
    using finish other by (auto simp: live_idents_def) (metis option.inject)+
  with finish(1) show ?thesis by auto
next
  case keep
  then show ?thesis by (simp add: live_idents_def)
next
  case (release c b)
  have "j \<in> live_idents s' \<longleftrightarrow> j \<in> live_idents s" for j
    using release(3-5) unfolding live_idents_def mem_Collect_eq
    by (metis fun_upd_apply option.discI option.inject)
  with release(1) show ?thesis by auto
qed

end

sublocale binding_manager \<subseteq> linear_resources exec generation live_idents table_inv
proof unfold_locales
  fix s s' op e i c
  assume inv: "table_inv s"
  show "exec op s = (s', e) \<Longrightarrow> table_inv s'" using inv by (rule table_inv_exec)
  show "exec op s = (s', Some (Acquired i)) \<Longrightarrow>
      \<exists>c. i = numbered c (Suc (generation s c)) \<and> generation s' c = Suc (generation s c)
        \<and> live_idents s' = insert i (live_idents s)"
    using allocates [of op s s' i] live_exec [OF inv, of op s'] by fastforce
  show "exec op s = (s', Some (Finished i)) \<Longrightarrow>
      i \<in> live_idents s \<and> live_idents s' = live_idents s - {i}"
    using finishes [of op s s' i] live_exec [OF inv, of op s'] by (fastforce simp: live_idents_def)
  show "exec op s = (s', None) \<Longrightarrow> live_idents s' = live_idents s"
    using live_exec [OF inv, of op s'] by fastforce
  show "exec op s = (s', e) \<Longrightarrow> generation s c \<le> generation s' c"
    by (erule exec_cases) auto
  show "i \<in> live_idents s \<Longrightarrow> \<exists>c n. i = numbered c n \<and> n \<le> generation s c"
    using inv by (fastforce simp: live_idents_def table_inv_def)
qed

end
