(* ===== verification/HandleResources.thy ===== *)
theory HandleResources
  imports HandleManagers HandleSafety LinearResources
begin

text \<open>
  The resource managers provide the contracts of \<open>LinearResources\<close>. Each manager's mutating
  calls are one datatype; a call that raises leaves the state it leaves in the code and reports
  no event.
\<close>

definition generation_of :: "(string, nat) pydict \<Rightarrow> string \<Rightarrow> nat" where
  "generation_of gs c = (case dict_get gs c of None \<Rightarrow> 0 | Some g \<Rightarrow> g)"

lemma next_generation_Suc: "next_generation gs c = Suc (generation_of gs c)"
  by (simp add: next_generation_def generation_of_def)

lemma generation_of_set:
  "generation_of (dict_set c g gs) = (generation_of gs)(c := g)"
  by (simp add: generation_of_def dict_get_set fun_eq_iff)

lemma generation_of_Nil [simp]: "generation_of [] = (\<lambda>_. 0)"
  by (simp add: generation_of_def fun_eq_iff)

subsection \<open>Builders\<close>

datatype builder_op = B_allocate string | B_build string | B_cancel string | B_release string

fun builder_exec ::
  "builder_op \<Rightarrow> HandleBuilderManager \<Rightarrow> HandleBuilderManager \<times> resource_event option" where
  "builder_exec (B_allocate c) m =
     (case builder_allocate c m of
        Inl e \<Rightarrow> (m, None) | Inr (b, m') \<Rightarrow> (m', Some (Acquired (bb_identity b))))"
| "builder_exec (B_build c) m =
     (case builder_build c m of
        Inl e \<Rightarrow> (m, None) | Inr (b, m') \<Rightarrow> (m', Some (Finished (bb_identity b))))"
| "builder_exec (B_cancel c) m =
     (case builder_cancel c m of
        Inl e \<Rightarrow> (m, None) | Inr (b, m') \<Rightarrow> (m', Some (Finished (bb_identity b))))"
| "builder_exec (B_release c) m =
     (case builder_release c m of Inl e \<Rightarrow> (m, None) | Inr (b, m') \<Rightarrow> (m', None))"

lemma builder_allocate_Inr:
  "builder_allocate c m = Inr (b, m') \<longleftrightarrow>
     dict_get (bm_active m) c = None
     \<and> b = \<lparr>bb_cname = c, bb_identity = numbered c (Suc (generation_of (bm_generations m) c)),
            bb_state = BS_LIVE\<rparr>
     \<and> m' = \<lparr>bm_active = dict_set c b (bm_active m),
             bm_generations =
               dict_set c (Suc (generation_of (bm_generations m) c)) (bm_generations m)\<rparr>"
  by (auto simp: builder_allocate_def dict_has_def Let_def next_generation_Suc)

lemma builder_finish_Inr:
  "builder_finish c s m = Inr (b', m') \<longleftrightarrow>
     (\<exists>b. dict_get (bm_active m) c = Some b \<and> bb_state b = BS_LIVE
        \<and> b' = b\<lparr>bb_state := s\<rparr> \<and> m' = m\<lparr>bm_active := dict_set c b' (bm_active m)\<rparr>)"
  by (auto simp: builder_finish_def builder_use_def builder_binding_def Let_def
      split: option.splits sum.splits if_splits)

lemma builder_release_Inr:
  "builder_release c m = Inr (b, m') \<longleftrightarrow>
     dict_get (bm_active m) c = Some b \<and> bb_state b \<noteq> BS_LIVE
     \<and> m' = m\<lparr>bm_active := dict_del c (bm_active m)\<rparr>"
  by (auto simp: builder_release_def builder_binding_def split: option.splits if_splits)

interpretation builders: binding_manager
  builder_exec "\<lambda>m. dict_get (bm_active m)" "\<lambda>m. generation_of (bm_generations m)"
  bb_identity "\<lambda>b. bb_state b = BS_LIVE"
proof unfold_locales
  fix op m m' i
  show "builder_exec op m = (m', Some (Acquired i)) \<Longrightarrow>
      \<exists>c b. dict_get (bm_active m) c = None \<and> bb_identity b = i \<and> bb_state b = BS_LIVE
        \<and> i = numbered c (Suc (generation_of (bm_generations m) c))
        \<and> dict_get (bm_active m') = (dict_get (bm_active m))(c \<mapsto> b)
        \<and> generation_of (bm_generations m') =
            (generation_of (bm_generations m))(c := Suc (generation_of (bm_generations m) c))"
  proof -
    assume "builder_exec op m = (m', Some (Acquired i))"
    then obtain c b where alloc: "builder_allocate c m = Inr (b, m')" and i: "i = bb_identity b"
      by (cases op) (auto split: sum.splits)
    then show ?thesis
      by (intro exI [of _ c] exI [of _ b])
         (auto simp: builder_allocate_Inr generation_of_set dict_get_set_fun)
  qed
  show "builder_exec op m = (m', Some (Finished i)) \<Longrightarrow>
      \<exists>c b b'. dict_get (bm_active m) c = Some b \<and> bb_state b = BS_LIVE \<and> bb_identity b = i
        \<and> bb_identity b' = i \<and> bb_state b' \<noteq> BS_LIVE
        \<and> dict_get (bm_active m') = (dict_get (bm_active m))(c \<mapsto> b')
        \<and> generation_of (bm_generations m') = generation_of (bm_generations m)"
  proof -
    assume "builder_exec op m = (m', Some (Finished i))"
    then obtain c s b' where fin: "builder_finish c s m = Inr (b', m')"
      and b': "s \<noteq> BS_LIVE" "i = bb_identity b'"
      by (cases op) (auto split: sum.splits simp: builder_build_def builder_cancel_def)
    then obtain b where "dict_get (bm_active m) c = Some b" "bb_state b = BS_LIVE"
        "b' = b\<lparr>bb_state := s\<rparr>" "m' = m\<lparr>bm_active := dict_set c b' (bm_active m)\<rparr>"
      by (auto simp: builder_finish_Inr)
    moreover from calculation have
      "dict_get (bm_active m') = (dict_get (bm_active m))(c \<mapsto> b')"
      "generation_of (bm_generations m') = generation_of (bm_generations m)"
      "bb_identity b = bb_identity b'" "bb_state b' = s"
      by (simp_all add: dict_get_set fun_eq_iff)
    ultimately show ?thesis using b' by metis
  qed
  show "builder_exec op m = (m', None) \<Longrightarrow>
      generation_of (bm_generations m') = generation_of (bm_generations m)
      \<and> (dict_get (bm_active m') = dict_get (bm_active m)
         \<or> (\<exists>c b. dict_get (bm_active m) c = Some b \<and> bb_state b \<noteq> BS_LIVE
              \<and> dict_get (bm_active m') = (dict_get (bm_active m))(c := None)))"
  proof (cases "bm_active m' = bm_active m")
    case True
    assume "builder_exec op m = (m', None)"
    with True show ?thesis by (cases op) (auto split: sum.splits simp: builder_release_Inr)
  next
    case False
    assume "builder_exec op m = (m', None)"
    with False obtain c b where "builder_release c m = Inr (b, m')"
      by (cases op) (auto split: sum.splits)
    then show ?thesis by (simp add: builder_release_Inr) (metis dict_get_del_fun)
  qed
qed

subsection \<open>Argument trackers\<close>

datatype argtracker_op = K_allocate string | K_close string | K_release string

fun argtracker_exec ::
  "argtracker_op \<Rightarrow> HandleTrackerManager \<Rightarrow> HandleTrackerManager \<times> resource_event option" where
  "argtracker_exec (K_allocate c) m =
     (case argtracker_allocate c m of
        Inl e \<Rightarrow> (m, None) | Inr (b, m') \<Rightarrow> (m', Some (Acquired (kb_identity b))))"
| "argtracker_exec (K_close c) m =
     (case argtracker_close c m of
        Inl e \<Rightarrow> (m, None) | Inr (b, m') \<Rightarrow> (m', Some (Finished (kb_identity b))))"
| "argtracker_exec (K_release c) m =
     (case argtracker_release c m of Inl e \<Rightarrow> (m, None) | Inr (b, m') \<Rightarrow> (m', None))"

lemma argtracker_allocate_Inr:
  "argtracker_allocate c m = Inr (b, m') \<longleftrightarrow>
     dict_get (km_active m) c = None
     \<and> b = \<lparr>kb_cname = c, kb_identity = numbered c (Suc (generation_of (km_generations m) c)),
            kb_state = TS_LIVE\<rparr>
     \<and> m' = \<lparr>km_active = dict_set c b (km_active m),
             km_generations =
               dict_set c (Suc (generation_of (km_generations m) c)) (km_generations m)\<rparr>"
  by (auto simp: argtracker_allocate_def dict_has_def Let_def next_generation_Suc)

lemma argtracker_close_Inr:
  "argtracker_close c m = Inr (b', m') \<longleftrightarrow>
     (\<exists>b. dict_get (km_active m) c = Some b \<and> kb_state b = TS_LIVE
        \<and> b' = b\<lparr>kb_state := TS_CLOSED\<rparr> \<and> m' = m\<lparr>km_active := dict_set c b' (km_active m)\<rparr>)"
  by (auto simp: argtracker_close_def argtracker_use_def argtracker_binding_def Let_def
      split: option.splits sum.splits if_splits)

lemma argtracker_release_Inr:
  "argtracker_release c m = Inr (b, m') \<longleftrightarrow>
     dict_get (km_active m) c = Some b \<and> kb_state b \<noteq> TS_LIVE
     \<and> m' = m\<lparr>km_active := dict_del c (km_active m)\<rparr>"
  by (auto simp: argtracker_release_def argtracker_binding_def split: option.splits if_splits)

interpretation argtrackers: binding_manager
  argtracker_exec "\<lambda>m. dict_get (km_active m)" "\<lambda>m. generation_of (km_generations m)"
  kb_identity "\<lambda>b. kb_state b = TS_LIVE"
proof unfold_locales
  fix op m m' i
  show "argtracker_exec op m = (m', Some (Acquired i)) \<Longrightarrow>
      \<exists>c b. dict_get (km_active m) c = None \<and> kb_identity b = i \<and> kb_state b = TS_LIVE
        \<and> i = numbered c (Suc (generation_of (km_generations m) c))
        \<and> dict_get (km_active m') = (dict_get (km_active m))(c \<mapsto> b)
        \<and> generation_of (km_generations m') =
            (generation_of (km_generations m))(c := Suc (generation_of (km_generations m) c))"
  proof -
    assume "argtracker_exec op m = (m', Some (Acquired i))"
    then obtain c b where alloc: "argtracker_allocate c m = Inr (b, m')" and i: "i = kb_identity b"
      by (cases op) (auto split: sum.splits)
    then show ?thesis
      by (intro exI [of _ c] exI [of _ b])
         (auto simp: argtracker_allocate_Inr generation_of_set dict_get_set_fun)
  qed
  show "argtracker_exec op m = (m', Some (Finished i)) \<Longrightarrow>
      \<exists>c b b'. dict_get (km_active m) c = Some b \<and> kb_state b = TS_LIVE \<and> kb_identity b = i
        \<and> kb_identity b' = i \<and> kb_state b' \<noteq> TS_LIVE
        \<and> dict_get (km_active m') = (dict_get (km_active m))(c \<mapsto> b')
        \<and> generation_of (km_generations m') = generation_of (km_generations m)"
  proof -
    assume "argtracker_exec op m = (m', Some (Finished i))"
    then obtain c b' where fin: "argtracker_close c m = Inr (b', m')" and i: "i = kb_identity b'"
      by (cases op) (auto split: sum.splits)
    then obtain b where "dict_get (km_active m) c = Some b" "kb_state b = TS_LIVE"
        "b' = b\<lparr>kb_state := TS_CLOSED\<rparr>" "m' = m\<lparr>km_active := dict_set c b' (km_active m)\<rparr>"
      by (auto simp: argtracker_close_Inr)
    moreover from calculation have
      "dict_get (km_active m') = (dict_get (km_active m))(c \<mapsto> b')"
      "generation_of (km_generations m') = generation_of (km_generations m)"
      "kb_identity b = kb_identity b'" "kb_state b' \<noteq> TS_LIVE"
      by (simp_all add: dict_get_set fun_eq_iff)
    ultimately show ?thesis using i by metis
  qed
  show "argtracker_exec op m = (m', None) \<Longrightarrow>
      generation_of (km_generations m') = generation_of (km_generations m)
      \<and> (dict_get (km_active m') = dict_get (km_active m)
         \<or> (\<exists>c b. dict_get (km_active m) c = Some b \<and> kb_state b \<noteq> TS_LIVE
              \<and> dict_get (km_active m') = (dict_get (km_active m))(c := None)))"
  proof (cases "km_active m' = km_active m")
    case True
    assume "argtracker_exec op m = (m', None)"
    with True show ?thesis by (cases op) (auto split: sum.splits simp: argtracker_release_Inr)
  next
    case False
    assume "argtracker_exec op m = (m', None)"
    with False obtain c b where "argtracker_release c m = Inr (b, m')"
      by (cases op) (auto split: sum.splits)
    then show ?thesis by (simp add: argtracker_release_Inr) (metis dict_get_del_fun)
  qed
qed

subsection \<open>Handle temporaries\<close>

datatype temp_op =
  T_allocate string HandleOwnership | T_close string | T_move string | T_release string

fun temp_exec ::
  "temp_op \<Rightarrow> HandleTemporaryManager \<Rightarrow> HandleTemporaryManager \<times> resource_event option" where
  "temp_exec (T_allocate c ow) m =
     (case temp_allocate c ow m of
        (Inl e, m') \<Rightarrow> (m', None)
      | (Inr b, m') \<Rightarrow> (m', if ow = OWNED then Some (Acquired (tb_identity b)) else None))"
| "temp_exec (T_close c) m =
     (case temp_close c m of
        Inl e \<Rightarrow> (m, None)
      | Inr (v, m') \<Rightarrow> (m', map_option (Finished \<circ> tb_identity) (dict_get (tm_active m) c)))"
| "temp_exec (T_move c) m =
     (case temp_move c m of
        Inl e \<Rightarrow> (m, None)
      | Inr (v, m') \<Rightarrow> (m', map_option (Finished \<circ> tb_identity) (dict_get (tm_active m) c)))"
| "temp_exec (T_release c) m =
     (case temp_release c m of Inl e \<Rightarrow> (m, None) | Inr (v, m') \<Rightarrow> (m', None))"

definition temp_live :: "HandleTemporaryManager \<Rightarrow> string set" where
  "temp_live m = {i. lifetimes (tm_state m) i = Held}"

definition temp_inv :: "HandleTemporaryManager \<Rightarrow> bool" where
  "temp_inv m \<longleftrightarrow>
     tracker_inv (tm_state m) \<and> st_storage (tm_state m) = [] \<and> dict_wf (tm_active m)
     \<and> (\<forall>i. lifetimes (tm_state m) i \<noteq> Unborn \<longrightarrow>
          (\<exists>c n. i = numbered c n \<and> n \<le> generation_of (tm_generations m) c))
     \<and> (\<forall>c b. dict_get (tm_active m) c = Some b \<longrightarrow>
          lifetimes (tm_state m) (tb_identity b) \<noteq> Unborn)
     \<and> (\<forall>i. lifetimes (tm_state m) i = Held \<longrightarrow>
          (\<exists>c b. dict_get (tm_active m) c = Some b \<and> tb_identity b = i))"

lemma temp_inv_new: "temp_inv temp_new"
  using tracker_inv_new by (simp add: temp_inv_def temp_new_def lifetimes_def dict_wf_Nil tracker_new_def)

lemma lifetime_Unborn: "lifetimes t i = Unborn \<longleftrightarrow> dict_get (st_values t) i = None"
  by (cases "dict_get (st_values t) i") (auto simp: lifetimes_def)

text \<open>
  Allocation either finds the name in use, or refuses immortal ownership after having advanced
  the generation, or succeeds: the fresh identity is never already declared.
\<close>

lemma temp_allocate_cases:
  assumes inv: "temp_inv m" and alloc: "temp_allocate c ow m = (r, m')"
  obtains (used) e where "r = Inl e" "m' = m" "dict_has (tm_active m) c"
    | (immortal) e where "r = Inl e" "ow = IMMORTAL" "dict_get (tm_active m) c = None"
        "m' = m\<lparr>tm_generations :=
           dict_set c (Suc (generation_of (tm_generations m) c)) (tm_generations m)\<rparr>"
    | (bound) b v where "r = Inr b" "ow \<noteq> IMMORTAL" "dict_get (tm_active m) c = None"
        "b = \<lparr>tb_cname = c,
              tb_identity = numbered c (Suc (generation_of (tm_generations m) c)),
              tb_ownership = ow\<rparr>"
        "v = \<lparr>hv_storage = storage_contract SK_LOCAL, hv_ownership = ow, hv_state = HS_LIVE\<rparr>"
        "lifetimes (tm_state m) (tb_identity b) = Unborn"
        "m' = \<lparr>tm_state = (tm_state m)\<lparr>st_values :=
                 dict_set (tb_identity b) v (st_values (tm_state m))\<rparr>,
              tm_active = dict_set c b (tm_active m),
              tm_generations =
                dict_set c (Suc (generation_of (tm_generations m) c)) (tm_generations m)\<rparr>"
proof (cases "dict_has (tm_active m) c")
  case True
  with alloc have "m' = m" "\<exists>e. r = Inl e" by (auto simp: temp_allocate_def)
  with True used show ?thesis by blast
next
  case False
  let ?g = "Suc (generation_of (tm_generations m) c)"
  let ?i = "numbered c ?g"
  have unborn: "lifetimes (tm_state m) ?i = Unborn"
    using inv unfolding temp_inv_def by (metis numbered_inject Suc_n_not_le_n)
  then have fresh: "fresh_name (tm_state m) ?i"
    using inv by (simp add: fresh_name_def temp_inv_def lifetime_Unborn dict_has_def)
  have none: "dict_get (tm_active m) c = None" using False by (simp add: dict_has_def)
  show ?thesis
  proof (cases "ow = IMMORTAL")
    case True
    then have "\<exists>e. declare_value ?i SK_LOCAL ow None (tm_state m) = Inl e"
      by (cases "declare_value ?i SK_LOCAL ow None (tm_state m)") (auto simp: declare_value_Inr)
    with alloc False True none immortal show ?thesis
      by (auto simp: temp_allocate_def next_generation_Suc Let_def)
  next
    case notimm: False
    let ?v = "\<lparr>hv_storage = storage_contract SK_LOCAL, hv_ownership = ow, hv_state = HS_LIVE\<rparr>"
    have "declare_value ?i SK_LOCAL ow None (tm_state m) =
        Inr (?v, (tm_state m)\<lparr>st_values := dict_set ?i ?v (st_values (tm_state m))\<rparr>)"
      using fresh notimm by (simp add: declare_value_Inr or_default_def)
    with alloc False have "r = Inr \<lparr>tb_cname = c, tb_identity = ?i, tb_ownership = ow\<rparr>"
      "m' = \<lparr>tm_state = (tm_state m)\<lparr>st_values := dict_set ?i ?v (st_values (tm_state m))\<rparr>,
          tm_active = dict_set c \<lparr>tb_cname = c, tb_identity = ?i, tb_ownership = ow\<rparr> (tm_active m),
          tm_generations = dict_set c ?g (tm_generations m)\<rparr>"
      by (auto simp: temp_allocate_def next_generation_Suc Let_def)
    with notimm none unborn bound show ?thesis by simp
  qed
qed

text \<open>Closing and moving a temporary consume the value its binding names.\<close>

definition temp_consumed :: "string \<Rightarrow> HandleTemporaryManager \<Rightarrow> HandleTemporaryManager \<Rightarrow> bool" where
  "temp_consumed c m m' \<longleftrightarrow> (\<exists>b s w v t'. dict_get (tm_active m) c = Some b \<and> s \<noteq> HS_LIVE
     \<and> consume_owned (tb_identity b) s w (tm_state m) = Inr (v, t') \<and> m' = m\<lparr>tm_state := t'\<rparr>)"

lemma temp_close_Inr: "temp_close c m = Inr (v, m') \<Longrightarrow> temp_consumed c m m'"
  by (fastforce simp: temp_close_def temp_binding_def temp_consumed_def tracker_close_def
      split: option.splits sum.splits)

lemma temp_move_Inr: "temp_move c m = Inr (v, m') \<Longrightarrow> temp_consumed c m m'"
  by (fastforce simp: temp_move_def temp_binding_def temp_consumed_def tracker_move_def
      split: option.splits sum.splits)

lemma temp_consumed_lifetimes:
  assumes "temp_consumed c m m'"
  obtains b where "dict_get (tm_active m) c = Some b"
    "lifetimes (tm_state m) (tb_identity b) = Held"
    "lifetimes (tm_state m') = (lifetimes (tm_state m))(tb_identity b := Spent)"
    "tm_active m' = tm_active m" "tm_generations m' = tm_generations m"
    "primitive_step (tm_state m) (tm_state m')"
proof -
  from assms obtain b s w v t' where c: "dict_get (tm_active m) c = Some b" "s \<noteq> HS_LIVE"
      "consume_owned (tb_identity b) s w (tm_state m) = Inr (v, t')" "m' = m\<lparr>tm_state := t'\<rparr>"
    by (auto simp: temp_consumed_def)
  then obtain u where u: "dict_get (st_values (tm_state m)) (tb_identity b) = Some u" "live_owned u"
      "v = u\<lparr>hv_state := s\<rparr>"
      "t' = (tm_state m)\<lparr>st_values := dict_set (tb_identity b) v (st_values (tm_state m))\<rparr>"
    by (auto simp: consume_owned_Inr)
  have "lifetimes t' = (lifetimes (tm_state m))(tb_identity b := Spent)"
    using u c(2) by (simp add: lifetimes_set live_owned_def)
  moreover have "lifetimes (tm_state m) (tb_identity b) = Held"
    using u by (simp add: lifetimes_def live_owned_def)
  moreover have "primitive_step (tm_state m) t'" using c(2,3) by (rule prim_consume [rotated])
  ultimately show ?thesis using that c by simp
qed

lemma temp_release_Inr:
  "temp_release c m = Inr (v, m') \<longleftrightarrow>
     (\<exists>b. dict_get (tm_active m) c = Some b
        \<and> dict_get (st_values (tm_state m)) (tb_identity b) = Some v \<and> \<not> live_owned v)
     \<and> m' = m\<lparr>tm_active := dict_del c (tm_active m)\<rparr>"
  by (auto simp: temp_release_def temp_binding_def tracker_value_def live_owned_def
      split: option.splits if_splits)

lemma temp_inv_allocate:
  assumes inv: "temp_inv m" and alloc: "temp_allocate c ow m = (r, m')"
  shows "temp_inv m'"
  using inv alloc
proof (cases rule: temp_allocate_cases)
  case (used e)
  with inv show ?thesis by simp
next
  case (immortal e)
  with inv show ?thesis
    by (auto simp: temp_inv_def generation_of_set) (metis le_SucI)
next
  case (bound b v)
  let ?t = "tm_state m"
  have declared: "declare_value (tb_identity b) SK_LOCAL ow None ?t = Inr (v, tm_state m')"
    using bound inv
    by (auto simp: declare_value_Inr or_default_def fresh_name_def temp_inv_def
        lifetime_Unborn dict_has_def)
  have lt: "lifetimes (tm_state m') =
      (lifetimes ?t)(tb_identity b := value_lifetime (Some v))"
    using bound(7) by (simp add: lifetimes_set)
  have "tracker_inv (tm_state m')"
    using inv declared by (auto simp: temp_inv_def intro: tracker_inv_primitive prim_value)
  moreover have "\<exists>k n. i = numbered k n \<and> n \<le> generation_of (tm_generations m') k"
    if "lifetimes (tm_state m') i \<noteq> Unborn" for i
  proof (cases "i = tb_identity b")
    case True
    with bound(4,7) show ?thesis by (auto simp: generation_of_set)
  next
    case False
    with that lt have "lifetimes ?t i \<noteq> Unborn" by simp
    with inv obtain k n where "i = numbered k n" "n \<le> generation_of (tm_generations m) k"
      unfolding temp_inv_def by blast
    then show ?thesis
      using bound(7) by (intro exI [of _ k] exI [of _ n]) (auto simp: generation_of_set)
  qed
  moreover have "lifetimes (tm_state m') (tb_identity d) \<noteq> Unborn"
    if "dict_get (tm_active m') k = Some d" for k d
    using that inv bound(7) lt by (auto simp: temp_inv_def dict_get_set split: if_splits)
  moreover have "\<exists>k d. dict_get (tm_active m') k = Some d \<and> tb_identity d = i"
    if held: "lifetimes (tm_state m') i = Held" for i
  proof (cases "i = tb_identity b")
    case True
    with bound(7) show ?thesis by (auto simp: dict_get_set)
  next
    case False
    with held lt have "lifetimes ?t i = Held" by simp
    with inv obtain k d where kd: "dict_get (tm_active m) k = Some d" "tb_identity d = i"
      unfolding temp_inv_def by blast
    with bound(3) have "k \<noteq> c" by auto
    with kd bound(7) have "dict_get (tm_active m') k = Some d" by (simp add: dict_get_set)
    with kd(2) show ?thesis by blast
  qed
  ultimately show ?thesis
    using inv bound(7) by (simp add: temp_inv_def dict_wf_set)
qed

lemma temp_inv_consumed:
  assumes inv: "temp_inv m" and "temp_consumed c m m'"
  shows "temp_inv m'"
  using assms(2)
proof (cases rule: temp_consumed_lifetimes)
  case (1 b)
  have "st_storage (tm_state m') = []"
    using assms(2) inv by (auto simp: temp_consumed_def consume_owned_Inr temp_inv_def)
  moreover have "tracker_inv (tm_state m')"
    using inv 1(6) by (auto simp: temp_inv_def intro: tracker_inv_primitive)
  ultimately show ?thesis
    using inv 1(2-5) by (simp add: temp_inv_def)
qed

lemma temp_inv_release:
  assumes inv: "temp_inv m" and rel: "temp_release c m = Inr (v, m')"
  shows "temp_inv m'"
proof -
  from rel obtain b where b: "dict_get (tm_active m) c = Some b"
      "dict_get (st_values (tm_state m)) (tb_identity b) = Some v" "\<not> live_owned v"
      "m' = m\<lparr>tm_active := dict_del c (tm_active m)\<rparr>"
    by (auto simp: temp_release_Inr)
  then have dead: "lifetimes (tm_state m) (tb_identity b) \<noteq> Held"
    by (simp add: lifetimes_def live_owned_def)
  have "\<exists>k d. dict_get (tm_active m') k = Some d \<and> tb_identity d = i"
    if held: "lifetimes (tm_state m) i = Held" for i
  proof -
    from inv held obtain k d where kd: "dict_get (tm_active m) k = Some d" "tb_identity d = i"
      unfolding temp_inv_def by blast
    with dead held b(1) have "k \<noteq> c" by auto
    with kd b(4) show ?thesis by (auto simp: dict_get_del)
  qed
  with inv b(4) show ?thesis
    by (simp add: temp_inv_def dict_wf_del dict_get_del)
qed

lemma temp_exec_cases:
  assumes inv: "temp_inv m" and ex: "temp_exec op m = (m', e)"
  obtains (alloc) c ow r where "temp_allocate c ow m = (r, m')"
      "e = (case r of Inl _ \<Rightarrow> None
            | Inr b \<Rightarrow> if ow = OWNED then Some (Acquired (tb_identity b)) else None)"
    | (consume) c b where "temp_consumed c m m'" "dict_get (tm_active m) c = Some b"
      "e = Some (Finished (tb_identity b))"
    | (release) c v where "temp_release c m = Inr (v, m')" "e = None"
    | (raised) "m' = m" "e = None"
proof (cases op)
  case (T_allocate c ow)
  with ex alloc [of c ow "fst (temp_allocate c ow m)"] show ?thesis
    by (auto split: prod.splits sum.splits)
next
  case (T_close c)
  with ex raised consume temp_close_Inr show ?thesis
    by (fastforce simp: temp_consumed_def split: sum.splits)
next
  case (T_move c)
  with ex raised consume temp_move_Inr show ?thesis
    by (fastforce simp: temp_consumed_def split: sum.splits)
next
  case (T_release c)
  with ex raised release show ?thesis by (auto split: sum.splits)
qed

lemma temp_live_allocate:
  assumes "temp_inv m" and "temp_allocate c ow m = (r, m')"
  shows "temp_live m' =
     (case r of Inr b \<Rightarrow> if ow = OWNED then insert (tb_identity b) (temp_live m) else temp_live m
      | Inl _ \<Rightarrow> temp_live m)"
  using assms
proof (cases rule: temp_allocate_cases)
  case (bound b v)
  have "lifetimes (tm_state m') =
      (lifetimes (tm_state m))(tb_identity b := value_lifetime (Some v))"
    using bound(7) by (simp add: lifetimes_set)
  with bound show ?thesis by (auto simp: temp_live_def)
qed (auto simp: temp_live_def)

lemma temp_live_consumed:
  assumes "temp_consumed c m m'" and "dict_get (tm_active m) c = Some b"
  shows "tb_identity b \<in> temp_live m \<and> temp_live m' = temp_live m - {tb_identity b}"
  using assms(1)
proof (cases rule: temp_consumed_lifetimes)
  case (1 d)
  with assms(2) show ?thesis by (auto simp: temp_live_def)
qed

interpretation temporaries: linear_resources
  temp_exec "\<lambda>m. generation_of (tm_generations m)" temp_live temp_inv
proof unfold_locales
  fix m m' op e i c
  assume inv: "temp_inv m"
  show "temp_exec op m = (m', e) \<Longrightarrow> temp_inv m'"
    using inv by (auto elim!: temp_exec_cases [OF inv]
        intro: temp_inv_allocate temp_inv_consumed temp_inv_release)
  show "temp_exec op m = (m', Some (Acquired i)) \<Longrightarrow>
      \<exists>c. i = numbered c (Suc (generation_of (tm_generations m) c))
        \<and> generation_of (tm_generations m') c = Suc (generation_of (tm_generations m) c)
        \<and> temp_live m' = insert i (temp_live m)"
  proof (erule temp_exec_cases [OF inv])
    fix k ow r
    assume alloc: "temp_allocate k ow m = (r, m')"
      and e: "Some (Acquired i) = (case r of Inl _ \<Rightarrow> None
            | Inr b \<Rightarrow> if ow = OWNED then Some (Acquired (tb_identity b)) else None)"
    then obtain b where b: "r = Inr b" "ow = OWNED" "i = tb_identity b"
      by (auto split: sum.splits if_splits)
    from temp_live_allocate [OF inv alloc] b have "temp_live m' = insert i (temp_live m)" by simp
    moreover from inv alloc have "i = numbered k (Suc (generation_of (tm_generations m) k))
        \<and> generation_of (tm_generations m') k = Suc (generation_of (tm_generations m) k)"
      by (cases rule: temp_allocate_cases) (auto simp: b generation_of_set)
    ultimately show ?thesis by blast
  qed auto
  show "temp_exec op m = (m', Some (Finished i)) \<Longrightarrow>
      i \<in> temp_live m \<and> temp_live m' = temp_live m - {i}"
    by (erule temp_exec_cases [OF inv])
       (auto dest: temp_live_consumed split: sum.splits if_splits)
  show "temp_exec op m = (m', None) \<Longrightarrow> temp_live m' = temp_live m"
    by (erule temp_exec_cases [OF inv])
       (auto dest!: temp_live_allocate [OF inv] split: sum.splits if_splits
          simp: temp_release_Inr temp_live_def)
  show "temp_exec op m = (m', e) \<Longrightarrow>
      generation_of (tm_generations m) c \<le> generation_of (tm_generations m') c"
  proof (erule temp_exec_cases [OF inv])
    fix k ow r assume "temp_allocate k ow m = (r, m')"
    with inv show ?thesis
      by (cases rule: temp_allocate_cases) (auto simp: generation_of_set)
  next
    fix k b assume "temp_consumed k m m'"
    then show ?thesis by (cases rule: temp_consumed_lifetimes) simp
  qed (auto simp: temp_release_Inr)
  show "i \<in> temp_live m \<Longrightarrow>
      \<exists>c n. i = numbered c n \<and> n \<le> generation_of (tm_generations m) c"
    using inv by (auto simp: temp_live_def temp_inv_def)
qed

subsection \<open>The exit checks see every live resource\<close>

lemma live_owned_bindings_known:
  "(\<And>c b. (c, b) \<in> set bs \<Longrightarrow> lifetimes t (tb_identity b) \<noteq> Unborn) \<Longrightarrow>
     live_owned_bindings t bs = Inr [c. (c, b) \<leftarrow> bs, lifetimes t (tb_identity b) = Held]"
proof (induction bs)
  case Nil
  then show ?case by simp
next
  case (Cons p bs)
  obtain c b where p: "p = (c, b)" by (cases p)
  from Cons.prems [of c b] p obtain v where v: "dict_get (st_values t) (tb_identity b) = Some v"
    by (auto simp: lifetime_Unborn)
  have "live_owned_bindings t bs = Inr [c. (c, b) \<leftarrow> bs, lifetimes t (tb_identity b) = Held]"
    using Cons.prems by (intro Cons.IH) auto
  with p v show ?case by (simp add: tracker_value_def lifetimes_def live_owned_def)
qed

lemma temp_assert_no_live_iff:
  assumes inv: "temp_inv m"
  shows "temp_assert_no_live m = Inr () \<longleftrightarrow> temp_live m = {}"
proof -
  let ?live = "[c. (c, b) \<leftarrow> tm_active m, lifetimes (tm_state m) (tb_identity b) = Held]"
  have "live_owned_bindings (tm_state m) (tm_active m) = Inr ?live"
    using inv by (intro live_owned_bindings_known) (auto simp: temp_inv_def dict_wf_mem)
  then have "temp_assert_no_live m = Inr () \<longleftrightarrow> ?live = []"
    by (simp add: temp_assert_no_live_def temp_live_owned_handles_def)
  also have "\<dots> \<longleftrightarrow> (\<forall>c b. dict_get (tm_active m) c = Some b \<longrightarrow>
      lifetimes (tm_state m) (tb_identity b) \<noteq> Held)"
    using inv by (auto simp: temp_inv_def dict_wf_mem [symmetric])
  also have "\<dots> \<longleftrightarrow> temp_live m = {}"
    using inv unfolding temp_inv_def temp_live_def by blast
  finally show ?thesis .
qed

lemma builder_exec_wf: "builder_exec op m = (m', e) \<Longrightarrow> dict_wf (bm_active m) \<Longrightarrow> dict_wf (bm_active m')"
  by (cases op)
     (auto split: sum.splits simp: builder_allocate_Inr builder_build_def builder_cancel_def
        builder_finish_Inr builder_release_Inr dict_wf_set dict_wf_del)

lemma builder_run_wf:
  "run_events builder_exec ops m = (m', es) \<Longrightarrow> dict_wf (bm_active m) \<Longrightarrow> dict_wf (bm_active m')"
  by (induction ops arbitrary: m es) (auto split: prod.splits dest: builder_exec_wf)

lemma builder_assert_no_live_iff:
  assumes "dict_wf (bm_active m)"
  shows "builder_assert_no_live m = Inr () \<longleftrightarrow> builders.live_idents m = {}"
proof -
  have "live_builders m = [] \<longleftrightarrow>
      (\<forall>c b. (c, b) \<in> set (bm_active m) \<longrightarrow> bb_state b \<noteq> BS_LIVE)"
    by (simp only: live_builders_def sort_Nil_iff names_where_Nil)
  with assms show ?thesis
    by (simp add: builder_assert_no_live_def Let_def dict_wf_mem [symmetric])
       (auto simp: builders.live_idents_def dict_wf_mem)
qed

lemma argtracker_exec_wf:
  "argtracker_exec op m = (m', e) \<Longrightarrow> dict_wf (km_active m) \<Longrightarrow> dict_wf (km_active m')"
  by (cases op)
     (auto split: sum.splits simp: argtracker_allocate_Inr argtracker_close_Inr
        argtracker_release_Inr dict_wf_set dict_wf_del)

lemma argtracker_run_wf:
  "run_events argtracker_exec ops m = (m', es) \<Longrightarrow> dict_wf (km_active m) \<Longrightarrow> dict_wf (km_active m')"
  by (induction ops arbitrary: m es) (auto split: prod.splits dest: argtracker_exec_wf)

lemma argtracker_assert_no_live_iff:
  assumes "dict_wf (km_active m)"
  shows "argtracker_assert_no_live m = Inr () \<longleftrightarrow> argtrackers.live_idents m = {}"
proof -
  have "live_trackers m = [] \<longleftrightarrow>
      (\<forall>c b. (c, b) \<in> set (km_active m) \<longrightarrow> kb_state b \<noteq> TS_LIVE)"
    by (simp only: live_trackers_def sort_Nil_iff names_where_Nil)
  with assms show ?thesis
    by (simp add: argtracker_assert_no_live_def Let_def dict_wf_mem [symmetric])
       (auto simp: argtrackers.live_idents_def dict_wf_mem)
qed

subsection \<open>Properties\<close>

text \<open>C10. Temporaries are linear: over any sequence of allocate, close, move and release calls on a new
  manager, returning or raising, no handle identity is acquired twice or consumed twice, only
  acquired handles are consumed, and the exit check passes exactly when every owned handle that
  was acquired has been consumed, even if its C name was reused in between.\<close>

theorem temporaries_linear:
  assumes "run_events temp_exec ops temp_new = (m, es)"
  shows "distinct (acquired es) \<and> distinct (finished es)
    \<and> set (finished es) \<subseteq> set (acquired es)
    \<and> (temp_assert_no_live m = Inr () \<longleftrightarrow> set (acquired es) = set (finished es))"
proof -
  have "temp_live temp_new = {}"
    by (simp add: temp_live_def temp_new_def tracker_new_def lifetimes_def)
  note lin = temporaries.linear_use [OF temp_inv_new this assms]
  have "temp_inv m" using temporaries.run_acquired_fresh [OF temp_inv_new assms] by blast
  then have "temp_assert_no_live m = Inr () \<longleftrightarrow> temp_live m = {}"
    by (rule temp_assert_no_live_iff)
  with lin show ?thesis by auto
qed

theorem temporaries_linear_witness:
  "\<exists>m es. run_events temp_exec
       [T_allocate ''t'' OWNED, T_close ''t'', T_release ''t'', T_allocate ''t'' OWNED] temp_new
       = (m, es)
     \<and> acquired es = [''t#1'', ''t#2''] \<and> distinct (acquired es)
     \<and> temp_assert_no_live m \<noteq> Inr ()"
proof -
  let ?ops = "[T_allocate ''t'' OWNED, T_close ''t'', T_release ''t'', T_allocate ''t'' OWNED]"
  obtain m es where run: "run_events temp_exec ?ops temp_new = (m, es)" by (cases "run_events temp_exec ?ops temp_new")
  have ev: "snd (run_events temp_exec ?ops temp_new)
      = [Acquired ''t#1'', Finished ''t#1'', Acquired ''t#2'']"
    by code_simp
  with run have es: "es = [Acquired ''t#1'', Finished ''t#1'', Acquired ''t#2'']" by simp
  from temporaries_linear [OF run] es have "temp_assert_no_live m \<noteq> Inr ()" by simp
  with run es temporaries_linear [OF run] show ?thesis by auto
qed

text \<open>C11. Builders and argument trackers are linear in the same sense: whatever is called, every builder
  is built or cancelled at most once and every tracker closed at most once, and each exit check
  passes exactly when nothing acquired is left unfinished.\<close>

theorem builders_and_trackers_linear:
  assumes "run_events builder_exec ops builder_new = (m, es)"
    and "run_events argtracker_exec ops' argtracker_new = (m', es')"
  shows "distinct (acquired es) \<and> distinct (finished es) \<and> set (finished es) \<subseteq> set (acquired es)
    \<and> (builder_assert_no_live m = Inr () \<longleftrightarrow> set (acquired es) = set (finished es))
    \<and> distinct (acquired es') \<and> distinct (finished es') \<and> set (finished es') \<subseteq> set (acquired es')
    \<and> (argtracker_assert_no_live m' = Inr () \<longleftrightarrow> set (acquired es') = set (finished es'))"
proof -
  have "builders.table_inv builder_new" "builders.live_idents builder_new = {}"
    by (simp_all add: builders.table_inv_def builders.live_idents_def builder_new_def)
  note b = builders.linear_use [OF this assms(1)]
  have "argtrackers.table_inv argtracker_new" "argtrackers.live_idents argtracker_new = {}"
    by (simp_all add: argtrackers.table_inv_def argtrackers.live_idents_def argtracker_new_def)
  note k = argtrackers.linear_use [OF this assms(2)]
  have "dict_wf (bm_active m)" "dict_wf (km_active m')"
    using builder_run_wf [OF assms(1)] argtracker_run_wf [OF assms(2)]
    by (simp_all add: builder_new_def argtracker_new_def dict_wf_Nil)
  with b k show ?thesis
    by (auto simp: builder_assert_no_live_iff argtracker_assert_no_live_iff)
qed

theorem builders_and_trackers_linear_witness:
  "\<exists>m es. run_events builder_exec [B_allocate ''b'', B_build ''b'', B_cancel ''b''] builder_new
       = (m, es)
     \<and> es = [Acquired ''b#1'', Finished ''b#1''] \<and> builder_assert_no_live m = Inr ()"
proof -
  let ?ops = "[B_allocate ''b'', B_build ''b'', B_cancel ''b'']"
  obtain m es where run: "run_events builder_exec ?ops builder_new = (m, es)"
    by (cases "run_events builder_exec ?ops builder_new")
  have "snd (run_events builder_exec ?ops builder_new) = [Acquired ''b#1'', Finished ''b#1'']"
    by code_simp
  with run have es: "es = [Acquired ''b#1'', Finished ''b#1'']" by simp
  have none: "run_events argtracker_exec [] argtracker_new = (argtracker_new, [])" by simp
  from builders_and_trackers_linear [OF run none] es run show ?thesis by auto
qed

end
