(* ===== verification/LZSS.thy ===== *)
theory LZSS
  imports Prelude "HOL-Library.Word"
begin

text \<open>
  \<open>Cython/LZSS.py\<close>, the compressor of the string constants in generated modules, and the
  decompressor it is written for, \<open>__pyx_lzss_decompress\<close> of
  \<open>Cython/Utility/StringTools.c\<close>. Bytes are naturals below 256 and positions naturals; the
  differences the code compares with the window size can be negative and are integers. The C
  reads and writes of the decompressor are checked: a read past the source, a write past the
  destination or a back reference before its start is \<open>None\<close>.
\<close>

unbundle bit_operations_syntax

subsection \<open>Match search\<close>

definition WINDOW_SIZE :: nat where
  "WINDOW_SIZE = 2 ^ 14 + 128"

text \<open>\<open>data[i:j]\<close>.\<close>

definition slice :: "'a list \<Rightarrow> nat \<Rightarrow> nat \<Rightarrow> 'a list" where
  "slice xs i j = take (j - i) (drop i xs)"

text \<open>\<open>hash_table\<close>: a \<open>defaultdict(list)\<close>; a lookup under a missing key is only made by
  the append.\<close>

type_synonym lz_table = "(nat list, nat list) pydict"

definition table_append :: "nat list \<Rightarrow> nat \<Rightarrow> lz_table \<Rightarrow> lz_table" where
  "table_append key pos table =
     dict_set key ((case dict_get table key of None \<Rightarrow> [] | Some ps \<Rightarrow> ps) @ [pos]) table"

function extend_match :: "nat list \<Rightarrow> nat \<Rightarrow> nat \<Rightarrow> nat \<Rightarrow> nat \<Rightarrow> nat" where
  "extend_match data a b max_len match_len =
     (if match_len < max_len \<and> data ! (a + match_len) = data ! (b + match_len)
      then extend_match data a b max_len (match_len + 1)
      else match_len)"
  by pat_completeness auto
termination
  by (relation "measure (\<lambda>(data, a, b, max_len, match_len). max_len - match_len)") auto

declare extend_match.simps [simp del]

text \<open>The loop over the earlier positions with the same three bytes; the accumulator is
  \<open>(best_offset, best_len)\<close>.\<close>

fun best_match ::
  "nat list \<Rightarrow> nat \<Rightarrow> nat \<Rightarrow> nat \<Rightarrow> nat list \<Rightarrow> nat \<times> nat \<Rightarrow> nat \<times> nat" where
  "best_match data pos window_start MAX_MATCH [] (best_offset, best_len) = (best_offset, best_len)"
| "best_match data pos window_start MAX_MATCH (prev_pos # ps) (best_offset, best_len) =
     (if prev_pos < window_start \<or> prev_pos \<ge> pos
      then best_match data pos window_start MAX_MATCH ps (best_offset, best_len)
      else
        let max_len = min MAX_MATCH (pos - prev_pos);
            match_len = extend_match data prev_pos pos max_len 3
        in if match_len > best_len \<and> int pos - int prev_pos - int match_len < int WINDOW_SIZE
           then best_match data pos window_start MAX_MATCH ps (pos - prev_pos, match_len)
           else best_match data pos window_start MAX_MATCH ps (best_offset, best_len))"

text \<open>The loop of the lazy match: the best length at the next position.\<close>

fun next_match :: "nat list \<Rightarrow> nat \<Rightarrow> nat \<Rightarrow> nat \<Rightarrow> nat list \<Rightarrow> nat \<Rightarrow> nat" where
  "next_match data pos window_start MAX_MATCH [] next_best_len = next_best_len"
| "next_match data pos window_start MAX_MATCH (prev_pos # ps) next_best_len =
     (if prev_pos < window_start
      then next_match data pos window_start MAX_MATCH ps next_best_len
      else
        let max_len = min (min MAX_MATCH (pos - prev_pos)) (length data - pos - 1);
            match_len = extend_match data prev_pos (pos + 1) max_len 3
        in if match_len > next_best_len
              \<and> int pos - int prev_pos - int next_best_len < int WINDOW_SIZE
           then next_match data pos window_start MAX_MATCH ps match_len
           else next_match data pos window_start MAX_MATCH ps next_best_len)"

text \<open>\<open>find_longest_match\<close> returns \<open>(offset, length)\<close>.\<close>

definition find_longest_match :: "nat list \<Rightarrow> lz_table \<Rightarrow> nat \<Rightarrow> nat \<times> nat" where
  "find_longest_match data table pos =
     (let input_size = length data in
      if pos + 3 > input_size then (0, 0)
      else
        let MAX_MATCH = min (255 + 3) (input_size - pos);
            window_start = pos - WINDOW_SIZE - MAX_MATCH;
            key = slice data pos (pos + 3)
        in case dict_get table key of
             None \<Rightarrow> (0, 0)
           | Some positions \<Rightarrow>
             let (best_offset, best_len) = best_match data pos window_start MAX_MATCH positions (0, 0);
                 next_key = slice data (pos + 1) (pos + 4)
             in if 0 < best_len \<and> best_len < MAX_MATCH \<and> pos + best_len + 1 < input_size
                then (case dict_get table next_key of
                        None \<Rightarrow> (best_offset, best_len)
                      | Some next_positions \<Rightarrow>
                          let next_best_len =
                                next_match data pos (pos + 1 - WINDOW_SIZE - MAX_MATCH) MAX_MATCH
                                  next_positions 0
                          in if next_best_len > best_len + 1 then (0, 0)
                             else (best_offset, best_len))
                else (best_offset, best_len))"

subsection \<open>Encoding one step\<close>

text \<open>
  What one turn of the main loop appends: the flag bit, the bytes, and how far \<open>pos\<close>
  advances. \<open>offset\<close> is the distance from the end of the earlier occurrence.
\<close>

definition encode_step :: "nat \<Rightarrow> nat \<Rightarrow> nat \<Rightarrow> nat \<times> nat list \<times> nat" where
  "encode_step byte offset0 len =
     (let literal = (1, [byte], 1) in
      if len < 3 \<or> int offset0 - int len < 0 then literal
      else
        let offset = offset0 - len in
        if offset \<le> 0x7F then (0, [offset, len - 3], len)
        else
          let offset = offset - 0x80;
              length_bits = len - 3
          in if length_bits < 2 ^ 5 \<and> offset < 2 ^ 9
             then (0, [(offset AND 0x7F) OR 0x80, drop_bit 2 (offset AND 0x180) OR length_bits], len)
             else if len > 3 \<and> offset < 2 ^ 14
             then (0, [(offset AND 0x7F) OR 0x80, (drop_bit 7 offset AND 0x7F) OR 0x80, length_bits],
                   len)
             else literal)"

subsection \<open>The main loop\<close>

record lz_state =
  lz_output :: "nat list"
  lz_pos :: nat
  lz_flags_pos :: nat
  lz_flags :: nat
  lz_table :: lz_table

definition lz_init :: lz_state where
  "lz_init = \<lparr>lz_output = [0], lz_pos = 0, lz_flags_pos = 0, lz_flags = 0xFF0000, lz_table = []\<rparr>"

definition lz_put :: "nat \<times> nat list \<times> nat \<Rightarrow> lz_state \<Rightarrow> lz_state" where
  "lz_put enc s =
     (case enc of (flag, bytes, len) \<Rightarrow>
        let output = lz_output s @ bytes;
            flags = push_bit 7 flag OR drop_bit 1 (lz_flags s)
        in if flags < 0x10000
           then s\<lparr>lz_output := output[lz_flags_pos s := flags AND 0xFF] @ [0],
                  lz_pos := lz_pos s + len,
                  lz_flags_pos := length output,
                  lz_flags := 0xFF0000\<rparr>
           else s\<lparr>lz_output := output, lz_pos := lz_pos s + len, lz_flags := flags\<rparr>)"

definition lz_step :: "nat list \<Rightarrow> lz_state \<Rightarrow> lz_state" where
  "lz_step data s =
     (case find_longest_match data (lz_table s) (lz_pos s) of (offset, len) \<Rightarrow>
        lz_put (encode_step (data ! lz_pos s) offset len)
          (s\<lparr>lz_table := table_append (slice data (lz_pos s) (lz_pos s + 3)) (lz_pos s) (lz_table s)\<rparr>))"

lemma encode_step_len: "0 < snd (snd (encode_step b off len))"
  by (auto simp: encode_step_def Let_def)

lemma lz_put_pos: "lz_pos (lz_put enc s) = lz_pos s + snd (snd enc)"
  by (simp add: lz_put_def Let_def split: prod.split)

lemma lz_step_pos: "lz_pos s < lz_pos (lz_step data s)"
  using encode_step_len by (auto simp: lz_step_def lz_put_pos split: prod.split)

function lz_loop :: "nat list \<Rightarrow> lz_state \<Rightarrow> lz_state" where
  "lz_loop data s = (if lz_pos s < length data then lz_loop data (lz_step data s) else s)"
  by pat_completeness auto
termination
proof (relation "measure (\<lambda>(data, s). length data - lz_pos s)")
  show "wf (measure (\<lambda>(data, s). length data - lz_pos s))" by simp
  fix data :: "nat list" and s :: lz_state
  assume "lz_pos s < length data"
  with lz_step_pos [of s data]
  show "((data, lz_step data s), data, s) \<in> measure (\<lambda>(data, s). length data - lz_pos s)"
    by simp
qed

declare lz_loop.simps [simp del]

text \<open>\<open>while flags >= 0x10000: flags >>= 1\<close>.\<close>

function pad_flags :: "nat \<Rightarrow> nat" where
  "pad_flags flags = (if flags \<ge> 0x10000 then pad_flags (drop_bit 1 flags) else flags)"
  by pat_completeness auto
termination
  by (relation "measure id") (auto simp: drop_bit_eq_div)

declare pad_flags.simps [simp del]

definition lz_finish :: "lz_state \<Rightarrow> nat list" where
  "lz_finish s =
     (if lz_flags_pos s = length (lz_output s) - 1 then butlast (lz_output s)
      else (lz_output s)[lz_flags_pos s := pad_flags (lz_flags s) AND 0xFF])"

definition lzss_compress :: "nat list \<Rightarrow> nat list" where
  "lzss_compress data = (if data = [] then [] else lz_finish (lz_loop data lz_init))"

subsection \<open>The decompressor\<close>

text \<open>\<open>src[pos++]\<close>.\<close>

definition read_byte :: "nat list \<Rightarrow> nat \<Rightarrow> (nat \<times> nat) option" where
  "read_byte src pos = (if pos < length src then Some (src ! pos, pos + 1) else None)"

text \<open>The back reference of two or three bytes: \<open>(end_offset_of_last_occurrence,
  match_length, pos)\<close>, with the 3 added.\<close>

definition read_reference :: "nat list \<Rightarrow> nat \<Rightarrow> (nat \<times> nat \<times> nat) option" where
  "read_reference src pos =
     (case read_byte src pos of None \<Rightarrow> None
      | Some (lo, pos) \<Rightarrow>
        (case read_byte src pos of None \<Rightarrow> None
         | Some (hi, pos) \<Rightarrow>
             if lo AND 0x80 = 0 then Some (lo, hi + 3, pos)
             else if hi AND 0x80 = 0
             then Some (0x80 + ((push_bit 2 hi AND 0x180) OR (lo AND 0x7F)), (hi AND 0x1F) + 3, pos)
             else (case read_byte src pos of None \<Rightarrow> None
                   | Some (len, pos) \<Rightarrow>
                       Some (0x80 + (push_bit 7 (hi AND 0x7F) OR (lo AND 0x7F)), len + 3, pos))))"

text \<open>\<open>memcpy(dst + out_pos, dst + ref_pos, match_length)\<close>; \<open>dst\<close> is the bytes
  written so far.\<close>

definition copy_back :: "nat \<Rightarrow> nat \<Rightarrow> nat \<Rightarrow> nat list \<Rightarrow> nat list option" where
  "copy_back dst_len end_offset match_length dst =
     (if end_offset + match_length > length dst \<or> length dst + match_length > dst_len then None
      else Some (dst @ take match_length (drop (length dst - end_offset - match_length) dst)))"

definition decompress_item ::
  "nat list \<Rightarrow> nat \<Rightarrow> bool \<Rightarrow> nat \<Rightarrow> nat list \<Rightarrow> (nat \<times> nat list) option" where
  "decompress_item src dst_len plain pos dst =
     (if plain
      then (case read_byte src pos of None \<Rightarrow> None
            | Some (b, pos) \<Rightarrow> if length dst < dst_len then Some (pos, dst @ [b]) else None)
      else (case read_reference src pos of None \<Rightarrow> None
            | Some (end_offset, match_length, pos) \<Rightarrow>
                (case copy_back dst_len end_offset match_length dst of None \<Rightarrow> None
                 | Some dst \<Rightarrow> Some (pos, dst))))"

text \<open>The inner loop. \<open>Inl\<close> is the \<open>return pos\<close>, \<open>Inr\<close> its end after eight items.\<close>

function decompress_group ::
  "nat list \<Rightarrow> nat \<Rightarrow> nat \<Rightarrow> nat \<Rightarrow> nat list \<Rightarrow> (nat \<times> nat list + nat \<times> nat list) option" where
  "decompress_group src dst_len flags pos dst =
     (if flags AND 0x100 = 0 then Some (Inr (pos, dst))
      else (case decompress_item src dst_len (flags AND 1 \<noteq> 0) pos dst of
              None \<Rightarrow> None
            | Some (pos, dst) \<Rightarrow>
                if length dst \<ge> dst_len then Some (Inl (pos, dst))
                else decompress_group src dst_len (drop_bit 1 flags) pos dst))"
  by pat_completeness auto
termination
proof (relation "measure (\<lambda>(src, dst_len, flags, pos, dst). flags)", goal_cases)
  case 1
  show ?case by simp
next
  case (2 src dst_len flags pos dst r pos' dst')
  then show ?case by (cases "flags = 0") (simp_all add: drop_bit_eq_div)
qed

declare decompress_group.simps [simp del]

text \<open>The outer loop; \<open>fuel\<close> bounds the number of groups, and every group reads at least
  its flags, so one more than the length of the source is always enough.\<close>

fun decompress_loop :: "nat \<Rightarrow> nat list \<Rightarrow> nat \<Rightarrow> nat \<Rightarrow> nat list \<Rightarrow> (nat \<times> nat list) option" where
  "decompress_loop 0 src dst_len pos dst = None"
| "decompress_loop (Suc fuel) src dst_len pos dst =
     (case read_byte src pos of None \<Rightarrow> None
      | Some (b, pos) \<Rightarrow>
          (case decompress_group src dst_len (b OR 0xFF00) pos dst of
             None \<Rightarrow> None
           | Some (Inl r) \<Rightarrow> Some r
           | Some (Inr (pos, dst)) \<Rightarrow> decompress_loop fuel src dst_len pos dst))"

definition lzss_decompress :: "nat list \<Rightarrow> nat \<Rightarrow> (nat \<times> nat list) option" where
  "lzss_decompress src dst_len = decompress_loop (length src + 1) src dst_len 0 []"

text \<open>\<open>__Pyx_DecompressString_LZSS\<close>: the whole source must have been read.\<close>

definition DecompressString_LZSS :: "nat list \<Rightarrow> nat \<Rightarrow> nat \<Rightarrow> nat list option" where
  "DecompressString_LZSS s compressed_length uncompressed_length =
     (case lzss_decompress s uncompressed_length of
        None \<Rightarrow> None
      | Some (src_length, result) \<Rightarrow>
          if src_length \<noteq> compressed_length then None else Some result)"

end
