(* ===== verification/LZSSCorrect.thy ===== *)
theory LZSSCorrect
  imports LZSS
begin

text \<open>
  The compressor and the decompressor are inverse. The match search only reports earlier
  occurrences; one encoded step decodes to the bytes it stands for; flags and items are framed
  in groups of eight that the decompressor reads back.
\<close>

unbundle bit_operations_syntax

subsection \<open>Matches\<close>

definition same_bytes :: "nat list \<Rightarrow> nat \<Rightarrow> nat \<Rightarrow> nat \<Rightarrow> bool" where
  "same_bytes data a b n \<longleftrightarrow> (\<forall>i < n. data ! (a + i) = data ! (b + i))"

definition match_ok :: "nat list \<Rightarrow> nat \<Rightarrow> nat \<times> nat \<Rightarrow> bool" where
  "match_ok data pos m \<longleftrightarrow>
     (case m of (off, len) \<Rightarrow>
        len = 0 \<or> 3 \<le> len \<and> len \<le> 258 \<and> off \<le> pos \<and> pos + len \<le> length data
          \<and> same_bytes data (pos - off) pos len \<and> int off - int len < int WINDOW_SIZE)"

lemma extend_match_bounds:
  "match_len \<le> extend_match data a b max_len match_len
   \<and> extend_match data a b max_len match_len \<le> max match_len max_len"
proof (induction data a b max_len match_len rule: extend_match.induct)
  case (1 data a b max_len match_len)
  then show ?case by (subst (1 2) extend_match.simps) auto
qed

lemma extend_match_same:
  "same_bytes data a b match_len \<Longrightarrow>
     same_bytes data a b (extend_match data a b max_len match_len)"
proof (induction data a b max_len match_len rule: extend_match.induct)
  case (1 data a b max_len match_len)
  show ?case
  proof (cases "match_len < max_len \<and> data ! (a + match_len) = data ! (b + match_len)")
    case True
    with 1 have "same_bytes data a b (match_len + 1)"
      by (auto simp: same_bytes_def less_Suc_eq)
    with 1 True show ?thesis by (subst extend_match.simps) simp
  next
    case False
    with 1 show ?thesis by (subst extend_match.simps) auto
  qed
qed

lemma slice_same_bytes:
  assumes "slice data p (p + 3) = slice data q (q + 3)" and "q + 3 \<le> length data" and "p \<le> q"
  shows "same_bytes data p q 3"
  unfolding same_bytes_def
proof (intro allI impI)
  fix i :: nat assume i: "i < 3"
  have "slice data p (p + 3) ! i = data ! (p + i)" "slice data q (q + 3) ! i = data ! (q + i)"
    using i assms(2,3) by (simp_all add: slice_def)
  with assms(1) show "data ! (p + i) = data ! (q + i)" by simp
qed

lemma best_match_ok:
  assumes "match_ok data pos acc" and "pos + 3 \<le> length data"
    and "MM = min (255 + 3) (length data - pos)"
    and "\<forall>p \<in> set ps. slice data p (p + 3) = slice data pos (pos + 3)"
  shows "match_ok data pos (best_match data pos ws MM ps acc)"
  using assms(1,4)
proof (induction ps arbitrary: acc)
  case Nil
  then show ?case by (cases acc) simp
next
  case (Cons prev ps)
  obtain bo bl where acc: "acc = (bo, bl)" by (cases acc)
  let ?ml = "extend_match data prev pos (min MM (pos - prev)) 3"
  have rest: "\<forall>p \<in> set ps. slice data p (p + 3) = slice data pos (pos + 3)"
    and same: "slice data prev (prev + 3) = slice data pos (pos + 3)"
    using Cons.prems(2) by simp_all
  have old: "match_ok data pos (best_match data pos ws MM ps acc)"
    by (rule Cons.IH [OF Cons.prems(1) rest])
  show ?case
  proof (cases "(prev < ws \<or> prev \<ge> pos)
      \<or> \<not> (?ml > bl \<and> int pos - int prev - int ?ml < int WINDOW_SIZE)")
    case True
    with old show ?thesis unfolding acc by (auto simp: Let_def simp del: of_nat_less_iff)
  next
    case False
    then have prev: "\<not> prev < ws" "prev < pos" by auto
    have "same_bytes data prev pos ?ml"
      using prev same assms(2) by (intro extend_match_same slice_same_bytes) auto
    moreover have "3 \<le> ?ml" "?ml \<le> 258" "pos + ?ml \<le> length data"
      using extend_match_bounds [of 3 data prev pos "min MM (pos - prev)"] assms(2,3)
      by linarith+
    ultimately have "match_ok data pos (pos - prev, ?ml)"
      using prev False by (auto simp: match_ok_def)
    from Cons.IH [OF this rest] False prev show ?thesis
      unfolding acc by (simp add: Let_def)
  qed
qed

definition table_ok :: "nat list \<Rightarrow> lz_table \<Rightarrow> bool" where
  "table_ok data table \<longleftrightarrow>
     (\<forall>key ps p. dict_get table key = Some ps \<and> p \<in> set ps \<longrightarrow> slice data p (p + 3) = key)"

lemma table_ok_append:
  assumes "table_ok data table"
  shows "table_ok data (table_append (slice data pos (pos + 3)) pos table)"
proof -
  let ?key = "slice data pos (pos + 3)"
  have old: "slice data p (p + 3) = key" if "dict_get table key = Some ps" "p \<in> set ps" for key ps p
    using assms that unfolding table_ok_def by blast
  show ?thesis
    unfolding table_ok_def table_append_def
    by (cases "dict_get table ?key") (auto simp: dict_get_set split: if_splits dest: old)
qed

lemma find_longest_match_ok:
  assumes "table_ok data table"
  shows "match_ok data pos (find_longest_match data table pos)"
proof -
  have zero: "match_ok data pos (0, 0)" by (simp add: match_ok_def)
  let ?MM = "min (255 + 3) (length data - pos)"
  let ?key = "slice data pos (pos + 3)"
  show ?thesis
  proof (cases "pos + 3 > length data \<or> dict_get table ?key = None")
    case True
    then show ?thesis using zero by (auto simp: find_longest_match_def Let_def)
  next
    case False
    then obtain ps where ps: "dict_get table ?key = Some ps" and len: "pos + 3 \<le> length data"
      by force
    let ?m = "best_match data pos (pos - WINDOW_SIZE - ?MM) ?MM ps (0, 0)"
    have "\<forall>p \<in> set ps. slice data p (p + 3) = ?key"
      using assms ps unfolding table_ok_def by blast
    then have "match_ok data pos ?m"
      by (rule best_match_ok [OF zero len refl])
    moreover have "find_longest_match data table pos \<in> {(0, 0), ?m}"
      using ps len by (auto simp: find_longest_match_def Let_def split: prod.splits option.splits)
    ultimately show ?thesis using zero by auto
  qed
qed

subsection \<open>One item\<close>

text \<open>An item is the flag, the bytes and the length of the text it stands for.\<close>

type_synonym lz_item = "nat \<times> nat list \<times> nat"

abbreviation item_flag :: "lz_item \<Rightarrow> bool" where "item_flag it \<equiv> fst it \<noteq> 0"
abbreviation item_bytes :: "lz_item \<Rightarrow> nat list" where "item_bytes it \<equiv> fst (snd it)"
abbreviation item_len :: "lz_item \<Rightarrow> nat" where "item_len it \<equiv> snd (snd it)"

text \<open>The item decodes to the text at \<open>p\<close> wherever its bytes stand in the source.\<close>

definition item_ok :: "nat list \<Rightarrow> nat \<Rightarrow> lz_item \<Rightarrow> bool" where
  "item_ok data p it \<longleftrightarrow>
     fst it \<le> 1 \<and> 0 < item_len it \<and> p + item_len it \<le> length data \<and> item_bytes it \<noteq> []
     \<and> length (item_bytes it) \<le> item_len it
     \<and> (list_all (\<lambda>b. b < 0x100) data \<longrightarrow> list_all (\<lambda>b. b < 0x100) (item_bytes it))
     \<and> (\<forall>pre post.
          decompress_item (pre @ item_bytes it @ post) (length data) (item_flag it) (length pre)
            (take p data)
          = Some (length pre + length (item_bytes it), take (p + item_len it) data))"

lemma bit_const [simp]:
  "bit (0x80 :: nat) n \<longleftrightarrow> n = 7" "bit (0x7F :: nat) n \<longleftrightarrow> n < 7"
  "bit (0x180 :: nat) n \<longleftrightarrow> n = 7 \<or> n = 8" "bit (0x1F :: nat) n \<longleftrightarrow> n < 5"
proof -
  have eqs: "(0x80 :: nat) = 2 ^ 7" "(0x7F :: nat) = mask 7" "(0x180 :: nat) = push_bit 7 (mask 2)"
    "(0x1F :: nat) = mask 5"
    by (simp_all add: mask_eq_exp_minus_1 push_bit_eq_mult)
  show "bit (0x80 :: nat) n \<longleftrightarrow> n = 7"
    unfolding eqs(1) by (rule bit_exp_iff [where 'a = nat, simplified, unfolded eq_commute [of n]])
  show "bit (0x7F :: nat) n \<longleftrightarrow> n < 7"
    unfolding eqs(2) bit_mask_iff by simp
  show "bit (0x180 :: nat) n \<longleftrightarrow> n = 7 \<or> n = 8"
    unfolding eqs(3) bit_push_bit_iff bit_mask_iff by auto
  show "bit (0x1F :: nat) n \<longleftrightarrow> n < 5"
    unfolding eqs(4) bit_mask_iff by simp
qed

lemma bit_below: "x < 2 ^ k \<Longrightarrow> bit (x :: nat) n \<Longrightarrow> n < k"
  by (metis bit_take_bit_iff take_bit_nat_eq_self)

lemma and_0x80: "x AND 0x80 = 0 \<longleftrightarrow> \<not> bit (x :: nat) 7"
  by (auto simp: bit_eq_iff [of "x AND 0x80"] bit_and_iff)

lemma read_byte_at:
  "read_byte (pre @ b # post) (length pre) = Some (b, length pre + 1)"
  "read_byte (pre @ b # b' # post) (Suc (length pre)) = Some (b', length pre + 2)"
  "read_byte (pre @ b # b' # b'' # post) (Suc (Suc (length pre))) = Some (b'', length pre + 3)"
  by (simp_all add: read_byte_def nth_append)

lemma read_reference_short:
  assumes "off \<le> 0x7F"
  shows "read_reference (pre @ [off, hi] @ post) (length pre) = Some (off, hi + 3, length pre + 2)"
proof -
  have "off < 2 ^ 7" using assms by simp
  then have "off AND 0x80 = 0" using bit_below [of off 7] by (auto simp: and_0x80)
  then show ?thesis by (simp add: read_reference_def read_byte_at)
qed

lemma read_reference_medium:
  assumes "off < 2 ^ 9" and "lb < 2 ^ 5"
  shows "read_reference (pre @ [(off AND 0x7F) OR 0x80, drop_bit 2 (off AND 0x180) OR lb] @ post)
           (length pre) = Some (0x80 + off, lb + 3, length pre + 2)"
proof -
  let ?lo = "(off AND 0x7F) OR 0x80" and ?hi = "drop_bit 2 (off AND 0x180) OR lb"
  have lb: "bit lb n \<Longrightarrow> n < 5" for n using bit_below assms(2) by blast
  have o: "bit off n \<Longrightarrow> n < 9" for n using bit_below assms(1) by blast
  have "?lo AND 0x80 \<noteq> 0" "?hi AND 0x80 = 0"
    unfolding and_0x80 using lb [of 7] by (auto simp: bit_simps)
  moreover have "(push_bit 2 ?hi AND 0x180) OR (?lo AND 0x7F) = off"
  proof (rule bit_eqI)
    fix n :: nat
    have "n < 7 \<or> n = 7 \<or> n = 8 \<or> 9 \<le> n" by arith
    then show "bit ((push_bit 2 ?hi AND 0x180) OR (?lo AND 0x7F)) n = bit off n"
      using o [of n] lb [of 5] lb [of 6]
      by (elim disjE)
        (auto simp only: bit_or_iff bit_and_iff bit_push_bit_iff bit_drop_bit_eq bit_const o_apply
          possible_bit_nat, simp_all)
  qed
  moreover have "?hi AND 0x1F = lb"
  proof (rule bit_eqI)
    fix n :: nat
    show "bit (?hi AND 0x1F) n = bit lb n"
      using lb [of n] by (auto simp only: bit_or_iff bit_and_iff bit_drop_bit_eq bit_const o_apply)
  qed
  ultimately show ?thesis by (simp add: read_reference_def read_byte_at)
qed

lemma read_reference_long:
  assumes "off < 2 ^ 14"
  shows "read_reference
           (pre @ [(off AND 0x7F) OR 0x80, (drop_bit 7 off AND 0x7F) OR 0x80, lb] @ post)
           (length pre) = Some (0x80 + off, lb + 3, length pre + 3)"
proof -
  let ?lo = "(off AND 0x7F) OR 0x80" and ?hi = "(drop_bit 7 off AND 0x7F) OR 0x80"
  have o: "bit off n \<Longrightarrow> n < 14" for n using bit_below assms(1) by blast
  have "?lo AND 0x80 \<noteq> 0" "?hi AND 0x80 \<noteq> 0"
    unfolding and_0x80 by (auto simp: bit_simps)
  moreover have "push_bit 7 (?hi AND 0x7F) OR (?lo AND 0x7F) = off"
  proof (rule bit_eqI)
    fix n
    have "bit (push_bit 7 (?hi AND 0x7F)) n \<longleftrightarrow> 7 \<le> n \<and> n < 14 \<and> bit off n"
      by (auto simp only: bit_or_iff bit_and_iff bit_push_bit_iff bit_drop_bit_eq bit_const o_apply
          le_add_diff_inverse possible_bit_nat)
    then show "bit (push_bit 7 (?hi AND 0x7F) OR (?lo AND 0x7F)) n = bit off n"
      using o [of n] by (auto simp only: bit_or_iff bit_and_iff bit_const)
  qed
  ultimately show ?thesis by (simp add: read_reference_def read_byte_at)
qed

text \<open>A back reference of the match decodes to the matched text.\<close>

lemma copy_back_match:
  assumes "match_ok data p (off, len)" and "len \<noteq> 0" and "len \<le> off"
  shows "copy_back (length data) (off - len) len (take p data) = Some (take (p + len) data)"
proof -
  have m: "off \<le> p" "p + len \<le> length data" "same_bytes data (p - off) p len"
    using assms by (auto simp: match_ok_def)
  have "take len (drop (p - off) (take p data)) = take len (drop p data)"
  proof (rule nth_equalityI)
    fix i assume "i < length (take len (drop (p - off) (take p data)))"
    then have "i < len" by simp
    with m assms(3) show "take len (drop (p - off) (take p data)) ! i = take len (drop p data) ! i"
      by (simp add: same_bytes_def)
  qed (use m assms(3) in auto)
  moreover have "p - (off - len) - len = p - off" using m(1) assms(3) by simp
  ultimately show ?thesis
    using m assms(3) by (simp add: copy_back_def take_add)
qed

lemma literal_ok: "p < length data \<Longrightarrow> item_ok data p (1, [data ! p], 1)"
  by (simp add: item_ok_def decompress_item_def read_byte_at take_Suc_conv_app_nth list_all_length)

lemma reference_ok:
  assumes "match_ok data p (off, len)" and "3 \<le> len" and "len \<le> off" and "bytes \<noteq> []"
    and "length bytes \<le> len" and "list_all (\<lambda>b. b < 0x100) bytes"
    and "\<And>pre post. read_reference (pre @ bytes @ post) (length pre)
           = Some (off - len, len, length pre + length bytes)"
  shows "item_ok data p (0, bytes, len)"
  using copy_back_match [OF assms(1) _ assms(3)] assms
  by (auto simp: item_ok_def decompress_item_def match_ok_def)

lemma byte_bits: "(\<And>n. bit (x :: nat) n \<Longrightarrow> n < 8) \<Longrightarrow> x < 0x100"
proof -
  assume *: "\<And>n. bit x n \<Longrightarrow> n < 8"
  have "take_bit 8 x = x" by (intro bit_eqI) (auto simp: bit_take_bit_iff dest: *)
  then show ?thesis using take_bit_nat_less_exp [of 8 x] by simp
qed

lemma reference_bytes:
  fixes lb :: nat
  shows "(o' AND 0x7F) OR 0x80 < (0x100 :: nat)"
    and "lb < 2 ^ 5 \<Longrightarrow> drop_bit 2 (o' AND 0x180) OR lb < 0x100"
proof -
  show "(o' AND 0x7F) OR 0x80 < (0x100 :: nat)"
    by (rule byte_bits) (auto simp only: bit_or_iff bit_and_iff bit_const)
  assume "lb < 2 ^ 5"
  then show "drop_bit 2 (o' AND 0x180) OR lb < 0x100"
    by (intro byte_bits)
      (auto simp only: bit_or_iff bit_and_iff bit_const bit_drop_bit_eq o_apply
        dest!: bit_below [of lb 5])
qed

lemma encode_step_ok:
  assumes "p < length data" and "match_ok data p (off, len)"
  shows "item_ok data p (encode_step (data ! p) off len)"
proof (cases "len < 3 \<or> int off - int len < 0")
  case True
  then show ?thesis
    using literal_ok [OF assms(1)] by (simp only: encode_step_def Let_def if_True)
next
  case False
  then have len: "3 \<le> len" and off: "len \<le> off" by auto
  have len_max: "len \<le> 258" using assms(2) len by (auto simp: match_ok_def)
  note ref = reference_ok [OF assms(2) len off]
  note lit = literal_ok [OF assms(1)]
  consider (short) "off - len \<le> 0x7F"
    | (medium) "\<not> off - len \<le> 0x7F" "len - 3 < 2 ^ 5 \<and> off - len - 0x80 < 2 ^ 9"
    | (long) "\<not> off - len \<le> 0x7F" "\<not> (len - 3 < 2 ^ 5 \<and> off - len - 0x80 < 2 ^ 9)"
        "len > 3 \<and> off - len - 0x80 < 2 ^ 14"
    | (plain) "\<not> off - len \<le> 0x7F" "\<not> (len - 3 < 2 ^ 5 \<and> off - len - 0x80 < 2 ^ 9)"
        "\<not> (len > 3 \<and> off - len - 0x80 < 2 ^ 14)"
    by blast
  then show ?thesis
  proof cases
    case short
    have "item_ok data p (0, [off - len, len - 3], len)"
      by (rule ref) (use read_reference_short [OF short] short len len_max in simp_all)
    then show ?thesis using False short by (simp only: encode_step_def Let_def if_True if_False)
  next
    case medium
    let ?o = "off - len - 0x80"
    have "item_ok data p (0, [(?o AND 0x7F) OR 0x80, drop_bit 2 (?o AND 0x180) OR (len - 3)], len)"
      by (rule ref) (use read_reference_medium [of ?o "len - 3"] reference_bytes(2) [of "len - 3" ?o] medium len in
          \<open>simp_all add: reference_bytes\<close>)
    then show ?thesis
      using False medium by (simp only: encode_step_def Let_def if_True if_False simp_thms)
  next
    case long
    let ?o = "off - len - 0x80"
    have "item_ok data p
        (0, [(?o AND 0x7F) OR 0x80, (drop_bit 7 ?o AND 0x7F) OR 0x80, len - 3], len)"
      by (rule ref) (use read_reference_long [of ?o _ "len - 3"] long len len_max in
          \<open>simp_all add: reference_bytes\<close>)
    then show ?thesis
      using False long by (simp only: encode_step_def Let_def if_True if_False simp_thms)
  next
    case plain
    with False lit show ?thesis by (simp only: encode_step_def Let_def if_False)
  qed
qed

subsection \<open>Flags and groups\<close>

text \<open>The items stand for the text from \<open>p\<close> to \<open>q\<close>.\<close>

fun items_ok :: "nat list \<Rightarrow> nat \<Rightarrow> lz_item list \<Rightarrow> nat \<Rightarrow> bool" where
  "items_ok data p [] q \<longleftrightarrow> q = p"
| "items_ok data p (it # its) q \<longleftrightarrow> item_ok data p it \<and> items_ok data (p + item_len it) its q"

definition flag_byte :: "bool list \<Rightarrow> nat" where
  "flag_byte fs = horner_sum of_bool 2 fs"

abbreviation items_bytes :: "lz_item list \<Rightarrow> nat list" where
  "items_bytes its \<equiv> concat (map item_bytes its)"

definition group_bytes :: "lz_item list \<Rightarrow> nat list" where
  "group_bytes its = flag_byte (map item_flag its) # items_bytes its"

text \<open>The value of \<open>flags\<close> in the compressor after the flags \<open>fs\<close> of a group.\<close>

definition flag_state :: "bool list \<Rightarrow> nat" where
  "flag_state fs = push_bit (16 - length fs) 0xFF OR push_bit (8 - length fs) (flag_byte fs)"

lemma bit_0xFF: "bit (0xFF :: nat) n \<longleftrightarrow> n < 8"
proof -
  have "(0xFF :: nat) = mask 8" by (simp add: mask_eq_exp_minus_1)
  then show ?thesis by (simp only: bit_mask_iff) simp
qed

lemma bit_0xFF00: "bit (0xFF00 :: nat) n \<longleftrightarrow> 8 \<le> n \<and> n < 16"
proof -
  have "(0xFF00 :: nat) = push_bit 8 0xFF" by (simp add: push_bit_eq_mult)
  then show ?thesis by (simp only: bit_push_bit_iff bit_0xFF) auto
qed

lemma bit_0x100: "bit (0x100 :: nat) n \<longleftrightarrow> n = 8"
proof -
  have "(0x100 :: nat) = 2 ^ 8" by simp
  then show ?thesis by (simp only: bit_exp_iff) auto
qed

lemma and_0x100: "x AND 0x100 = 0 \<longleftrightarrow> \<not> bit (x :: nat) 8"
proof
  assume "x AND 0x100 = 0"
  then have "\<not> bit (x AND 0x100) 8" by simp
  then show "\<not> bit x 8" by (simp only: bit_and_iff bit_0x100) simp
next
  assume "\<not> bit x 8"
  then show "x AND 0x100 = 0" by (intro bit_eqI) (simp only: bit_and_iff bit_0x100, auto)
qed

lemma bit_flag_byte: "bit (flag_byte fs) n \<longleftrightarrow> n < length fs \<and> fs ! n"
  by (simp add: flag_byte_def bit_horner_sum_bit_iff)

lemma bit_flag_state:
  "length fs \<le> 8 \<Longrightarrow> bit (flag_state fs) n \<longleftrightarrow>
     16 - length fs \<le> n \<and> n < 24 - length fs
     \<or> 8 - length fs \<le> n \<and> n < 8 \<and> fs ! (n - (8 - length fs))"
  by (auto simp: flag_state_def bit_or_iff bit_push_bit_iff bit_0xFF bit_flag_byte)

lemma flag_state_Nil: "flag_state [] = 0xFF0000"
  by (simp add: flag_state_def flag_byte_def push_bit_eq_mult)

lemma flag_state_snoc:
  assumes "length fs < 8"
  shows "push_bit 7 (of_bool b) OR drop_bit 1 (flag_state fs) = flag_state (fs @ [b])"
proof (rule bit_eqI)
  fix n :: nat
  have "n = 7 \<or> n < 7 \<or> 7 < n" by arith
  then show "bit (push_bit 7 (of_bool b) OR drop_bit 1 (flag_state fs)) n = bit (flag_state (fs @ [b])) n"
    using assms
    by (elim disjE)
      (auto simp: bit_or_iff bit_push_bit_iff bit_drop_bit_eq bit_flag_state nth_append less_diff_conv
        Suc_diff_le of_bool_def bit_1_iff bit_Suc_0_iff)
qed

lemma flag_state_less:
  assumes "length fs \<le> 8" shows "flag_state fs < 2 ^ (24 - length fs)"
proof -
  have "take_bit (24 - length fs) (flag_state fs) = flag_state fs"
    using assms by (intro bit_eqI) (auto simp: bit_take_bit_iff bit_flag_state)
  then show ?thesis using take_bit_nat_less_exp [of "24 - length fs" "flag_state fs"] by simp
qed

lemma bit_imp_ge: "bit (x :: nat) n \<Longrightarrow> 2 ^ n \<le> x"
  by (metis linorder_not_less bit_below less_irrefl)

lemma flag_state_ge:
  assumes "length fs < 8" shows "2 ^ (23 - length fs) \<le> flag_state fs"
  using assms by (intro bit_imp_ge) (simp add: bit_flag_state, linarith)

lemma flag_state_full:
  assumes "length fs \<le> 8" shows "flag_state fs < 0x10000 \<longleftrightarrow> length fs = 8"
proof (cases "length fs = 8")
  case True
  then show ?thesis using flag_state_less [of fs] by simp
next
  case False
  with assms have "length fs < 8" by simp
  then have "(2 :: nat) ^ 16 \<le> 2 ^ (23 - length fs)" by (intro power_increasing) simp_all
  with False flag_state_ge [of fs] \<open>length fs < 8\<close> show ?thesis by simp
qed

lemma pad_flags_drop:
  "2 ^ (15 + j) \<le> x \<Longrightarrow> x < 2 ^ (16 + j) \<Longrightarrow> pad_flags x = drop_bit j x"
proof (induction j arbitrary: x)
  case 0
  then show ?case by (simp add: pad_flags.simps)
next
  case (Suc j)
  have "(2 :: nat) ^ 16 \<le> 2 ^ (15 + Suc j)" by (intro power_increasing) simp_all
  with Suc.prems have "0x10000 \<le> x" by simp
  moreover have "pad_flags (drop_bit 1 x) = drop_bit j (drop_bit 1 x)"
  proof (rule Suc.IH)
    have "(2 :: nat) ^ (15 + Suc j) = 2 * 2 ^ (15 + j)" "(2 :: nat) ^ (16 + Suc j) = 2 * 2 ^ (16 + j)"
      by (simp_all add: power_add)
    with Suc.prems have "2 * 2 ^ (15 + j) \<le> x" "x < 2 * 2 ^ (16 + j)" by linarith+
    then show "2 ^ (15 + j) \<le> drop_bit 1 x" "drop_bit 1 x < 2 ^ (16 + j)"
      by (auto simp: drop_bit_eq_div)
  qed
  ultimately show ?case by (subst pad_flags.simps) (simp add: drop_bit_drop_bit)
qed

text \<open>The byte stored for a group, full or padded.\<close>

lemma stored_flags_full:
  "length fs = 8 \<Longrightarrow> flag_state fs AND 0xFF = flag_byte fs"
  by (intro bit_eqI) (auto simp: bit_and_iff bit_0xFF bit_flag_state bit_flag_byte)

lemma stored_flags_padded:
  assumes "length fs < 8"
  shows "pad_flags (flag_state fs) AND 0xFF = flag_byte fs"
proof -
  have "pad_flags (flag_state fs) = drop_bit (8 - length fs) (flag_state fs)"
    using flag_state_ge [OF assms] flag_state_less [of fs] assms by (intro pad_flags_drop) auto
  then show ?thesis
    using assms
    by (intro bit_eqI)
      (auto simp: bit_and_iff bit_0xFF bit_drop_bit_eq bit_flag_state bit_flag_byte)
qed

subsection \<open>Decompressing the groups\<close>

lemma items_ok_append:
  "items_ok data p (xs @ ys) q \<longleftrightarrow> (\<exists>r. items_ok data p xs r \<and> items_ok data r ys q)"
  by (induction xs arbitrary: p) auto

lemma items_ok_le: "items_ok data p its q \<Longrightarrow> p \<le> q"
proof (induction its arbitrary: p)
  case (Cons it its)
  then have "p + item_len it \<le> q" by simp
  then show ?case by simp
qed simp

lemma items_ok_less: "items_ok data p its q \<Longrightarrow> its \<noteq> [] \<Longrightarrow> p < q"
  using items_ok_le by (cases its) (fastforce simp: item_ok_def)+

lemma group_flag_bits:
  assumes "length fs \<le> 8"
  shows "drop_bit j (flag_byte fs OR 0xFF00) AND 0x100 = 0 \<longleftrightarrow> 8 \<le> j"
    and "drop_bit j (flag_byte fs OR 0xFF00) AND 1 \<noteq> 0 \<longleftrightarrow> j < length fs \<and> fs ! j \<or> 8 \<le> j \<and> j < 16"
proof -
  let ?x = "drop_bit j (flag_byte fs OR 0xFF00)"
  have "?x AND 0x100 = 0 \<longleftrightarrow> \<not> bit ?x 8"
    by (rule and_0x100)
  also have "\<dots> \<longleftrightarrow> 8 \<le> j \<or> 16 \<le> j"
    using assms
    by (auto simp only: bit_drop_bit_eq bit_or_iff bit_0xFF00 bit_flag_byte o_apply)
  finally show "?x AND 0x100 = 0 \<longleftrightarrow> 8 \<le> j" by auto
  have "?x AND 1 \<noteq> 0 \<longleftrightarrow> bit ?x 0"
    by (simp add: and_one_eq mod2_eq_if bit_0)
  then show "?x AND 1 \<noteq> 0 \<longleftrightarrow> j < length fs \<and> fs ! j \<or> 8 \<le> j \<and> j < 16"
    by (simp only: bit_drop_bit_eq bit_or_iff bit_0xFF00 bit_flag_byte o_apply add_0_right)
qed

text \<open>Reading the items of a group from the \<open>j\<close>-th on.\<close>

lemma decompress_group_items:
  assumes "length fs \<le> 8"
  shows "items_ok data p its q \<Longrightarrow> p < length data \<Longrightarrow> drop j fs = map item_flag its
    \<Longrightarrow> j \<le> length fs \<Longrightarrow> q < length data \<longrightarrow> length fs = 8 \<Longrightarrow> q \<le> length data
    \<Longrightarrow> decompress_group (pre @ items_bytes its @ post) (length data)
          (drop_bit j (flag_byte fs OR 0xFF00)) (length pre) (take p data)
        = (if q < length data then Some (Inr (length pre + length (items_bytes its), take q data))
           else Some (Inl (length pre + length (items_bytes its), data)))"
proof (induction its arbitrary: p j pre)
  case Nil
  then have "j = length fs" "q = p" by simp_all
  moreover from this Nil have "drop_bit j (flag_byte fs OR 0xFF00) AND 0x100 = 0"
    by (simp only: group_flag_bits [OF assms])
  ultimately show ?case
    using Nil.prems by (subst decompress_group.simps) (simp del: drop_bit_or)
next
  case (Cons it its)
  let ?src = "pre @ items_bytes (it # its) @ post"
  have it: "item_ok data p it" and its: "items_ok data (p + item_len it) its q"
    using Cons.prems(1) by simp_all
  have j: "j < length fs" using Cons.prems(3) by (cases "j < length fs") auto
  have fs: "fs ! j \<longleftrightarrow> item_flag it" "drop (Suc j) fs = map item_flag its"
    using Cons.prems(3) j by (simp_all add: Cons_nth_drop_Suc [symmetric])
  have item: "decompress_item ?src (length data) (item_flag it) (length pre) (take p data)
      = Some (length pre + length (item_bytes it), take (p + item_len it) data)"
    using it unfolding item_ok_def by (simp add: append_assoc)
  have bits: "\<not> drop_bit j (flag_byte fs OR 0xFF00) AND 0x100 = 0"
    "(drop_bit j (flag_byte fs OR 0xFF00) AND 1 \<noteq> 0) = item_flag it"
    using j fs(1) assms by (auto simp only: group_flag_bits [OF assms])
  have le: "p + item_len it \<le> q" by (rule items_ok_le [OF its])
  have size: "length (take (p + item_len it) data) = p + item_len it"
    using it by (simp add: item_ok_def)
  have step: "decompress_group ?src (length data) (drop_bit j (flag_byte fs OR 0xFF00)) (length pre)
        (take p data)
      = (if length data \<le> p + item_len it
         then Some (Inl (length pre + length (item_bytes it), take (p + item_len it) data))
         else decompress_group ?src (length data) (drop_bit (Suc j) (flag_byte fs OR 0xFF00))
                (length pre + length (item_bytes it)) (take (p + item_len it) data))"
    by (subst decompress_group.simps)
      (simp only: bits item if_False option.case prod.case drop_bit_drop_bit size plus_1_eq_Suc)
  show ?case
  proof (cases "length data \<le> p + item_len it")
    case True
    with le Cons.prems(6) have "q = length data" "its = []"
      using items_ok_less [OF its] by (auto simp: item_ok_def)
    with True step show ?thesis by (auto simp: Cons.prems)
  next
    case False
    let ?pre = "pre @ item_bytes it"
    have "decompress_group (?pre @ items_bytes its @ post) (length data)
          (drop_bit (Suc j) (flag_byte fs OR 0xFF00)) (length ?pre) (take (p + item_len it) data)
        = (if q < length data then Some (Inr (length ?pre + length (items_bytes its), take q data))
           else Some (Inl (length ?pre + length (items_bytes its), data)))"
      using False j fs(2) Cons.prems(5,6) by (intro Cons.IH [OF its]) simp_all
    with step False show ?thesis by (simp add: add.assoc)
  qed
qed

subsection \<open>Decompressing the whole text\<close>

abbreviation groups_bytes :: "lz_item list list \<Rightarrow> nat list" where
  "groups_bytes gs \<equiv> concat (map group_bytes gs)"

text \<open>Every group but the last has eight items.\<close>

fun groups_shape :: "lz_item list list \<Rightarrow> bool" where
  "groups_shape [] \<longleftrightarrow> False"
| "groups_shape [g] \<longleftrightarrow> g \<noteq> [] \<and> length g \<le> 8"
| "groups_shape (g # h # gs) \<longleftrightarrow> length g = 8 \<and> groups_shape (h # gs)"

lemma groups_shape_snoc:
  "(\<forall>g \<in> set gs. length g = 8) \<Longrightarrow> g \<noteq> [] \<Longrightarrow> length g \<le> 8 \<Longrightarrow> groups_shape (gs @ [g])"
proof (induction gs)
  case (Cons a gs)
  then show ?case by (cases "gs @ [g]") auto
qed simp

lemma groups_shape_nonempty: "groups_shape gs \<Longrightarrow> concat gs \<noteq> []"
  by (induction gs rule: groups_shape.induct) auto

lemma decompress_loop_groups:
  "groups_shape gs \<Longrightarrow> items_ok data p (concat gs) (length data) \<Longrightarrow> p < length data
   \<Longrightarrow> length gs \<le> fuel
   \<Longrightarrow> decompress_loop fuel (pre @ groups_bytes gs) (length data) (length pre) (take p data)
       = Some (length pre + length (groups_bytes gs), data)"
proof (induction gs arbitrary: p pre fuel rule: groups_shape.induct)
  case (2 g)
  then obtain fuel' where fuel: "fuel = Suc fuel'" by (cases fuel) auto
  let ?fs = "map item_flag g"
  have "decompress_group ((pre @ [flag_byte ?fs]) @ items_bytes g @ []) (length data)
      (drop_bit 0 (flag_byte ?fs OR 0xFF00)) (length (pre @ [flag_byte ?fs])) (take p data)
    = (if length data < length data
       then Some (Inr (length (pre @ [flag_byte ?fs]) + length (items_bytes g), take (length data) data))
       else Some (Inl (length (pre @ [flag_byte ?fs]) + length (items_bytes g), data)))"
    using "2.prems" by (intro decompress_group_items) simp_all
  then show ?case
    by (simp add: fuel group_bytes_def read_byte_at)
next
  case (3 g h gs)
  then obtain fuel' where fuel: "fuel = Suc fuel'" by (cases fuel) auto
  let ?fs = "map item_flag g" and ?rest = "groups_bytes (h # gs)"
  obtain q where q: "items_ok data p g q" "items_ok data q (concat (h # gs)) (length data)"
    using "3.prems"(2) by (auto simp: items_ok_append)
  have shape: "length g = 8" "groups_shape (h # gs)" using "3.prems"(1) by simp_all
  have less: "q < length data"
    by (rule items_ok_less [OF q(2) groups_shape_nonempty [OF shape(2)]])
  let ?pre = "pre @ [flag_byte ?fs]"
  have "decompress_group (?pre @ items_bytes g @ ?rest) (length data)
      (drop_bit 0 (flag_byte ?fs OR 0xFF00)) (length ?pre) (take p data)
    = (if q < length data then Some (Inr (length ?pre + length (items_bytes g), take q data))
       else Some (Inl (length ?pre + length (items_bytes g), data)))"
    using shape(1) less "3.prems"(3) by (intro decompress_group_items [OF _ q(1)]) simp_all
  then have group: "decompress_group (pre @ group_bytes g @ ?rest) (length data)
      (flag_byte ?fs OR 0xFF00) (Suc (length pre)) (take p data)
    = Some (Inr (length (pre @ group_bytes g), take q data))"
    using less by (simp add: group_bytes_def del: concat.simps list.map)
  have "decompress_loop fuel' ((pre @ group_bytes g) @ ?rest) (length data)
      (length (pre @ group_bytes g)) (take q data)
    = Some (length (pre @ group_bytes g) + length ?rest, data)"
    using "3.prems"(4) fuel by (intro "3.IH" [OF shape(2) q(2) less]) simp
  moreover have "read_byte (pre @ group_bytes g @ ?rest) (length pre)
      = Some (flag_byte ?fs, Suc (length pre))"
    by (simp add: group_bytes_def read_byte_at)
  ultimately show ?case
    using group by (simp add: fuel add.assoc)
qed simp

subsection \<open>What the compressor has written\<close>

definition lz_inv :: "nat list \<Rightarrow> lz_item list list \<Rightarrow> lz_item list \<Rightarrow> lz_state \<Rightarrow> bool" where
  "lz_inv data gs ps s \<longleftrightarrow>
     (\<forall>g \<in> set gs. length g = 8) \<and> length ps < 8
     \<and> items_ok data 0 (concat gs @ ps) (lz_pos s)
     \<and> lz_output s = groups_bytes gs @ [0] @ items_bytes ps
     \<and> lz_flags_pos s = length (groups_bytes gs)
     \<and> lz_flags s = flag_state (map item_flag ps)
     \<and> table_ok data (lz_table s)"

lemma lz_inv_init: "lz_inv data [] [] lz_init"
  by (simp add: lz_inv_def lz_init_def flag_state_Nil table_ok_def)

lemma lz_put_inv:
  assumes inv: "lz_inv data gs ps s" and it: "item_ok data (lz_pos s) it"
    and table: "table_ok data t"
  shows "\<exists>gs' ps'. lz_inv data gs' ps' (lz_put it (s\<lparr>lz_table := t\<rparr>))"
proof -
  obtain flag bytes len where e: "it = (flag, bytes, len)" by (cases it)
  let ?fs = "map item_flag ps"
  have ps: "length ?fs < 8" and items: "items_ok data 0 (concat gs @ ps) (lz_pos s)"
    using inv by (simp_all add: lz_inv_def)
  have flag: "flag = of_bool (item_flag it)" using it by (auto simp: item_ok_def e)
  have flags: "push_bit 7 flag OR drop_bit 1 (lz_flags s) = flag_state (map item_flag ps @ [item_flag it])"
    using flag_state_snoc [OF ps, of "item_flag it"] inv flag by (simp add: lz_inv_def)
  have items': "items_ok data 0 (concat gs @ ps @ [it]) (lz_pos s + len)"
    using items it by (auto simp: items_ok_append e)
  show ?thesis
  proof (cases "length (ps @ [it]) = 8")
    case True
    have full: "flag_state (map item_flag ps @ [item_flag it]) < 0x10000"
      using True by (subst flag_state_full) simp_all
    have stored: "flag_state (map item_flag ps @ [item_flag it]) AND 0xFF = flag_byte (map item_flag ps @ [item_flag it])"
      using True by (intro stored_flags_full) simp
    have "lz_inv data (gs @ [ps @ [it]]) [] (lz_put it (s\<lparr>lz_table := t\<rparr>))"
      using inv items' True table flags full stored
      by (simp add: lz_put_def e lz_inv_def Let_def group_bytes_def flag_state_Nil list_update_append)
    then show ?thesis by blast
  next
    case False
    with ps have "length (ps @ [it]) < 8" by simp
    moreover from this have "\<not> flag_state (map item_flag ps @ [item_flag it]) < 0x10000"
      by (subst flag_state_full) simp_all
    ultimately have "lz_inv data gs (ps @ [it]) (lz_put it (s\<lparr>lz_table := t\<rparr>))"
      using inv items' table flags by (simp add: lz_put_def e lz_inv_def Let_def)
    then show ?thesis by blast
  qed
qed

lemma lz_step_inv:
  assumes "lz_inv data gs ps s" and "lz_pos s < length data"
  shows "\<exists>gs' ps'. lz_inv data gs' ps' (lz_step data s)"
proof -
  obtain off len where m: "find_longest_match data (lz_table s) (lz_pos s) = (off, len)"
    by (metis surj_pair)
  have table: "table_ok data (lz_table s)" using assms(1) by (simp add: lz_inv_def)
  have "match_ok data (lz_pos s) (off, len)"
    using find_longest_match_ok [OF table, of "lz_pos s"] m by simp
  from encode_step_ok [OF assms(2) this] show ?thesis
    using lz_put_inv [OF assms(1) _ table_ok_append [OF table]] by (simp add: lz_step_def m)
qed

lemma lz_loop_inv:
  "lz_inv data gs ps s \<Longrightarrow>
     \<exists>gs' ps'. lz_inv data gs' ps' (lz_loop data s) \<and> length data \<le> lz_pos (lz_loop data s)"
proof (induction data s arbitrary: gs ps rule: lz_loop.induct)
  case (1 data s)
  show ?case
  proof (cases "lz_pos s < length data")
    case True
    with lz_step_inv [OF "1.prems" True] "1.IH" [OF True] show ?thesis
      by (subst (1 2) lz_loop.simps) auto
  next
    case False
    with "1.prems" show ?thesis by (subst (1 2) lz_loop.simps) auto
  qed
qed

lemma items_ok_bound: "items_ok data p its q \<Longrightarrow> p \<le> length data \<Longrightarrow> q \<le> length data"
  by (induction its arbitrary: p) (auto simp: item_ok_def)

lemma lz_finish_groups:
  assumes inv: "lz_inv data gs ps s" and "length data \<le> lz_pos s" and "data \<noteq> []"
  shows "\<exists>all. groups_shape all \<and> items_ok data 0 (concat all) (length data)
           \<and> lz_finish s = groups_bytes all"
proof -
  have items: "items_ok data 0 (concat gs @ ps) (length data)"
    using inv assms(2) items_ok_bound [of data 0 "concat gs @ ps" "lz_pos s"]
    by (simp add: lz_inv_def)
  show ?thesis
  proof (cases "ps = []")
    case True
    then obtain gs' g where gs: "gs = gs' @ [g]"
      using items assms(3) by (cases gs rule: rev_cases) auto
    have "groups_shape gs"
      unfolding gs using inv gs by (intro groups_shape_snoc) (auto simp: lz_inv_def)
    moreover have "lz_finish s = groups_bytes gs"
      using inv True by (simp add: lz_finish_def lz_inv_def)
    ultimately show ?thesis using items True by auto
  next
    case False
    have "groups_shape (gs @ [ps])"
      using inv False by (intro groups_shape_snoc) (auto simp: lz_inv_def)
    moreover have "items_bytes ps \<noteq> []"
      using items False by (cases ps) (auto simp: items_ok_append item_ok_def)
    moreover from this have "lz_finish s = groups_bytes (gs @ [ps])"
      using inv stored_flags_padded [of "map item_flag ps"]
      by (auto simp: lz_finish_def lz_inv_def group_bytes_def list_update_append)
    ultimately show ?thesis using items by (intro exI [of _ "gs @ [ps]"]) simp
  qed
qed

lemma group_bytes_length: "length gs \<le> length (groups_bytes gs)"
  by (induction gs) (simp_all add: group_bytes_def)

lemma lzss_compress_groups:
  assumes "data \<noteq> []"
  obtains gs where "groups_shape gs" "items_ok data 0 (concat gs) (length data)"
    "lzss_compress data = groups_bytes gs"
proof -
  obtain gs ps where "lz_inv data gs ps (lz_loop data lz_init)"
    and "length data \<le> lz_pos (lz_loop data lz_init)"
    using lz_loop_inv [OF lz_inv_init] by blast
  with that lz_finish_groups assms show thesis by (metis lzss_compress_def)
qed

text \<open>C12. For every non-empty string, the decompressor, given the exact compressed and
  uncompressed sizes, returns the string \<open>lzss_compress\<close> was given: it never reads past the
  compressed bytes, never writes past the result, never refers back before its start, and has
  read every compressed byte when the result is full.\<close>

theorem lzss_roundtrip:
  assumes "data \<noteq> []"
  shows "DecompressString_LZSS (lzss_compress data) (length (lzss_compress data)) (length data)
         = Some data"
proof -
  obtain all where all: "groups_shape all" "items_ok data 0 (concat all) (length data)"
    and bytes: "lzss_compress data = groups_bytes all"
    using assms by (rule lzss_compress_groups)
  have "decompress_loop (length (groups_bytes all) + 1) ([] @ groups_bytes all) (length data)
      (length ([] :: nat list)) (take 0 data)
    = Some (length ([] :: nat list) + length (groups_bytes all), data)"
    using assms group_bytes_length [of all] by (intro decompress_loop_groups all) simp_all
  then show ?thesis
    by (simp add: bytes DecompressString_LZSS_def lzss_decompress_def)
qed

lemma lzss_roundtrip_witness:
  "DecompressString_LZSS (lzss_compress [97, 98, 99, 97, 98, 99])
     (length (lzss_compress [97, 98, 99, 97, 98, 99])) 6 = Some [97, 98, 99, 97, 98, 99]"
  using lzss_roundtrip [of "[97, 98, 99, 97, 98, 99]"] by (simp add: numeral_eq_Suc)

subsection \<open>The output is bytes, and is never much longer than the input\<close>

lemma flag_byte_less: "length fs \<le> 8 \<Longrightarrow> flag_byte fs < 0x100"
  by (rule byte_bits) (simp add: bit_flag_byte)

lemma items_bytes_ok:
  "items_ok data p its q \<Longrightarrow> p + length (items_bytes its) \<le> q
     \<and> (list_all (\<lambda>b. b < 0x100) data \<longrightarrow> list_all (\<lambda>b. b < 0x100) (items_bytes its))"
proof (induction its arbitrary: p)
  case (Cons it its)
  then show ?case by (fastforce simp: item_ok_def)
qed simp

lemma items_ok_length: "items_ok data p its q \<Longrightarrow> p + length its \<le> q"
proof (induction its arbitrary: p)
  case (Cons it its)
  then show ?case by (fastforce simp: item_ok_def)
qed simp

lemma groups_shape_bytes:
  "groups_shape gs \<Longrightarrow> list_all (\<lambda>b. b < 0x100) (items_bytes (concat gs))
     \<Longrightarrow> list_all (\<lambda>b. b < 0x100) (groups_bytes gs)"
  by (induction gs rule: groups_shape.induct) (simp_all add: group_bytes_def flag_byte_less)

lemma groups_shape_count: "groups_shape gs \<Longrightarrow> 8 * length gs \<le> length (concat gs) + 7"
  by (induction gs rule: groups_shape.induct) (auto simp: Suc_le_eq)

lemma groups_bytes_length: "length (groups_bytes gs) = length gs + length (items_bytes (concat gs))"
  by (induction gs) (simp_all add: group_bytes_def)

text \<open>C13. The compressor only appends values that fit a byte, so no \<open>bytearray\<close>
  operation can raise, and the output is at most one flags byte per eight input bytes longer than
  the input.\<close>

theorem lzss_compress_bytes:
  assumes "list_all (\<lambda>b. b < 0x100) data"
  shows "list_all (\<lambda>b. b < 0x100) (lzss_compress data)
         \<and> 8 * length (lzss_compress data) \<le> 9 * length data + 7"
proof (cases "data = []")
  case True
  then show ?thesis by (simp add: lzss_compress_def)
next
  case False
  then obtain gs where gs: "groups_shape gs" "items_ok data 0 (concat gs) (length data)"
    "lzss_compress data = groups_bytes gs"
    by (rule lzss_compress_groups)
  have "list_all (\<lambda>b. b < 0x100) (items_bytes (concat gs))"
    "length (items_bytes (concat gs)) \<le> length data"
    using items_bytes_ok [OF gs(2)] assms by simp_all
  moreover have "length (concat gs) \<le> length data"
    using items_ok_length [OF gs(2)] by simp
  ultimately show ?thesis
    using groups_shape_bytes [OF gs(1)] groups_shape_count [OF gs(1)]
    unfolding gs(3) groups_bytes_length by simp
qed

lemma lzss_compress_bytes_witness:
  "list_all (\<lambda>b. b < 0x100) (lzss_compress [0, 0xFF])
   \<and> 8 * length (lzss_compress [0, 0xFF]) \<le> 25"
  using lzss_compress_bytes [of "[0, 0xFF]"] by simp

text \<open>Of two earlier occurrences of the same length the search keeps the one at the larger
  distance, here 8 rather than 4, since the later candidate must be strictly longer.\<close>

lemma tie_keeps_farther_offset:
  "find_longest_match [97, 98, 99, 1, 97, 98, 99, 2, 97, 98, 99] [([97, 98, 99], [0, 4])] 8 = (8, 3)"
  by (simp add: find_longest_match_def slice_def Let_def WINDOW_SIZE_def extend_match.simps)

end
