(* ===== verification/RuntimeTypes.thy ===== *)
theory RuntimeTypes
  imports Prelude
begin

text \<open>
  The data of \<open>Cython/Compiler/RuntimeAPI.py\<close>: its enumerations, the frozen contracts, the
  errors its methods raise and the base class every backend extends. Strings are the C texts the
  methods return. Arguments of a wrong Python type, for which the methods raise \<open>TypeError\<close>, are
  excluded by the types of the model. An error keeps the format of the \<open>raise\<close> and the values
  formatted into it; a \<open>RuntimeCapabilityError\<close> keeps its four attributes and the position.
\<close>

subsection \<open>String formatting\<close>

text \<open>\<open>format % args\<close> for the \<open>%s\<close> conversion.\<close>

fun fmt :: "string \<Rightarrow> string list \<Rightarrow> string" where
  "fmt [] args = []"
| "fmt (c # cs) [] = c # fmt cs []"
| "fmt (c # cs) (a # args) =
     (if c = CHR ''%'' \<and> take 1 cs = ''s'' then a @ fmt (drop 1 cs) args
      else c # fmt cs (a # args))"

text \<open>\<open>sep.join(items)\<close>.\<close>

fun py_join :: "string \<Rightarrow> string list \<Rightarrow> string" where
  "py_join sep [] = []"
| "py_join sep [x] = x"
| "py_join sep (x # y # xs) = x @ sep @ py_join sep (y # xs)"

subsection \<open>Enumerations\<close>

datatype RuntimeOperationGroup =
  GRP_OBJECTS | GRP_CALLS | GRP_CONTAINERS | GRP_CONVERSIONS | GRP_EXCEPTIONS | GRP_GLOBALS
  | GRP_MODULES | GRP_TYPES

fun operation_group_value :: "RuntimeOperationGroup \<Rightarrow> string" where
  "operation_group_value GRP_OBJECTS = ''objects''"
| "operation_group_value GRP_CALLS = ''calls''"
| "operation_group_value GRP_CONTAINERS = ''containers''"
| "operation_group_value GRP_CONVERSIONS = ''conversions''"
| "operation_group_value GRP_EXCEPTIONS = ''exceptions''"
| "operation_group_value GRP_GLOBALS = ''globals''"
| "operation_group_value GRP_MODULES = ''modules''"
| "operation_group_value GRP_TYPES = ''types''"

datatype RuntimeCallKeywordLayout = KWL_NONE | KWL_KEYWORD_NAMES | KWL_KEYWORD_DICT

fun keyword_layout_value :: "RuntimeCallKeywordLayout \<Rightarrow> string" where
  "keyword_layout_value KWL_NONE = ''none''"
| "keyword_layout_value KWL_KEYWORD_NAMES = ''keyword-names''"
| "keyword_layout_value KWL_KEYWORD_DICT = ''keyword-dict''"

datatype RuntimeSequenceKind = SEQ_LIST | SEQ_TUPLE

fun sequence_kind_value :: "RuntimeSequenceKind \<Rightarrow> string" where
  "sequence_kind_value SEQ_LIST = ''list''"
| "sequence_kind_value SEQ_TUPLE = ''tuple''"

datatype RuntimeConversionDirection = CONV_TO_PYTHON | CONV_FROM_PYTHON

fun conversion_direction_value :: "RuntimeConversionDirection \<Rightarrow> string" where
  "conversion_direction_value CONV_TO_PYTHON = ''to-python''"
| "conversion_direction_value CONV_FROM_PYTHON = ''from-python''"

datatype RuntimeConversionKind =
  CK_BOOLEAN | CK_SIGNED_INTEGER | CK_UNSIGNED_INTEGER | CK_FLOAT | CK_COMPLEX |
  CK_UNICODE_CODEPOINT | CK_C_STRING | CK_CUSTOM

fun conversion_kind_value :: "RuntimeConversionKind \<Rightarrow> string" where
  "conversion_kind_value CK_BOOLEAN = ''boolean''"
| "conversion_kind_value CK_SIGNED_INTEGER = ''signed-integer''"
| "conversion_kind_value CK_UNSIGNED_INTEGER = ''unsigned-integer''"
| "conversion_kind_value CK_FLOAT = ''float''"
| "conversion_kind_value CK_COMPLEX = ''complex''"
| "conversion_kind_value CK_UNICODE_CODEPOINT = ''unicode-codepoint''"
| "conversion_kind_value CK_C_STRING = ''c-string''"
| "conversion_kind_value CK_CUSTOM = ''custom''"

datatype RuntimeNameLookupKind = LOOKUP_MODULE_GLOBAL | LOOKUP_BUILTIN | LOOKUP_CLASS_NAMESPACE

fun name_lookup_value :: "RuntimeNameLookupKind \<Rightarrow> string" where
  "name_lookup_value LOOKUP_MODULE_GLOBAL = ''module-global''"
| "name_lookup_value LOOKUP_BUILTIN = ''builtin''"
| "name_lookup_value LOOKUP_CLASS_NAMESPACE = ''class-namespace''"

datatype RuntimeGlobalStorageKind = GS_CPYTHON_OBJECT | GS_REGISTERED_HPY_GLOBAL

fun global_storage_value :: "RuntimeGlobalStorageKind \<Rightarrow> string" where
  "global_storage_value GS_CPYTHON_OBJECT = ''cpython-object''"
| "global_storage_value GS_REGISTERED_HPY_GLOBAL = ''registered-hpy-global''"

datatype RuntimeModuleInitializationKind = MI_CPYTHON_CONFIGURABLE | MI_HPY_MULTIPHASE

fun module_init_value :: "RuntimeModuleInitializationKind \<Rightarrow> string" where
  "module_init_value MI_CPYTHON_CONFIGURABLE = ''cpython-configurable''"
| "module_init_value MI_HPY_MULTIPHASE = ''hpy-multiphase''"

datatype RuntimeMethodSignature =
  SIG_NOARGS | SIG_ONEARG | SIG_POSITIONAL_VARARGS | SIG_VARARGS_KEYWORDS |
  SIG_FASTCALL_KEYWORDS

fun method_signature_value :: "RuntimeMethodSignature \<Rightarrow> string" where
  "method_signature_value SIG_NOARGS = ''noargs''"
| "method_signature_value SIG_ONEARG = ''onearg''"
| "method_signature_value SIG_POSITIONAL_VARARGS = ''positional-varargs''"
| "method_signature_value SIG_VARARGS_KEYWORDS = ''varargs-keywords''"
| "method_signature_value SIG_FASTCALL_KEYWORDS = ''fastcall-keywords''"

datatype RuntimeTypeSpecificationKind = TS_CPYTHON_SLOT_SPEC | TS_HPY_PURE_SPEC

fun type_spec_value :: "RuntimeTypeSpecificationKind \<Rightarrow> string" where
  "type_spec_value TS_CPYTHON_SLOT_SPEC = ''cpython-slot-spec''"
| "type_spec_value TS_HPY_PURE_SPEC = ''hpy-pure-spec''"

datatype RuntimeContextKind = CTXK_NONE | CTXK_CALL_SCOPED_HPY

fun context_kind_value :: "RuntimeContextKind \<Rightarrow> string" where
  "context_kind_value CTXK_NONE = ''none''"
| "context_kind_value CTXK_CALL_SCOPED_HPY = ''call-scoped-hpy''"

datatype RuntimeContextConstant =
  CC_NONE | CC_NOT_IMPLEMENTED | CC_TRUE | CC_FALSE | CC_ELLIPSIS | CC_TYPE_ERROR |
  CC_BASE_EXCEPTION | CC_TYPE_TYPE | CC_UNICODE_TYPE | CC_SLICE_TYPE | CC_LONG_TYPE |
  CC_COMPLEX_TYPE | CC_LIST_TYPE | CC_TUPLE_TYPE

fun context_constant_value :: "RuntimeContextConstant \<Rightarrow> string" where
  "context_constant_value CC_NONE = ''none''"
| "context_constant_value CC_NOT_IMPLEMENTED = ''not-implemented''"
| "context_constant_value CC_TRUE = ''true''"
| "context_constant_value CC_FALSE = ''false''"
| "context_constant_value CC_ELLIPSIS = ''ellipsis''"
| "context_constant_value CC_TYPE_ERROR = ''type-error''"
| "context_constant_value CC_BASE_EXCEPTION = ''base-exception''"
| "context_constant_value CC_TYPE_TYPE = ''type-type''"
| "context_constant_value CC_UNICODE_TYPE = ''unicode-type''"
| "context_constant_value CC_SLICE_TYPE = ''slice-type''"
| "context_constant_value CC_LONG_TYPE = ''long-type''"
| "context_constant_value CC_COMPLEX_TYPE = ''complex-type''"
| "context_constant_value CC_LIST_TYPE = ''list-type''"
| "context_constant_value CC_TUPLE_TYPE = ''tuple-type''"

datatype RuntimeBinaryOperation =
  BOP_ADD | BOP_SUBTRACT | BOP_MULTIPLY | BOP_MATRIX_MULTIPLY | BOP_TRUE_DIVIDE |
  BOP_FLOOR_DIVIDE | BOP_REMAINDER | BOP_LEFT_SHIFT | BOP_RIGHT_SHIFT | BOP_BITWISE_AND |
  BOP_BITWISE_XOR | BOP_BITWISE_OR | BOP_POWER

fun binary_operation_value :: "RuntimeBinaryOperation \<Rightarrow> string" where
  "binary_operation_value BOP_ADD = ''add''"
| "binary_operation_value BOP_SUBTRACT = ''subtract''"
| "binary_operation_value BOP_MULTIPLY = ''multiply''"
| "binary_operation_value BOP_MATRIX_MULTIPLY = ''matrix-multiply''"
| "binary_operation_value BOP_TRUE_DIVIDE = ''true-divide''"
| "binary_operation_value BOP_FLOOR_DIVIDE = ''floor-divide''"
| "binary_operation_value BOP_REMAINDER = ''remainder''"
| "binary_operation_value BOP_LEFT_SHIFT = ''left-shift''"
| "binary_operation_value BOP_RIGHT_SHIFT = ''right-shift''"
| "binary_operation_value BOP_BITWISE_AND = ''bitwise-and''"
| "binary_operation_value BOP_BITWISE_XOR = ''bitwise-xor''"
| "binary_operation_value BOP_BITWISE_OR = ''bitwise-or''"
| "binary_operation_value BOP_POWER = ''power''"

datatype RuntimeUnaryOperation = UOP_POSITIVE | UOP_NEGATIVE | UOP_INVERT

fun unary_operation_value :: "RuntimeUnaryOperation \<Rightarrow> string" where
  "unary_operation_value UOP_POSITIVE = ''positive''"
| "unary_operation_value UOP_NEGATIVE = ''negative''"
| "unary_operation_value UOP_INVERT = ''invert''"

datatype RuntimeInPlaceOperation =
  IOP_ADD | IOP_SUBTRACT | IOP_MULTIPLY | IOP_MATRIX_MULTIPLY | IOP_TRUE_DIVIDE |
  IOP_FLOOR_DIVIDE | IOP_REMAINDER | IOP_POWER | IOP_LEFT_SHIFT | IOP_RIGHT_SHIFT |
  IOP_BITWISE_AND | IOP_BITWISE_XOR | IOP_BITWISE_OR

fun inplace_operation_value :: "RuntimeInPlaceOperation \<Rightarrow> string" where
  "inplace_operation_value IOP_ADD = ''add''"
| "inplace_operation_value IOP_SUBTRACT = ''subtract''"
| "inplace_operation_value IOP_MULTIPLY = ''multiply''"
| "inplace_operation_value IOP_MATRIX_MULTIPLY = ''matrix-multiply''"
| "inplace_operation_value IOP_TRUE_DIVIDE = ''true-divide''"
| "inplace_operation_value IOP_FLOOR_DIVIDE = ''floor-divide''"
| "inplace_operation_value IOP_REMAINDER = ''remainder''"
| "inplace_operation_value IOP_POWER = ''power''"
| "inplace_operation_value IOP_LEFT_SHIFT = ''left-shift''"
| "inplace_operation_value IOP_RIGHT_SHIFT = ''right-shift''"
| "inplace_operation_value IOP_BITWISE_AND = ''bitwise-and''"
| "inplace_operation_value IOP_BITWISE_XOR = ''bitwise-xor''"
| "inplace_operation_value IOP_BITWISE_OR = ''bitwise-or''"

datatype RuntimeComparisonOperation =
  CMP_LESS_THAN | CMP_LESS_EQUAL | CMP_EQUAL | CMP_NOT_EQUAL | CMP_GREATER_THAN |
  CMP_GREATER_EQUAL

fun comparison_operation_value :: "RuntimeComparisonOperation \<Rightarrow> string" where
  "comparison_operation_value CMP_LESS_THAN = ''less-than''"
| "comparison_operation_value CMP_LESS_EQUAL = ''less-equal''"
| "comparison_operation_value CMP_EQUAL = ''equal''"
| "comparison_operation_value CMP_NOT_EQUAL = ''not-equal''"
| "comparison_operation_value CMP_GREATER_THAN = ''greater-than''"
| "comparison_operation_value CMP_GREATER_EQUAL = ''greater-equal''"

datatype RuntimeCodeGenerationKind = CGK_CPYTHON | CGK_HPY_UNIVERSAL_BOOTSTRAP

fun code_generation_value :: "RuntimeCodeGenerationKind \<Rightarrow> string" where
  "code_generation_value CGK_CPYTHON = ''cpython''"
| "code_generation_value CGK_HPY_UNIVERSAL_BOOTSTRAP = ''hpy-universal-bootstrap''"

datatype RuntimeCapability =
  OBJECT_LIFETIME | PYTHON_CALLS | CONTAINER_BUILDERS | VALUE_CONVERSIONS | EXCEPTION_STATE
  | MODULE_GLOBALS | MODULE_DEFINITIONS | TYPE_DEFINITIONS

fun capability_name :: "RuntimeCapability \<Rightarrow> string" where
  "capability_name OBJECT_LIFETIME = ''object-lifetime''"
| "capability_name PYTHON_CALLS = ''python-calls''"
| "capability_name CONTAINER_BUILDERS = ''container-builders''"
| "capability_name VALUE_CONVERSIONS = ''value-conversions''"
| "capability_name EXCEPTION_STATE = ''exception-state''"
| "capability_name MODULE_GLOBALS = ''module-globals''"
| "capability_name MODULE_DEFINITIONS = ''module-definitions''"
| "capability_name TYPE_DEFINITIONS = ''type-definitions''"

fun capability_group :: "RuntimeCapability \<Rightarrow> RuntimeOperationGroup" where
  "capability_group OBJECT_LIFETIME = GRP_OBJECTS"
| "capability_group PYTHON_CALLS = GRP_CALLS"
| "capability_group CONTAINER_BUILDERS = GRP_CONTAINERS"
| "capability_group VALUE_CONVERSIONS = GRP_CONVERSIONS"
| "capability_group EXCEPTION_STATE = GRP_EXCEPTIONS"
| "capability_group MODULE_GLOBALS = GRP_GLOBALS"
| "capability_group MODULE_DEFINITIONS = GRP_MODULES"
| "capability_group TYPE_DEFINITIONS = GRP_TYPES"

definition all_capabilities :: "RuntimeCapability list" where
  "all_capabilities =
     [OBJECT_LIFETIME, PYTHON_CALLS, CONTAINER_BUILDERS, VALUE_CONVERSIONS, EXCEPTION_STATE,
      MODULE_GLOBALS, MODULE_DEFINITIONS, TYPE_DEFINITIONS]"

subsection \<open>Errors\<close>

text \<open>The \<open>capability\<close> of a \<open>RuntimeCapabilityError\<close> is a member of the enumeration or a
  plain string; the message shows its name.\<close>

datatype CapabilityRef = CapabilityEnum RuntimeCapability | CapabilityText string

fun capability_label :: "CapabilityRef \<Rightarrow> string" where
  "capability_label (CapabilityEnum c) = capability_name c"
| "capability_label (CapabilityText s) = s"

text \<open>A source position: descriptor, line and column.\<close>

type_synonym code_position = "string \<times> nat \<times> nat"

datatype runtime_error =
  RT_ValueError string "string list"
| RT_TypeError string "string list"
| RT_RuntimeError string "string list"
| RT_BackendOptionError string "string list"
| RuntimeBackendUnavailableError string string string "code_position option"
| RuntimeCapabilityError string CapabilityRef string string "code_position option"

subsection \<open>Contracts\<close>

record RuntimeContextContract =
  ctx_kind :: RuntimeContextKind
  parameter_type_cname :: string
  default_parameter_cname :: string
  required_for_python_operations :: bool
  may_be_persisted :: bool

definition require_cname :: "RuntimeContextContract \<Rightarrow> string \<Rightarrow> runtime_error + string" where
  "require_cname self context_cname =
     (if required_for_python_operations self \<and> context_cname = []
      then Inl (RT_ValueError ''%s runtime operation requires a context cname''
                  [context_kind_value (ctx_kind self)])
      else Inr context_cname)"

record RuntimeNameLookup =
  lookup_kind :: RuntimeNameLookupKind
  namespace_is_type :: bool

record RuntimeGlobalStorage =
  storage_kind :: RuntimeGlobalStorageKind
  storage_type_cname :: string
  requires_module_registration :: bool
  load_returns_owned_reference :: bool
  store_consumes_reference :: bool
  runtime_manages_stored_lifetime :: bool

record RuntimeModuleDefinition =
  module_kind :: RuntimeModuleInitializationKind
  definition_type_cname :: string
  requires_multiphase_init :: bool
  init_returns_definition :: bool
  init_has_context :: bool
  execution_uses_slot :: bool
  execution_receives_context :: bool
  supports_manual_creation :: bool
  supports_legacy_methods :: bool
  supports_registered_globals :: bool

record RuntimeMethodDefinition =
  signature :: RuntimeMethodSignature
  definition_cname :: string
  python_name_cname :: string
  implementation_cname :: string
  doc_cname :: string
  coexists_with_slot :: bool

record RuntimeTypeDefinition =
  type_kind :: RuntimeTypeSpecificationKind
  specification_type_cname :: string
  uses_slot_array :: bool
  uses_definition_array :: bool
  requires_builtin_shape :: bool
  supports_legacy_slots :: bool
  pure_layout_omits_object_header :: bool

record RuntimeArrayCall =
  call_utility_code_name :: string
  call_function_cname :: string
  call_keyword_layout :: RuntimeCallKeywordLayout
  call_includes_receiver :: bool

record RuntimeSequenceBuilder =
  builder_kind :: RuntimeSequenceKind
  builder_type_cname :: string
  result_type_cname :: string
  uses_separate_builder :: bool
  set_item_steals_reference :: bool
  creation_reports_error :: bool
  supports_from_array :: bool

record RuntimeSequenceFromArray =
  array_kind :: RuntimeSequenceKind
  array_function_cname :: string
  array_utility_code_name :: string
  array_utility_code_file :: string

text \<open>Of \<open>RuntimePrimitiveConversion\<close> the direction is what the methods look at.\<close>

subsection \<open>The base class\<close>

record RuntimeAPIBase =
  rt_name :: string
  rt_capabilities :: "RuntimeCapability list"
  unavailable_reason :: string
  unavailable_guidance :: string

definition rt_supports :: "RuntimeAPIBase \<Rightarrow> RuntimeCapability \<Rightarrow> bool" where
  "rt_supports self capability = (capability \<in> set (rt_capabilities self))"

text \<open>\<open>reason or default\<close>: \<open>None\<close> and the empty string select the default.\<close>

definition rt_require_capability ::
  "RuntimeAPIBase \<Rightarrow> RuntimeCapability \<Rightarrow> code_position option \<Rightarrow> string option \<Rightarrow> string option
   \<Rightarrow> runtime_error + unit" where
  "rt_require_capability self capability position reason guidance =
     (if rt_supports self capability then Inr ()
      else Inl (RuntimeCapabilityError (rt_name self) (CapabilityEnum capability)
        (or_default reason ''the selected backend has no implementation for this operation'')
        (or_default guidance
          ''select a backend that supports the operation or rewrite the source'')
        position))"

definition rt_ensure_compilation_ready ::
  "RuntimeAPIBase \<Rightarrow> code_position option \<Rightarrow> runtime_error + unit" where
  "rt_ensure_compilation_ready self position =
     (if unavailable_reason self = [] then Inr ()
      else Inl (RuntimeBackendUnavailableError (rt_name self) (unavailable_reason self)
        (unavailable_guidance self) position))"

definition method_layouts :: "(string list, RuntimeMethodSignature) pydict" where
  "method_layouts =
     [([''METH_NOARGS''], SIG_NOARGS),
      ([''METH_O''], SIG_ONEARG),
      ([''METH_VARARGS''], SIG_POSITIONAL_VARARGS),
      ([''METH_VARARGS'', ''METH_KEYWORDS''], SIG_VARARGS_KEYWORDS),
      ([''__Pyx_METH_FASTCALL'', ''METH_KEYWORDS''], SIG_FASTCALL_KEYWORDS)]"

definition select_method_signature ::
  "string list \<Rightarrow> runtime_error + RuntimeMethodSignature" where
  "select_method_signature method_flags =
     (case dict_get method_layouts method_flags of
        Some s \<Rightarrow> Inr s
      | None \<Rightarrow> Inl (RT_ValueError ''unsupported runtime method flag layout: %r'' method_flags))"

end
