(* ===== verification/RuntimeHPy.thy ===== *)
theory RuntimeHPy
  imports RuntimeTypes
begin

text \<open>
  \<open>_HPyRuntimeAPIBase\<close> of \<open>Cython/Compiler/RuntimeAPI.py\<close>: the texts the HPy backends
  emit for each runtime operation, one definition per method, under the method's name with the
  prefix \<open>hpy_\<close>. A method that needs the HPy context validates it first, through
  \<open>_require_context\<close>. \<open>self\<close> is an argument where the method reads the backend's name.
\<close>

subsection \<open>Class data\<close>

definition hpy_context_contract :: RuntimeContextContract where
  "hpy_context_contract =
     \<lparr>ctx_kind = CTXK_CALL_SCOPED_HPY, parameter_type_cname = ''HPyContext *'',
      default_parameter_cname = ''ctx'', required_for_python_operations = True,
      may_be_persisted = False\<rparr>"

definition hpy_global_storage :: RuntimeGlobalStorage where
  "hpy_global_storage =
     \<lparr>storage_kind = GS_REGISTERED_HPY_GLOBAL, storage_type_cname = ''HPyGlobal'',
      requires_module_registration = True, load_returns_owned_reference = True,
      store_consumes_reference = False, runtime_manages_stored_lifetime = True\<rparr>"

definition hpy_module_definition :: RuntimeModuleDefinition where
  "hpy_module_definition =
     \<lparr>module_kind = MI_HPY_MULTIPHASE, definition_type_cname = ''HPyModuleDef'',
      requires_multiphase_init = True, init_returns_definition = True, init_has_context = False,
      execution_uses_slot = True, execution_receives_context = True,
      supports_manual_creation = False, supports_legacy_methods = False,
      supports_registered_globals = True\<rparr>"

definition hpy_type_definition :: RuntimeTypeDefinition where
  "hpy_type_definition =
     \<lparr>type_kind = TS_HPY_PURE_SPEC, specification_type_cname = ''HPyType_Spec'',
      uses_slot_array = False, uses_definition_array = True, requires_builtin_shape = True,
      supports_legacy_slots = False, pure_layout_omits_object_header = True\<rparr>"

definition hpy_supported_type_slots :: "string list" where
  "hpy_supported_type_slots =
     [''bf_getbuffer'', ''bf_releasebuffer'', ''mp_ass_subscript'', ''mp_length'',
      ''mp_subscript'', ''nb_absolute'', ''nb_add'', ''nb_and'', ''nb_bool'',
      ''nb_divmod'', ''nb_float'', ''nb_floor_divide'', ''nb_index'', ''nb_inplace_add'',
      ''nb_inplace_and'', ''nb_inplace_floor_divide'', ''nb_inplace_lshift'',
      ''nb_inplace_matrix_multiply'', ''nb_inplace_multiply'', ''nb_inplace_or'',
      ''nb_inplace_power'', ''nb_inplace_remainder'', ''nb_inplace_rshift'',
      ''nb_inplace_subtract'', ''nb_inplace_true_divide'', ''nb_inplace_xor'', ''nb_int'',
      ''nb_invert'', ''nb_lshift'', ''nb_matrix_multiply'', ''nb_multiply'',
      ''nb_negative'', ''nb_or'', ''nb_positive'', ''nb_power'', ''nb_remainder'',
      ''nb_rshift'', ''nb_subtract'', ''nb_true_divide'', ''nb_xor'', ''sq_ass_item'',
      ''sq_concat'', ''sq_contains'', ''sq_inplace_concat'', ''sq_inplace_repeat'',
      ''sq_item'', ''sq_length'', ''sq_repeat'', ''tp_call'', ''tp_finalize'',
      ''tp_hash'', ''tp_init'', ''tp_new'', ''tp_repr'', ''tp_richcompare'', ''tp_str'',
      ''tp_traverse'']"

definition HPY_BUILTIN_EXCEPTIONS :: "string list" where
  "HPY_BUILTIN_EXCEPTIONS =
     [''AssertionError'', ''AttributeError'', ''BufferError'', ''EOFError'', ''Exception'',
      ''ImportError'', ''IndexError'', ''KeyError'', ''LookupError'', ''MemoryError'',
      ''ModuleNotFoundError'', ''NameError'', ''NotImplementedError'', ''OSError'',
      ''OverflowError'', ''RecursionError'', ''ReferenceError'', ''RuntimeError'',
      ''StopIteration'', ''SyntaxError'', ''SystemError'', ''TypeError'',
      ''UnboundLocalError'', ''UnicodeDecodeError'', ''UnicodeEncodeError'',
      ''UnicodeError'', ''UnicodeTranslateError'', ''ValueError'', ''ZeroDivisionError'']"

definition hpy_uses_handle_ownership :: bool where
  "hpy_uses_handle_ownership = True"

text \<open>\<open>_require_context\<close>.\<close>

definition hpy_require_context :: "string \<Rightarrow> runtime_error + string" where
  "hpy_require_context context_cname = require_cname hpy_context_contract context_cname"

text \<open>\<open>context_cname = self._require_context(context_cname)\<close> followed by the rest.\<close>

definition with_context ::
  "string \<Rightarrow> (string \<Rightarrow> runtime_error + 'a) \<Rightarrow> runtime_error + 'a" where
  "with_context context_cname k =
     (case hpy_require_context context_cname of Inl e \<Rightarrow> Inl e | Inr c \<Rightarrow> k c)"

subsection \<open>Context constants and exceptions\<close>

definition hpy_context_constants :: "(RuntimeContextConstant, string) pydict" where
  "hpy_context_constants =
     [(CC_NONE, ''h_None''), (CC_NOT_IMPLEMENTED, ''h_NotImplemented''), (CC_TRUE, ''h_True''),
      (CC_FALSE, ''h_False''), (CC_ELLIPSIS, ''h_Ellipsis''), (CC_TYPE_ERROR, ''h_TypeError''),
      (CC_BASE_EXCEPTION, ''h_BaseException''), (CC_TYPE_TYPE, ''h_TypeType''),
      (CC_UNICODE_TYPE, ''h_UnicodeType''), (CC_SLICE_TYPE, ''h_SliceType''),
      (CC_LONG_TYPE, ''h_LongType''), (CC_COMPLEX_TYPE, ''h_ComplexType''),
      (CC_LIST_TYPE, ''h_ListType''), (CC_TUPLE_TYPE, ''h_TupleType'')]"

definition hpy_context_constant ::
  "RuntimeContextConstant \<Rightarrow> string \<Rightarrow> runtime_error + string" where
  "hpy_context_constant c context_cname =
     with_context context_cname (\<lambda>context_cname.
       case dict_get hpy_context_constants c of
         None \<Rightarrow> Inl (RT_TypeError ''expected RuntimeContextConstant, got %r''
                         [context_constant_value c])
       | Some name \<Rightarrow> Inr (fmt ''%s->%s'' [context_cname, name]))"

definition hpy_builtin_exception :: "string \<Rightarrow> string \<Rightarrow> runtime_error + string" where
  "hpy_builtin_exception name context_cname =
     with_context context_cname (\<lambda>context_cname.
       if name \<notin> set HPY_BUILTIN_EXCEPTIONS
       then Inl (RT_ValueError ''unsupported builtin exception %r'' [name])
       else Inr (fmt ''%s->h_%s'' [context_cname, name]))"

subsection \<open>Operations with one format\<close>

definition hpy_reference_type_cname :: "string" where
  "hpy_reference_type_cname = ''HPy''"

definition hpy_execution_state_type_cname :: "string" where
  "hpy_execution_state_type_cname = ''HPyThreadState''"

definition hpy_leave_python_execution :: "string \<Rightarrow> runtime_error + string" where
  "hpy_leave_python_execution context_cname =
     with_context context_cname (\<lambda>context_cname.
       Inr (fmt ''HPy_LeavePythonExecution(%s)'' [context_cname]))"

definition hpy_reenter_python_execution ::
  "string \<Rightarrow> string \<Rightarrow> runtime_error + string" where
  "hpy_reenter_python_execution state_cname context_cname =
     with_context context_cname (\<lambda>context_cname.
       Inr (fmt ''HPy_ReenterPythonExecution(%s, %s)'' [context_cname, state_cname]))"

definition hpy_signed_integer_from_cvalue ::
  "string \<Rightarrow> string \<Rightarrow> runtime_error + string" where
  "hpy_signed_integer_from_cvalue value_cname context_cname =
     with_context context_cname (\<lambda>context_cname.
       Inr (fmt ''HPyLong_FromLongLong(%s, %s)'' [context_cname, value_cname]))"

definition hpy_ssize_integer_from_cvalue ::
  "string \<Rightarrow> string \<Rightarrow> runtime_error + string" where
  "hpy_ssize_integer_from_cvalue value_cname context_cname =
     with_context context_cname (\<lambda>context_cname.
       Inr (fmt ''HPyLong_FromSsize_t(%s, %s)'' [context_cname, value_cname]))"

definition hpy_unsigned_integer_from_cvalue ::
  "string \<Rightarrow> string \<Rightarrow> runtime_error + string" where
  "hpy_unsigned_integer_from_cvalue value_cname context_cname =
     with_context context_cname (\<lambda>context_cname.
       Inr (fmt ''HPyLong_FromUnsignedLongLong(%s, %s)'' [context_cname, value_cname]))"

definition hpy_floating_from_cvalue ::
  "string \<Rightarrow> string \<Rightarrow> runtime_error + string" where
  "hpy_floating_from_cvalue value_cname context_cname =
     with_context context_cname (\<lambda>context_cname.
       Inr (fmt ''HPyFloat_FromDouble(%s, %s)'' [context_cname, value_cname]))"

definition hpy_signed_long_from_python ::
  "string \<Rightarrow> string \<Rightarrow> runtime_error + string" where
  "hpy_signed_long_from_python value_cname context_cname =
     with_context context_cname (\<lambda>context_cname.
       Inr (fmt ''HPyLong_AsLong(%s, %s)'' [context_cname, value_cname]))"

definition hpy_ssize_t_from_python ::
  "string \<Rightarrow> string \<Rightarrow> runtime_error + string" where
  "hpy_ssize_t_from_python value_cname context_cname =
     with_context context_cname (\<lambda>context_cname.
       Inr (fmt ''HPyLong_AsSsize_t(%s, %s)'' [context_cname, value_cname]))"

definition hpy_type_check ::
  "string \<Rightarrow> string \<Rightarrow> string \<Rightarrow> runtime_error + string" where
  "hpy_type_check value_cname type_cname context_cname =
     with_context context_cname (\<lambda>context_cname.
       Inr (fmt ''HPy_TypeCheck(%s, %s, %s)'' [context_cname, value_cname, type_cname]))"

definition hpy_object_type ::
  "string \<Rightarrow> string \<Rightarrow> runtime_error + string" where
  "hpy_object_type value_cname context_cname =
     with_context context_cname (\<lambda>context_cname.
       Inr (fmt ''HPy_Type(%s, %s)'' [context_cname, value_cname]))"

definition hpy_type_is_subtype ::
  "string \<Rightarrow> string \<Rightarrow> string \<Rightarrow> runtime_error + string" where
  "hpy_type_is_subtype subtype_cname type_cname context_cname =
     with_context context_cname (\<lambda>context_cname.
       Inr (fmt ''HPyType_IsSubtype(%s, %s, %s)'' [context_cname, subtype_cname, type_cname]))"

definition hpy_object_hash ::
  "string \<Rightarrow> string \<Rightarrow> runtime_error + string" where
  "hpy_object_hash value_cname context_cname =
     with_context context_cname (\<lambda>context_cname.
       Inr (fmt ''HPy_Hash(%s, %s)'' [context_cname, value_cname]))"

definition hpy_signed_long_long_from_python ::
  "string \<Rightarrow> string \<Rightarrow> runtime_error + string" where
  "hpy_signed_long_long_from_python value_cname context_cname =
     with_context context_cname (\<lambda>context_cname.
       Inr (fmt ''HPyLong_AsLongLong(%s, %s)'' [context_cname, value_cname]))"

definition hpy_unsigned_long_from_python ::
  "string \<Rightarrow> string \<Rightarrow> runtime_error + string" where
  "hpy_unsigned_long_from_python value_cname context_cname =
     with_context context_cname (\<lambda>context_cname.
       Inr (fmt ''HPyLong_AsUnsignedLong(%s, %s)'' [context_cname, value_cname]))"

definition hpy_unsigned_long_long_from_python ::
  "string \<Rightarrow> string \<Rightarrow> runtime_error + string" where
  "hpy_unsigned_long_long_from_python value_cname context_cname =
     with_context context_cname (\<lambda>context_cname.
       Inr (fmt ''HPyLong_AsUnsignedLongLong(%s, %s)'' [context_cname, value_cname]))"

definition hpy_double_from_python ::
  "string \<Rightarrow> string \<Rightarrow> runtime_error + string" where
  "hpy_double_from_python value_cname context_cname =
     with_context context_cname (\<lambda>context_cname.
       Inr (fmt ''HPyFloat_AsDouble(%s, %s)'' [context_cname, value_cname]))"

definition hpy_python_error_occurred :: "string \<Rightarrow> runtime_error + string" where
  "hpy_python_error_occurred context_cname =
     with_context context_cname (\<lambda>context_cname.
       Inr (fmt ''HPyErr_Occurred(%s)'' [context_cname]))"

definition hpy_unicode_from_utf8 ::
  "string \<Rightarrow> string \<Rightarrow> runtime_error + string" where
  "hpy_unicode_from_utf8 value_cname context_cname =
     with_context context_cname (\<lambda>context_cname.
       Inr (fmt ''HPyUnicode_FromString(%s, %s)'' [context_cname, value_cname]))"

definition hpy_unicode_from_encoded_object ::
  "string \<Rightarrow> string \<Rightarrow> string \<Rightarrow> string \<Rightarrow> runtime_error + string" where
  "hpy_unicode_from_encoded_object value_cname encoding_cname errors_cname context_cname =
     with_context context_cname (\<lambda>context_cname.
       Inr (fmt ''HPyUnicode_FromEncodedObject(%s, %s, %s, %s)''
         [context_cname, value_cname, encoding_cname, errors_cname]))"

definition hpy_bytes_from_data ::
  "string \<Rightarrow> string \<Rightarrow> string \<Rightarrow> runtime_error + string" where
  "hpy_bytes_from_data value_cname size_cname context_cname =
     with_context context_cname (\<lambda>context_cname.
       Inr (fmt ''HPyBytes_FromStringAndSize(%s, %s, %s)''
         [context_cname, value_cname, size_cname]))"

definition hpy_argument_tracker_type_cname :: "string" where
  "hpy_argument_tracker_type_cname = ''HPyTracker''"

definition hpy_close_argument_tracker ::
  "string \<Rightarrow> string \<Rightarrow> runtime_error + string" where
  "hpy_close_argument_tracker tracker_cname context_cname =
     with_context context_cname (\<lambda>context_cname.
       Inr (fmt ''HPyTracker_Close(%s, %s);'' [context_cname, tracker_cname]))"

definition hpy_length :: "string \<Rightarrow> string \<Rightarrow> runtime_error + string" where
  "hpy_length value_cname context_cname =
     with_context context_cname (\<lambda>context_cname.
       Inr (fmt ''HPy_Length(%s, %s)'' [context_cname, value_cname]))"

definition hpy_item_get_index ::
  "string \<Rightarrow> string \<Rightarrow> string \<Rightarrow> runtime_error + string" where
  "hpy_item_get_index receiver_cname index_cname context_cname =
     with_context context_cname (\<lambda>context_cname.
       Inr (fmt ''HPy_GetItem_i(%s, %s, %s)'' [context_cname, receiver_cname, index_cname]))"

definition hpy_unicode_as_utf8_and_size ::
  "string \<Rightarrow> string \<Rightarrow> string \<Rightarrow> runtime_error + string" where
  "hpy_unicode_as_utf8_and_size value_cname size_cname context_cname =
     with_context context_cname (\<lambda>context_cname.
       Inr (fmt ''HPyUnicode_AsUTF8AndSize(%s, %s, &%s)'' [context_cname, value_cname, size_cname]))"

definition hpy_truth_test ::
  "string \<Rightarrow> string \<Rightarrow> runtime_error + string" where
  "hpy_truth_test value_cname context_cname =
     with_context context_cname (\<lambda>context_cname.
       Inr (fmt ''HPy_IsTrue(%s, %s)'' [context_cname, value_cname]))"

definition hpy_object_str ::
  "string \<Rightarrow> string \<Rightarrow> runtime_error + string" where
  "hpy_object_str value_cname context_cname =
     with_context context_cname (\<lambda>context_cname.
       Inr (fmt ''HPy_Str(%s, %s)'' [context_cname, value_cname]))"

definition hpy_object_repr ::
  "string \<Rightarrow> string \<Rightarrow> runtime_error + string" where
  "hpy_object_repr value_cname context_cname =
     with_context context_cname (\<lambda>context_cname.
       Inr (fmt ''HPy_Repr(%s, %s)'' [context_cname, value_cname]))"

definition hpy_object_ascii ::
  "string \<Rightarrow> string \<Rightarrow> runtime_error + string" where
  "hpy_object_ascii value_cname context_cname =
     with_context context_cname (\<lambda>context_cname.
       Inr (fmt ''HPy_ASCII(%s, %s)'' [context_cname, value_cname]))"

definition hpy_identity_test ::
  "string \<Rightarrow> string \<Rightarrow> string \<Rightarrow> runtime_error + string" where
  "hpy_identity_test left_cname right_cname context_cname =
     with_context context_cname (\<lambda>context_cname.
       Inr (fmt ''HPy_Is(%s, %s, %s)'' [context_cname, left_cname, right_cname]))"

definition hpy_contains ::
  "string \<Rightarrow> string \<Rightarrow> string \<Rightarrow> runtime_error + string" where
  "hpy_contains container_cname key_cname context_cname =
     with_context context_cname (\<lambda>context_cname.
       Inr (fmt ''HPy_Contains(%s, %s, %s)'' [context_cname, container_cname, key_cname]))"

definition hpy_attribute_get_string ::
  "string \<Rightarrow> string \<Rightarrow> string \<Rightarrow> runtime_error + string" where
  "hpy_attribute_get_string receiver_cname name_cname context_cname =
     with_context context_cname (\<lambda>context_cname.
       Inr (fmt ''HPy_GetAttr_s(%s, %s, %s)'' [context_cname, receiver_cname, name_cname]))"

definition hpy_attribute_has_string ::
  "string \<Rightarrow> string \<Rightarrow> string \<Rightarrow> runtime_error + string" where
  "hpy_attribute_has_string receiver_cname name_cname context_cname =
     with_context context_cname (\<lambda>context_cname.
       Inr (fmt ''HPy_HasAttr_s(%s, %s, %s)'' [context_cname, receiver_cname, name_cname]))"

definition hpy_item_get ::
  "string \<Rightarrow> string \<Rightarrow> string \<Rightarrow> runtime_error + string" where
  "hpy_item_get receiver_cname key_cname context_cname =
     with_context context_cname (\<lambda>context_cname.
       Inr (fmt ''HPy_GetItem(%s, %s, %s)'' [context_cname, receiver_cname, key_cname]))"

definition hpy_item_set ::
  "string \<Rightarrow> string \<Rightarrow> string \<Rightarrow> string \<Rightarrow> runtime_error + string" where
  "hpy_item_set receiver_cname key_cname value_cname context_cname =
     with_context context_cname (\<lambda>context_cname.
       Inr (fmt ''HPy_SetItem(%s, %s, %s, %s)''
         [context_cname, receiver_cname, key_cname, value_cname]))"

definition hpy_item_delete ::
  "string \<Rightarrow> string \<Rightarrow> string \<Rightarrow> runtime_error + string" where
  "hpy_item_delete receiver_cname key_cname context_cname =
     with_context context_cname (\<lambda>context_cname.
       Inr (fmt ''HPy_DelItem(%s, %s, %s)'' [context_cname, receiver_cname, key_cname]))"

definition hpy_attribute_set_string ::
  "string \<Rightarrow> string \<Rightarrow> string \<Rightarrow> string \<Rightarrow> runtime_error + string" where
  "hpy_attribute_set_string receiver_cname name_cname value_cname context_cname =
     with_context context_cname (\<lambda>context_cname.
       Inr (fmt ''HPy_SetAttr_s(%s, %s, %s, %s)''
         [context_cname, receiver_cname, name_cname, value_cname]))"

definition hpy_attribute_delete_string ::
  "string \<Rightarrow> string \<Rightarrow> string \<Rightarrow> runtime_error + string" where
  "hpy_attribute_delete_string receiver_cname name_cname context_cname =
     with_context context_cname (\<lambda>context_cname.
       Inr (fmt ''HPy_DelAttr_s(%s, %s, %s)'' [context_cname, receiver_cname, name_cname]))"

definition hpy_empty_reference :: "string \<Rightarrow> string" where
  "hpy_empty_reference cname = fmt ''%s = HPy_NULL;'' [cname]"

definition hpy_null_reference_value :: "string" where
  "hpy_null_reference_value = ''HPy_NULL''"

definition hpy_null_check :: "string \<Rightarrow> string" where
  "hpy_null_check cname = fmt ''HPy_IsNull(%s)'' [cname]"

definition hpy_call_tuple_dict ::
  "string \<Rightarrow> string \<Rightarrow> string \<Rightarrow> bool \<Rightarrow> string \<Rightarrow> runtime_error + string" where
  "hpy_call_tuple_dict callable_cname args_cname kwargs_cname use_utility_code context_cname =
     with_context context_cname (\<lambda>context_cname.
       Inr (fmt ''HPy_CallTupleDict(%s, %s, %s, %s)''
         [context_cname, callable_cname, args_cname, kwargs_cname]))"

definition hpy_call_no_args ::
  "string \<Rightarrow> string \<Rightarrow> runtime_error + string" where
  "hpy_call_no_args callable_cname context_cname =
     with_context context_cname (\<lambda>context_cname.
       Inr (fmt ''HPy_Call(%s, %s, NULL, 0, HPy_NULL)'' [context_cname, callable_cname]))"

definition hpy_call_one_arg ::
  "string \<Rightarrow> string \<Rightarrow> string \<Rightarrow> runtime_error + string" where
  "hpy_call_one_arg callable_cname arg_cname context_cname =
     with_context context_cname (\<lambda>context_cname.
       Inr (fmt ''HPy_Call(%s, %s, &%s, 1, HPy_NULL)'' [context_cname, callable_cname, arg_cname]))"

definition hpy_call_positional_array ::
  "string \<Rightarrow> string \<Rightarrow> string \<Rightarrow> string \<Rightarrow> runtime_error + string" where
  "hpy_call_positional_array callable_cname args_cname nargs_cname context_cname =
     with_context context_cname (\<lambda>context_cname.
       Inr (fmt ''HPy_Call(%s, %s, %s, %s, HPy_NULL)''
         [context_cname, callable_cname, args_cname, nargs_cname]))"

definition hpy_call_array_with_keyword_names ::
  "string \<Rightarrow> string \<Rightarrow> string \<Rightarrow> string \<Rightarrow> string \<Rightarrow> runtime_error + string" where
  "hpy_call_array_with_keyword_names callable_cname args_cname nargs_cname kwnames_cname context_cname =
     with_context context_cname (\<lambda>context_cname.
       Inr (fmt ''HPy_Call(%s, %s, %s, %s, %s)''
         [context_cname, callable_cname, args_cname, nargs_cname, kwnames_cname]))"

definition hpy_call_method_no_args ::
  "string \<Rightarrow> string \<Rightarrow> string \<Rightarrow> runtime_error + string" where
  "hpy_call_method_no_args receiver_cname name_cname context_cname =
     with_context context_cname (\<lambda>context_cname.
       Inr (fmt ''HPy_CallMethod(%s, %s, &%s, 1, HPy_NULL)''
         [context_cname, name_cname, receiver_cname]))"

definition hpy_dict_new ::
  "string \<Rightarrow> string \<Rightarrow> runtime_error + string" where
  "hpy_dict_new presized_size_cname context_cname =
     with_context context_cname (\<lambda>context_cname.
       Inr (fmt ''HPyDict_New(%s)'' [context_cname]))"

definition hpy_dict_set_item ::
  "string \<Rightarrow> string \<Rightarrow> string \<Rightarrow> string \<Rightarrow> runtime_error + string" where
  "hpy_dict_set_item dict_cname key_cname value_cname context_cname =
     with_context context_cname (\<lambda>context_cname.
       Inr (fmt ''HPy_SetItem(%s, %s, %s, %s)''
         [context_cname, dict_cname, key_cname, value_cname]))"

definition hpy_dict_set_item_string ::
  "string \<Rightarrow> string \<Rightarrow> string \<Rightarrow> string \<Rightarrow> runtime_error + string" where
  "hpy_dict_set_item_string dict_cname key_cname value_cname context_cname =
     with_context context_cname (\<lambda>context_cname.
       Inr (fmt ''HPy_SetItem_s(%s, %s, %s, %s)''
         [context_cname, dict_cname, key_cname, value_cname]))"

definition hpy_dict_copy ::
  "string \<Rightarrow> string \<Rightarrow> runtime_error + string" where
  "hpy_dict_copy dict_cname context_cname =
     with_context context_cname (\<lambda>context_cname.
       Inr (fmt ''HPyDict_Copy(%s, %s)'' [context_cname, dict_cname]))"

definition hpy_error_set_string ::
  "string \<Rightarrow> string \<Rightarrow> string \<Rightarrow> runtime_error + string" where
  "hpy_error_set_string exception_cname message_cname context_cname =
     with_context context_cname (\<lambda>context_cname.
       Inr (fmt ''HPyErr_SetString(%s, %s, %s)'' [context_cname, exception_cname, message_cname]))"

definition hpy_error_set_from_errno ::
  "string \<Rightarrow> string \<Rightarrow> runtime_error + string" where
  "hpy_error_set_from_errno exception_cname context_cname =
     with_context context_cname (\<lambda>context_cname.
       Inr (fmt ''HPyErr_SetFromErrno(%s, %s)'' [context_cname, exception_cname]))"

definition hpy_error_set_object ::
  "string \<Rightarrow> string \<Rightarrow> string \<Rightarrow> runtime_error + string" where
  "hpy_error_set_object exception_cname value_cname context_cname =
     with_context context_cname (\<lambda>context_cname.
       Inr (fmt ''HPyErr_SetObject(%s, %s, %s)'' [context_cname, exception_cname, value_cname]))"

definition hpy_error_set_none ::
  "string \<Rightarrow> string \<Rightarrow> runtime_error + string" where
  "hpy_error_set_none exception_cname context_cname =
     with_context context_cname (\<lambda>context_cname.
       Inr (fmt ''HPyErr_SetObject(%s, %s, %s->h_None)''
         [context_cname, exception_cname, context_cname]))"

definition hpy_error_clear :: "string \<Rightarrow> runtime_error + string" where
  "hpy_error_clear context_cname =
     with_context context_cname (\<lambda>context_cname.
       Inr (fmt ''HPyErr_Clear(%s)'' [context_cname]))"

definition hpy_error_no_memory :: "string \<Rightarrow> runtime_error + string" where
  "hpy_error_no_memory context_cname =
     with_context context_cname (\<lambda>context_cname.
       Inr (fmt ''HPyErr_NoMemory(%s)'' [context_cname]))"

definition hpy_global_load ::
  "string \<Rightarrow> string \<Rightarrow> runtime_error + string" where
  "hpy_global_load storage_cname context_cname =
     with_context context_cname (\<lambda>context_cname.
       Inr (fmt ''HPyGlobal_Load(%s, %s)'' [context_cname, storage_cname]))"

definition hpy_global_store ::
  "string \<Rightarrow> string \<Rightarrow> string \<Rightarrow> runtime_error + string" where
  "hpy_global_store storage_cname value_cname context_cname =
     with_context context_cname (\<lambda>context_cname.
       Inr (fmt ''HPyGlobal_Store(%s, &%s, %s)'' [context_cname, storage_cname, value_cname]))"

definition hpy_field_load ::
  "string \<Rightarrow> string \<Rightarrow> string \<Rightarrow> runtime_error + string" where
  "hpy_field_load owner_cname field_cname context_cname =
     with_context context_cname (\<lambda>context_cname.
       Inr (fmt ''HPyField_Load(%s, %s, %s)'' [context_cname, owner_cname, field_cname]))"

definition hpy_field_store ::
  "string \<Rightarrow> string \<Rightarrow> string \<Rightarrow> string \<Rightarrow> runtime_error + string" where
  "hpy_field_store owner_cname field_cname value_cname context_cname =
     with_context context_cname (\<lambda>context_cname.
       Inr (fmt ''HPyField_Store(%s, %s, &%s, %s)''
         [context_cname, owner_cname, field_cname, value_cname]))"

definition hpy_import_module ::
  "string \<Rightarrow> string \<Rightarrow> runtime_error + string" where
  "hpy_import_module name_cname context_cname =
     with_context context_cname (\<lambda>context_cname.
       Inr (fmt ''HPyImport_ImportModule(%s, %s)'' [context_cname, name_cname]))"

definition hpy_module_set_attr ::
  "string \<Rightarrow> string \<Rightarrow> string \<Rightarrow> string \<Rightarrow> runtime_error + string" where
  "hpy_module_set_attr module_cname name_cname value_cname context_cname =
     with_context context_cname (\<lambda>context_cname.
       Inr (fmt ''HPy_SetAttr(%s, %s, %s, %s)''
         [context_cname, module_cname, name_cname, value_cname]))"

definition hpy_module_set_attr_string ::
  "string \<Rightarrow> string \<Rightarrow> string \<Rightarrow> string \<Rightarrow> runtime_error + string" where
  "hpy_module_set_attr_string module_cname name_cname value_cname context_cname =
     with_context context_cname (\<lambda>context_cname.
       Inr (fmt ''HPy_SetAttr_s(%s, %s, %s, %s)''
         [context_cname, module_cname, name_cname, value_cname]))"

definition hpy_module_slot_terminator :: "string" where
  "hpy_module_slot_terminator = ''NULL''"

definition hpy_module_slot_array_declaration :: "string \<Rightarrow> string" where
  "hpy_module_slot_array_declaration slots_cname = fmt ''static HPyDef *%s[] = {'' [slots_cname]"

definition hpy_method_definition_prefix :: "string \<Rightarrow> string" where
  "hpy_method_definition_prefix def_cname = ''''"

definition hpy_method_table_declaration :: "string \<Rightarrow> string" where
  "hpy_method_table_declaration table_cname = fmt ''static HPyDef *%s[] = {'' [table_cname]"

definition hpy_method_table_terminator :: "string" where
  "hpy_method_table_terminator = ''NULL''"

definition hpy_method_table_end :: "string" where
  "hpy_method_table_end = ''};''"

definition hpy_type_definition_array_declaration :: "string \<Rightarrow> string" where
  "hpy_type_definition_array_declaration type_cname =
     fmt ''static HPyDef *%s_defines[] = {'' [type_cname]"

definition hpy_type_definition_array_terminator :: "string" where
  "hpy_type_definition_array_terminator = ''NULL''"

definition hpy_type_specification_declaration :: "string \<Rightarrow> string" where
  "hpy_type_specification_declaration type_cname =
     fmt ''static HPyType_Spec %s_spec = {'' [type_cname]"

definition hpy_type_from_spec ::
  "string \<Rightarrow> string \<Rightarrow> string \<Rightarrow> runtime_error + string" where
  "hpy_type_from_spec spec_cname params_cname context_cname =
     with_context context_cname (\<lambda>context_cname.
       Inr (fmt ''HPyType_FromSpec(%s, &%s, %s)'' [context_cname, spec_cname, params_cname]))"

subsection \<open>Arguments\<close>

definition hpy_parse_keyword_arguments ::
  "string \<Rightarrow> string \<Rightarrow> string \<Rightarrow> string \<Rightarrow> string \<Rightarrow> string \<Rightarrow> string list \<Rightarrow> string
   \<Rightarrow> runtime_error + string" where
  "hpy_parse_keyword_arguments tracker_cname args_cname nargs_cname kwnames_cname format_cname
     keywords_cname output_cnames context_cname =
     with_context context_cname (\<lambda>context_cname.
       let operands =
             [context_cname, fmt ''&%s'' [tracker_cname], args_cname, nargs_cname, kwnames_cname,
              format_cname, keywords_cname]
             @ map (\<lambda>cname. fmt ''&%s'' [cname]) output_cnames
       in Inr (fmt ''HPyArg_ParseKeywords(%s)'' [py_join '', '' operands]))"

definition hpy_parse_keyword_dictionary ::
  "string \<Rightarrow> string \<Rightarrow> string \<Rightarrow> string \<Rightarrow> string \<Rightarrow> string \<Rightarrow> string list \<Rightarrow> string
   \<Rightarrow> runtime_error + string" where
  "hpy_parse_keyword_dictionary tracker_cname args_cname nargs_cname keyword_dictionary_cname
     format_cname keywords_cname output_cnames context_cname =
     with_context context_cname (\<lambda>context_cname.
       let operands =
             [context_cname, fmt ''&%s'' [tracker_cname], args_cname, nargs_cname,
              keyword_dictionary_cname, format_cname, keywords_cname]
             @ map (\<lambda>cname. fmt ''&%s'' [cname]) output_cnames
       in Inr (fmt ''HPyArg_ParseKeywordsDict(%s)'' [py_join '', '' operands]))"

subsection \<open>Operators\<close>

definition hpy_binary_functions :: "(RuntimeBinaryOperation, string) pydict" where
  "hpy_binary_functions =
     [(BOP_ADD, ''HPy_Add''), (BOP_SUBTRACT, ''HPy_Subtract''), (BOP_MULTIPLY, ''HPy_Multiply''),
      (BOP_MATRIX_MULTIPLY, ''HPy_MatrixMultiply''), (BOP_TRUE_DIVIDE, ''HPy_TrueDivide''),
      (BOP_FLOOR_DIVIDE, ''HPy_FloorDivide''), (BOP_REMAINDER, ''HPy_Remainder''),
      (BOP_LEFT_SHIFT, ''HPy_Lshift''), (BOP_RIGHT_SHIFT, ''HPy_Rshift''),
      (BOP_BITWISE_AND, ''HPy_And''), (BOP_BITWISE_XOR, ''HPy_Xor''), (BOP_BITWISE_OR, ''HPy_Or'')]"

definition hpy_binary_operation ::
  "RuntimeBinaryOperation \<Rightarrow> string \<Rightarrow> string \<Rightarrow> string \<Rightarrow> runtime_error + string" where
  "hpy_binary_operation operation left_cname right_cname context_cname =
     with_context context_cname (\<lambda>context_cname.
       if operation = BOP_POWER
       then Inr (fmt ''HPy_Power(%s, %s, %s, %s->h_None)''
              [context_cname, left_cname, right_cname, context_cname])
       else case dict_get hpy_binary_functions operation of
         None \<Rightarrow> Inl (RT_TypeError ''expected RuntimeBinaryOperation, got %r''
                         [binary_operation_value operation])
       | Some function \<Rightarrow>
           Inr (fmt ''%s(%s, %s, %s)'' [function, context_cname, left_cname, right_cname]))"

definition hpy_unary_functions :: "(RuntimeUnaryOperation, string) pydict" where
  "hpy_unary_functions =
     [(UOP_POSITIVE, ''HPy_Positive''), (UOP_NEGATIVE, ''HPy_Negative''),
      (UOP_INVERT, ''HPy_Invert'')]"

definition hpy_unary_operation ::
  "RuntimeUnaryOperation \<Rightarrow> string \<Rightarrow> string \<Rightarrow> runtime_error + string" where
  "hpy_unary_operation operation operand_cname context_cname =
     with_context context_cname (\<lambda>context_cname.
       case dict_get hpy_unary_functions operation of
         None \<Rightarrow> Inl (RT_TypeError ''expected RuntimeUnaryOperation, got %r''
                         [unary_operation_value operation])
       | Some function \<Rightarrow> Inr (fmt ''%s(%s, %s)'' [function, context_cname, operand_cname]))"

definition hpy_inplace_functions :: "(RuntimeInPlaceOperation, string) pydict" where
  "hpy_inplace_functions =
     [(IOP_ADD, ''HPy_InPlaceAdd''), (IOP_SUBTRACT, ''HPy_InPlaceSubtract''),
      (IOP_MULTIPLY, ''HPy_InPlaceMultiply''),
      (IOP_MATRIX_MULTIPLY, ''HPy_InPlaceMatrixMultiply''),
      (IOP_TRUE_DIVIDE, ''HPy_InPlaceTrueDivide''),
      (IOP_FLOOR_DIVIDE, ''HPy_InPlaceFloorDivide''),
      (IOP_REMAINDER, ''HPy_InPlaceRemainder''), (IOP_LEFT_SHIFT, ''HPy_InPlaceLshift''),
      (IOP_RIGHT_SHIFT, ''HPy_InPlaceRshift''), (IOP_BITWISE_AND, ''HPy_InPlaceAnd''),
      (IOP_BITWISE_XOR, ''HPy_InPlaceXor''), (IOP_BITWISE_OR, ''HPy_InPlaceOr'')]"

definition hpy_inplace_operation ::
  "RuntimeInPlaceOperation \<Rightarrow> string \<Rightarrow> string \<Rightarrow> string \<Rightarrow> runtime_error + string" where
  "hpy_inplace_operation operation left_cname right_cname context_cname =
     with_context context_cname (\<lambda>context_cname.
       if operation = IOP_POWER
       then Inr (fmt ''HPy_InPlacePower(%s, %s, %s, %s->h_None)''
              [context_cname, left_cname, right_cname, context_cname])
       else case dict_get hpy_inplace_functions operation of
         None \<Rightarrow> Inl (RT_TypeError ''expected RuntimeInPlaceOperation, got %r''
                         [inplace_operation_value operation])
       | Some function \<Rightarrow>
           Inr (fmt ''%s(%s, %s, %s)'' [function, context_cname, left_cname, right_cname]))"

definition hpy_compare_operators :: "(RuntimeComparisonOperation, string) pydict" where
  "hpy_compare_operators =
     [(CMP_LESS_THAN, ''HPy_LT''), (CMP_LESS_EQUAL, ''HPy_LE''), (CMP_EQUAL, ''HPy_EQ''),
      (CMP_NOT_EQUAL, ''HPy_NE''), (CMP_GREATER_THAN, ''HPy_GT''),
      (CMP_GREATER_EQUAL, ''HPy_GE'')]"

definition hpy_rich_compare ::
  "RuntimeComparisonOperation \<Rightarrow> string \<Rightarrow> string \<Rightarrow> string \<Rightarrow> runtime_error + string" where
  "hpy_rich_compare operation left_cname right_cname context_cname =
     with_context context_cname (\<lambda>context_cname.
       case dict_get hpy_compare_operators operation of
         None \<Rightarrow> Inl (RT_TypeError ''expected RuntimeComparisonOperation, got %r''
                         [comparison_operation_value operation])
       | Some operator \<Rightarrow>
           Inr (fmt ''HPy_RichCompare(%s, %s, %s, %s)''
                  [context_cname, left_cname, right_cname, operator]))"

subsection \<open>References\<close>

definition hpy_duplicate_reference ::
  "string \<Rightarrow> bool \<Rightarrow> string \<Rightarrow> runtime_error + string" where
  "hpy_duplicate_reference cname null_safe context_cname =
     with_context context_cname (\<lambda>context_cname.
       let duplicate = fmt ''HPy_Dup(%s, %s)'' [context_cname, cname]
       in if null_safe then Inr (fmt ''HPy_IsNull(%s) ? HPy_NULL : %s'' [cname, duplicate])
          else Inr duplicate)"

definition hpy_close_reference ::
  "string \<Rightarrow> bool \<Rightarrow> string \<Rightarrow> runtime_error + string" where
  "hpy_close_reference cname null_safe context_cname =
     with_context context_cname (\<lambda>context_cname.
       let close = fmt ''HPy_Close(%s, %s);'' [context_cname, cname]
       in if null_safe then Inr (fmt ''if (!HPy_IsNull(%s)) %s'' [cname, close])
          else Inr close)"

definition hpy_call_method_array ::
  "string \<Rightarrow> string \<Rightarrow> string \<Rightarrow> string \<Rightarrow> string \<Rightarrow> runtime_error + string" where
  "hpy_call_method_array name_cname args_cname nargs_cname kwnames_cname context_cname =
     with_context context_cname (\<lambda>context_cname.
       let kwnames_cname = (if kwnames_cname = [] then ''HPy_NULL'' else kwnames_cname)
       in Inr (fmt ''HPy_CallMethod(%s, %s, %s, %s, %s)''
            [context_cname, name_cname, args_cname, nargs_cname, kwnames_cname]))"

subsection \<open>Sequence builders\<close>

definition hpy_sequence_builder :: "RuntimeSequenceKind \<Rightarrow> RuntimeSequenceBuilder" where
  "hpy_sequence_builder k =
     (let kind_name = (if k = SEQ_LIST then ''List'' else ''Tuple'')
      in \<lparr>builder_kind = k, builder_type_cname = fmt ''HPy%sBuilder'' [kind_name],
          result_type_cname = ''HPy'', uses_separate_builder = True,
          set_item_steals_reference = False, creation_reports_error = False,
          supports_from_array = (k = SEQ_TUPLE)\<rparr>)"

definition hpy_sequence_kind_name :: "RuntimeSequenceBuilder \<Rightarrow> string" where
  "hpy_sequence_kind_name builder =
     (if builder_kind builder = SEQ_LIST then ''List'' else ''Tuple'')"

definition hpy_validate_sequence_builder ::
  "RuntimeSequenceBuilder \<Rightarrow> runtime_error + unit" where
  "hpy_validate_sequence_builder builder =
     (if builder \<noteq> hpy_sequence_builder (builder_kind builder)
      then Inl (RT_ValueError ''sequence builder belongs to a different runtime contract'' [])
      else Inr ())"

definition hpy_sequence_builder_new ::
  "RuntimeSequenceBuilder \<Rightarrow> string \<Rightarrow> string \<Rightarrow> runtime_error + string" where
  "hpy_sequence_builder_new builder size_cname context_cname =
     (case hpy_validate_sequence_builder builder of Inl e \<Rightarrow> Inl e
      | Inr _ \<Rightarrow> with_context context_cname (\<lambda>context_cname.
          Inr (fmt ''HPy%sBuilder_New(%s, %s)''
            [hpy_sequence_kind_name builder, context_cname, size_cname])))"

definition hpy_sequence_builder_set ::
  "RuntimeSequenceBuilder \<Rightarrow> string \<Rightarrow> string \<Rightarrow> string \<Rightarrow> string \<Rightarrow> runtime_error + string" where
  "hpy_sequence_builder_set builder builder_cname index_cname item_cname context_cname =
     (case hpy_validate_sequence_builder builder of Inl e \<Rightarrow> Inl e
      | Inr _ \<Rightarrow> with_context context_cname (\<lambda>context_cname.
          Inr (fmt ''HPy%sBuilder_Set(%s, %s, %s, %s)''
            [hpy_sequence_kind_name builder, context_cname, builder_cname, index_cname,
             item_cname])))"

definition hpy_sequence_builder_build ::
  "RuntimeSequenceBuilder \<Rightarrow> string \<Rightarrow> string \<Rightarrow> runtime_error + string" where
  "hpy_sequence_builder_build builder builder_cname context_cname =
     (case hpy_validate_sequence_builder builder of Inl e \<Rightarrow> Inl e
      | Inr _ \<Rightarrow> with_context context_cname (\<lambda>context_cname.
          Inr (fmt ''HPy%sBuilder_Build(%s, %s)''
            [hpy_sequence_kind_name builder, context_cname, builder_cname])))"

definition hpy_sequence_builder_cancel ::
  "RuntimeSequenceBuilder \<Rightarrow> string \<Rightarrow> string \<Rightarrow> runtime_error + string" where
  "hpy_sequence_builder_cancel builder builder_cname context_cname =
     (case hpy_validate_sequence_builder builder of Inl e \<Rightarrow> Inl e
      | Inr _ \<Rightarrow> with_context context_cname (\<lambda>context_cname.
          Inr (fmt ''HPy%sBuilder_Cancel(%s, %s);''
            [hpy_sequence_kind_name builder, context_cname, builder_cname])))"

definition hpy_select_sequence_from_array ::
  "RuntimeAPIBase \<Rightarrow> RuntimeSequenceKind \<Rightarrow> runtime_error + RuntimeSequenceFromArray" where
  "hpy_select_sequence_from_array self k =
     (let builder = hpy_sequence_builder k in
      if \<not> supports_from_array builder
      then Inl (RuntimeCapabilityError (rt_name self) (CapabilityEnum CONTAINER_BUILDERS)
        ''HPy exposes HPyTuple_FromArray but no list-from-array operation''
        ''construct the list with HPyListBuilder'' None)
      else Inr \<lparr>array_kind = k, array_function_cname = ''HPyTuple_FromArray'',
                 array_utility_code_name = [], array_utility_code_file = []\<rparr>)"

definition hpy_sequence_from_array ::
  "RuntimeAPIBase \<Rightarrow> RuntimeSequenceFromArray \<Rightarrow> string \<Rightarrow> string \<Rightarrow> string
   \<Rightarrow> runtime_error + string" where
  "hpy_sequence_from_array self operation items_cname size_cname context_cname =
     (case hpy_select_sequence_from_array self (array_kind operation) of Inl e \<Rightarrow> Inl e
      | Inr expected \<Rightarrow>
          if operation \<noteq> expected
          then Inl (RT_ValueError ''array constructor belongs to a different runtime contract'' [])
          else with_context context_cname (\<lambda>context_cname.
            Inr (fmt ''%s(%s, %s, %s)''
              [array_function_cname operation, context_cname, items_cname, size_cname])))"

definition hpy_sequence_pack ::
  "RuntimeAPIBase \<Rightarrow> RuntimeSequenceKind \<Rightarrow> string list \<Rightarrow> string \<Rightarrow> runtime_error + string" where
  "hpy_sequence_pack self k item_cnames context_cname =
     (if k \<noteq> SEQ_TUPLE
      then Inl (RuntimeCapabilityError (rt_name self) (CapabilityEnum CONTAINER_BUILDERS)
        ''HPy exposes HPyTuple_Pack but no HPyList_Pack operation''
        ''construct the list with HPyListBuilder'' None)
      else with_context context_cname (\<lambda>context_cname.
        let operands = [context_cname, py_str_nat (length item_cnames)] @ item_cnames
        in Inr (fmt ''HPyTuple_Pack(%s)'' [py_join '', '' operands])))"

subsection \<open>Conversions, errors and names without an HPy counterpart\<close>

definition hpy_to_python_conversion :: "RuntimeAPIBase \<Rightarrow> runtime_error + string" where
  "hpy_to_python_conversion self =
     Inl (RuntimeCapabilityError (rt_name self) (CapabilityEnum VALUE_CONVERSIONS)
       ''HPy scalar conversion emission requires M2 handle/context storage''
       ''use the CPython backend until the HPy ownership model is enabled'' None)"

definition hpy_from_python_conversion ::
  "RuntimeAPIBase \<Rightarrow> code_position option \<Rightarrow> runtime_error + string" where
  "hpy_from_python_conversion self error_pos =
     Inl (RuntimeCapabilityError (rt_name self) (CapabilityEnum VALUE_CONVERSIONS)
       ''HPy scalar conversion emission requires M2 handle/context storage''
       ''use the CPython backend until the HPy ownership model is enabled'' error_pos)"

definition hpy_error_format ::
  "string \<Rightarrow> string \<Rightarrow> string list \<Rightarrow> string \<Rightarrow> runtime_error + string" where
  "hpy_error_format exception_cname format_cname arg_cnames context_cname =
     with_context context_cname (\<lambda>context_cname.
       let operands = [context_cname, exception_cname, format_cname] @ arg_cnames
       in Inr (fmt ''HPyErr_Format(%s)'' [py_join '', '' operands]))"

definition hpy_unsupported_exception_triple :: "RuntimeAPIBase \<Rightarrow> runtime_error + string" where
  "hpy_unsupported_exception_triple self =
     Inl (RuntimeCapabilityError (rt_name self) (CapabilityEnum EXCEPTION_STATE)
       ''HPy has no public CPython-style type/value/traceback exception triple API''
       ''use HPy current-error operations or an explicitly validated backend helper'' None)"

definition hpy_current_exception_type :: "RuntimeAPIBase \<Rightarrow> runtime_error + string" where
  "hpy_current_exception_type self = hpy_unsupported_exception_triple self"

text \<open>\<open>fetch_exception\<close>, \<open>restore_exception\<close>, \<open>raise_exception\<close>,
  \<open>reraise_exception\<close>, \<open>get_exception\<close>, \<open>save_exception\<close>, \<open>reset_exception\<close> and
  \<open>swap_exception\<close> share one body and ignore their arguments.\<close>

definition hpy_exception_triple_method :: "RuntimeAPIBase \<Rightarrow> runtime_error + string" where
  "hpy_exception_triple_method self = hpy_unsupported_exception_triple self"

definition hpy_exception_matches ::
  "RuntimeAPIBase \<Rightarrow> string \<Rightarrow> string \<Rightarrow> string \<Rightarrow> string \<Rightarrow> runtime_error + string" where
  "hpy_exception_matches self pattern_cname exception_cname second_pattern_cname context_cname =
     with_context context_cname (\<lambda>context_cname.
       if exception_cname \<noteq> [] \<or> second_pattern_cname \<noteq> []
       then Inl (RuntimeCapabilityError (rt_name self) (CapabilityEnum EXCEPTION_STATE)
         ''HPy only exposes matching against the currently raised exception''
         ''normalize control flow to current-exception matching or reject the feature'' None)
       else Inr (fmt ''HPyErr_ExceptionMatches(%s, %s)'' [context_cname, pattern_cname]))"

definition hpy_name_lookup :: "RuntimeAPIBase \<Rightarrow> RuntimeNameLookup \<Rightarrow> runtime_error + string" where
  "hpy_name_lookup self lookup =
     Inl (RuntimeCapabilityError (rt_name self) (CapabilityEnum MODULE_GLOBALS)
       ''HPy name lookup requires registered global storage, module execution state, and owned local handles''
       ''enable the M2 ownership/context model and M3 HPy module namespace helpers'' None)"

subsection \<open>Modules\<close>

definition hpy_unsupported_module_operation ::
  "RuntimeAPIBase \<Rightarrow> string \<Rightarrow> runtime_error + string" where
  "hpy_unsupported_module_operation self operation =
     Inl (RuntimeCapabilityError (rt_name self) (CapabilityEnum MODULE_DEFINITIONS)
       (fmt ''%s has no public Universal HPy equivalent'' [operation])
       ''move initialization into HPy_mod_exec and use HPyModuleDef-managed state'' None)"

definition hpy_module_create :: "RuntimeAPIBase \<Rightarrow> runtime_error + string" where
  "hpy_module_create self = hpy_unsupported_module_operation self ''manual module creation''"

definition hpy_module_get_dict :: "RuntimeAPIBase \<Rightarrow> runtime_error + string" where
  "hpy_module_get_dict self =
     hpy_unsupported_module_operation self ''borrowed module-dict access''"

definition hpy_import_add_module_ref :: "RuntimeAPIBase \<Rightarrow> runtime_error + string" where
  "hpy_import_add_module_ref self =
     hpy_unsupported_module_operation self ''creating or retrieving a sys.modules entry''"

definition hpy_import_get_module_dict :: "RuntimeAPIBase \<Rightarrow> runtime_error + string" where
  "hpy_import_get_module_dict self =
     hpy_unsupported_module_operation self ''borrowed sys.modules dictionary access''"

definition hpy_module_slot_definition ::
  "RuntimeAPIBase \<Rightarrow> string \<Rightarrow> string \<Rightarrow> runtime_error + string" where
  "hpy_module_slot_definition self slot_name impl_cname =
     (if slot_name = [] \<or> impl_cname = []
      then Inl (RT_ValueError ''module slot name and implementation are required'' [])
      else if slot_name \<notin> set [''mod_create'', ''mod_exec'']
      then Inl (RuntimeCapabilityError (rt_name self) (CapabilityEnum MODULE_DEFINITIONS)
        (fmt ''CPython module slot Py_%s has no enabled Universal HPy definition'' [slot_name])
        ''express the policy through HPy module metadata or reject the feature'' None)
      else Inr (fmt ''HPyDef_SLOT(%s, HPy_%s)'' [impl_cname, slot_name]))"

definition hpy_module_definition_forward_declaration ::
  "string \<Rightarrow> string \<Rightarrow> runtime_error + string" where
  "hpy_module_definition_forward_declaration def_cname linkage =
     (if linkage \<notin> set [''extern'', ''static'']
      then Inl (RT_ValueError ''module definition linkage must be extern or static'' [])
      else Inr (fmt ''%s %s %s;''
        [linkage, definition_type_cname hpy_module_definition, def_cname]))"

definition hpy_module_definition_declaration ::
  "string \<Rightarrow> string \<Rightarrow> runtime_error + string" where
  "hpy_module_definition_declaration def_cname linkage =
     (if linkage \<notin> set [[], ''static'']
      then Inl (RT_ValueError ''module definition linkage must be empty or static'' [])
      else
        let prefix = (if linkage \<noteq> [] then fmt ''%s '' [linkage] else [])
        in Inr (fmt ''%s%s %s =''
             [prefix, definition_type_cname hpy_module_definition, def_cname]))"

definition hpy_module_init_definition_result :: "RuntimeAPIBase \<Rightarrow> runtime_error + string" where
  "hpy_module_init_definition_result self =
     Inl (RuntimeCapabilityError (rt_name self) (CapabilityEnum MODULE_DEFINITIONS)
       ''HPy module init returns its definition through HPy_MODINIT, not an expression''
       ''emit HPy_MODINIT after the complete HPyModuleDef and run setup in HPy_mod_exec'' None)"

subsection \<open>Methods\<close>

fun hpy_method_signature :: "RuntimeMethodSignature \<Rightarrow> string" where
  "hpy_method_signature SIG_NOARGS = ''HPyFunc_NOARGS''"
| "hpy_method_signature SIG_ONEARG = ''HPyFunc_O''"
| "hpy_method_signature SIG_POSITIONAL_VARARGS = ''HPyFunc_VARARGS''"
| "hpy_method_signature SIG_VARARGS_KEYWORDS = ''HPyFunc_KEYWORDS''"
| "hpy_method_signature SIG_FASTCALL_KEYWORDS = ''HPyFunc_KEYWORDS''"

definition hpy_method_definition_declaration ::
  "RuntimeAPIBase \<Rightarrow> RuntimeMethodDefinition \<Rightarrow> runtime_error + string" where
  "hpy_method_definition_declaration self meth =
     (let hpy_signature = hpy_method_signature (signature meth);
          expected_implementation = fmt ''%s_impl'' [definition_cname meth]
      in if implementation_cname meth \<noteq> expected_implementation
         then Inl (RuntimeCapabilityError (rt_name self) (CapabilityEnum MODULE_DEFINITIONS)
           (fmt ''HPyDef_METH requires implementation symbol %s'' [expected_implementation])
           ''generate the HPy method wrapper before emitting its definition'' None)
         else
           let doc_argument =
                 (if doc_cname meth \<notin> set [''0'', ''NULL'']
                  then fmt '', .doc = %s'' [doc_cname meth] else [])
           in Inr (fmt ''HPyDef_METH(%s, %s, %s%s)''
                [definition_cname meth, python_name_cname meth, hpy_signature,
                 doc_argument]))"

definition hpy_method_implementation_declaration ::
  "RuntimeMethodDefinition \<Rightarrow> string \<Rightarrow> string \<Rightarrow> string \<Rightarrow> runtime_error + string" where
  "hpy_method_implementation_declaration meth context_cname receiver_cname argument_cname =
     with_context context_cname (\<lambda>context_cname.
       let impl = implementation_cname meth in
       case signature meth of
         SIG_NOARGS \<Rightarrow>
           Inr (fmt ''static HPy %s(HPyContext *%s, HPy %s)''
             [impl, context_cname, receiver_cname])
       | SIG_ONEARG \<Rightarrow>
           Inr (fmt ''static HPy %s(HPyContext *%s, HPy %s, HPy %s)''
             [impl, context_cname, receiver_cname, argument_cname])
       | SIG_POSITIONAL_VARARGS \<Rightarrow>
           Inr (fmt ''static HPy %s(HPyContext *%s, HPy %s, const HPy *args, size_t nargs)''
             [impl, context_cname, receiver_cname])
       | _ \<Rightarrow>
           Inr (fmt ''static HPy %s(HPyContext *%s, HPy %s, const HPy *args, size_t nargs, HPy kwnames)''
             [impl, context_cname, receiver_cname]))"

definition hpy_method_table_entry :: "RuntimeMethodDefinition \<Rightarrow> string \<Rightarrow> string" where
  "hpy_method_table_entry meth terminator =
     fmt ''&%s%s'' [definition_cname meth, terminator]"

subsection \<open>Types\<close>

definition hpy_type_slot_definition ::
  "RuntimeAPIBase \<Rightarrow> string \<Rightarrow> string \<Rightarrow> string \<Rightarrow> runtime_error + string" where
  "hpy_type_slot_definition self slot_name def_cname impl_cname =
     (if slot_name = [] \<or> def_cname = [] \<or> impl_cname = []
      then Inl (RT_ValueError ''type slot names and implementation are required'' [])
      else if slot_name \<notin> set hpy_supported_type_slots
      then Inl (RuntimeCapabilityError (rt_name self) (CapabilityEnum TYPE_DEFINITIONS)
        (fmt ''CPython slot Py_%s has no enabled pure-HPy slot mapping'' [slot_name])
        ''implement or reject the feature in the owning extension-type milestone'' None)
      else
        let expected_implementation = fmt ''%s_impl'' [def_cname] in
        if impl_cname \<noteq> expected_implementation
        then Inl (RuntimeCapabilityError (rt_name self) (CapabilityEnum TYPE_DEFINITIONS)
          (fmt ''HPyDef_SLOT requires implementation symbol %s'' [expected_implementation])
          ''generate a pure-HPy slot wrapper with the required signature'' None)
        else Inr (fmt ''HPyDef_SLOT(%s, HPy_%s)'' [def_cname, slot_name]))"

definition hpy_type_slot_table_entry ::
  "RuntimeAPIBase \<Rightarrow> string \<Rightarrow> string \<Rightarrow> string \<Rightarrow> runtime_error + string" where
  "hpy_type_slot_table_entry self slot_name def_cname impl_cname =
     (case hpy_type_slot_definition self slot_name def_cname impl_cname of
        Inl e \<Rightarrow> Inl e
      | Inr _ \<Rightarrow> Inr (fmt ''&%s,'' [def_cname]))"

end
