(* ===== verification/RuntimeCPython.thy ===== *)
theory RuntimeCPython
  imports RuntimeHPy
begin

text \<open>
  \<open>CPythonRuntimeAPI\<close> of \<open>Cython/Compiler/RuntimeAPI.py\<close>: the texts the CPython backend
  emits, one definition per method, under the method's name with the prefix \<open>cpy_\<close>. The context
  argument exists for the common interface and is not used. The methods that only forward to a
  method of a \<open>PyrexTypes\<close> type (\<open>incref_code\<close>, \<open>decref_code\<close> and their variants,
  \<open>check_for_null_code\<close>, \<open>to_python_conversion\<close>, \<open>from_python_conversion\<close>) are not modelled.
\<close>

subsection \<open>Class data\<close>

definition CPYTHON_BACKEND :: string where
  "CPYTHON_BACKEND = ''cpython''"

definition cpy_context_contract :: RuntimeContextContract where
  "cpy_context_contract =
     \<lparr>ctx_kind = CTXK_NONE, parameter_type_cname = [], default_parameter_cname = [],
      required_for_python_operations = False, may_be_persisted = False\<rparr>"

definition cpy_global_storage :: RuntimeGlobalStorage where
  "cpy_global_storage =
     \<lparr>storage_kind = GS_CPYTHON_OBJECT, storage_type_cname = ''PyObject *'',
      requires_module_registration = False, load_returns_owned_reference = False,
      store_consumes_reference = True, runtime_manages_stored_lifetime = False\<rparr>"

definition cpy_module_definition :: RuntimeModuleDefinition where
  "cpy_module_definition =
     \<lparr>module_kind = MI_CPYTHON_CONFIGURABLE, definition_type_cname = ''struct PyModuleDef'',
      requires_multiphase_init = False, init_returns_definition = False, init_has_context = False,
      execution_uses_slot = False, execution_receives_context = False,
      supports_manual_creation = True, supports_legacy_methods = True,
      supports_registered_globals = False\<rparr>"

definition cpy_type_definition :: RuntimeTypeDefinition where
  "cpy_type_definition =
     \<lparr>type_kind = TS_CPYTHON_SLOT_SPEC, specification_type_cname = ''PyType_Spec'',
      uses_slot_array = True, uses_definition_array = False, requires_builtin_shape = False,
      supports_legacy_slots = True, pure_layout_omits_object_header = False\<rparr>"

definition cpy_api :: RuntimeAPIBase where
  "cpy_api =
     \<lparr>rt_name = CPYTHON_BACKEND, rt_capabilities = all_capabilities, unavailable_reason = [],
      unavailable_guidance = []\<rparr>"

subsection \<open>Context constants and exceptions\<close>

definition cpy_context_constants :: "(RuntimeContextConstant, string) pydict" where
  "cpy_context_constants =
     [(CC_NONE, ''Py_None''), (CC_NOT_IMPLEMENTED, ''Py_NotImplemented''), (CC_TRUE, ''Py_True''),
      (CC_FALSE, ''Py_False''), (CC_ELLIPSIS, ''Py_Ellipsis''),
      (CC_TYPE_ERROR, ''PyExc_TypeError''), (CC_BASE_EXCEPTION, ''PyExc_BaseException''),
      (CC_TYPE_TYPE, ''(PyObject *)&PyType_Type''),
      (CC_UNICODE_TYPE, ''(PyObject *)&PyUnicode_Type''),
      (CC_SLICE_TYPE, ''(PyObject *)&PySlice_Type''), (CC_LONG_TYPE, ''(PyObject *)&PyLong_Type''),
      (CC_COMPLEX_TYPE, ''(PyObject *)&PyComplex_Type''),
      (CC_LIST_TYPE, ''(PyObject *)&PyList_Type''),
      (CC_TUPLE_TYPE, ''(PyObject *)&PyTuple_Type'')]"

definition cpy_context_constant ::
  "RuntimeContextConstant \<Rightarrow> string \<Rightarrow> runtime_error + string" where
  "cpy_context_constant c context_cname =
     (case dict_get cpy_context_constants c of
        None \<Rightarrow> Inl (RT_TypeError ''expected RuntimeContextConstant, got %r''
                        [context_constant_value c])
      | Some name \<Rightarrow> Inr name)"

definition cpy_builtin_exception :: "string \<Rightarrow> string \<Rightarrow> runtime_error + string" where
  "cpy_builtin_exception name context_cname =
     (if name \<notin> set HPY_BUILTIN_EXCEPTIONS
      then Inl (RT_ValueError ''unsupported builtin exception %r'' [name])
      else Inr (fmt ''PyExc_%s'' [name]))"

subsection \<open>Operations with one format\<close>

definition cpy_reference_type_cname :: "string" where
  "cpy_reference_type_cname = ''PyObject *''"

definition cpy_execution_state_type_cname :: "string" where
  "cpy_execution_state_type_cname = ''PyThreadState *''"

definition cpy_leave_python_execution :: "string \<Rightarrow> string" where
  "cpy_leave_python_execution context_cname = ''PyEval_SaveThread()''"

definition cpy_reenter_python_execution ::
  "string \<Rightarrow> string \<Rightarrow> string" where
  "cpy_reenter_python_execution state_cname context_cname =
     fmt ''PyEval_RestoreThread(%s)'' [state_cname]"

definition cpy_signed_integer_from_cvalue ::
  "string \<Rightarrow> string \<Rightarrow> string" where
  "cpy_signed_integer_from_cvalue value_cname context_cname =
     fmt ''PyLong_FromLongLong(%s)'' [value_cname]"

definition cpy_ssize_integer_from_cvalue ::
  "string \<Rightarrow> string \<Rightarrow> string" where
  "cpy_ssize_integer_from_cvalue value_cname context_cname =
     fmt ''PyLong_FromSsize_t(%s)'' [value_cname]"

definition cpy_unsigned_integer_from_cvalue ::
  "string \<Rightarrow> string \<Rightarrow> string" where
  "cpy_unsigned_integer_from_cvalue value_cname context_cname =
     fmt ''PyLong_FromUnsignedLongLong(%s)'' [value_cname]"

definition cpy_floating_from_cvalue :: "string \<Rightarrow> string \<Rightarrow> string" where
  "cpy_floating_from_cvalue value_cname context_cname =
     fmt ''PyFloat_FromDouble(%s)'' [value_cname]"

definition cpy_signed_long_from_python :: "string \<Rightarrow> string \<Rightarrow> string" where
  "cpy_signed_long_from_python value_cname context_cname =
     fmt ''PyLong_AsLong(%s)'' [value_cname]"

definition cpy_ssize_t_from_python :: "string \<Rightarrow> string \<Rightarrow> string" where
  "cpy_ssize_t_from_python value_cname context_cname = fmt ''PyLong_AsSsize_t(%s)'' [value_cname]"

definition cpy_type_check ::
  "string \<Rightarrow> string \<Rightarrow> string \<Rightarrow> string" where
  "cpy_type_check value_cname type_cname context_cname =
     fmt ''PyObject_TypeCheck(%s, (PyTypeObject *)%s)'' [value_cname, type_cname]"

definition cpy_object_type :: "string \<Rightarrow> string \<Rightarrow> string" where
  "cpy_object_type value_cname context_cname = fmt ''PyObject_Type(%s)'' [value_cname]"

definition cpy_type_is_subtype ::
  "string \<Rightarrow> string \<Rightarrow> string \<Rightarrow> string" where
  "cpy_type_is_subtype subtype_cname type_cname context_cname =
     fmt ''PyType_IsSubtype((PyTypeObject *)%s, (PyTypeObject *)%s)'' [subtype_cname, type_cname]"

definition cpy_object_hash :: "string \<Rightarrow> string \<Rightarrow> string" where
  "cpy_object_hash value_cname context_cname = fmt ''PyObject_Hash(%s)'' [value_cname]"

definition cpy_signed_long_long_from_python ::
  "string \<Rightarrow> string \<Rightarrow> string" where
  "cpy_signed_long_long_from_python value_cname context_cname =
     fmt ''PyLong_AsLongLong(%s)'' [value_cname]"

definition cpy_unsigned_long_from_python ::
  "string \<Rightarrow> string \<Rightarrow> string" where
  "cpy_unsigned_long_from_python value_cname context_cname =
     fmt ''PyLong_AsUnsignedLong(%s)'' [value_cname]"

definition cpy_unsigned_long_long_from_python ::
  "string \<Rightarrow> string \<Rightarrow> string" where
  "cpy_unsigned_long_long_from_python value_cname context_cname =
     fmt ''PyLong_AsUnsignedLongLong(%s)'' [value_cname]"

definition cpy_double_from_python :: "string \<Rightarrow> string \<Rightarrow> string" where
  "cpy_double_from_python value_cname context_cname = fmt ''PyFloat_AsDouble(%s)'' [value_cname]"

definition cpy_python_error_occurred :: "string \<Rightarrow> string" where
  "cpy_python_error_occurred context_cname = ''PyErr_Occurred()''"

definition cpy_unicode_from_utf8 :: "string \<Rightarrow> string \<Rightarrow> string" where
  "cpy_unicode_from_utf8 value_cname context_cname =
     fmt ''PyUnicode_FromString(%s)'' [value_cname]"

definition cpy_unicode_from_encoded_object ::
  "string \<Rightarrow> string \<Rightarrow> string \<Rightarrow> string \<Rightarrow> string" where
  "cpy_unicode_from_encoded_object value_cname encoding_cname errors_cname context_cname =
     fmt ''PyUnicode_FromEncodedObject(%s, %s, %s)'' [value_cname, encoding_cname, errors_cname]"

definition cpy_bytes_from_data ::
  "string \<Rightarrow> string \<Rightarrow> string \<Rightarrow> string" where
  "cpy_bytes_from_data value_cname size_cname context_cname =
     fmt ''PyBytes_FromStringAndSize(%s, %s)'' [value_cname, size_cname]"

definition cpy_length :: "string \<Rightarrow> string \<Rightarrow> string" where
  "cpy_length value_cname context_cname = fmt ''PyObject_Length(%s)'' [value_cname]"

definition cpy_item_get_index ::
  "string \<Rightarrow> string \<Rightarrow> string \<Rightarrow> string" where
  "cpy_item_get_index receiver_cname index_cname context_cname =
     fmt ''PySequence_GetItem(%s, %s)'' [receiver_cname, index_cname]"

definition cpy_unicode_as_utf8_and_size ::
  "string \<Rightarrow> string \<Rightarrow> string \<Rightarrow> string" where
  "cpy_unicode_as_utf8_and_size value_cname size_cname context_cname =
     fmt ''PyUnicode_AsUTF8AndSize(%s, &%s)'' [value_cname, size_cname]"

definition cpy_truth_test :: "string \<Rightarrow> string \<Rightarrow> string" where
  "cpy_truth_test value_cname context_cname = fmt ''PyObject_IsTrue(%s)'' [value_cname]"

definition cpy_object_str :: "string \<Rightarrow> string \<Rightarrow> string" where
  "cpy_object_str value_cname context_cname = fmt ''PyObject_Str(%s)'' [value_cname]"

definition cpy_object_repr :: "string \<Rightarrow> string \<Rightarrow> string" where
  "cpy_object_repr value_cname context_cname = fmt ''PyObject_Repr(%s)'' [value_cname]"

definition cpy_object_ascii :: "string \<Rightarrow> string \<Rightarrow> string" where
  "cpy_object_ascii value_cname context_cname = fmt ''PyObject_ASCII(%s)'' [value_cname]"

definition cpy_identity_test ::
  "string \<Rightarrow> string \<Rightarrow> string \<Rightarrow> string" where
  "cpy_identity_test left_cname right_cname context_cname =
     fmt ''(%s == %s)'' [left_cname, right_cname]"

definition cpy_contains ::
  "string \<Rightarrow> string \<Rightarrow> string \<Rightarrow> string" where
  "cpy_contains container_cname key_cname context_cname =
     fmt ''PySequence_Contains(%s, %s)'' [container_cname, key_cname]"

definition cpy_attribute_get_string ::
  "string \<Rightarrow> string \<Rightarrow> string \<Rightarrow> string" where
  "cpy_attribute_get_string receiver_cname name_cname context_cname =
     fmt ''PyObject_GetAttrString(%s, %s)'' [receiver_cname, name_cname]"

definition cpy_attribute_has_string ::
  "string \<Rightarrow> string \<Rightarrow> string \<Rightarrow> string" where
  "cpy_attribute_has_string receiver_cname name_cname context_cname =
     fmt ''PyObject_HasAttrString(%s, %s)'' [receiver_cname, name_cname]"

definition cpy_item_get ::
  "string \<Rightarrow> string \<Rightarrow> string \<Rightarrow> string" where
  "cpy_item_get receiver_cname key_cname context_cname =
     fmt ''PyObject_GetItem(%s, %s)'' [receiver_cname, key_cname]"

definition cpy_item_set ::
  "string \<Rightarrow> string \<Rightarrow> string \<Rightarrow> string \<Rightarrow> string" where
  "cpy_item_set receiver_cname key_cname value_cname context_cname =
     fmt ''PyObject_SetItem(%s, %s, %s)'' [receiver_cname, key_cname, value_cname]"

definition cpy_item_delete ::
  "string \<Rightarrow> string \<Rightarrow> string \<Rightarrow> string" where
  "cpy_item_delete receiver_cname key_cname context_cname =
     fmt ''PyObject_DelItem(%s, %s)'' [receiver_cname, key_cname]"

definition cpy_attribute_set_string ::
  "string \<Rightarrow> string \<Rightarrow> string \<Rightarrow> string \<Rightarrow> string" where
  "cpy_attribute_set_string receiver_cname name_cname value_cname context_cname =
     fmt ''PyObject_SetAttrString(%s, %s, %s)'' [receiver_cname, name_cname, value_cname]"

definition cpy_attribute_delete_string ::
  "string \<Rightarrow> string \<Rightarrow> string \<Rightarrow> string" where
  "cpy_attribute_delete_string receiver_cname name_cname context_cname =
     fmt ''PyObject_DelAttrString(%s, %s)'' [receiver_cname, name_cname]"

definition cpy_null_check :: "string \<Rightarrow> string" where
  "cpy_null_check cname = fmt ''!%s'' [cname]"

definition cpy_clear_reference :: "string \<Rightarrow> string" where
  "cpy_clear_reference cname = fmt ''Py_CLEAR(%s);'' [cname]"

definition cpy_empty_reference :: "string \<Rightarrow> string" where
  "cpy_empty_reference cname = fmt ''%s = 0;'' [cname]"

definition cpy_null_reference_value :: "string" where
  "cpy_null_reference_value = ''NULL''"

definition cpy_call_no_args :: "string \<Rightarrow> string \<Rightarrow> string" where
  "cpy_call_no_args callable_cname context_cname =
     fmt ''__Pyx_PyObject_CallNoArg(%s)'' [callable_cname]"

definition cpy_call_one_arg ::
  "string \<Rightarrow> string \<Rightarrow> string \<Rightarrow> string" where
  "cpy_call_one_arg callable_cname arg_cname context_cname =
     fmt ''__Pyx_PyObject_CallOneArg(%s, %s)'' [callable_cname, arg_cname]"

definition cpy_call_positional_array ::
  "string \<Rightarrow> string \<Rightarrow> string \<Rightarrow> string \<Rightarrow> string" where
  "cpy_call_positional_array callable_cname args_cname nargs_cname context_cname =
     fmt ''__Pyx_PyObject_FastCall(%s, %s, %s)'' [callable_cname, args_cname, nargs_cname]"

definition cpy_call_array_with_keyword_names ::
  "string \<Rightarrow> string \<Rightarrow> string \<Rightarrow> string \<Rightarrow> string \<Rightarrow> string" where
  "cpy_call_array_with_keyword_names callable_cname args_cname nargs_cname kwnames_cname context_cname =
     fmt ''__Pyx_Object_VectorcallKwds(%s, %s, %s, %s)'' [callable_cname, args_cname, nargs_cname, kwnames_cname]"

definition cpy_call_method_no_args :: "string \<Rightarrow> string \<Rightarrow> string" where
  "cpy_call_method_no_args receiver_cname name_cname =
     fmt ''__Pyx_PyObject_CallMethod0(%s, %s)'' [receiver_cname, name_cname]"

definition cpy_dict_set_item ::
  "string \<Rightarrow> string \<Rightarrow> string \<Rightarrow> string \<Rightarrow> string" where
  "cpy_dict_set_item dict_cname key_cname value_cname context_cname =
     fmt ''PyDict_SetItem(%s, %s, %s)'' [dict_cname, key_cname, value_cname]"

definition cpy_dict_set_item_string ::
  "string \<Rightarrow> string \<Rightarrow> string \<Rightarrow> string \<Rightarrow> string" where
  "cpy_dict_set_item_string dict_cname key_cname value_cname context_cname =
     fmt ''PyDict_SetItemString(%s, %s, %s)'' [dict_cname, key_cname, value_cname]"

definition cpy_dict_copy :: "string \<Rightarrow> string \<Rightarrow> string" where
  "cpy_dict_copy dict_cname context_cname = fmt ''PyDict_Copy(%s)'' [dict_cname]"

definition cpy_error_set_string ::
  "string \<Rightarrow> string \<Rightarrow> string \<Rightarrow> string" where
  "cpy_error_set_string exception_cname message_cname context_cname =
     fmt ''PyErr_SetString(%s, %s)'' [exception_cname, message_cname]"

definition cpy_error_set_from_errno :: "string \<Rightarrow> string \<Rightarrow> string" where
  "cpy_error_set_from_errno exception_cname context_cname =
     fmt ''PyErr_SetFromErrno(%s)'' [exception_cname]"

definition cpy_error_set_object ::
  "string \<Rightarrow> string \<Rightarrow> string \<Rightarrow> string" where
  "cpy_error_set_object exception_cname value_cname context_cname =
     fmt ''PyErr_SetObject(%s, %s)'' [exception_cname, value_cname]"

definition cpy_error_set_none :: "string \<Rightarrow> string \<Rightarrow> string" where
  "cpy_error_set_none exception_cname context_cname = fmt ''PyErr_SetNone(%s)'' [exception_cname]"

definition cpy_error_clear :: "string \<Rightarrow> string" where
  "cpy_error_clear context_cname = ''PyErr_Clear()''"

definition cpy_error_no_memory :: "string \<Rightarrow> string" where
  "cpy_error_no_memory context_cname = ''PyErr_NoMemory()''"

definition cpy_fetch_exception ::
  "string \<Rightarrow> string \<Rightarrow> string \<Rightarrow> string \<Rightarrow> string" where
  "cpy_fetch_exception type_ptr_cname value_ptr_cname traceback_ptr_cname context_cname =
     fmt ''__Pyx_PyErr_FetchException(%s, %s, %s)'' [type_ptr_cname, value_ptr_cname, traceback_ptr_cname]"

definition cpy_restore_exception ::
  "string \<Rightarrow> string \<Rightarrow> string \<Rightarrow> string \<Rightarrow> string" where
  "cpy_restore_exception type_cname value_cname traceback_cname context_cname =
     fmt ''__Pyx_PyErr_RestoreException(%s, %s, %s)'' [type_cname, value_cname, traceback_cname]"

definition cpy_raise_exception ::
  "string \<Rightarrow> string \<Rightarrow> string \<Rightarrow> string \<Rightarrow> string" where
  "cpy_raise_exception type_cname value_cname traceback_cname cause_cname =
     fmt ''__Pyx_Raise(%s, %s, %s, %s)'' [type_cname, value_cname, traceback_cname, cause_cname]"

definition cpy_reraise_exception :: "string" where
  "cpy_reraise_exception = ''__Pyx_ReraiseException()''"

definition cpy_global_store ::
  "string \<Rightarrow> string \<Rightarrow> string \<Rightarrow> string" where
  "cpy_global_store storage_cname value_cname context_cname =
     fmt ''%s = %s'' [storage_cname, value_cname]"

definition cpy_field_load ::
  "string \<Rightarrow> string \<Rightarrow> string \<Rightarrow> string" where
  "cpy_field_load owner_cname field_cname context_cname = fmt ''Py_XNewRef(%s)'' [field_cname]"

definition cpy_field_store ::
  "string \<Rightarrow> string \<Rightarrow> string \<Rightarrow> string \<Rightarrow> string" where
  "cpy_field_store owner_cname field_cname value_cname context_cname =
     fmt ''Py_XSETREF(%s, Py_XNewRef(%s))'' [field_cname, value_cname]"

definition cpy_import_module :: "string \<Rightarrow> string \<Rightarrow> string" where
  "cpy_import_module name_cname context_cname = fmt ''PyImport_ImportModule(%s)'' [name_cname]"

definition cpy_module_set_attr ::
  "string \<Rightarrow> string \<Rightarrow> string \<Rightarrow> string \<Rightarrow> string" where
  "cpy_module_set_attr module_cname name_cname value_cname context_cname =
     fmt ''PyObject_SetAttr(%s, %s, %s)'' [module_cname, name_cname, value_cname]"

definition cpy_module_set_attr_string ::
  "string \<Rightarrow> string \<Rightarrow> string \<Rightarrow> string \<Rightarrow> string" where
  "cpy_module_set_attr_string module_cname name_cname value_cname context_cname =
     fmt ''PyObject_SetAttrString(%s, %s, %s)'' [module_cname, name_cname, value_cname]"

definition cpy_module_create :: "string \<Rightarrow> string \<Rightarrow> string" where
  "cpy_module_create def_cname context_cname = fmt ''PyModule_Create(&%s)'' [def_cname]"

definition cpy_module_get_dict :: "string \<Rightarrow> string \<Rightarrow> string" where
  "cpy_module_get_dict module_cname context_cname = fmt ''PyModule_GetDict(%s)'' [module_cname]"

definition cpy_import_add_module_ref :: "string \<Rightarrow> string \<Rightarrow> string" where
  "cpy_import_add_module_ref name_cname context_cname =
     fmt ''__Pyx_PyImport_AddModuleRef(%s)'' [name_cname]"

definition cpy_import_get_module_dict :: "string \<Rightarrow> string" where
  "cpy_import_get_module_dict context_cname = ''PyImport_GetModuleDict()''"

definition cpy_module_slot_terminator :: "string" where
  "cpy_module_slot_terminator = ''{0, NULL}''"

definition cpy_module_slot_array_declaration :: "string \<Rightarrow> string" where
  "cpy_module_slot_array_declaration slots_cname =
     fmt ''static PyModuleDef_Slot %s[] = {'' [slots_cname]"

definition cpy_module_init_definition_result :: "string \<Rightarrow> string" where
  "cpy_module_init_definition_result def_cname = fmt ''PyModuleDef_Init(&%s)'' [def_cname]"

definition cpy_method_definition_prefix :: "string \<Rightarrow> string" where
  "cpy_method_definition_prefix def_cname = fmt ''static PyMethodDef %s = '' [def_cname]"

definition cpy_method_table_declaration :: "string \<Rightarrow> string" where
  "cpy_method_table_declaration table_cname = fmt ''static PyMethodDef %s[] = {'' [table_cname]"

definition cpy_method_table_terminator :: "string" where
  "cpy_method_table_terminator = ''{0, 0, 0, 0}''"

definition cpy_method_table_end :: "string" where
  "cpy_method_table_end = ''};''"

definition cpy_type_definition_array_declaration :: "string \<Rightarrow> string" where
  "cpy_type_definition_array_declaration type_cname =
     fmt ''static PyType_Slot %s_slots[] = {'' [type_cname]"

definition cpy_type_definition_array_terminator :: "string" where
  "cpy_type_definition_array_terminator = ''{0, 0},''"

definition cpy_type_specification_declaration :: "string \<Rightarrow> string" where
  "cpy_type_specification_declaration type_cname =
     fmt ''static PyType_Spec %s_spec = {'' [type_cname]"

subsection \<open>HPy argument trackers\<close>

definition cpy_argument_tracker_type_cname :: "RuntimeAPIBase \<Rightarrow> runtime_error + string" where
  "cpy_argument_tracker_type_cname self =
     Inl (RuntimeCapabilityError (rt_name self) (CapabilityEnum MODULE_DEFINITIONS)
       ''CPython bootstrap code does not use HPy argument trackers''
       ''select the HPy Universal backend for HPyFunc_KEYWORDS emission'' None)"

definition cpy_parse_keyword_arguments :: "RuntimeAPIBase \<Rightarrow> runtime_error + string" where
  "cpy_parse_keyword_arguments self =
     Inl (RuntimeCapabilityError (rt_name self) (CapabilityEnum MODULE_DEFINITIONS)
       ''CPython bootstrap keyword parsing has a different calling convention''
       ''use the existing CPython wrapper generator'' None)"

definition cpy_parse_keyword_dictionary :: "RuntimeAPIBase \<Rightarrow> runtime_error + string" where
  "cpy_parse_keyword_dictionary self =
     Inl (RuntimeCapabilityError (rt_name self) (CapabilityEnum TYPE_DEFINITIONS)
       ''CPython constructor parsing uses the existing wrapper generator''
       ''use the HPy Universal backend for HPy_tp_init emission'' None)"

definition cpy_close_argument_tracker :: "RuntimeAPIBase \<Rightarrow> runtime_error + string" where
  "cpy_close_argument_tracker self =
     Inl (RuntimeCapabilityError (rt_name self) (CapabilityEnum OBJECT_LIFETIME)
       ''CPython has no HPyTracker resource''
       ''use CPython reference cleanup'' None)"

subsection \<open>Operators\<close>

definition cpy_binary_functions :: "(RuntimeBinaryOperation, string) pydict" where
  "cpy_binary_functions =
     [(BOP_ADD, ''PyNumber_Add''), (BOP_SUBTRACT, ''PyNumber_Subtract''), (BOP_MULTIPLY, ''PyNumber_Multiply''),
      (BOP_MATRIX_MULTIPLY, ''PyNumber_MatrixMultiply''), (BOP_TRUE_DIVIDE, ''PyNumber_TrueDivide''),
      (BOP_FLOOR_DIVIDE, ''PyNumber_FloorDivide''), (BOP_REMAINDER, ''PyNumber_Remainder''),
      (BOP_LEFT_SHIFT, ''PyNumber_Lshift''), (BOP_RIGHT_SHIFT, ''PyNumber_Rshift''),
      (BOP_BITWISE_AND, ''PyNumber_And''), (BOP_BITWISE_XOR, ''PyNumber_Xor''), (BOP_BITWISE_OR, ''PyNumber_Or'')]"

definition cpy_binary_operation ::
  "RuntimeBinaryOperation \<Rightarrow> string \<Rightarrow> string \<Rightarrow> string \<Rightarrow> runtime_error + string" where
  "cpy_binary_operation operation left_cname right_cname context_cname =
     (if operation = BOP_POWER
      then Inr (fmt ''PyNumber_Power(%s, %s, Py_None)'' [left_cname, right_cname])
      else case dict_get cpy_binary_functions operation of
        None \<Rightarrow> Inl (RT_TypeError ''expected RuntimeBinaryOperation, got %r''
                        [binary_operation_value operation])
      | Some function \<Rightarrow> Inr (fmt ''%s(%s, %s)'' [function, left_cname, right_cname]))"

definition cpy_unary_functions :: "(RuntimeUnaryOperation, string) pydict" where
  "cpy_unary_functions =
     [(UOP_POSITIVE, ''PyNumber_Positive''), (UOP_NEGATIVE, ''PyNumber_Negative''),
      (UOP_INVERT, ''PyNumber_Invert'')]"

definition cpy_unary_operation ::
  "RuntimeUnaryOperation \<Rightarrow> string \<Rightarrow> string \<Rightarrow> runtime_error + string" where
  "cpy_unary_operation operation operand_cname context_cname =
     (case dict_get cpy_unary_functions operation of
        None \<Rightarrow> Inl (RT_TypeError ''expected RuntimeUnaryOperation, got %r''
                        [unary_operation_value operation])
      | Some function \<Rightarrow> Inr (fmt ''%s(%s)'' [function, operand_cname]))"

definition cpy_inplace_functions :: "(RuntimeInPlaceOperation, string) pydict" where
  "cpy_inplace_functions =
     [(IOP_ADD, ''PyNumber_InPlaceAdd''), (IOP_SUBTRACT, ''PyNumber_InPlaceSubtract''),
      (IOP_MULTIPLY, ''PyNumber_InPlaceMultiply''),
      (IOP_MATRIX_MULTIPLY, ''PyNumber_InPlaceMatrixMultiply''),
      (IOP_TRUE_DIVIDE, ''PyNumber_InPlaceTrueDivide''),
      (IOP_FLOOR_DIVIDE, ''PyNumber_InPlaceFloorDivide''),
      (IOP_REMAINDER, ''PyNumber_InPlaceRemainder''), (IOP_LEFT_SHIFT, ''PyNumber_InPlaceLshift''),
      (IOP_RIGHT_SHIFT, ''PyNumber_InPlaceRshift''), (IOP_BITWISE_AND, ''PyNumber_InPlaceAnd''),
      (IOP_BITWISE_XOR, ''PyNumber_InPlaceXor''), (IOP_BITWISE_OR, ''PyNumber_InPlaceOr'')]"

definition cpy_inplace_operation ::
  "RuntimeInPlaceOperation \<Rightarrow> string \<Rightarrow> string \<Rightarrow> string \<Rightarrow> runtime_error + string" where
  "cpy_inplace_operation operation left_cname right_cname context_cname =
     (if operation = IOP_POWER
      then Inr (fmt ''PyNumber_InPlacePower(%s, %s, Py_None)'' [left_cname, right_cname])
      else case dict_get cpy_inplace_functions operation of
        None \<Rightarrow> Inl (RT_TypeError ''expected RuntimeInPlaceOperation, got %r''
                        [inplace_operation_value operation])
      | Some function \<Rightarrow> Inr (fmt ''%s(%s, %s)'' [function, left_cname, right_cname]))"

definition cpy_compare_operators :: "(RuntimeComparisonOperation, string) pydict" where
  "cpy_compare_operators =
     [(CMP_LESS_THAN, ''Py_LT''), (CMP_LESS_EQUAL, ''Py_LE''), (CMP_EQUAL, ''Py_EQ''),
      (CMP_NOT_EQUAL, ''Py_NE''), (CMP_GREATER_THAN, ''Py_GT''),
      (CMP_GREATER_EQUAL, ''Py_GE'')]"

definition cpy_rich_compare ::
  "RuntimeComparisonOperation \<Rightarrow> string \<Rightarrow> string \<Rightarrow> string \<Rightarrow> runtime_error + string" where
  "cpy_rich_compare operation left_cname right_cname context_cname =
     (case dict_get cpy_compare_operators operation of
        None \<Rightarrow> Inl (RT_TypeError ''expected RuntimeComparisonOperation, got %r''
                        [comparison_operation_value operation])
      | Some operator \<Rightarrow>
          Inr (fmt ''PyObject_RichCompare(%s, %s, %s)'' [left_cname, right_cname, operator]))"

subsection \<open>References and calls\<close>

definition cpy_error_occurred :: "bool \<Rightarrow> string" where
  "cpy_error_occurred use_utility_code =
     (if use_utility_code then ''__Pyx_PyErr_Occurred()'' else ''PyErr_Occurred()'')"

definition cpy_duplicate_reference :: "string \<Rightarrow> bool \<Rightarrow> string \<Rightarrow> string" where
  "cpy_duplicate_reference cname null_safe context_cname =
     (let operation = (if null_safe then ''Py_XINCREF'' else ''Py_INCREF'')
      in fmt ''%s(%s);'' [operation, cname])"

definition cpy_close_reference :: "string \<Rightarrow> bool \<Rightarrow> string \<Rightarrow> string" where
  "cpy_close_reference cname null_safe context_cname =
     (let operation = (if null_safe then ''Py_XDECREF'' else ''Py_DECREF'')
      in fmt ''%s(%s);'' [operation, cname])"

definition cpy_call_tuple_dict ::
  "string \<Rightarrow> string \<Rightarrow> string \<Rightarrow> bool \<Rightarrow> string \<Rightarrow> string" where
  "cpy_call_tuple_dict callable_cname args_cname kwargs_cname use_utility_code context_cname =
     (let function = (if use_utility_code then ''__Pyx_PyObject_Call'' else ''PyObject_Call'')
      in fmt ''%s(%s, %s, %s)'' [function, callable_cname, args_cname, kwargs_cname])"

definition cpy_call_method_array :: "RuntimeAPIBase \<Rightarrow> runtime_error + string" where
  "cpy_call_method_array self =
     Inl (RuntimeCapabilityError (rt_name self) (CapabilityText ''call_method_array'')
       ''CPython uses dedicated method call helpers rather than HPy_CallMethod argument-array layout''
       ''keep method-call optimization on the CPython vectorcall helpers'' None)"

definition cpy_array_calls :: "(bool \<times> RuntimeCallKeywordLayout, string \<times> string) pydict" where
  "cpy_array_calls =
     [((True, KWL_KEYWORD_NAMES),
         (''PyObjectVectorcallMethodKwds'', ''__Pyx_Object_VectorcallMethodKwds'')),
      ((True, KWL_NONE), (''PyObjectFastCallMethod'', ''__Pyx_PyObject_FastCallMethod'')),
      ((False, KWL_KEYWORD_NAMES), (''PyObjectVectorcallKwds'', ''__Pyx_Object_VectorcallKwds'')),
      ((False, KWL_KEYWORD_DICT), (''PyObjectFastCall'', ''__Pyx_PyObject_FastCallDict'')),
      ((False, KWL_NONE), (''PyObjectFastCall'', ''__Pyx_PyObject_FastCall''))]"

definition cpy_select_array_call ::
  "bool \<Rightarrow> RuntimeCallKeywordLayout \<Rightarrow> runtime_error + RuntimeArrayCall" where
  "cpy_select_array_call includes_receiver keyword_layout =
     (case dict_get cpy_array_calls (includes_receiver, keyword_layout) of
        None \<Rightarrow> Inl (RT_ValueError
          ''unsupported CPython array-call layout: receiver=%r, keywords=%s''
          [if includes_receiver then ''True'' else ''False'', keyword_layout_value keyword_layout])
      | Some (utility_code_name, function_cname) \<Rightarrow>
          Inr \<lparr>call_utility_code_name = utility_code_name, call_function_cname = function_cname,
               call_keyword_layout = keyword_layout, call_includes_receiver = includes_receiver\<rparr>)"

definition cpy_call_array ::
  "RuntimeArrayCall \<Rightarrow> string \<Rightarrow> string \<Rightarrow> string \<Rightarrow> string \<Rightarrow> runtime_error + string" where
  "cpy_call_array call callable_cname args_cname nargs_cname keyword_cname =
     (let expects_keywords = (call_keyword_layout call \<noteq> KWL_NONE) in
      if (keyword_cname \<noteq> []) \<noteq> expects_keywords
      then Inl (RT_ValueError ''array-call keyword operand does not match layout %s''
        [keyword_layout_value (call_keyword_layout call)])
      else
        let operands = [callable_cname, args_cname, nargs_cname]
              @ (if keyword_cname \<noteq> [] then [keyword_cname] else [])
        in Inr (fmt ''%s(%s)'' [call_function_cname call, py_join '', '' operands]))"

subsection \<open>Sequences\<close>

definition cpy_sequence_builder :: "RuntimeSequenceKind \<Rightarrow> RuntimeSequenceBuilder" where
  "cpy_sequence_builder k =
     \<lparr>builder_kind = k, builder_type_cname = ''PyObject *'', result_type_cname = ''PyObject *'',
      uses_separate_builder = False, set_item_steals_reference = True,
      creation_reports_error = True, supports_from_array = True\<rparr>"

definition cpy_validate_sequence_builder ::
  "RuntimeSequenceBuilder \<Rightarrow> runtime_error + unit" where
  "cpy_validate_sequence_builder builder =
     (if builder \<noteq> cpy_sequence_builder (builder_kind builder)
      then Inl (RT_ValueError ''sequence builder belongs to a different runtime contract'' [])
      else Inr ())"

definition cpy_sequence_builder_new ::
  "RuntimeSequenceBuilder \<Rightarrow> string \<Rightarrow> string \<Rightarrow> runtime_error + string" where
  "cpy_sequence_builder_new builder size_cname context_cname =
     (case cpy_validate_sequence_builder builder of Inl e \<Rightarrow> Inl e
      | Inr _ \<Rightarrow>
          let function = (if builder_kind builder = SEQ_LIST then ''PyList_New'' else ''PyTuple_New'')
          in Inr (fmt ''%s(%s)'' [function, size_cname]))"

definition cpy_sequence_builder_set ::
  "RuntimeSequenceBuilder \<Rightarrow> string \<Rightarrow> string \<Rightarrow> string \<Rightarrow> string \<Rightarrow> runtime_error + string" where
  "cpy_sequence_builder_set builder builder_cname index_cname item_cname context_cname =
     (case cpy_validate_sequence_builder builder of Inl e \<Rightarrow> Inl e
      | Inr _ \<Rightarrow>
          let function = (if builder_kind builder = SEQ_LIST then ''__Pyx_PyList_SET_ITEM''
                          else ''__Pyx_PyTuple_SET_ITEM'')
          in Inr (fmt ''%s(%s, %s, %s)'' [function, builder_cname, index_cname, item_cname]))"

definition cpy_sequence_builder_build ::
  "RuntimeSequenceBuilder \<Rightarrow> string \<Rightarrow> string \<Rightarrow> runtime_error + string" where
  "cpy_sequence_builder_build builder builder_cname context_cname =
     (case cpy_validate_sequence_builder builder of Inl e \<Rightarrow> Inl e
      | Inr _ \<Rightarrow> Inr builder_cname)"

definition cpy_sequence_builder_cancel ::
  "RuntimeSequenceBuilder \<Rightarrow> string \<Rightarrow> string \<Rightarrow> runtime_error + string" where
  "cpy_sequence_builder_cancel builder builder_cname context_cname =
     (case cpy_validate_sequence_builder builder of Inl e \<Rightarrow> Inl e
      | Inr _ \<Rightarrow> Inr (cpy_close_reference builder_cname False []))"

definition cpy_select_sequence_from_array ::
  "RuntimeSequenceKind \<Rightarrow> RuntimeSequenceFromArray" where
  "cpy_select_sequence_from_array k =
     (let kind_name = (if k = SEQ_LIST then ''List'' else ''Tuple'')
      in \<lparr>array_kind = k, array_function_cname = fmt ''__Pyx_Py%s_FromArray'' [kind_name],
          array_utility_code_name = fmt ''%sFromArray'' [kind_name],
          array_utility_code_file = ''ObjectHandling.c''\<rparr>)"

definition cpy_sequence_from_array ::
  "RuntimeSequenceFromArray \<Rightarrow> string \<Rightarrow> string \<Rightarrow> string \<Rightarrow> runtime_error + string" where
  "cpy_sequence_from_array operation items_cname size_cname context_cname =
     (if operation \<noteq> cpy_select_sequence_from_array (array_kind operation)
      then Inl (RT_ValueError ''array constructor belongs to a different runtime contract'' [])
      else Inr (fmt ''%s(%s, %s)'' [array_function_cname operation, items_cname, size_cname]))"

definition cpy_sequence_pack ::
  "RuntimeAPIBase \<Rightarrow> RuntimeSequenceKind \<Rightarrow> string list \<Rightarrow> string \<Rightarrow> runtime_error + string" where
  "cpy_sequence_pack self k item_cnames context_cname =
     (if k \<noteq> SEQ_TUPLE
      then Inl (RuntimeCapabilityError (rt_name self) (CapabilityEnum CONTAINER_BUILDERS)
        ''CPython exposes PyTuple_Pack but no PyList_Pack operation''
        ''construct the list through its fixed-size builder'' None)
      else
        let operands = [py_str_nat (length item_cnames)] @ item_cnames
        in Inr (fmt ''PyTuple_Pack(%s)'' [py_join '', '' operands]))"

definition cpy_dict_new :: "string \<Rightarrow> string \<Rightarrow> string" where
  "cpy_dict_new presized_size_cname context_cname =
     (if presized_size_cname \<noteq> [] then fmt ''__Pyx_PyDict_NewPresized(%s)'' [presized_size_cname]
      else ''PyDict_New()'')"

subsection \<open>Exceptions\<close>

definition cpy_error_format :: "string \<Rightarrow> string \<Rightarrow> string list \<Rightarrow> string \<Rightarrow> string" where
  "cpy_error_format exception_cname format_cname arg_cnames context_cname =
     fmt ''PyErr_Format(%s)'' [py_join '', '' ([exception_cname, format_cname] @ arg_cnames)]"

definition cpy_current_exception_type :: "bool \<Rightarrow> string \<Rightarrow> runtime_error + string" where
  "cpy_current_exception_type use_utility_code context_cname =
     (if \<not> use_utility_code
      then Inl (RT_ValueError ''current exception type requires utility code'' [])
      else Inr ''__Pyx_PyErr_CurrentExceptionType()'')"

definition cpy_exception_matches ::
  "string \<Rightarrow> string \<Rightarrow> string \<Rightarrow> bool \<Rightarrow> string \<Rightarrow> runtime_error + string" where
  "cpy_exception_matches pattern_cname exception_cname second_pattern_cname use_utility_code
     context_cname =
     (let (function, operands) =
            (if exception_cname \<noteq> []
             then (''__Pyx_PyErr_GivenExceptionMatches'', [exception_cname, pattern_cname])
             else (if use_utility_code then ''__Pyx_PyErr_ExceptionMatches''
                   else ''PyErr_ExceptionMatches'', [pattern_cname]))
      in if second_pattern_cname \<noteq> [] then
           if \<not> use_utility_code
           then Inl (RT_ValueError ''two-pattern exception matching requires utility code'' [])
           else Inr (fmt ''%s(%s)''
             [function @ ''2'', py_join '', '' (operands @ [second_pattern_cname])])
         else Inr (fmt ''%s(%s)'' [function, py_join '', '' operands]))"

definition cpy_get_exception :: "string list \<Rightarrow> string" where
  "cpy_get_exception arg_cnames = fmt ''__Pyx_GetException(%s)'' [py_join '', '' arg_cnames]"

definition cpy_save_exception :: "string list \<Rightarrow> string" where
  "cpy_save_exception arg_cnames = fmt ''__Pyx_ExceptionSave(%s)'' [py_join '', '' arg_cnames]"

definition cpy_reset_exception :: "string list \<Rightarrow> string" where
  "cpy_reset_exception arg_cnames = fmt ''__Pyx_ExceptionReset(%s)'' [py_join '', '' arg_cnames]"

definition cpy_swap_exception :: "string list \<Rightarrow> string" where
  "cpy_swap_exception arg_ptr_cnames =
     fmt ''__Pyx_ExceptionSwap(%s)'' [py_join '', '' arg_ptr_cnames]"

subsection \<open>Names, modules, methods and types\<close>

definition cpy_name_lookup ::
  "RuntimeNameLookup \<Rightarrow> string \<Rightarrow> string \<Rightarrow> string \<Rightarrow> string \<Rightarrow> runtime_error + string" where
  "cpy_name_lookup lookup result_cname name_cname namespace_cname context_cname =
     (case lookup_kind lookup of
        LOOKUP_MODULE_GLOBAL \<Rightarrow>
          if namespace_cname \<noteq> [] \<or> namespace_is_type lookup
          then Inl (RT_ValueError ''module-global lookup does not accept a namespace'' [])
          else Inr (fmt ''__Pyx_GetModuleGlobalName(%s, %s)'' [result_cname, name_cname])
      | LOOKUP_BUILTIN \<Rightarrow>
          if namespace_cname \<noteq> [] \<or> namespace_is_type lookup
          then Inl (RT_ValueError ''builtin lookup does not accept a namespace'' [])
          else Inr (fmt ''%s = __Pyx_GetBuiltinName(%s)'' [result_cname, name_cname])
      | LOOKUP_CLASS_NAMESPACE \<Rightarrow>
          if namespace_cname = []
          then Inl (RT_ValueError ''class-namespace lookup requires a namespace'' [])
          else
            let namespace = (if namespace_is_type lookup
                             then fmt ''(PyObject*)%s'' [namespace_cname] else namespace_cname)
            in Inr (fmt ''__Pyx_GetNameInClass(%s, %s, %s)''
                 [result_cname, namespace, name_cname]))"

definition cpy_global_load :: "string \<Rightarrow> string \<Rightarrow> string" where
  "cpy_global_load storage_cname context_cname = storage_cname"

definition cpy_module_slot_definition ::
  "string \<Rightarrow> string \<Rightarrow> string \<Rightarrow> runtime_error + string" where
  "cpy_module_slot_definition slot_name impl_cname pointer_cast =
     (if slot_name = [] \<or> impl_cname = []
      then Inl (RT_ValueError ''module slot name and implementation are required'' [])
      else Inr (fmt ''{Py_%s, %s%s},'' [slot_name, pointer_cast, impl_cname]))"

definition cpy_module_definition_forward_declaration ::
  "string \<Rightarrow> string \<Rightarrow> runtime_error + string" where
  "cpy_module_definition_forward_declaration def_cname linkage =
     (if linkage \<notin> set [''extern'', ''static'']
      then Inl (RT_ValueError ''module definition linkage must be extern or static'' [])
      else Inr (fmt ''%s %s %s;''
        [linkage, definition_type_cname cpy_module_definition, def_cname]))"

definition cpy_module_definition_declaration ::
  "string \<Rightarrow> string \<Rightarrow> runtime_error + string" where
  "cpy_module_definition_declaration def_cname linkage =
     (if linkage \<notin> set [[], ''static'']
      then Inl (RT_ValueError ''module definition linkage must be empty or static'' [])
      else
        let prefix = (if linkage \<noteq> [] then fmt ''%s '' [linkage] else [])
        in Inr (fmt ''%s%s %s =''
             [prefix, definition_type_cname cpy_module_definition, def_cname]))"

definition cpy_method_definition_declaration :: "RuntimeMethodDefinition \<Rightarrow> string" where
  "cpy_method_definition_declaration meth = []"

definition cpy_method_implementation_declaration ::
  "RuntimeMethodDefinition \<Rightarrow> string \<Rightarrow> string \<Rightarrow> string \<Rightarrow> runtime_error + string" where
  "cpy_method_implementation_declaration meth context_cname receiver_cname argument_cname =
     (case signature meth of
        SIG_NOARGS \<Rightarrow>
          Inr (fmt ''static PyObject *%s(PyObject *%s, PyObject *unused)''
            [implementation_cname meth, receiver_cname])
      | SIG_ONEARG \<Rightarrow>
          Inr (fmt ''static PyObject *%s(PyObject *%s, PyObject *%s)''
            [implementation_cname meth, receiver_cname, argument_cname])
      | SIG_POSITIONAL_VARARGS \<Rightarrow>
          Inr (fmt ''static PyObject *%s(PyObject *%s, PyObject *args)''
            [implementation_cname meth, receiver_cname])
      | _ \<Rightarrow>
          Inl (RT_ValueError ''bootstrap method declaration requires a supported signature'' []))"

fun cpy_method_flags :: "RuntimeMethodSignature \<Rightarrow> string list" where
  "cpy_method_flags SIG_NOARGS = [''METH_NOARGS'']"
| "cpy_method_flags SIG_ONEARG = [''METH_O'']"
| "cpy_method_flags SIG_POSITIONAL_VARARGS = [''METH_VARARGS'']"
| "cpy_method_flags SIG_VARARGS_KEYWORDS = [''METH_VARARGS'', ''METH_KEYWORDS'']"
| "cpy_method_flags SIG_FASTCALL_KEYWORDS = [''__Pyx_METH_FASTCALL'', ''METH_KEYWORDS'']"

fun cpy_method_cast :: "RuntimeMethodSignature \<Rightarrow> string" where
  "cpy_method_cast SIG_NOARGS = ''PyCFunction''"
| "cpy_method_cast SIG_ONEARG = ''PyCFunction''"
| "cpy_method_cast SIG_POSITIONAL_VARARGS = ''PyCFunction''"
| "cpy_method_cast SIG_VARARGS_KEYWORDS = ''PyCFunctionWithKeywords''"
| "cpy_method_cast SIG_FASTCALL_KEYWORDS = ''__Pyx_PyCFunction_FastCallWithKeywords''"

definition cpy_method_table_entry :: "RuntimeMethodDefinition \<Rightarrow> string \<Rightarrow> string" where
  "cpy_method_table_entry meth terminator =
     (let flags = cpy_method_flags (signature meth)
            @ (if coexists_with_slot meth then [''METH_COEXIST''] else []);
          cast = cpy_method_cast (signature meth);
          function = (if cast \<noteq> ''PyCFunction''
                      then fmt ''(void(*)(void))(%s)%s'' [cast, implementation_cname meth]
                      else implementation_cname meth)
      in fmt ''{%s, (PyCFunction)%s, %s, %s}%s''
           [python_name_cname meth, function, py_join ''|'' flags, doc_cname meth, terminator])"

definition cpy_type_slot_definition ::
  "string \<Rightarrow> string \<Rightarrow> string \<Rightarrow> runtime_error + string" where
  "cpy_type_slot_definition slot_name def_cname impl_cname =
     (if slot_name = [] \<or> def_cname = [] \<or> impl_cname = []
      then Inl (RT_ValueError ''type slot names and implementation are required'' [])
      else Inr [])"

definition cpy_type_slot_table_entry ::
  "string \<Rightarrow> string \<Rightarrow> string \<Rightarrow> string \<Rightarrow> runtime_error + string" where
  "cpy_type_slot_table_entry slot_name def_cname impl_cname pointer_cast =
     (if slot_name = [] \<or> def_cname = [] \<or> impl_cname = []
      then Inl (RT_ValueError ''type slot names and implementation are required'' [])
      else Inr (fmt ''{Py_%s, %s%s},'' [slot_name, pointer_cast, impl_cname]))"

definition cpy_type_from_spec ::
  "RuntimeAPIBase \<Rightarrow> string \<Rightarrow> string \<Rightarrow> string \<Rightarrow> runtime_error + string" where
  "cpy_type_from_spec self spec_cname params_cname context_cname =
     (if params_cname \<noteq> ''NULL''
      then Inl (RuntimeCapabilityError (rt_name self) (CapabilityEnum TYPE_DEFINITIONS)
        ''PyType_FromSpec does not accept HPy-style spec parameters''
        ''use PyType_FromSpecWithBases for CPython base parameters'' None)
      else Inr (fmt ''PyType_FromSpec(&%s)'' [spec_cname]))"

end
