(* ===== verification/RuntimeBackends.thy ===== *)
theory RuntimeBackends
  imports RuntimeCPython
begin

text \<open>
  The end of \<open>Cython/Compiler/RuntimeAPI.py\<close>: the backends, the check of a backend name and
  the creation of a backend; and what the two families of texts have in common. A C call is read
  back from its text by \<open>parse_c_call\<close>, which is how the properties say that an emitted
  expression calls a function of HPy with the context as its first argument.
\<close>

subsection \<open>Backends\<close>

definition HPY_UNIVERSAL_BACKEND :: string where "HPY_UNIVERSAL_BACKEND = ''hpy-universal''"
definition HPY_CPYTHON_BACKEND :: string where "HPY_CPYTHON_BACKEND = ''hpy-cpython''"
definition HPY_HYBRID_BACKEND :: string where "HPY_HYBRID_BACKEND = ''hpy-hybrid''"

definition ACCEPTED_RUNTIME_BACKENDS :: "string list" where
  "ACCEPTED_RUNTIME_BACKENDS = [CPYTHON_BACKEND, HPY_UNIVERSAL_BACKEND, HPY_CPYTHON_BACKEND]"

definition RESERVED_RUNTIME_BACKENDS :: "string list" where
  "RESERVED_RUNTIME_BACKENDS = [HPY_HYBRID_BACKEND]"

text \<open>An instance of one of the three concrete classes.\<close>

datatype RuntimeAPI =
  CPythonRuntimeAPI RuntimeAPIBase
| HPyUniversalRuntimeAPI RuntimeAPIBase
| HPyCPythonRuntimeAPI RuntimeAPIBase

fun api_base :: "RuntimeAPI \<Rightarrow> RuntimeAPIBase" where
  "api_base (CPythonRuntimeAPI b) = b"
| "api_base (HPyUniversalRuntimeAPI b) = b"
| "api_base (HPyCPythonRuntimeAPI b) = b"

definition hpy_universal_api :: RuntimeAPIBase where
  "hpy_universal_api =
     \<lparr>rt_name = HPY_UNIVERSAL_BACKEND, rt_capabilities = [], unavailable_reason = [],
      unavailable_guidance = []\<rparr>"

definition hpy_cpython_api :: RuntimeAPIBase where
  "hpy_cpython_api =
     \<lparr>rt_name = HPY_CPYTHON_BACKEND, rt_capabilities = [],
      unavailable_reason = ''the test-only HPy CPython ABI lane is not implemented yet'',
      unavailable_guidance = ''use 'cpython' or wait for the HPy conformance test lane''\<rparr>"

fun api_code_generation_kind :: "RuntimeAPI \<Rightarrow> RuntimeCodeGenerationKind" where
  "api_code_generation_kind (CPythonRuntimeAPI b) = CGK_CPYTHON"
| "api_code_generation_kind (HPyUniversalRuntimeAPI b) = CGK_HPY_UNIVERSAL_BOOTSTRAP"
| "api_code_generation_kind (HPyCPythonRuntimeAPI b) = CGK_CPYTHON"

fun api_uses_handle_ownership :: "RuntimeAPI \<Rightarrow> bool" where
  "api_uses_handle_ownership (CPythonRuntimeAPI b) = False"
| "api_uses_handle_ownership (HPyUniversalRuntimeAPI b) = hpy_uses_handle_ownership"
| "api_uses_handle_ownership (HPyCPythonRuntimeAPI b) = hpy_uses_handle_ownership"

fun api_context_contract :: "RuntimeAPI \<Rightarrow> RuntimeContextContract" where
  "api_context_contract (CPythonRuntimeAPI b) = cpy_context_contract"
| "api_context_contract (HPyUniversalRuntimeAPI b) = hpy_context_contract"
| "api_context_contract (HPyCPythonRuntimeAPI b) = hpy_context_contract"

text \<open>A \<open>RuntimeModuleEmitter\<close>: the backend and the name of the callback.\<close>

record RuntimeModuleEmitter =
  emitter_backend :: string
  emitter_emit :: string

definition module_emitter_post_init ::
  "RuntimeModuleEmitter \<Rightarrow> runtime_error + RuntimeModuleEmitter" where
  "module_emitter_post_init emitter =
     (if emitter_backend emitter = []
      then Inl (RT_ValueError ''runtime module emitter backend must be non-empty'' [])
      else Inr emitter)"

fun api_module_emitter :: "RuntimeAPI \<Rightarrow> runtime_error + RuntimeModuleEmitter option" where
  "api_module_emitter (HPyUniversalRuntimeAPI b) =
     (case module_emitter_post_init
             \<lparr>emitter_backend = rt_name b, emitter_emit = ''emit_hpy_universal_module''\<rparr> of
        Inl e \<Rightarrow> Inl e | Inr emitter \<Rightarrow> Inr (Some emitter))"
| "api_module_emitter (CPythonRuntimeAPI b) = Inr None"
| "api_module_emitter (HPyCPythonRuntimeAPI b) = Inr None"

definition validate_runtime_backend_name :: "string \<Rightarrow> runtime_error + string" where
  "validate_runtime_backend_name name =
     (if name \<in> set ACCEPTED_RUNTIME_BACKENDS then Inr name
      else if name \<in> set RESERVED_RUNTIME_BACKENDS
      then Inl (RT_BackendOptionError ''runtime backend %r is reserved but not enabled'' [name])
      else Inl (RT_BackendOptionError ''unknown runtime backend %r; expected one of: %s''
        [name, py_join '', '' ACCEPTED_RUNTIME_BACKENDS]))"

definition runtime_implementations :: "(string, RuntimeAPI) pydict" where
  "runtime_implementations =
     [(CPYTHON_BACKEND, CPythonRuntimeAPI cpy_api),
      (HPY_UNIVERSAL_BACKEND, HPyUniversalRuntimeAPI hpy_universal_api),
      (HPY_CPYTHON_BACKEND, HPyCPythonRuntimeAPI hpy_cpython_api)]"

text \<open>\<open>implementations[name]()\<close>; the \<open>KeyError\<close> is a runtime error of the model.\<close>

definition create_runtime_api :: "string \<Rightarrow> runtime_error + RuntimeAPI" where
  "create_runtime_api name =
     (case validate_runtime_backend_name name of
        Inl e \<Rightarrow> Inl e
      | Inr name \<Rightarrow>
          (case dict_get runtime_implementations name of
             None \<Rightarrow> Inl (RT_RuntimeError ''KeyError: %r'' [name])
           | Some api \<Rightarrow> Inr api))"

subsection \<open>Reading a C call back\<close>

definition c_call :: "string \<Rightarrow> string list \<Rightarrow> string" where
  "c_call f args = f @ ''('' @ py_join '', '' args @ '')''"

text \<open>An operand has matched parentheses and no comma outside them.\<close>

fun operand_depth :: "nat \<Rightarrow> string \<Rightarrow> nat option" where
  "operand_depth d [] = Some d"
| "operand_depth d (c # cs) =
     (if c = CHR ''('' then operand_depth (Suc d) cs
      else if c = CHR '')'' then (if d = 0 then None else operand_depth (d - 1) cs)
      else if c = CHR '','' \<and> d = 0 then None
      else operand_depth d cs)"

definition c_operand :: "string \<Rightarrow> bool" where
  "c_operand s \<longleftrightarrow> operand_depth 0 s = Some 0"

fun split_args :: "nat \<Rightarrow> string \<Rightarrow> string \<Rightarrow> string list option" where
  "split_args d acc [] = None"
| "split_args d acc (c # cs) =
     (if c = CHR ''('' then split_args (Suc d) (c # acc) cs
      else if c = CHR '')'' then
        (if d = 0 then (if cs = [] then Some [rev acc] else None)
         else split_args (d - 1) (c # acc) cs)
      else if c = CHR '','' \<and> d = 0 then
        (case split_args 0 [] (drop 1 cs) of None \<Rightarrow> None | Some args \<Rightarrow> Some (rev acc # args))
      else split_args d (c # acc) cs)"

definition parse_c_call :: "string \<Rightarrow> (string \<times> string list) option" where
  "parse_c_call s =
     (case split_args 0 [] (drop 1 (dropWhile (\<lambda>c. c \<noteq> CHR ''('') s)) of
        None \<Rightarrow> None
      | Some args \<Rightarrow> Some (takeWhile (\<lambda>c. c \<noteq> CHR ''('') s, args))"

lemma split_args_operand:
  "operand_depth d s = Some d' \<Longrightarrow> split_args d acc (s @ rest) = split_args d' (rev s @ acc) rest"
proof (induction d s arbitrary: acc rule: operand_depth.induct)
  case (1 d)
  then show ?case by simp
next
  case (2 d c cs)
  then show ?case by (auto split: if_splits)
qed

lemma split_args_join:
  "args \<noteq> [] \<Longrightarrow> list_all c_operand args \<Longrightarrow> split_args 0 [] (py_join '', '' args @ '')'') = Some args"
proof (induction "'', ''" args rule: py_join.induct)
  case (2 x)
  then show ?case by (simp add: c_operand_def split_args_operand)
next
  case (3 x y xs)
  have "split_args 0 [] (x @ '', '' @ py_join '', '' (y # xs) @ '')'')
      = split_args 0 (rev x) ('', '' @ py_join '', '' (y # xs) @ '')'')"
    using 3(3) by (simp add: c_operand_def split_args_operand)
  with 3 show ?case by simp
qed simp

lemma parse_c_call_call:
  assumes "CHR ''('' \<notin> set f" and "args \<noteq> []" and "list_all c_operand args"
  shows "parse_c_call (c_call f args) = Some (f, args)"
proof -
  have "takeWhile (\<lambda>c. c \<noteq> CHR ''('') (c_call f args) = f"
    "dropWhile (\<lambda>c. c \<noteq> CHR ''('') (c_call f args) = ''('' @ py_join '', '' args @ '')''"
    using assms(1) by (auto simp: c_call_def takeWhile_append2 dropWhile_append2
        intro!: trans [OF takeWhile_append2] trans [OF dropWhile_append2])
  then show ?thesis using split_args_join [OF assms(2,3)] by (simp add: parse_c_call_def)
qed

lemma operand_depth_append:
  "operand_depth d (s @ t) = (case operand_depth d s of None \<Rightarrow> None | Some d' \<Rightarrow> operand_depth d' t)"
  by (induction d s rule: operand_depth.induct) auto

end
