(* ===== verification/RuntimeCalls.thy ===== *)
theory RuntimeCalls
  imports RuntimeBackends
begin

text \<open>
  What the emitted texts promise. The two backends are two independently written sets of methods
  with one interface; the properties say that the operations which both express as a C call emit
  corresponding calls of the same operands, that only HPy is given the context and refuses an
  empty one, and what the variadic calls of HPy pass.
\<close>

lemma with_context_nonempty [simp]: "ctx \<noteq> [] \<Longrightarrow> with_context ctx k = k ctx"
  by (simp add: with_context_def hpy_require_context_def require_cname_def)

lemma with_context_empty [simp]:
  "with_context [] k =
     Inl (RT_ValueError ''%s runtime operation requires a context cname'' [''call-scoped-hpy''])"
  by (simp add: with_context_def hpy_require_context_def require_cname_def
      hpy_context_contract_def)

abbreviation addr_of :: "string \<Rightarrow> string" where "addr_of s \<equiv> CHR ''&'' # s"

lemma c_operand_addr [simp]: "c_operand (addr_of s) = c_operand s"
  by (simp add: c_operand_def)

lemma digits_operand: "\<forall>c \<in> set s. of_char c \<in> {48..57 :: nat} \<Longrightarrow> operand_depth d s = Some d"
  by (induction s) auto

lemma py_str_nat_operand [simp]: "c_operand (py_str_nat n)"
  unfolding c_operand_def using py_str_nat_digits by (intro digits_operand) blast

subsection \<open>Corresponding functions of the two interfaces\<close>

text \<open>
  The HPy function for a function of CPython. The name changes by rule: the prefixes \<open>PyObject_\<close>,
  \<open>PyNumber_\<close> and \<open>PySequence_\<close> become \<open>HPy_\<close>, any other \<open>Py\<close> becomes \<open>HPy\<close>, and the suffix
  \<open>AttrString\<close> becomes \<open>Attr_s\<close>. HPy has its own names for the thread state, for indexing by a C
  integer, for storing into a dictionary, for the calls by tuple and by array and for filling a
  sequence.
\<close>

definition hpy_own_names :: "(string, string) pydict" where
  "hpy_own_names =
     [(''PyEval_SaveThread'', ''HPy_LeavePythonExecution''),
      (''PyEval_RestoreThread'', ''HPy_ReenterPythonExecution''),
      (''PySequence_GetItem'', ''HPy_GetItem_i''),
      (''PyDict_SetItem'', ''HPy_SetItem''), (''PyDict_SetItemString'', ''HPy_SetItem_s''),
      (''PyObject_Call'', ''HPy_CallTupleDict''), (''__Pyx_PyObject_Call'', ''HPy_CallTupleDict''),
      (''__Pyx_Object_VectorcallKwds'', ''HPy_Call''),
      (''PyList_New'', ''HPyListBuilder_New''), (''PyTuple_New'', ''HPyTupleBuilder_New''),
      (''__Pyx_PyList_SET_ITEM'', ''HPyListBuilder_Set''),
      (''__Pyx_PyTuple_SET_ITEM'', ''HPyTupleBuilder_Set''),
      (''__Pyx_PyTuple_FromArray'', ''HPyTuple_FromArray'')]"

definition short_attr_name :: "string \<Rightarrow> string" where
  "short_attr_name n =
     (if length n \<ge> 10 \<and> drop (length n - 10) n = ''AttrString''
      then take (length n - 10) n @ ''Attr_s'' else n)"

definition hpy_counterpart :: "string \<Rightarrow> string" where
  "hpy_counterpart g =
     (case dict_get hpy_own_names g of
        Some f \<Rightarrow> f
      | None \<Rightarrow>
          if take 9 g \<in> {''PyObject_'', ''PyNumber_''} then ''HPy_'' @ short_attr_name (drop 9 g)
          else if take 11 g = ''PySequence_'' then ''HPy_'' @ drop 11 g
          else CHR ''H'' # g)"

subsection \<open>Operations that both backends express as a call\<close>

text \<open>Each method of the HPy backend beside the method of the same name of the CPython backend, as
  functions of the context.\<close>

type_synonym emitter = "string \<Rightarrow> runtime_error + string"

definition returning :: "(string \<Rightarrow> string) \<Rightarrow> emitter" where
  "returning f ctx = Inr (f ctx)"

definition shared_value_operations ::
  "RuntimeUnaryOperation \<Rightarrow> string \<Rightarrow> string \<Rightarrow> string \<Rightarrow> string \<Rightarrow> (emitter \<times> emitter) list" where
  "shared_value_operations u a b c d =
     [(hpy_leave_python_execution, returning cpy_leave_python_execution),
      (hpy_reenter_python_execution a, returning (cpy_reenter_python_execution a)),
      (hpy_signed_integer_from_cvalue a, returning (cpy_signed_integer_from_cvalue a)),
      (hpy_ssize_integer_from_cvalue a, returning (cpy_ssize_integer_from_cvalue a)),
      (hpy_unsigned_integer_from_cvalue a, returning (cpy_unsigned_integer_from_cvalue a)),
      (hpy_floating_from_cvalue a, returning (cpy_floating_from_cvalue a)),
      (hpy_signed_long_from_python a, returning (cpy_signed_long_from_python a)),
      (hpy_ssize_t_from_python a, returning (cpy_ssize_t_from_python a)),
      (hpy_signed_long_long_from_python a, returning (cpy_signed_long_long_from_python a)),
      (hpy_unsigned_long_from_python a, returning (cpy_unsigned_long_from_python a)),
      (hpy_unsigned_long_long_from_python a, returning (cpy_unsigned_long_long_from_python a)),
      (hpy_double_from_python a, returning (cpy_double_from_python a)),
      (hpy_object_type a, returning (cpy_object_type a)),
      (hpy_object_hash a, returning (cpy_object_hash a)),
      (hpy_unicode_from_utf8 a, returning (cpy_unicode_from_utf8 a)),
      (hpy_unicode_from_encoded_object a b c, returning (cpy_unicode_from_encoded_object a b c)),
      (hpy_unicode_as_utf8_and_size a b, returning (cpy_unicode_as_utf8_and_size a b)),
      (hpy_bytes_from_data a b, returning (cpy_bytes_from_data a b)),
      (hpy_object_str a, returning (cpy_object_str a)),
      (hpy_object_repr a, returning (cpy_object_repr a)),
      (hpy_object_ascii a, returning (cpy_object_ascii a)),
      (hpy_truth_test a, returning (cpy_truth_test a)),
      (hpy_unary_operation u a, cpy_unary_operation u a)]"

definition shared_container_operations ::
  "RuntimeSequenceKind \<Rightarrow> string list \<Rightarrow> string \<Rightarrow> string \<Rightarrow> string \<Rightarrow> string
     \<Rightarrow> (emitter \<times> emitter) list" where
  "shared_container_operations k items a b c d =
     [(hpy_length a, returning (cpy_length a)),
      (hpy_contains a b, returning (cpy_contains a b)),
      (hpy_item_get_index a b, returning (cpy_item_get_index a b)),
      (hpy_item_get a b, returning (cpy_item_get a b)),
      (hpy_item_set a b c, returning (cpy_item_set a b c)),
      (hpy_item_delete a b, returning (cpy_item_delete a b)),
      (hpy_attribute_get_string a b, returning (cpy_attribute_get_string a b)),
      (hpy_attribute_has_string a b, returning (cpy_attribute_has_string a b)),
      (hpy_attribute_set_string a b c, returning (cpy_attribute_set_string a b c)),
      (hpy_attribute_delete_string a b, returning (cpy_attribute_delete_string a b)),
      (hpy_dict_set_item a b c, returning (cpy_dict_set_item a b c)),
      (hpy_dict_set_item_string a b c, returning (cpy_dict_set_item_string a b c)),
      (hpy_dict_copy a, returning (cpy_dict_copy a)),
      (hpy_sequence_builder_new (hpy_sequence_builder k) a,
       cpy_sequence_builder_new (cpy_sequence_builder k) a),
      (hpy_sequence_builder_set (hpy_sequence_builder k) a b c,
       cpy_sequence_builder_set (cpy_sequence_builder k) a b c),
      (\<lambda>ctx. bind_result (hpy_select_sequence_from_array hpy_universal_api SEQ_TUPLE)
         (\<lambda>operation. hpy_sequence_from_array hpy_universal_api operation a b ctx),
       cpy_sequence_from_array (cpy_select_sequence_from_array SEQ_TUPLE) a b),
      (hpy_sequence_pack hpy_universal_api SEQ_TUPLE items,
       cpy_sequence_pack cpy_api SEQ_TUPLE items)]"

definition shared_call_operations ::
  "bool \<Rightarrow> string list \<Rightarrow> string \<Rightarrow> string \<Rightarrow> string \<Rightarrow> string \<Rightarrow> (emitter \<times> emitter) list" where
  "shared_call_operations use_utility_code items a b c d =
     [(hpy_call_tuple_dict a b c use_utility_code,
       returning (cpy_call_tuple_dict a b c use_utility_code)),
      (hpy_call_array_with_keyword_names a b c d,
       returning (cpy_call_array_with_keyword_names a b c d)),
      (hpy_python_error_occurred, returning cpy_python_error_occurred),
      (hpy_error_set_string a b, returning (cpy_error_set_string a b)),
      (hpy_error_set_from_errno a, returning (cpy_error_set_from_errno a)),
      (hpy_error_set_object a b, returning (cpy_error_set_object a b)),
      (hpy_error_clear, returning cpy_error_clear),
      (hpy_error_no_memory, returning cpy_error_no_memory),
      (hpy_error_format a b items, returning (cpy_error_format a b items)),
      (hpy_exception_matches hpy_universal_api a [] [], cpy_exception_matches a [] [] False),
      (hpy_import_module a, returning (cpy_import_module a)),
      (hpy_module_set_attr a b c, returning (cpy_module_set_attr a b c)),
      (hpy_module_set_attr_string a b c, returning (cpy_module_set_attr_string a b c))]"

text \<open>
  A C call read back from its text, with no operand between empty parentheses. Two emitters
  correspond when the one of HPy refuses an empty context, the one of CPython ignores its own, and
  the two calls are of counterpart functions on the same operands in the same order, after the
  context for HPy.
\<close>

definition read_c_call :: "string \<Rightarrow> (string \<times> string list) option" where
  "read_c_call s = map_option (\<lambda>(f, args). (f, if args = [[]] then [] else args)) (parse_c_call s)"

definition corresponding_calls :: "string \<Rightarrow> emitter \<times> emitter \<Rightarrow> bool" where
  "corresponding_calls ctx p \<longleftrightarrow>
     (case p of (hpy, cpy) \<Rightarrow>
        hpy [] = Inl (RT_ValueError ''%s runtime operation requires a context cname''
                        [''call-scoped-hpy''])
        \<and> (\<exists>e e' g args. hpy ctx = Inr e \<and> (\<forall>any. cpy any = Inr e')
             \<and> read_c_call e = Some (hpy_counterpart g, ctx # args)
             \<and> read_c_call e' = Some (g, args)))"

subsection \<open>Reading the calls back\<close>

lemma read_c_call_call:
  assumes f: "CHR ''('' \<notin> set f" and args: "list_all c_operand args" "args \<noteq> [[]]"
  shows "read_c_call (c_call f args) = Some (f, args)"
proof (cases "args = []")
  case True
  have "takeWhile (\<lambda>c. c \<noteq> CHR ''('') (c_call f []) = f"
    "dropWhile (\<lambda>c. c \<noteq> CHR ''('') (c_call f []) = ''()''"
    using f by (auto simp: c_call_def intro!: trans [OF takeWhile_append2] trans [OF dropWhile_append2])
  with True show ?thesis by (simp add: read_c_call_def parse_c_call_def)
next
  case False
  from parse_c_call_call [OF f this args(1)] args(2) show ?thesis by (simp add: read_c_call_def)
qed

text \<open>A row names the function of CPython and the operands.\<close>

definition emits_row :: "string \<Rightarrow> emitter \<times> emitter \<Rightarrow> string \<times> string list \<Rightarrow> bool" where
  "emits_row ctx p row \<longleftrightarrow>
     fst p [] = Inl (RT_ValueError ''%s runtime operation requires a context cname''
                       [''call-scoped-hpy''])
     \<and> fst p ctx = Inr (c_call (hpy_counterpart (fst row)) (ctx # snd row))
     \<and> (\<forall>any. snd p any = Inr (c_call (fst row) (snd row)))
     \<and> CHR ''('' \<notin> set (fst row) \<and> CHR ''('' \<notin> set (hpy_counterpart (fst row))
     \<and> list_all c_operand (snd row) \<and> snd row \<noteq> [[]]"

lemma emits_row_corresponds:
  assumes "emits_row ctx p row" and "c_operand ctx" "ctx \<noteq> []"
  shows "corresponding_calls ctx p"
proof -
  obtain g args where "row = (g, args)" by (cases row)
  with assms read_c_call_call [of g args] read_c_call_call [of "hpy_counterpart g" "ctx # args"]
  show ?thesis by (auto simp: emits_row_def corresponding_calls_def case_prod_beta)
qed

lemma emits_rows_correspond:
  "list_all2 (emits_row ctx) ps rows \<Longrightarrow> c_operand ctx \<Longrightarrow> ctx \<noteq> []
     \<Longrightarrow> list_all (corresponding_calls ctx) ps"
  by (induction rule: list_all2_induct) (auto intro: emits_row_corresponds)

lemma hpy_validate_own_builder [simp]:
  "hpy_validate_sequence_builder (hpy_sequence_builder k) = Inr ()"
  by (simp add: hpy_validate_sequence_builder_def hpy_sequence_builder_def Let_def)

lemma cpy_validate_own_builder [simp]:
  "cpy_validate_sequence_builder (cpy_sequence_builder k) = Inr ()"
  by (simp add: cpy_validate_sequence_builder_def cpy_sequence_builder_def)

lemma builder_kinds [simp]:
  "builder_kind (hpy_sequence_builder k) = k" "builder_kind (cpy_sequence_builder k) = k"
  by (simp_all add: hpy_sequence_builder_def cpy_sequence_builder_def Let_def)

lemma hpy_select_tuple_from_array [simp]:
  "hpy_select_sequence_from_array api SEQ_TUPLE =
     Inr \<lparr>array_kind = SEQ_TUPLE, array_function_cname = ''HPyTuple_FromArray'',
          array_utility_code_name = [], array_utility_code_file = []\<rparr>"
  by (simp add: hpy_select_sequence_from_array_def hpy_sequence_builder_def Let_def)

lemma py_str_nat_nonempty [simp]: "py_str_nat n \<noteq> []"
  by (subst py_str_nat.simps) simp

lemmas hpy_value_defs =
  hpy_leave_python_execution_def hpy_reenter_python_execution_def
  hpy_signed_integer_from_cvalue_def hpy_ssize_integer_from_cvalue_def
  hpy_unsigned_integer_from_cvalue_def hpy_floating_from_cvalue_def
  hpy_signed_long_from_python_def hpy_ssize_t_from_python_def
  hpy_signed_long_long_from_python_def hpy_unsigned_long_from_python_def
  hpy_unsigned_long_long_from_python_def hpy_double_from_python_def
  hpy_object_type_def hpy_object_hash_def hpy_unicode_from_utf8_def
  hpy_unicode_from_encoded_object_def hpy_unicode_as_utf8_and_size_def hpy_bytes_from_data_def
  hpy_object_str_def hpy_object_repr_def hpy_object_ascii_def hpy_truth_test_def
  hpy_unary_operation_def hpy_unary_functions_def

lemmas cpy_value_defs =
  cpy_leave_python_execution_def cpy_reenter_python_execution_def
  cpy_signed_integer_from_cvalue_def cpy_ssize_integer_from_cvalue_def
  cpy_unsigned_integer_from_cvalue_def cpy_floating_from_cvalue_def
  cpy_signed_long_from_python_def cpy_ssize_t_from_python_def
  cpy_signed_long_long_from_python_def cpy_unsigned_long_from_python_def
  cpy_unsigned_long_long_from_python_def cpy_double_from_python_def
  cpy_object_type_def cpy_object_hash_def cpy_unicode_from_utf8_def
  cpy_unicode_from_encoded_object_def cpy_unicode_as_utf8_and_size_def cpy_bytes_from_data_def
  cpy_object_str_def cpy_object_repr_def cpy_object_ascii_def cpy_truth_test_def
  cpy_unary_operation_def cpy_unary_functions_def

lemmas hpy_container_defs =
  hpy_length_def hpy_contains_def hpy_item_get_index_def hpy_item_get_def hpy_item_set_def
  hpy_item_delete_def hpy_attribute_get_string_def hpy_attribute_has_string_def
  hpy_attribute_set_string_def hpy_attribute_delete_string_def
  hpy_dict_set_item_def hpy_dict_set_item_string_def hpy_dict_copy_def
  hpy_sequence_builder_new_def hpy_sequence_builder_set_def hpy_sequence_kind_name_def
  hpy_sequence_from_array_def hpy_sequence_pack_def

lemmas cpy_container_defs =
  cpy_length_def cpy_contains_def cpy_item_get_index_def cpy_item_get_def cpy_item_set_def
  cpy_item_delete_def cpy_attribute_get_string_def cpy_attribute_has_string_def
  cpy_attribute_set_string_def cpy_attribute_delete_string_def
  cpy_dict_set_item_def cpy_dict_set_item_string_def cpy_dict_copy_def
  cpy_sequence_builder_new_def cpy_sequence_builder_set_def
  cpy_sequence_from_array_def cpy_select_sequence_from_array_def cpy_sequence_pack_def

lemmas hpy_call_defs =
  hpy_call_tuple_dict_def hpy_call_array_with_keyword_names_def hpy_python_error_occurred_def
  hpy_error_set_string_def hpy_error_set_from_errno_def hpy_error_set_object_def
  hpy_error_clear_def hpy_error_no_memory_def hpy_error_format_def hpy_exception_matches_def
  hpy_import_module_def hpy_module_set_attr_def hpy_module_set_attr_string_def

lemmas cpy_call_defs =
  cpy_call_tuple_dict_def cpy_call_array_with_keyword_names_def cpy_python_error_occurred_def
  cpy_error_set_string_def cpy_error_set_from_errno_def cpy_error_set_object_def
  cpy_error_clear_def cpy_error_no_memory_def cpy_error_format_def cpy_exception_matches_def
  cpy_import_module_def cpy_module_set_attr_def cpy_module_set_attr_string_def

lemmas row_defs =
  emits_row_def returning_def hpy_counterpart_def hpy_own_names_def short_attr_name_def c_call_def

lemma value_rows:
  assumes "ctx \<noteq> []" and "list_all (\<lambda>s. s \<noteq> [] \<and> c_operand s) [a, b, c, d]"
  shows "list_all2 (emits_row ctx) (shared_value_operations u a b c d)
    [(''PyEval_SaveThread'', []), (''PyEval_RestoreThread'', [a]), (''PyLong_FromLongLong'', [a]),
     (''PyLong_FromSsize_t'', [a]), (''PyLong_FromUnsignedLongLong'', [a]),
     (''PyFloat_FromDouble'', [a]), (''PyLong_AsLong'', [a]), (''PyLong_AsSsize_t'', [a]),
     (''PyLong_AsLongLong'', [a]), (''PyLong_AsUnsignedLong'', [a]),
     (''PyLong_AsUnsignedLongLong'', [a]), (''PyFloat_AsDouble'', [a]), (''PyObject_Type'', [a]),
     (''PyObject_Hash'', [a]), (''PyUnicode_FromString'', [a]),
     (''PyUnicode_FromEncodedObject'', [a, b, c]), (''PyUnicode_AsUTF8AndSize'', [a, addr_of b]),
     (''PyBytes_FromStringAndSize'', [a, b]), (''PyObject_Str'', [a]), (''PyObject_Repr'', [a]),
     (''PyObject_ASCII'', [a]), (''PyObject_IsTrue'', [a]),
     (the (dict_get cpy_unary_functions u), [a])]"
  using assms
  by (cases u) (simp_all add: shared_value_operations_def row_defs hpy_value_defs cpy_value_defs)

lemma container_rows:
  assumes "ctx \<noteq> []" and "list_all (\<lambda>s. s \<noteq> [] \<and> c_operand s) ([a, b, c, d] @ items)"
  shows "list_all2 (emits_row ctx) (shared_container_operations k items a b c d)
    [(''PyObject_Length'', [a]), (''PySequence_Contains'', [a, b]), (''PySequence_GetItem'', [a, b]),
     (''PyObject_GetItem'', [a, b]), (''PyObject_SetItem'', [a, b, c]),
     (''PyObject_DelItem'', [a, b]), (''PyObject_GetAttrString'', [a, b]),
     (''PyObject_HasAttrString'', [a, b]), (''PyObject_SetAttrString'', [a, b, c]),
     (''PyObject_DelAttrString'', [a, b]), (''PyDict_SetItem'', [a, b, c]),
     (''PyDict_SetItemString'', [a, b, c]), (''PyDict_Copy'', [a]),
     (if k = SEQ_LIST then ''PyList_New'' else ''PyTuple_New'', [a]),
     (if k = SEQ_LIST then ''__Pyx_PyList_SET_ITEM'' else ''__Pyx_PyTuple_SET_ITEM'', [a, b, c]),
     (''__Pyx_PyTuple_FromArray'', [a, b]),
     (''PyTuple_Pack'', py_str_nat (length items) # items)]"
  using assms
  by (cases k) (auto simp: shared_container_operations_def row_defs hpy_container_defs
      cpy_container_defs list_all_iff Let_def)

lemma call_rows:
  assumes "ctx \<noteq> []" and "list_all (\<lambda>s. s \<noteq> [] \<and> c_operand s) ([a, b, c, d] @ items)"
  shows "list_all2 (emits_row ctx) (shared_call_operations use_utility_code items a b c d)
    [(if use_utility_code then ''__Pyx_PyObject_Call'' else ''PyObject_Call'', [a, b, c]),
     (''__Pyx_Object_VectorcallKwds'', [a, b, c, d]), (''PyErr_Occurred'', []),
     (''PyErr_SetString'', [a, b]), (''PyErr_SetFromErrno'', [a]), (''PyErr_SetObject'', [a, b]),
     (''PyErr_Clear'', []), (''PyErr_NoMemory'', []), (''PyErr_Format'', a # b # items),
     (''PyErr_ExceptionMatches'', [a]), (''PyImport_ImportModule'', [a]),
     (''PyObject_SetAttr'', [a, b, c]), (''PyObject_SetAttrString'', [a, b, c])]"
  using assms
  by (auto simp: shared_call_operations_def row_defs hpy_call_defs cpy_call_defs list_all_iff Let_def)

text \<open>C14. The two backends emit corresponding calls: for each of 53 operations that both write as one
  C call on their operands (thread state, conversions from and to C numbers, texts and bytes,
  object protocol, unary operators, items and attributes, dictionaries, new sequences and their
  items, tuple and array calls, the error indicator, imports and module attributes), the HPy method
  refuses an empty context with \<open>ValueError\<close>, and otherwise the two texts, read back as C calls, are
  calls of counterpart functions on the same operands in the same order, which HPy passes after the
  context and CPython without one. The operations whose two calls differ in more than the context
  are not among them: comparisons and powers (other constants), type tests (casts), identity (no
  call), calls with a fixed number of arguments and method calls (HPy passes the array, its length
  and \<open>HPy_NULL\<close>), \<open>dict_new\<close>, \<open>error_set_none\<close>, \<open>type_from_spec\<close>, and globals and fields.\<close>

theorem backends_emit_corresponding_calls:
  assumes "ctx \<noteq> []" and "c_operand ctx"
    and "list_all (\<lambda>s. s \<noteq> [] \<and> c_operand s) ([a, b, c, d] @ items)"
  shows "list_all (corresponding_calls ctx)
    (shared_value_operations u a b c d @ shared_container_operations k items a b c d
     @ shared_call_operations use_utility_code items a b c d)"
  using assms emits_rows_correspond [OF value_rows] emits_rows_correspond [OF container_rows]
    emits_rows_correspond [OF call_rows]
  by simp

theorem backends_emit_corresponding_calls_witness:
  "corresponding_calls ''ctx'' (hpy_item_set ''h1'' ''f(x, y)'' ''h3'',
     returning (cpy_item_set ''h1'' ''f(x, y)'' ''h3''))"
  using backends_emit_corresponding_calls
    [of "''ctx''" "''h1''" "''f(x, y)''" "''h3''" "''n''" "[''i'']" UOP_INVERT SEQ_LIST True]
  by (simp add: c_operand_def shared_container_operations_def)

subsection \<open>Variadic calls\<close>

text \<open>C15. A packed tuple passes the decimal length of the argument list before the items, a
  formatted error passes exactly its arguments, and the keyword parsers pass the address of the
  tracker and of every output, all after the context.\<close>

theorem hpy_variadic_calls:
  assumes "ctx \<noteq> []"
    and "list_all c_operand (ctx # tracker # args # nargs # kwnames # format # keywords # items)"
  shows "(\<exists>e. hpy_sequence_pack api SEQ_TUPLE items ctx = Inr e
            \<and> parse_c_call e = Some (''HPyTuple_Pack'', ctx # py_str_nat (length items) # items))
    \<and> (\<exists>e. hpy_error_format args format items ctx = Inr e
            \<and> parse_c_call e = Some (''HPyErr_Format'', ctx # args # format # items))
    \<and> (\<exists>e. hpy_parse_keyword_arguments tracker args nargs kwnames format keywords items ctx = Inr e
            \<and> parse_c_call e = Some (''HPyArg_ParseKeywords'',
                [ctx, addr_of tracker, args, nargs, kwnames, format, keywords] @ map addr_of items))
    \<and> (\<exists>e. hpy_parse_keyword_dictionary tracker args nargs kwnames format keywords items ctx = Inr e
            \<and> parse_c_call e = Some (''HPyArg_ParseKeywordsDict'',
                [ctx, addr_of tracker, args, nargs, kwnames, format, keywords] @ map addr_of items))"
proof -
  have n: "c_operand (py_str_nat (length items))"
    by (rule py_str_nat_operand)
  have items: "list_all c_operand (map addr_of items)"
    using assms(2) by (simp add: list_all_iff)
  have call: "\<exists>e. Inr (c_call f xs) = (Inr e :: runtime_error + string) \<and> parse_c_call e = Some (f, xs)"
    if "CHR ''('' \<notin> set f" "xs \<noteq> []" "list_all c_operand xs" for f xs
    using parse_c_call_call [OF that] by blast
  have "hpy_sequence_pack api SEQ_TUPLE items ctx
      = Inr (c_call ''HPyTuple_Pack'' (ctx # py_str_nat (length items) # items))"
    "hpy_error_format args format items ctx
      = Inr (c_call ''HPyErr_Format'' (ctx # args # format # items))"
    "hpy_parse_keyword_arguments tracker args nargs kwnames format keywords items ctx
      = Inr (c_call ''HPyArg_ParseKeywords''
          ([ctx, addr_of tracker, args, nargs, kwnames, format, keywords] @ map addr_of items))"
    "hpy_parse_keyword_dictionary tracker args nargs kwnames format keywords items ctx
      = Inr (c_call ''HPyArg_ParseKeywordsDict''
          ([ctx, addr_of tracker, args, nargs, kwnames, format, keywords] @ map addr_of items))"
    using assms(1)
    by (simp_all add: hpy_sequence_pack_def hpy_error_format_def hpy_parse_keyword_arguments_def
        hpy_parse_keyword_dictionary_def c_call_def Let_def)
  then show ?thesis
    using assms(2) n items by (simp only:) (intro conjI call, simp_all)
qed

lemma hpy_variadic_calls_witness:
  "\<exists>e. hpy_sequence_pack hpy_universal_api SEQ_TUPLE [''a'', ''b''] ''ctx'' = Inr e
     \<and> parse_c_call e = Some (''HPyTuple_Pack'', [''ctx'', py_str_nat 2, ''a'', ''b''])"
  using hpy_variadic_calls [of "''ctx''" "''ht''" "''args''" "''nargs''" "''kw''" "''fmt''" "''kl''"
      "[''a'', ''b'']" hpy_universal_api, THEN conjunct1]
  by (simp add: c_operand_def numeral_2_eq_2)

end
