(* ===== verification/RuntimeContracts.thy ===== *)
theory RuntimeContracts
  imports RuntimeCalls
begin

text \<open>
  Agreement of the two backends on the operator tables, separation of their sequence builders,
  the method flag layouts, and the choice of a backend by its name.
\<close>

subsection \<open>Operators\<close>

text \<open>The function of HPy and CPython for a binary operation differ in the prefix only; an
  in-place operation with the same value inserts \<open>InPlace\<close>. The third operand of a power is
  \<open>None\<close>.\<close>

definition operator_suffix :: "RuntimeBinaryOperation \<Rightarrow> string" where
  "operator_suffix b =
     (if b = BOP_POWER then ''Power''
      else drop 4 (the (dict_get hpy_binary_functions b)))"

text \<open>C16. A binary operation and the in-place operation of the same name emit, in both
  backends, calls of the same operator: \<open>HPy_X\<close>, \<open>HPy_InPlaceX\<close>, \<open>PyNumber_X\<close> and
  \<open>PyNumber_InPlaceX\<close> on the same operands in the same order, after the context for HPy, with
  \<open>None\<close> as the third operand of a power; no operation is missing from a table.\<close>

theorem operators_agree:
  assumes "binary_operation_value b = inplace_operation_value i" and "ctx \<noteq> []"
  shows "hpy_binary_operation b l r ctx = Inr (c_call (''HPy_'' @ operator_suffix b)
           ([ctx, l, r] @ (if b = BOP_POWER then [ctx @ ''->h_None''] else [])))
    \<and> hpy_inplace_operation i l r ctx = Inr (c_call (''HPy_InPlace'' @ operator_suffix b)
           ([ctx, l, r] @ (if b = BOP_POWER then [ctx @ ''->h_None''] else [])))
    \<and> cpy_binary_operation b l r ctx = Inr (c_call (''PyNumber_'' @ operator_suffix b)
           ([l, r] @ (if b = BOP_POWER then [''Py_None''] else [])))
    \<and> cpy_inplace_operation i l r ctx = Inr (c_call (''PyNumber_InPlace'' @ operator_suffix b)
           ([l, r] @ (if b = BOP_POWER then [''Py_None''] else [])))"
  using assms
  by (cases b; cases i)
    (simp_all add: operator_suffix_def hpy_binary_operation_def hpy_inplace_operation_def
      cpy_binary_operation_def cpy_inplace_operation_def hpy_binary_functions_def
      hpy_inplace_functions_def cpy_binary_functions_def cpy_inplace_functions_def c_call_def)

lemma operators_agree_witness:
  "hpy_inplace_operation IOP_POWER ''a'' ''b'' ''ctx''
     = Inr (c_call ''HPy_InPlacePower'' [''ctx'', ''a'', ''b'', ''ctx->h_None''])"
  using operators_agree [of BOP_POWER IOP_POWER "''ctx''" "''a''" "''b''"]
  by (simp add: operator_suffix_def)

lemma operator_suffix_inject: "operator_suffix b = operator_suffix b' \<longleftrightarrow> b = b'"
  by (cases b; cases b') (simp_all add: operator_suffix_def hpy_binary_functions_def)

text \<open>C17. The five operator tables of the HPy backend, comparisons, unary, binary and in-place
  operations and context constants, are complete and injective: given a context every operation
  yields an expression, never the error of a missing entry, and two operations of one table never
  yield the same text for the same operands.\<close>

theorem hpy_operators_distinct:
  assumes "ctx \<noteq> []"
  shows "(\<exists>e. hpy_rich_compare p l r ctx = Inr e)
    \<and> (\<exists>e. hpy_unary_operation u x ctx = Inr e)
    \<and> (\<exists>e. hpy_binary_operation b l r ctx = Inr e)
    \<and> (\<exists>e. hpy_inplace_operation i l r ctx = Inr e)
    \<and> (\<exists>e. hpy_context_constant c ctx = Inr e)
    \<and> (hpy_rich_compare p l r ctx = hpy_rich_compare p' l r ctx \<longleftrightarrow> p = p')
    \<and> (hpy_unary_operation u x ctx = hpy_unary_operation u' x ctx \<longleftrightarrow> u = u')
    \<and> (hpy_binary_operation b l r ctx = hpy_binary_operation b' l r ctx \<longleftrightarrow> b = b')
    \<and> (hpy_inplace_operation i l r ctx = hpy_inplace_operation i' l r ctx \<longleftrightarrow> i = i')
    \<and> (hpy_context_constant c ctx = hpy_context_constant c' ctx \<longleftrightarrow> c = c')"
proof (intro conjI)
  show "\<exists>e. hpy_rich_compare p l r ctx = Inr e"
    and "hpy_rich_compare p l r ctx = hpy_rich_compare p' l r ctx \<longleftrightarrow> p = p'"
    using assms
    by (cases p, simp_all add: hpy_rich_compare_def hpy_compare_operators_def)
       (cases p', simp_all)+
  show "\<exists>e. hpy_unary_operation u x ctx = Inr e"
    and "hpy_unary_operation u x ctx = hpy_unary_operation u' x ctx \<longleftrightarrow> u = u'"
    using assms
    by (cases u, simp_all add: hpy_unary_operation_def hpy_unary_functions_def)
       (cases u', simp_all)+
  show "\<exists>e. hpy_binary_operation b l r ctx = Inr e"
    and "hpy_binary_operation b l r ctx = hpy_binary_operation b' l r ctx \<longleftrightarrow> b = b'"
    using assms
    by (cases b, simp_all add: hpy_binary_operation_def hpy_binary_functions_def)
       (cases b', simp_all)+
  show "\<exists>e. hpy_inplace_operation i l r ctx = Inr e"
    and "hpy_inplace_operation i l r ctx = hpy_inplace_operation i' l r ctx \<longleftrightarrow> i = i'"
    using assms
    by (cases i, simp_all add: hpy_inplace_operation_def hpy_inplace_functions_def)
       (cases i', simp_all)+
  show "\<exists>e. hpy_context_constant c ctx = Inr e"
    and "hpy_context_constant c ctx = hpy_context_constant c' ctx \<longleftrightarrow> c = c'"
    using assms
    by (cases c, simp_all add: hpy_context_constant_def hpy_context_constants_def)
       (cases c', simp_all)+
qed

lemma hpy_operators_distinct_witness:
  "hpy_unary_operation UOP_NEGATIVE ''x'' ''ctx'' \<noteq> hpy_unary_operation UOP_INVERT ''x'' ''ctx''
   \<and> hpy_binary_operation BOP_POWER ''x'' ''y'' ''ctx'' \<noteq> hpy_binary_operation BOP_ADD ''x'' ''y'' ''ctx''"
  using hpy_operators_distinct [of "''ctx''" CMP_EQUAL "''x''" "''y''" UOP_NEGATIVE "''x''"
      BOP_POWER IOP_ADD CC_NONE CMP_EQUAL UOP_INVERT BOP_ADD IOP_ADD CC_NONE]
  by simp

subsection \<open>Sequence builders\<close>

lemma hpy_validate_iff:
  "hpy_validate_sequence_builder b = Inr () \<longleftrightarrow> (\<exists>k. b = hpy_sequence_builder k)"
  by (auto simp: hpy_validate_sequence_builder_def hpy_sequence_builder_def Let_def)

lemma cpy_validate_iff:
  "cpy_validate_sequence_builder b = Inr () \<longleftrightarrow> (\<exists>k. b = cpy_sequence_builder k)"
  by (auto simp: cpy_validate_sequence_builder_def cpy_sequence_builder_def)

lemma builders_differ: "hpy_sequence_builder k \<noteq> cpy_sequence_builder k'"
  by (simp add: hpy_sequence_builder_def cpy_sequence_builder_def Let_def)

text \<open>C18. Each of the four builder operations of a backend, creation, storing an item, building and
  cancelling, accepts exactly that backend's two builder contracts (HPy also needs a context), so a
  builder of the other backend is refused by every one of them; and the contracts say who owns an
  item after it is stored: HPy keeps a separate builder and does not steal the reference, CPython
  stores into the result and does.\<close>

theorem sequence_builders_separate:
  "((\<exists>s. hpy_sequence_builder_new b n ctx = Inr s)
       \<longleftrightarrow> ctx \<noteq> [] \<and> b \<in> {hpy_sequence_builder SEQ_LIST, hpy_sequence_builder SEQ_TUPLE})
   \<and> ((\<exists>s. cpy_sequence_builder_new b n ctx = Inr s)
       \<longleftrightarrow> b \<in> {cpy_sequence_builder SEQ_LIST, cpy_sequence_builder SEQ_TUPLE})
   \<and> ((\<exists>s. hpy_sequence_builder_build b x ctx = Inr s)
       \<longleftrightarrow> ctx \<noteq> [] \<and> b \<in> {hpy_sequence_builder SEQ_LIST, hpy_sequence_builder SEQ_TUPLE})
   \<and> ((\<exists>s. cpy_sequence_builder_build b x ctx = Inr s)
       \<longleftrightarrow> b \<in> {cpy_sequence_builder SEQ_LIST, cpy_sequence_builder SEQ_TUPLE})
   \<and> ((\<exists>s. hpy_sequence_builder_set b x i v ctx = Inr s)
       \<longleftrightarrow> ctx \<noteq> [] \<and> b \<in> {hpy_sequence_builder SEQ_LIST, hpy_sequence_builder SEQ_TUPLE})
   \<and> ((\<exists>s. cpy_sequence_builder_set b x i v ctx = Inr s)
       \<longleftrightarrow> b \<in> {cpy_sequence_builder SEQ_LIST, cpy_sequence_builder SEQ_TUPLE})
   \<and> ((\<exists>s. hpy_sequence_builder_cancel b x ctx = Inr s)
       \<longleftrightarrow> ctx \<noteq> [] \<and> b \<in> {hpy_sequence_builder SEQ_LIST, hpy_sequence_builder SEQ_TUPLE})
   \<and> ((\<exists>s. cpy_sequence_builder_cancel b x ctx = Inr s)
       \<longleftrightarrow> b \<in> {cpy_sequence_builder SEQ_LIST, cpy_sequence_builder SEQ_TUPLE})
   \<and> hpy_sequence_builder k \<noteq> cpy_sequence_builder k'
   \<and> uses_separate_builder (hpy_sequence_builder k) \<and> \<not> uses_separate_builder (cpy_sequence_builder k')
   \<and> \<not> set_item_steals_reference (hpy_sequence_builder k)
   \<and> set_item_steals_reference (cpy_sequence_builder k')"
proof -
  have kinds: "(\<exists>k. P k) \<longleftrightarrow> P SEQ_LIST \<or> P SEQ_TUPLE" for P
    using RuntimeSequenceKind.exhaust by metis
  have h: "(case hpy_validate_sequence_builder b of Inl e \<Rightarrow> Inl e | Inr _ \<Rightarrow> r) = Inr s
      \<longleftrightarrow> (\<exists>k. b = hpy_sequence_builder k) \<and> r = Inr s" for r :: "runtime_error + string" and s
    using hpy_validate_iff [of b] by (auto split: sum.splits)
  have c: "(case cpy_validate_sequence_builder b of Inl e \<Rightarrow> Inl e | Inr _ \<Rightarrow> r) = Inr s
      \<longleftrightarrow> (\<exists>k. b = cpy_sequence_builder k) \<and> r = Inr s" for r :: "runtime_error + string" and s
    using cpy_validate_iff [of b] by (auto split: sum.splits)
  have ctx: "(\<exists>s. with_context ctx (\<lambda>c. Inr (f c)) = Inr s) \<longleftrightarrow> ctx \<noteq> []" for f :: "string \<Rightarrow> string"
    by (cases "ctx = []") simp_all
  show ?thesis
    unfolding hpy_sequence_builder_new_def cpy_sequence_builder_new_def
      hpy_sequence_builder_build_def cpy_sequence_builder_build_def
      hpy_sequence_builder_set_def cpy_sequence_builder_set_def
      hpy_sequence_builder_cancel_def cpy_sequence_builder_cancel_def h c Let_def
      ex_simps ctx kinds [of "\<lambda>k. b = hpy_sequence_builder k"]
      kinds [of "\<lambda>k. b = cpy_sequence_builder k"]
    using builders_differ
    by (auto simp: hpy_sequence_builder_def cpy_sequence_builder_def Let_def)
qed

subsection \<open>Method flags\<close>

text \<open>C19. The flag layouts and the signatures determine each other: a layout selects a
  signature exactly when the method table entry of that signature writes the layout, and the
  entry of a method that coexists with a slot appends \<open>METH_COEXIST\<close> to it.\<close>

theorem method_flags_roundtrip:
  "(select_method_signature flags = Inr sg \<longleftrightarrow> flags = cpy_method_flags sg)
   \<and> cpy_method_table_entry
        \<lparr>signature = sg, definition_cname = d, python_name_cname = p, implementation_cname = f,
         doc_cname = doc, coexists_with_slot = c\<rparr> t
      = ''{'' @ p @ '', (PyCFunction)''
        @ (if cpy_method_cast sg = ''PyCFunction'' then f
           else ''(void(*)(void))('' @ cpy_method_cast sg @ '')'' @ f)
        @ '', '' @ py_join ''|'' (cpy_method_flags sg @ (if c then [''METH_COEXIST''] else []))
        @ '', '' @ doc @ ''}'' @ t"
proof -
  have "select_method_signature flags = Inr sg \<longleftrightarrow> flags = cpy_method_flags sg"
    by (cases sg) (auto simp: select_method_signature_def method_layouts_def)
  then show ?thesis
    by (simp add: cpy_method_table_entry_def Let_def)
qed

subsection \<open>Choosing a backend\<close>

text \<open>C20. A backend is created exactly for the accepted names, and it is the one of that name;
  any other name is a \<open>RuntimeBackendOptionError\<close> about that name, with the message for a reserved
  backend exactly when the name is reserved, and never a \<open>KeyError\<close>. Of the
  accepted backends only \<open>hpy-cpython\<close> is not ready to compile; a backend requires a context
  exactly when it uses handle ownership; and only \<open>hpy-universal\<close> emits modules itself.\<close>

theorem create_runtime_api_spec:
  "((\<exists>api. create_runtime_api name = Inr api) \<longleftrightarrow> name \<in> set ACCEPTED_RUNTIME_BACKENDS)
   \<and> (case create_runtime_api name of
        Inl e \<Rightarrow>
          (\<exists>f details. e = RT_BackendOptionError f (name # details)
             \<and> (f = ''runtime backend %r is reserved but not enabled''
                  \<longleftrightarrow> name \<in> set RESERVED_RUNTIME_BACKENDS))
      | Inr api \<Rightarrow>
          rt_name (api_base api) = name
          \<and> (rt_ensure_compilation_ready (api_base api) pos = Inr () \<longleftrightarrow> name \<noteq> ''hpy-cpython'')
          \<and> (required_for_python_operations (api_context_contract api)
               \<longleftrightarrow> api_uses_handle_ownership api)
          \<and> (api_module_emitter api \<noteq> Inr None \<longleftrightarrow> name = ''hpy-universal'')
          \<and> (api_code_generation_kind api = CGK_HPY_UNIVERSAL_BOOTSTRAP \<longleftrightarrow> name = ''hpy-universal''))"
proof -
  have names: "set ACCEPTED_RUNTIME_BACKENDS = {''cpython'', ''hpy-universal'', ''hpy-cpython''}"
    by (auto simp: ACCEPTED_RUNTIME_BACKENDS_def CPYTHON_BACKEND_def HPY_UNIVERSAL_BACKEND_def
        HPY_CPYTHON_BACKEND_def)
  show ?thesis
  proof (cases "name \<in> set ACCEPTED_RUNTIME_BACKENDS")
    case True
    then have "name = ''cpython'' \<or> name = ''hpy-universal'' \<or> name = ''hpy-cpython''"
      by (simp add: names)
    then show ?thesis
      unfolding names create_runtime_api_def validate_runtime_backend_name_def
      by (elim disjE)
        (simp_all add: runtime_implementations_def CPYTHON_BACKEND_def HPY_UNIVERSAL_BACKEND_def
          HPY_CPYTHON_BACKEND_def rt_ensure_compilation_ready_def cpy_api_def hpy_universal_api_def
          hpy_cpython_api_def cpy_context_contract_def hpy_context_contract_def
          hpy_uses_handle_ownership_def module_emitter_post_init_def)
  next
    case False
    then show ?thesis
      by (simp add: create_runtime_api_def validate_runtime_backend_name_def)
  qed
qed

text \<open>The protocol declares \<open>call_method_no_args\<close> without a context; called that way the HPy
  backend always raises.\<close>

lemma call_method_no_args_without_context:
  "hpy_call_method_no_args receiver name [] =
     Inl (RT_ValueError ''%s runtime operation requires a context cname'' [''call-scoped-hpy''])"
  by (simp add: hpy_call_method_no_args_def)

end
