(* ===== verification/PlexTransitions.thy ===== *)
theory PlexTransitions
  imports Prelude
begin

text \<open>
  \<open>Cython/Plex/Transitions.py\<close>. A \<open>TransitionMap\<close> keeps its Python list
  \<open>[code_0, states_0, code_1, ..., states_n-1, code_n]\<close> as the list of the codes and the list of
  the state sets: the Python index \<open>2 * k\<close> is the \<open>k\<close>-th code and \<open>2 * k + 1\<close> the \<open>k\<close>-th
  set. States are numbers. \<open>tm_lookup\<close> is what a map means: the set of a character code.
\<close>

subsection \<open>Maps\<close>

definition maxint :: int where
  "maxint = 2 ^ 31 - 1"

text \<open>An event is a pair of codes, or one of the strings \<open>''\<close>, \<open>bol\<close>, \<open>eol\<close>, \<open>eof\<close>.\<close>

datatype plex_event = Codes int int | Special string

record TransitionMap =
  tm_codes :: "int list"
  tm_sets :: "nat set list"
  tm_special :: "(string, nat set) pydict"

definition tm_new :: TransitionMap where
  "tm_new = \<lparr>tm_codes = [- maxint, maxint], tm_sets = [{}], tm_special = []\<rparr>"

text \<open>\<open>map[i]\<close> for an even \<open>i\<close>.\<close>

definition code_at :: "TransitionMap \<Rightarrow> nat \<Rightarrow> int" where
  "code_at m i = tm_codes m ! (i div 2)"

text \<open>The search loop of \<open>split\<close>; \<open>& ~1\<close> truncates to an even index.\<close>

function split_search :: "TransitionMap \<Rightarrow> int \<Rightarrow> nat \<Rightarrow> nat \<Rightarrow> nat \<times> nat" where
  "split_search m code lo hi =
     (if hi - lo \<ge> 4 then
        let mid = 2 * ((lo + hi) div 2 div 2)
        in if code < code_at m mid then split_search m code lo mid
           else split_search m code mid hi
      else (lo, hi))"
  by pat_completeness auto
termination
  by (relation "measure (\<lambda>(m, code, lo, hi). hi - lo)") auto

declare split_search.simps [simp del]

definition insert_at :: "nat \<Rightarrow> 'a \<Rightarrow> 'a list \<Rightarrow> 'a list" where
  "insert_at k x xs = take k xs @ [x] @ drop k xs"

definition tm_split :: "int \<Rightarrow> TransitionMap \<Rightarrow> nat \<times> TransitionMap" where
  "tm_split code m =
     (let hi = 2 * (length (tm_codes m) - 1) in
      if code = maxint then (hi, m)
      else
        let (lo, hi) = split_search m code 0 hi
        in if code_at m lo = code then (lo, m)
           else (hi, m\<lparr>tm_codes := insert_at (hi div 2) code (tm_codes m),
                       tm_sets := insert_at (hi div 2) (tm_sets m ! ((hi - 1) div 2)) (tm_sets m)\<rparr>))"

text \<open>The loop \<open>while i < j\<close> of \<open>add\<close> and \<open>add_set\<close>.\<close>

function tm_update :: "nat \<Rightarrow> nat \<Rightarrow> nat set \<Rightarrow> TransitionMap \<Rightarrow> TransitionMap" where
  "tm_update i j new_set m =
     (if i < j
      then tm_update (i + 2) j new_set
             (m\<lparr>tm_sets := (tm_sets m)[i div 2 := tm_sets m ! (i div 2) \<union> new_set]\<rparr>)
      else m)"
  by pat_completeness auto
termination
  by (relation "measure (\<lambda>(i, j, new_set, m). j - i)") auto

declare tm_update.simps [simp del]

text \<open>\<open>get_special\<close>: the set of the event, entered as empty when it is missing.\<close>

definition get_special :: "string \<Rightarrow> TransitionMap \<Rightarrow> nat set \<times> TransitionMap" where
  "get_special event m =
     (case dict_get (tm_special m) event of
        Some s \<Rightarrow> (s, m)
      | None \<Rightarrow> ({}, m\<lparr>tm_special := dict_set event {} (tm_special m)\<rparr>))"

fun tm_add_set :: "plex_event \<Rightarrow> nat set \<Rightarrow> TransitionMap \<Rightarrow> TransitionMap" where
  "tm_add_set (Codes code0 code1) new_set m =
     (let (i, m) = tm_split code0 m;
          (j, m) = tm_split code1 m
      in tm_update i j new_set m)"
| "tm_add_set (Special event) new_set m =
     (let (s, m) = get_special event m
      in m\<lparr>tm_special := dict_set event (s \<union> new_set) (tm_special m)\<rparr>)"

text \<open>\<open>add\<close> is the same code with \<open>.add(new_state)\<close>.\<close>

definition tm_add :: "plex_event \<Rightarrow> nat \<Rightarrow> TransitionMap \<Rightarrow> TransitionMap" where
  "tm_add event new_state m = tm_add_set event {new_state} m"

definition get_epsilon :: "TransitionMap \<Rightarrow> nat set option" where
  "get_epsilon m = dict_get (tm_special m) []"

text \<open>The ranges of \<open>iteritems\<close>: \<open>keep\<close> says whether empty sets are reported too.\<close>

fun range_items :: "bool \<Rightarrow> int list \<Rightarrow> nat set list \<Rightarrow> (plex_event \<times> nat set) list" where
  "range_items keep (code0 # code1 # codes) (s # sets) =
     (if s \<noteq> {} \<or> keep then [(Codes code0 code1, s)] else [])
     @ range_items keep (code1 # codes) sets"
| "range_items keep codes sets = []"

definition tm_items :: "TransitionMap \<Rightarrow> (plex_event \<times> nat set) list" where
  "tm_items m =
     (let else_set = tm_sets m ! 0 \<noteq> {}
      in range_items else_set (tm_codes m) (tm_sets m)
         @ map (\<lambda>(event, s). (Special event, s)) (filter (\<lambda>(event, s). s \<noteq> {}) (tm_special m)))"

subsection \<open>What a map means\<close>

fun lookup_codes :: "int list \<Rightarrow> nat set list \<Rightarrow> int \<Rightarrow> nat set" where
  "lookup_codes (code0 # code1 # codes) (s # sets) c =
     (if c < code1 then s else lookup_codes (code1 # codes) sets c)"
| "lookup_codes codes sets c = {}"

definition tm_lookup :: "TransitionMap \<Rightarrow> int \<Rightarrow> nat set" where
  "tm_lookup m c = lookup_codes (tm_codes m) (tm_sets m) c"

definition special_set :: "TransitionMap \<Rightarrow> string \<Rightarrow> nat set" where
  "special_set m event = (case dict_get (tm_special m) event of None \<Rightarrow> {} | Some s \<Rightarrow> s)"

text \<open>The invariants of the class comment, but for the last.\<close>

definition tm_ok :: "TransitionMap \<Rightarrow> bool" where
  "tm_ok m \<longleftrightarrow>
     length (tm_codes m) = length (tm_sets m) + 1 \<and> tm_sets m \<noteq> []
     \<and> hd (tm_codes m) = - maxint \<and> last (tm_codes m) = maxint
     \<and> sorted_wrt (<) (tm_codes m) \<and> dict_wf (tm_special m)"

text \<open>The last one: characters below every split point and above every split point go to the same
  states.\<close>

definition tm_closed :: "TransitionMap \<Rightarrow> bool" where
  "tm_closed m \<longleftrightarrow> hd (tm_sets m) = last (tm_sets m)"

lemma tm_ok_new: "tm_ok tm_new"
  by (simp add: tm_ok_def tm_new_def maxint_def dict_wf_def)

lemma tm_lookup_new: "tm_lookup tm_new c = {}"
  by (simp add: tm_lookup_def tm_new_def)

text \<open>The set of a code is the one between the codes around it.\<close>

lemma lookup_codes_nth:
  "sorted_wrt (<) codes \<Longrightarrow> length codes = length sets + 1 \<Longrightarrow> k < length sets
   \<Longrightarrow> codes ! k \<le> c \<Longrightarrow> c < codes ! Suc k \<Longrightarrow> lookup_codes codes sets c = sets ! k"
proof (induction codes sets c arbitrary: k rule: lookup_codes.induct)
  case (1 code0 code1 codes s sets c)
  show ?case
  proof (cases k)
    case 0
    with 1 show ?thesis by simp
  next
    case (Suc k')
    have "code1 \<le> (code1 # codes) ! k'"
      using 1 Suc by (cases k') (auto simp: less_imp_le)
    with 1 Suc have "\<not> c < code1" by simp
    with 1 Suc show ?thesis by simp
  qed
qed auto

lemma lookup_codes_exists:
  fixes c :: int and sets :: "nat set list"
  shows "sorted_wrt (<) codes \<Longrightarrow> length codes = length sets + 1 \<Longrightarrow> sets \<noteq> [] \<Longrightarrow> hd codes \<le> c
   \<Longrightarrow> c < last codes \<Longrightarrow> \<exists>k < length sets. codes ! k \<le> c \<and> c < codes ! Suc k"
proof (induction codes sets c rule: lookup_codes.induct)
  case (1 code0 code1 codes s sets c)
  show ?case
  proof (cases "c < code1")
    case True
    with 1 show ?thesis by (intro exI [of _ 0]) simp
  next
    case False
    then have "sets \<noteq> []" using 1 by auto
    with False 1 obtain k where "k < length sets" "(code1 # codes) ! k \<le> c"
      "c < (code1 # codes) ! Suc k" by auto
    then show ?thesis by (intro exI [of _ "Suc k"]) simp
  qed
qed auto

lemma tm_lookup_nth:
  "tm_ok m \<Longrightarrow> k < length (tm_sets m) \<Longrightarrow> tm_codes m ! k \<le> c \<Longrightarrow> c < tm_codes m ! Suc k
   \<Longrightarrow> tm_lookup m c = tm_sets m ! k"
  unfolding tm_lookup_def by (rule lookup_codes_nth) (simp_all add: tm_ok_def)

lemma tm_range_exists:
  assumes "tm_ok m" and "- maxint \<le> c" and "c < maxint"
  obtains k where "k < length (tm_sets m)" "tm_codes m ! k \<le> c" "c < tm_codes m ! Suc k"
  using lookup_codes_exists [of "tm_codes m" "tm_sets m" c] assms by (auto simp: tm_ok_def)

lemma tm_ok_codes:
  assumes "tm_ok m"
  shows "tm_codes m ! 0 = - maxint" and "tm_codes m ! length (tm_sets m) = maxint"
    and "i < j \<Longrightarrow> j \<le> length (tm_sets m) \<Longrightarrow> tm_codes m ! i < tm_codes m ! j"
proof -
  have len: "length (tm_codes m) = length (tm_sets m) + 1" using assms by (simp add: tm_ok_def)
  then have ne: "tm_codes m \<noteq> []" by auto
  show "tm_codes m ! 0 = - maxint" using assms ne by (simp add: tm_ok_def hd_conv_nth)
  show "tm_codes m ! length (tm_sets m) = maxint"
    using assms ne len by (simp add: tm_ok_def last_conv_nth)
  show "i < j \<Longrightarrow> j \<le> length (tm_sets m) \<Longrightarrow> tm_codes m ! i < tm_codes m ! j"
    using sorted_wrt_nth_less [of "(<)" "tm_codes m" i j] assms len by (simp add: tm_ok_def)
qed

subsection \<open>Splitting\<close>

text \<open>The result of the search: neighbouring even indexes around the code.\<close>

lemma split_search_spec:
  "even lo \<Longrightarrow> even hi \<Longrightarrow> lo + 2 \<le> hi \<Longrightarrow> code_at m lo \<le> code \<Longrightarrow> code < code_at m hi
   \<Longrightarrow> \<exists>k. split_search m code lo hi = (2 * k, 2 * Suc k) \<and> lo \<le> 2 * k \<and> 2 * Suc k \<le> hi
         \<and> code_at m (2 * k) \<le> code \<and> code < code_at m (2 * Suc k)"
proof (induction m code lo hi rule: split_search.induct)
  case (1 m code lo hi)
  show ?case
  proof (cases "hi - lo \<ge> 4")
    case False
    with "1.prems"(1-3) have "hi = lo + 2" by presburger
    with "1.prems" show ?thesis
      by (subst split_search.simps) (auto elim!: evenE)
  next
    case True
    let ?mid = "2 * ((lo + hi) div 2 div 2)"
    have mid: "even ?mid" "lo + 2 \<le> ?mid" "?mid + 2 \<le> hi"
    proof -
      obtain a b where "lo = 2 * a" "hi = 2 * b" using "1.prems"(1,2) by (auto elim!: evenE)
      with True show "even ?mid" "lo + 2 \<le> ?mid" "?mid + 2 \<le> hi" by simp_all presburger+
    qed
    show ?thesis
    proof (cases "code < code_at m ?mid")
      case less: True
      with "1.IH"(1) [OF True refl less] "1.prems" mid show ?thesis
        by (subst split_search.simps) (auto simp: True Let_def)
    next
      case False
      with "1.IH"(2) [OF True refl False] "1.prems" mid show ?thesis
        by (subst split_search.simps) (auto simp: True Let_def)
    qed
  qed
qed

lemma nth_insert_at:
  "k \<le> length xs \<Longrightarrow> insert_at k x xs ! i =
     (if i < k then xs ! i else if i = k then x else xs ! (i - 1))"
  by (auto simp: insert_at_def nth_append min_def nth_Cons')

lemma length_insert_at [simp]: "k \<le> length xs \<Longrightarrow> length (insert_at k x xs) = Suc (length xs)"
  by (simp add: insert_at_def)

text \<open>Inserting a code strictly inside a range and doubling the set of the range.\<close>

lemma tm_insert:
  assumes ok: "tm_ok m" and k: "k < length (tm_sets m)"
    and less: "tm_codes m ! k < code" "code < tm_codes m ! Suc k"
  defines "m' \<equiv> m\<lparr>tm_codes := insert_at (Suc k) code (tm_codes m),
                  tm_sets := insert_at (Suc k) (tm_sets m ! k) (tm_sets m)\<rparr>"
  shows "tm_ok m' \<and> (\<forall>c. - maxint \<le> c \<longrightarrow> c < maxint \<longrightarrow> tm_lookup m' c = tm_lookup m c)"
proof -
  have len: "length (tm_codes m) = Suc (length (tm_sets m))" using ok by (simp add: tm_ok_def)
  have codes': "tm_codes m' ! i = (if i \<le> k then tm_codes m ! i else if i = Suc k then code
      else tm_codes m ! (i - 1))" for i
    using k len by (simp add: m'_def nth_insert_at less_Suc_eq_le)
  have sets': "tm_sets m' ! i = (if i \<le> k then tm_sets m ! i else tm_sets m ! (i - 1))" for i
    using k by (simp add: m'_def nth_insert_at less_Suc_eq_le)
  have len': "length (tm_codes m') = length (tm_sets m') + 1" "length (tm_sets m') = Suc (length (tm_sets m))"
    using k len by (simp_all add: m'_def)
  have step: "tm_codes m' ! i < tm_codes m' ! Suc i" if "Suc i < length (tm_codes m')" for i
  proof -
    have i: "i \<le> length (tm_sets m)" using that len' by simp
    consider "Suc i \<le> k" | "i = k" | "i = Suc k" | "Suc k < i" by linarith
    then show ?thesis
    proof cases
      case 1
      then show ?thesis using k tm_ok_codes(3) [OF ok, of i "Suc i"] by (simp add: codes')
    next
      case 4
      then show ?thesis using i tm_ok_codes(3) [OF ok, of "i - 1" i] by (simp add: codes')
    qed (use less in \<open>simp_all add: codes'\<close>)
  qed
  have sorted: "sorted_wrt (<) (tm_codes m')"
    using step by (auto simp: sorted_wrt_iff_nth_Suc_transp)
  have ne: "tm_codes m' \<noteq> []" "tm_codes m \<noteq> []" using len len' by auto
  have "hd (tm_codes m') = - maxint"
    using codes' [of 0] ok ne by (simp add: hd_conv_nth tm_ok_def)
  moreover have "last (tm_codes m') = maxint"
    using codes' [of "Suc (length (tm_sets m))"] k ok ne len len'
    by (simp add: last_conv_nth tm_ok_def)
  ultimately have ok': "tm_ok m'"
    using sorted len' ok by (auto simp: tm_ok_def m'_def)
  have "tm_lookup m' c = tm_lookup m c" if c: "- maxint \<le> c" "c < maxint" for c
  proof -
    obtain i where i: "i < length (tm_sets m')" "tm_codes m' ! i \<le> c" "c < tm_codes m' ! Suc i"
      using tm_range_exists [OF ok' c] .
    show ?thesis
    proof (cases "i \<le> k")
      case True
      have "c < tm_codes m ! Suc i"
        using i(3) True less by (cases "i = k") (auto simp: codes')
      with True i k show ?thesis
        by (simp add: tm_lookup_nth [OF ok' i] sets') (simp add: tm_lookup_nth [OF ok, of i] codes')
    next
      case False
      have "tm_codes m ! (i - 1) \<le> c" "c < tm_codes m ! i"
        using i(2,3) False less by (cases "i = Suc k"; auto simp: codes')+
      with False i len' show ?thesis
        by (simp add: tm_lookup_nth [OF ok' i] sets') (simp add: tm_lookup_nth [OF ok, of "i - 1"])
    qed
  qed
  with ok' show ?thesis by simp
qed

lemma tm_split_spec:
  assumes ok: "tm_ok m" and code: "- maxint \<le> code" "code \<le> maxint"
  obtains k m' where "tm_split code m = (2 * k, m')" "tm_ok m'" "k \<le> length (tm_sets m')"
    "tm_codes m' ! k = code" "tm_special m' = tm_special m"
    "\<And>c. - maxint \<le> c \<Longrightarrow> c < maxint \<Longrightarrow> tm_lookup m' c = tm_lookup m c"
    "\<And>j. j < k \<Longrightarrow> tm_codes m' ! j = tm_codes m ! j"
    "\<And>j. j \<le> length (tm_sets m) \<Longrightarrow> tm_codes m ! j < code \<Longrightarrow> j < k"
proof (cases "code = maxint")
  case True
  let ?n = "length (tm_sets m)"
  have len: "length (tm_codes m) - 1 = ?n" using ok by (simp add: tm_ok_def)
  have last: "tm_codes m ! ?n = maxint" by (rule tm_ok_codes(2) [OF ok])
  have "j < ?n" if "j \<le> ?n" "tm_codes m ! j < code" for j
    using that last True by (cases "j = ?n") auto
  moreover have "tm_split code m = (2 * ?n, m)" using True len by (simp add: tm_split_def Let_def)
  ultimately show thesis using that [of ?n m, OF _ ok] True last by blast
next
  case False
  let ?n = "length (tm_sets m)"
  have len: "length (tm_codes m) - 1 = ?n" and n: "0 < ?n" using ok by (simp_all add: tm_ok_def)
  have first: "code_at m 0 \<le> code" "code < code_at m (2 * ?n)"
    using tm_ok_codes(1,2) [OF ok] code False by (simp_all add: code_at_def)
  obtain k where search: "split_search m code 0 (2 * ?n) = (2 * k, 2 * Suc k)" "2 * Suc k \<le> 2 * ?n"
    "code_at m (2 * k) \<le> code" "code < code_at m (2 * Suc k)"
    using split_search_spec [OF _ _ _ first] n by auto
  have codes: "k < ?n" "tm_codes m ! k \<le> code" "code < tm_codes m ! Suc k"
    using search(2-4) by (simp_all add: code_at_def)
  have below: "j \<le> k" if "j \<le> ?n" "tm_codes m ! j < code" for j
  proof (rule ccontr)
    assume "\<not> j \<le> k"
    then have "tm_codes m ! Suc k \<le> tm_codes m ! j"
      using tm_ok_codes(3) [OF ok, of "Suc k" j] that(1) by (cases "j = Suc k") auto
    with that(2) codes(3) show False by simp
  qed
  show thesis
  proof (cases "tm_codes m ! k = code")
    case True
    have "j < k" if "j \<le> ?n" "tm_codes m ! j < code" for j
      using below [OF that] that True by (cases "j = k") auto
    moreover have "tm_split code m = (2 * k, m)"
      using True False search(1) len by (simp add: tm_split_def Let_def code_at_def)
    ultimately show thesis using that [of k m, OF _ ok] True codes(1) by simp
  next
    case no: False
    let ?m = "m\<lparr>tm_codes := insert_at (Suc k) code (tm_codes m),
                tm_sets := insert_at (Suc k) (tm_sets m ! k) (tm_sets m)\<rparr>"
    have split: "tm_split code m = (2 * Suc k, ?m)"
      using False no search(1) len by (simp add: tm_split_def Let_def code_at_def)
    have ins: "tm_ok ?m" "\<And>c. - maxint \<le> c \<Longrightarrow> c < maxint \<Longrightarrow> tm_lookup ?m c = tm_lookup m c"
      using tm_insert [OF ok codes(1), of code] no codes(2,3) by auto
    show thesis
    proof (rule that [OF split ins(1)])
      show "Suc k \<le> length (tm_sets ?m)" "tm_codes ?m ! Suc k = code"
        "\<And>j. j < Suc k \<Longrightarrow> tm_codes ?m ! j = tm_codes m ! j"
        using codes(1) ok by (simp_all add: nth_insert_at tm_ok_def)
      show "\<And>j. j \<le> ?n \<Longrightarrow> tm_codes m ! j < code \<Longrightarrow> j < Suc k" using below by fastforce
    qed (use ins(2) in simp_all)
  qed
qed

subsection \<open>Adding\<close>

lemma tm_update_spec:
  "k1 \<le> length (tm_sets m) \<Longrightarrow>
     tm_codes (tm_update (2 * k0) (2 * k1) new m) = tm_codes m
     \<and> tm_special (tm_update (2 * k0) (2 * k1) new m) = tm_special m
     \<and> length (tm_sets (tm_update (2 * k0) (2 * k1) new m)) = length (tm_sets m)
     \<and> (\<forall>k < length (tm_sets m). tm_sets (tm_update (2 * k0) (2 * k1) new m) ! k =
          tm_sets m ! k \<union> (if k0 \<le> k \<and> k < k1 then new else {}))"
proof (induction "k1 - k0" arbitrary: k0 m)
  case 0
  then show ?case by (subst (1 2 3 4) tm_update.simps) auto
next
  case (Suc d)
  let ?m = "m\<lparr>tm_sets := (tm_sets m)[k0 := tm_sets m ! k0 \<union> new]\<rparr>"
  have step: "tm_update (2 * k0) (2 * k1) new m = tm_update (2 * Suc k0) (2 * k1) new ?m"
    using Suc.hyps(2) by (subst tm_update.simps) simp
  show ?case
    unfolding step using Suc.hyps(1) [of "Suc k0" ?m] Suc.hyps(2) Suc.prems
    by (auto simp: nth_list_update)
qed

lemma tm_update_ok:
  fixes k0 k1 :: nat and new :: "nat set"
  assumes ok: "tm_ok m" and k1: "k1 \<le> length (tm_sets m)"
  defines "m' \<equiv> tm_update (2 * k0) (2 * k1) new m"
  shows "tm_ok m' \<and> (\<forall>c. - maxint \<le> c \<longrightarrow> c < maxint \<longrightarrow>
     tm_lookup m' c = tm_lookup m c \<union>
       (if k0 < k1 \<and> tm_codes m ! k0 \<le> c \<and> c < tm_codes m ! k1 then new else {}))"
proof -
  note u = tm_update_spec [OF k1, of k0 new, folded m'_def]
  have len: "length (tm_sets m') = length (tm_sets m)" using u by simp
  then have ok': "tm_ok m'"
    using u ok by (auto simp: tm_ok_def)
  have "tm_lookup m' c = tm_lookup m c \<union>
       (if k0 < k1 \<and> tm_codes m ! k0 \<le> c \<and> c < tm_codes m ! k1 then new else {})"
    if c: "- maxint \<le> c" "c < maxint" for c
  proof -
    obtain k where k: "k < length (tm_sets m)" "tm_codes m ! k \<le> c" "c < tm_codes m ! Suc k"
      using tm_range_exists [OF ok c] .
    have iff: "tm_codes m ! j \<le> c \<longleftrightarrow> j \<le> k" if "j \<le> length (tm_sets m)" for j
    proof
      assume "tm_codes m ! j \<le> c"
      then show "j \<le> k"
        using tm_ok_codes(3) [OF ok, of "Suc k" j] k(3) that by (cases "j = Suc k") force+
    next
      assume "j \<le> k"
      then show "tm_codes m ! j \<le> c"
        using tm_ok_codes(3) [OF ok, of j k] k by (cases "j = k") auto
    qed
    have "(k0 < k1 \<and> tm_codes m ! k0 \<le> c \<and> c < tm_codes m ! k1) \<longleftrightarrow> k0 \<le> k \<and> k < k1"
      using iff [of k0] iff [OF k1] k1 by (auto simp: not_le [symmetric])
    then show ?thesis
      using u k tm_lookup_nth [OF ok k] tm_lookup_nth [OF ok', of k c] by (simp add: len)
  qed
  with ok' show ?thesis by simp
qed

definition event_ok :: "plex_event \<Rightarrow> bool" where
  "event_ok event \<longleftrightarrow>
     (case event of
        Codes code0 code1 \<Rightarrow>
          - maxint \<le> code0 \<and> code0 \<le> maxint \<and> - maxint \<le> code1 \<and> code1 \<le> maxint
      | Special _ \<Rightarrow> True)"

text \<open>The states an event adds to a character code, and to a special event.\<close>

definition event_code :: "plex_event \<Rightarrow> int \<Rightarrow> bool" where
  "event_code event c \<longleftrightarrow>
     (case event of Codes code0 code1 \<Rightarrow> code0 \<le> c \<and> c < code1 | Special _ \<Rightarrow> False)"

lemma tm_add_set_codes:
  fixes new :: "nat set"
  assumes ok: "tm_ok m" and codes: "event_ok (Codes code0 code1)"
  defines "m' \<equiv> tm_add_set (Codes code0 code1) new m"
  shows "tm_ok m' \<and> tm_special m' = tm_special m \<and> (\<forall>c. - maxint \<le> c \<longrightarrow> c < maxint \<longrightarrow>
     tm_lookup m' c = tm_lookup m c \<union> (if code0 \<le> c \<and> c < code1 then new else {}))"
proof -
  obtain k0 m0 where s0: "tm_split code0 m = (2 * k0, m0)" "tm_ok m0" "k0 \<le> length (tm_sets m0)"
    "tm_codes m0 ! k0 = code0" "tm_special m0 = tm_special m"
    "\<And>c. - maxint \<le> c \<Longrightarrow> c < maxint \<Longrightarrow> tm_lookup m0 c = tm_lookup m c"
    by (rule tm_split_spec [OF ok, of code0]) (use codes in \<open>auto simp: event_ok_def\<close>)
  obtain k1 m1 where s1: "tm_split code1 m0 = (2 * k1, m1)" "tm_ok m1" "k1 \<le> length (tm_sets m1)"
    "tm_codes m1 ! k1 = code1" "tm_special m1 = tm_special m0"
    "\<And>c. - maxint \<le> c \<Longrightarrow> c < maxint \<Longrightarrow> tm_lookup m1 c = tm_lookup m0 c"
    "\<And>j. j < k1 \<Longrightarrow> tm_codes m1 ! j = tm_codes m0 ! j"
    "\<And>j. j \<le> length (tm_sets m0) \<Longrightarrow> tm_codes m0 ! j < code1 \<Longrightarrow> j < k1"
    by (rule tm_split_spec [OF s0(2), of code1]) (use codes in \<open>auto simp: event_ok_def\<close>)
  have m': "m' = tm_update (2 * k0) (2 * k1) new m1"
    by (simp add: m'_def s0(1) s1(1))
  have less: "k0 < k1 \<longleftrightarrow> code0 < code1"
  proof
    assume k: "k0 < k1"
    then have "tm_codes m1 ! k0 < tm_codes m1 ! k1" by (rule tm_ok_codes(3) [OF s1(2) _ s1(3)])
    with s1(4) s1(7) [of k0] k s0(4) show "code0 < code1" by simp
  qed (use s1(8) [OF s0(3)] s0(4) in simp)
  have at0: "tm_codes m1 ! k0 = code0" if "k0 < k1" using s1(7) [OF that] s0(4) by simp
  have "tm_ok m'" and lookup: "\<And>c. - maxint \<le> c \<Longrightarrow> c < maxint \<Longrightarrow> tm_lookup m' c = tm_lookup m1 c \<union>
       (if k0 < k1 \<and> tm_codes m1 ! k0 \<le> c \<and> c < tm_codes m1 ! k1 then new else {})"
    unfolding m' using tm_update_ok [OF s1(2,3)] by blast+
  moreover have "tm_special m' = tm_special m"
    unfolding m' using tm_update_spec [OF s1(3)] s1(5) s0(5) by simp
  moreover have "tm_lookup m' c = tm_lookup m c \<union> (if code0 \<le> c \<and> c < code1 then new else {})"
    if c: "- maxint \<le> c" "c < maxint" for c
    using lookup [OF c] s1(6) [OF c] s0(6) [OF c] less at0 s1(4) by auto
  ultimately show ?thesis by blast
qed

lemma special_set_set:
  "special_set (m\<lparr>tm_special := dict_set e s (tm_special m)\<rparr>) e' =
     (if e' = e then s else special_set m e')"
  by (simp add: special_set_def dict_get_set)

lemma tm_lookup_special [simp]: "tm_lookup (m\<lparr>tm_special := sp\<rparr>) c = tm_lookup m c"
  by (simp add: tm_lookup_def)

lemma tm_ok_special: "tm_ok m \<Longrightarrow> dict_wf sp \<Longrightarrow> tm_ok (m\<lparr>tm_special := sp\<rparr>)"
  by (simp add: tm_ok_def)

lemma tm_add_set_special:
  assumes "tm_ok m"
  shows "tm_ok (tm_add_set (Special e) new m)
    \<and> (\<forall>c. tm_lookup (tm_add_set (Special e) new m) c = tm_lookup m c)
    \<and> (\<forall>e'. special_set (tm_add_set (Special e) new m) e' =
          special_set m e' \<union> (if e' = e then new else {}))"
proof -
  have wf: "dict_wf (tm_special m)" using assms by (simp add: tm_ok_def)
  show ?thesis
    using assms wf
    by (cases "dict_get (tm_special m) e")
      (auto simp: get_special_def special_set_set tm_ok_special dict_wf_set special_set_def
        dict_get_set)
qed

lemma tm_add_set_props:
  assumes "tm_ok m" and "event_ok event"
  shows "tm_ok (tm_add_set event new m)"
    and "- maxint \<le> c \<Longrightarrow> c < maxint \<Longrightarrow> tm_lookup (tm_add_set event new m) c =
          tm_lookup m c \<union> (if event_code event c then new else {})"
    and "special_set (tm_add_set event new m) e =
          special_set m e \<union> (if event = Special e then new else {})"
proof -
  show "tm_ok (tm_add_set event new m)"
    using tm_add_set_codes [OF assms(1)] tm_add_set_special [OF assms(1)] assms(2)
    by (cases event) blast+
  show "- maxint \<le> c \<Longrightarrow> c < maxint \<Longrightarrow> tm_lookup (tm_add_set event new m) c =
          tm_lookup m c \<union> (if event_code event c then new else {})"
  proof (cases event)
    case (Codes code0 code1)
    then show "- maxint \<le> c \<Longrightarrow> c < maxint \<Longrightarrow> ?thesis"
      using tm_add_set_codes [OF assms(1), of code0 code1 new] assms(2)
      by (simp add: event_code_def)
  next
    case (Special e')
    then show ?thesis
      using tm_add_set_special [OF assms(1), of e' new] by (simp add: event_code_def)
  qed
  show "special_set (tm_add_set event new m) e =
          special_set m e \<union> (if event = Special e then new else {})"
  proof (cases event)
    case (Codes code0 code1)
    then show ?thesis
      using tm_add_set_codes [OF assms(1), of code0 code1 new] assms(2)
      by (simp add: special_set_def del: tm_add_set.simps)
  next
    case (Special e')
    then show ?thesis
      using tm_add_set_special [OF assms(1), of e' new] by (auto simp del: tm_add_set.simps)
  qed
qed

lemma tm_ends:
  assumes "tm_ok tm"
  shows "hd (tm_sets tm) = tm_lookup tm (- maxint)"
    and "last (tm_sets tm) = tm_lookup tm (maxint - 1)"
proof -
  have n: "0 < length (tm_sets tm)" using assms by (simp add: tm_ok_def)
  have "tm_codes tm ! 0 < tm_codes tm ! Suc 0" using tm_ok_codes(3) [OF assms, of 0 1] n by simp
  then show "hd (tm_sets tm) = tm_lookup tm (- maxint)"
    using tm_lookup_nth [OF assms n, of "- maxint"] tm_ok_codes(1) [OF assms] n
    by (simp add: hd_conv_nth)
  let ?k = "length (tm_sets tm) - 1"
  have "tm_codes tm ! ?k < tm_codes tm ! Suc ?k" using tm_ok_codes(3) [OF assms, of ?k "Suc ?k"] n by simp
  then show "last (tm_sets tm) = tm_lookup tm (maxint - 1)"
    using tm_lookup_nth [OF assms, of ?k "maxint - 1"] tm_ok_codes(2) [OF assms] n
    by (simp add: last_conv_nth)
qed

lemma tm_closed_lookup:
  "tm_ok m \<Longrightarrow> tm_closed m \<longleftrightarrow> tm_lookup m (- maxint) = tm_lookup m (maxint - 1)"
  by (simp add: tm_closed_def tm_ends)

text \<open>C21. Adding states under a range or a special event keeps the first four invariants that the
  class documents (at least one range, from \<open>-maxint\<close> to \<open>maxint\<close>, the codes strictly increasing)
  and adds the states to exactly the characters of the range, the lower code included and the
  upper excluded, or to exactly the special event, whatever split points the map had and even when
  the range is empty or reversed. The fifth documented invariant, that the first and the last set
  are equal, is kept exactly when the event has both ends of the code range or neither, or the
  states were at the ends already; adding a range with only one of the ends breaks it.\<close>

theorem transition_map_add:
  assumes "tm_ok m" and "event_ok event"
  shows "tm_ok (tm_add_set event new m)
    \<and> (\<forall>c. - maxint \<le> c \<and> c < maxint \<longrightarrow> tm_lookup (tm_add_set event new m) c =
          tm_lookup m c \<union> (if event_code event c then new else {}))
    \<and> (\<forall>e. special_set (tm_add_set event new m) e =
          special_set m e \<union> (if event = Special e then new else {}))
    \<and> (tm_closed m \<longrightarrow>
         (tm_closed (tm_add_set event new m) \<longleftrightarrow>
            (event_code event (- maxint) \<longleftrightarrow> event_code event (maxint - 1))
            \<or> new \<subseteq> tm_lookup m (- maxint)))"
proof -
  note props = tm_add_set_props [OF assms, where new = new]
  have "tm_closed (tm_add_set event new m) \<longleftrightarrow>
      (event_code event (- maxint) \<longleftrightarrow> event_code event (maxint - 1)) \<or> new \<subseteq> tm_lookup m (- maxint)"
    if "tm_closed m"
    using that assms(1) props(2) [where c = "- maxint"] props(2) [where c = "maxint - 1"]
    by (auto simp: tm_closed_lookup [OF props(1)] tm_closed_lookup maxint_def)
  with props show ?thesis by blast
qed

lemma transition_map_add_witness:
  "tm_lookup (tm_add_set (Codes 97 123) {5} tm_new) 97 = {5}
   \<and> tm_lookup (tm_add_set (Codes 97 123) {5} tm_new) 123 = {}
   \<and> tm_closed (tm_add_set (Codes 97 123) {5} tm_new)
   \<and> \<not> tm_closed (tm_add_set (Codes (- maxint) 5) {5} tm_new)"
  using transition_map_add [OF tm_ok_new, of "Codes 97 123" "{5}"]
    transition_map_add [OF tm_ok_new, of "Codes (- maxint) 5" "{5}"]
  by (simp add: event_ok_def event_code_def maxint_def tm_lookup_new)
     (simp add: tm_closed_def tm_new_def)

declare tm_add_set.simps [simp del]

subsection \<open>The items of a map\<close>

lemma range_items_mem:
  assumes "sorted_wrt (<) codes" and "length codes = length sets + 1"
  shows "(event, s) \<in> set (range_items keep codes sets) \<longleftrightarrow>
    (\<exists>k < length sets. event = Codes (codes ! k) (codes ! Suc k) \<and> s = sets ! k \<and> (s \<noteq> {} \<or> keep))"
  using assms
proof (induction keep codes sets rule: range_items.induct)
  case (1 keep code0 code1 codes x sets)
  then show ?case by (auto simp: less_Suc_eq_0_disj)
qed auto

lemma tm_items_mem:
  assumes "tm_ok m"
  shows "(event, s) \<in> set (tm_items m) \<longleftrightarrow>
    (\<exists>k < length (tm_sets m). event = Codes (tm_codes m ! k) (tm_codes m ! Suc k)
        \<and> s = tm_sets m ! k \<and> (s \<noteq> {} \<or> tm_sets m ! 0 \<noteq> {}))
    \<or> (\<exists>e. event = Special e \<and> dict_get (tm_special m) e = Some s \<and> s \<noteq> {})"
proof -
  have "sorted_wrt (<) (tm_codes m)" "length (tm_codes m) = length (tm_sets m) + 1"
    "dict_wf (tm_special m)"
    using assms by (simp_all add: tm_ok_def)
  then show ?thesis
    by (auto simp: tm_items_def Let_def range_items_mem dict_wf_mem)
qed

lemma tm_items_ok:
  assumes "tm_ok m" and "(event, s) \<in> set (tm_items m)"
  shows "event_ok event"
proof -
  have range: "- maxint \<le> tm_codes m ! k \<and> tm_codes m ! k \<le> maxint" if "k \<le> length (tm_sets m)" for k
    using tm_ok_codes(1,2) [OF assms(1)] tm_ok_codes(3) [OF assms(1), of 0 k]
      tm_ok_codes(3) [OF assms(1), of k "length (tm_sets m)"] that
    by (cases "k = 0"; cases "k = length (tm_sets m)") auto
  show ?thesis
    using assms by (auto simp: tm_items_mem event_ok_def range)
qed

text \<open>The items say what the map says.\<close>

lemma tm_items_lookup:
  assumes "tm_ok m" and c: "- maxint \<le> c" "c < maxint"
  shows "(\<Union>(event, s) \<in> set (tm_items m). if event_code event c then s else {}) = tm_lookup m c"
proof -
  obtain k where k: "k < length (tm_sets m)" "tm_codes m ! k \<le> c" "c < tm_codes m ! Suc k"
    using tm_range_exists [OF assms] .
  have l: "tm_lookup m c = tm_sets m ! k" by (rule tm_lookup_nth [OF assms(1) k])
  have "x \<in> (\<Union>(event, s) \<in> set (tm_items m). if event_code event c then s else {})
      \<longleftrightarrow> x \<in> tm_sets m ! k" for x
  proof
    assume "x \<in> (\<Union>(event, s) \<in> set (tm_items m). if event_code event c then s else {})"
    then obtain event s where e: "(event, s) \<in> set (tm_items m)" "event_code event c" "x \<in> s"
      by (auto split: if_splits)
    then obtain i where i: "i < length (tm_sets m)" "event = Codes (tm_codes m ! i) (tm_codes m ! Suc i)"
      "s = tm_sets m ! i"
      using tm_items_mem [OF assms(1), of event s] by (auto simp: event_code_def)
    then have "tm_codes m ! i \<le> c" "c < tm_codes m ! Suc i" using e(2) by (simp_all add: event_code_def)
    then have "tm_lookup m c = tm_sets m ! i" by (rule tm_lookup_nth [OF assms(1) i(1)])
    with e(3) i(3) l show "x \<in> tm_sets m ! k" by simp
  next
    assume "x \<in> tm_sets m ! k"
    with k show "x \<in> (\<Union>(event, s) \<in> set (tm_items m). if event_code event c then s else {})"
      using tm_items_mem [OF assms(1), of "Codes (tm_codes m ! k) (tm_codes m ! Suc k)" "tm_sets m ! k"]
      by (auto simp: event_code_def intro!: bexI)
  qed
  then show ?thesis using l by blast
qed

lemma tm_items_special:
  assumes "tm_ok m"
  shows "(\<Union>(event, s) \<in> set (tm_items m). if event = Special e then s else {}) = special_set m e"
  using tm_items_mem [OF assms]
  by (auto simp: special_set_def split: option.splits if_splits) force+

end
