(* ===== verification/PlexMachines.thy ===== *)
theory PlexMachines
  imports PlexTransitions
begin

text \<open>
  \<open>Cython/Plex/Machines.py\<close>: the nondeterministic \<open>Machine\<close> with its \<open>Node\<close>s and the
  deterministic \<open>FastMachine\<close>. A reference to a node or to a state of a \<open>FastMachine\<close> is its
  number, which \<open>new_state\<close> takes from a counter that starts at 1: number \<open>n\<close> is the element
  \<open>n - 1\<close> of the list of states. The actions are a type parameter.
\<close>

subsection \<open>Machine\<close>

definition LOWEST_PRIORITY :: int where
  "LOWEST_PRIORITY = - maxint"

record 'a Node =
  transitions :: TransitionMap
  action_priority :: int
  node_action :: "'a option"
  node_number :: nat

record 'a Machine =
  machine_states :: "'a Node list"
  initial_states :: "(string, nat) pydict"
  next_state_number :: nat

definition machine_init :: "'a Machine" where
  "machine_init = \<lparr>machine_states = [], initial_states = [], next_state_number = 1\<rparr>"

definition node_init :: "nat \<Rightarrow> 'a Node" where
  "node_init n =
     \<lparr>transitions = tm_new, action_priority = LOWEST_PRIORITY, node_action = None,
      node_number = n\<rparr>"

definition new_state :: "'a Machine \<Rightarrow> nat \<times> 'a Machine" where
  "new_state m =
     (let n = next_state_number m
      in (n, m\<lparr>next_state_number := n + 1, machine_states := machine_states m @ [node_init n]\<rparr>))"

definition make_initial_state :: "string \<Rightarrow> nat \<Rightarrow> 'a Machine \<Rightarrow> 'a Machine" where
  "make_initial_state name state m = m\<lparr>initial_states := dict_set name state (initial_states m)\<rparr>"

definition new_initial_state :: "string \<Rightarrow> 'a Machine \<Rightarrow> nat \<times> 'a Machine" where
  "new_initial_state name m =
     (let (state, m) = new_state m in (state, make_initial_state name state m))"

text \<open>The node a reference points to, and an update of it in place.\<close>

definition node_at :: "'a Machine \<Rightarrow> nat \<Rightarrow> 'a Node" where
  "node_at m n = machine_states m ! (n - 1)"

definition node_update :: "nat \<Rightarrow> ('a Node \<Rightarrow> 'a Node) \<Rightarrow> 'a Machine \<Rightarrow> 'a Machine" where
  "node_update n f m =
     m\<lparr>machine_states := (machine_states m)[n - 1 := f (node_at m n)]\<rparr>"

definition add_transition :: "nat \<Rightarrow> plex_event \<Rightarrow> nat \<Rightarrow> 'a Machine \<Rightarrow> 'a Machine" where
  "add_transition s event state m =
     node_update s (\<lambda>node. node\<lparr>transitions := tm_add event state (transitions node)\<rparr>) m"

definition link_to :: "nat \<Rightarrow> nat \<Rightarrow> 'a Machine \<Rightarrow> 'a Machine" where
  "link_to s state m = add_transition s (Special []) state m"

definition set_action :: "nat \<Rightarrow> 'a \<Rightarrow> int \<Rightarrow> 'a Machine \<Rightarrow> 'a Machine" where
  "set_action s action priority m =
     node_update s (\<lambda>node.
       if priority > action_priority node
       then node\<lparr>node_action := Some action, action_priority := priority\<rparr> else node) m"

subsection \<open>FastMachine\<close>

text \<open>The keys of a state's dictionary: a character, or one of the strings of the template. The
  entries \<open>number\<close> and \<open>action\<close> are fields.\<close>

datatype dict_key = KChar int | KSym string

record 'a FastState =
  fs_keys :: "(dict_key, nat option) pydict"
  fs_number :: nat
  fs_action :: "'a option"

record 'a FastMachine =
  fm_initial_states :: "(string, nat) pydict"
  fm_states :: "'a FastState list"
  fm_next_number :: nat

definition fast_machine_init :: "'a FastMachine" where
  "fast_machine_init = \<lparr>fm_initial_states = [], fm_states = [], fm_next_number = 1\<rparr>"

definition new_state_template :: "(dict_key, nat option) pydict" where
  "new_state_template =
     [(KSym [], None), (KSym ''bol'', None), (KSym ''eol'', None), (KSym ''eof'', None),
      (KSym ''else'', None)]"

definition fm_new_state :: "'a option \<Rightarrow> 'a FastMachine \<Rightarrow> nat \<times> 'a FastMachine" where
  "fm_new_state action m =
     (let number = fm_next_number m
      in (number, m\<lparr>fm_next_number := number + 1,
            fm_states := fm_states m
              @ [\<lparr>fs_keys = new_state_template, fs_number = number, fs_action = action\<rparr>]\<rparr>))"

definition fm_make_initial_state :: "string \<Rightarrow> nat \<Rightarrow> 'a FastMachine \<Rightarrow> 'a FastMachine" where
  "fm_make_initial_state name state m =
     m\<lparr>fm_initial_states := dict_set name state (fm_initial_states m)\<rparr>"

text \<open>\<open>chr\<close> raises \<open>ValueError\<close> for a number that is not a code point; a missing entry of
  \<open>new_to_old_dict\<close> is a \<open>KeyError\<close>.\<close>

datatype plex_error = ChrValueError int | StateKeyError nat

definition chr_ok :: "int \<Rightarrow> bool" where
  "chr_ok code \<longleftrightarrow> 0 \<le> code \<and> code < 0x110000"

fun set_chars ::
  "int list \<Rightarrow> nat \<Rightarrow> (dict_key, nat option) pydict \<Rightarrow> plex_error + (dict_key, nat option) pydict" where
  "set_chars [] target d = Inr d"
| "set_chars (code # codes) target d =
     (if \<not> chr_ok code then Inl (ChrValueError code)
      else set_chars codes target (dict_set (KChar code) (Some target) d))"

definition add_transitions ::
  "(dict_key, nat option) pydict \<Rightarrow> plex_event \<Rightarrow> nat
   \<Rightarrow> plex_error + (dict_key, nat option) pydict" where
  "add_transitions d event target =
     (case event of
        Codes code0 code1 \<Rightarrow>
          if code0 = - maxint then Inr (dict_set (KSym ''else'') (Some target) d)
          else if code1 \<noteq> maxint then set_chars [code0..code1 - 1] target d
          else Inr d
      | Special e \<Rightarrow> Inr (dict_set (KSym e) (Some target) d))"

definition fm_state :: "'a FastMachine \<Rightarrow> nat \<Rightarrow> 'a FastState" where
  "fm_state m n = fm_states m ! (n - 1)"

definition fm_add_transitions ::
  "nat \<Rightarrow> plex_event \<Rightarrow> nat \<Rightarrow> 'a FastMachine \<Rightarrow> plex_error + 'a FastMachine" where
  "fm_add_transitions state event target m =
     (case add_transitions (fs_keys (fm_state m state)) event target of
        Inl e \<Rightarrow> Inl e
      | Inr d \<Rightarrow> Inr (m\<lparr>fm_states := (fm_states m)[state - 1 := (fm_state m state)\<lparr>fs_keys := d\<rparr>]\<rparr>))"

text \<open>The look up of the scanner: \<open>state.get(c)\<close>, and \<open>else\<close> when the key is missing. The
  input is a character or a symbol.\<close>

definition fast_next :: "'a FastState \<Rightarrow> dict_key \<Rightarrow> nat option" where
  "fast_next state c =
     (case dict_get (fs_keys state) c of
        Some target \<Rightarrow> target
      | None \<Rightarrow>
          (case dict_get (fs_keys state) (KSym ''else'') of Some target \<Rightarrow> target | None \<Rightarrow> None))"

subsection \<open>Filling the dictionary of a state\<close>

lemma set_chars_get:
  "\<forall>c \<in> set codes. chr_ok c \<Longrightarrow> \<exists>d'. set_chars codes target d = Inr d'
     \<and> (\<forall>key. dict_get d' key =
          (if \<exists>c \<in> set codes. key = KChar c then Some (Some target) else dict_get d key))"
proof (induction codes arbitrary: d)
  case Nil
  then show ?case by simp
next
  case (Cons a codes)
  then obtain d' where d': "set_chars codes target (dict_set (KChar a) (Some target) d) = Inr d'"
    "\<And>key. dict_get d' key = (if \<exists>c \<in> set codes. key = KChar c then Some (Some target)
        else dict_get (dict_set (KChar a) (Some target) d) key)"
    by fastforce
  then show ?case using Cons.prems by (auto simp: dict_get_set)
qed

text \<open>A range whose inner codes are code points.\<close>

definition event_chars_ok :: "plex_event \<Rightarrow> bool" where
  "event_chars_ok event \<longleftrightarrow>
     (case event of
        Codes code0 code1 \<Rightarrow>
          code0 = - maxint \<or> code1 = maxint \<or> 0 \<le> code0 \<and> code1 \<le> 0x110000
      | Special e \<Rightarrow> True)"

definition sets_key :: "plex_event \<Rightarrow> dict_key \<Rightarrow> bool" where
  "sets_key event key \<longleftrightarrow>
     (case event of
        Codes code0 code1 \<Rightarrow>
          if code0 = - maxint then key = KSym ''else''
          else code1 \<noteq> maxint \<and> (\<exists>c. key = KChar c \<and> code0 \<le> c \<and> c < code1)
      | Special e \<Rightarrow> key = KSym e)"

lemma add_transitions_get:
  assumes "event_chars_ok event"
  shows "\<exists>d'. add_transitions d event target = Inr d'
     \<and> (\<forall>key. dict_get d' key = (if sets_key event key then Some (Some target) else dict_get d key))"
proof (cases event)
  case (Special e)
  then show ?thesis by (simp add: add_transitions_def sets_key_def dict_get_set)
next
  case (Codes code0 code1)
  show ?thesis
  proof (cases "code0 = - maxint \<or> code1 = maxint")
    case True
    then show ?thesis using Codes
      by (auto simp: add_transitions_def sets_key_def dict_get_set)
  next
    case False
    then have "\<forall>c \<in> set [code0..code1 - 1]. chr_ok c"
      using assms Codes by (auto simp: event_chars_ok_def chr_ok_def)
    moreover have "(\<exists>c \<in> set [code0..code1 - 1]. key = KChar c) \<longleftrightarrow> sets_key event key" for key
      using False Codes by (cases key) (auto simp: sets_key_def)
    ultimately show ?thesis
      using set_chars_get [of "[code0..code1 - 1]" target d] False
      by (simp add: Codes add_transitions_def)
  qed
qed

end
