(* ===== verification/PlexDFA.thy ===== *)
theory PlexDFA
  imports PlexMachines
begin

text \<open>
  \<open>Cython/Plex/DFA.py\<close>: the subset construction. Sets of states are sets of node numbers;
  where the code iterates over a Python set the model goes through it in ascending order, which
  no result depends on. The cache of \<open>epsilon_closure\<close> has no counterpart.
\<close>

subsection \<open>Epsilon closure\<close>

definition nodes :: "'a Machine \<Rightarrow> nat set" where
  "nodes m = {1..length (machine_states m)}"

text \<open>The states \<open>add_to_epsilon_closure\<close> recurses into.\<close>

definition epsilon_moves :: "'a Machine \<Rightarrow> nat \<Rightarrow> nat list" where
  "epsilon_moves m n =
     (case get_epsilon (transitions (node_at m n)) of
        None \<Rightarrow> [] | Some s \<Rightarrow> sorted_list_of_set s)"

text \<open>\<open>add_to_epsilon_closure\<close>, its recursion as a stack of the states still to be added. A
  number that is no node of the machine does not occur.\<close>

function add_to_epsilon_closure :: "'a Machine \<Rightarrow> nat set \<Rightarrow> nat list \<Rightarrow> nat set" where
  "add_to_epsilon_closure m state_set [] = state_set"
| "add_to_epsilon_closure m state_set (n # stack) =
     (if n \<in> state_set \<or> n \<notin> nodes m then add_to_epsilon_closure m state_set stack
      else add_to_epsilon_closure m (insert n state_set) (epsilon_moves m n @ stack))"
  by pat_completeness auto
termination
proof (relation "measures [\<lambda>(m, state_set, stack). card (nodes m - state_set),
    \<lambda>(m, state_set, stack). length stack]", goal_cases)
  case 1
  show ?case by simp
next
  case (2 m state_set n stack)
  then show ?case by simp
next
  case (3 m state_set n stack)
  then have "nodes m - insert n state_set \<subset> nodes m - state_set" by auto
  then have "card (nodes m - insert n state_set) < card (nodes m - state_set)"
    by (intro psubset_card_mono) (simp_all add: nodes_def)
  then show ?case by simp
qed

definition epsilon_closure :: "'a Machine \<Rightarrow> nat \<Rightarrow> nat set" where
  "epsilon_closure m n = add_to_epsilon_closure m {} [n]"

definition set_epsilon_closure :: "'a Machine \<Rightarrow> nat set \<Rightarrow> nat set" where
  "set_epsilon_closure m state_set = (\<Union>n \<in> state_set. epsilon_closure m n)"

subsection \<open>StateMap\<close>

record 'a StateMap =
  new_machine :: "'a FastMachine"
  old_to_new_dict :: "(nat set, nat) pydict"
  new_to_old_dict :: "(nat, nat set) pydict"

definition state_map_init :: "'a StateMap" where
  "state_map_init =
     \<lparr>new_machine = fast_machine_init, old_to_new_dict = [], new_to_old_dict = []\<rparr>"

text \<open>One turn of the loop of \<open>highest_priority_action\<close>.\<close>

definition better_action ::
  "'a Machine \<Rightarrow> 'a option \<times> int \<Rightarrow> nat \<Rightarrow> 'a option \<times> int" where
  "better_action m best n =
     (case best of (best_action, best_priority) \<Rightarrow>
        let priority = action_priority (node_at m n)
        in if priority > best_priority then (node_action (node_at m n), priority)
           else (best_action, best_priority))"

definition highest_priority_action :: "'a Machine \<Rightarrow> nat set \<Rightarrow> 'a option" where
  "highest_priority_action m state_set =
     fst (foldl (better_action m) (None, LOWEST_PRIORITY) (sorted_list_of_set state_set))"

definition old_to_new :: "'a Machine \<Rightarrow> nat set \<Rightarrow> 'a StateMap \<Rightarrow> nat \<times> 'a StateMap" where
  "old_to_new m old_state_set sm =
     (case dict_get (old_to_new_dict sm) old_state_set of
        Some n \<Rightarrow> (n, sm)
      | None \<Rightarrow>
          let action = highest_priority_action m old_state_set;
              (n, fm) = fm_new_state action (new_machine sm)
          in (n, \<lparr>new_machine = fm,
                  old_to_new_dict = dict_set old_state_set n (old_to_new_dict sm),
                  new_to_old_dict = dict_set n old_state_set (new_to_old_dict sm)\<rparr>))"

subsection \<open>The construction\<close>

text \<open>The inner loop over the transitions of one old state.\<close>

definition add_old_item ::
  "'a Machine \<Rightarrow> TransitionMap \<Rightarrow> plex_event \<times> nat set \<Rightarrow> TransitionMap" where
  "add_old_item m tm item =
     (case item of (event, old_target_states) \<Rightarrow>
        if event \<noteq> Special [] \<and> old_target_states \<noteq> {}
        then tm_add_set event (set_epsilon_closure m old_target_states) tm else tm)"

definition add_old_state :: "'a Machine \<Rightarrow> TransitionMap \<Rightarrow> nat \<Rightarrow> TransitionMap" where
  "add_old_state m tm n = foldl (add_old_item m) tm (tm_items (transitions (node_at m n)))"

definition union_transitions :: "'a Machine \<Rightarrow> nat set \<Rightarrow> TransitionMap" where
  "union_transitions m old_states =
     foldl (add_old_state m) tm_new (sorted_list_of_set old_states)"

text \<open>The loop that gives the new state its transitions.\<close>

fun add_new_transitions ::
  "'a Machine \<Rightarrow> nat \<Rightarrow> (plex_event \<times> nat set) list \<Rightarrow> 'a StateMap \<Rightarrow> plex_error + 'a StateMap" where
  "add_new_transitions m state [] sm = Inr sm"
| "add_new_transitions m state ((event, old_states) # items) sm =
     (let (target, sm) = old_to_new m old_states sm
      in case fm_add_transitions state event target (new_machine sm) of
           Inl e \<Rightarrow> Inl e
         | Inr fm \<Rightarrow> add_new_transitions m state items (sm\<lparr>new_machine := fm\<rparr>))"

definition process_state :: "'a Machine \<Rightarrow> nat \<Rightarrow> 'a StateMap \<Rightarrow> plex_error + 'a StateMap" where
  "process_state m state sm =
     (case dict_get (new_to_old_dict sm) state of
        None \<Rightarrow> Inl (StateKeyError state)
      | Some old_states \<Rightarrow>
          add_new_transitions m state (tm_items (union_transitions m old_states)) sm)"

text \<open>The loop over the growing list of new states; \<open>i\<close> is the index of the iteration.\<close>

partial_function (option) dfa_loop ::
  "'a Machine \<Rightarrow> nat \<Rightarrow> 'a StateMap \<Rightarrow> (plex_error + 'a StateMap) option" where
  "dfa_loop m i sm =
     (if i < length (fm_states (new_machine sm))
      then (case process_state m (i + 1) sm of
              Inl e \<Rightarrow> Some (Inl e)
            | Inr sm \<Rightarrow> dfa_loop m (i + 1) sm)
      else Some (Inr sm))"

fun seed_states ::
  "'a Machine \<Rightarrow> (string, nat) pydict \<Rightarrow> 'a StateMap \<Rightarrow> 'a StateMap" where
  "seed_states m [] sm = sm"
| "seed_states m ((key, old_state) # items) sm =
     (let (n, sm) = old_to_new m (epsilon_closure m old_state) sm
      in seed_states m items (sm\<lparr>new_machine := fm_make_initial_state key n (new_machine sm)\<rparr>))"

definition nfa_to_dfa :: "'a Machine \<Rightarrow> (plex_error + 'a FastMachine) option" where
  "nfa_to_dfa m =
     (case dfa_loop m 0 (seed_states m (initial_states m) state_map_init) of
        None \<Rightarrow> None
      | Some (Inl e) \<Rightarrow> Some (Inl e)
      | Some (Inr sm) \<Rightarrow> Some (Inr (new_machine sm)))"

subsection \<open>Running the machines\<close>

definition node_targets :: "'a Machine \<Rightarrow> nat \<Rightarrow> dict_key \<Rightarrow> nat set" where
  "node_targets m n key =
     (case key of
        KChar c \<Rightarrow> tm_lookup (transitions (node_at m n)) c
      | KSym e \<Rightarrow> special_set (transitions (node_at m n)) e)"

definition nfa_move :: "'a Machine \<Rightarrow> nat set \<Rightarrow> dict_key \<Rightarrow> nat set" where
  "nfa_move m old_states key = set_epsilon_closure m (\<Union>n \<in> old_states. node_targets m n key)"

definition nfa_action :: "'a Machine \<Rightarrow> nat \<Rightarrow> dict_key list \<Rightarrow> 'a option" where
  "nfa_action m n word =
     highest_priority_action m (foldl (nfa_move m) (epsilon_closure m n) word)"

fun fm_run :: "'a FastMachine \<Rightarrow> nat \<Rightarrow> dict_key list \<Rightarrow> nat option" where
  "fm_run fm n [] = Some n"
| "fm_run fm n (key # word) =
     (case fast_next (fm_state fm n) key of None \<Rightarrow> None | Some n' \<Rightarrow> fm_run fm n' word)"

definition fm_action :: "'a FastMachine \<Rightarrow> string \<Rightarrow> dict_key list \<Rightarrow> 'a option" where
  "fm_action fm name word =
     (case dict_get (fm_initial_states fm) name of
        None \<Rightarrow> None
      | Some n \<Rightarrow>
          (case fm_run fm n word of None \<Rightarrow> None | Some n' \<Rightarrow> fs_action (fm_state fm n')))"

text \<open>An input of the scanner: a character or one of the three symbols.\<close>

definition input_ok :: "dict_key \<Rightarrow> bool" where
  "input_ok key \<longleftrightarrow>
     (case key of KChar c \<Rightarrow> chr_ok c | KSym e \<Rightarrow> e \<in> set [''bol'', ''eol'', ''eof''])"

text \<open>A machine the scanner can run: its targets and initial states are states, and no state has a
  transition on the empty string.\<close>

definition fm_ok :: "'a FastMachine \<Rightarrow> bool" where
  "fm_ok fm \<longleftrightarrow>
     (\<forall>st \<in> set (fm_states fm).
        dict_get (fs_keys st) (KSym []) = Some None
        \<and> (\<forall>key target. input_ok key \<and> fast_next st key = Some target
             \<longrightarrow> target \<in> {1..length (fm_states fm)}))
     \<and> (\<forall>name n. dict_get (fm_initial_states fm) name = Some n \<longrightarrow> n \<in> {1..length (fm_states fm)})"

subsection \<open>Well-formed machines\<close>

definition code_ok :: "int \<Rightarrow> bool" where
  "code_ok c \<longleftrightarrow> c = - maxint \<or> c = maxint \<or> 0 \<le> c \<and> c \<le> 0x110000"

definition node_ok :: "nat set \<Rightarrow> TransitionMap \<Rightarrow> bool" where
  "node_ok U tm \<longleftrightarrow>
     tm_ok tm \<and> tm_closed tm \<and> (\<forall>c \<in> set (tm_codes tm). code_ok c)
     \<and> (\<forall>s \<in> set (tm_sets tm). s \<subseteq> U)
     \<and> (\<forall>(e, s) \<in> set (tm_special tm). e \<in> set [[], ''bol'', ''eol'', ''eof''] \<and> s \<subseteq> U)"

definition machine_ok :: "'a Machine \<Rightarrow> bool" where
  "machine_ok m \<longleftrightarrow>
     (\<forall>node \<in> set (machine_states m). node_ok (nodes m) (transitions node))
     \<and> (\<forall>(name, n) \<in> set (initial_states m). n \<in> nodes m) \<and> dict_wf (initial_states m)"

end
