(* ===== verification/PlexSubset.thy ===== *)
theory PlexSubset
  imports PlexDFA
begin

text \<open>
  The subset construction is correct: the closure is reachability, the union map is the union of
  the maps, every new state stands for one set of old states, the loop ends, and the machine it
  returns accepts with the action the old machine accepts with.
\<close>

subsection \<open>Epsilon closure\<close>

definition epsilon_rel :: "'a Machine \<Rightarrow> (nat \<times> nat) set" where
  "epsilon_rel m = {(a, b). b \<in> special_set (transitions (node_at m a)) []}"

lemma node_ok_at: "machine_ok m \<Longrightarrow> n \<in> nodes m \<Longrightarrow> node_ok (nodes m) (transitions (node_at m n))"
  by (auto simp: machine_ok_def nodes_def node_at_def)

lemma special_set_subset: "node_ok U tm \<Longrightarrow> special_set tm e \<subseteq> U"
  by (auto simp: node_ok_def special_set_def split: option.splits dest!: map_of_SomeD)

lemma finite_nodes [simp]: "finite (nodes m)"
  by (simp add: nodes_def)

lemma set_epsilon_moves:
  assumes "machine_ok m" and "n \<in> nodes m"
  shows "set (epsilon_moves m n) = {k. (n, k) \<in> epsilon_rel m}"
proof -
  have "special_set (transitions (node_at m n)) [] \<subseteq> nodes m"
    by (rule special_set_subset [OF node_ok_at [OF assms]])
  then have "finite (special_set (transitions (node_at m n)) [])"
    using finite_subset finite_nodes by blast
  then show ?thesis
    by (auto simp: epsilon_moves_def get_epsilon_def epsilon_rel_def special_set_def
        split: option.splits)
qed

lemma epsilon_rel_nodes: "machine_ok m \<Longrightarrow> a \<in> nodes m \<Longrightarrow> (a, b) \<in> epsilon_rel m \<Longrightarrow> b \<in> nodes m"
  using special_set_subset [OF node_ok_at] by (fastforce simp: epsilon_rel_def)

lemma epsilon_rtrancl_nodes:
  assumes "machine_ok m" and "a \<in> nodes m" and "(a, b) \<in> (epsilon_rel m)\<^sup>*"
  shows "b \<in> nodes m"
  using assms(3)
proof (induction rule: rtrancl_induct)
  case (step y z)
  then show ?case using epsilon_rel_nodes [OF assms(1)] by blast
qed (rule assms(2))

text \<open>What is added is reachable, and what is not left on the stack is closed.\<close>

lemma add_to_epsilon_closure_spec:
  assumes "machine_ok m"
  shows "set stack \<subseteq> nodes m
    \<Longrightarrow> (\<And>a b. a \<in> state_set \<Longrightarrow> (a, b) \<in> epsilon_rel m \<Longrightarrow> b \<in> state_set \<union> set stack)
    \<Longrightarrow> add_to_epsilon_closure m state_set stack
        = state_set \<union> {b. \<exists>a \<in> set stack. (a, b) \<in> (epsilon_rel m)\<^sup>*}"
  using assms
proof (induction m state_set stack rule: add_to_epsilon_closure.induct)
  case (1 m state_set)
  then show ?case by simp
next
  case (2 m S n stack)
  let ?R = "epsilon_rel m"
  show ?case
  proof (cases "n \<in> S")
    case True
    have IH: "add_to_epsilon_closure m S stack = S \<union> {b. \<exists>a \<in> set stack. (a, b) \<in> ?R\<^sup>*}"
      using "2.IH"(1) True "2.prems" by fastforce
    have "b \<in> S \<union> {b. \<exists>a \<in> set stack. (a, b) \<in> ?R\<^sup>*}" if "(n, b) \<in> ?R\<^sup>*" for b
      using that
    proof (induction rule: rtrancl_induct)
      case (step y z)
      then show ?case
        using "2.prems"(2) [of y z] True by (auto intro: rtrancl_into_rtrancl)
    qed (simp add: True)
    with IH True show ?thesis by auto
  next
    case False
    have n: "n \<in> nodes m" using "2.prems"(1) by simp
    have moves: "set (epsilon_moves m n) = {k. (n, k) \<in> ?R}"
      by (rule set_epsilon_moves [OF "2.prems"(3) n])
    have IH: "add_to_epsilon_closure m (insert n S) (epsilon_moves m n @ stack)
        = insert n S \<union> {b. \<exists>a \<in> set (epsilon_moves m n @ stack). (a, b) \<in> ?R\<^sup>*}"
    proof (rule "2.IH"(2))
      show "\<not> (n \<in> S \<or> n \<notin> nodes m)" using False n by simp
      show "set (epsilon_moves m n @ stack) \<subseteq> nodes m"
        using "2.prems"(1,3) n by (auto simp: moves dest: epsilon_rel_nodes)
      show "b \<in> insert n S \<union> set (epsilon_moves m n @ stack)"
        if "a \<in> insert n S" "(a, b) \<in> ?R" for a b
        using that "2.prems"(2) [of a b] by (auto simp: moves)
    qed (rule "2.prems"(3))
    have "(n, b) \<in> ?R\<^sup>* \<longleftrightarrow> b = n \<or> (\<exists>k. (n, k) \<in> ?R \<and> (k, b) \<in> ?R\<^sup>*)" for b
      by (metis converse_rtranclE converse_rtrancl_into_rtrancl rtrancl.rtrancl_refl)
    then show ?thesis using IH False n by (auto simp: moves)
  qed
qed

lemma epsilon_closure_rtrancl:
  assumes "machine_ok m" and "n \<in> nodes m"
  shows "epsilon_closure m n = {k. (n, k) \<in> (epsilon_rel m)\<^sup>*}"
  using add_to_epsilon_closure_spec [OF assms(1), of "[n]" "{}"] assms(2)
  by (simp add: epsilon_closure_def)

lemma epsilon_closure_nodes:
  "machine_ok m \<Longrightarrow> n \<in> nodes m \<Longrightarrow> epsilon_closure m n \<subseteq> nodes m"
  by (auto simp: epsilon_closure_rtrancl intro: epsilon_rtrancl_nodes)

lemma set_epsilon_closure_nodes:
  "machine_ok m \<Longrightarrow> X \<subseteq> nodes m \<Longrightarrow> set_epsilon_closure m X \<subseteq> nodes m"
  using epsilon_closure_nodes by (fastforce simp: set_epsilon_closure_def)

lemma set_epsilon_closure_Un:
  "set_epsilon_closure m (X \<union> Y) = set_epsilon_closure m X \<union> set_epsilon_closure m Y"
  by (auto simp: set_epsilon_closure_def)

lemma set_epsilon_closure_UN:
  "set_epsilon_closure m (\<Union>x \<in> A. f x) = (\<Union>x \<in> A. set_epsilon_closure m (f x))"
  by (auto simp: set_epsilon_closure_def)

lemma set_epsilon_closure_empty [simp]: "set_epsilon_closure m {} = {}"
  by (simp add: set_epsilon_closure_def)

subsection \<open>The union of the maps\<close>

lemma foldl_add_old_item:
  assumes "tm_ok tm" and "\<forall>(event, s) \<in> set items. event_ok event"
  shows "tm_ok (foldl (add_old_item m) tm items)
    \<and> (\<forall>c. - maxint \<le> c \<and> c < maxint \<longrightarrow> tm_lookup (foldl (add_old_item m) tm items) c =
         tm_lookup tm c \<union> (\<Union>(event, s) \<in> set items. if event_code event c
           then set_epsilon_closure m s else {}))
    \<and> (\<forall>e. e \<noteq> [] \<longrightarrow> special_set (foldl (add_old_item m) tm items) e =
         special_set tm e \<union> (\<Union>(event, s) \<in> set items. if event = Special e
           then set_epsilon_closure m s else {}))"
  using assms
proof (induction items arbitrary: tm)
  case Nil
  then show ?case by simp
next
  case (Cons item items)
  obtain event s where item: "item = (event, s)" by (cases item)
  have ok: "event_ok event" using Cons.prems(2) item by simp
  let ?tm = "add_old_item m tm item"
  have tm: "tm_ok ?tm"
    "\<And>c. - maxint \<le> c \<Longrightarrow> c < maxint \<Longrightarrow> tm_lookup ?tm c = tm_lookup tm c \<union>
        (if event_code event c then set_epsilon_closure m s else {})"
    "\<And>e. e \<noteq> [] \<Longrightarrow> special_set ?tm e = special_set tm e \<union>
        (if event = Special e then set_epsilon_closure m s else {})"
    using tm_add_set_props [OF Cons.prems(1) ok, where new = "set_epsilon_closure m s"] Cons.prems(1)
    by (auto simp: add_old_item_def item event_code_def)
  have rest: "\<forall>(event, s) \<in> set items. event_ok event" using Cons.prems(2) by simp
  note IH = Cons.IH [OF tm(1) rest]
  show ?case
    unfolding foldl_Cons
  proof (intro conjI allI impI)
    show "tm_ok (foldl (add_old_item m) ?tm items)" using IH by blast
  next
    fix c assume c: "- maxint \<le> c \<and> c < maxint"
    then have "tm_lookup (foldl (add_old_item m) ?tm items) c = tm_lookup ?tm c \<union>
        (\<Union>(event, s) \<in> set items. if event_code event c then set_epsilon_closure m s else {})"
      using IH by blast
    then show "tm_lookup (foldl (add_old_item m) ?tm items) c = tm_lookup tm c \<union>
        (\<Union>(event, s) \<in> set (item # items). if event_code event c then set_epsilon_closure m s else {})"
      using tm(2) [of c] c by (simp add: item Un_assoc)
  next
    fix e :: string assume e: "e \<noteq> []"
    then have "special_set (foldl (add_old_item m) ?tm items) e = special_set ?tm e \<union>
        (\<Union>(event, s) \<in> set items. if event = Special e then set_epsilon_closure m s else {})"
      using IH by blast
    then show "special_set (foldl (add_old_item m) ?tm items) e = special_set tm e \<union>
        (\<Union>(event, s) \<in> set (item # items). if event = Special e then set_epsilon_closure m s else {})"
      using tm(3) [OF e] by (simp add: item Un_assoc)
  qed
qed

lemma add_old_state_spec:
  assumes "machine_ok m" and "n \<in> nodes m" and "tm_ok tm"
  shows "tm_ok (add_old_state m tm n)"
    and "- maxint \<le> c \<Longrightarrow> c < maxint \<Longrightarrow> tm_lookup (add_old_state m tm n) c =
          tm_lookup tm c \<union> set_epsilon_closure m (node_targets m n (KChar c))"
    and "e \<noteq> [] \<Longrightarrow> special_set (add_old_state m tm n) e =
          special_set tm e \<union> set_epsilon_closure m (node_targets m n (KSym e))"
proof -
  let ?old = "transitions (node_at m n)"
  have old: "tm_ok ?old" using node_ok_at [OF assms(1,2)] by (simp add: node_ok_def)
  have items: "\<forall>(event, s) \<in> set (tm_items ?old). event_ok event"
    using tm_items_ok [OF old] by blast
  note spec = foldl_add_old_item [OF assms(3) items, of m, folded add_old_state_def]
  show "tm_ok (add_old_state m tm n)" using spec by blast
  have if_closure: "(if b then set_epsilon_closure m s else {}) = set_epsilon_closure m (if b then s else {})"
    for b s by simp
  show "- maxint \<le> c \<Longrightarrow> c < maxint \<Longrightarrow> tm_lookup (add_old_state m tm n) c =
          tm_lookup tm c \<union> set_epsilon_closure m (node_targets m n (KChar c))"
    using spec tm_items_lookup [OF old, of c]
    by (simp add: node_targets_def if_closure case_prod_unfold flip: set_epsilon_closure_UN)
  show "e \<noteq> [] \<Longrightarrow> special_set (add_old_state m tm n) e =
          special_set tm e \<union> set_epsilon_closure m (node_targets m n (KSym e))"
    using spec tm_items_special [OF old, of e]
    by (simp add: node_targets_def if_closure case_prod_unfold flip: set_epsilon_closure_UN)
qed

lemma foldl_add_old_state:
  assumes m: "machine_ok m" and "set ns \<subseteq> nodes m" and "tm_ok tm"
  shows "tm_ok (foldl (add_old_state m) tm ns)
    \<and> (\<forall>c. - maxint \<le> c \<and> c < maxint \<longrightarrow> tm_lookup (foldl (add_old_state m) tm ns) c =
         tm_lookup tm c \<union> set_epsilon_closure m (\<Union>n \<in> set ns. node_targets m n (KChar c)))
    \<and> (\<forall>e. e \<noteq> [] \<longrightarrow> special_set (foldl (add_old_state m) tm ns) e =
         special_set tm e \<union> set_epsilon_closure m (\<Union>n \<in> set ns. node_targets m n (KSym e)))"
  using assms(2,3)
proof (induction ns arbitrary: tm)
  case Nil
  then show ?case by simp
next
  case (Cons n ns)
  then have n: "n \<in> nodes m" by simp
  note s = add_old_state_spec [OF m n Cons.prems(2)]
  show ?case
    using Cons.IH [OF _ s(1)] Cons.prems(1) s(2,3) by (simp add: set_epsilon_closure_Un Un_assoc)
qed

lemma union_transitions_spec:
  assumes m: "machine_ok m" and X: "X \<subseteq> nodes m"
  shows "tm_ok (union_transitions m X)"
    and "- maxint \<le> c \<Longrightarrow> c < maxint \<Longrightarrow>
          tm_lookup (union_transitions m X) c = nfa_move m X (KChar c)"
    and "e \<noteq> [] \<Longrightarrow> special_set (union_transitions m X) e = nfa_move m X (KSym e)"
proof -
  have "finite X" using X finite_subset finite_nodes by blast
  then have set: "set (sorted_list_of_set X) = X" by simp
  note spec = foldl_add_old_state [OF m _ tm_ok_new, of "sorted_list_of_set X", folded union_transitions_def,
      unfolded set, OF X]
  show "tm_ok (union_transitions m X)" using spec by blast
  show "- maxint \<le> c \<Longrightarrow> c < maxint \<Longrightarrow>
      tm_lookup (union_transitions m X) c = nfa_move m X (KChar c)"
    using spec by (simp add: nfa_move_def tm_lookup_new)
  show "e \<noteq> [] \<Longrightarrow> special_set (union_transitions m X) e = nfa_move m X (KSym e)"
    using spec by (simp add: nfa_move_def special_set_def tm_new_def)
qed

subsection \<open>Split points and events of the union\<close>

lemma set_insert_at: "set (insert_at k x xs) = insert x (set xs)"
proof -
  have "set xs = set (take k xs) \<union> set (drop k xs)" by (metis append_take_drop_id set_append)
  then show ?thesis by (auto simp: insert_at_def)
qed

lemma tm_split_codes: "set (tm_codes (snd (tm_split code tm))) \<subseteq> insert code (set (tm_codes tm))"
  by (auto simp: tm_split_def Let_def set_insert_at split: prod.splits)

lemma tm_update_codes: "tm_codes (tm_update i j new tm) = tm_codes tm"
  by (induction i j new tm rule: tm_update.induct) (subst tm_update.simps, simp)

lemma tm_add_set_codes_subset:
  "set (tm_codes (tm_add_set event new tm)) \<subseteq>
     (case event of Codes code0 code1 \<Rightarrow> {code0, code1} | Special e \<Rightarrow> {}) \<union> set (tm_codes tm)"
proof (cases event)
  case (Codes code0 code1)
  obtain i tm1 where s0: "tm_split code0 tm = (i, tm1)" by (cases "tm_split code0 tm")
  obtain j tm2 where s1: "tm_split code1 tm1 = (j, tm2)" by (cases "tm_split code1 tm1")
  show ?thesis
    using tm_split_codes [of code0 tm] tm_split_codes [of code1 tm1]
    by (auto simp: Codes tm_add_set.simps s0 s1 tm_update_codes)
next
  case (Special e)
  then show ?thesis
    by (auto simp: tm_add_set.simps get_special_def split: option.splits)
qed

text \<open>What the keys of the dictionary need to know about a map.\<close>

definition events_ok :: "TransitionMap \<Rightarrow> bool" where
  "events_ok tm \<longleftrightarrow>
     (\<forall>c \<in> set (tm_codes tm). code_ok c)
     \<and> fst ` set (tm_special tm) \<subseteq> {[], ''bol'', ''eol'', ''eof''}"

lemma events_ok_new: "events_ok tm_new"
  by (simp add: events_ok_def tm_new_def code_ok_def)

lemma events_ok_add:
  assumes "events_ok tm"
    and "case event of Codes code0 code1 \<Rightarrow> code_ok code0 \<and> code_ok code1
         | Special e \<Rightarrow> e \<in> {[], ''bol'', ''eol'', ''eof''}"
  shows "events_ok (tm_add_set event new tm)"
proof -
  have "\<forall>c \<in> set (tm_codes (tm_add_set event new tm)). code_ok c"
    using tm_add_set_codes_subset [of event new tm] assms
    by (fastforce simp: events_ok_def split: plex_event.splits)
  moreover have "fst ` set (tm_special (tm_add_set event new tm)) \<subseteq> {[], ''bol'', ''eol'', ''eof''}"
  proof (cases event)
    case (Codes code0 code1)
    have split: "tm_special (snd (tm_split c t)) = tm_special t" for c t
      by (simp add: tm_split_def Let_def split: prod.splits)
    have update: "tm_special (tm_update i j new t) = tm_special t" for i j t
      by (induction i j new t rule: tm_update.induct) (subst tm_update.simps, simp)
    obtain i tm1 where s0: "tm_split code0 tm = (i, tm1)" by (cases "tm_split code0 tm")
    obtain j tm2 where s1: "tm_split code1 tm1 = (j, tm2)" by (cases "tm_split code1 tm1")
    show ?thesis
      using assms(1) split [of code0 tm] split [of code1 tm1]
      by (simp add: Codes tm_add_set.simps s0 s1 update events_ok_def)
  next
    case (Special e)
    have "fst ` set (dict_set e v d) = insert e (fst ` set d)" for v and d :: "(string, nat set) pydict"
      using dom_update [of e v d] by (simp add: dom_map_of_conv_image_fst)
    then show ?thesis
      using assms by (auto simp: Special tm_add_set.simps get_special_def events_ok_def
          split: option.splits)
  qed
  ultimately show ?thesis by (simp add: events_ok_def)
qed

lemma node_ok_events: "node_ok U tm \<Longrightarrow> events_ok tm"
  by (auto simp: node_ok_def events_ok_def)

lemma items_events_ok:
  assumes "tm_ok tm" and "events_ok tm" and "(event, s) \<in> set (tm_items tm)"
  shows "case event of Codes code0 code1 \<Rightarrow> code_ok code0 \<and> code_ok code1
         | Special e \<Rightarrow> e \<in> {[], ''bol'', ''eol'', ''eof''}"
proof -
  consider k where "k < length (tm_sets tm)" "event = Codes (tm_codes tm ! k) (tm_codes tm ! Suc k)"
    | e where "event = Special e" "dict_get (tm_special tm) e = Some s"
    using tm_items_mem [OF assms(1), of event s] assms(3) by blast
  then show ?thesis
  proof cases
    case 1
    moreover have "length (tm_codes tm) = length (tm_sets tm) + 1" using assms(1) by (simp add: tm_ok_def)
    ultimately show ?thesis using assms(2) by (simp add: events_ok_def)
  next
    case 2
    then have "e \<in> fst ` set (tm_special tm)" by (metis fst_conv image_iff map_of_SomeD)
    with 2 assms(2) show ?thesis by (auto simp: events_ok_def)
  qed
qed

lemma foldl_events_ok:
  "events_ok tm \<Longrightarrow> \<forall>(event, s) \<in> set items. (case event of Codes code0 code1 \<Rightarrow> code_ok code0 \<and> code_ok code1
         | Special e \<Rightarrow> e \<in> {[], ''bol'', ''eol'', ''eof''})
   \<Longrightarrow> events_ok (foldl (add_old_item m) tm items)"
proof (induction items arbitrary: tm)
  case (Cons item items)
  obtain event s where item: "item = (event, s)" by (cases item)
  have "events_ok (add_old_item m tm item)"
    using events_ok_add [OF Cons.prems(1)] Cons.prems item by (simp add: add_old_item_def)
  then show ?case using Cons.IH Cons.prems(2) by simp
qed simp

lemma union_transitions_events:
  assumes m: "machine_ok m" and X: "X \<subseteq> nodes m"
  shows "events_ok (union_transitions m X)"
proof -
  have "events_ok (foldl (add_old_state m) tm ns)" if "events_ok tm" "set ns \<subseteq> nodes m" for tm ns
    using that
  proof (induction ns arbitrary: tm)
    case (Cons n ns)
    have old: "tm_ok (transitions (node_at m n))" "events_ok (transitions (node_at m n))"
      using node_ok_at [OF m, of n] Cons.prems(2) by (auto simp: node_ok_def intro: node_ok_events)
    have "events_ok (add_old_state m tm n)"
      unfolding add_old_state_def using items_events_ok [OF old]
      by (intro foldl_events_ok Cons.prems(1)) blast
    then show ?case using Cons.IH Cons.prems(2) by simp
  qed simp
  moreover have "finite X" using X finite_subset finite_nodes by blast
  ultimately show ?thesis
    using events_ok_new X by (simp add: union_transitions_def)
qed

lemma union_transitions_closed:
  assumes m: "machine_ok m" and X: "X \<subseteq> nodes m"
  shows "tm_closed (union_transitions m X)"
proof -
  have "tm_lookup (transitions (node_at m n)) (- maxint) = tm_lookup (transitions (node_at m n)) (maxint - 1)"
    if "n \<in> X" for n
    using node_ok_at [OF m, of n] that X tm_ends by (fastforce simp: node_ok_def tm_closed_def)
  then have "nfa_move m X (KChar (- maxint)) = nfa_move m X (KChar (maxint - 1))"
    by (simp add: nfa_move_def node_targets_def)
  then show ?thesis
    using tm_ends [OF union_transitions_spec(1) [OF m X]] union_transitions_spec(2) [OF m X]
    by (simp add: tm_closed_def maxint_def)
qed

subsection \<open>The dictionary of a state\<close>

definition key_set :: "TransitionMap \<Rightarrow> dict_key \<Rightarrow> nat set" where
  "key_set tm key = (case key of KChar c \<Rightarrow> tm_lookup tm c | KSym e \<Rightarrow> special_set tm e)"

lemma chr_ok_maxint: "chr_ok c \<Longrightarrow> - maxint \<le> c \<and> c < maxint"
  by (simp add: chr_ok_def maxint_def)

lemma code_ends:
  assumes "tm_ok tm" and "k < length (tm_sets tm)"
  shows "tm_codes tm ! k = - maxint \<longleftrightarrow> k = 0"
    and "tm_codes tm ! Suc k = maxint \<longleftrightarrow> Suc k = length (tm_sets tm)"
proof -
  show "tm_codes tm ! k = - maxint \<longleftrightarrow> k = 0"
    using tm_ok_codes(1) [OF assms(1)] tm_ok_codes(3) [OF assms(1), of 0 k] assms(2)
    by (cases "k = 0") auto
  have "tm_codes tm ! Suc k < maxint" if "Suc k \<noteq> length (tm_sets tm)"
    using that tm_ok_codes(2) [OF assms(1)] assms(2)
      tm_ok_codes(3) [OF assms(1), of "Suc k" "length (tm_sets tm)"] by simp
  then show "tm_codes tm ! Suc k = maxint \<longleftrightarrow> Suc k = length (tm_sets tm)"
    using tm_ok_codes(2) [OF assms(1)] by force
qed

text \<open>The items that set a key agree on the set.\<close>

lemma item_of_char:
  assumes "tm_ok tm" and "(event, s) \<in> set (tm_items tm)" and "sets_key event (KChar c)"
  shows "s = tm_lookup tm c"
proof -
  obtain k where k: "k < length (tm_sets tm)" "event = Codes (tm_codes tm ! k) (tm_codes tm ! Suc k)"
    "s = tm_sets tm ! k"
    using tm_items_mem [OF assms(1), of event s] assms(2,3) by (auto simp: sets_key_def)
  then show ?thesis
    using assms(3) tm_lookup_nth [OF assms(1) k(1), of c] by (auto simp: sets_key_def split: if_splits)
qed

lemma item_of_else:
  assumes "tm_ok tm" and "events_ok tm" and "(event, s) \<in> set (tm_items tm)"
    and "sets_key event (KSym ''else'')"
  shows "s = tm_sets tm ! 0"
proof -
  have "event \<noteq> Special ''else''" using items_events_ok [OF assms(1-3)] by auto
  then obtain k where k: "k < length (tm_sets tm)" "event = Codes (tm_codes tm ! k) (tm_codes tm ! Suc k)"
    "s = tm_sets tm ! k"
    using tm_items_mem [OF assms(1), of event s] assms(3,4) by (auto simp: sets_key_def)
  then show ?thesis
    using assms(4) code_ends(1) [OF assms(1) k(1)] by (auto simp: sets_key_def split: if_splits)
qed

lemma item_of_sym:
  assumes "tm_ok tm" and "(event, s) \<in> set (tm_items tm)" and "sets_key event (KSym e)"
    and "e \<noteq> ''else''"
  shows "event = Special e \<and> s = special_set tm e"
proof -
  have "event = Special e" using assms(3,4) by (auto simp: sets_key_def split: plex_event.splits if_splits)
  with tm_items_mem [OF assms(1), of event s] assms(2) show ?thesis
    by (auto simp: special_set_def)
qed

lemma items_consistent:
  assumes "tm_ok tm" and "events_ok tm" and "(event, s) \<in> set (tm_items tm)"
    and "(event', s') \<in> set (tm_items tm)" and "sets_key event key" and "sets_key event' key"
  shows "s = s'"
proof (cases key)
  case (KChar c)
  then show ?thesis using item_of_char assms by metis
next
  case (KSym e)
  then show ?thesis using item_of_else item_of_sym assms by (cases "e = ''else''") metis+
qed

text \<open>A dictionary filled from the items, over what it held before. Over the template it
  answers with the set of the key, or not at all when the set is empty.\<close>

definition filled ::
  "(plex_event \<times> nat set) list \<Rightarrow> (nat \<Rightarrow> nat set option)
   \<Rightarrow> (dict_key, nat option) pydict \<Rightarrow> (dict_key, nat option) pydict \<Rightarrow> bool" where
  "filled items olds base d \<longleftrightarrow>
     (\<forall>key. (\<forall>(event, s) \<in> set items. \<not> sets_key event key)
        \<longrightarrow> dict_get d key = dict_get base key)
     \<and> (\<forall>(event, s) \<in> set items. \<forall>key. sets_key event key
        \<longrightarrow> (\<exists>n. dict_get d key = Some (Some n) \<and> olds n = Some s))"

lemma filled_set:
  "filled items olds base d \<Longrightarrow> (event, s) \<in> set items \<Longrightarrow> sets_key event key
   \<Longrightarrow> \<exists>n. dict_get d key = Some (Some n) \<and> olds n = Some s"
  unfolding filled_def by blast

lemma filled_unset:
  "filled items olds base d \<Longrightarrow> (\<And>event s. (event, s) \<in> set items \<Longrightarrow> \<not> sets_key event key)
   \<Longrightarrow> dict_get d key = dict_get base key"
  unfolding filled_def by blast

lemma filled_next_sym:
  assumes tm: "tm_ok tm" and d: "filled (tm_items tm) olds new_state_template (fs_keys st)"
    and e: "e \<in> {''bol'', ''eol'', ''eof''}"
  shows "case fast_next st (KSym e) of
      Some n \<Rightarrow> olds n = Some (special_set tm e) | None \<Rightarrow> special_set tm e = {}"
proof (cases "special_set tm e = {}")
  case True
  have "\<not> sets_key event (KSym e)" if "(event, s) \<in> set (tm_items tm)" for event s
  proof
    assume "sets_key event (KSym e)"
    then have "event = Special e" "s = special_set tm e"
      using item_of_sym [OF tm that] e by auto
    with that True tm_items_mem [OF tm, of event s] show False by auto
  qed
  then have "dict_get (fs_keys st) (KSym e) = dict_get new_state_template (KSym e)"
    by (rule filled_unset [OF d])
  then show ?thesis using e True by (auto simp: fast_next_def new_state_template_def)
next
  case False
  then obtain s where s: "dict_get (tm_special tm) e = Some s" "s \<noteq> {}" "special_set tm e = s"
    by (auto simp: special_set_def split: option.splits)
  then have "(Special e, s) \<in> set (tm_items tm)" using tm_items_mem [OF tm, of "Special e" s] by auto
  from filled_set [OF d this, of "KSym e"] s show ?thesis
    by (auto simp: fast_next_def sets_key_def)
qed

lemma filled_next_char:
  assumes tm: "tm_ok tm" "tm_closed tm" "events_ok tm" and d: "filled (tm_items tm) olds new_state_template (fs_keys st)"
    and c: "chr_ok c"
  shows "case fast_next st (KChar c) of
      Some n \<Rightarrow> olds n = Some (tm_lookup tm c) | None \<Rightarrow> tm_lookup tm c = {}"
proof (cases "\<exists>event s. (event, s) \<in> set (tm_items tm) \<and> sets_key event (KChar c)")
  case True
  then obtain event s where e: "(event, s) \<in> set (tm_items tm)" "sets_key event (KChar c)" by blast
  from filled_set [OF d e] item_of_char [OF tm(1) e] show ?thesis by (auto simp: fast_next_def)
next
  case False
  then have missing: "dict_get (fs_keys st) (KChar c) = None"
    using filled_unset [OF d, of "KChar c"] by (auto simp: new_state_template_def)
  obtain k where k: "k < length (tm_sets tm)" "tm_codes tm ! k \<le> c" "c < tm_codes tm ! Suc k"
    using tm_range_exists [OF tm(1)] chr_ok_maxint [OF c] by blast
  have look: "tm_lookup tm c = tm_sets tm ! k" by (rule tm_lookup_nth [OF tm(1) k])
  have n: "tm_sets tm \<noteq> []" "0 < length (tm_sets tm)" using tm(1) by (simp_all add: tm_ok_def)
  have first: "(event, s) \<in> set (tm_items tm) \<and> sets_key event (KSym ''else'') \<longleftrightarrow>
      event = Codes (- maxint) (tm_codes tm ! 1) \<and> s = tm_sets tm ! 0 \<and> s \<noteq> {}" for event s
  proof
    assume e: "(event, s) \<in> set (tm_items tm) \<and> sets_key event (KSym ''else'')"
    then have "event \<noteq> Special ''else''" using items_events_ok [OF tm(1,3), of event s] by auto
    then obtain i where i: "i < length (tm_sets tm)"
      "event = Codes (tm_codes tm ! i) (tm_codes tm ! Suc i)" "s = tm_sets tm ! i"
      "s \<noteq> {} \<or> tm_sets tm ! 0 \<noteq> {}"
      using tm_items_mem [OF tm(1), of event s] e by (auto simp: sets_key_def)
    moreover have "i = 0" using e i(2) code_ends(1) [OF tm(1) i(1)]
      by (auto simp: sets_key_def split: if_splits)
    ultimately show "event = Codes (- maxint) (tm_codes tm ! 1) \<and> s = tm_sets tm ! 0 \<and> s \<noteq> {}"
      using tm_ok_codes(1) [OF tm(1)] by auto
  next
    assume "event = Codes (- maxint) (tm_codes tm ! 1) \<and> s = tm_sets tm ! 0 \<and> s \<noteq> {}"
    then show "(event, s) \<in> set (tm_items tm) \<and> sets_key event (KSym ''else'')"
      using tm_items_mem [OF tm(1), of event s] tm_ok_codes(1) [OF tm(1)] n(2)
      by (auto simp: sets_key_def intro!: exI [of _ 0])
  qed
  show ?thesis
  proof (cases "tm_sets tm ! 0 = {}")
    case True
    have "tm_sets tm ! k = {}"
    proof (rule ccontr)
      assume ne: "tm_sets tm ! k \<noteq> {}"
      then have item: "(Codes (tm_codes tm ! k) (tm_codes tm ! Suc k), tm_sets tm ! k) \<in> set (tm_items tm)"
        using tm_items_mem [OF tm(1)] k(1) by auto
      have "k \<noteq> 0" using ne True by (cases k) auto
      moreover have "Suc k \<noteq> length (tm_sets tm)"
      proof
        assume "Suc k = length (tm_sets tm)"
        then have "length (tm_sets tm) - 1 = k" by simp
        then show False using ne True tm(2) n by (simp add: tm_closed_def hd_conv_nth last_conv_nth)
      qed
      ultimately show False
        using False item k code_ends [OF tm(1) k(1)] by (auto simp: sets_key_def)
    qed
    moreover have "dict_get (fs_keys st) (KSym ''else'') = dict_get new_state_template (KSym ''else'')"
      using first True by (intro filled_unset [OF d]) blast
    ultimately show ?thesis
      using missing look by (simp add: fast_next_def new_state_template_def)
  next
    case ne: False
    have "(Codes (tm_codes tm ! k) (tm_codes tm ! Suc k), tm_sets tm ! k) \<in> set (tm_items tm)"
      using tm_items_mem [OF tm(1)] k(1) ne by auto
    then have "k = 0 \<or> Suc k = length (tm_sets tm)"
      using False k code_ends [OF tm(1) k(1)] by (auto simp: sets_key_def)
    then have "k = 0 \<or> length (tm_sets tm) - 1 = k" by auto
    then have same: "tm_sets tm ! k = tm_sets tm ! 0"
      using tm(2) n by (auto simp: tm_closed_def hd_conv_nth last_conv_nth)
    obtain m where "dict_get (fs_keys st) (KSym ''else'') = Some (Some m)" "olds m = Some (tm_sets tm ! 0)"
      using first [of "Codes (- maxint) (tm_codes tm ! 1)" "tm_sets tm ! 0"] ne filled_set [OF d] by blast
    then show ?thesis using missing look same by (simp add: fast_next_def)
  qed
qed

end
