(* ===== verification/PlexEquivalence.thy ===== *)
theory PlexEquivalence
  imports PlexSubset
begin

text \<open>
  The state map of the subset construction: its two dictionaries are inverse, every new state
  stands for a set of old states and carries the action of that set. The loop ends because there
  are only so many sets, and the states it has passed answer every input with the set of states
  the old machine moves to.
\<close>

subsection \<open>The state map\<close>

abbreviation olds :: "'a StateMap \<Rightarrow> nat \<Rightarrow> nat set option" where
  "olds sm n \<equiv> dict_get (new_to_old_dict sm) n"

abbreviation state_count :: "'a StateMap \<Rightarrow> nat" where
  "state_count sm \<equiv> length (fm_states (new_machine sm))"

definition sm_ok :: "'a Machine \<Rightarrow> 'a StateMap \<Rightarrow> bool" where
  "sm_ok m sm \<longleftrightarrow>
     fm_next_number (new_machine sm) = state_count sm + 1
     \<and> dom (map_of (new_to_old_dict sm)) = {1..state_count sm}
     \<and> (\<forall>X n. dict_get (old_to_new_dict sm) X = Some n \<longleftrightarrow> olds sm n = Some X)
     \<and> (\<forall>n X. olds sm n = Some X \<longrightarrow>
          X \<subseteq> nodes m
          \<and> fs_action (fm_state (new_machine sm) n) = highest_priority_action m X)"

text \<open>A later state map: it has all the states of the earlier one, and all but the state in
  progress have kept their dictionary.\<close>

definition sm_extends :: "nat \<Rightarrow> 'a StateMap \<Rightarrow> 'a StateMap \<Rightarrow> bool" where
  "sm_extends i sm sm' \<longleftrightarrow>
     state_count sm \<le> state_count sm'
     \<and> (\<forall>n X. olds sm n = Some X \<longrightarrow> olds sm' n = Some X)
     \<and> (\<forall>n \<in> {1..state_count sm}. n \<noteq> i \<longrightarrow>
          fm_state (new_machine sm') n = fm_state (new_machine sm) n)
     \<and> (\<forall>n \<in> {1..state_count sm'}. state_count sm < n \<longrightarrow>
          fs_keys (fm_state (new_machine sm') n) = new_state_template)
     \<and> fm_initial_states (new_machine sm') = fm_initial_states (new_machine sm)"

lemma sm_extends_refl: "sm_extends i sm sm"
  by (simp add: sm_extends_def)

lemma sm_extends_trans:
  assumes "sm_extends i a b" and "sm_extends i b c" and "i \<le> state_count a"
  shows "sm_extends i a c"
proof -
  have "fs_keys (fm_state (new_machine c) n) = new_state_template"
    if "n \<in> {1..state_count c}" "state_count a < n" for n
  proof (cases "n \<le> state_count b")
    case True
    then have "fm_state (new_machine c) n = fm_state (new_machine b) n"
      using assms that by (simp add: sm_extends_def)
    with True assms that show ?thesis by (simp add: sm_extends_def)
  next
    case False
    with assms that show ?thesis by (simp add: sm_extends_def)
  qed
  with assms show ?thesis by (simp add: sm_extends_def)
qed

lemma sm_ok_number: "sm_ok m sm \<Longrightarrow> olds sm n = Some X \<Longrightarrow> 1 \<le> n \<and> n \<le> state_count sm"
  by (force simp: sm_ok_def dom_def)

lemma sm_ok_olds: "sm_ok m sm \<Longrightarrow> 1 \<le> n \<Longrightarrow> n \<le> state_count sm \<Longrightarrow> \<exists>X. olds sm n = Some X"
  by (force simp: sm_ok_def dom_def)

lemma old_to_new_spec:
  assumes ok: "sm_ok m sm" and X: "X \<subseteq> nodes m"
  obtains n sm' where "old_to_new m X sm = (n, sm')" "sm_ok m sm'" "olds sm' n = Some X"
    "\<And>i. sm_extends i sm sm'"
proof (cases "dict_get (old_to_new_dict sm) X")
  case (Some n)
  have "old_to_new m X sm = (n, sm)" using Some by (simp add: old_to_new_def)
  moreover have "olds sm n = Some X" using ok Some by (simp add: sm_ok_def)
  ultimately show thesis using that [of n sm] ok sm_extends_refl by blast
next
  case None
  let ?N = "state_count sm" and ?action = "highest_priority_action m X"
  let ?fm = "(new_machine sm)\<lparr>fm_next_number := ?N + 2,
      fm_states := fm_states (new_machine sm)
        @ [\<lparr>fs_keys = new_state_template, fs_number = ?N + 1, fs_action = ?action\<rparr>]\<rparr>"
  let ?sm = "\<lparr>new_machine = ?fm,
      old_to_new_dict = dict_set X (?N + 1) (old_to_new_dict sm),
      new_to_old_dict = dict_set (?N + 1) X (new_to_old_dict sm)\<rparr>"
  have nxt: "fm_next_number (new_machine sm) = ?N + 1" using ok by (simp add: sm_ok_def)
  have run: "old_to_new m X sm = (?N + 1, ?sm)"
    using None nxt by (simp add: old_to_new_def fm_new_state_def Let_def)
  have old: "fm_state ?fm n = fm_state (new_machine sm) n" if "1 \<le> n" "n \<le> ?N" for n
    using that by (simp add: fm_state_def nth_append)
  have fresh: "olds sm (?N + 1) = None" using sm_ok_number [OF ok, of "?N + 1"] by fastforce
  have notX: "olds sm n \<noteq> Some X" for n using ok None by (metis option.discI sm_ok_def)
  have count: "length (fm_states ?fm) = ?N + 1" by simp
  have "sm_ok m ?sm"
    unfolding sm_ok_def
  proof (intro conjI allI impI)
    show "fm_next_number (new_machine ?sm) = state_count ?sm + 1" by simp
    show "dom (map_of (new_to_old_dict ?sm)) = {1..state_count ?sm}"
    proof -
      have "dom (map_of (new_to_old_dict ?sm)) = insert (?N + 1) (dom (map_of (new_to_old_dict sm)))"
        by (simp add: dict_get_set_fun)
      also have "\<dots> = {1..?N + 1}" using ok by (auto simp: sm_ok_def)
      finally show ?thesis by simp
    qed
    show "dict_get (old_to_new_dict ?sm) Y = Some n \<longleftrightarrow> olds ?sm n = Some Y" for Y n
      using ok fresh notX None by (auto simp: dict_get_set sm_ok_def)
    fix n Y assume Y: "olds ?sm n = Some Y"
    show "Y \<subseteq> nodes m" using Y X ok by (auto simp: dict_get_set sm_ok_def split: if_splits)
    show "fs_action (fm_state (new_machine ?sm) n) = highest_priority_action m Y"
    proof (cases "n = ?N + 1")
      case True
      with Y show ?thesis by (simp add: dict_get_set fm_state_def)
    next
      case False
      with Y have "olds sm n = Some Y" by (simp add: dict_get_set)
      with sm_ok_number [OF ok this] old [of n] ok show ?thesis by (simp add: sm_ok_def)
    qed
  qed
  moreover have "olds ?sm (?N + 1) = Some X" by (simp add: dict_get_set)
  moreover have "sm_extends i sm ?sm" for i
    unfolding sm_extends_def
  proof (intro conjI allI ballI impI)
    show "olds ?sm n = Some Y" if "olds sm n = Some Y" for n Y
      using that fresh by (auto simp: dict_get_set)
    show "fs_keys (fm_state (new_machine ?sm) n) = new_state_template"
      if "n \<in> {1..state_count ?sm}" "?N < n" for n
    proof -
      have "n = ?N + 1" using that by simp
      then show ?thesis by (simp add: fm_state_def)
    qed
  qed (use old in simp_all)
  ultimately show thesis using that [OF run] by blast
qed

subsection \<open>Giving a state its transitions\<close>

lemma items_chars:
  assumes "tm_ok tm" and "events_ok tm" and "(event, s) \<in> set (tm_items tm)"
  shows "event_chars_ok event"
proof (cases event)
  case (Special e)
  then show ?thesis by (simp add: event_chars_ok_def)
next
  case (Codes code0 code1)
  then obtain k where k: "k < length (tm_sets tm)" "code0 = tm_codes tm ! k" "code1 = tm_codes tm ! Suc k"
    using tm_items_mem [OF assms(1), of event s] assms(3) by auto
  have "code0 < code1" using tm_ok_codes(3) [OF assms(1), of k "Suc k"] k by simp
  moreover have "code0 < maxint \<and> - maxint < code1"
    using calculation k tm_ok_codes [OF assms(1)] tm_ok_codes(3) [OF assms(1), of 0 "Suc k"]
      tm_ok_codes(3) [OF assms(1), of k "length (tm_sets tm)"] by simp
  ultimately show ?thesis
    using items_events_ok [OF assms] Codes by (auto simp: event_chars_ok_def code_ok_def)
qed

lemma fm_update_state:
  fixes st :: "'a FastState" and fm :: "'a FastMachine"
  assumes "1 \<le> i" and "i \<le> length (fm_states fm)"
  defines "fm' \<equiv> fm\<lparr>fm_states := (fm_states fm)[i - 1 := st]\<rparr>"
  shows "fm_state fm' i = st" and "n \<noteq> i \<Longrightarrow> 1 \<le> n \<Longrightarrow> fm_state fm' n = fm_state fm n"
    and "length (fm_states fm') = length (fm_states fm)"
  using assms by (auto simp: fm_state_def nth_list_update)

lemma sm_update_ok:
  assumes ok: "sm_ok m sm" and i: "1 \<le> i" "i \<le> state_count sm"
    and st: "fs_action st = fs_action (fm_state (new_machine sm) i)"
  defines "sm' \<equiv> sm\<lparr>new_machine := (new_machine sm)\<lparr>fm_states := (fm_states (new_machine sm))[i - 1 := st]\<rparr>\<rparr>"
  shows "sm_ok m sm' \<and> sm_extends i sm sm'"
proof -
  note u = fm_update_state [OF i, where st = st]
  have "fs_action (fm_state (new_machine sm') n) = fs_action (fm_state (new_machine sm) n)"
    if "1 \<le> n" for n
    using u(1) u(2) [of n] that st by (cases "n = i") (simp_all add: sm'_def)
  then have "sm_ok m sm'"
    using ok sm_ok_number [OF ok] u(3) by (simp add: sm_ok_def sm'_def)
  moreover have "sm_extends i sm sm'"
    using u by (simp add: sm_extends_def sm'_def)
  ultimately show ?thesis by simp
qed

text \<open>Every item puts its keys into the dictionary of the state, and leaves the others.\<close>

lemma filled_Nil: "filled [] f d d"
  by (simp add: filled_def)

lemma filled_Cons:
  assumes rest: "filled items f d d'"
    and d: "\<And>key. dict_get d key = (if sets_key event key then Some (Some t) else dict_get base key)"
    and t: "f t = Some s"
    and same: "\<And>event' s' key. (event', s') \<in> set items \<Longrightarrow> sets_key event' key
       \<Longrightarrow> sets_key event key \<Longrightarrow> s' = s"
  shows "filled ((event, s) # items) f base d'"
  unfolding filled_def
proof (intro conjI allI impI ballI)
  fix key assume "\<forall>(event, s) \<in> set ((event, s) # items). \<not> sets_key event key"
  then show "dict_get d' key = dict_get base key"
    using filled_unset [OF rest, of key] d [of key] by auto
next
  fix item assume item: "item \<in> set ((event, s) # items)"
  have "\<exists>n. dict_get d' key = Some (Some n) \<and> f n = Some s" if key: "sets_key event key" for key
  proof (cases "\<exists>event' s'. (event', s') \<in> set items \<and> sets_key event' key")
    case True
    then show ?thesis using filled_set [OF rest] same key by metis
  next
    case False
    then have "dict_get d' key = Some (Some t)"
      using filled_unset [OF rest, of key] d [of key] key by auto
    with t show ?thesis by blast
  qed
  then show "case item of (event, s) \<Rightarrow> \<forall>key. sets_key event key
      \<longrightarrow> (\<exists>n. dict_get d' key = Some (Some n) \<and> f n = Some s)"
    using item filled_set [OF rest] by auto
qed

text \<open>Items that set the same key have the same set.\<close>

definition agreeing :: "(plex_event \<times> nat set) list \<Rightarrow> bool" where
  "agreeing items \<longleftrightarrow>
     (\<forall>p \<in> set items. \<forall>q \<in> set items. \<forall>key.
        sets_key (fst p) key \<and> sets_key (fst q) key \<longrightarrow> snd p = snd q)"

definition state_keys :: "'a StateMap \<Rightarrow> nat \<Rightarrow> (dict_key, nat option) pydict" where
  "state_keys sm i = fs_keys (fm_state (new_machine sm) i)"

lemma add_new_transitions_spec:
  assumes "sm_ok m sm" and i: "1 \<le> i" and "i \<le> state_count sm"
    and "\<forall>(event, s) \<in> set items. s \<subseteq> nodes m \<and> event_chars_ok event"
    and "agreeing items"
  shows "\<exists>sm'. add_new_transitions m i items sm = Inr sm' \<and> sm_ok m sm' \<and> sm_extends i sm sm'
    \<and> filled items (olds sm') (state_keys sm i) (state_keys sm' i)"
  using assms(1,3-)
proof (induction items arbitrary: sm)
  case Nil
  then show ?case using sm_extends_refl filled_Nil by auto
next
  case (Cons item items)
  obtain event s where item: "item = (event, s)" by (cases item)
  have s: "s \<subseteq> nodes m" "event_chars_ok event" using Cons.prems(3) item by auto
  obtain t sm1 where o: "old_to_new m s sm = (t, sm1)" "sm_ok m sm1" "olds sm1 t = Some s"
    "\<And>i. sm_extends i sm sm1"
    using old_to_new_spec [OF Cons.prems(1) s(1)] by metis
  have i1: "i \<le> state_count sm1" using o(4) [of 0] Cons.prems(2) by (simp add: sm_extends_def)
  have kept: "state_keys sm1 i = state_keys sm i"
    using o(4) [of 0] Cons.prems(2) i by (simp add: sm_extends_def state_keys_def)
  let ?st = "fm_state (new_machine sm1) i"
  obtain d where d: "add_transitions (fs_keys ?st) event t = Inr d"
    "\<And>key. dict_get d key = (if sets_key event key then Some (Some t) else dict_get (state_keys sm i) key)"
    using add_transitions_get [OF s(2), of "fs_keys ?st" t] kept by (auto simp: state_keys_def)
  define sm2 where "sm2 = sm1\<lparr>new_machine := (new_machine sm1)\<lparr>fm_states := (fm_states (new_machine sm1))
      [i - 1 := ?st\<lparr>fs_keys := d\<rparr>]\<rparr>\<rparr>"
  have sm2: "sm_ok m sm2" "sm_extends i sm1 sm2" "i \<le> state_count sm2" "state_keys sm2 i = d"
    using sm_update_ok [OF o(2) i i1, of "?st\<lparr>fs_keys := d\<rparr>"] i1
      fm_update_state(1) [OF i i1, of "?st\<lparr>fs_keys := d\<rparr>"]
    by (simp_all add: sm2_def state_keys_def)
  have chars: "\<forall>(event, s) \<in> set items. s \<subseteq> nodes m \<and> event_chars_ok event"
    using Cons.prems(3) by simp
  have same: "agreeing items" using Cons.prems(4) by (simp add: agreeing_def)
  obtain sm' where sm': "add_new_transitions m i items sm2 = Inr sm'" "sm_ok m sm'"
    "sm_extends i sm2 sm'" "filled items (olds sm') d (state_keys sm' i)"
    using Cons.IH [OF sm2(1,3) chars same] sm2(4) by auto
  have run: "add_new_transitions m i (item # items) sm = Inr sm'"
    using o(1) d(1) sm'(1) by (simp add: item fm_add_transitions_def sm2_def)
  have "sm_extends i sm1 sm'" by (rule sm_extends_trans [OF sm2(2) sm'(3) i1])
  then have ext: "sm_extends i sm sm'" by (rule sm_extends_trans [OF o(4) _ Cons.prems(2)])
  have "olds sm' t = Some s" using o(3) \<open>sm_extends i sm1 sm'\<close> by (simp add: sm_extends_def)
  moreover have "\<And>event' s' key. (event', s') \<in> set items \<Longrightarrow> sets_key event' key
       \<Longrightarrow> sets_key event key \<Longrightarrow> s' = s"
    using Cons.prems(4) item by (fastforce simp: agreeing_def)
  ultimately have "filled ((event, s) # items) (olds sm') (state_keys sm i) (state_keys sm' i)"
    using filled_Cons [OF sm'(4) d(2)] by blast
  with run sm'(2) ext show ?case by (auto simp: item)
qed

subsection \<open>Processing a state\<close>

definition state_done :: "'a Machine \<Rightarrow> 'a StateMap \<Rightarrow> nat \<Rightarrow> bool" where
  "state_done m sm i \<longleftrightarrow>
     dict_get (state_keys sm i) (KSym []) = Some None
     \<and> (\<exists>X. olds sm i = Some X \<and>
        (\<forall>key. input_ok key \<longrightarrow>
          (case fast_next (fm_state (new_machine sm) i) key of
             Some n \<Rightarrow> olds sm n = Some (nfa_move m X key)
           | None \<Rightarrow> nfa_move m X key = {})))"

lemma node_targets_nodes:
  assumes m: "machine_ok m" and n: "n \<in> nodes m" and key: "input_ok key"
  shows "node_targets m n key \<subseteq> nodes m"
proof -
  have ok: "node_ok (nodes m) (transitions (node_at m n))" by (rule node_ok_at [OF m n])
  show ?thesis
  proof (cases key)
    case (KChar c)
    then have c: "- maxint \<le> c" "c < maxint" using key chr_ok_maxint by (auto simp: input_ok_def)
    have tm: "tm_ok (transitions (node_at m n))" using ok by (simp add: node_ok_def)
    obtain k where k: "k < length (tm_sets (transitions (node_at m n)))"
      "tm_codes (transitions (node_at m n)) ! k \<le> c" "c < tm_codes (transitions (node_at m n)) ! Suc k"
      using tm_range_exists [OF tm c] .
    then show ?thesis
      using tm_lookup_nth [OF tm k] ok KChar by (simp add: node_targets_def node_ok_def)
  next
    case (KSym e)
    then show ?thesis using special_set_subset [OF ok] by (simp add: node_targets_def)
  qed
qed

lemma nfa_move_nodes:
  assumes m: "machine_ok m" and X: "X \<subseteq> nodes m" and key: "input_ok key"
  shows "nfa_move m X key \<subseteq> nodes m"
proof -
  have "(\<Union>n \<in> X. node_targets m n key) \<subseteq> nodes m"
    using node_targets_nodes [OF m _ key] X by blast
  then show ?thesis unfolding nfa_move_def by (rule set_epsilon_closure_nodes [OF m])
qed

lemma union_special_empty:
  assumes m: "machine_ok m" and X: "X \<subseteq> nodes m"
  shows "special_set (union_transitions m X) [] = {}"
proof -
  have empty: "special_set (foldl (add_old_item m) t items) [] = special_set t []"
    if "tm_ok t" "\<forall>(event, s) \<in> set items. event_ok event" for t items
    using that
  proof (induction items arbitrary: t)
    case (Cons item items)
    obtain event s where item: "item = (event, s)" by (cases item)
    have "event_ok event" using Cons.prems(2) item by simp
    note p = tm_add_set_props [OF Cons.prems(1) this, where new = "set_epsilon_closure m s"]
    have "tm_ok (add_old_item m t item)" "special_set (add_old_item m t item) [] = special_set t []"
      using p(1) p(3) [of "[]"] Cons.prems(1) by (auto simp: add_old_item_def item)
    then show ?case using Cons.IH Cons.prems(2) by simp
  qed simp
  have "special_set (foldl (add_old_state m) t ns) [] = special_set t []"
    if "tm_ok t" "set ns \<subseteq> nodes m" for t ns
    using that
  proof (induction ns arbitrary: t)
    case (Cons n ns)
    have n: "n \<in> nodes m" using Cons.prems(2) by simp
    have "special_set (add_old_state m t n) [] = special_set t []"
      unfolding add_old_state_def
      using node_ok_at [OF m n] tm_items_ok by (intro empty Cons.prems(1)) (auto simp: node_ok_def)
    then show ?case using Cons.IH [OF add_old_state_spec(1) [OF m n Cons.prems(1)]] Cons.prems(2) by simp
  qed simp
  moreover have "finite X" using X finite_subset finite_nodes by blast
  ultimately show ?thesis
    using tm_ok_new X by (simp add: union_transitions_def special_set_def tm_new_def)
qed

lemma union_items:
  assumes m: "machine_ok m" and X: "X \<subseteq> nodes m"
  shows "\<forall>(event, s) \<in> set (tm_items (union_transitions m X)). s \<subseteq> nodes m \<and> event_chars_ok event"
    and "agreeing (tm_items (union_transitions m X))"
proof -
  let ?tm = "union_transitions m X"
  note tm = union_transitions_spec [OF m X] and ev = union_transitions_events [OF m X]
  show "agreeing (tm_items ?tm)"
    unfolding agreeing_def using items_consistent [OF tm(1) ev] by (metis prod.collapse)
  have closed: "nfa_move m X key \<subseteq> nodes m" if "\<And>n. n \<in> X \<Longrightarrow> node_targets m n key \<subseteq> nodes m" for key
    using that set_epsilon_closure_nodes [OF m] by (simp add: nfa_move_def UN_subset_iff)
  have "s \<subseteq> nodes m" if s: "(event, s) \<in> set (tm_items ?tm)" for event s
  proof -
    consider k where "k < length (tm_sets ?tm)" "s = tm_sets ?tm ! k"
      | e where "s = special_set ?tm e" "e \<noteq> []" | "s = special_set ?tm []"
    proof -
      assume set: "\<And>k. k < length (tm_sets ?tm) \<Longrightarrow> s = tm_sets ?tm ! k \<Longrightarrow> thesis"
        and special: "\<And>e. s = special_set ?tm e \<Longrightarrow> e \<noteq> [] \<Longrightarrow> thesis"
        and empty: "s = special_set ?tm [] \<Longrightarrow> thesis"
      have "dict_get (tm_special ?tm) e = Some s \<Longrightarrow> thesis" for e
        using special [of e] empty by (cases "e = []") (simp_all add: special_set_def)
      then show thesis using tm_items_mem [OF tm(1), of event s] s set by blast
    qed
    then show ?thesis
    proof cases
      case 1
      have less: "tm_codes ?tm ! k < tm_codes ?tm ! Suc k"
        using tm_ok_codes(3) [OF tm(1), of k "Suc k"] 1(1) by simp
      let ?c = "tm_codes ?tm ! k"
      have c: "- maxint \<le> ?c" "?c < maxint"
        using tm_ok_codes(1,2) [OF tm(1)] tm_ok_codes(3) [OF tm(1), of 0 k]
          tm_ok_codes(3) [OF tm(1), of k "length (tm_sets ?tm)"] 1(1) by (cases "k = 0"; simp)+
      have "s = nfa_move m X (KChar ?c)"
        using tm_lookup_nth [OF tm(1) 1(1), of ?c] less tm(2) [OF c] 1(2) by simp
      moreover have "node_targets m n (KChar ?c) \<subseteq> nodes m" if "n \<in> X" for n
      proof -
        have ok: "node_ok (nodes m) (transitions (node_at m n))" using node_ok_at [OF m] that X by blast
        then have t: "tm_ok (transitions (node_at m n))" by (simp add: node_ok_def)
        obtain j where j: "j < length (tm_sets (transitions (node_at m n)))"
          "tm_codes (transitions (node_at m n)) ! j \<le> ?c" "?c < tm_codes (transitions (node_at m n)) ! Suc j"
          using tm_range_exists [OF t c] .
        then show ?thesis
          using tm_lookup_nth [OF t j] ok by (simp add: node_targets_def node_ok_def)
      qed
      ultimately show ?thesis using closed by blast
    next
      case 2
      have "node_targets m n (KSym e) \<subseteq> nodes m" if "n \<in> X" for n
        using special_set_subset [OF node_ok_at [OF m]] that X by (auto simp: node_targets_def)
      then show ?thesis using tm(3) [OF 2(2)] 2(1) closed by simp
    next
      case 3
      have "special_set ?tm [] = {}" by (rule union_special_empty [OF m X])
      then show ?thesis using 3 by simp
    qed
  qed
  then show "\<forall>(event, s) \<in> set (tm_items ?tm). s \<subseteq> nodes m \<and> event_chars_ok event"
    using items_chars [OF tm(1) ev] by blast
qed

lemma process_state_spec:
  assumes m: "machine_ok m" and ok: "sm_ok m sm" and i: "1 \<le> i" "i \<le> state_count sm"
    and keys: "state_keys sm i = new_state_template"
  obtains sm' where "process_state m i sm = Inr sm'" "sm_ok m sm'" "sm_extends i sm sm'"
    "state_done m sm' i"
proof -
  obtain X where X: "olds sm i = Some X" using sm_ok_olds [OF ok i] by blast
  then have sub: "X \<subseteq> nodes m" using ok by (simp add: sm_ok_def)
  let ?tm = "union_transitions m X"
  note tm = union_transitions_spec [OF m sub]
  obtain sm' where sm': "add_new_transitions m i (tm_items ?tm) sm = Inr sm'" "sm_ok m sm'"
    "sm_extends i sm sm'"
    "filled (tm_items ?tm) (olds sm') new_state_template (fs_keys (fm_state (new_machine sm') i))"
    using add_new_transitions_spec [OF ok i union_items [OF m sub]] keys
    by (auto simp: state_keys_def)
  have X': "olds sm' i = Some X" using sm'(3) X by (simp add: sm_extends_def)
  have "case fast_next (fm_state (new_machine sm') i) key of
      Some n \<Rightarrow> olds sm' n = Some (nfa_move m X key) | None \<Rightarrow> nfa_move m X key = {}"
    if key: "input_ok key" for key
  proof (cases key)
    case (KChar c)
    then have c: "chr_ok c" using key by (simp add: input_ok_def)
    then have "tm_lookup ?tm c = nfa_move m X key"
      using tm(2) [of c] chr_ok_maxint [OF c] KChar by simp
    then show ?thesis
      using filled_next_char [OF tm(1) union_transitions_closed [OF m sub]
          union_transitions_events [OF m sub] sm'(4) c] KChar by (auto split: option.splits)
  next
    case (KSym e)
    then have e: "e \<in> {''bol'', ''eol'', ''eof''}" using key by (simp add: input_ok_def)
    then have "special_set ?tm e = nfa_move m X key" using tm(3) [of e] KSym by auto
    then show ?thesis using filled_next_sym [OF tm(1) sm'(4) e] KSym by (auto split: option.splits)
  qed
  moreover have "dict_get (state_keys sm' i) (KSym []) = dict_get new_state_template (KSym [])"
    unfolding state_keys_def
  proof (rule filled_unset [OF sm'(4)])
    fix event s assume e: "(event, s) \<in> set (tm_items ?tm)"
    show "\<not> sets_key event (KSym [])"
    proof
      assume "sets_key event (KSym [])"
      with item_of_sym [OF tm(1) e, of "[]"] e union_special_empty [OF m sub]
        tm_items_mem [OF tm(1), of event s] show False by auto
    qed
  qed
  then have "dict_get (state_keys sm' i) (KSym []) = Some None" by (simp add: new_state_template_def)
  ultimately have "state_done m sm' i" using X' by (auto simp: state_done_def)
  then show thesis using that sm'(1-3) X by (simp add: process_state_def)
qed

subsection \<open>The loop\<close>

lemma state_done_extends:
  assumes "state_done m sm j" and "sm_extends i sm sm'" and "j \<noteq> i" and "j \<in> {1..state_count sm}"
  shows "state_done m sm' j"
proof -
  have same: "fm_state (new_machine sm') j = fm_state (new_machine sm) j"
    using assms by (simp add: sm_extends_def)
  obtain X where X: "olds sm j = Some X" and next_ok: "\<And>key. input_ok key \<Longrightarrow>
      (case fast_next (fm_state (new_machine sm) j) key of
         Some n \<Rightarrow> olds sm n = Some (nfa_move m X key) | None \<Rightarrow> nfa_move m X key = {})"
    using assms(1) by (auto simp: state_done_def)
  have keep: "\<And>n Y. olds sm n = Some Y \<Longrightarrow> olds sm' n = Some Y"
    using assms(2) by (simp add: sm_extends_def)
  have "case fast_next (fm_state (new_machine sm') j) key of
         Some n \<Rightarrow> olds sm' n = Some (nfa_move m X key) | None \<Rightarrow> nfa_move m X key = {}"
    if "input_ok key" for key
    using next_ok [OF that] keep unfolding same by (auto split: option.splits)
  moreover have "dict_get (state_keys sm' j) (KSym []) = Some None"
    using assms(1) same by (simp add: state_done_def state_keys_def)
  ultimately show ?thesis using keep [OF X] by (auto simp: state_done_def)
qed

definition dfa_inv :: "'a Machine \<Rightarrow> nat \<Rightarrow> 'a StateMap \<Rightarrow> bool" where
  "dfa_inv m i sm \<longleftrightarrow>
     sm_ok m sm \<and> i \<le> state_count sm
     \<and> (\<forall>j \<in> {1..i}. state_done m sm j)
     \<and> (\<forall>j \<in> {i + 1..state_count sm}. state_keys sm j = new_state_template)"

lemma dfa_inv_step:
  assumes m: "machine_ok m" and inv: "dfa_inv m i sm" and i: "i < state_count sm"
  obtains sm' where "process_state m (i + 1) sm = Inr sm'" "dfa_inv m (i + 1) sm'"
    "sm_extends (i + 1) sm sm'"
proof -
  have ok: "sm_ok m sm" and keys: "state_keys sm (i + 1) = new_state_template"
    using inv i by (simp_all add: dfa_inv_def)
  have range: "1 \<le> i + 1" "i + 1 \<le> state_count sm" using i by simp_all
  obtain sm' where sm': "process_state m (i + 1) sm = Inr sm'" "sm_ok m sm'"
    "sm_extends (i + 1) sm sm'" "state_done m sm' (i + 1)"
    using process_state_spec [OF m ok range keys] .
  have count: "state_count sm \<le> state_count sm'" using sm'(3) by (simp add: sm_extends_def)
  have "state_done m sm' j" if "j \<in> {1..i + 1}" for j
  proof (cases "j = i + 1")
    case False
    then show ?thesis
      using that i inv state_done_extends [OF _ sm'(3), where j = j] by (simp add: dfa_inv_def)
  qed (use sm'(4) in simp)
  moreover have "state_keys sm' j = new_state_template" if j: "j \<in> {i + 1 + 1..state_count sm'}" for j
  proof (cases "j \<le> state_count sm")
    case True
    then have "state_keys sm' j = state_keys sm j"
      using sm'(3) j by (simp add: sm_extends_def state_keys_def)
    with True j inv show ?thesis by (simp add: dfa_inv_def)
  next
    case False
    with sm'(3) j show ?thesis by (simp add: sm_extends_def state_keys_def)
  qed
  ultimately have "dfa_inv m (i + 1) sm'"
    using sm'(2) count range by (simp add: dfa_inv_def)
  with sm' show thesis using that by blast
qed

text \<open>There are at most as many new states as sets of old states.\<close>

lemma state_count_bound:
  assumes "sm_ok m sm"
  shows "state_count sm \<le> 2 ^ card (nodes m)"
proof -
  let ?f = "\<lambda>n. the (olds sm n)"
  have some: "olds sm n = Some (?f n)" if "n \<in> {1..state_count sm}" for n
    using sm_ok_olds [OF assms, of n] that by auto
  have "inj_on ?f {1..state_count sm}"
  proof (rule inj_onI)
    fix a b assume a: "a \<in> {1..state_count sm}" and b: "b \<in> {1..state_count sm}" and "?f a = ?f b"
    then have "olds sm a = Some (?f a)" "olds sm b = Some (?f a)" 
      using some [OF a] some [OF b] by simp_all
    then have "dict_get (old_to_new_dict sm) (?f a) = Some a" "dict_get (old_to_new_dict sm) (?f a) = Some b"
      using assms by (simp_all add: sm_ok_def)
    then show "a = b" by simp
  qed
  moreover have "?f ` {1..state_count sm} \<subseteq> Pow (nodes m)"
  proof
    fix X assume "X \<in> ?f ` {1..state_count sm}"
    then obtain n where "olds sm n = Some X" using some by fastforce
    then show "X \<in> Pow (nodes m)" using assms by (simp add: sm_ok_def)
  qed
  ultimately have "card {1..state_count sm} \<le> card (Pow (nodes m))"
    by (intro card_inj_on_le) simp_all
  then show ?thesis by (simp add: card_Pow)
qed

lemma dfa_loop_spec:
  assumes m: "machine_ok m"
  shows "dfa_inv m i sm \<Longrightarrow> \<exists>sm'. dfa_loop m i sm = Some (Inr sm')
    \<and> dfa_inv m (state_count sm') sm'
    \<and> (\<forall>n X. olds sm n = Some X \<longrightarrow> olds sm' n = Some X)
    \<and> fm_initial_states (new_machine sm') = fm_initial_states (new_machine sm)"
proof (induction "2 ^ card (nodes m) - i" arbitrary: i sm rule: less_induct)
  case less
  show ?case
  proof (cases "i < state_count sm")
    case False
    then have "i = state_count sm" using less.prems by (simp add: dfa_inv_def)
    then show ?thesis using less.prems by (subst (1) dfa_loop.simps) auto
  next
    case True
    obtain sm1 where sm1: "process_state m (i + 1) sm = Inr sm1" "dfa_inv m (i + 1) sm1"
      "sm_extends (i + 1) sm sm1"
      using dfa_inv_step [OF m less.prems True] .
    have "state_count sm \<le> 2 ^ card (nodes m)"
      using state_count_bound less.prems by (auto simp: dfa_inv_def)
    then have "2 ^ card (nodes m) - (i + 1) < 2 ^ card (nodes m) - i" using True by simp
    from less.hyps [OF this sm1(2)] obtain sm' where sm': "dfa_loop m (i + 1) sm1 = Some (Inr sm')"
      "dfa_inv m (state_count sm') sm'"
      "\<forall>n X. olds sm1 n = Some X \<longrightarrow> olds sm' n = Some X"
      "fm_initial_states (new_machine sm') = fm_initial_states (new_machine sm1)" by blast
    have "dfa_loop m i sm = Some (Inr sm')"
      using True sm1(1) sm'(1) by (subst dfa_loop.simps) simp
    then show ?thesis using sm' sm1(3) by (auto simp: sm_extends_def)
  qed
qed

subsection \<open>The initial states\<close>

lemma seed_states_spec:
  assumes m: "machine_ok m"
  shows "distinct (map fst items) \<Longrightarrow> (\<forall>(name, n) \<in> set items. n \<in> nodes m) \<Longrightarrow> dfa_inv m 0 sm
   \<Longrightarrow> dfa_inv m 0 (seed_states m items sm)
     \<and> (\<forall>n X. olds sm n = Some X \<longrightarrow> olds (seed_states m items sm) n = Some X)
     \<and> (\<forall>name. dict_get (fm_initial_states (new_machine (seed_states m items sm))) name =
          (case dict_get items name of
             None \<Rightarrow> dict_get (fm_initial_states (new_machine sm)) name
           | Some s \<Rightarrow> dict_get (fm_initial_states (new_machine (seed_states m items sm))) name))
     \<and> (\<forall>(name, s) \<in> set items. \<exists>n.
          dict_get (fm_initial_states (new_machine (seed_states m items sm))) name = Some n
          \<and> olds (seed_states m items sm) n = Some (epsilon_closure m s))"
proof (induction items arbitrary: sm)
  case Nil
  then show ?case by simp
next
  case (Cons item items)
  obtain name s where item: "item = (name, s)" by (cases item)
  have s: "s \<in> nodes m" using Cons.prems(2) item by simp
  have ok: "sm_ok m sm" using Cons.prems(3) by (simp add: dfa_inv_def)
  obtain n sm1 where o: "old_to_new m (epsilon_closure m s) sm = (n, sm1)" "sm_ok m sm1"
    "olds sm1 n = Some (epsilon_closure m s)" "\<And>i. sm_extends i sm sm1"
    using old_to_new_spec [OF ok epsilon_closure_nodes [OF m s]] by metis
  define sm2 where "sm2 = sm1\<lparr>new_machine := fm_make_initial_state name n (new_machine sm1)\<rparr>"
  have keys1: "state_keys sm1 j = new_state_template" if "j \<in> {1..state_count sm1}" for j
  proof (cases "j \<le> state_count sm")
    case True
    then have "state_keys sm1 j = state_keys sm j"
      using o(4) [of 0] that by (simp add: sm_extends_def state_keys_def)
    with True that Cons.prems(3) show ?thesis by (simp add: dfa_inv_def)
  next
    case False
    with o(4) [of 0] that show ?thesis by (simp add: sm_extends_def state_keys_def)
  qed
  have st: "fm_state (new_machine sm2) j = fm_state (new_machine sm1) j" for j
    by (simp add: sm2_def fm_make_initial_state_def fm_state_def)
  have inv2: "dfa_inv m 0 sm2"
    using o(2) keys1 st by (simp add: dfa_inv_def sm_ok_def state_keys_def)
      (simp add: sm2_def fm_make_initial_state_def)
  have init2: "dict_get (fm_initial_states (new_machine sm2)) k =
      (if k = name then Some n else dict_get (fm_initial_states (new_machine sm)) k)" for k
    using o(4) [of 0] by (simp add: sm2_def fm_make_initial_state_def dict_get_set sm_extends_def)
  have olds2: "olds sm2 k = olds sm1 k" for k by (simp add: sm2_def)
  have run: "seed_states m (item # items) sm = seed_states m items sm2"
    by (simp add: item o(1) sm2_def)
  have dist: "distinct (map fst items)" "name \<notin> fst ` set items"
    using Cons.prems(1) item by simp_all
  have rest: "\<forall>(name, n) \<in> set items. n \<in> nodes m" using Cons.prems(2) by simp
  note IH = Cons.IH [OF dist(1) rest inv2, THEN conjunct1]
    Cons.IH [OF dist(1) rest inv2, THEN conjunct2, THEN conjunct1]
    Cons.IH [OF dist(1) rest inv2, THEN conjunct2, THEN conjunct2, THEN conjunct1]
    Cons.IH [OF dist(1) rest inv2, THEN conjunct2, THEN conjunct2, THEN conjunct2]
  have none: "dict_get items name = None" using dist(2) by (simp add: map_of_eq_None_iff)
  have keep: "olds (seed_states m items sm2) k = Some X" if "olds sm2 k = Some X" for k X
    using IH(2) that by blast
  have "dict_get (fm_initial_states (new_machine (seed_states m items sm2))) name = Some n"
    using IH(3) [THEN spec, of name] none init2 [of name] by simp
  moreover have "olds (seed_states m items sm2) n = Some (epsilon_closure m s)"
    using o(3) olds2 by (intro keep) simp
  moreover have "\<forall>k. dict_get (fm_initial_states (new_machine (seed_states m items sm2))) k =
      (case dict_get (item # items) k of
         None \<Rightarrow> dict_get (fm_initial_states (new_machine sm)) k
       | Some s \<Rightarrow> dict_get (fm_initial_states (new_machine (seed_states m items sm2))) k)"
  proof
    fix k
    show "dict_get (fm_initial_states (new_machine (seed_states m items sm2))) k =
      (case dict_get (item # items) k of
         None \<Rightarrow> dict_get (fm_initial_states (new_machine sm)) k
       | Some s \<Rightarrow> dict_get (fm_initial_states (new_machine (seed_states m items sm2))) k)"
    proof (cases "dict_get (item # items) k")
      case None
      then have "dict_get items k = None" "k \<noteq> name" by (auto simp: item split: if_splits)
      with IH(3) [THEN spec, of k] init2 [of k] None show ?thesis by simp
    qed simp
  qed
  moreover have "\<forall>k X. olds sm k = Some X \<longrightarrow> olds (seed_states m items sm2) k = Some X"
    using o(4) [of 0] olds2 by (auto simp: sm_extends_def intro!: keep)
  ultimately show ?case using IH(1,4) unfolding run
    by (intro conjI) (assumption | simp add: item)+
qed

subsection \<open>Equivalence\<close>

lemma fm_run_olds:
  assumes m: "machine_ok m" and inv: "dfa_inv m (state_count sm) sm"
  shows "olds sm n = Some X \<Longrightarrow> list_all input_ok word \<Longrightarrow>
    (case fm_run (new_machine sm) n word of
       Some n' \<Rightarrow> olds sm n' = Some (foldl (nfa_move m) X word)
     | None \<Rightarrow> foldl (nfa_move m) X word = {})"
proof (induction word arbitrary: n X)
  case Nil
  then show ?case by simp
next
  case (Cons key word)
  have ok: "sm_ok m sm" using inv by (simp add: dfa_inv_def)
  have "n \<in> {1..state_count sm}" using sm_ok_number [OF ok Cons.prems(1)] by simp
  then have "state_done m sm n" using inv by (simp add: dfa_inv_def)
  then have next_ok: "case fast_next (fm_state (new_machine sm) n) key of
       Some n' \<Rightarrow> olds sm n' = Some (nfa_move m X key) | None \<Rightarrow> nfa_move m X key = {}"
    using Cons.prems by (simp add: state_done_def)
  have empty: "foldl (nfa_move m) {} w = {}" for w
    by (induction w) (simp_all add: nfa_move_def)
  show ?case
  proof (cases "fast_next (fm_state (new_machine sm) n) key")
    case None
    with next_ok empty show ?thesis by simp
  next
    case (Some n')
    with next_ok Cons.IH [of n' "nfa_move m X key"] Cons.prems(2) show ?thesis
      by (auto split: option.splits)
  qed
qed

lemma highest_priority_action_empty [simp]: "highest_priority_action m {} = None"
  by (simp add: highest_priority_action_def)

lemma nfa_to_dfa_actions:
  assumes "machine_ok m"
  shows "\<exists>fm. nfa_to_dfa m = Some (Inr fm)
    \<and> (\<forall>name. dict_get (fm_initial_states fm) name = None \<longleftrightarrow> dict_get (initial_states m) name = None)
    \<and> (\<forall>name s word. dict_get (initial_states m) name = Some s \<longrightarrow> list_all input_ok word
         \<longrightarrow> fm_action fm name word = nfa_action m s word) \<and> fm_ok fm"
proof -
  let ?seed = "seed_states m (initial_states m) state_map_init"
  have dist: "distinct (map fst (initial_states m))" and valid: "\<forall>(name, n) \<in> set (initial_states m). n \<in> nodes m"
    using assms by (simp_all add: machine_ok_def dict_wf_def)
  have "dfa_inv m 0 state_map_init"
    by (simp add: dfa_inv_def sm_ok_def state_map_init_def fast_machine_init_def)
  note seed = seed_states_spec [OF assms dist valid this]
  obtain sm where sm: "dfa_loop m 0 ?seed = Some (Inr sm)" "dfa_inv m (state_count sm) sm"
    "\<And>n X. olds ?seed n = Some X \<Longrightarrow> olds sm n = Some X"
    "fm_initial_states (new_machine sm) = fm_initial_states (new_machine ?seed)"
    using dfa_loop_spec [OF assms, of 0 ?seed] seed by blast
  have ok: "sm_ok m sm" using sm(2) by (simp add: dfa_inv_def)
  have init: "\<exists>n. dict_get (fm_initial_states (new_machine sm)) name = Some n
      \<and> olds sm n = Some (epsilon_closure m s)" if "dict_get (initial_states m) name = Some s" for name s
    using seed sm(3,4) map_of_SomeD [OF that] by fastforce
  have missing: "dict_get (fm_initial_states (new_machine sm)) name = None"
    if "dict_get (initial_states m) name = None" for name
    using seed [THEN conjunct2, THEN conjunct2, THEN conjunct1, THEN spec, of name] that sm(4)
    by (simp add: state_map_init_def fast_machine_init_def)
  have "fm_action (new_machine sm) name word = nfa_action m s word"
    if name: "dict_get (initial_states m) name = Some s" and word: "list_all input_ok word" for name s word
  proof -
    obtain n where n: "dict_get (fm_initial_states (new_machine sm)) name = Some n"
      "olds sm n = Some (epsilon_closure m s)" using init [OF name] by blast
    show ?thesis
    proof (cases "fm_run (new_machine sm) n word")
      case None
      then show ?thesis
        using fm_run_olds [OF assms sm(2) n(2) word] n(1) by (simp add: fm_action_def nfa_action_def)
    next
      case (Some n')
      then have "olds sm n' = Some (foldl (nfa_move m) (epsilon_closure m s) word)"
        using fm_run_olds [OF assms sm(2) n(2) word] by simp
      then show ?thesis
        using n(1) Some ok by (simp add: fm_action_def nfa_action_def sm_ok_def)
    qed
  qed
  moreover have "nfa_to_dfa m = Some (Inr (new_machine sm))" using sm(1) by (simp add: nfa_to_dfa_def)
  moreover have "dict_get (fm_initial_states (new_machine sm)) name = None
      \<longleftrightarrow> dict_get (initial_states m) name = None" for name
    using init [of name] missing [of name] by (cases "dict_get (initial_states m) name") auto
  moreover have "fm_ok (new_machine sm)"
    unfolding fm_ok_def
  proof (intro conjI ballI allI impI)
    fix st assume "st \<in> set (fm_states (new_machine sm))"
    then obtain k where "k < state_count sm" "st = fm_states (new_machine sm) ! k"
      by (auto simp: in_set_conv_nth)
    then have j: "k + 1 \<in> {1..state_count sm}" "st = fm_state (new_machine sm) (k + 1)"
      by (simp_all add: fm_state_def)
    then have d: "state_done m sm (k + 1)" using sm(2) by (simp add: dfa_inv_def)
    then show "dict_get (fs_keys st) (KSym []) = Some None"
      by (simp add: state_done_def state_keys_def j(2))
    fix key target assume "input_ok key \<and> fast_next st key = Some target"
    then obtain X where "olds sm target = Some X" using d j(2) by (fastforce simp: state_done_def)
    then show "target \<in> {1..state_count sm}" using sm_ok_number [OF ok] by simp
  next
    fix name n assume n: "dict_get (fm_initial_states (new_machine sm)) name = Some n"
    then obtain s where "dict_get (initial_states m) name = Some s" using missing [of name] by fastforce
    then show "n \<in> {1..state_count sm}" using init [of name s] n sm_ok_number [OF ok] by auto
  qed
  ultimately show ?thesis by blast
qed

text \<open>C22. For every well-formed machine the conversion returns, without an error, a
  deterministic machine that has the same initial states and gives, after every sequence of
  characters and line and file symbols, exactly the action of the set of states the
  nondeterministic machine can be in, and no action when it can be in none.\<close>

theorem nfa_to_dfa_equivalent:
  assumes "machine_ok m"
  shows "\<exists>fm. nfa_to_dfa m = Some (Inr fm)
    \<and> (\<forall>name. dict_get (fm_initial_states fm) name = None \<longleftrightarrow> dict_get (initial_states m) name = None)
    \<and> (\<forall>name s word. dict_get (initial_states m) name = Some s \<longrightarrow> list_all input_ok word
         \<longrightarrow> fm_action fm name word = nfa_action m s word)"
  using nfa_to_dfa_actions [OF assms] by blast

text \<open>A machine of two states: the letter \<open>a\<close> leads from the first to the second, which accepts.\<close>

definition example_machine :: "nat Machine" where
  "example_machine =
     set_action 2 7 (- 1) (add_transition 1 (Codes 97 98) 2
       (snd (new_state (snd (new_initial_state [] machine_init)))))"

lemma example_machine_ok: "machine_ok example_machine"
  by (simp add: example_machine_def machine_init_def new_initial_state_def new_state_def
      make_initial_state_def add_transition_def set_action_def node_update_def node_at_def
      node_init_def tm_add_def tm_add_set.simps tm_split_def split_search.simps code_at_def
      tm_update.simps insert_at_def tm_new_def maxint_def Let_def machine_ok_def nodes_def
      node_ok_def tm_ok_def tm_closed_def code_ok_def LOWEST_PRIORITY_def dict_wf_def)

lemma nfa_to_dfa_equivalent_witness:
  "\<exists>fm. nfa_to_dfa example_machine = Some (Inr fm)
    \<and> fm_action fm [] [KChar 97] = nfa_action example_machine 1 [KChar 97]"
proof -
  have "dict_get (initial_states example_machine) [] = Some 1"
    by (simp add: example_machine_def machine_init_def new_initial_state_def new_state_def
        make_initial_state_def add_transition_def set_action_def node_update_def Let_def)
  then show ?thesis
    using nfa_to_dfa_equivalent [OF example_machine_ok]
    by (fastforce simp: input_ok_def chr_ok_def)
qed

text \<open>C23. \<open>epsilon_closure\<close> returns exactly the states that epsilon moves reach, cycles
  included.\<close>

theorem epsilon_closure_reachable:
  assumes "machine_ok m" and "n \<in> nodes m"
  shows "k \<in> epsilon_closure m n \<longleftrightarrow> (n, k) \<in> (epsilon_rel m)\<^sup>*"
  using epsilon_closure_rtrancl [OF assms] by simp

lemma epsilon_closure_reachable_witness:
  "1 \<in> epsilon_closure example_machine 1"
proof -
  have "1 \<in> nodes example_machine"
    by (simp add: example_machine_def machine_init_def new_initial_state_def new_state_def
        make_initial_state_def add_transition_def set_action_def node_update_def Let_def nodes_def)
  then show ?thesis
    using epsilon_closure_reachable [OF example_machine_ok, of 1 1] by simp
qed

subsection \<open>The action of a set\<close>

lemma foldl_better_action:
  "snd best \<le> snd (foldl (better_action m) best ns)
   \<and> (\<forall>n \<in> set ns. action_priority (node_at m n) \<le> snd (foldl (better_action m) best ns))
   \<and> (foldl (better_action m) best ns = best
      \<or> (\<exists>n \<in> set ns. foldl (better_action m) best ns = (node_action (node_at m n), action_priority (node_at m n))
           \<and> snd best < action_priority (node_at m n)))"
proof (induction ns arbitrary: best)
  case Nil
  then show ?case by simp
next
  case (Cons n ns)
  obtain a p where best: "best = (a, p)" by (cases best)
  show ?case
    using Cons.IH [of "better_action m best n"]
    by (cases "p < action_priority (node_at m n)") (auto simp: better_action_def best Let_def)
qed

lemma highest_priority_action_cases:
  assumes "finite X"
  shows "if \<exists>n \<in> X. LOWEST_PRIORITY < action_priority (node_at m n)
    then \<exists>n \<in> X. highest_priority_action m X = node_action (node_at m n)
           \<and> (\<forall>k \<in> X. action_priority (node_at m k) \<le> action_priority (node_at m n))
    else highest_priority_action m X = None"
proof -
  let ?r = "foldl (better_action m) (None, LOWEST_PRIORITY) (sorted_list_of_set X)"
  have set: "set (sorted_list_of_set X) = X" using assms by simp
  note f = foldl_better_action [of "(None, LOWEST_PRIORITY)" m "sorted_list_of_set X", unfolded set]
  show ?thesis
  proof (cases "\<exists>n \<in> X. LOWEST_PRIORITY < action_priority (node_at m n)")
    case True
    then have "?r \<noteq> (None, LOWEST_PRIORITY)" using f by force
    with f obtain n where "n \<in> X" "?r = (node_action (node_at m n), action_priority (node_at m n))"
      by auto
    with f True show ?thesis by (auto simp: highest_priority_action_def)
  next
    case False
    then have "?r = (None, LOWEST_PRIORITY)" using f by auto
    with False show ?thesis by (simp add: highest_priority_action_def)
  qed
qed

text \<open>C24. The action of a set of states is the action of a member of highest priority, or none
  when every member has the lowest priority: of the tokens whose patterns match, the first of the
  specification wins.\<close>

theorem highest_priority_action_spec:
  assumes "finite X"
  shows "if \<exists>n \<in> X. LOWEST_PRIORITY < action_priority (node_at m n)
    then \<exists>n \<in> X. highest_priority_action m X = node_action (node_at m n)
           \<and> (\<forall>k \<in> X. action_priority (node_at m k) \<le> action_priority (node_at m n))
    else highest_priority_action m X = None"
  using highest_priority_action_cases [OF assms] .

lemma highest_priority_action_spec_witness:
  "if \<exists>n \<in> {2}. LOWEST_PRIORITY < action_priority (node_at example_machine n)
    then \<exists>n \<in> {2}. highest_priority_action example_machine {2} = node_action (node_at example_machine n)
           \<and> (\<forall>k \<in> {2}. action_priority (node_at example_machine k)
                \<le> action_priority (node_at example_machine n))
    else highest_priority_action example_machine {2} = None"
  using highest_priority_action_spec [of "{2}" example_machine] by simp

end
