(* ===== verification/PlexRegexps.thy ===== *)
theory PlexRegexps
  imports PlexMachines
begin

text \<open>
  \<open>Cython/Plex/Regexps.py\<close>: the regular expressions, the functions that build them, and the
  construction of the nondeterministic machine. A character is its code. The attributes that a
  constructor computes (\<open>nullable\<close>, \<open>match_nl\<close>, the two case ranges) are functions of the
  expression; \<open>str\<close> and the type checks of the arguments have no counterpart.
\<close>

subsection \<open>Ranges of characters\<close>

definition nl_code :: int where "nl_code = 10"

text \<open>The inner loop of \<open>chars_to_ranges\<close>: \<open>code2\<close> and the rest of the sorted list.\<close>

fun extend_range :: "int \<Rightarrow> int list \<Rightarrow> int \<times> int list" where
  "extend_range code2 [] = (code2, [])"
| "extend_range code2 (c # cs) =
     (if code2 \<ge> c then extend_range (code2 + 1) cs else (code2, c # cs))"

lemma extend_range_length: "length (snd (extend_range code2 cs)) \<le> length cs"
  by (induction code2 cs rule: extend_range.induct) auto

function ranges_of_sorted :: "int list \<Rightarrow> int list" where
  "ranges_of_sorted [] = []"
| "ranges_of_sorted (c # cs) =
     (let (code2, rest) = extend_range (c + 1) cs in c # code2 # ranges_of_sorted rest)"
  by pat_completeness auto
termination
proof (relation "measure length")
  fix c :: int and cs x code2 rest
  assume "x = extend_range (c + 1) cs" "(code2, rest) = x"
  then show "(rest, c # cs) \<in> measure length"
    using extend_range_length [of "c + 1" cs] by (metis in_measure length_Cons less_Suc_eq_le snd_conv)
qed simp

definition chars_to_ranges :: "int list \<Rightarrow> int list" where
  "chars_to_ranges s = ranges_of_sorted (sort s)"

definition uppercase_range :: "int \<Rightarrow> int \<Rightarrow> (int \<times> int) option" where
  "uppercase_range code1 code2 =
     (let code3 = max code1 97; code4 = min code2 (122 + 1) in
      if code3 < code4 then let d = 65 - 97 in Some (code3 + d, code4 + d) else None)"

definition lowercase_range :: "int \<Rightarrow> int \<Rightarrow> (int \<times> int) option" where
  "lowercase_range code1 code2 =
     (let code3 = max code1 65; code4 = min code2 (90 + 1) in
      if code3 < code4 then let d = 97 - 65 in Some (code3 + d, code4 + d) else None)"

subsection \<open>Expressions\<close>

datatype RE =
    RawCodeRange int int
  | RawNewline
  | SpecialSymbol string
  | Seq "RE list"
  | Alt "RE list"
  | Rep1 RE
  | SwitchCase RE bool

fun nullable :: "RE \<Rightarrow> bool" where
  "nullable (RawCodeRange code1 code2) = False"
| "nullable RawNewline = False"
| "nullable (SpecialSymbol symb) = False"
| "nullable (Seq res) = list_all nullable res"
| "nullable (Alt res) = list_ex nullable res"
| "nullable (Rep1 re) = nullable re"
| "nullable (SwitchCase re nocase) = nullable re"

text \<open>The loop of \<open>Seq.__init__\<close> from the last expression on; an item is the pair of its
  \<open>match_nl\<close> and \<open>nullable\<close>.\<close>

fun seq_match_nl :: "(bool \<times> bool) list \<Rightarrow> bool" where
  "seq_match_nl [] = False"
| "seq_match_nl ((mnl, nullbl) # res) =
     (if mnl then True else if \<not> nullbl then False else seq_match_nl res)"

fun match_nl :: "RE \<Rightarrow> bool" where
  "match_nl (RawCodeRange code1 code2) = False"
| "match_nl RawNewline = True"
| "match_nl (SpecialSymbol symb) = False"
| "match_nl (Seq res) = seq_match_nl (rev (map (\<lambda>re. (match_nl re, nullable re)) res))"
| "match_nl (Alt res) = list_ex match_nl res"
| "match_nl (Rep1 re) = match_nl re"
| "match_nl (SwitchCase re nocase) = match_nl re"

definition CodeRange :: "int \<Rightarrow> int \<Rightarrow> RE" where
  "CodeRange code1 code2 =
     (if code1 \<le> nl_code \<and> nl_code < code2
      then Alt [RawCodeRange code1 nl_code, RawNewline, RawCodeRange (nl_code + 1) code2]
      else RawCodeRange code1 code2)"

fun code_pairs :: "int list \<Rightarrow> (int \<times> int) list" where
  "code_pairs (code1 # code2 # codes) = (code1, code2) # code_pairs codes"
| "code_pairs codes = []"

definition CodeRanges :: "int list \<Rightarrow> RE" where
  "CodeRanges code_list = Alt (map (\<lambda>(code1, code2). CodeRange code1 code2) (code_pairs code_list))"

definition Char :: "dict_key \<Rightarrow> RE" where
  "Char c = (case c of KChar code \<Rightarrow> CodeRange code (code + 1) | KSym symb \<Rightarrow> SpecialSymbol symb)"

definition Empty :: RE where "Empty = Seq []"

definition Str1 :: "int list \<Rightarrow> RE" where
  "Str1 s = Seq (map (\<lambda>c. Char (KChar c)) s)"

definition Str :: "int list list \<Rightarrow> RE" where
  "Str strs = (if length strs = 1 then Str1 (hd strs) else Alt (map Str1 strs))"

definition AnyOf :: "int list \<Rightarrow> RE" where
  "AnyOf s = CodeRanges (chars_to_ranges s)"

definition AnyBut :: "int list \<Rightarrow> RE" where
  "AnyBut s = CodeRanges (- maxint # chars_to_ranges s @ [maxint])"

definition AnyChar :: RE where "AnyChar = AnyBut []"

text \<open>\<open>Range(c1, c2)\<close>, and \<open>Range(s)\<close>, which raises an \<open>IndexError\<close>, here \<open>None\<close>, when the length of
  \<open>s\<close> is odd.\<close>

definition Range :: "int \<Rightarrow> int \<Rightarrow> RE" where
  "Range c1 c2 = CodeRange c1 (c2 + 1)"

definition Range_pairs :: "int list \<Rightarrow> RE option" where
  "Range_pairs s =
     (if odd (length s) then None
      else Some (Alt (map (\<lambda>(c1, c2). CodeRange c1 (c2 + 1)) (code_pairs s))))"

definition Opt :: "RE \<Rightarrow> RE" where "Opt re = Alt [re, Empty]"
definition Rep :: "RE \<Rightarrow> RE" where "Rep re = Opt (Rep1 re)"
definition NoCase :: "RE \<Rightarrow> RE" where "NoCase re = SwitchCase re True"
definition Case :: "RE \<Rightarrow> RE" where "Case re = SwitchCase re False"

definition BOL :: dict_key where "BOL = KSym ''bol''"
definition EOL :: dict_key where "EOL = KSym ''eol''"
definition EOF :: dict_key where "EOF = KSym ''eof''"

definition Bol :: RE where "Bol = Char BOL"
definition Eol :: RE where "Eol = Char EOL"
definition Eof :: RE where "Eof = Char EOF"

subsection \<open>The machine of an expression\<close>

definition build_opt :: "'a Machine \<Rightarrow> nat \<Rightarrow> string \<Rightarrow> nat \<times> 'a Machine" where
  "build_opt m initial_state c =
     (let (s, m) = new_state m;
          m = link_to initial_state s m;
          m = add_transition initial_state (Special c) s m
      in (s, m))"

text \<open>\<open>if match_bol: initial_state = self.build_opt(m, initial_state, BOL)\<close>.\<close>

definition opt_bol :: "bool \<Rightarrow> nat \<Rightarrow> 'a Machine \<Rightarrow> nat \<times> 'a Machine" where
  "opt_bol match_bol initial_state m =
     (if match_bol then build_opt m initial_state ''bol'' else (initial_state, m))"

definition add_range :: "nat \<Rightarrow> (int \<times> int) option \<Rightarrow> nat \<Rightarrow> 'a Machine \<Rightarrow> 'a Machine" where
  "add_range s codes target m =
     (case codes of None \<Rightarrow> m | Some (code1, code2) \<Rightarrow> add_transition s (Codes code1 code2) target m)"

text \<open>\<open>build_seq\<close> is the loop of \<open>Seq.build_machine\<close>, \<open>build_alt\<close> a loop of \<open>Alt.build_machine\<close>
  over \<open>nullable_res\<close> or \<open>non_nullable_res\<close>.\<close>

fun build_machine :: "RE \<Rightarrow> nat \<Rightarrow> nat \<Rightarrow> bool \<Rightarrow> bool \<Rightarrow> 'a Machine \<Rightarrow> 'a Machine"
  and build_seq :: "RE list \<Rightarrow> nat \<Rightarrow> nat \<Rightarrow> bool \<Rightarrow> bool \<Rightarrow> 'a Machine \<Rightarrow> 'a Machine"
  and build_alt :: "bool \<Rightarrow> RE list \<Rightarrow> nat \<Rightarrow> nat \<Rightarrow> bool \<Rightarrow> bool \<Rightarrow> 'a Machine \<Rightarrow> 'a Machine" where
  "build_machine (RawCodeRange code1 code2) initial_state final_state match_bol nocase m =
     (let (initial_state, m) = opt_bol match_bol initial_state m;
          m = add_transition initial_state (Codes code1 code2) final_state m
      in if nocase
         then add_range initial_state (lowercase_range code1 code2) final_state
                (add_range initial_state (uppercase_range code1 code2) final_state m)
         else m)"
| "build_machine RawNewline initial_state final_state match_bol nocase m =
     (let (initial_state, m) = opt_bol match_bol initial_state m;
          (s, m) = build_opt m initial_state ''eol''
      in add_transition s (Codes nl_code (nl_code + 1)) final_state m)"
| "build_machine (SpecialSymbol symb) initial_state final_state match_bol nocase m =
     (let (initial_state, m) = opt_bol (match_bol \<and> symb = ''eol'') initial_state m
      in add_transition initial_state (Special symb) final_state m)"
| "build_machine (Seq res) initial_state final_state match_bol nocase m =
     (if res = [] then link_to initial_state final_state m
      else build_seq res initial_state final_state match_bol nocase m)"
| "build_machine (Alt res) initial_state final_state match_bol nocase m =
     (let m = build_alt True res initial_state final_state match_bol nocase m
      in if list_ex (\<lambda>re. \<not> nullable re) res
         then let (initial_state, m) = opt_bol match_bol initial_state m
              in build_alt False res initial_state final_state False nocase m
         else m)"
| "build_machine (Rep1 re) initial_state final_state match_bol nocase m =
     (let (s1, m) = new_state m;
          (s2, m) = new_state m;
          m = link_to initial_state s1 m;
          m = build_machine re s1 s2 (match_bol \<or> match_nl re) nocase m;
          m = link_to s2 s1 m
      in link_to s2 final_state m)"
| "build_machine (SwitchCase re nocase') initial_state final_state match_bol nocase m =
     build_machine re initial_state final_state match_bol nocase' m"
| "build_seq [] s1 final_state match_bol nocase m = m"
| "build_seq [re] s1 final_state match_bol nocase m =
     build_machine re s1 final_state match_bol nocase m"
| "build_seq (re # re' # res) s1 final_state match_bol nocase m =
     (let (s2, m) = new_state m;
          m = build_machine re s1 s2 match_bol nocase m
      in build_seq (re' # res) s2 final_state
           (match_nl re \<or> (match_bol \<and> nullable re)) nocase m)"
| "build_alt null [] initial_state final_state match_bol nocase m = m"
| "build_alt null (re # res) initial_state final_state match_bol nocase m =
     build_alt null res initial_state final_state match_bol nocase
       (if nullable re = null
        then build_machine re initial_state final_state match_bol nocase m else m)"

end
