(* ===== verification/PlexLanguage.thy ===== *)
theory PlexLanguage
  imports PlexRegexps
begin

text \<open>
  What the regular expressions mean. \<open>lang\<close> is the set of sequences of scanner symbols, with the
  optional line symbols that \<open>build_machine\<close> lets through; \<open>text_lang\<close> is the set of texts the
  class comments promise. The two agree on the symbols the scanner makes of a text: the analysis
  of \<open>nullable\<close> and \<open>match_nl\<close> places the optional line symbols where the scanner can insert them.
\<close>

subsection \<open>Languages\<close>

definition conc :: "'k list set \<Rightarrow> 'k list set \<Rightarrow> 'k list set" where
  "conc A B = {u @ v | u v. u \<in> A \<and> v \<in> B}"

inductive_set plus :: "'k list set \<Rightarrow> 'k list set" for A where
  plus_one: "w \<in> A \<Longrightarrow> w \<in> plus A"
| plus_more: "u \<in> A \<Longrightarrow> v \<in> plus A \<Longrightarrow> u @ v \<in> plus A"

lemma concI: "u \<in> A \<Longrightarrow> v \<in> B \<Longrightarrow> u @ v \<in> conc A B"
  by (auto simp: conc_def)

lemma concE: "w \<in> conc A B \<Longrightarrow> (\<And>u v. w = u @ v \<Longrightarrow> u \<in> A \<Longrightarrow> v \<in> B \<Longrightarrow> thesis) \<Longrightarrow> thesis"
  by (auto simp: conc_def)

lemma conc_Nil [simp]: "conc {[]} A = A" "conc A {[]} = A"
  by (auto simp: conc_def)

lemma conc_empty [simp]: "conc {} A = {}" "conc A {} = {}"
  by (auto simp: conc_def)

lemma conc_assoc: "conc (conc A B) C = conc A (conc B C)"
  unfolding conc_def by (auto, metis append.assoc, metis append.assoc)

lemma conc_UN: "conc A (\<Union>i \<in> I. B i) = (\<Union>i \<in> I. conc A (B i))"
  by (auto simp: conc_def)

subsection \<open>Symbol sequences\<close>

definition opt_symbol :: "bool \<Rightarrow> string \<Rightarrow> dict_key list set" where
  "opt_symbol allowed s = (if allowed then {[], [KSym s]} else {[]})"

lemma opt_symbol_skip: "w \<in> A \<Longrightarrow> w \<in> conc (opt_symbol allowed s) A"
  using concI [of "[]" "opt_symbol allowed s" w A] by (simp add: opt_symbol_def)

lemma opt_symbol_take: "allowed \<Longrightarrow> w \<in> A \<Longrightarrow> KSym s # w \<in> conc (opt_symbol allowed s) A"
  using concI [of "[KSym s]" "opt_symbol allowed s" w A] by (simp add: opt_symbol_def)

definition in_codes :: "(int \<times> int) option \<Rightarrow> int \<Rightarrow> bool" where
  "in_codes codes c \<longleftrightarrow> (case codes of None \<Rightarrow> False | Some (code1, code2) \<Rightarrow> code1 \<le> c \<and> c < code2)"

definition in_range :: "bool \<Rightarrow> int \<Rightarrow> int \<Rightarrow> int \<Rightarrow> bool" where
  "in_range nocase code1 code2 c \<longleftrightarrow>
     code1 \<le> c \<and> c < code2
     \<or> nocase \<and> (in_codes (uppercase_range code1 code2) c \<or> in_codes (lowercase_range code1 code2) c)"

fun lang :: "bool \<Rightarrow> bool \<Rightarrow> RE \<Rightarrow> dict_key list set"
  and lang_seq :: "bool \<Rightarrow> bool \<Rightarrow> RE list \<Rightarrow> dict_key list set" where
  "lang match_bol nocase (RawCodeRange code1 code2) =
     conc (opt_symbol match_bol ''bol'') {[KChar c] | c. in_range nocase code1 code2 c}"
| "lang match_bol nocase RawNewline =
     conc (opt_symbol match_bol ''bol'') (conc (opt_symbol True ''eol'') {[KChar nl_code]})"
| "lang match_bol nocase (SpecialSymbol symb) =
     conc (opt_symbol (match_bol \<and> symb = ''eol'') ''bol'') {[KSym symb]}"
| "lang match_bol nocase (Seq res) = lang_seq match_bol nocase res"
| "lang match_bol nocase (Alt res) =
     (\<Union>re \<in> set (filter nullable res). lang match_bol nocase re)
     \<union> conc (opt_symbol match_bol ''bol'')
         (\<Union>re \<in> set (filter (\<lambda>re. \<not> nullable re) res). lang False nocase re)"
| "lang match_bol nocase (Rep1 re) = plus (lang (match_bol \<or> match_nl re) nocase re)"
| "lang match_bol nocase (SwitchCase re nocase') = lang match_bol nocase' re"
| "lang_seq match_bol nocase [] = {[]}"
| "lang_seq match_bol nocase (re # res) =
     conc (lang match_bol nocase re)
       (lang_seq (match_nl re \<or> (match_bol \<and> nullable re)) nocase res)"

subsection \<open>Texts\<close>

text \<open>What an expression without special symbols matches according to its documentation.\<close>

fun text_lang :: "bool \<Rightarrow> RE \<Rightarrow> int list set" where
  "text_lang nocase (RawCodeRange code1 code2) = {[c] | c. in_range nocase code1 code2 c}"
| "text_lang nocase RawNewline = {[nl_code]}"
| "text_lang nocase (SpecialSymbol symb) = {}"
| "text_lang nocase (Seq res) = foldr (\<lambda>re. conc (text_lang nocase re)) res {[]}"
| "text_lang nocase (Alt res) = (\<Union>re \<in> set res. text_lang nocase re)"
| "text_lang nocase (Rep1 re) = plus (text_lang nocase re)"
| "text_lang nocase (SwitchCase re nocase') = text_lang nocase' re"

text \<open>The expressions that the functions of the module build for strings and sets of
  characters.\<close>

fun text_re :: "RE \<Rightarrow> bool" where
  "text_re (RawCodeRange code1 code2) \<longleftrightarrow> \<not> (code1 \<le> nl_code \<and> nl_code < code2)"
| "text_re RawNewline \<longleftrightarrow> True"
| "text_re (SpecialSymbol symb) \<longleftrightarrow> False"
| "text_re (Seq res) \<longleftrightarrow> list_all text_re res"
| "text_re (Alt res) \<longleftrightarrow> list_all text_re res"
| "text_re (Rep1 re) \<longleftrightarrow> text_re re"
| "text_re (SwitchCase re nocase) \<longleftrightarrow> text_re re"

text \<open>The symbols the scanner makes of a text, from the middle of a line or from its start: the
  start of a line before its first character, the end before the newline.\<close>

fun symbols :: "bool \<Rightarrow> int list \<Rightarrow> dict_key list" where
  "symbols at_bol [] = []"
| "symbols at_bol (c # cs) =
     (if at_bol then [BOL] else []) @ (if c = nl_code then [EOL] else [])
     @ KChar c # symbols (c = nl_code) cs"

text \<open>The characters of a sequence of symbols.\<close>

definition chars_of :: "dict_key list \<Rightarrow> int list" where
  "chars_of w = [c. KChar c \<leftarrow> w]"

lemma chars_of_append [simp]: "chars_of (u @ v) = chars_of u @ chars_of v"
  by (simp add: chars_of_def)

lemma chars_of_simps [simp]:
  "chars_of [] = []" "chars_of (KChar c # w) = c # chars_of w" "chars_of (KSym s # w) = chars_of w"
  by (simp_all add: chars_of_def)

lemma chars_of_symbols: "chars_of (symbols b t) = t"
  by (induction b t rule: symbols.induct) (auto simp: BOL_def EOL_def)

lemma chars_of_opt_symbol: "u \<in> opt_symbol a s \<Longrightarrow> chars_of u = []"
  by (auto simp: opt_symbol_def split: if_splits)

subsection \<open>Every match is a text of the documentation\<close>

lemma plus_map: "w \<in> plus A \<Longrightarrow> (\<And>u. u \<in> A \<Longrightarrow> chars_of u \<in> B) \<Longrightarrow> chars_of w \<in> plus B"
  by (induction rule: plus.induct) (auto intro: plus.intros)

lemma lang_chars:
  "text_re re \<Longrightarrow> w \<in> lang mb nc re \<Longrightarrow> chars_of w \<in> text_lang nc re"
  "list_all text_re res \<Longrightarrow> w \<in> lang_seq mb nc res \<Longrightarrow>
     chars_of w \<in> foldr (\<lambda>re. conc (text_lang nc re)) res {[]}"
proof (induction mb nc re and mb nc res arbitrary: w and w rule: lang_lang_seq.induct)
  case (5 mb nc res)
  then show ?case by (fastforce simp: conc_def list_all_iff dest: chars_of_opt_symbol)
next
  case (6 mb nc re)
  then show ?case by (auto intro: plus_map)
next
  case (9 mb nc re res)
  then show ?case by (force simp: conc_def)
qed (auto simp: conc_def dest!: chars_of_opt_symbol)

subsection \<open>Every text of the documentation is matched\<close>

lemma symbols_append:
  "symbols b (t @ t') = symbols b t @ symbols (if t = [] then b else last t = nl_code) t'"
  by (induction t arbitrary: b) auto

lemma seq_match_nl_append:
  "seq_match_nl (xs @ [x]) \<longleftrightarrow> seq_match_nl xs \<or> list_all snd xs \<and> fst x"
  by (induction xs rule: seq_match_nl.induct) (cases x, auto)+

lemma match_nl_Cons:
  "match_nl (Seq (re # res)) \<longleftrightarrow> match_nl (Seq res) \<or> list_all nullable res \<and> match_nl re"
  by (simp add: seq_match_nl_append list_all_iff)

lemma in_range_newline: "\<not> (a \<le> nl_code \<and> nl_code < b) \<Longrightarrow> in_range nc a b c \<Longrightarrow> c \<noteq> nl_code"
  by (auto simp: in_range_def in_codes_def uppercase_range_def lowercase_range_def nl_code_def Let_def
      split: if_splits)

lemma plus_Nil: "[] \<in> plus A \<Longrightarrow> [] \<in> A"
  by (erule plus.cases) auto

lemma plus_last: "t \<in> plus A \<Longrightarrow> t \<noteq> [] \<Longrightarrow> \<exists>u \<in> A. u \<noteq> [] \<and> last u = last t"
proof (induction rule: plus.induct)
  case (plus_more u v)
  then show ?case by (cases "v = []") auto
qed blast

lemma foldr_conc_Nil: "[] \<in> foldr (\<lambda>re. conc (f re)) res {[]} \<Longrightarrow> re \<in> set res \<Longrightarrow> [] \<in> f re"
  by (induction res) (auto simp: conc_def)

lemma text_lang_nullable: "[] \<in> text_lang nc re \<Longrightarrow> nullable re"
  by (induction nc re rule: text_lang.induct)
    (auto simp: list_all_iff list_ex_iff dest: plus_Nil foldr_conc_Nil)

lemma foldr_conc_last:
  assumes "t \<in> foldr (\<lambda>re. conc (text_lang nc re)) res {[]}" and "t \<noteq> []" and "last t = nl_code"
    and "\<And>re u. re \<in> set res \<Longrightarrow> u \<in> text_lang nc re \<Longrightarrow> u \<noteq> [] \<Longrightarrow> last u = nl_code \<Longrightarrow> match_nl re"
  shows "match_nl (Seq res)"
  using assms
proof (induction res arbitrary: t)
  case (Cons re res)
  then obtain u v where t: "t = u @ v" "u \<in> text_lang nc re"
    "v \<in> foldr (\<lambda>re. conc (text_lang nc re)) res {[]}" by (auto elim!: concE)
  show ?case
  proof (cases "v = []")
    case True
    with t(3) have "list_all nullable res"
      by (auto simp: list_all_iff dest: foldr_conc_Nil intro: text_lang_nullable)
    moreover have "match_nl re" using Cons.prems(2-4) t(1,2) True by simp
    ultimately show ?thesis unfolding match_nl_Cons by blast
  next
    case False
    with Cons t show ?thesis unfolding match_nl_Cons by (intro disjI1 Cons.IH [of v]) auto
  qed
qed simp

lemma text_lang_nl:
  "text_re re \<Longrightarrow> t \<in> text_lang nc re \<Longrightarrow> t \<noteq> [] \<Longrightarrow> last t = nl_code \<Longrightarrow> match_nl re"
proof (induction nc re arbitrary: t rule: text_lang.induct)
  case (1 nc a b)
  then show ?case using in_range_newline by fastforce
next
  case (4 nc res)
  then show ?case by (intro foldr_conc_last [of t nc]) (auto simp: list_all_iff)
next
  case (5 nc res)
  then show ?case by (auto simp: list_all_iff list_ex_iff)
next
  case (6 nc re)
  then show ?case using plus_last [of t] by fastforce
qed auto

lemma symbols_start: "t \<noteq> [] \<Longrightarrow> symbols b t \<in> conc (opt_symbol b ''bol'') {symbols False t}"
  by (cases t) (auto simp: conc_def opt_symbol_def BOL_def)

lemma symbols_plus:
  assumes "t \<in> plus A" and "b \<longrightarrow> mb"
    and step: "\<And>u b. u \<in> A \<Longrightarrow> b \<longrightarrow> mb \<Longrightarrow> symbols b u \<in> L"
    and nl: "\<And>u. u \<in> A \<Longrightarrow> u \<noteq> [] \<Longrightarrow> last u = nl_code \<Longrightarrow> mb"
  shows "symbols b t \<in> plus L"
  using assms(1,2)
proof (induction arbitrary: b rule: plus.induct)
  case (plus_one w)
  then show ?case by (auto intro: plus.plus_one step)
next
  case (plus_more u v)
  have "(if u = [] then b else last u = nl_code) \<longrightarrow> mb"
    using plus_more nl by auto
  then show ?case
    using plus_more step unfolding symbols_append by (intro plus.plus_more) blast+
qed

lemma symbols_lang:
  "text_re re \<Longrightarrow> t \<in> text_lang nc re \<Longrightarrow> b \<longrightarrow> mb \<Longrightarrow> symbols b t \<in> lang mb nc re"
  "list_all text_re res \<Longrightarrow> t \<in> foldr (\<lambda>re. conc (text_lang nc re)) res {[]} \<Longrightarrow> b \<longrightarrow> mb
     \<Longrightarrow> symbols b t \<in> lang_seq mb nc res"
proof (induction mb nc re and mb nc res arbitrary: t b and t b rule: lang_lang_seq.induct)
  case (1 mb nc code1 code2)
  then obtain c where c: "t = [c]" "in_range nc code1 code2 c" by auto
  then have "c \<noteq> nl_code" using 1 in_range_newline [of code1 code2] by simp
  with c 1 show ?case by (auto simp: BOL_def intro: opt_symbol_skip opt_symbol_take)
next
  case (2 mb nc)
  have nl: "[KSym ''eol'', KChar nl_code] \<in> conc (opt_symbol True ''eol'') {[KChar nl_code]}"
    by (rule opt_symbol_take) simp_all
  have "t = [nl_code]" using 2 by simp
  then show ?case
    using 2 opt_symbol_skip [OF nl] opt_symbol_take [OF _ nl, of mb "''bol''"]
    by (cases b) (simp_all add: BOL_def EOL_def)
next
  case (5 mb nc res)
  then obtain re where re: "re \<in> set res" "t \<in> text_lang nc re" "text_re re"
    by (auto simp: list_all_iff)
  show ?case
  proof (cases "nullable re")
    case True
    then have "symbols b t \<in> lang mb nc re" using "5.IH"(1) [of re t b] re 5 by simp
    then show ?thesis using re(1) True by auto
  next
    case False
    then have t: "t \<noteq> []" using text_lang_nullable re(2) by blast
    have "symbols False t \<in> lang False nc re" using "5.IH"(2) [of re t False] re False by simp
    moreover have "symbols b t \<in> conc (opt_symbol mb ''bol'') {symbols False t}"
      using symbols_start [OF t, of b] "5.prems"(3) by (cases b) (auto simp: conc_def opt_symbol_def)
    ultimately show ?thesis using re(1) False by (fastforce simp: conc_def)
  qed
next
  case (6 mb nc re)
  then show ?case
    using text_lang_nl [of re _ nc] by (auto intro!: symbols_plus [where mb = "mb \<or> match_nl re"])
next
  case (9 mb nc re res)
  then obtain u v where t: "t = u @ v" "u \<in> text_lang nc re"
    "v \<in> foldr (\<lambda>re. conc (text_lang nc re)) res {[]}" by (auto elim!: concE)
  let ?b = "if u = [] then b else last u = nl_code"
  have "?b \<longrightarrow> match_nl re \<or> (mb \<and> nullable re)"
    using t(2) 9 text_lang_nullable text_lang_nl [of re u nc] by auto
  then have v: "symbols ?b v \<in> lang_seq (match_nl re \<or> (mb \<and> nullable re)) nc res"
    using "9.IH"(2) [of v ?b] t(3) "9.prems"(1) by simp
  have u: "symbols b u \<in> lang mb nc re"
    using "9.IH"(1) [of u b] t(2) "9.prems" by simp
  show ?case unfolding t(1) symbols_append lang_seq.simps by (rule concI [OF u v])
qed auto

subsection \<open>Sets of characters\<close>

definition codes_cover :: "int list \<Rightarrow> int set" where
  "codes_cover codes = (\<Union>(code1, code2) \<in> set (code_pairs codes). {code1..<code2})"

lemma codes_cover_simps [simp]:
  "codes_cover [] = {}" "codes_cover (a # b # codes) = {a..<b} \<union> codes_cover codes"
  by (simp_all add: codes_cover_def)

lemma extend_range_spec:
  "extend_range code2 cs = (code2', rest) \<Longrightarrow> sorted cs \<Longrightarrow>
     \<exists>pre. cs = pre @ rest \<and> code2' = code2 + int (length pre) \<and> (\<forall>c \<in> set pre. c < code2')
       \<and> (\<forall>c \<in> set rest. code2' < c)"
proof (induction code2 cs rule: extend_range.induct)
  case (2 code2 c cs)
  show ?case
  proof (cases "code2 \<ge> c")
    case True
    with 2 obtain pre where "cs = pre @ rest" "code2' = code2 + 1 + int (length pre)"
      "\<forall>c \<in> set pre. c < code2'" "\<forall>c \<in> set rest. code2' < c" by fastforce
    with True show ?thesis by (intro exI [of _ "c # pre"]) auto
  next
    case False
    with 2 show ?thesis by (intro exI [of _ "[]"]) fastforce
  qed
qed simp

lemma ranges_of_sorted_spec:
  "sorted cs \<Longrightarrow> set cs \<subseteq> codes_cover (ranges_of_sorted cs)
     \<and> finite (codes_cover (ranges_of_sorted cs)) \<and> card (codes_cover (ranges_of_sorted cs)) = length cs
     \<and> (\<forall>x \<in> codes_cover (ranges_of_sorted cs). \<forall>l. (\<forall>c \<in> set cs. l < c) \<longrightarrow> l < x)"
proof (induction cs rule: ranges_of_sorted.induct)
  case (2 c cs)
  obtain code2 rest where e: "extend_range (c + 1) cs = (code2, rest)" by fastforce
  obtain pre where pre: "cs = pre @ rest" "code2 = c + 1 + int (length pre)"
    "\<forall>c \<in> set pre. c < code2" "\<forall>c \<in> set rest. code2 < c"
    using extend_range_spec [OF e] "2.prems" by auto
  have "sorted rest" using "2.prems" pre(1) by (simp add: sorted_append)
  note IH = "2.IH" [OF e [symmetric] refl this]
  let ?C = "codes_cover (ranges_of_sorted rest)"
  have cover: "codes_cover (ranges_of_sorted (c # cs)) = {c..<code2} \<union> ?C"
    by (simp add: e)
  have above: "\<forall>x \<in> ?C. code2 < x" using IH pre(4) by blast
  then have "{c..<code2} \<inter> ?C = {}" by fastforce
  moreover have "finite ?C" using IH by blast
  ultimately have "card ({c..<code2} \<union> ?C) = card {c..<code2} + card ?C"
    by (intro card_Un_disjoint) simp_all
  then have "card ({c..<code2} \<union> ?C) = length (c # cs)" using IH pre(1,2) by simp
  moreover have "set (c # cs) \<subseteq> {c..<code2} \<union> ?C"
    using pre IH "2.prems" by auto
  moreover have "l < x" if "x \<in> {c..<code2} \<union> ?C" "l < c" for x l
    using that above pre(2) by fastforce
  ultimately show ?case unfolding cover using \<open>finite ?C\<close> by auto
qed simp

lemma chars_to_ranges_cover:
  "set s \<subseteq> codes_cover (chars_to_ranges s) \<and> finite (codes_cover (chars_to_ranges s))
   \<and> card (codes_cover (chars_to_ranges s)) = length s"
  using ranges_of_sorted_spec [of "sort s"] by (simp add: chars_to_ranges_def)

lemma chars_to_ranges_distinct:
  "codes_cover (chars_to_ranges s) = set s \<longleftrightarrow> distinct s"
  using chars_to_ranges_cover [of s] card_subset_eq [of "codes_cover (chars_to_ranges s)" "set s"]
  by (metis card_distinct distinct_card)

lemma code_range_text: "text_lang nc (CodeRange a b) = {[c] | c. in_range nc a b c}"
  by (auto simp: CodeRange_def in_range_def in_codes_def uppercase_range_def lowercase_range_def
      nl_code_def Let_def split: if_splits)

lemma code_ranges_text:
  "text_lang nc (CodeRanges codes) = {[c] | c. \<exists>(a, b) \<in> set (code_pairs codes). in_range nc a b c}"
  by (auto simp: CodeRanges_def code_range_text split_beta)

lemma code_ranges_cover: "text_lang False (CodeRanges codes) = {[c] | c. c \<in> codes_cover codes}"
  by (fastforce simp: code_ranges_text codes_cover_def in_range_def)

text \<open>The ranges between the ranges.\<close>

lemma ranges_complement:
  "sorted cs \<Longrightarrow> \<forall>c \<in> set cs. lo \<le> c \<Longrightarrow> lo \<le> hi \<Longrightarrow> codes_cover (ranges_of_sorted cs) \<subseteq> {..<hi}
   \<Longrightarrow> codes_cover (lo # ranges_of_sorted cs @ [hi]) = {lo..<hi} - codes_cover (ranges_of_sorted cs)"
proof (induction cs arbitrary: lo rule: ranges_of_sorted.induct)
  case (2 c cs)
  obtain code2 rest where e: "extend_range (c + 1) cs = (code2, rest)" by fastforce
  obtain pre where pre: "cs = pre @ rest" "code2 = c + 1 + int (length pre)"
    "\<forall>c \<in> set rest. code2 < c"
    using extend_range_spec [OF e] "2.prems" by auto
  have rest: "sorted rest" using "2.prems"(1) pre(1) by (simp add: sorted_append)
  let ?C = "codes_cover (ranges_of_sorted rest)"
  have sub: "{c..<code2} \<union> ?C \<subseteq> {..<hi}" using "2.prems"(4) by (simp add: e)
  have "code2 - 1 \<in> {c..<code2}" using pre(2) by simp
  then have "code2 - 1 \<in> {..<hi}" using sub by blast
  then have hi: "?C \<subseteq> {..<hi}" "code2 \<le> hi" using sub by simp_all
  have IH: "codes_cover (code2 # ranges_of_sorted rest @ [hi]) = {code2..<hi} - ?C"
    using "2.IH" [OF e [symmetric] refl rest _ hi(2,1)] pre(3) by force
  have above: "\<forall>x \<in> ?C. code2 < x" using ranges_of_sorted_spec [OF rest] pre(3) by blast
  have "lo \<le> c" using "2.prems"(2) by simp
  then show ?case using IH above hi(2) pre(2) by (auto simp: e)
qed simp

subsection \<open>Upper and lower case\<close>

definition same_letter :: "int \<Rightarrow> int \<Rightarrow> bool" where
  "same_letter c d \<longleftrightarrow>
     c = d \<or> 97 \<le> c \<and> c \<le> 122 \<and> d = c - 32 \<or> 65 \<le> c \<and> c \<le> 90 \<and> d = c + 32"

definition same_text :: "int list \<Rightarrow> int list \<Rightarrow> bool" where
  "same_text = list_all2 same_letter"

text \<open>No \<open>Case\<close> or \<open>NoCase\<close> inside.\<close>

fun plain_re :: "RE \<Rightarrow> bool" where
  "plain_re (Seq res) \<longleftrightarrow> list_all plain_re res"
| "plain_re (Alt res) \<longleftrightarrow> list_all plain_re res"
| "plain_re (Rep1 re) \<longleftrightarrow> plain_re re"
| "plain_re (SwitchCase re nocase) \<longleftrightarrow> False"
| "plain_re (RawCodeRange code1 code2) \<longleftrightarrow> True"
| "plain_re RawNewline \<longleftrightarrow> True"
| "plain_re (SpecialSymbol symb) \<longleftrightarrow> True"

definition same_closure :: "int list set \<Rightarrow> int list set" where
  "same_closure A = {t'. \<exists>t \<in> A. same_text t t'}"

lemma in_range_nocase: "in_range True a b d \<longleftrightarrow> (\<exists>c. in_range False a b c \<and> same_letter c d)"
proof
  assume "in_range True a b d"
  then consider "a \<le> d \<and> d < b" | "65 \<le> d" "d \<le> 90" "a \<le> d + 32" "d + 32 < b"
    | "97 \<le> d" "d \<le> 122" "a \<le> d - 32" "d - 32 < b"
    by (auto simp: in_range_def in_codes_def uppercase_range_def lowercase_range_def Let_def
        split: if_splits)
  then show "\<exists>c. in_range False a b c \<and> same_letter c d"
  proof cases
    case 1
    then show ?thesis by (auto simp: in_range_def same_letter_def)
  next
    case 2
    then show ?thesis by (intro exI [of _ "d + 32"]) (simp add: in_range_def same_letter_def)
  next
    case 3
    then show ?thesis by (intro exI [of _ "d - 32"]) (simp add: in_range_def same_letter_def)
  qed
next
  assume "\<exists>c. in_range False a b c \<and> same_letter c d"
  then show "in_range True a b d"
    by (auto simp: in_range_def in_codes_def uppercase_range_def lowercase_range_def Let_def
        same_letter_def)
qed

lemma same_closure_conc: "same_closure (conc A B) = conc (same_closure A) (same_closure B)"
proof (intro set_eqI iffI)
  fix t' assume "t' \<in> same_closure (conc A B)"
  then obtain u v where "u \<in> A" "v \<in> B" "same_text (u @ v) t'"
    by (auto simp: same_closure_def elim!: concE)
  then show "t' \<in> conc (same_closure A) (same_closure B)"
    by (auto simp: same_closure_def same_text_def list_all2_append1 intro!: concI)
next
  fix t' assume "t' \<in> conc (same_closure A) (same_closure B)"
  then obtain u v u' v' where "t' = u' @ v'" "u \<in> A" "v \<in> B" "same_text u u'" "same_text v v'"
    by (auto simp: same_closure_def elim!: concE)
  then show "t' \<in> same_closure (conc A B)"
    by (auto simp: same_closure_def same_text_def intro!: bexI [of _ "u @ v"] concI list_all2_appendI)
qed

lemma same_closure_plus: "same_closure (plus A) = plus (same_closure A)"
proof (intro set_eqI iffI)
  fix t' assume "t' \<in> same_closure (plus A)"
  then obtain t where "t \<in> plus A" "same_text t t'" by (auto simp: same_closure_def)
  then show "t' \<in> plus (same_closure A)"
  proof (induction arbitrary: t' rule: plus.induct)
    case (plus_one w)
    then show ?case by (auto simp: same_closure_def intro: plus.plus_one)
  next
    case (plus_more u v)
    then obtain u' v' where "t' = u' @ v'" "same_text u u'" "same_text v v'"
      by (auto simp: same_text_def list_all2_append1)
    with plus_more show ?case by (auto simp: same_closure_def intro!: plus.plus_more)
  qed
next
  fix t' assume "t' \<in> plus (same_closure A)"
  then show "t' \<in> same_closure (plus A)"
  proof (induction rule: plus.induct)
    case (plus_one w)
    then show ?case by (auto simp: same_closure_def intro: plus.plus_one)
  next
    case (plus_more u' v')
    then obtain u v where "u \<in> A" "same_text u u'" "v \<in> plus A" "same_text v v'"
      by (auto simp: same_closure_def)
    then have "u @ v \<in> plus A" "same_text (u @ v) (u' @ v')"
      by (auto simp: same_text_def intro: plus.plus_more list_all2_appendI)
    then show ?case by (auto simp: same_closure_def)
  qed
qed

lemma same_closure_UN: "same_closure (\<Union>i \<in> I. A i) = (\<Union>i \<in> I. same_closure (A i))"
  by (auto simp: same_closure_def)

lemma same_closure_single: "same_closure {[c] | c. P c} = {[d] | d. \<exists>c. P c \<and> same_letter c d}"
  by (auto simp: same_closure_def same_text_def list_all2_Cons1) (fastforce intro: exI)

lemma foldr_conc_closure:
  "(\<And>re. re \<in> set res \<Longrightarrow> f re = same_closure (g re)) \<Longrightarrow>
     foldr (\<lambda>re. conc (f re)) res {[]} = same_closure (foldr (\<lambda>re. conc (g re)) res {[]})"
  by (induction res) (simp_all add: same_closure_conc, simp add: same_closure_def same_text_def)

lemma text_lang_nocase: "plain_re re \<Longrightarrow> text_lang True re = same_closure (text_lang False re)"
proof (induction re rule: plain_re.induct)
  case (5 a b)
  then show ?case by (simp add: same_closure_single in_range_nocase)
next
  case 6
  then show ?case by (auto simp: same_closure_def same_text_def list_all2_Cons1 same_letter_def nl_code_def)
qed (auto simp: list_all_iff same_closure_plus same_closure_UN same_closure_def [of "{}"]
    intro!: foldr_conc_closure)


subsection \<open>Properties\<close>

text \<open>C35. Placing the line symbols: for an expression without special symbols, the symbols that the
  scanner makes of a text are in the language that \<open>build_machine\<close> implements exactly when the
  text is one the documentation of the expression promises, at the start of a line as well as
  inside it, as long as the expression was built to match at the start of a line.\<close>

theorem symbols_lang_iff:
  assumes "text_re re" and "at_bol \<longrightarrow> match_bol"
  shows "symbols at_bol t \<in> lang match_bol nocase re \<longleftrightarrow> t \<in> text_lang nocase re"
  using symbols_lang(1) [OF assms(1) _ assms(2)] lang_chars(1) [OF assms(1), of "symbols at_bol t"]
  by (auto simp: chars_of_symbols)

lemma symbols_lang_iff_witness:
  "symbols True [10, 97] \<in> lang True False (Seq [RawNewline, RawCodeRange 97 98])"
proof -
  have "[10, 97] \<in> text_lang False (Seq [RawNewline, RawCodeRange 97 98])"
    using concI [of "[10]" "{[10]}" "[97]" "{[c] | c. in_range False 97 98 c}"]
    by (simp add: nl_code_def in_range_def)
  then show ?thesis
    using symbols_lang_iff [of "Seq [RawNewline, RawCodeRange 97 98]" True True "[10, 97]" False]
    by (simp add: nl_code_def)
qed

text \<open>C36. \<open>NoCase\<close>: an expression with no case switch inside matches, when case is ignored, exactly
  the texts that differ from one it matches otherwise only in the case of ASCII letters.\<close>

theorem nocase_text:
  assumes "plain_re re"
  shows "text_lang nc (NoCase re) = {t'. \<exists>t \<in> text_lang nc (Case re). same_text t t'}"
  using text_lang_nocase [OF assms] by (simp add: NoCase_def Case_def same_closure_def)

lemma nocase_text_witness: "[65] \<in> text_lang False (NoCase (RawCodeRange 97 123))"
  using nocase_text [of "RawCodeRange 97 123" False]
  by (auto simp: Case_def in_range_def same_text_def list_all2_Cons2 same_letter_def intro!: exI [of _ 97])

text \<open>C37. \<open>Any(s)\<close> and \<open>AnyBut(s)\<close>: the ranges made of \<open>s\<close> cover its characters, and as many codes as
  \<open>s\<close> has characters, so exactly the characters of \<open>s\<close> only when none is repeated; a repeated
  character makes the range after it one longer. \<open>Any(s)\<close> matches the covered codes, \<open>AnyBut(s)\<close>
  all others.\<close>

theorem any_text:
  assumes "\<forall>c \<in> set s. chr_ok c" and "codes_cover (chars_to_ranges s) \<subseteq> {..<maxint}"
  shows "set s \<subseteq> codes_cover (chars_to_ranges s)
   \<and> card (codes_cover (chars_to_ranges s)) = length s
   \<and> (codes_cover (chars_to_ranges s) = set s \<longleftrightarrow> distinct s)
   \<and> text_lang False (AnyOf s) = {[c] | c. c \<in> codes_cover (chars_to_ranges s)}
   \<and> text_lang False (AnyBut s) =
       {[c] | c. - maxint \<le> c \<and> c < maxint \<and> c \<notin> codes_cover (chars_to_ranges s)}"
proof -
  have "\<forall>c \<in> set s. - maxint \<le> c" using assms(1) by (auto simp: chr_ok_def maxint_def)
  then have "codes_cover (- maxint # chars_to_ranges s @ [maxint])
      = {- maxint..<maxint} - codes_cover (chars_to_ranges s)"
    using ranges_complement [of "sort s" "- maxint" maxint] assms(2)
    by (simp add: chars_to_ranges_def maxint_def)
  then have "text_lang False (AnyBut s) =
      {[c] | c. - maxint \<le> c \<and> c < maxint \<and> c \<notin> codes_cover (chars_to_ranges s)}"
    by (auto simp: AnyBut_def code_ranges_cover)
  then show ?thesis
    using chars_to_ranges_cover [of s] chars_to_ranges_distinct [of s]
    by (simp add: AnyOf_def code_ranges_cover)
qed

lemma any_text_witness: "text_lang False (AnyOf [97, 97]) = {[97], [98]}"
proof -
  have "codes_cover (chars_to_ranges [97, 97]) = {97, 98}"
    by (auto simp: chars_to_ranges_def)
  then show ?thesis
    using any_text [of "[97, 97]"] by (auto simp: chr_ok_def maxint_def)
qed

end
