(* ===== verification/PlexThompson.thy ===== *)
theory PlexThompson
  imports PlexLanguage PlexSubset
begin

text \<open>
  The machine that \<open>build_machine\<close> adds to a machine implements the language of the expression.
  A machine is looked at as the set of its labelled edges. What one call adds is a component: edges
  from the initial state and fresh states to the final state and fresh states.
\<close>

subsection \<open>Paths\<close>

type_synonym edge = "nat \<times> dict_key \<times> nat"

abbreviation epsilon :: dict_key where "epsilon \<equiv> KSym []"

definition label_word :: "dict_key \<Rightarrow> dict_key list" where
  "label_word k = (if k = epsilon then [] else [k])"

inductive path :: "edge set \<Rightarrow> nat \<Rightarrow> dict_key list \<Rightarrow> nat \<Rightarrow> bool" for E where
  path_Nil: "path E s [] s"
| path_step: "(s, k, u) \<in> E \<Longrightarrow> path E u w t \<Longrightarrow> path E s (label_word k @ w) t"

lemma path_first:
  "path E s w t \<Longrightarrow> s = t \<and> w = [] \<or>
     (\<exists>k u v. (s, k, u) \<in> E \<and> w = label_word k @ v \<and> path E u v t)"
  by (erule path.cases) auto

definition edge_lang :: "edge set \<Rightarrow> nat \<Rightarrow> nat \<Rightarrow> dict_key list set" where
  "edge_lang E i f = {w. path E i w f}"

lemma path_mono: "path E s w t \<Longrightarrow> E \<subseteq> E' \<Longrightarrow> path E' s w t"
  by (induction rule: path.induct) (auto intro: path.intros)

lemma path_trans: "path E s u t \<Longrightarrow> path E t v x \<Longrightarrow> path E s (u @ v) x"
  by (induction rule: path.induct) (auto intro: path.intros)

lemma path_eps: "(s, epsilon, u) \<in> E \<Longrightarrow> path E u w t \<Longrightarrow> path E s w t"
  using path_step [of s epsilon u E w t] by (simp add: label_word_def)

text \<open>A path that cannot leave a set of states uses only the edges inside it.\<close>

lemma path_confine:
  assumes "path E s w t" and "s \<in> S"
    and "\<And>a k b. (a, k, b) \<in> E \<Longrightarrow> a \<in> S \<Longrightarrow> (a, k, b) \<in> E1 \<and> b \<in> S"
  shows "path E1 s w t \<and> t \<in> S"
  using assms(1,2)
proof (induction rule: path.induct)
  case (path_step s k u w t)
  with assms(3) [of s k u] show ?case by (auto intro: path.path_step)
qed (auto intro: path.path_Nil)

subsection \<open>Components\<close>

definition component :: "nat \<Rightarrow> nat \<Rightarrow> nat set \<Rightarrow> edge set \<Rightarrow> bool" where
  "component i f N E \<longleftrightarrow>
     i \<noteq> f \<and> i \<notin> N \<and> f \<notin> N \<and> (\<forall>(a, k, b) \<in> E. a \<in> insert i N \<and> b \<in> insert f N)"

lemma component_edge:
  "component i f N E \<Longrightarrow> (a, k, b) \<in> E \<Longrightarrow> a \<in> insert i N \<and> b \<in> insert f N"
  by (auto simp: component_def)

lemma component_ends: "component i f N E \<Longrightarrow> i \<noteq> f \<and> i \<notin> N \<and> f \<notin> N"
  by (simp add: component_def)

lemma component_Un:
  "component i f N1 E1 \<Longrightarrow> component i f N2 E2 \<Longrightarrow> component i f (N1 \<union> N2) (E1 \<union> E2)"
  by (auto simp: component_def)

lemma parallel_path:
  assumes c: "component i f N1 E1" "component i f N2 E2" and d: "N1 \<inter> N2 = {}"
    and p: "path (E1 \<union> E2) u w f" and u: "u \<in> insert f N1"
  shows "path E1 u w f"
proof -
  have "(a, k, b) \<in> E1 \<and> b \<in> insert f N1" if "(a, k, b) \<in> E1 \<union> E2" "a \<in> insert f N1" for a k b
    using that component_edge [OF c(1), of a k b] component_edge [OF c(2), of a k b]
      component_ends [OF c(1)] component_ends [OF c(2)] d by auto
  from path_confine [OF p u this] show ?thesis by blast
qed

lemma parallel_lang:
  assumes c: "component i f N1 E1" "component i f N2 E2" and d: "N1 \<inter> N2 = {}"
  shows "edge_lang (E1 \<union> E2) i f = edge_lang E1 i f \<union> edge_lang E2 i f"
proof (intro set_eqI iffI)
  fix w assume "w \<in> edge_lang (E1 \<union> E2) i f"
  then have p: "path (E1 \<union> E2) i w f" by (simp add: edge_lang_def)
  then obtain k u v where s: "(i, k, u) \<in> E1 \<union> E2" "w = label_word k @ v" "path (E1 \<union> E2) u v f"
    using path_first component_ends [OF c(1)] by blast
  from s(1) show "w \<in> edge_lang E1 i f \<union> edge_lang E2 i f"
  proof
    assume e: "(i, k, u) \<in> E1"
    then have "path E1 u v f"
      using parallel_path [OF c d s(3)] component_edge [OF c(1) e] by blast
    with e s(2) show ?thesis by (auto simp: edge_lang_def intro: path_step)
  next
    assume e: "(i, k, u) \<in> E2"
    have "path (E2 \<union> E1) u v f" using s(3) by (simp add: Un_commute)
    then have "path E2 u v f"
      using parallel_path [OF c(2,1)] d component_edge [OF c(2) e] by blast
    with e s(2) show ?thesis by (auto simp: edge_lang_def intro: path_step)
  qed
qed (auto simp: edge_lang_def intro: path_mono)

lemma sequence_split:
  assumes c: "component i s N1 E1" "component s f N2 E2" and d: "N1 \<inter> N2 = {}"
    and i: "i \<noteq> f" "i \<notin> N2" "f \<notin> N1"
  shows "path (E1 \<union> E2) x w t \<Longrightarrow> t = f \<Longrightarrow> x \<in> insert i N1
    \<Longrightarrow> \<exists>u v. w = u @ v \<and> path E1 x u s \<and> path E2 s v f"
proof (induction rule: path.induct)
  case (path_Nil x)
  with i show ?case by auto
next
  case (path_step x k y w t)
  note ends = component_ends [OF c(1)] component_ends [OF c(2)]
  have e: "(x, k, y) \<in> E1"
    using path_step component_edge [OF c(2), of x k y] ends d i by auto
  show ?case
  proof (cases "y = s")
    case True
    have "(a, k, b) \<in> E2 \<and> b \<in> insert s (insert f N2)"
      if "(a, k, b) \<in> E1 \<union> E2" "a \<in> insert s (insert f N2)" for a k b
      using that component_edge [OF c(1), of a k b] component_edge [OF c(2), of a k b] ends d i by auto
    from path_confine [where S = "insert s (insert f N2)", OF path_step.hyps(2) _ this]
    have "path E2 s w f" using True path_step.prems(1) by simp
    moreover have "path E1 x (label_word k) s"
      using path.path_step [OF e [unfolded True], of "[]" s] by (simp add: path.path_Nil)
    ultimately show ?thesis by blast
  next
    case False
    then have "y \<in> insert i N1" using component_edge [OF c(1) e] by simp
    then obtain u v where "w = u @ v" "path E1 y u s" "path E2 s v f"
      using path_step.IH path_step.prems(1) by blast
    then show ?thesis
      using path.path_step [OF e] by (intro exI [of _ "label_word k @ u"] exI [of _ v]) simp
  qed
qed

lemma sequence_lang:
  assumes c: "component i s N1 E1" "component s f N2 E2" and d: "N1 \<inter> N2 = {}"
    and i: "i \<noteq> f" "i \<notin> N2" "f \<notin> N1"
  shows "edge_lang (E1 \<union> E2) i f = conc (edge_lang E1 i s) (edge_lang E2 s f)"
proof (intro set_eqI iffI)
  fix w assume "w \<in> edge_lang (E1 \<union> E2) i f"
  then show "w \<in> conc (edge_lang E1 i s) (edge_lang E2 s f)"
    using sequence_split [OF c d i, of i w f] by (auto simp: edge_lang_def intro: concI)
next
  fix w assume "w \<in> conc (edge_lang E1 i s) (edge_lang E2 s f)"
  then obtain u v where "w = u @ v" "path E1 i u s" "path E2 s v f"
    by (auto simp: edge_lang_def elim!: concE)
  then show "w \<in> edge_lang (E1 \<union> E2) i f"
    by (auto simp: edge_lang_def intro: path_trans path_mono)
qed

lemma sequence_component:
  "component i s N1 E1 \<Longrightarrow> component s f N2 E2 \<Longrightarrow> i \<noteq> f \<Longrightarrow> i \<notin> N2 \<Longrightarrow> f \<notin> N1
   \<Longrightarrow> component i f (N1 \<union> N2 \<union> {s}) (E1 \<union> E2)"
  by (auto simp: component_def)

text \<open>The states \<open>s1\<close> and \<open>s2\<close> of \<open>Rep1\<close> around a component.\<close>

definition repeat_edges :: "nat \<Rightarrow> nat \<Rightarrow> nat \<Rightarrow> nat \<Rightarrow> edge set" where
  "repeat_edges i s1 s2 f = {(i, epsilon, s1), (s2, epsilon, s1), (s2, epsilon, f)}"

lemma repeat_split:
  assumes c: "component s1 s2 N E" and n: "f \<notin> insert s1 (insert s2 N)" "i \<notin> insert s1 (insert s2 N)" "i \<noteq> f"
  defines "E' \<equiv> E \<union> repeat_edges i s1 s2 f" and "L \<equiv> edge_lang E s1 s2"
  shows "path E' x w t \<Longrightarrow> t = f \<Longrightarrow>
      (x = s2 \<longrightarrow> w = [] \<or> w \<in> plus L)
      \<and> (x \<in> insert s1 N \<longrightarrow> (\<exists>u v. w = u @ v \<and> path E x u s2 \<and> (v = [] \<or> v \<in> plus L)))
      \<and> (x = f \<longrightarrow> w = [])"
proof (induction rule: path.induct)
  case (path_Nil x)
  with n show ?case by auto
next
  case (path_step x k y w t)
  note ends = component_ends [OF c]
  have s1: "w \<in> plus L" if y: "y = s1"
  proof -
    obtain u v where "w = u @ v" "path E s1 u s2" "v = [] \<or> v \<in> plus L"
      using path_step.IH path_step.prems y by auto
    then show ?thesis by (auto simp: L_def edge_lang_def intro: plus.intros)
  qed
  show ?case
  proof (intro conjI impI)
    assume x: "x = s2"
    then have "(x, k, y) \<in> repeat_edges i s1 s2 f"
      using path_step.hyps(1) component_edge [OF c, of x k y] ends by (auto simp: E'_def)
    with x n ends have "k = epsilon \<and> (y = s1 \<or> y = f)" by (auto simp: repeat_edges_def)
    with s1 path_step.IH path_step.prems show "label_word k @ w = [] \<or> label_word k @ w \<in> plus L"
      by (auto simp: label_word_def)
  next
    assume x: "x \<in> insert s1 N"
    then have e: "(x, k, y) \<in> E"
      using path_step.hyps(1) n ends by (auto simp: E'_def repeat_edges_def)
    then consider "y = s2" | "y \<in> insert s1 N" using component_edge [OF c e] by blast
    then show "\<exists>u v. label_word k @ w = u @ v \<and> path E x u s2 \<and> (v = [] \<or> v \<in> plus L)"
    proof cases
      case 1
      then have "path E x (label_word k) s2" using path.path_step [OF e, of "[]" s2] by (simp add: path.path_Nil)
      with 1 path_step.IH path_step.prems show ?thesis by blast
    next
      case 2
      then obtain u v where "w = u @ v" "path E y u s2" "v = [] \<or> v \<in> plus L"
        using path_step.IH path_step.prems by blast
      then show ?thesis
        using path.path_step [OF e] by (intro exI [of _ "label_word k @ u"] exI [of _ v]) simp
    qed
  next
    assume "x = f"
    then show "label_word k @ w = []"
      using path_step.hyps(1) component_edge [OF c, of x k y] n by (auto simp: E'_def repeat_edges_def)
  qed
qed

lemma repeat_lang:
  assumes c: "component s1 s2 N E" and n: "f \<notin> insert s1 (insert s2 N)" "i \<notin> insert s1 (insert s2 N)" "i \<noteq> f"
  shows "edge_lang (E \<union> repeat_edges i s1 s2 f) i f = plus (edge_lang E s1 s2)"
proof (intro set_eqI iffI)
  let ?E = "E \<union> repeat_edges i s1 s2 f"
  fix w assume "w \<in> edge_lang ?E i f"
  then have "path ?E i w f" by (simp add: edge_lang_def)
  then obtain k y v where s: "(i, k, y) \<in> ?E" "w = label_word k @ v" "path ?E y v f"
    using path_first n(3) by blast
  then have "k = epsilon" "y = s1"
    using component_edge [OF c, of i k y] n component_ends [OF c] by (auto simp: repeat_edges_def)
  then obtain u v' where "v = u @ v'" "path E s1 u s2" "v' = [] \<or> v' \<in> plus (edge_lang E s1 s2)"
    using repeat_split [OF c n s(3) refl] by auto
  with s(2) \<open>k = epsilon\<close> show "w \<in> plus (edge_lang E s1 s2)"
    by (auto simp: edge_lang_def label_word_def intro: plus.intros)
next
  let ?E = "E \<union> repeat_edges i s1 s2 f"
  fix w assume "w \<in> plus (edge_lang E s1 s2)"
  then have "path ?E s1 w f"
  proof (induction rule: plus.induct)
    case (plus_one w)
    then have "path ?E s1 w s2" by (auto simp: edge_lang_def intro: path_mono)
    moreover have "path ?E s2 [] f"
      by (rule path_eps [OF _ path.path_Nil]) (simp add: repeat_edges_def)
    ultimately show ?case using path_trans by fastforce
  next
    case (plus_more u v)
    then have "path ?E s1 u s2" by (auto simp: edge_lang_def intro: path_mono)
    moreover have "path ?E s2 v f"
      by (rule path_eps [OF _ plus_more.IH]) (simp add: repeat_edges_def)
    ultimately show ?case by (rule path_trans)
  qed
  then have "path ?E i w f" by (rule path_eps [rotated]) (simp add: repeat_edges_def)
  then show "w \<in> edge_lang ?E i f" by (simp add: edge_lang_def)
qed

lemma repeat_component:
  "component s1 s2 N E \<Longrightarrow> f \<notin> insert s1 (insert s2 N) \<Longrightarrow> i \<notin> insert s1 (insert s2 N) \<Longrightarrow> i \<noteq> f
   \<Longrightarrow> component i f (N \<union> {s1, s2}) (E \<union> repeat_edges i s1 s2 f)"
  by (auto simp: component_def repeat_edges_def)

text \<open>Edges from one state to another.\<close>

definition label_edges :: "nat \<Rightarrow> dict_key set \<Rightarrow> nat \<Rightarrow> edge set" where
  "label_edges i K f = {(i, k, f) | k. k \<in> K}"

lemma label_component: "i \<noteq> f \<Longrightarrow> component i f {} (label_edges i K f)"
  by (auto simp: component_def label_edges_def)

lemma label_lang: "i \<noteq> f \<Longrightarrow> edge_lang (label_edges i K f) i f = label_word ` K"
proof (intro set_eqI iffI)
  fix w assume i: "i \<noteq> f" and "w \<in> edge_lang (label_edges i K f) i f"
  then obtain k v where s: "k \<in> K" "w = label_word k @ v" "path (label_edges i K f) f v f"
    using path_first [of "label_edges i K f" i w f] by (auto simp: edge_lang_def label_edges_def)
  from path_first [OF s(3)] i have "v = []" by (auto simp: label_edges_def)
  with s show "w \<in> label_word ` K" by simp
next
  fix w assume "w \<in> label_word ` K"
  then obtain k where "k \<in> K" "w = label_word k" by auto
  then show "w \<in> edge_lang (label_edges i K f) i f"
    using path_step [of i k f "label_edges i K f" "[]" f] path_Nil
    by (simp add: edge_lang_def label_edges_def)
qed

end
