(* ===== verification/PlexBuild.thy ===== *)
theory PlexBuild
  imports PlexThompson
begin

text \<open>
  \<open>build_machine\<close> adds a component for the language of the expression to any machine, and what it
  leaves behind is a machine the conversion accepts: the map of every state is closed again, which
  fails in between while \<open>AnyBut\<close> adds its first range but not yet its last.
\<close>

subsection \<open>Machines as edges\<close>

definition label_ok :: "dict_key \<Rightarrow> bool" where
  "label_ok k \<longleftrightarrow> (case k of KChar c \<Rightarrow> - maxint \<le> c \<and> c < maxint | KSym _ \<Rightarrow> True)"

definition edges :: "'a Machine \<Rightarrow> edge set" where
  "edges m = {(s, k, t). s \<in> nodes m \<and> label_ok k \<and> t \<in> node_targets m s k}"

definition event_good :: "plex_event \<Rightarrow> bool" where
  "event_good event \<longleftrightarrow>
     (case event of
        Codes code0 code1 \<Rightarrow> code_ok code0 \<and> code_ok code1
      | Special e \<Rightarrow> e \<in> {[], ''bol'', ''eol'', ''eof''})"

definition event_keys :: "plex_event \<Rightarrow> dict_key set" where
  "event_keys event =
     (case event of Codes code0 code1 \<Rightarrow> {KChar c | c. code0 \<le> c \<and> c < code1} | Special e \<Rightarrow> {KSym e})"

definition part_ok :: "nat set \<Rightarrow> TransitionMap \<Rightarrow> bool" where
  "part_ok U tm \<longleftrightarrow>
     tm_ok tm \<and> events_ok tm \<and> (\<forall>s \<in> set (tm_sets tm). s \<subseteq> U)
     \<and> (\<forall>(e, s) \<in> set (tm_special tm). s \<subseteq> U)"

text \<open>\<open>machine_ok\<close> without the closedness of the maps.\<close>

definition machine_wf :: "'a Machine \<Rightarrow> bool" where
  "machine_wf m \<longleftrightarrow>
     next_state_number m = length (machine_states m) + 1
     \<and> (\<forall>n \<in> nodes m. part_ok (nodes m) (transitions (node_at m n)))
     \<and> (\<forall>(name, n) \<in> set (initial_states m). n \<in> nodes m) \<and> dict_wf (initial_states m)"

definition same_actions :: "'a Machine \<Rightarrow> 'a Machine \<Rightarrow> bool" where
  "same_actions m m' \<longleftrightarrow>
     (\<forall>n \<in> nodes m. node_action (node_at m' n) = node_action (node_at m n)
        \<and> action_priority (node_at m' n) = action_priority (node_at m n))
     \<and> (\<forall>n \<in> nodes m' - nodes m. node_action (node_at m' n) = None
        \<and> action_priority (node_at m' n) = LOWEST_PRIORITY)"

text \<open>Going from one machine to another adds the states \<open>N\<close> and the edges \<open>E\<close>.\<close>

definition extends :: "'a Machine \<Rightarrow> 'a Machine \<Rightarrow> nat set \<Rightarrow> edge set \<Rightarrow> bool" where
  "extends m m' N E \<longleftrightarrow>
     machine_wf m' \<and> N \<inter> nodes m = {} \<and> nodes m' = nodes m \<union> N \<and> edges m' = edges m \<union> E
     \<and> initial_states m' = initial_states m \<and> same_actions m m'"

lemma extendsD:
  assumes "extends m m' N E"
  shows "machine_wf m'" "N \<inter> nodes m = {}" "nodes m' = nodes m \<union> N" "edges m' = edges m \<union> E"
    "initial_states m' = initial_states m" "same_actions m m'"
  using assms by (simp_all add: extends_def)

lemma extends_refl: "machine_wf m \<Longrightarrow> extends m m {} {}"
  by (simp add: extends_def same_actions_def)

lemma same_actions_trans:
  "same_actions m m1 \<Longrightarrow> same_actions m1 m2 \<Longrightarrow> nodes m \<subseteq> nodes m1 \<Longrightarrow> nodes m1 \<subseteq> nodes m2
   \<Longrightarrow> same_actions m m2"
  by (auto simp: same_actions_def subset_eq)

lemma extends_trans:
  assumes "extends m m1 N1 E1" and "extends m1 m2 N2 E2"
  shows "extends m m2 (N1 \<union> N2) (E1 \<union> E2)"
  using extendsD [OF assms(1)] extendsD [OF assms(2)] same_actions_trans [of m m1 m2]
  by (auto simp: extends_def)

subsection \<open>One step\<close>

lemma nodes_update [simp]: "nodes (node_update s f m) = nodes m"
  by (simp add: nodes_def node_update_def)

lemma node_at_update:
  "s \<in> nodes m \<Longrightarrow> n \<in> nodes m \<Longrightarrow> node_at (node_update s f m) n = (if n = s then f (node_at m s) else node_at m n)"
  by (auto simp: nodes_def node_update_def node_at_def nth_list_update)

lemma sets_lookup:
  assumes "tm_ok tm"
  shows "(\<forall>s \<in> set (tm_sets tm). s \<subseteq> U) \<longleftrightarrow> (\<forall>c. - maxint \<le> c \<and> c < maxint \<longrightarrow> tm_lookup tm c \<subseteq> U)"
proof
  assume sets: "\<forall>s \<in> set (tm_sets tm). s \<subseteq> U"
  show "\<forall>c. - maxint \<le> c \<and> c < maxint \<longrightarrow> tm_lookup tm c \<subseteq> U"
  proof (intro allI impI)
    fix c assume "- maxint \<le> c \<and> c < maxint"
    then obtain k where k: "k < length (tm_sets tm)" "tm_codes tm ! k \<le> c" "c < tm_codes tm ! Suc k"
      using tm_range_exists [OF assms] by blast
    have "tm_sets tm ! k \<subseteq> U" using sets k(1) by simp
    then show "tm_lookup tm c \<subseteq> U" by (simp add: tm_lookup_nth [OF assms k])
  qed
next
  assume look: "\<forall>c. - maxint \<le> c \<and> c < maxint \<longrightarrow> tm_lookup tm c \<subseteq> U"
  have "tm_sets tm ! k \<subseteq> U" if k: "k < length (tm_sets tm)" for k
  proof -
    have less: "tm_codes tm ! k < tm_codes tm ! Suc k" using tm_ok_codes(3) [OF assms, of k "Suc k"] k by simp
    have "- maxint \<le> tm_codes tm ! k"
      using tm_ok_codes(1) [OF assms] tm_ok_codes(3) [OF assms, of 0 k] k by (cases "k = 0") auto
    moreover have "tm_codes tm ! Suc k \<le> maxint"
      using tm_ok_codes(2) [OF assms] tm_ok_codes(3) [OF assms, of "Suc k" "length (tm_sets tm)"] k
      by (cases "Suc k = length (tm_sets tm)") auto
    ultimately have "tm_lookup tm (tm_codes tm ! k) \<subseteq> U" using look less by simp
    then show ?thesis using tm_lookup_nth [OF assms k order.refl less] by simp
  qed
  then show "\<forall>s \<in> set (tm_sets tm). s \<subseteq> U" by (metis in_set_conv_nth)
qed

lemma special_sets:
  assumes "tm_ok tm"
  shows "(\<forall>(e, s) \<in> set (tm_special tm). s \<subseteq> U) \<longleftrightarrow> (\<forall>e. special_set tm e \<subseteq> U)"
proof -
  have "dict_wf (tm_special tm)" using assms by (simp add: tm_ok_def)
  then show ?thesis by (fastforce simp: dict_wf_mem special_set_def split: option.splits)
qed

lemma event_good_ok: "event_good event \<Longrightarrow> event_ok event"
  by (auto simp: event_good_def event_ok_def code_ok_def maxint_def split: plex_event.splits)

lemma part_ok_add:
  assumes "part_ok U tm" and "event_good event" and "new \<subseteq> U"
  shows "part_ok U (tm_add_set event new tm)"
proof -
  have tm: "tm_ok tm" "events_ok tm" using assms(1) by (simp_all add: part_ok_def)
  note props = tm_add_set_props [OF tm(1) event_good_ok [OF assms(2)]]
  have "events_ok (tm_add_set event new tm)"
    using events_ok_add [OF tm(2)] assms(2) by (simp add: event_good_def)
  moreover have "\<forall>s \<in> set (tm_sets tm). s \<subseteq> U" "\<forall>(e, s) \<in> set (tm_special tm). s \<subseteq> U"
    using assms(1) by (simp_all add: part_ok_def)
  ultimately show ?thesis
    using assms(3) props unfolding part_ok_def sets_lookup [OF props(1)] special_sets [OF props(1)]
      sets_lookup [OF tm(1)] special_sets [OF tm(1)]
    by auto
qed

lemma part_ok_new: "part_ok U tm_new"
  using tm_ok_new events_ok_new by (simp add: part_ok_def) (simp add: tm_new_def)

lemma part_ok_mono: "part_ok U tm \<Longrightarrow> U \<subseteq> V \<Longrightarrow> part_ok V tm"
  by (fastforce simp: part_ok_def)

lemma node_targets_add:
  assumes "part_ok U (transitions (node_at m s))" and "event_good event" and "label_ok k"
    and "s \<in> nodes m" "n \<in> nodes m"
  shows "node_targets (add_transition s event t m) n k =
    node_targets m n k \<union> (if n = s \<and> k \<in> event_keys event then {t} else {})"
proof -
  have tm: "tm_ok (transitions (node_at m s))" using assms(1) by (simp add: part_ok_def)
  note props = tm_add_set_props [OF tm event_good_ok [OF assms(2)], where new = "{t}"]
  show ?thesis
    using assms(3) props(2) props(3)
    by (cases k; cases event)
      (auto simp: node_targets_def add_transition_def node_at_update [OF assms(4,5)] tm_add_def
        label_ok_def event_keys_def event_code_def)
qed

lemma extends_add:
  assumes m: "machine_wf m" and s: "s \<in> nodes m" "t \<in> nodes m" and e: "event_good event"
    and K: "K = {k \<in> event_keys event. label_ok k}"
  shows "extends m (add_transition s event t m) {} (label_edges s K t)"
proof -
  let ?m = "add_transition s event t m"
  have nodes: "nodes ?m = nodes m" by (simp add: add_transition_def)
  have at: "node_at ?m n = (if n = s then (node_at m s)\<lparr>transitions := tm_add event t (transitions (node_at m s))\<rparr>
      else node_at m n)" if "n \<in> nodes m" for n
    using node_at_update [OF s(1) that] by (simp add: add_transition_def)
  have part: "part_ok (nodes m) (transitions (node_at m n))" if "n \<in> nodes m" for n
    using m that by (simp add: machine_wf_def)
  have "part_ok (nodes ?m) (transitions (node_at ?m n))" if "n \<in> nodes ?m" for n
    using that part part_ok_add [OF part [OF s(1)] e, of "{t}"] s
    by (simp add: nodes at tm_add_def)
  then have "machine_wf ?m"
    using m by (simp add: machine_wf_def nodes) (simp add: add_transition_def node_update_def)
  moreover have "edges ?m = edges m \<union> label_edges s K t"
    using node_targets_add [OF part [OF s(1)] e _ s(1)] s
    by (auto simp: edges_def nodes label_edges_def K split: if_splits)
  moreover have "same_actions m ?m" by (simp add: same_actions_def nodes at)
  moreover have "initial_states ?m = initial_states m"
    by (simp add: add_transition_def node_update_def)
  ultimately show ?thesis by (simp add: extends_def nodes)
qed

lemma extends_new:
  assumes m: "machine_wf m" and n: "new_state m = (n, m')"
  shows "extends m m' {n} {}"
proof -
  have m': "machine_states m' = machine_states m @ [node_init n]" "initial_states m' = initial_states m"
    "next_state_number m' = n + 1" "n = length (machine_states m) + 1"
    using m n by (auto simp: new_state_def Let_def machine_wf_def)
  have nodes: "nodes m' = nodes m \<union> {n}" using m' by (auto simp: nodes_def)
  have fresh: "n \<notin> nodes m" using m' by (simp add: nodes_def)
  have at: "node_at m' j = (if j = n then node_init n else node_at m j)" if "j \<in> nodes m'" for j
    using that m'(4) by (auto simp: node_at_def nodes_def m'(1) nth_append)
  have "part_ok (nodes m') (transitions (node_at m' j))" if "j \<in> nodes m'" for j
    using that m part_ok_new part_ok_mono [of "nodes m" _ "nodes m'"]
    by (auto simp: at nodes machine_wf_def node_init_def)
  then have "machine_wf m'"
    using m by (fastforce simp: machine_wf_def m' nodes)
  moreover have "node_targets m' j k = (if j = n then {} else node_targets m j k)"
    if "j \<in> nodes m'" for j k
    using that by (cases k)
      (simp_all add: at node_targets_def node_init_def tm_lookup_new, simp_all add: special_set_def tm_new_def)
  then have "edges m' = edges m"
    using fresh by (auto simp: edges_def nodes split: if_splits)
  moreover have "same_actions m m'"
    using fresh at by (auto simp: same_actions_def nodes node_init_def)
  ultimately show ?thesis using fresh by (simp add: extends_def nodes m'(2))
qed

subsection \<open>Closedness\<close>

text \<open>The transitions on the lowest and on the highest code are the same, but for those on one of
  them from \<open>j\<close> to \<open>f\<close>.\<close>

definition ends_at :: "edge set \<Rightarrow> int \<Rightarrow> (nat \<times> nat) set" where
  "ends_at E c = {(s, t). (s, KChar c, t) \<in> E}"

definition dangling :: "edge set \<Rightarrow> nat \<Rightarrow> nat \<Rightarrow> bool \<Rightarrow> bool \<Rightarrow> bool" where
  "dangling E j f lo hi \<longleftrightarrow>
     (\<exists>C. ends_at E (- maxint) = C \<union> (if lo then {(j, f)} else {})
        \<and> ends_at E (maxint - 1) = C \<union> (if hi then {(j, f)} else {}))"

lemma dangling_closed: "dangling E j f False False \<longleftrightarrow> ends_at E (- maxint) = ends_at E (maxint - 1)"
  by (auto simp: dangling_def)

lemma ends_at_Un [simp]: "ends_at (E1 \<union> E2) c = ends_at E1 c \<union> ends_at E2 c"
  by (auto simp: ends_at_def)

lemma dangling_Un:
  assumes "dangling E1 j f a b" and "dangling E2 j f a' b'"
  shows "dangling (E1 \<union> E2) j f (a \<or> a') (b \<or> b')"
proof -
  obtain C1 C2 where "ends_at E1 (- maxint) = C1 \<union> (if a then {(j, f)} else {})"
    "ends_at E1 (maxint - 1) = C1 \<union> (if b then {(j, f)} else {})"
    "ends_at E2 (- maxint) = C2 \<union> (if a' then {(j, f)} else {})"
    "ends_at E2 (maxint - 1) = C2 \<union> (if b' then {(j, f)} else {})"
    using assms unfolding dangling_def by blast
  then show ?thesis unfolding dangling_def by (intro exI [of _ "C1 \<union> C2"]) auto
qed

lemma dangling_balanced: "dangling E j f a a \<Longrightarrow> dangling E j' f' False False"
  by (auto simp: dangling_def)

text \<open>Whether the machine of an expression has a direct transition on the lowest or the highest
  code.\<close>

fun low :: "RE \<Rightarrow> bool" where
  "low (RawCodeRange a b) \<longleftrightarrow> a = - maxint \<and> a < b"
| "low (Alt res) \<longleftrightarrow> list_ex (\<lambda>re. \<not> nullable re \<and> low re) res"
| "low (SwitchCase re nocase) \<longleftrightarrow> low re"
| "low _ \<longleftrightarrow> False"

fun high :: "RE \<Rightarrow> bool" where
  "high (RawCodeRange a b) \<longleftrightarrow> b = maxint \<and> a < b"
| "high (Alt res) \<longleftrightarrow> list_ex (\<lambda>re. \<not> nullable re \<and> high re) res"
| "high (SwitchCase re nocase) \<longleftrightarrow> high re"
| "high _ \<longleftrightarrow> False"

definition balanced :: "RE \<Rightarrow> bool" where
  "balanced re \<longleftrightarrow> (low re \<longleftrightarrow> high re)"

text \<open>Codes are code points or the two ends, the special symbols are those of the scanner, and the
  two ends come together, as in \<open>AnyBut\<close>.\<close>

fun re_ok :: "RE \<Rightarrow> bool" where
  "re_ok (RawCodeRange a b) \<longleftrightarrow> code_ok a \<and> code_ok b"
| "re_ok RawNewline \<longleftrightarrow> True"
| "re_ok (SpecialSymbol symb) \<longleftrightarrow> symb \<in> {''bol'', ''eol'', ''eof''}"
| "re_ok (Seq res) \<longleftrightarrow> list_all (\<lambda>re. re_ok re \<and> balanced re) res"
| "re_ok (Alt res) \<longleftrightarrow> list_all (\<lambda>re. re_ok re \<and> (nullable re \<longrightarrow> balanced re)) res"
| "re_ok (Rep1 re) \<longleftrightarrow> re_ok re \<and> balanced re"
| "re_ok (SwitchCase re nocase) \<longleftrightarrow> re_ok re"

subsection \<open>Building\<close>

definition builds ::
  "nat \<Rightarrow> bool \<Rightarrow> bool \<Rightarrow> 'a Machine \<Rightarrow> 'a Machine \<Rightarrow> nat \<Rightarrow> nat \<Rightarrow> dict_key list set \<Rightarrow> bool" where
  "builds j lo hi m m' i f L \<longleftrightarrow>
     (\<exists>N E. extends m m' N E \<and> component i f N E \<and> edge_lang E i f = L \<and> dangling E j f lo hi)"

lemma builds_extends: "builds j lo hi m m' i f L \<Longrightarrow> machine_wf m' \<and> nodes m \<subseteq> nodes m'"
  unfolding builds_def by (auto simp: extends_def)

lemma builds_balanced: "builds j a a m m' i f L \<Longrightarrow> builds j' False False m m' i f L"
  unfolding builds_def using dangling_balanced by blast

lemma builds_none: "machine_wf m \<Longrightarrow> i \<noteq> f \<Longrightarrow> builds j False False m m i f {}"
  using extends_refl [of m] path_first [of "{}" i _ f]
  by (auto simp: builds_def component_def edge_lang_def dangling_def ends_at_def intro!: exI [of _ "{}"])

lemma builds_parallel:
  assumes "builds j a b m m1 i f L1" and "builds j a' b' m1 m2 i f L2"
  shows "builds j (a \<or> a') (b \<or> b') m m2 i f (L1 \<union> L2)"
proof -
  obtain N1 E1 where 1: "extends m m1 N1 E1" "component i f N1 E1" "edge_lang E1 i f = L1"
    "dangling E1 j f a b"
    using assms(1) unfolding builds_def by blast
  obtain N2 E2 where 2: "extends m1 m2 N2 E2" "component i f N2 E2" "edge_lang E2 i f = L2"
    "dangling E2 j f a' b'"
    using assms(2) unfolding builds_def by blast
  have "N1 \<inter> N2 = {}" using extendsD(3) [OF 1(1)] extendsD(2) [OF 2(1)] by auto
  then show ?thesis
    unfolding builds_def
    using extends_trans [OF 1(1) 2(1)] component_Un [OF 1(2) 2(2)] parallel_lang [OF 1(2) 2(2)]
      dangling_Un [OF 1(4) 2(4)] 1(3) 2(3) by blast
qed

lemma builds_sequence:
  assumes n: "extends m m0 {s} {}" and i: "i \<in> nodes m" "f \<in> nodes m" "i \<noteq> f"
    and "builds j' False False m0 m1 i s L1" and "builds j a b m1 m2 s f L2"
  shows "builds j a b m m2 i f (conc L1 L2)"
proof -
  obtain N1 E1 where 1: "extends m0 m1 N1 E1" "component i s N1 E1" "edge_lang E1 i s = L1"
    "dangling E1 j' s False False"
    using assms(5) unfolding builds_def by blast
  obtain N2 E2 where 2: "extends m1 m2 N2 E2" "component s f N2 E2" "edge_lang E2 s f = L2"
    "dangling E2 j f a b"
    using assms(6) unfolding builds_def by blast
  have "nodes m0 = insert s (nodes m)" using extendsD(3) [OF n] by simp
  then have d: "N1 \<inter> N2 = {}" "i \<notin> N2" "f \<notin> N1"
    using extendsD(2,3) [OF 1(1)] extendsD(2) [OF 2(1)] i by auto
  have "extends m m2 (N1 \<union> N2 \<union> {s}) (E1 \<union> E2)"
    using extends_trans [OF n extends_trans [OF 1(1) 2(1)]] by (simp add: Un_commute)
  moreover have "dangling (E1 \<union> E2) j f a b"
    using dangling_Un [OF dangling_balanced [OF 1(4), of j f] 2(4)] by simp
  ultimately show ?thesis
    unfolding builds_def
    using sequence_component [OF 1(2) 2(2) i(3) d(2,3)] sequence_lang [OF 1(2) 2(2) d(1) i(3) d(2,3)]
      1(3) 2(3) by blast
qed

lemma builds_add:
  assumes "machine_wf m" and i: "i \<in> nodes m" "f \<in> nodes m" "i \<noteq> f" and "event_good event"
    and K: "K = {k \<in> event_keys event. label_ok k}"
  shows "builds i (KChar (- maxint) \<in> K) (KChar (maxint - 1) \<in> K) m (add_transition i event f m)
      i f (label_word ` K)"
  unfolding builds_def
  using extends_add [OF assms(1) i(1,2) assms(5) K] label_component [OF i(3), of K] label_lang [OF i(3), of K]
  by (intro exI [of _ "{}"] exI [of _ "label_edges i K f"])
    (auto simp: dangling_def ends_at_def label_edges_def intro!: exI [of _ "{}"])

lemma builds_link:
  assumes "machine_wf m" and "i \<in> nodes m" "f \<in> nodes m" "i \<noteq> f"
  shows "builds j False False m (link_to i f m) i f {[]}"
proof -
  have "builds i (KChar (- maxint) \<in> {epsilon}) (KChar (maxint - 1) \<in> {epsilon}) m
      (add_transition i (Special []) f m) i f (label_word ` {epsilon})"
    by (rule builds_add [OF assms]) (auto simp: event_good_def event_keys_def label_ok_def)
  then show ?thesis
    by - (rule builds_balanced [of i False], simp add: link_to_def label_word_def)
qed

lemma builds_special:
  assumes "machine_wf m" and "i \<in> nodes m" "f \<in> nodes m" "i \<noteq> f" and "e \<in> {''bol'', ''eol'', ''eof''}"
  shows "builds j False False m (add_transition i (Special e) f m) i f {[KSym e]}"
proof -
  have good: "event_good (Special e)" using assms(5) by (simp add: event_good_def)
  have "{KSym e} = {k \<in> event_keys (Special e). label_ok k}"
    by (auto simp: event_keys_def label_ok_def)
  from builds_add [OF assms(1-4) good this]
  have "builds i False False m (add_transition i (Special e) f m) i f (label_word ` {KSym e})" by simp
  moreover have "label_word (KSym e) = [KSym e]" using assms(5) by (auto simp: label_word_def)
  ultimately show ?thesis by - (rule builds_balanced [of i False], simp)
qed

lemma builds_codes:
  assumes "machine_wf m" and "i \<in> nodes m" "f \<in> nodes m" "i \<noteq> f" and "code_ok a" "code_ok b"
  shows "builds i (a = - maxint \<and> a < b) (b = maxint \<and> a < b) m (add_transition i (Codes a b) f m) i f
      {[KChar c] | c. a \<le> c \<and> c < b}"
proof -
  let ?K = "{KChar c | c. a \<le> c \<and> c < b}"
  have range: "- maxint \<le> a" "b \<le> maxint" using assms(5,6) by (auto simp: code_ok_def maxint_def)
  have good: "event_good (Codes a b)" using assms(5,6) by (simp add: event_good_def)
  have "?K = {k \<in> event_keys (Codes a b). label_ok k}"
    using range by (auto simp: event_keys_def label_ok_def)
  note builds_add [OF assms(1-4) good this]
  moreover have "KChar (- maxint) \<in> ?K \<longleftrightarrow> a = - maxint \<and> a < b"
    "KChar (maxint - 1) \<in> ?K \<longleftrightarrow> b = maxint \<and> a < b"
    using range by (auto simp: maxint_def)
  moreover have "label_word ` ?K = {[KChar c] | c. a \<le> c \<and> c < b}"
    by (auto simp: label_word_def image_iff)
  ultimately show ?thesis by simp
qed

lemma builds_opt:
  assumes m: "machine_wf m" and i: "i \<in> nodes m" and c: "c \<in> {''bol'', ''eol''}"
  obtains s m0 m1 where "build_opt m i c = (s, m1)" "extends m m0 {s} {}"
    "builds i False False m0 m1 i s (opt_symbol True c)"
proof -
  obtain s m0 where new: "new_state m = (s, m0)" by fastforce
  note ext = extends_new [OF m new]
  have s: "i \<in> nodes m0" "s \<in> nodes m0" "i \<noteq> s"
    using extendsD(2,3) [OF ext] i by auto
  let ?m1 = "link_to i s m0" and ?m2 = "add_transition i (Special c) s (link_to i s m0)"
  have 1: "builds i False False m0 ?m1 i s {[]}" by (rule builds_link [OF extendsD(1) [OF ext] s])
  have 2: "builds i False False ?m1 ?m2 i s {[KSym c]}"
    using builds_extends [OF 1] s c by (intro builds_special) auto
  have "builds i False False m0 ?m2 i s (opt_symbol True c)"
    using builds_parallel [OF 1 2] by (simp add: opt_symbol_def insert_commute)
  moreover have "build_opt m i c = (s, ?m2)" by (simp add: build_opt_def new)
  ultimately show thesis using that ext by blast
qed

text \<open>A component behind the optional line start.\<close>

lemma builds_opt_bol:
  assumes m: "machine_wf m" and i: "i \<in> nodes m" "f \<in> nodes m" "i \<noteq> f"
  obtains s m1 where "opt_bol mb i m = (s, m1)" "machine_wf m1" "s \<in> nodes m1" "f \<in> nodes m1" "s \<noteq> f"
    "\<not> mb \<longrightarrow> s = i"
    "\<And>j a b m2 L. builds j a b m1 m2 s f L
       \<Longrightarrow> builds j a b m m2 i f (conc (opt_symbol mb ''bol'') L)"
proof (cases mb)
  case False
  then show thesis using that [of i m] m i by (simp add: opt_bol_def opt_symbol_def)
next
  case True
  obtain s m0 m1 where o: "build_opt m i ''bol'' = (s, m1)" "extends m m0 {s} {}"
    "builds i False False m0 m1 i s (opt_symbol True ''bol'')"
    using builds_opt [OF m i(1), of "''bol''"] by blast
  show thesis
  proof (rule that [of s m1])
    show "builds j a b m m2 i f (conc (opt_symbol mb ''bol'') L)" if "builds j a b m1 m2 s f L"
      for j a b m2 L
      using builds_sequence [OF o(2) i o(3) that] True by simp
  qed (use True o(1) extendsD(2,3) [OF o(2)] builds_extends [OF o(3)] i in
      \<open>auto simp: opt_bol_def\<close>)
qed

lemma builds_raw:
  assumes "machine_wf m" and "i \<in> nodes m" "f \<in> nodes m" "i \<noteq> f" and "code_ok a" "code_ok b"
  defines "m1 \<equiv> add_transition i (Codes a b) f m"
  shows "builds i (a = - maxint \<and> a < b) (b = maxint \<and> a < b) m
      (if nocase then add_range i (lowercase_range a b) f (add_range i (uppercase_range a b) f m1) else m1)
      i f {[KChar c] | c. in_range nocase a b c}"
proof -
  let ?lo = "a = - maxint \<and> a < b" and ?hi = "b = maxint \<and> a < b"
  have 1: "builds i ?lo ?hi m m1 i f {[KChar c] | c. a \<le> c \<and> c < b}"
    unfolding m1_def by (rule builds_codes [OF assms(1-6)])
  have range: "builds i False False m' (add_range i codes f m') i f {[KChar c] | c. in_codes codes c}"
    if m': "machine_wf m'" "nodes m \<subseteq> nodes m'"
      and codes: "codes \<in> {uppercase_range a b, lowercase_range a b}" for m' codes
  proof (cases codes)
    case None
    then show ?thesis
      using builds_none [OF m'(1) assms(4), of i] by (simp add: add_range_def in_codes_def)
  next
    case (Some p)
    then obtain x y where p: "codes = Some (x, y)" "0 \<le> x" "x < y" "y \<le> 123"
      using codes by (cases p) (auto simp: uppercase_range_def lowercase_range_def Let_def split: if_splits)
    then have "code_ok x" "code_ok y" "x \<noteq> - maxint" "y \<noteq> maxint"
      by (auto simp: code_ok_def maxint_def)
    then show ?thesis
      using builds_codes [of m' i f x y] m' assms(2-4) p(1)
      by (auto simp: add_range_def in_codes_def)
  qed
  show ?thesis
  proof (cases nocase)
    case False
    with 1 show ?thesis by (simp add: in_range_def)
  next
    case True
    let ?m2 = "add_range i (uppercase_range a b) f m1"
    have 2: "builds i False False m1 ?m2 i f {[KChar c] | c. in_codes (uppercase_range a b) c}"
      using builds_extends [OF 1] by (intro range) auto
    have 3: "builds i False False ?m2 (add_range i (lowercase_range a b) f ?m2) i f
        {[KChar c] | c. in_codes (lowercase_range a b) c}"
      using builds_extends [OF 1] builds_extends [OF 2] by (intro range) auto
    have "{[KChar c] | c. in_range True a b c} = {[KChar c] | c. a \<le> c \<and> c < b}
        \<union> {[KChar c] | c. in_codes (uppercase_range a b) c}
        \<union> {[KChar c] | c. in_codes (lowercase_range a b) c}"
      by (auto simp: in_range_def)
    then show ?thesis using builds_parallel [OF builds_parallel [OF 1 2] 3] True by simp
  qed
qed

subsection \<open>The construction\<close>

lemma builds_newline:
  assumes "machine_wf m" and i: "i \<in> nodes m" "f \<in> nodes m" "i \<noteq> f"
    and o: "build_opt m i ''eol'' = (s, m1)"
  shows "builds j False False m (add_transition s (Codes nl_code (nl_code + 1)) f m1) i f
      (conc (opt_symbol True ''eol'') {[KChar nl_code]})"
proof -
  obtain m0 where ext: "extends m m0 {s} {}" and b: "builds i False False m0 m1 i s (opt_symbol True ''eol'')"
    using builds_opt [OF assms(1) i(1), of "''eol''"] o by auto
  have "code_ok nl_code" "code_ok (nl_code + 1)" "nl_code \<noteq> - maxint" "nl_code + 1 \<noteq> maxint"
    by (simp_all add: code_ok_def nl_code_def maxint_def)
  moreover have "{[KChar c] | c. nl_code \<le> c \<and> c < nl_code + 1} = {[KChar nl_code]}" by auto
  ultimately have "builds s False False m1 (add_transition s (Codes nl_code (nl_code + 1)) f m1) s f
      {[KChar nl_code]}"
    using builds_codes [of m1 s f nl_code "nl_code + 1"] extendsD(2,3) [OF ext] builds_extends [OF b] i(2)
    by auto
  from builds_balanced [OF this] show ?thesis by (rule builds_sequence [OF ext i b])
qed

lemma list_ex_filter: "list_ex P xs \<longleftrightarrow> (\<exists>x \<in> set xs. P x)"
  by (simp add: list_ex_iff)

lemma build_machine_builds:
  fixes m :: "'a Machine"
  shows "re_ok re \<Longrightarrow> machine_wf m \<Longrightarrow> i \<in> nodes m \<Longrightarrow> f \<in> nodes m \<Longrightarrow> i \<noteq> f \<Longrightarrow>
      \<exists>j. (\<not> mb \<longrightarrow> j = i) \<and>
        builds j (low re) (high re) m (build_machine re i f mb nc m) i f (lang mb nc re)"
    and "list_all (\<lambda>re. re_ok re \<and> balanced re) res \<Longrightarrow> res \<noteq> [] \<Longrightarrow> machine_wf m \<Longrightarrow> i \<in> nodes m
      \<Longrightarrow> f \<in> nodes m \<Longrightarrow> i \<noteq> f \<Longrightarrow>
      builds i False False m (build_seq res i f mb nc m) i f (lang_seq mb nc res)"
    and "list_all (\<lambda>re. re_ok re \<and> (nullable re \<longrightarrow> balanced re)) res \<Longrightarrow> null \<or> \<not> mb
      \<Longrightarrow> machine_wf m \<Longrightarrow> i \<in> nodes m \<Longrightarrow> f \<in> nodes m \<Longrightarrow> i \<noteq> f \<Longrightarrow>
      builds i (\<not> null \<and> list_ex (\<lambda>re. \<not> nullable re \<and> low re) res)
        (\<not> null \<and> list_ex (\<lambda>re. \<not> nullable re \<and> high re) res) m (build_alt null res i f mb nc m) i f
        (\<Union>re \<in> set (filter (\<lambda>re. nullable re = null) res). lang mb nc re)"
proof (induction re i f mb nc m and res i f mb nc m and null res i f mb nc m
    rule: build_machine_build_seq_build_alt.induct)
  case (1 a b i f mb nc m)
  obtain s m1 where o: "opt_bol mb i m = (s, m1)" "machine_wf m1" "s \<in> nodes m1" "f \<in> nodes m1" "s \<noteq> f"
    "\<not> mb \<longrightarrow> s = i"
    "\<And>j a b m2 L. builds j a b m1 m2 s f L \<Longrightarrow> builds j a b m m2 i f (conc (opt_symbol mb ''bol'') L)"
    using builds_opt_bol [OF "1.prems"(2-5)] by metis
  have "code_ok a" "code_ok b" using "1.prems"(1) by simp_all
  from o(7) [OF builds_raw [OF o(2-5) this]] o(1,6) show ?case
    by (intro exI [of _ s]) (simp add: Let_def)
next
  case (2 i f mb nc m)
  obtain s m1 where o: "opt_bol mb i m = (s, m1)" "machine_wf m1" "s \<in> nodes m1" "f \<in> nodes m1" "s \<noteq> f"
    "\<not> mb \<longrightarrow> s = i"
    "\<And>j a b m2 L. builds j a b m1 m2 s f L \<Longrightarrow> builds j a b m m2 i f (conc (opt_symbol mb ''bol'') L)"
    using builds_opt_bol [OF "2.prems"(2-5)] by metis
  obtain s' m2 where o': "build_opt m1 s ''eol'' = (s', m2)" by fastforce
  from o(7) [OF builds_newline [OF o(2-5) o', of i]] o(1) o' show ?case
    by (intro exI [of _ i]) (simp add: Let_def)
next
  case (3 symb i f mb nc m)
  obtain s m1 where o: "opt_bol (mb \<and> symb = ''eol'') i m = (s, m1)" "machine_wf m1" "s \<in> nodes m1"
    "f \<in> nodes m1" "s \<noteq> f"
    "\<And>j a b m2 L. builds j a b m1 m2 s f L
       \<Longrightarrow> builds j a b m m2 i f (conc (opt_symbol (mb \<and> symb = ''eol'') ''bol'') L)"
    using builds_opt_bol [OF "3.prems"(2-5)] by metis
  have "symb \<in> {''bol'', ''eol'', ''eof''}" using "3.prems"(1) by simp
  from o(6) [OF builds_special [OF o(2-5) this, of i]] o(1) show ?case
    by (intro exI [of _ i]) (simp add: Let_def)
next
  case (4 res i f mb nc m)
  then show ?case
    using builds_link [OF "4.prems"(2-5), of i] by (intro exI [of _ i]) auto
next
  case (5 res i f mb nc m)
  have ok: "list_all (\<lambda>re. re_ok re \<and> (nullable re \<longrightarrow> balanced re)) res" using "5.prems"(1) by simp
  let ?m1 = "build_alt True res i f mb nc m"
  have 1: "builds i False False m ?m1 i f (\<Union>re \<in> set (filter nullable res). lang mb nc re)"
    using "5.IH"(1) [OF ok _ "5.prems"(2-5)] by simp
  have m1: "machine_wf ?m1" "i \<in> nodes ?m1" "f \<in> nodes ?m1"
    using builds_extends [OF 1] "5.prems"(3,4) by auto
  show ?case
  proof (cases "list_ex (\<lambda>re. \<not> nullable re) res")
    case False
    then have "filter (\<lambda>re. \<not> nullable re) res = []" "\<not> low (Alt res)" "\<not> high (Alt res)"
      by (auto simp: list_ex_iff filter_empty_conv)
    with 1 False show ?thesis by (intro exI [of _ i]) simp
  next
    case True
    obtain s m2 where o: "opt_bol mb i ?m1 = (s, m2)" "machine_wf m2" "s \<in> nodes m2" "f \<in> nodes m2"
      "s \<noteq> f" "\<not> mb \<longrightarrow> s = i"
      "\<And>j a b m3 L. builds j a b m2 m3 s f L \<Longrightarrow> builds j a b ?m1 m3 i f (conc (opt_symbol mb ''bol'') L)"
      using builds_opt_bol [OF m1 "5.prems"(5)] by metis
    have "builds s (low (Alt res)) (high (Alt res)) m2 (build_alt False res s f False nc m2) s f
        (\<Union>re \<in> set (filter (\<lambda>re. \<not> nullable re) res). lang False nc re)"
      using "5.IH"(2) [OF refl True o(1) [symmetric] refl ok _ o(2-5)] by simp
    from builds_parallel [OF builds_balanced [OF 1] o(7) [OF this]] o(1,6) True show ?thesis
      by (intro exI [of _ s]) (simp add: Let_def)
  qed
next
  case (6 re i f mb nc m)
  obtain s1 m1 where n1: "new_state m = (s1, m1)" by fastforce
  obtain s2 m2 where n2: "new_state m1 = (s2, m2)" by fastforce
  note e1 = extends_new [OF "6.prems"(2) n1]
  note e2 = extends_new [OF extendsD(1) [OF e1] n2]
  have s: "s1 \<in> nodes m2" "s2 \<in> nodes m2" "i \<in> nodes m2" "f \<in> nodes m2" "s1 \<noteq> s2" "i \<notin> {s1, s2}" "f \<notin> {s1, s2}"
    using extendsD(2,3) [OF e1] extendsD(2,3) [OF e2] "6.prems"(3,4) by auto
  let ?m3 = "link_to i s1 m2"
  have good: "event_good (Special [])" "{epsilon} = {k \<in> event_keys (Special []). label_ok k}"
    by (auto simp: event_good_def event_keys_def label_ok_def)
  have link: "extends m' (link_to a b m') {} {(a, epsilon, b)}" if "machine_wf m'" "a \<in> nodes m'" "b \<in> nodes m'"
    for m' :: "'a Machine" and a b
    using extends_add [OF that good] by (simp add: link_to_def label_edges_def)
  note e3 = link [OF extendsD(1) [OF e2] s(3,1)]
  have re: "re_ok re" "balanced re" using "6.prems"(1) by simp_all
  have "\<exists>j. builds j (low re) (high re) ?m3 (build_machine re s1 s2 (mb \<or> match_nl re) nc ?m3) s1 s2
      (lang (mb \<or> match_nl re) nc re)"
    using "6.IH" [OF n1 [symmetric] refl n2 [symmetric] refl refl re(1) extendsD(1) [OF e3]] s extendsD(3) [OF e3]
    by auto
  then obtain N E where b: "extends ?m3 (build_machine re s1 s2 (mb \<or> match_nl re) nc ?m3) N E"
    "component s1 s2 N E" "edge_lang E s1 s2 = lang (mb \<or> match_nl re) nc re" "dangling E i f False False"
    using re(2) dangling_balanced unfolding builds_def balanced_def by metis
  let ?m4 = "build_machine re s1 s2 (mb \<or> match_nl re) nc ?m3"
  have n4: "s1 \<in> nodes ?m4" "s2 \<in> nodes ?m4" "f \<in> nodes ?m4" "f \<notin> N" "i \<notin> N"
    using extendsD(2,3) [OF b(1)] extendsD(3) [OF e3] s by auto
  note e5 = link [OF extendsD(1) [OF b(1)] n4(2,1)]
  have "f \<in> nodes (link_to s2 s1 ?m4)" "s2 \<in> nodes (link_to s2 s1 ?m4)"
    using extendsD(3) [OF e5] n4 by auto
  note e6 = link [OF extendsD(1) [OF e5] this(2,1)]
  have "extends m (link_to s2 f (link_to s2 s1 ?m4)) (N \<union> {s1, s2}) (E \<union> repeat_edges i s1 s2 f)"
    using extends_trans [OF e1 extends_trans [OF e2 extends_trans [OF e3 extends_trans [OF b(1)
      extends_trans [OF e5 e6]]]]]
    by (simp add: repeat_edges_def insert_commute Un_commute)
  moreover have "dangling (E \<union> repeat_edges i s1 s2 f) i f False False"
    using dangling_Un [OF b(4), of "repeat_edges i s1 s2 f" False False]
    by (simp add: dangling_closed) (simp add: ends_at_def repeat_edges_def)
  moreover have fresh: "f \<notin> insert s1 (insert s2 N)" "i \<notin> insert s1 (insert s2 N)"
    using n4(4,5) s(6,7) by auto
  have "edge_lang (E \<union> repeat_edges i s1 s2 f) i f = lang mb nc (Rep1 re)"
    using repeat_lang [OF b(2) fresh "6.prems"(5)] b(3) by simp
  moreover note repeat_component [OF b(2) fresh "6.prems"(5)]
  ultimately have "builds i False False m (link_to s2 f (link_to s2 s1 ?m4)) i f (lang mb nc (Rep1 re))"
    unfolding builds_def by blast
  then show ?case by (intro exI [of _ i]) (simp add: Let_def n1 n2)
next
  case (7 re nc' i f mb nc m)
  then show ?case by simp
next
  case (8 i f mb nc m)
  then show ?case by simp
next
  case (9 re i f mb nc m)
  then have re: "re_ok re" "low re = high re" by (simp_all add: balanced_def)
  then obtain j where "builds j (low re) (low re) m (build_machine re i f mb nc m) i f (lang mb nc re)"
    using "9.IH" [OF re(1) "9.prems"(3-6)] by auto
  from builds_balanced [OF this, of i] show ?case by simp
next
  case (10 re re' res i f mb nc m)
  obtain s m0 where n: "new_state m = (s, m0)" by fastforce
  note ext = extends_new [OF "10.prems"(3) n]
  have s: "s \<in> nodes m0" "i \<in> nodes m0" "f \<in> nodes m0" "i \<noteq> s" "s \<noteq> f"
    using extendsD(2,3) [OF ext] "10.prems"(4,5) by auto
  have re: "re_ok re" "low re = high re" "list_all (\<lambda>re. re_ok re \<and> balanced re) (re' # res)"
    using "10.prems"(1) by (simp_all add: balanced_def)
  let ?m1 = "build_machine re i s mb nc m0"
  obtain j where "builds j (low re) (low re) m0 ?m1 i s (lang mb nc re)"
    using "10.IH"(1) [OF n [symmetric] refl re(1) extendsD(1) [OF ext] s(2,1,4)] re(2) by auto
  note 1 = builds_balanced [OF this, of i]
  have m1: "machine_wf ?m1" "s \<in> nodes ?m1" "f \<in> nodes ?m1"
    using builds_extends [OF 1] s by auto
  have "builds s False False ?m1 (build_seq (re' # res) s f (match_nl re \<or> (mb \<and> nullable re)) nc ?m1) s f
      (lang_seq (match_nl re \<or> (mb \<and> nullable re)) nc (re' # res))"
    using "10.IH"(2) [OF n [symmetric] refl refl re(3) _ m1 s(5)] by simp
  from builds_sequence [OF ext "10.prems"(4-6) 1 builds_balanced [OF this, of i]]
  show ?case by (simp add: n Let_def)
next
  case (11 null i f mb nc m)
  then show ?case using builds_none [of m i f i] by simp
next
  case (12 null re res i f mb nc m)
  have ok: "re_ok re" "nullable re \<longrightarrow> balanced re"
    "list_all (\<lambda>re. re_ok re \<and> (nullable re \<longrightarrow> balanced re)) res"
    using "12.prems"(1) by simp_all
  show ?case
  proof (cases "nullable re = null")
    case False
    then show ?thesis using "12.IH"(2) [OF ok(3) "12.prems"(2)] "12.prems"(3-6) by auto
  next
    case True
    let ?m1 = "build_machine re i f mb nc m"
    obtain j where j: "\<not> mb \<longrightarrow> j = i" "builds j (low re) (high re) m ?m1 i f (lang mb nc re)"
      using "12.IH"(1) [OF True ok(1) "12.prems"(3-6)] by blast
    have 1: "builds i (\<not> null \<and> low re) (\<not> null \<and> high re) m ?m1 i f (lang mb nc re)"
    proof (cases null)
      case True
      with \<open>nullable re = null\<close> ok(2) j(2) have "builds j (low re) (low re) m ?m1 i f (lang mb nc re)"
        by (simp add: balanced_def)
      from builds_balanced [OF this, of i] True show ?thesis by simp
    next
      case False
      with j "12.prems"(2) show ?thesis by simp
    qed
    have 2: "builds i (\<not> null \<and> list_ex (\<lambda>re. \<not> nullable re \<and> low re) res)
        (\<not> null \<and> list_ex (\<lambda>re. \<not> nullable re \<and> high re) res) ?m1 (build_alt null res i f mb nc ?m1) i f
        (\<Union>re \<in> set (filter (\<lambda>re. nullable re = null) res). lang mb nc re)"
      using "12.IH"(2) [OF ok(3) "12.prems"(2)] builds_extends [OF 1] "12.prems"(4-6) True by auto
    from builds_parallel [OF 1 2] True show ?thesis by (auto simp: conj_disj_distribL)
  qed
qed

end
