(* ===== verification/PlexLexicon.thy ===== *)
theory PlexLexicon
  imports PlexBuild PlexEquivalence
begin

text \<open>
  \<open>Cython/Plex/Lexicons.py\<close> and the actions of \<open>Actions.py\<close>: a lexicon is turned into one machine
  with an initial state for each scanner state, and the machine gives the action of the first
  token of the state whose pattern matches.
\<close>

subsection \<open>Actions\<close>

text \<open>The subclasses of \<open>Action\<close>. Values and the functions of \<open>Call\<close> are type parameters.\<close>

datatype ('v, 'f) Action =
    ReturnAction 'v
  | CallAction 'f
  | MethodAction string "(string, 'v) pydict"
  | Begin string
  | IGNORE
  | TEXT

text \<open>The second item of a token definition: an \<open>Action\<close>, an object with \<open>__call__\<close>, or any other
  value.\<close>

datatype ('v, 'f) action_spec = IsAction "('v, 'f) Action" | IsCallable 'f | IsValue 'v

definition token_action :: "('v, 'f) action_spec \<Rightarrow> ('v, 'f) Action" where
  "token_action action_spec =
     (case action_spec of
        IsAction action \<Rightarrow> action | IsCallable f \<Rightarrow> CallAction f | IsValue v \<Rightarrow> ReturnAction v)"

subsection \<open>Specifications\<close>

text \<open>A token definition as the code inspects it: a pair with an expression, or one of the malformed
  objects \<open>parse_token_definition\<close> rejects.\<close>

datatype ('v, 'f) token_spec =
    TokenSpec RE "('v, 'f) action_spec"
  | NotATuple
  | WrongLength
  | NotAnRE

datatype ('v, 'f) spec_item =
    StateItem string "('v, 'f) token_spec list"
  | TokenItem "('v, 'f) token_spec"
  | OtherItem

text \<open>\<open>InvalidToken\<close> takes the number of the token and a message; the calls in
  \<open>parse_token_definition\<close> pass one argument, which is a \<open>TypeError\<close>. The errors of the conversion
  pass through.\<close>

datatype lexicon_error =
    InvalidScanner
  | InvalidToken nat
  | MissingArgument
  | ConversionError plex_error

definition parse_token_definition ::
  "('v, 'f) token_spec \<Rightarrow> lexicon_error + RE \<times> ('v, 'f) action_spec" where
  "parse_token_definition token_spec =
     (case token_spec of
        NotATuple \<Rightarrow> Inl MissingArgument
      | WrongLength \<Rightarrow> Inl MissingArgument
      | NotAnRE \<Rightarrow> Inl MissingArgument
      | TokenSpec pattern action \<Rightarrow> Inr (pattern, action))"

definition add_token_to_machine ::
  "('v, 'f) Action Machine \<Rightarrow> nat \<Rightarrow> ('v, 'f) token_spec \<Rightarrow> nat
   \<Rightarrow> lexicon_error + ('v, 'f) Action Machine" where
  "add_token_to_machine machine initial_state token_spec token_number =
     (case parse_token_definition token_spec of
        Inl e \<Rightarrow> Inl e
      | Inr (re, action_spec) \<Rightarrow>
          let action = token_action action_spec;
              (final_state, machine) = new_state machine;
              machine = build_machine re initial_state final_state True False machine
          in Inr (set_action final_state action (- int token_number) machine))"

text \<open>The loop over the tokens of a state, and the one over the specification; both carry
  \<open>token_number\<close>.\<close>

fun add_tokens ::
  "nat \<Rightarrow> ('v, 'f) token_spec list \<Rightarrow> nat \<Rightarrow> ('v, 'f) Action Machine
   \<Rightarrow> lexicon_error + nat \<times> ('v, 'f) Action Machine" where
  "add_tokens initial_state [] token_number nfa = Inr (token_number, nfa)"
| "add_tokens initial_state (token # tokens) token_number nfa =
     (case add_token_to_machine nfa initial_state token token_number of
        Inl e \<Rightarrow> Inl e
      | Inr nfa \<Rightarrow> add_tokens initial_state tokens (token_number + 1) nfa)"

fun add_specifications ::
  "nat \<Rightarrow> ('v, 'f) spec_item list \<Rightarrow> nat \<Rightarrow> ('v, 'f) Action Machine
   \<Rightarrow> lexicon_error + ('v, 'f) Action Machine" where
  "add_specifications default_initial_state [] token_number nfa = Inr nfa"
| "add_specifications default_initial_state (StateItem name tokens # specs) token_number nfa =
     (let (user_initial_state, nfa) = new_initial_state name nfa
      in case add_tokens user_initial_state tokens token_number nfa of
           Inl e \<Rightarrow> Inl e
         | Inr (token_number, nfa) \<Rightarrow>
             add_specifications default_initial_state specs token_number nfa)"
| "add_specifications default_initial_state (TokenItem token # specs) token_number nfa =
     (if token = NotATuple then Inl (InvalidToken token_number)
      else case add_token_to_machine nfa default_initial_state token token_number of
             Inl e \<Rightarrow> Inl e
           | Inr nfa \<Rightarrow> add_specifications default_initial_state specs (token_number + 1) nfa)"
| "add_specifications default_initial_state (OtherItem # specs) token_number nfa =
     Inl (InvalidToken token_number)"

text \<open>\<open>Lexicon.__init__\<close>; a specification that is no list is \<open>None\<close>.\<close>

definition lexicon_init ::
  "('v, 'f) spec_item list option \<Rightarrow> (lexicon_error + ('v, 'f) Action FastMachine) option" where
  "lexicon_init specifications =
     (case specifications of
        None \<Rightarrow> Some (Inl InvalidScanner)
      | Some specs \<Rightarrow>
          let (default_initial_state, nfa) = new_initial_state [] machine_init
          in case add_specifications default_initial_state specs 1 nfa of
               Inl e \<Rightarrow> Some (Inl e)
             | Inr nfa \<Rightarrow>
                 (case nfa_to_dfa nfa of
                    None \<Rightarrow> None
                  | Some (Inl e) \<Rightarrow> Some (Inl (ConversionError e))
                  | Some (Inr dfa) \<Rightarrow> Some (Inr dfa)))"

subsection \<open>The states a machine can be in\<close>

lemma path_snoc:
  assumes "k \<noteq> epsilon"
  shows "path E s x t \<Longrightarrow> x = w @ [k] \<Longrightarrow> \<exists>u v. path E s w u \<and> (u, k, v) \<in> E \<and> path E v [] t"
proof (induction arbitrary: w rule: path.induct)
  case (path_step s k' u w' t)
  show ?case
  proof (cases "k' = epsilon")
    case True
    then have "w' = w @ [k]" using path_step.prems by (simp add: label_word_def)
    then obtain y v where "path E u w y" "(y, k, v) \<in> E" "path E v [] t"
      using path_step.IH by blast
    with True path_step.hyps(1) show ?thesis by (blast intro: path_eps)
  next
    case False
    then have x: "k' # w' = w @ [k]" using path_step.prems by (simp add: label_word_def)
    show ?thesis
    proof (cases w)
      case Nil
      with x path_step.hyps show ?thesis by (auto intro: path_Nil)
    next
      case (Cons a w1)
      with x have "k' = a" "w' = w1 @ [k]" by simp_all
      then obtain y v where "path E u w1 y" "(y, k, v) \<in> E" "path E v [] t"
        using path_step.IH by blast
      moreover have "path E s (label_word k' @ w1) y"
        using path.path_step [OF path_step.hyps(1)] calculation(1) .
      ultimately show ?thesis using False Cons \<open>k' = a\<close> by (auto simp: label_word_def)
    qed
  qed
qed simp

lemma path_Nil_iff: "path E s [] t \<longleftrightarrow> (s, t) \<in> {(a, b). (a, epsilon, b) \<in> E}\<^sup>*"
proof
  have "path E s w t \<Longrightarrow> w = [] \<Longrightarrow> (s, t) \<in> {(a, b). (a, epsilon, b) \<in> E}\<^sup>*" for s w t
    by (induction rule: path.induct)
      (auto simp: label_word_def split: if_splits intro: converse_rtrancl_into_rtrancl)
  then show "path E s [] t \<Longrightarrow> (s, t) \<in> {(a, b). (a, epsilon, b) \<in> E}\<^sup>*" by blast
  show "(s, t) \<in> {(a, b). (a, epsilon, b) \<in> E}\<^sup>* \<Longrightarrow> path E s [] t"
    by (induction rule: converse_rtrancl_induct) (auto intro: path_Nil path_eps)
qed

lemma epsilon_closure_path:
  assumes "machine_ok m" and "s \<in> nodes m"
  shows "epsilon_closure m s = {t. path (edges m) s [] t}"
proof -
  have "(s, t) \<in> (epsilon_rel m)\<^sup>* \<longleftrightarrow> (s, t) \<in> {(a, b). (a, epsilon, b) \<in> edges m}\<^sup>*" for t
  proof
    assume "(s, t) \<in> (epsilon_rel m)\<^sup>*"
    then show "(s, t) \<in> {(a, b). (a, epsilon, b) \<in> edges m}\<^sup>*"
    proof (induction rule: rtrancl_induct)
      case (step y z)
      then have "y \<in> nodes m" using epsilon_rtrancl_nodes [OF assms] by blast
      with step show ?case
        by (auto simp: epsilon_rel_def edges_def label_ok_def node_targets_def intro: rtrancl_into_rtrancl)
    qed simp
  next
    assume "(s, t) \<in> {(a, b). (a, epsilon, b) \<in> edges m}\<^sup>*"
    moreover have "{(a, b). (a, epsilon, b) \<in> edges m} \<subseteq> epsilon_rel m"
      by (auto simp: epsilon_rel_def edges_def node_targets_def)
    ultimately show "(s, t) \<in> (epsilon_rel m)\<^sup>*" using rtrancl_mono by blast
  qed
  then show ?thesis by (simp add: epsilon_closure_rtrancl [OF assms] path_Nil_iff)
qed

lemma input_ok_label: "input_ok k \<Longrightarrow> label_ok k \<and> k \<noteq> epsilon"
  using chr_ok_maxint by (auto simp: input_ok_def label_ok_def split: dict_key.splits)

lemma nfa_states_path:
  assumes m: "machine_ok m" and s: "s \<in> nodes m"
  shows "list_all input_ok w \<Longrightarrow>
    foldl (nfa_move m) (epsilon_closure m s) w = {t. path (edges m) s w t}
    \<and> foldl (nfa_move m) (epsilon_closure m s) w \<subseteq> nodes m"
proof (induction w rule: rev_induct)
  case Nil
  then show ?case using epsilon_closure_path [OF m s] epsilon_closure_nodes [OF m s] by simp
next
  case (snoc k w)
  let ?X = "foldl (nfa_move m) (epsilon_closure m s) w"
  have IH: "?X = {t. path (edges m) s w t}" "?X \<subseteq> nodes m" and k: "label_ok k" "k \<noteq> epsilon"
    using snoc input_ok_label by auto
  have key: "input_ok k" using snoc.prems by simp
  have "t \<in> nfa_move m ?X k \<longleftrightarrow> path (edges m) s (w @ [k]) t" for t
  proof
    assume "t \<in> nfa_move m ?X k"
    then obtain u v where uv: "u \<in> ?X" "v \<in> node_targets m u k" "t \<in> epsilon_closure m v"
      by (auto simp: nfa_move_def set_epsilon_closure_def)
    then have v: "v \<in> nodes m" "(u, k, v) \<in> edges m"
      using IH(2) node_targets_nodes [OF m _ key] k by (auto simp: edges_def)
    have "path (edges m) v [] t" using uv(3) epsilon_closure_path [OF m v(1)] by simp
    then have "path (edges m) u (label_word k @ []) t" by (rule path_step [OF v(2)])
    then show "path (edges m) s (w @ [k]) t"
      using uv(1) IH(1) k(2) path_trans by (fastforce simp: label_word_def)
  next
    assume "path (edges m) s (w @ [k]) t"
    then obtain u v where uv: "path (edges m) s w u" "(u, k, v) \<in> edges m" "path (edges m) v [] t"
      using path_snoc [OF k(2)] by blast
    then have "u \<in> ?X" "v \<in> node_targets m u k" using IH(1) by (auto simp: edges_def)
    moreover have "v \<in> nodes m" using calculation IH(2) node_targets_nodes [OF m _ key] by blast
    then have "t \<in> epsilon_closure m v" using uv(3) epsilon_closure_path [OF m] by simp
    ultimately show "t \<in> nfa_move m ?X k"
      by (auto simp: nfa_move_def set_epsilon_closure_def)
  qed
  then show ?case using nfa_move_nodes [OF m IH(2) key] by auto
qed

subsection \<open>The machine of a lexicon\<close>

text \<open>What one token adds.\<close>

record 'a token_part =
  tp_init :: nat
  tp_final :: nat
  tp_re :: RE
  tp_action :: 'a
  tp_number :: nat
  tp_nodes :: "nat set"
  tp_edges :: "edge set"

abbreviation tp_inner :: "'a token_part \<Rightarrow> nat set" where
  "tp_inner e \<equiv> insert (tp_final e) (tp_nodes e)"

definition part_built :: "'a Machine \<Rightarrow> 'a token_part \<Rightarrow> bool" where
  "part_built m e \<longleftrightarrow>
     component (tp_init e) (tp_final e) (tp_nodes e) (tp_edges e)
     \<and> edge_lang (tp_edges e) (tp_init e) (tp_final e) = lang True False (tp_re e)
     \<and> tp_inner e \<subseteq> nodes m \<and> tp_init e \<in> nodes m
     \<and> node_action (node_at m (tp_final e)) = Some (tp_action e)
     \<and> action_priority (node_at m (tp_final e)) = - int (tp_number e)"

definition lexicon_machine :: "'a Machine \<Rightarrow> 'a token_part list \<Rightarrow> bool" where
  "lexicon_machine m es \<longleftrightarrow>
     machine_wf m \<and> ends_at (edges m) (- maxint) = ends_at (edges m) (maxint - 1)
     \<and> edges m = (\<Union>e \<in> set es. tp_edges e)
     \<and> (\<forall>e \<in> set es. part_built m e)
     \<and> (\<forall>e \<in> set es. \<forall>e' \<in> set es. e \<noteq> e' \<longrightarrow> tp_inner e \<inter> tp_inner e' = {})
     \<and> (\<forall>e \<in> set es. \<forall>e' \<in> set es. tp_init e \<notin> tp_inner e')
     \<and> (\<forall>(name, i) \<in> set (initial_states m). \<forall>e \<in> set es. i \<notin> tp_inner e)
     \<and> (\<forall>n \<in> nodes m - tp_final ` set es. node_action (node_at m n) = None
          \<and> action_priority (node_at m n) = LOWEST_PRIORITY)"

lemma lexicon_machineD:
  assumes "lexicon_machine m es"
  shows "machine_wf m" and "ends_at (edges m) (- maxint) = ends_at (edges m) (maxint - 1)"
    and "edges m = (\<Union>e \<in> set es. tp_edges e)"
    and "e \<in> set es \<Longrightarrow> part_built m e"
    and "e \<in> set es \<Longrightarrow> e' \<in> set es \<Longrightarrow> e \<noteq> e' \<Longrightarrow> tp_inner e \<inter> tp_inner e' = {}"
    and "e \<in> set es \<Longrightarrow> e' \<in> set es \<Longrightarrow> tp_init e \<notin> tp_inner e'"
    and "(name, i) \<in> set (initial_states m) \<Longrightarrow> e \<in> set es \<Longrightarrow> i \<notin> tp_inner e"
    and "n \<in> nodes m \<Longrightarrow> n \<notin> tp_final ` set es \<Longrightarrow> node_action (node_at m n) = None
      \<and> action_priority (node_at m n) = LOWEST_PRIORITY"
proof -
  note L = assms [unfolded lexicon_machine_def]
  show "machine_wf m" using L by (elim conjE)
  show "ends_at (edges m) (- maxint) = ends_at (edges m) (maxint - 1)" using L by (elim conjE)
  show "edges m = (\<Union>e \<in> set es. tp_edges e)" using L by (elim conjE)
  have "\<forall>e \<in> set es. part_built m e" using L by (elim conjE)
  then show "e \<in> set es \<Longrightarrow> part_built m e" by (rule bspec)
  have "\<forall>e \<in> set es. \<forall>e' \<in> set es. e \<noteq> e' \<longrightarrow> tp_inner e \<inter> tp_inner e' = {}" using L by (elim conjE)
  then show "e \<in> set es \<Longrightarrow> e' \<in> set es \<Longrightarrow> e \<noteq> e' \<Longrightarrow> tp_inner e \<inter> tp_inner e' = {}"
    by - (drule (1) bspec, drule (1) bspec, drule (1) mp)
  have "\<forall>e \<in> set es. \<forall>e' \<in> set es. tp_init e \<notin> tp_inner e'" using L by (elim conjE)
  then show "e \<in> set es \<Longrightarrow> e' \<in> set es \<Longrightarrow> tp_init e \<notin> tp_inner e'"
    by - (drule (1) bspec, drule (1) bspec)
  have "\<forall>(name, i) \<in> set (initial_states m). \<forall>e \<in> set es. i \<notin> tp_inner e" using L by (elim conjE)
  then show "(name, i) \<in> set (initial_states m) \<Longrightarrow> e \<in> set es \<Longrightarrow> i \<notin> tp_inner e" by fast
  have "\<forall>n \<in> nodes m - tp_final ` set es. node_action (node_at m n) = None
      \<and> action_priority (node_at m n) = LOWEST_PRIORITY" using L by (elim conjE)
  then show "n \<in> nodes m \<Longrightarrow> n \<notin> tp_final ` set es \<Longrightarrow> node_action (node_at m n) = None
      \<and> action_priority (node_at m n) = LOWEST_PRIORITY" by (meson DiffI)
qed

text \<open>A path from an initial state to a final one stays inside one token.\<close>

lemma lexicon_path:
  assumes L: "lexicon_machine m es" and e: "e \<in> set es" and i: "\<forall>e' \<in> set es. i \<notin> tp_inner e'"
  shows "path (edges m) i w (tp_final e) \<longleftrightarrow> i = tp_init e \<and> w \<in> lang True False (tp_re e)"
proof
  assume p: "path (edges m) i w (tp_final e)"
  have comp: "component (tp_init e') (tp_final e') (tp_nodes e') (tp_edges e')" if "e' \<in> set es" for e'
    using L that by (simp add: lexicon_machine_def part_built_def)
  have edges: "edges m = (\<Union>e \<in> set es. tp_edges e)" using L by (simp add: lexicon_machine_def)
  have "i \<noteq> tp_final e" using i e by auto
  then obtain k u v where s: "(i, k, u) \<in> edges m" "w = label_word k @ v" "path (edges m) u v (tp_final e)"
    using path_first [OF p] by blast
  then obtain e' where e': "e' \<in> set es" "(i, k, u) \<in> tp_edges e'" by (auto simp: edges)
  have u: "i = tp_init e'" "u \<in> tp_inner e'"
    using component_edge [OF comp [OF e'(1)] e'(2)] i e'(1) by auto
  have step: "(a, k, b) \<in> tp_edges e' \<and> b \<in> tp_inner e'" if ab: "(a, k, b) \<in> edges m" "a \<in> tp_inner e'" for a k b
  proof -
    obtain e2 where e2: "e2 \<in> set es" "(a, k, b) \<in> tp_edges e2" using ab(1) by (auto simp: edges)
    have "a \<in> insert (tp_init e2) (tp_nodes e2)" using component_edge [OF comp [OF e2(1)] e2(2)] by blast
    moreover have "tp_init e2 \<notin> tp_inner e'" using L e2(1) e'(1) by (auto simp: lexicon_machine_def)
    ultimately have "a \<in> tp_inner e2 \<inter> tp_inner e'" using ab(2) by auto
    then have "e2 = e'" using L e2(1) e'(1) unfolding lexicon_machine_def by blast
    then show ?thesis using e2(2) component_edge [OF comp [OF e'(1)] e2(2) [unfolded \<open>e2 = e'\<close>]] by blast
  qed
  from path_confine [OF s(3) u(2) step]
  have v: "path (tp_edges e') u v (tp_final e)" "tp_final e \<in> tp_inner e'" by blast+
  then have "tp_inner e \<inter> tp_inner e' \<noteq> {}" by auto
  then have "e = e'" using L e e'(1) unfolding lexicon_machine_def by blast
  have "path (tp_edges e) (tp_init e) w (tp_final e)"
    using path_step [OF e'(2) v(1)] s(2) u(1) \<open>e = e'\<close> by simp
  then show "i = tp_init e \<and> w \<in> lang True False (tp_re e)"
    using L e u(1) \<open>e = e'\<close> by (auto simp: lexicon_machine_def part_built_def edge_lang_def)
next
  assume "i = tp_init e \<and> w \<in> lang True False (tp_re e)"
  then have "path (tp_edges e) i w (tp_final e)"
    using L e by (auto simp: lexicon_machine_def part_built_def edge_lang_def)
  then show "path (edges m) i w (tp_final e)"
    using L e by (auto simp: lexicon_machine_def intro: path_mono)
qed

lemma machine_ok_closed:
  assumes "machine_wf m" and "ends_at (edges m) (- maxint) = ends_at (edges m) (maxint - 1)"
  shows "machine_ok m"
proof -
  have "node_ok (nodes m) (transitions (node_at m n))" if n: "n \<in> nodes m" for n
  proof -
    have part: "part_ok (nodes m) (transitions (node_at m n))" using assms(1) n by (simp add: machine_wf_def)
    then have tm: "tm_ok (transitions (node_at m n))" by (simp add: part_ok_def)
    have "(n, t) \<in> ends_at (edges m) c \<longleftrightarrow> t \<in> tm_lookup (transitions (node_at m n)) c"
      if "- maxint \<le> c" "c < maxint" for t c
      using that n by (simp add: ends_at_def edges_def label_ok_def node_targets_def)
    from this [of "- maxint"] this [of "maxint - 1"] assms(2)
    have "tm_lookup (transitions (node_at m n)) (- maxint) = tm_lookup (transitions (node_at m n)) (maxint - 1)"
      by (auto simp: maxint_def)
    then have "tm_closed (transitions (node_at m n))" by (simp add: tm_closed_def tm_ends [OF tm])
    then show ?thesis using part by (fastforce simp: node_ok_def part_ok_def events_ok_def)
  qed
  moreover have "\<exists>n \<in> nodes m. node = node_at m n" if "node \<in> set (machine_states m)" for node
    using that by (force simp: in_set_conv_nth nodes_def node_at_def)
  ultimately have "\<forall>node \<in> set (machine_states m). node_ok (nodes m) (transitions node)" by blast
  then show ?thesis using assms(1) by (simp add: machine_ok_def machine_wf_def)
qed

text \<open>The first token of a list whose pattern matches.\<close>

definition first_match :: "(RE \<times> 'a) list \<Rightarrow> dict_key list \<Rightarrow> 'a option" where
  "first_match tokens w =
     (case find (\<lambda>(re, action). w \<in> lang True False re) tokens of None \<Rightarrow> None | Some (re, action) \<Rightarrow> Some action)"

definition part_tokens :: "nat \<Rightarrow> 'a token_part list \<Rightarrow> (RE \<times> 'a) list" where
  "part_tokens i es = [(tp_re e, tp_action e). e \<leftarrow> es, tp_init e = i]"

lemma first_match_parts:
  assumes "sorted_wrt (\<lambda>e e'. tp_number e < tp_number e') es"
    and e: "e \<in> set es" "tp_init e = i" "w \<in> lang True False (tp_re e)"
    and least: "\<forall>e' \<in> set es. tp_init e' = i \<and> w \<in> lang True False (tp_re e') \<longrightarrow> tp_number e \<le> tp_number e'"
  shows "first_match (part_tokens i es) w = Some (tp_action e)"
  using assms
proof (induction es)
  case (Cons x es)
  show ?case
  proof (cases "tp_init x = i \<and> w \<in> lang True False (tp_re x)")
    case True
    then have "tp_number e \<le> tp_number x" using Cons.prems(5) by simp
    then have "x = e" using Cons.prems(1,2) by auto
    with True show ?thesis by (simp add: first_match_def part_tokens_def)
  next
    case False
    with Cons have "e \<in> set es" by auto
    with Cons have "first_match (part_tokens i es) w = Some (tp_action e)" by simp
    with False show ?thesis by (auto simp: first_match_def part_tokens_def)
  qed
qed simp

lemma first_match_none:
  "first_match (part_tokens i es) w = None \<longleftrightarrow>
     \<not> (\<exists>e \<in> set es. tp_init e = i \<and> w \<in> lang True False (tp_re e))"
  by (induction es) (auto simp: first_match_def part_tokens_def split: option.splits)

lemma lexicon_action:
  assumes L: "lexicon_machine m es" and i: "i \<in> nodes m" "\<forall>e \<in> set es. i \<notin> tp_inner e"
    and num: "sorted_wrt (\<lambda>e e'. tp_number e < tp_number e') es" "\<forall>e \<in> set es. int (tp_number e) < maxint"
    and w: "list_all input_ok w"
  shows "nfa_action m i w = first_match (part_tokens i es) w"
proof -
  have m: "machine_ok m" using L machine_ok_closed by (auto simp: lexicon_machine_def)
  let ?X = "{t. path (edges m) i w t}"
  have X: "nfa_action m i w = highest_priority_action m ?X" "?X \<subseteq> nodes m"
    using nfa_states_path [OF m i(1) w] unfolding nfa_action_def by (metis, metis)
  then have fin: "finite ?X" using finite_subset finite_nodes by blast
  have final: "tp_final e \<in> ?X \<longleftrightarrow> tp_init e = i \<and> w \<in> lang True False (tp_re e)" if "e \<in> set es" for e
    using lexicon_path [OF L that i(2)] by auto
  have at: "node_action (node_at m (tp_final e)) = Some (tp_action e)"
    "action_priority (node_at m (tp_final e)) = - int (tp_number e)" if "e \<in> set es" for e
    using L that by (simp_all add: lexicon_machine_def part_built_def)
  have prio: "LOWEST_PRIORITY < action_priority (node_at m n) \<longleftrightarrow> n \<in> tp_final ` set es" if "n \<in> nodes m" for n
    using L that at num(2) by (force simp: lexicon_machine_def LOWEST_PRIORITY_def)
  show ?thesis
  proof (cases "\<exists>e \<in> set es. tp_init e = i \<and> w \<in> lang True False (tp_re e)")
    case False
    then have "\<not> (\<exists>n \<in> ?X. LOWEST_PRIORITY < action_priority (node_at m n))"
      using prio X(2) final by blast
    then have "highest_priority_action m ?X = None" using highest_priority_action_cases [OF fin] by meson
    moreover have "first_match (part_tokens i es) w = None" using False first_match_none by blast
    ultimately show ?thesis by (simp add: X(1))
  next
    case True
    then have ex: "\<exists>n \<in> ?X. LOWEST_PRIORITY < action_priority (node_at m n)"
      using prio X(2) final by blast
    then obtain n where n: "n \<in> ?X" "highest_priority_action m ?X = node_action (node_at m n)"
      "\<forall>k \<in> ?X. action_priority (node_at m k) \<le> action_priority (node_at m n)"
      using highest_priority_action_cases [OF fin, of m] by (simp only: if_True simp_thms) blast
    have "LOWEST_PRIORITY < action_priority (node_at m n)"
      using ex n(3) by (meson order_less_le_trans)
    then obtain e where e: "e \<in> set es" "n = tp_final e" using prio X(2) n(1) by blast
    have "tp_number e \<le> tp_number e'" if "e' \<in> set es" "tp_init e' = i" "w \<in> lang True False (tp_re e')" for e'
      using n(3) final [OF that(1)] that at [OF that(1)] at [OF e(1)] e(2) by fastforce
    then have "first_match (part_tokens i es) w = Some (tp_action e)"
      using final [OF e(1)] n(1) e by (intro first_match_parts [OF num(1) e(1)]) auto
    then show ?thesis using n(2) at [OF e(1)] e(2) by (simp add: X(1))
  qed
qed

subsection \<open>Adding tokens\<close>

lemma set_action_facts:
  fixes m :: "'a Machine" and a :: 'a
  assumes m: "machine_wf m" and f: "f \<in> nodes m"
    and prio: "action_priority (node_at m f) = LOWEST_PRIORITY" "LOWEST_PRIORITY < p"
  defines "m' \<equiv> set_action f a p m"
  shows "machine_wf m'" and "nodes m' = nodes m" and "edges m' = edges m"
    and "initial_states m' = initial_states m"
    and "n \<in> nodes m \<Longrightarrow> node_action (node_at m' n) = (if n = f then Some a else node_action (node_at m n))
      \<and> action_priority (node_at m' n) = (if n = f then p else action_priority (node_at m n))"
proof -
  show nodes: "nodes m' = nodes m" by (simp add: m'_def set_action_def)
  have at: "node_at m' n = (if n = f then (node_at m f)\<lparr>node_action := Some a, action_priority := p\<rparr>
      else node_at m n)" if "n \<in> nodes m" for n
    using node_at_update [OF f that] prio by (simp add: m'_def set_action_def)
  then have trans: "transitions (node_at m' n) = transitions (node_at m n)" if "n \<in> nodes m" for n
    using that by simp
  show init: "initial_states m' = initial_states m"
    by (simp add: m'_def set_action_def node_update_def)
  have "next_state_number m' = length (machine_states m') + 1"
    using m by (simp add: m'_def set_action_def node_update_def machine_wf_def)
  then show "machine_wf m'" using m by (simp add: machine_wf_def nodes trans init)
  have "node_targets m' n k = node_targets m n k" if "n \<in> nodes m" for n k
    unfolding node_targets_def trans [OF that] ..
  then show "edges m' = edges m" unfolding edges_def nodes by blast
  show "n \<in> nodes m \<Longrightarrow> node_action (node_at m' n) = (if n = f then Some a else node_action (node_at m n))
      \<and> action_priority (node_at m' n) = (if n = f then p else action_priority (node_at m n))"
    by (simp add: at)
qed

lemma part_built_mono:
  assumes "part_built m e" and "nodes m \<subseteq> nodes m'"
    and "node_action (node_at m' (tp_final e)) = node_action (node_at m (tp_final e))"
    and "action_priority (node_at m' (tp_final e)) = action_priority (node_at m (tp_final e))"
  shows "part_built m' e"
  using assms unfolding part_built_def by auto

lemma lexicon_add_token:
  fixes m :: "('v, 'f) Action Machine"
  assumes L: "lexicon_machine m es" and i: "i \<in> nodes m" "\<forall>e \<in> set es. i \<notin> tp_inner e"
    and re: "re_ok re" "balanced re" and n: "int n < maxint"
  obtains m' e where "add_token_to_machine m i (TokenSpec re action_spec) n = Inr m'"
    "lexicon_machine m' (es @ [e])" "tp_init e = i" "tp_re e = re"
    "tp_action e = token_action action_spec" "tp_number e = n"
    "nodes m \<subseteq> nodes m'" "initial_states m' = initial_states m" "tp_inner e \<inter> nodes m = {}"
proof -
  have wf: "machine_wf m" using L by (simp add: lexicon_machine_def)
  obtain f m1 where new: "new_state m = (f, m1)" by fastforce
  note e1 = extends_new [OF wf new]
  have if1: "i \<in> nodes m1" "f \<in> nodes m1" "i \<noteq> f" using extendsD(2,3) [OF e1] i(1) by auto
  let ?m2 = "build_machine re i f True False m1"
  obtain j where "builds j (low re) (low re) m1 ?m2 i f (lang True False re)"
    using build_machine_builds(1) [OF re(1) extendsD(1) [OF e1] if1, of True False] re(2)
    by (auto simp: balanced_def)
  from builds_balanced [OF this, of i] obtain N E where b: "extends m1 ?m2 N E" "component i f N E"
    "edge_lang E i f = lang True False re" "dangling E i f False False"
    unfolding builds_def by blast
  have ext: "extends m ?m2 (insert f N) E" using extends_trans [OF e1 b(1)] by simp
  note x = extendsD [OF ext]
  have f2: "f \<in> nodes ?m2" using x(3) by auto
  have "f \<in> nodes ?m2 - nodes m" using x(2,3) by auto
  then have prio: "action_priority (node_at ?m2 f) = LOWEST_PRIORITY"
    using x(6) by (simp add: same_actions_def)
  let ?a = "token_action action_spec" and ?p = "- int n"
  let ?m3 = "set_action f ?a ?p ?m2"
  have "LOWEST_PRIORITY < ?p" using n by (simp add: LOWEST_PRIORITY_def)
  note a = set_action_facts [where a = ?a, OF x(1) f2 prio this]
  define e where "e = \<lparr>tp_init = i, tp_final = f, tp_re = re, tp_action = ?a, tp_number = n,
    tp_nodes = N, tp_edges = E\<rparr>"
  have inner: "tp_inner e \<inter> nodes m = {}" using x(2) by (simp add: e_def)
  have sub: "tp_inner e' \<subseteq> nodes m" "tp_init e' \<in> nodes m" if "e' \<in> set es" for e'
    using L that by (simp_all add: lexicon_machine_def part_built_def)
  have act: "node_action (node_at ?m3 k) = node_action (node_at m k)
      \<and> action_priority (node_at ?m3 k) = action_priority (node_at m k)" if "k \<in> nodes m" for k
  proof -
    have "k \<noteq> f" "k \<in> nodes ?m2" using that inner x(3) by (auto simp: e_def)
    then show ?thesis using a(5) [of k] x(6) that by (simp add: same_actions_def)
  qed
  have built: "part_built ?m3 e"
    using b(2,3) x(3) i(1) a(2) a(5) [OF f2] by (auto simp: part_built_def e_def)
  have old: "part_built ?m3 e'" if e': "e' \<in> set es" for e'
  proof (rule part_built_mono [of m])
    show "part_built m e'" using L e' by (simp add: lexicon_machine_def)
    show "nodes m \<subseteq> nodes ?m3" by (auto simp: a(2) x(3))
    have "tp_final e' \<in> nodes m" using sub(1) [OF e'] by simp
    from act [OF this]
    show "node_action (node_at ?m3 (tp_final e')) = node_action (node_at m (tp_final e'))"
      "action_priority (node_at ?m3 (tp_final e')) = action_priority (node_at m (tp_final e'))" by simp_all
  qed
  have none: "node_action (node_at ?m3 k) = None \<and> action_priority (node_at ?m3 k) = LOWEST_PRIORITY"
    if "k \<in> nodes ?m3 - tp_final ` set (es @ [e])" for k
  proof (cases "k \<in> nodes m")
    case True
    then show ?thesis using act [OF True] that L by (auto simp: lexicon_machine_def)
  next
    case False
    then have "k \<in> nodes ?m2 - nodes m" "k \<noteq> f" using that by (auto simp: a(2) e_def)
    then show ?thesis using a(5) [of k] x(6) by (simp add: same_actions_def)
  qed
  have "lexicon_machine ?m3 (es @ [e])"
    unfolding lexicon_machine_def
  proof (intro conjI)
    show "machine_wf ?m3" by (rule a(1))
    show "ends_at (edges ?m3) (- maxint) = ends_at (edges ?m3) (maxint - 1)"
      using lexicon_machineD(2) [OF L] b(4) by (simp add: a(3) x(4) dangling_closed)
    show "edges ?m3 = (\<Union>e \<in> set (es @ [e]). tp_edges e)"
      using lexicon_machineD(3) [OF L] by (simp add: a(3) x(4) e_def Un_commute)
    show "\<forall>e \<in> set (es @ [e]). part_built ?m3 e" using built old by simp
    have new: "tp_inner e \<inter> tp_inner e' = {}" "tp_init e' \<notin> tp_inner e" if "e' \<in> set es" for e'
      using sub [OF that] inner by blast+
    show "\<forall>e1 \<in> set (es @ [e]). \<forall>e2 \<in> set (es @ [e]). e1 \<noteq> e2 \<longrightarrow> tp_inner e1 \<inter> tp_inner e2 = {}"
    proof (intro ballI impI)
      fix e1 e2 assume "e1 \<in> set (es @ [e])" "e2 \<in> set (es @ [e])" "e1 \<noteq> e2"
      then consider "e1 \<in> set es" "e2 \<in> set es" | "e1 \<in> set es" "e2 = e" | "e1 = e" "e2 \<in> set es" by auto
      then show "tp_inner e1 \<inter> tp_inner e2 = {}"
      proof cases
        case 1
        then show ?thesis by (rule lexicon_machineD(5) [OF L]) fact
      next
        case 2
        then show ?thesis using new(1) [of e1] by (simp only: Int_commute)
      next
        case 3
        then show ?thesis using new(1) [of e2] by (simp only:)
      qed
    qed
    have "i \<notin> tp_inner e" "tp_init e = i" using i(1) inner by (auto simp: e_def)
    then show "\<forall>e1 \<in> set (es @ [e]). \<forall>e2 \<in> set (es @ [e]). tp_init e1 \<notin> tp_inner e2"
      using lexicon_machineD(6) [OF L] i(2) new(2) by (metis Un_iff set_ConsD set_append set_empty2 empty_iff)
    show "\<forall>(name, k) \<in> set (initial_states ?m3). \<forall>e \<in> set (es @ [e]). k \<notin> tp_inner e"
    proof (intro ballI, clarify)
      fix name k e' assume k: "(name, k) \<in> set (initial_states ?m3)" and e': "e' \<in> set (es @ [e])"
        and mem: "k \<in> tp_inner e'"
      have k': "(name, k) \<in> set (initial_states m)" using k by (simp only: a(4) x(5))
      then have "k \<in> nodes m" using wf by (auto simp: machine_wf_def)
      then have "e' \<noteq> e" using mem inner by blast
      then have "e' \<in> set es" using e' by simp
      from lexicon_machineD(7) [OF L k' this] mem show False by blast
    qed
    show "\<forall>n \<in> nodes ?m3 - tp_final ` set (es @ [e]). node_action (node_at ?m3 n) = None
        \<and> action_priority (node_at ?m3 n) = LOWEST_PRIORITY" using none by blast
  qed
  moreover have "add_token_to_machine m i (TokenSpec re action_spec) n = Inr ?m3"
    by (simp add: add_token_to_machine_def parse_token_definition_def new)
  ultimately show thesis
    using that [of ?m3 e] inner x(3,5) a(2,4) by (auto simp: e_def)
qed

subsection \<open>Whole specifications\<close>

fun token_ok :: "('v, 'f) token_spec \<Rightarrow> bool" where
  "token_ok (TokenSpec re action_spec) \<longleftrightarrow> re_ok re \<and> balanced re"
| "token_ok _ \<longleftrightarrow> False"

fun token_pairs :: "('v, 'f) token_spec list \<Rightarrow> (RE \<times> ('v, 'f) Action) list" where
  "token_pairs [] = []"
| "token_pairs (TokenSpec re action_spec # tokens) = (re, token_action action_spec) # token_pairs tokens"
| "token_pairs (_ # tokens) = token_pairs tokens"

text \<open>The tokens of a scanner state, in the order of the specification; the default state is
  \<open>''''\<close>.\<close>

fun state_tokens :: "string \<Rightarrow> ('v, 'f) spec_item list \<Rightarrow> (RE \<times> ('v, 'f) Action) list" where
  "state_tokens name [] = []"
| "state_tokens name (StateItem name' tokens # specs) =
     (if name = name' then token_pairs tokens else []) @ state_tokens name specs"
| "state_tokens name (TokenItem token # specs) =
     (if name = [] then token_pairs [token] else []) @ state_tokens name specs"
| "state_tokens name (OtherItem # specs) = state_tokens name specs"

fun state_names :: "('v, 'f) spec_item list \<Rightarrow> string list" where
  "state_names [] = []"
| "state_names (StateItem name tokens # specs) = name # state_names specs"
| "state_names (_ # specs) = state_names specs"

fun token_count :: "('v, 'f) spec_item list \<Rightarrow> nat" where
  "token_count [] = 0"
| "token_count (StateItem name tokens # specs) = length tokens + token_count specs"
| "token_count (_ # specs) = 1 + token_count specs"

fun item_ok :: "('v, 'f) spec_item \<Rightarrow> bool" where
  "item_ok (StateItem name tokens) \<longleftrightarrow> list_all token_ok tokens"
| "item_ok (TokenItem token) \<longleftrightarrow> token_ok token"
| "item_ok OtherItem \<longleftrightarrow> False"

definition specs_ok :: "('v, 'f) spec_item list \<Rightarrow> bool" where
  "specs_ok specs \<longleftrightarrow>
     list_all item_ok specs \<and> distinct ([] # state_names specs) \<and> int (token_count specs) + 1 < maxint"

text \<open>The machine so far, its tokens, and the number of the next token.\<close>

definition lexicon_state :: "'a Machine \<Rightarrow> 'a token_part list \<Rightarrow> nat \<Rightarrow> bool" where
  "lexicon_state m es n \<longleftrightarrow>
     lexicon_machine m es \<and> sorted_wrt (\<lambda>e e'. tp_number e < tp_number e') es
     \<and> (\<forall>e \<in> set es. tp_number e < n)"

lemma lexicon_stateD:
  "lexicon_state m es n \<Longrightarrow> e \<in> set es \<Longrightarrow> tp_inner e \<subseteq> nodes m \<and> tp_init e \<in> nodes m"
  unfolding lexicon_state_def using lexicon_machineD(4) [of m es e] by (auto simp: part_built_def)

lemma part_tokens_append: "part_tokens i (es @ es') = part_tokens i es @ part_tokens i es'"
  by (simp add: part_tokens_def)

lemma part_tokens_none: "\<forall>e \<in> set es. tp_init e \<noteq> i \<Longrightarrow> part_tokens i es = []"
  by (induction es) (auto simp: part_tokens_def)

lemma add_tokens_spec:
  fixes m :: "('v, 'f) Action Machine"
  shows "lexicon_state m es n \<Longrightarrow> i \<in> nodes m \<Longrightarrow> \<forall>e \<in> set es. i \<notin> tp_inner e
    \<Longrightarrow> list_all token_ok tokens \<Longrightarrow> int (n + length tokens) \<le> maxint
    \<Longrightarrow> \<exists>m' es'. add_tokens i tokens n m = Inr (n + length tokens, m')
      \<and> lexicon_state m' (es @ es') (n + length tokens)
      \<and> nodes m \<subseteq> nodes m' \<and> initial_states m' = initial_states m
      \<and> (\<forall>e \<in> set es'. tp_init e = i \<and> tp_inner e \<inter> nodes m = {})
      \<and> part_tokens i es' = token_pairs tokens"
proof (induction tokens arbitrary: m es n)
  case Nil
  then show ?case by (intro exI [of _ m] exI [of _ "[]"]) (simp add: part_tokens_def)
next
  case (Cons token tokens)
  obtain re act where t: "token = TokenSpec re act" "re_ok re" "balanced re"
    using Cons.prems(4) by (cases token) auto
  have L: "lexicon_machine m es" and n: "int n < maxint"
    using Cons.prems(1,5) by (simp_all add: lexicon_state_def)
  obtain m1 e where a: "add_token_to_machine m i (TokenSpec re act) n = Inr m1"
    "lexicon_machine m1 (es @ [e])" "tp_init e = i" "tp_re e = re" "tp_action e = token_action act"
    "tp_number e = n" "nodes m \<subseteq> nodes m1" "initial_states m1 = initial_states m"
    "tp_inner e \<inter> nodes m = {}"
    using lexicon_add_token [OF L Cons.prems(2,3) t(2,3) n, of act] .
  have 1: "lexicon_state m1 (es @ [e]) (n + 1)"
    using Cons.prems(1) a(2,6) by (fastforce simp: lexicon_state_def sorted_wrt_append)
  have i1: "i \<in> nodes m1" using Cons.prems(2) a(7) by blast
  have "i \<notin> tp_inner e" using Cons.prems(2) a(9) by blast
  then have 2: "\<forall>e' \<in> set (es @ [e]). i \<notin> tp_inner e'" using Cons.prems(3) by auto
  obtain m' es' where r: "add_tokens i tokens (n + 1) m1 = Inr (n + 1 + length tokens, m')"
    "lexicon_state m' ((es @ [e]) @ es') (n + 1 + length tokens)" "nodes m1 \<subseteq> nodes m'"
    "initial_states m' = initial_states m1" "\<forall>e' \<in> set es'. tp_init e' = i \<and> tp_inner e' \<inter> nodes m1 = {}"
    "part_tokens i es' = token_pairs tokens"
    using Cons.IH [OF 1 i1 2] Cons.prems(4,5) by (auto simp del: insert_disjoint Int_insert_left_if0)
  have "\<forall>e' \<in> set (e # es'). tp_init e' = i \<and> tp_inner e' \<inter> nodes m = {}"
    using r(5) a(3,7,9) by (simp only: list.set ball_simps) blast
  moreover have "part_tokens i (e # es') = token_pairs (token # tokens)"
    using a(3-5) r(6) by (simp add: part_tokens_def t(1))
  moreover have "add_tokens i (token # tokens) n m = Inr (n + length (token # tokens), m')"
    using a(1) r(1) by (simp add: t(1))
  moreover have "lexicon_state m' (es @ e # es') (n + length (token # tokens))" using r(2) by simp
  ultimately show ?case using r(3,4) a(7,8)
    by (intro exI [of _ m'] exI [of _ "e # es'"]) (simp only: simp_thms, blast)
qed

lemma new_initial_state_spec:
  assumes L: "lexicon_state m es n" and new: "new_initial_state name m = (i, m')"
  shows "lexicon_state m' es n \<and> i \<notin> nodes m \<and> nodes m' = insert i (nodes m)
    \<and> initial_states m' = dict_set name i (initial_states m) \<and> (\<forall>e \<in> set es. i \<notin> tp_inner e)"
proof -
  have wf: "machine_wf m" using L by (simp add: lexicon_state_def lexicon_machine_def)
  obtain m1 where n: "new_state m = (i, m1)" and m': "m' = make_initial_state name i m1"
    using new by (auto simp: new_initial_state_def Let_def split: prod.splits)
  note ext = extends_new [OF wf n]
  note x = extendsD [OF ext]
  have node: "node_at m' k = node_at m1 k" "nodes m' = nodes m1"
    "initial_states m' = dict_set name i (initial_states m)" for k
    by (simp_all add: m' make_initial_state_def node_at_def nodes_def x(5))
  have edges: "edges m' = edges m1" unfolding edges_def node_targets_def node ..
  have fresh: "i \<notin> nodes m" using x(2) by simp
  have nodes: "nodes m' = insert i (nodes m)" using x(3) node(2) by simp
  have sub: "tp_inner e \<subseteq> nodes m" if "e \<in> set es" for e using lexicon_stateD [OF L that] by simp
  have inner: "\<forall>e \<in> set es. i \<notin> tp_inner e" using sub fresh by blast
  have mem: "(name', k) \<in> set (dict_set name i (initial_states m)) \<Longrightarrow> k = i \<or> (name', k) \<in> set (initial_states m)"
    for name' k using wf dict_wf_set [of "initial_states m" name i]
    by (auto simp: machine_wf_def dict_wf_mem dict_get_set split: if_splits)
  have at: "node_action (node_at m' k) = node_action (node_at m k)
      \<and> action_priority (node_at m' k) = action_priority (node_at m k)" if "k \<in> nodes m" for k
    using x(6) that by (simp add: same_actions_def node(1))
  have "lexicon_machine m' es"
    unfolding lexicon_machine_def
  proof (intro conjI)
    have "dict_wf (dict_set name i (initial_states m))" using wf by (auto simp: machine_wf_def)
    moreover have "next_state_number m' = length (machine_states m') + 1"
      using x(1) by (simp add: m' make_initial_state_def machine_wf_def)
    moreover have "\<forall>(name, k) \<in> set (initial_states m'). k \<in> nodes m'"
      using mem wf nodes unfolding node(3) by (fastforce simp: machine_wf_def)
    ultimately show "machine_wf m'" using x(1) by (simp add: machine_wf_def node)
    have L': "lexicon_machine m es" using L by (simp add: lexicon_state_def)
    note d = lexicon_machineD [OF L']
    show "ends_at (edges m') (- maxint) = ends_at (edges m') (maxint - 1)"
      "edges m' = (\<Union>e \<in> set es. tp_edges e)" using d(2,3) x(4) edges by simp_all
    have "part_built m' e" if "e \<in> set es" for e
    proof (rule part_built_mono [OF d(4) [OF that]])
      have "tp_final e \<in> nodes m" using sub [OF that] by simp
      from at [OF this] show "node_action (node_at m' (tp_final e)) = node_action (node_at m (tp_final e))"
        "action_priority (node_at m' (tp_final e)) = action_priority (node_at m (tp_final e))" by simp_all
    qed (simp add: nodes, blast)
    then show "\<forall>e \<in> set es. part_built m' e" by blast
    show "\<forall>e \<in> set es. \<forall>e' \<in> set es. e \<noteq> e' \<longrightarrow> tp_inner e \<inter> tp_inner e' = {}"
      "\<forall>e \<in> set es. \<forall>e' \<in> set es. tp_init e \<notin> tp_inner e'"
      using L' unfolding lexicon_machine_def by - (elim conjE, assumption)+
    show "\<forall>(name, i) \<in> set (initial_states m'). \<forall>e \<in> set es. i \<notin> tp_inner e"
    proof (intro ballI, clarify)
      fix name' k e assume "(name', k) \<in> set (initial_states m')" "e \<in> set es" "k \<in> tp_inner e"
      then show False using mem [of name' k] d(7) [of name' k e] inner unfolding node(3) by blast
    qed
    show "\<forall>n \<in> nodes m' - tp_final ` set es. node_action (node_at m' n) = None
        \<and> action_priority (node_at m' n) = LOWEST_PRIORITY"
    proof
      fix k assume k: "k \<in> nodes m' - tp_final ` set es"
      show "node_action (node_at m' k) = None \<and> action_priority (node_at m' k) = LOWEST_PRIORITY"
      proof (cases "k \<in> nodes m")
        case True
        then show ?thesis using at [OF True] d(8) [of k] k by simp
      next
        case False
        then have "k \<in> nodes m1 - nodes m" using k node(2) by simp
        then show ?thesis using x(6) by (simp add: same_actions_def node(1))
      qed
    qed
  qed
  then show ?thesis using L fresh nodes inner node(3) by (simp only: lexicon_state_def) blast
qed

lemma add_specifications_spec:
  fixes m :: "('v, 'f) Action Machine"
  shows "lexicon_state m es n \<Longrightarrow> d \<in> nodes m \<Longrightarrow> \<forall>e \<in> set es. d \<notin> tp_inner e
    \<Longrightarrow> list_all item_ok specs \<Longrightarrow> distinct ([] # state_names specs)
    \<Longrightarrow> int (n + token_count specs) \<le> maxint
    \<Longrightarrow> \<exists>m' es'. add_specifications d specs n m = Inr m'
      \<and> lexicon_state m' (es @ es') (n + token_count specs) \<and> nodes m \<subseteq> nodes m'
      \<and> (\<forall>e \<in> set es'. tp_inner e \<inter> nodes m = {} \<and> (tp_init e = d \<or> tp_init e \<notin> nodes m))
      \<and> part_tokens d es' = state_tokens [] specs
      \<and> (\<forall>name. name \<notin> set (state_names specs) \<longrightarrow>
            dict_get (initial_states m') name = dict_get (initial_states m) name)
      \<and> (\<forall>name \<in> set (state_names specs). \<exists>i. dict_get (initial_states m') name = Some i
            \<and> i \<notin> nodes m \<and> part_tokens i es' = state_tokens name specs)"
proof (induction d specs n m arbitrary: es rule: add_specifications.induct)
  case (1 d n m)
  then show ?case by (intro exI [of _ m] exI [of _ "[]"]) (simp add: part_tokens_def)
next
  case (2 d name tokens specs n m)
  obtain i m1 where new: "new_initial_state name m = (i, m1)" by fastforce
  note s = new_initial_state_spec [OF "2.prems"(1) new]
  have toks: "list_all token_ok tokens" "int (n + length tokens) \<le> maxint" using "2.prems"(4,6) by simp_all
  obtain m2 es1 where t: "add_tokens i tokens n m1 = Inr (n + length tokens, m2)"
    "lexicon_state m2 (es @ es1) (n + length tokens)" "nodes m1 \<subseteq> nodes m2"
    "initial_states m2 = initial_states m1" "\<forall>e \<in> set es1. tp_init e = i \<and> tp_inner e \<inter> nodes m1 = {}"
    "part_tokens i es1 = token_pairs tokens"
    using add_tokens_spec [OF _ _ _ toks, of m1 es i] s by blast
  have d2: "d \<in> nodes m2" using s t(3) "2.prems"(2) by auto
  have d1: "\<forall>e \<in> set (es @ es1). d \<notin> tp_inner e"
    using "2.prems"(2,3) t(5) s by auto
  have rest: "list_all item_ok specs" "distinct ([] # state_names specs)"
    "int (n + length tokens + token_count specs) \<le> maxint" and name: "name \<noteq> []" "name \<notin> set (state_names specs)"
    using "2.prems"(4-6) by auto
  from "2.IH" [OF new [symmetric] refl t(1) refl t(2) d2 d1 rest] obtain m3 es2 where
    r: "add_specifications d specs (n + length tokens) m2 = Inr m3"
      "lexicon_state m3 ((es @ es1) @ es2) (n + length tokens + token_count specs)" "nodes m2 \<subseteq> nodes m3"
      "\<forall>e \<in> set es2. tp_inner e \<inter> nodes m2 = {} \<and> (tp_init e = d \<or> tp_init e \<notin> nodes m2)"
      "part_tokens d es2 = state_tokens [] specs"
      "\<forall>name. name \<notin> set (state_names specs) \<longrightarrow>
         dict_get (initial_states m3) name = dict_get (initial_states m2) name"
      "\<forall>name \<in> set (state_names specs). \<exists>i. dict_get (initial_states m3) name = Some i
         \<and> i \<notin> nodes m2 \<and> part_tokens i es2 = state_tokens name specs" by blast
  have id: "i \<noteq> d" "i \<in> nodes m2" using s "2.prems"(2) t(3) by auto
  have "part_tokens d es1 = []" using t(5) id(1) by (intro part_tokens_none) auto
  then have p1: "part_tokens d (es1 @ es2) = state_tokens [] (StateItem name tokens # specs)"
    using r(5) name by (simp add: part_tokens_append)
  have "part_tokens i es2 = []" using r(4) id by (intro part_tokens_none) auto
  moreover have "state_tokens name specs = []" using name
    by (induction specs rule: state_names.induct) auto
  ultimately have p2: "part_tokens i (es1 @ es2) = state_tokens name (StateItem name tokens # specs)"
    using t(6) by (simp add: part_tokens_append)
  have init: "dict_get (initial_states m2) k = (if k = name then Some i else dict_get (initial_states m) k)" for k
    using s t(4) by (simp add: dict_get_set)
  show ?case
  proof (intro exI conjI)
    show "add_specifications d (StateItem name tokens # specs) n m = Inr m3"
      using r(1) by (simp add: new t(1))
    show "lexicon_state m3 (es @ es1 @ es2) (n + token_count (StateItem name tokens # specs))"
      using r(2) by (simp add: add.assoc)
    show "nodes m \<subseteq> nodes m3" using s t(3) r(3) by auto
    show "\<forall>e \<in> set (es1 @ es2). tp_inner e \<inter> nodes m = {} \<and> (tp_init e = d \<or> tp_init e \<notin> nodes m)"
      using t(3,5) r(4) s by auto
    show "part_tokens d (es1 @ es2) = state_tokens [] (StateItem name tokens # specs)" by (rule p1)
    show "\<forall>k. k \<notin> set (state_names (StateItem name tokens # specs)) \<longrightarrow>
        dict_get (initial_states m3) k = dict_get (initial_states m) k"
      using r(6) init by simp
    show "\<forall>k \<in> set (state_names (StateItem name tokens # specs)). \<exists>i. dict_get (initial_states m3) k = Some i
        \<and> i \<notin> nodes m \<and> part_tokens i (es1 @ es2) = state_tokens k (StateItem name tokens # specs)"
    proof
      fix k assume "k \<in> set (state_names (StateItem name tokens # specs))"
      then consider "k = name" | "k \<in> set (state_names specs)" "k \<noteq> name" using name by auto
      then show "\<exists>i. dict_get (initial_states m3) k = Some i
        \<and> i \<notin> nodes m \<and> part_tokens i (es1 @ es2) = state_tokens k (StateItem name tokens # specs)"
      proof cases
        case 1
        then show ?thesis using r(6) init name p2 s by (intro exI [of _ i]) simp
      next
        case 2
        then obtain j where j: "dict_get (initial_states m3) k = Some j" "j \<notin> nodes m2"
          "part_tokens j es2 = state_tokens k specs" using r(7) by blast
        have "part_tokens j es1 = []" using t(5) j(2) id(2) by (intro part_tokens_none) auto
        then have "part_tokens j (es1 @ es2) = state_tokens k (StateItem name tokens # specs)"
          using j(3) 2 by (simp add: part_tokens_append)
        with j s t(3) show ?thesis by (intro exI [of _ j]) auto
      qed
    qed
  qed
next
  case (3 d token specs n m)
  obtain re act where tok: "token = TokenSpec re act" "re_ok re" "balanced re"
    using "3.prems"(4) by (cases token) auto
  have L: "lexicon_machine m es" and n: "int n < maxint"
    using "3.prems"(1,6) by (simp_all add: lexicon_state_def)
  obtain m1 e where a: "add_token_to_machine m d (TokenSpec re act) n = Inr m1"
    "lexicon_machine m1 (es @ [e])" "tp_init e = d" "tp_re e = re" "tp_action e = token_action act"
    "tp_number e = n" "nodes m \<subseteq> nodes m1" "initial_states m1 = initial_states m"
    "tp_inner e \<inter> nodes m = {}"
    using lexicon_add_token [OF L "3.prems"(2,3) tok(2,3) n, of act] .
  have 1: "lexicon_state m1 (es @ [e]) (n + 1)"
    using "3.prems"(1) a(2,6) by (fastforce simp: lexicon_state_def sorted_wrt_append)
  have "d \<notin> tp_inner e" using "3.prems"(2) a(9) by blast
  then have 2: "d \<in> nodes m1" "\<forall>e' \<in> set (es @ [e]). d \<notin> tp_inner e'" using "3.prems"(2,3) a(7) by auto
  have rest: "list_all item_ok specs" "distinct ([] # state_names specs)" "int (n + 1 + token_count specs) \<le> maxint"
    using "3.prems"(4-6) by simp_all
  have "token \<noteq> NotATuple" by (simp add: tok(1))
  from "3.IH" [OF this a(1) [folded tok(1)] 1 2 rest] obtain m' es' where
    r: "add_specifications d specs (n + 1) m1 = Inr m'"
      "lexicon_state m' ((es @ [e]) @ es') (n + 1 + token_count specs)" "nodes m1 \<subseteq> nodes m'"
      "\<forall>e \<in> set es'. tp_inner e \<inter> nodes m1 = {} \<and> (tp_init e = d \<or> tp_init e \<notin> nodes m1)"
      "part_tokens d es' = state_tokens [] specs"
      "\<forall>name. name \<notin> set (state_names specs) \<longrightarrow>
         dict_get (initial_states m') name = dict_get (initial_states m1) name"
      "\<forall>name \<in> set (state_names specs). \<exists>i. dict_get (initial_states m') name = Some i
         \<and> i \<notin> nodes m1 \<and> part_tokens i es' = state_tokens name specs" by blast
  show ?case
  proof (intro exI conjI)
    show "add_specifications d (TokenItem token # specs) n m = Inr m'"
      using r(1) a(1) by (simp add: tok(1))
    show "lexicon_state m' (es @ e # es') (n + token_count (TokenItem token # specs))" using r(2) by simp
    show "nodes m \<subseteq> nodes m'" using a(7) r(3) by blast
    show "\<forall>e \<in> set (e # es'). tp_inner e \<inter> nodes m = {} \<and> (tp_init e = d \<or> tp_init e \<notin> nodes m)"
      using r(4) a(3,7,9) by (simp only: list.set ball_simps) blast
    show "part_tokens d (e # es') = state_tokens [] (TokenItem token # specs)"
      using r(5) a(3-5) by (simp add: part_tokens_def tok(1))
    show "\<forall>name. name \<notin> set (state_names (TokenItem token # specs)) \<longrightarrow>
        dict_get (initial_states m') name = dict_get (initial_states m) name" using r(6) a(8) by simp
    show "\<forall>name \<in> set (state_names (TokenItem token # specs)). \<exists>i. dict_get (initial_states m') name = Some i
        \<and> i \<notin> nodes m \<and> part_tokens i (e # es') = state_tokens name (TokenItem token # specs)"
    proof
      fix name assume k: "name \<in> set (state_names (TokenItem token # specs))"
      then obtain i where i: "dict_get (initial_states m') name = Some i" "i \<notin> nodes m1"
        "part_tokens i es' = state_tokens name specs" using r(7) by auto
      have "i \<noteq> d" "name \<noteq> []" using i(2) 2(1) k "3.prems"(5) by auto
      then have "part_tokens i (e # es') = state_tokens name (TokenItem token # specs)"
        using i(3) a(3) by (simp add: part_tokens_def)
      with i a(7) show "\<exists>i. dict_get (initial_states m') name = Some i
        \<and> i \<notin> nodes m \<and> part_tokens i (e # es') = state_tokens name (TokenItem token # specs)" by blast
    qed
  qed
next
  case (4 d specs n m)
  then show ?case by simp
qed

lemma lexicon_init_spec:
  fixes specs :: "('v, 'f) spec_item list"
  assumes "specs_ok specs"
  obtains fm nfa where "lexicon_init (Some specs) = Some (Inr fm)" "machine_ok nfa"
    "nfa_to_dfa nfa = Some (Inr fm)"
    "\<And>name. dict_get (initial_states nfa) name = None \<longleftrightarrow> name \<noteq> [] \<and> name \<notin> set (state_names specs)"
    "\<And>name w. list_all input_ok w \<Longrightarrow> fm_action fm name w = first_match (state_tokens name specs) w"
proof -
  have "edges (machine_init :: ('v, 'f) Action Machine) = {}"
    by (simp add: edges_def nodes_def machine_init_def)
  then have 0: "lexicon_state (machine_init :: ('v, 'f) Action Machine) [] 1"
    by (simp add: lexicon_state_def lexicon_machine_def machine_wf_def nodes_def machine_init_def dict_wf_def ends_at_def)
  obtain d m0 where new: "new_initial_state [] (machine_init :: ('v, 'f) Action Machine) = (d, m0)" by fastforce
  note s = new_initial_state_spec [OF 0 new]
  have ok: "list_all item_ok specs" "distinct ([] # state_names specs)" "int (1 + token_count specs) \<le> maxint"
    using assms by (simp_all add: specs_ok_def)
  obtain nfa es where a: "add_specifications d specs 1 m0 = Inr nfa"
    "lexicon_state nfa es (1 + token_count specs)" "nodes m0 \<subseteq> nodes nfa"
    "\<forall>e \<in> set es. tp_inner e \<inter> nodes m0 = {} \<and> (tp_init e = d \<or> tp_init e \<notin> nodes m0)"
    "part_tokens d es = state_tokens [] specs"
    "\<forall>name. name \<notin> set (state_names specs) \<longrightarrow> dict_get (initial_states nfa) name = dict_get (initial_states m0) name"
    "\<forall>name \<in> set (state_names specs). \<exists>i. dict_get (initial_states nfa) name = Some i
       \<and> i \<notin> nodes m0 \<and> part_tokens i es = state_tokens name specs"
    using add_specifications_spec [OF _ _ _ ok, of m0 "[]" d] s by auto
  have L: "lexicon_machine nfa es" "sorted_wrt (\<lambda>e e'. tp_number e < tp_number e') es"
    "\<forall>e \<in> set es. int (tp_number e) < maxint"
    using a(2) ok(3) by (auto simp: lexicon_state_def)
  have m: "machine_ok nfa" using machine_ok_closed lexicon_machineD(1,2) [OF L(1)] by blast
  have init0: "initial_states m0 = [([], d)]" using s by (simp add: machine_init_def)
  have init: "dict_get (initial_states nfa) name =
      (if name = [] then Some d else if name \<in> set (state_names specs) then dict_get (initial_states nfa) name
       else None)" for name
    using a(6) ok(2) init0 by auto
  obtain fm where fm: "nfa_to_dfa nfa = Some (Inr fm)"
    "\<And>name. dict_get (fm_initial_states fm) name = None \<longleftrightarrow> dict_get (initial_states nfa) name = None"
    "\<And>name s word. dict_get (initial_states nfa) name = Some s \<Longrightarrow> list_all input_ok word
       \<Longrightarrow> fm_action fm name word = nfa_action nfa s word"
    using nfa_to_dfa_actions [OF m] by blast
  have none: "dict_get (initial_states nfa) name = None \<longleftrightarrow> name \<noteq> [] \<and> name \<notin> set (state_names specs)" for name
    using init [of name] a(7) by auto
  have "fm_action fm name w = first_match (state_tokens name specs) w" if w: "list_all input_ok w" for name w
  proof (cases "dict_get (initial_states nfa) name")
    case None
    then have "name \<noteq> []" "name \<notin> set (state_names specs)" using none by simp_all
    then have "state_tokens name specs = []" by (induction specs rule: state_names.induct) auto
    moreover have "dict_get (fm_initial_states fm) name = None" using None fm(2) by blast
    ultimately show ?thesis by (simp add: fm_action_def first_match_def)
  next
    case (Some i)
    have "(name, i) \<in> set (initial_states nfa)" using Some by (rule map_of_SomeD)
    then have i: "i \<in> nodes nfa" "\<forall>e \<in> set es. i \<notin> tp_inner e"
      using lexicon_machineD(1,7) [OF L(1)] by (auto simp: machine_wf_def)
    have "part_tokens i es = state_tokens name specs"
      using Some init [of name] a(5,7) by (fastforce split: if_splits)
    then show ?thesis using fm(3) [OF Some w] lexicon_action [OF L(1) i L(2,3) w] by simp
  qed
  moreover have "lexicon_init (Some specs) = Some (Inr fm)"
    using a(1) fm(1) by (simp add: lexicon_init_def new)
  ultimately show thesis using that m fm(1) none by blast
qed

subsection \<open>Properties of lexicons\<close>

text \<open>C25. Every well-formed specification is accepted, and the machine of the lexicon has an initial
  state for the default state and for each named one. After any sequence of characters and line and
  file symbols the machine gives the action of the first token of that state whose pattern matches
  the whole sequence, and none when no pattern does.\<close>

theorem lexicon_machine_correct:
  assumes "specs_ok specs"
  shows "\<exists>fm. lexicon_init (Some specs) = Some (Inr fm)
    \<and> (\<forall>name. dict_get (fm_initial_states fm) name = None \<longleftrightarrow> name \<noteq> [] \<and> name \<notin> set (state_names specs))
    \<and> (\<forall>name w. list_all input_ok w \<longrightarrow> fm_action fm name w = first_match (state_tokens name specs) w)"
proof -
  obtain fm nfa where "lexicon_init (Some specs) = Some (Inr fm)" "machine_ok nfa"
    "nfa_to_dfa nfa = Some (Inr fm)"
    "\<And>name. dict_get (initial_states nfa) name = None \<longleftrightarrow> name \<noteq> [] \<and> name \<notin> set (state_names specs)"
    "\<And>name w. list_all input_ok w \<Longrightarrow> fm_action fm name w = first_match (state_tokens name specs) w"
    by (rule lexicon_init_spec [OF assms]) blast
  then show ?thesis using nfa_to_dfa_actions [of nfa] by auto
qed

definition example_specs :: "(nat, unit) spec_item list" where
  "example_specs =
     [TokenItem (TokenSpec (Str1 [97, 98]) (IsValue 7)),
      TokenItem (TokenSpec (Rep1 (AnyBut [10])) (IsAction TEXT)),
      StateItem ''INDENT'' [TokenSpec Eol (IsAction (Begin []))]]"

lemma example_specs_ok: "specs_ok example_specs"
  by (simp add: example_specs_def specs_ok_def Str1_def Char_def CodeRange_def nl_code_def AnyBut_def
      CodeRanges_def chars_to_ranges_def maxint_def Eol_def EOL_def balanced_def code_ok_def)

lemma lexicon_machine_correct_witness:
  "\<exists>fm. lexicon_init (Some example_specs) = Some (Inr fm)
     \<and> dict_get (fm_initial_states fm) ''INDENT'' \<noteq> None"
proof -
  have "''INDENT'' \<in> set (state_names example_specs)" by (simp add: example_specs_def)
  then show ?thesis using lexicon_machine_correct [OF example_specs_ok] by auto
qed

lemma add_tokens_append:
  "add_tokens i (xs @ ys) n m =
     (case add_tokens i xs n m of Inl e \<Rightarrow> Inl e | Inr (n, m) \<Rightarrow> add_tokens i ys n m)"
  by (induction i xs n m rule: add_tokens.induct) (simp_all split: sum.split)

lemma add_tokens_number: "add_tokens i xs n m = Inr (n', m') \<Longrightarrow> n' = n + length xs"
  by (induction i xs n m rule: add_tokens.induct) (auto split: sum.splits)

lemma add_specifications_append:
  "add_specifications d (xs @ ys) n m =
     (case add_specifications d xs n m of
        Inl e \<Rightarrow> Inl e | Inr m \<Rightarrow> add_specifications d ys (n + token_count xs) m)"
proof (induction d xs n m rule: add_specifications.induct)
  case (2 d name tokens specs n m)
  then show ?case
    by (auto simp: add.assoc split: sum.splits prod.splits dest!: add_tokens_number)
qed (auto split: sum.splits)

text \<open>Well-formed items, and well-formed tokens of a state after them, are added without an error.\<close>

lemma specs_prefix:
  fixes specs :: "('v, 'f) spec_item list"
  assumes "specs_ok specs" and new: "new_initial_state [] (machine_init :: ('v, 'f) Action Machine) = (d, m0)"
  obtains m es where "add_specifications d specs 1 m0 = Inr m"
    "lexicon_state m es (token_count specs + 1)"
proof -
  have "edges (machine_init :: ('v, 'f) Action Machine) = {}"
    by (simp add: edges_def nodes_def machine_init_def)
  then have 0: "lexicon_state (machine_init :: ('v, 'f) Action Machine) [] 1"
    by (simp add: lexicon_state_def lexicon_machine_def machine_wf_def nodes_def machine_init_def dict_wf_def ends_at_def)
  note s = new_initial_state_spec [OF 0 new]
  have ok: "list_all item_ok specs" "distinct ([] # state_names specs)" "int (1 + token_count specs) \<le> maxint"
    using assms by (simp_all add: specs_ok_def)
  show thesis
    using add_specifications_spec [OF _ _ _ ok, of m0 "[]" d] s that by fastforce
qed

lemma tokens_prefix:
  assumes m: "lexicon_state m es n" and new: "new_initial_state name m = (i, m1)"
    and toks: "list_all token_ok tokens" "int (n + length tokens) \<le> maxint"
  obtains m2 where "add_tokens i tokens n m1 = Inr (n + length tokens, m2)"
  using add_tokens_spec [OF _ _ _ toks, of m1 es i] new_initial_state_spec [OF m new] by blast

definition token_malformed :: "('v, 'f) token_spec \<Rightarrow> bool" where
  "token_malformed token \<longleftrightarrow> token \<in> {NotATuple, WrongLength, NotAnRE}"

lemma add_malformed: "token_malformed token \<Longrightarrow> add_token_to_machine m i token n = Inl MissingArgument"
  by (auto simp: token_malformed_def add_token_to_machine_def parse_token_definition_def)

text \<open>C31. Malformed specifications are rejected at the first bad item, but only an item that is
  neither a tuple nor a state is reported as an \<open>InvalidToken\<close> with its number: for a tuple of the
  wrong length, a pattern that is no expression, and any bad token of a state, the first one or one
  after well-formed tokens, the exception class is called with one argument too few, so a
  \<open>TypeError\<close> leaves the constructor instead.\<close>

theorem lexicon_malformed:
  fixes good :: "('v, 'f) spec_item list"
  assumes "specs_ok good" and "token_malformed token"
    and "list_all token_ok good_tokens" and "int (token_count good + length good_tokens) + 1 < maxint"
  shows "lexicon_init (Some (good @ OtherItem # rest)) = Some (Inl (InvalidToken (token_count good + 1)))
    \<and> lexicon_init (Some (good @ TokenItem token # rest)) =
        Some (Inl (if token = NotATuple then InvalidToken (token_count good + 1) else MissingArgument))
    \<and> lexicon_init (Some (good @ StateItem name (good_tokens @ token # tokens) # rest)) =
        Some (Inl MissingArgument)
    \<and> lexicon_init (None :: ('v, 'f) spec_item list option) = Some (Inl InvalidScanner)"
proof -
  obtain d m0 where new: "new_initial_state [] (machine_init :: ('v, 'f) Action Machine) = (d, m0)"
    by fastforce
  obtain m es where m: "add_specifications d good 1 m0 = Inr m"
    "lexicon_state m es (token_count good + 1)"
    using specs_prefix [OF assms(1) new] .
  obtain i m1 where state: "new_initial_state name m = (i, m1)" by fastforce
  have "int (token_count good + 1 + length good_tokens) \<le> maxint" using assms(4) by simp
  then obtain m2 where added: "add_tokens i good_tokens (Suc (token_count good)) m1 =
      Inr (Suc (token_count good) + length good_tokens, m2)"
    using tokens_prefix [OF m(2) state assms(3)] by auto
  have run: "lexicon_init (Some (good @ ys)) =
      (case add_specifications d ys (token_count good + 1) m of
         Inl e \<Rightarrow> Some (Inl e)
       | Inr nfa \<Rightarrow>
           (case nfa_to_dfa nfa of
              None \<Rightarrow> None | Some (Inl e) \<Rightarrow> Some (Inl (ConversionError e)) | Some (Inr dfa) \<Rightarrow> Some (Inr dfa)))"
    for ys
    using m by (simp add: lexicon_init_def new add_specifications_append)
  show ?thesis
    unfolding run
    by (simp add: add_malformed [OF assms(2)] state added add_tokens_append lexicon_init_def)
qed

lemma lexicon_malformed_witness:
  "lexicon_init (Some (example_specs @ TokenItem WrongLength # [])) = Some (Inl MissingArgument)
   \<and> lexicon_init (Some (example_specs
        @ StateItem ''S'' ([TokenSpec Eol (IsAction (Begin []))] @ NotAnRE # []) # []))
      = Some (Inl MissingArgument)"
proof -
  have "list_all token_ok [TokenSpec Eol (IsAction (Begin []) :: (nat, unit) action_spec)]"
    "int (token_count example_specs + length [TokenSpec Eol (IsAction (Begin []) :: (nat, unit) action_spec)]) + 1 < maxint"
    by (simp_all add: Char_def CodeRange_def Eol_def EOL_def balanced_def code_ok_def
        example_specs_def maxint_def)
  then show ?thesis
    using lexicon_malformed [OF example_specs_ok, of WrongLength "[]" "[]"]
      lexicon_malformed [OF example_specs_ok, of NotAnRE "[TokenSpec Eol (IsAction (Begin []))]" "[]" "''S''" "[]"]
    by (simp add: token_malformed_def example_specs_def maxint_def)
qed

end
