(* ===== verification/PlexScanner.thy ===== *)
theory PlexScanner
  imports PlexDFA PlexRegexps
begin

text \<open>
  \<open>Cython/Plex/Scanners.py\<close>: reading the input, with the synthetic line and file symbols, and
  the run of the deterministic machine. A character is its code. The stream is the list of the
  strings its \<open>read\<close> calls return, none of them empty before the end of the file. The tracing
  output is not modelled.
\<close>

subsection \<open>The scanner\<close>

text \<open>The local variables of \<open>run_machine_inlined\<close> that are backed up together.\<close>

record scan_pos =
  cur_pos :: nat
  cur_line :: nat
  cur_line_start :: int
  cur_char :: dict_key
  input_state :: nat
  next_pos :: nat

text \<open>\<open>position\<close> is the line and column of \<open>current_scanner_position_tuple\<close>.\<close>

record scan_input =
  buffer :: "int list"
  buf_start_pos :: nat
  start_pos :: nat
  position :: "nat \<times> int"
  stream :: "int list list"

text \<open>\<open>self.stream.read(0x1000)\<close>.\<close>

definition stream_read :: "int list list \<Rightarrow> int list \<times> int list list" where
  "stream_read chunks = (case chunks of [] \<Rightarrow> ([], []) | data # rest \<Rightarrow> (data, rest))"

text \<open>The inlined \<open>read_char\<close>: the character at \<open>next_pos\<close>, or \<open>None\<close> for the empty
  string, the advanced position and the refilled buffer.\<close>

definition read_char :: "nat \<Rightarrow> scan_input \<Rightarrow> int option \<times> nat \<times> scan_input" where
  "read_char pos inp =
     (let buf_index = pos - buf_start_pos inp in
      if buf_index < length (buffer inp) then (Some (buffer inp ! buf_index), pos + 1, inp)
      else
        let discard = start_pos inp - buf_start_pos inp;
            (data, rest) = stream_read (stream inp);
            buf = drop discard (buffer inp) @ data;
            inp = inp\<lparr>buffer := buf, buf_start_pos := buf_start_pos inp + discard, stream := rest\<rparr>;
            buf_index = buf_index - discard
        in if data \<noteq> [] then (Some (buf ! buf_index), pos + 1, inp) else (None, pos, inp))"

text \<open>The inlined \<open>next_char\<close>.\<close>

definition next_char :: "scan_pos \<Rightarrow> scan_input \<Rightarrow> scan_pos \<times> scan_input" where
  "next_char p inp =
     (if input_state p = 1 then
        (case read_char (next_pos p) inp of (c, pos, inp) \<Rightarrow>
           let p = p\<lparr>cur_pos := next_pos p, next_pos := pos\<rparr> in
           (case c of
              None \<Rightarrow> (p\<lparr>cur_char := EOL, input_state := 4\<rparr>, inp)
            | Some code \<Rightarrow>
                if code = nl_code then (p\<lparr>cur_char := EOL, input_state := 2\<rparr>, inp)
                else (p\<lparr>cur_char := KChar code\<rparr>, inp)))
      else if input_state p = 2 then (p\<lparr>cur_char := KChar nl_code, input_state := 3\<rparr>, inp)
      else if input_state p = 3 then
        (p\<lparr>cur_line := cur_line p + 1, cur_line_start := int (next_pos p), cur_pos := next_pos p,
           cur_char := BOL, input_state := 1\<rparr>, inp)
      else if input_state p = 4 then (p\<lparr>cur_char := EOF, input_state := 5\<rparr>, inp)
      else (p\<lparr>cur_char := KSym []\<rparr>, inp))"

text \<open>\<open>state.get(c, NOT_FOUND)\<close>, and \<open>c and state.get('else')\<close> when it is missing.\<close>

definition scan_next :: "'a FastState \<Rightarrow> dict_key \<Rightarrow> nat option" where
  "scan_next state c =
     (case dict_get (fs_keys state) c of
        Some target \<Rightarrow> target
      | None \<Rightarrow>
          if c = KSym [] then None
          else (case dict_get (fs_keys state) (KSym ''else'') of Some target \<Rightarrow> target | None \<Rightarrow> None))"

text \<open>The loop of \<open>run_machine_inlined\<close>; \<open>backup\<close> is the \<open>b_\<close> variables.\<close>

partial_function (option) run_loop ::
  "'a FastMachine \<Rightarrow> nat \<Rightarrow> scan_pos \<Rightarrow> scan_input \<Rightarrow> ('a \<times> scan_pos) option
   \<Rightarrow> ('a option \<times> scan_pos \<times> scan_input) option" where
  "run_loop fm state p inp backup =
     (let backup = (case fs_action (fm_state fm state) of None \<Rightarrow> backup | Some action \<Rightarrow> Some (action, p))
      in case scan_next (fm_state fm state) (cur_char p) of
           Some state' \<Rightarrow> (case next_char p inp of (p, inp) \<Rightarrow> run_loop fm state' p inp backup)
         | None \<Rightarrow>
             (case backup of
                Some (action, p) \<Rightarrow> Some (Some action, p, inp)
              | None \<Rightarrow> Some (None, p, inp)))"

definition run_machine ::
  "'a FastMachine \<Rightarrow> nat \<Rightarrow> scan_pos \<Rightarrow> scan_input
   \<Rightarrow> ('a option \<times> scan_pos \<times> scan_input) option" where
  "run_machine fm initial_state p inp = run_loop fm initial_state p inp None"

text \<open>\<open>scan_a_token\<close>: the text and the action, \<open>None\<close> for the action at the end of the file, or
  \<open>UnrecognizedInput\<close>.\<close>

datatype scan_error = UnrecognizedInput nat

definition scan_a_token ::
  "'a FastMachine \<Rightarrow> nat \<Rightarrow> scan_pos \<Rightarrow> scan_input
   \<Rightarrow> (scan_error + (int list \<times> 'a option) \<times> scan_pos \<times> scan_input) option" where
  "scan_a_token fm initial_state p inp =
     (let inp = inp\<lparr>start_pos := cur_pos p,
                position := (cur_line p, int (cur_pos p) - cur_line_start p)\<rparr>
      in case run_machine fm initial_state p inp of
           None \<Rightarrow> None
         | Some (Some action, p, inp) \<Rightarrow>
             let text = take (cur_pos p - start_pos inp)
                   (drop (start_pos inp - buf_start_pos inp) (buffer inp))
             in Some (Inr ((text, Some action), p, inp))
         | Some (None, p, inp) \<Rightarrow>
             if cur_pos p = start_pos inp \<and> cur_char p = EOF
             then Some (Inr (([], None), p, inp))
             else Some (Inl (UnrecognizedInput (cur_pos p))))"

text \<open>The positions \<open>__init__\<close> sets.\<close>

definition scan_pos_init :: scan_pos where
  "scan_pos_init =
     \<lparr>cur_pos = 0, cur_line = 1, cur_line_start = 0, cur_char = BOL, input_state = 1,
      next_pos = 0\<rparr>"

definition scan_input_init :: "int list list \<Rightarrow> scan_input" where
  "scan_input_init chunks =
     \<lparr>buffer = [], buf_start_pos = 0, start_pos = 0, position = (0, 0), stream = chunks\<rparr>"

subsection \<open>The text behind the buffer\<close>

text \<open>The buffer and what the stream has left are the text from \<open>buf_start_pos\<close> on, and the token
  being read starts inside the buffer.\<close>

definition input_holds :: "int list \<Rightarrow> nat \<Rightarrow> scan_input \<Rightarrow> bool" where
  "input_holds text pos inp \<longleftrightarrow>
     drop (buf_start_pos inp) text = buffer inp @ concat (stream inp)
     \<and> buf_start_pos inp \<le> length text
     \<and> buf_start_pos inp \<le> start_pos inp \<and> start_pos inp \<le> pos
     \<and> pos \<le> buf_start_pos inp + length (buffer inp)
     \<and> [] \<notin> set (stream inp)"

lemma input_holds_init: "[] \<notin> set chunks \<Longrightarrow> input_holds (concat chunks) 0 (scan_input_init chunks)"
  by (simp add: input_holds_def scan_input_init_def)

lemma read_char_spec:
  assumes "input_holds text pos inp"
  obtains inp' where
    "read_char pos inp = (if pos < length text then (Some (text ! pos), pos + 1, inp')
                          else (None, pos, inp'))"
    "input_holds text (if pos < length text then pos + 1 else pos) inp'"
    "start_pos inp' = start_pos inp"
proof -
  let ?b = "buf_start_pos inp"
  have h: "drop ?b text = buffer inp @ concat (stream inp)" "?b \<le> length text"
    "?b \<le> start_pos inp" "start_pos inp \<le> pos" "pos \<le> ?b + length (buffer inp)"
    "[] \<notin> set (stream inp)"
    using assms by (simp_all add: input_holds_def)
  have len: "length text = ?b + length (buffer inp) + length (concat (stream inp))"
    using arg_cong [OF h(1), of length] h(2) by simp
  show thesis
  proof (cases "pos - ?b < length (buffer inp)")
    case True
    have "text ! pos = (buffer inp @ concat (stream inp)) ! (pos - ?b)"
      using h by (simp flip: h(1))
    then have "read_char pos inp = (Some (text ! pos), pos + 1, inp)"
      using True by (simp add: read_char_def nth_append)
    moreover have "pos < length text" using True h len by linarith
    moreover have "input_holds text (pos + 1) inp" using h True by (simp add: input_holds_def)
    ultimately show thesis using that [of inp] by simp
  next
    case False
    then have pos: "pos = ?b + length (buffer inp)" using h by linarith
    let ?d = "start_pos inp - ?b"
    have d: "?d \<le> length (buffer inp)" using h pos by linarith
    show thesis
    proof (cases "stream inp")
      case Nil
      let ?inp = "inp\<lparr>buffer := drop ?d (buffer inp), buf_start_pos := start_pos inp\<rparr>"
      have r: "read_char pos inp = (None, pos, ?inp)"
        using False Nil h(3) by (simp add: read_char_def stream_read_def Let_def)
      moreover have "\<not> pos < length text" using pos len Nil by simp
      moreover have "drop (start_pos inp) text = drop ?d (drop ?b text)" using h(3) by simp
      then have "input_holds text pos ?inp"
        using h d pos Nil len by (simp add: input_holds_def)
      ultimately show thesis using that [of ?inp] by simp
    next
      case (Cons data rest)
      let ?buf = "drop ?d (buffer inp) @ data"
      let ?inp = "inp\<lparr>buffer := ?buf, buf_start_pos := start_pos inp, stream := rest\<rparr>"
      have data: "data \<noteq> []" using h(6) Cons by auto
      have index: "?buf ! (pos - ?b - ?d) = data ! 0"
        using pos d by (simp add: nth_append)
      have "drop pos text = drop (length (buffer inp)) (drop ?b text)" using pos by (simp add: add.commute)
      also have "\<dots> = data @ concat rest" by (simp add: h(1) Cons)
      finally have "drop pos text = data @ concat rest" .
      then have less: "pos < length text" using data by (metis append_is_Nil_conv drop_eq_Nil2 not_le)
      have "text ! pos = data ! 0"
        using hd_drop_conv_nth [OF less] \<open>drop pos text = data @ concat rest\<close> data
        by (simp add: hd_conv_nth nth_append)
      note char = less this
      have r: "read_char pos inp = (Some (text ! pos), pos + 1, ?inp)"
        using False Cons data index h(3) char(2) by (simp add: read_char_def stream_read_def Let_def)
      have "drop (start_pos inp) text = drop ?d (drop ?b text)" using h(3) by simp
      then have "drop (start_pos inp) text = ?buf @ concat rest" using d by (simp add: h(1) Cons)
      then have "input_holds text (pos + 1) ?inp"
        using h d pos Cons len data by (simp add: input_holds_def Suc_le_eq)
      with r char(1) show thesis using that [of ?inp] by simp
    qed
  qed
qed

subsection \<open>The symbols of a text\<close>

text \<open>\<open>next_char\<close> on the text itself: what the symbols are, however the text is cut into
  chunks.\<close>

definition text_next :: "int list \<Rightarrow> scan_pos \<Rightarrow> scan_pos" where
  "text_next text p =
     (if input_state p = 1 then
        if next_pos p < length text then
          let p' = p\<lparr>cur_pos := next_pos p, next_pos := next_pos p + 1\<rparr>
          in if text ! next_pos p = nl_code then p'\<lparr>cur_char := EOL, input_state := 2\<rparr>
             else p'\<lparr>cur_char := KChar (text ! next_pos p)\<rparr>
        else p\<lparr>cur_pos := next_pos p, cur_char := EOL, input_state := 4\<rparr>
      else if input_state p = 2 then p\<lparr>cur_char := KChar nl_code, input_state := 3\<rparr>
      else if input_state p = 3 then
        p\<lparr>cur_line := cur_line p + 1, cur_line_start := int (next_pos p), cur_pos := next_pos p,
          cur_char := BOL, input_state := 1\<rparr>
      else if input_state p = 4 then p\<lparr>cur_char := EOF, input_state := 5\<rparr>
      else p\<lparr>cur_char := KSym []\<rparr>)"

lemma next_char_text:
  assumes "input_holds text (next_pos p) inp"
  obtains inp' where "next_char p inp = (text_next text p, inp')"
    "input_holds text (next_pos (text_next text p)) inp'" "start_pos inp' = start_pos inp"
proof (cases "input_state p = 1")
  case True
  obtain inp' where r: "read_char (next_pos p) inp = (if next_pos p < length text
      then (Some (text ! next_pos p), next_pos p + 1, inp') else (None, next_pos p, inp'))"
    "input_holds text (if next_pos p < length text then next_pos p + 1 else next_pos p) inp'"
    "start_pos inp' = start_pos inp"
    using read_char_spec [OF assms] .
  have "next_char p inp = (text_next text p, inp')"
    using True r(1) by (simp add: next_char_def text_next_def Let_def)
  moreover have "next_pos (text_next text p)
      = (if next_pos p < length text then next_pos p + 1 else next_pos p)"
    using True by (simp add: text_next_def Let_def)
  ultimately show thesis using that r(2,3) by simp
next
  case False
  have "next_char p inp = (text_next text p, inp)" "next_pos (text_next text p) = next_pos p"
    using False by (simp_all add: next_char_def text_next_def)
  then show thesis using that [of inp] assms by simp
qed

text \<open>How many symbols are left before the empty string.\<close>

definition symbols_left :: "int list \<Rightarrow> scan_pos \<Rightarrow> nat" where
  "symbols_left text p =
     (if cur_char p = KSym [] then 0
      else if input_state p = 1 then 3 * (length text - next_pos p) + 4
      else if input_state p = 2 then 3 * (length text - next_pos p) + 6
      else if input_state p = 3 then 3 * (length text - next_pos p) + 5
      else if input_state p = 4 then 2 else 1)"

lemma symbols_left_next:
  "cur_char p \<noteq> KSym [] \<Longrightarrow> symbols_left text (text_next text p) < symbols_left text p"
  by (auto simp: symbols_left_def text_next_def Let_def BOL_def EOL_def EOF_def)

lemma text_next_pos: "cur_pos p \<le> next_pos p \<Longrightarrow>
    cur_pos (text_next text p) \<le> next_pos (text_next text p)
    \<and> next_pos p \<le> next_pos (text_next text p) \<and> cur_pos p \<le> cur_pos (text_next text p)"
  by (simp add: text_next_def Let_def)

subsection \<open>The run of the machine\<close>

lemma scan_next_fast: "key \<noteq> KSym [] \<Longrightarrow> scan_next st key = fast_next st key"
  by (simp add: scan_next_def fast_next_def split: option.split)

lemma scan_next_empty: "fm_ok fm \<Longrightarrow> st \<in> set (fm_states fm) \<Longrightarrow> scan_next st (KSym []) = None"
  by (simp add: fm_ok_def scan_next_def)

lemma scan_next_target:
  "fm_ok fm \<Longrightarrow> st \<in> set (fm_states fm) \<Longrightarrow> input_ok key \<Longrightarrow> scan_next st key = Some target
   \<Longrightarrow> target \<in> {1..length (fm_states fm)}"
  by (cases "key = KSym []") (simp_all add: scan_next_empty scan_next_fast fm_ok_def)

text \<open>The symbol at a position of a text of code points.\<close>

definition symbol_ok :: "int list \<Rightarrow> scan_pos \<Rightarrow> bool" where
  "symbol_ok text p \<longleftrightarrow> list_all chr_ok text \<and> (input_ok (cur_char p) \<or> cur_char p = KSym [])"

lemma symbol_ok_next: "symbol_ok text p \<Longrightarrow> symbol_ok text (text_next text p)"
  by (auto simp: symbol_ok_def text_next_def Let_def input_ok_def BOL_def EOL_def EOF_def list_all_length
      chr_ok_def nl_code_def)

text \<open>The state and the position after \<open>n\<close> symbols, if the machine does not block before.\<close>

fun trace :: "int list \<Rightarrow> 'a FastMachine \<Rightarrow> nat \<times> scan_pos \<Rightarrow> nat \<Rightarrow> (nat \<times> scan_pos) option" where
  "trace text fm (s, p) 0 = Some (s, p)"
| "trace text fm (s, p) (Suc n) =
     (case scan_next (fm_state fm s) (cur_char p) of
        None \<Rightarrow> None | Some s' \<Rightarrow> trace text fm (s', text_next text p) n)"

definition blocked :: "'a FastMachine \<Rightarrow> nat \<times> scan_pos \<Rightarrow> bool" where
  "blocked fm sp \<longleftrightarrow> scan_next (fm_state fm (fst sp)) (cur_char (snd sp)) = None"

abbreviation action_at :: "'a FastMachine \<Rightarrow> nat \<times> scan_pos \<Rightarrow> 'a option" where
  "action_at fm sp \<equiv> fs_action (fm_state fm (fst sp))"

text \<open>The result of a run that blocks after \<open>n\<close> symbols: the last accepting state it went
  through decides.\<close>

definition longest ::
  "int list \<Rightarrow> 'a FastMachine \<Rightarrow> nat \<times> scan_pos \<Rightarrow> nat \<Rightarrow> 'a option \<times> scan_pos \<Rightarrow> bool" where
  "longest text fm sp n r \<longleftrightarrow>
     (\<exists>j \<le> n. \<exists>spj. trace text fm sp j = Some spj \<and> action_at fm spj \<noteq> None
        \<and> r = (action_at fm spj, snd spj)
        \<and> (\<forall>i spi. j < i \<and> i \<le> n \<and> trace text fm sp i = Some spi \<longrightarrow> action_at fm spi = None))"

definition never_accepts :: "int list \<Rightarrow> 'a FastMachine \<Rightarrow> nat \<times> scan_pos \<Rightarrow> nat \<Rightarrow> bool" where
  "never_accepts text fm sp n \<longleftrightarrow>
     (\<forall>i spi. i \<le> n \<and> trace text fm sp i = Some spi \<longrightarrow> action_at fm spi = None)"

lemma longest_Suc:
  assumes "scan_next (fm_state fm s) (cur_char p) = Some s'"
    and "longest text fm (s', text_next text p) n r"
  shows "longest text fm (s, p) (Suc n) r"
proof -
  obtain j spj where j: "j \<le> n" "trace text fm (s', text_next text p) j = Some spj"
    "action_at fm spj \<noteq> None" "r = (action_at fm spj, snd spj)"
    "\<And>i spi. j < i \<Longrightarrow> i \<le> n \<Longrightarrow> trace text fm (s', text_next text p) i = Some spi
       \<Longrightarrow> action_at fm spi = None"
    using assms(2) unfolding longest_def by blast
  show ?thesis
    unfolding longest_def
  proof (intro exI conjI allI impI)
    show "Suc j \<le> Suc n" "trace text fm (s, p) (Suc j) = Some spj" "action_at fm spj \<noteq> None"
      "r = (action_at fm spj, snd spj)"
      using j assms(1) by simp_all
    fix i spi assume i: "Suc j < i \<and> i \<le> Suc n \<and> trace text fm (s, p) i = Some spi"
    then obtain i' where "i = Suc i'" by (cases i) auto
    with i j(5) [of i' spi] assms(1) show "action_at fm spi = None" by simp
  qed
qed

lemma longest_now:
  assumes "scan_next (fm_state fm s) (cur_char p) = Some s'"
    and "never_accepts text fm (s', text_next text p) n"
    and "fs_action (fm_state fm s) = Some a"
  shows "longest text fm (s, p) (Suc n) (Some a, p)"
  unfolding longest_def
proof (intro exI conjI allI impI)
  show "0 \<le> Suc n" "trace text fm (s, p) 0 = Some (s, p)" "action_at fm (s, p) \<noteq> None"
    "(Some a, p) = (action_at fm (s, p), snd (s, p))"
    using assms(3) by simp_all
  fix i spi assume i: "0 < i \<and> i \<le> Suc n \<and> trace text fm (s, p) i = Some spi"
  then obtain i' where "i = Suc i'" by (cases i) auto
  with i assms(1) have "i' \<le> n \<and> trace text fm (s', text_next text p) i' = Some spi" by simp
  with assms(2) show "action_at fm spi = None" unfolding never_accepts_def by blast
qed

lemma never_accepts_Suc:
  assumes "scan_next (fm_state fm s) (cur_char p) = Some s'"
    and "never_accepts text fm (s', text_next text p) n"
    and "fs_action (fm_state fm s) = None"
  shows "never_accepts text fm (s, p) (Suc n)"
  unfolding never_accepts_def
proof (intro allI impI)
  fix i spi assume i: "i \<le> Suc n \<and> trace text fm (s, p) i = Some spi"
  show "action_at fm spi = None"
  proof (cases i)
    case 0
    with i assms(3) show ?thesis by auto
  next
    case (Suc i')
    with i assms(1) have "i' \<le> n \<and> trace text fm (s', text_next text p) i' = Some spi" by simp
    with assms(2) show ?thesis unfolding never_accepts_def by blast
  qed
qed

lemma run_loop_spec:
  assumes fm: "fm_ok fm"
  shows "s \<in> {1..length (fm_states fm)} \<Longrightarrow> symbol_ok text p \<Longrightarrow> input_holds text (next_pos p) inp
    \<Longrightarrow> \<exists>n spn r inp'. run_loop fm s p inp backup = Some (fst r, snd r, inp')
      \<and> trace text fm (s, p) n = Some spn \<and> blocked fm spn
      \<and> input_holds text (next_pos (snd spn)) inp' \<and> start_pos inp' = start_pos inp
      \<and> (longest text fm (s, p) n r
         \<or> never_accepts text fm (s, p) n
           \<and> r = (case backup of None \<Rightarrow> (None, snd spn) | Some (a, pb) \<Rightarrow> (Some a, pb)))"
proof (induction "symbols_left text p" arbitrary: s p inp backup rule: less_induct)
  case less
  let ?st = "fm_state fm s"
  let ?b = "case fs_action ?st of None \<Rightarrow> backup | Some action \<Rightarrow> Some (action, p)"
  have mem: "?st \<in> set (fm_states fm)" using less.prems(1) by (auto simp: fm_state_def)
  show ?case
  proof (cases "scan_next ?st (cur_char p)")
    case None
    let ?r = "case ?b of None \<Rightarrow> (None, p) | Some (a, pb) \<Rightarrow> (Some a, pb)"
    have run: "run_loop fm s p inp backup = Some (fst ?r, snd ?r, inp)"
      using None by (subst run_loop.simps) (auto simp: Let_def split: option.splits)
    have res: "longest text fm (s, p) 0 ?r \<or> never_accepts text fm (s, p) 0 \<and> ?r =
        (case backup of None \<Rightarrow> (None, p) | Some (a, pb) \<Rightarrow> (Some a, pb))"
      by (cases "fs_action ?st") (auto simp: longest_def never_accepts_def)
    show ?thesis
    proof (intro exI conjI)
      show "trace text fm (s, p) 0 = Some (s, p)" "blocked fm (s, p)"
        "input_holds text (next_pos (snd (s, p))) inp"
        using None less.prems(3) by (simp_all add: blocked_def)
      show "longest text fm (s, p) 0 ?r \<or> never_accepts text fm (s, p) 0 \<and> ?r =
          (case backup of None \<Rightarrow> (None, snd (s, p)) | Some (a, pb) \<Rightarrow> (Some a, pb))"
        using res unfolding snd_conv .
    qed (rule run refl)+
  next
    case (Some s')
    have char: "cur_char p \<noteq> KSym []" using scan_next_empty [OF fm mem] Some by auto
    then have dec: "symbols_left text (text_next text p) < symbols_left text p"
      by (rule symbols_left_next)
    have s': "s' \<in> {1..length (fm_states fm)}"
      using scan_next_target [OF fm mem _ Some] less.prems(2) char by (simp add: symbol_ok_def)
    obtain inp1 where inp1: "next_char p inp = (text_next text p, inp1)"
      "input_holds text (next_pos (text_next text p)) inp1" "start_pos inp1 = start_pos inp"
      using next_char_text [OF less.prems(3)] .
    from less.hyps [OF dec s' symbol_ok_next [OF less.prems(2)] inp1(2), of ?b] obtain n spn r inp' where
      r: "run_loop fm s' (text_next text p) inp1 ?b = Some (fst r, snd r, inp')"
      "trace text fm (s', text_next text p) n = Some spn" "blocked fm spn"
      "input_holds text (next_pos (snd spn)) inp'" "start_pos inp' = start_pos inp1"
      "longest text fm (s', text_next text p) n r
       \<or> never_accepts text fm (s', text_next text p) n
         \<and> r = (case ?b of None \<Rightarrow> (None, snd spn) | Some (a, pb) \<Rightarrow> (Some a, pb))" by blast
    have run: "run_loop fm s p inp backup = Some (fst r, snd r, inp')"
      using Some inp1(1) r(1) by (subst run_loop.simps) (simp add: Let_def)
    have "longest text fm (s, p) (Suc n) r
       \<or> never_accepts text fm (s, p) (Suc n)
         \<and> r = (case backup of None \<Rightarrow> (None, snd spn) | Some (a, pb) \<Rightarrow> (Some a, pb))"
      using r(6)
    proof
      assume "longest text fm (s', text_next text p) n r"
      then show ?thesis using longest_Suc [OF Some] by blast
    next
      assume na: "never_accepts text fm (s', text_next text p) n
        \<and> r = (case ?b of None \<Rightarrow> (None, snd spn) | Some (a, pb) \<Rightarrow> (Some a, pb))"
      show ?thesis
      proof (cases "fs_action ?st")
        case None
        with na never_accepts_Suc [OF Some] show ?thesis by simp
      next
        case (Some a)
        with na have "r = (Some a, p)" by simp
        with longest_now [OF \<open>scan_next ?st (cur_char p) = Some s'\<close> conjunct1 [OF na] Some]
        show ?thesis by (simp only: simp_thms)
      qed
    qed
    then show ?thesis
      using run r(2-5) Some inp1(3)
      by (intro exI [of _ "Suc n"] exI [of _ spn] exI [of _ r] exI [of _ inp']) simp
  qed
qed

subsection \<open>Tokens\<close>

lemma trace_add:
  "trace text fm sp (j + k) = (case trace text fm sp j of None \<Rightarrow> None | Some sp' \<Rightarrow> trace text fm sp' k)"
proof (induction j arbitrary: sp)
  case 0
  then show ?case by (cases sp) simp
next
  case (Suc j)
  then show ?case by (cases sp) (simp split: option.split)
qed

lemma trace_pos:
  "trace text fm sp k = Some sp' \<Longrightarrow> cur_pos (snd sp) \<le> next_pos (snd sp) \<Longrightarrow>
     cur_pos (snd sp) \<le> cur_pos (snd sp') \<and> cur_pos (snd sp') \<le> next_pos (snd sp')
     \<and> next_pos (snd sp) \<le> next_pos (snd sp')"
proof (induction k arbitrary: sp)
  case 0
  then show ?case by (cases sp) simp
next
  case (Suc k)
  obtain s p where sp: "sp = (s, p)" by (cases sp)
  obtain s' where "trace text fm (s', text_next text p) k = Some sp'"
    using Suc.prems(1) sp by (auto split: option.splits)
  from Suc.IH [OF this] text_next_pos [of p "text"] Suc.prems(2) sp show ?case by fastforce
qed

text \<open>A position at which the next token can be read: the current character is in the buffer.\<close>

definition ready :: "int list \<Rightarrow> scan_pos \<Rightarrow> scan_input \<Rightarrow> bool" where
  "ready text p inp \<longleftrightarrow>
     symbol_ok text p \<and> input_holds text (next_pos p) (inp\<lparr>start_pos := cur_pos p\<rparr>)"

lemma input_holds_position [simp]:
  "input_holds text pos (inp\<lparr>position := x\<rparr>) = input_holds text pos inp"
  by (simp add: input_holds_def)

lemma ready_init:
  "[] \<notin> set chunks \<Longrightarrow> list_all chr_ok (concat chunks)
   \<Longrightarrow> ready (concat chunks) scan_pos_init (scan_input_init chunks)"
  using input_holds_init [of chunks]
  by (simp add: ready_def scan_pos_init_def input_holds_def scan_input_init_def symbol_ok_def
      input_ok_def BOL_def)

lemma trace_symbol_ok:
  "trace text fm sp k = Some sp' \<Longrightarrow> symbol_ok text (snd sp) \<Longrightarrow> symbol_ok text (snd sp')"
proof (induction k arbitrary: sp)
  case 0
  then show ?case by (cases sp) simp
next
  case (Suc k)
  obtain s p where sp: "sp = (s, p)" by (cases sp)
  obtain s' where "trace text fm (s', text_next text p) k = Some sp'"
    using Suc.prems(1) sp by (auto split: option.splits)
  from Suc.IH [OF this] symbol_ok_next [of "text" p] Suc.prems(2) sp show ?case by simp
qed

definition blocks_after :: "int list \<Rightarrow> 'a FastMachine \<Rightarrow> nat \<times> scan_pos \<Rightarrow> nat \<Rightarrow> bool" where
  "blocks_after text fm sp n \<longleftrightarrow> (\<exists>spn. trace text fm sp n = Some spn \<and> blocked fm spn)"

lemma longest_slice:
  assumes holds: "input_holds text (next_pos (snd spn)) inp'"
    and n: "trace text fm (s, p) n = Some spn" and pos: "cur_pos p \<le> next_pos p"
    and char: "symbol_ok text p"
    and start: "start_pos inp' = cur_pos p" and longest: "longest text fm (s, p) n (Some a, p')"
  shows "take (cur_pos p' - start_pos inp') (drop (start_pos inp' - buf_start_pos inp') (buffer inp'))
      = take (cur_pos p' - cur_pos p) (drop (cur_pos p) text)"
    and "ready text p' inp'"
proof -
  obtain j spj where j: "j \<le> n" "trace text fm (s, p) j = Some spj" "p' = snd spj"
    using longest unfolding longest_def by auto
  have "trace text fm spj (n - j) = Some spn"
    using trace_add [of "text" fm "(s, p)" j "n - j"] j(1,2) n by simp
  then have le: "next_pos p' \<le> next_pos (snd spn)" "cur_pos p \<le> cur_pos p'" "cur_pos p' \<le> next_pos p'"
    using trace_pos [OF j(2)] trace_pos [of "text" fm spj "n - j" spn] pos j(3) by auto
  let ?b = "buf_start_pos inp'" and ?B = "buffer inp'" and ?R = "concat (stream inp')"
  have h: "drop ?b text = ?B @ ?R" "?b \<le> cur_pos p" "next_pos (snd spn) \<le> ?b + length ?B"
    "[] \<notin> set (stream inp')" "?b \<le> length text"
    using holds start by (simp_all add: input_holds_def)
  have "drop (cur_pos p) text = drop (cur_pos p - ?b) (?B @ ?R)"
    using h(2) by (simp flip: h(1))
  also have "\<dots> = drop (cur_pos p - ?b) ?B @ ?R"
    using le h(2,3) by simp
  finally have "drop (cur_pos p) text = drop (cur_pos p - ?b) ?B @ ?R" .
  then show "take (cur_pos p' - start_pos inp') (drop (start_pos inp' - ?b) ?B)
      = take (cur_pos p' - cur_pos p) (drop (cur_pos p) text)"
    using le h(2,3) by (simp add: start)
  show "ready text p' inp'"
    using h le trace_symbol_ok [OF j(2)] char j(3) by (simp add: ready_def input_holds_def)
qed

lemma scan_a_token_cases:
  assumes "fm_ok fm" and "s \<in> {1..length (fm_states fm)}" and "ready text p inp"
  shows "case scan_a_token fm s p inp of
      None \<Rightarrow> False
    | Some (Inl e) \<Rightarrow> \<exists>n. blocks_after text fm (s, p) n \<and> never_accepts text fm (s, p) n
    | Some (Inr ((token, None), p', inp')) \<Rightarrow>
        token = [] \<and> cur_pos p' = cur_pos p \<and> cur_char p' = EOF
        \<and> (\<exists>n. blocks_after text fm (s, p) n \<and> never_accepts text fm (s, p) n)
    | Some (Inr ((token, Some a), p', inp')) \<Rightarrow>
        (\<exists>n. blocks_after text fm (s, p) n \<and> longest text fm (s, p) n (Some a, p'))
        \<and> token = take (cur_pos p' - cur_pos p) (drop (cur_pos p) text)
        \<and> ready text p' inp'"
proof -
  let ?inp = "inp\<lparr>start_pos := cur_pos p, position := (cur_line p, int (cur_pos p) - cur_line_start p)\<rparr>"
  have holds: "input_holds text (next_pos p) ?inp" using assms(3) by (simp add: ready_def)
  have char: "symbol_ok text p" using assms(3) by (simp add: ready_def)
  have pos: "cur_pos p \<le> next_pos p" using holds by (simp add: input_holds_def)
  obtain n spn r inp' where r: "run_loop fm s p ?inp None = Some (fst r, snd r, inp')"
    "trace text fm (s, p) n = Some spn" "blocked fm spn"
    "input_holds text (next_pos (snd spn)) inp'" "start_pos inp' = cur_pos p"
    "longest text fm (s, p) n r \<or> never_accepts text fm (s, p) n \<and> r = (None, snd spn)"
    using run_loop_spec [OF assms(1,2) char holds, of None] by auto
  have blocks: "blocks_after text fm (s, p) n" using r(2,3) by (auto simp: blocks_after_def)
  show ?thesis
  proof (cases "fst r")
    case None
    then have "never_accepts text fm (s, p) n" using r(6) by (auto simp: longest_def)
    then show ?thesis
      using r(1,5) None blocks by (auto simp: scan_a_token_def run_machine_def Let_def)
  next
    case (Some a)
    then have longest: "longest text fm (s, p) n (Some a, snd r)"
      using r(6) by (cases r) auto
    note slice = longest_slice [OF r(4,2) pos char r(5) longest]
    show ?thesis
      using r(1) Some blocks longest slice
      by (auto simp: scan_a_token_def run_machine_def Let_def)
  qed
qed

text \<open>C40. Reading a token always ends. When some state on the way accepts, the result is the
  action of the last accepting state before the machine blocks, the position is the one after that
  longest match, the token is the text between the two positions, however the stream was cut into
  chunks, and the scanner is ready for the next token; otherwise it is the end of the file or an
  error.\<close>

theorem scan_a_token_longest:
  assumes "fm_ok fm" and "s \<in> {1..length (fm_states fm)}" and "ready text p inp"
  shows "case scan_a_token fm s p inp of
      None \<Rightarrow> False
    | Some (Inl e) \<Rightarrow> \<exists>n. blocks_after text fm (s, p) n \<and> never_accepts text fm (s, p) n
    | Some (Inr ((token, None), p', inp')) \<Rightarrow>
        token = [] \<and> cur_pos p' = cur_pos p \<and> cur_char p' = EOF
        \<and> (\<exists>n. blocks_after text fm (s, p) n \<and> never_accepts text fm (s, p) n)
    | Some (Inr ((token, Some a), p', inp')) \<Rightarrow>
        (\<exists>n. blocks_after text fm (s, p) n \<and> longest text fm (s, p) n (Some a, p'))
        \<and> token = take (cur_pos p' - cur_pos p) (drop (cur_pos p) text)
        \<and> ready text p' inp'"
  using scan_a_token_cases [OF assms] .

text \<open>A machine of two states that reads a line start and an \<open>a\<close>.\<close>

definition example_scanner :: "nat FastMachine" where
  "example_scanner =
     \<lparr>fm_initial_states = [([], 1)],
      fm_states =
        [\<lparr>fs_keys = [(KSym [], None), (KSym ''bol'', Some 1), (KChar 97, Some 2)],
          fs_number = 1, fs_action = None\<rparr>,
         \<lparr>fs_keys = [(KSym [], None), (KChar 97, Some 2)], fs_number = 2, fs_action = Some 7\<rparr>],
      fm_next_number = 3\<rparr>"

lemma example_scanner_ok: "fm_ok example_scanner"
  by (auto simp: example_scanner_def fm_ok_def fast_next_def split: option.splits if_splits)

lemma scan_a_token_longest_witness:
  "scan_a_token example_scanner 1 scan_pos_init (scan_input_init [[97], [97, 98]]) \<noteq> None"
proof -
  have "ready [97, 97, 98] scan_pos_init (scan_input_init [[97], [97, 98]])"
    using ready_init [of "[[97], [97, 98]]"] by (simp add: chr_ok_def)
  then show ?thesis
    using scan_a_token_longest [OF example_scanner_ok, of 1 "[97, 97, 98]"]
    by (fastforce simp: example_scanner_def split: option.splits)
qed

end
