(* ===== verification/PlexLexer.thy ===== *)
theory PlexLexer
  imports PlexLexicon PlexScanner
begin

text \<open>
  The lexical analyser as a whole: a specification given to \<open>Lexicon\<close>, the machine it builds, and
  the scanner that runs it.
\<close>

subsection \<open>The symbols from a position on\<close>

fun symbols_from :: "int list \<Rightarrow> scan_pos \<Rightarrow> nat \<Rightarrow> dict_key list" where
  "symbols_from text p 0 = []"
| "symbols_from text p (Suc n) = cur_char p # symbols_from text (text_next text p) n"

fun position_after :: "int list \<Rightarrow> scan_pos \<Rightarrow> nat \<Rightarrow> scan_pos" where
  "position_after text p 0 = p"
| "position_after text p (Suc n) = position_after text (text_next text p) n"

text \<open>A number of symbols that does not go past the end of the file.\<close>

definition within :: "int list \<Rightarrow> scan_pos \<Rightarrow> nat \<Rightarrow> bool" where
  "within text p n \<longleftrightarrow> list_all input_ok (symbols_from text p n)"

lemma fm_state_mem: "s \<in> {1..length (fm_states fm)} \<Longrightarrow> fm_state fm s \<in> set (fm_states fm)"
  by (auto simp: fm_state_def)

lemma fast_next_empty: "fm_ok fm \<Longrightarrow> st \<in> set (fm_states fm) \<Longrightarrow> fast_next st (KSym []) = None"
  by (simp add: fm_ok_def fast_next_def)

lemma trace_run:
  assumes fm: "fm_ok fm"
  shows "s \<in> {1..length (fm_states fm)} \<Longrightarrow> symbol_ok text p \<Longrightarrow>
    trace text fm (s, p) n =
      (case fm_run fm s (symbols_from text p n) of
         None \<Rightarrow> None | Some s' \<Rightarrow> Some (s', position_after text p n))
    \<and> (trace text fm (s, p) n \<noteq> None \<longrightarrow> within text p n)"
proof (induction n arbitrary: s p)
  case 0
  then show ?case by (simp add: within_def)
next
  case (Suc n)
  let ?st = "fm_state fm s"
  have st: "?st \<in> set (fm_states fm)" by (rule fm_state_mem [OF Suc.prems(1)])
  show ?case
  proof (cases "cur_char p = KSym []")
    case True
    then show ?thesis by (simp add: scan_next_empty [OF fm st] fast_next_empty [OF fm st])
  next
    case False
    then have key: "input_ok (cur_char p)" using Suc.prems(2) by (simp add: symbol_ok_def)
    show ?thesis
    proof (cases "fast_next ?st (cur_char p)")
      case None
      then show ?thesis by (simp add: scan_next_fast [OF False])
    next
      case (Some s')
      then have "s' \<in> {1..length (fm_states fm)}"
        using scan_next_target [OF fm st key, of s'] by (simp add: scan_next_fast [OF False])
      from Suc.IH [OF this symbol_ok_next [OF Suc.prems(2)]] Some key show ?thesis
        by (auto simp: scan_next_fast [OF False] within_def split: option.splits)
    qed
  qed
qed

lemma fm_action_run:
  "dict_get (fm_initial_states fm) name = Some s \<Longrightarrow>
     fm_action fm name w = (case fm_run fm s w of None \<Rightarrow> None | Some n \<Rightarrow> fs_action (fm_state fm n))"
  by (simp add: fm_action_def)

text \<open>The action after \<open>n\<close> symbols.\<close>

lemma trace_action:
  assumes "fm_ok fm" and name: "dict_get (fm_initial_states fm) name = Some s" and "symbol_ok text p"
  shows "fm_action fm name (symbols_from text p n) =
    (case trace text fm (s, p) n of None \<Rightarrow> None | Some sp \<Rightarrow> action_at fm sp)"
proof -
  have "s \<in> {1..length (fm_states fm)}" using assms(1) name by (simp add: fm_ok_def)
  from trace_run [OF assms(1) this assms(3), of n] fm_action_run [OF name, of "symbols_from text p n"]
  show ?thesis by (auto split: option.splits)
qed

lemma blocked_after:
  assumes "blocks_after text fm sp n" and "n < k"
  shows "trace text fm sp k = None"
proof -
  obtain s p where n: "trace text fm sp n = Some (s, p)" "scan_next (fm_state fm s) (cur_char p) = None"
    using assms(1) by (auto simp: blocks_after_def blocked_def)
  have "trace text fm (s, p) (Suc j) = None" for j using n(2) by simp
  then have "trace text fm (s, p) (k - n) = None" using assms(2) by (cases "k - n") auto
  with trace_add [of "text" fm sp n "k - n"] n(1) assms(2) show ?thesis by simp
qed

subsection \<open>The analyser\<close>

lemma scan_lexicon_spec:
  assumes "specs_ok specs" and "lexicon_init (Some specs) = Some (Inr fm)"
    and "dict_get (fm_initial_states fm) name = Some s" and "ready text p inp"
  shows "case scan_a_token fm s p inp of
      Some (Inr ((token, Some action), p', inp')) \<Rightarrow>
        (\<exists>n. within text p n \<and> p' = position_after text p n
           \<and> first_match (state_tokens name specs) (symbols_from text p n) = Some action
           \<and> (\<forall>k > n. within text p k
                \<longrightarrow> first_match (state_tokens name specs) (symbols_from text p k) = None))
        \<and> token = take (cur_pos p' - cur_pos p) (drop (cur_pos p) text)
        \<and> ready text p' inp'
    | Some r \<Rightarrow> \<forall>k. within text p k \<longrightarrow> first_match (state_tokens name specs) (symbols_from text p k) = None
    | None \<Rightarrow> False"
proof -
  obtain nfa where nfa: "machine_ok nfa" "nfa_to_dfa nfa = Some (Inr fm)"
    "\<And>name w. list_all input_ok w \<Longrightarrow> fm_action fm name w = first_match (state_tokens name specs) w"
    using lexicon_init_spec [OF assms(1)] assms(2) by (metis option.inject sum.inject(2))
  then have fm: "fm_ok fm" using nfa_to_dfa_actions [OF nfa(1)] by auto
  have s: "s \<in> {1..length (fm_states fm)}" using fm assms(3) by (simp add: fm_ok_def)
  have char: "symbol_ok text p" using assms(4) by (simp add: ready_def)
  have match: "first_match (state_tokens name specs) (symbols_from text p k) =
      (case trace text fm (s, p) k of None \<Rightarrow> None | Some sp \<Rightarrow> action_at fm sp)" if "within text p k" for k
    using nfa(3) [of "symbols_from text p k" name] trace_action [OF fm assms(3) char, of k] that
    by (simp add: within_def)
  have never: "\<forall>k. within text p k \<longrightarrow> first_match (state_tokens name specs) (symbols_from text p k) = None"
    if "blocks_after text fm (s, p) n" "never_accepts text fm (s, p) n" for n
  proof (intro allI impI)
    fix k assume k: "within text p k"
    show "first_match (state_tokens name specs) (symbols_from text p k) = None"
    proof (cases "k \<le> n")
      case True
      then show ?thesis
        using match [OF k] that(2) unfolding never_accepts_def by (auto split: option.splits)
    qed (use match [OF k] blocked_after [OF that(1), of k] in simp)
  qed
  have accept: "\<exists>j. within text p j \<and> p' = position_after text p j
       \<and> first_match (state_tokens name specs) (symbols_from text p j) = Some a
       \<and> (\<forall>k > j. within text p k \<longrightarrow> first_match (state_tokens name specs) (symbols_from text p k) = None)"
    if n: "blocks_after text fm (s, p) n" "longest text fm (s, p) n (Some a, p')" for n a p'
  proof -
    obtain j sp where j: "j \<le> n" "trace text fm (s, p) j = Some sp" "Some a = action_at fm sp" "p' = snd sp"
      "\<And>i spi. j < i \<Longrightarrow> i \<le> n \<Longrightarrow> trace text fm (s, p) i = Some spi \<Longrightarrow> action_at fm spi = None"
      using n(2) unfolding longest_def prod.inject by blast
    have w: "within text p j" "p' = position_after text p j"
      using trace_run [OF fm s char, of j] j(2,4) by (auto split: option.splits)
    moreover have "first_match (state_tokens name specs) (symbols_from text p k) = None"
      if k: "j < k" "within text p k" for k
    proof (cases "k \<le> n")
      case True
      then show ?thesis using match [OF k(2)] j(5) [OF k(1)] by (auto split: option.splits)
    qed (use match [OF k(2)] blocked_after [OF n(1), of k] in simp)
    ultimately show ?thesis using match [OF w(1)] j(2,3) by auto
  qed
  show ?thesis
    using scan_a_token_cases [OF fm s assms(4)] never accept
    by (auto split: option.splits sum.splits)
qed

text \<open>C30. The lexical analyser: for every well-formed specification, in every scanner state and at
  every position where a token can start, the scanner of the lexicon returns the longest sequence of
  symbols that some token of that state matches, the action of the first token in the specification
  that matches it, the text it spans and the position after it; when no token matches any
  sequence, it returns the end of the file or an error.\<close>

theorem scan_lexicon:
  assumes "specs_ok specs" and "lexicon_init (Some specs) = Some (Inr fm)"
    and "dict_get (fm_initial_states fm) name = Some s" and "ready text p inp"
  shows "case scan_a_token fm s p inp of
      Some (Inr ((token, Some action), p', inp')) \<Rightarrow>
        (\<exists>n. within text p n \<and> p' = position_after text p n
           \<and> first_match (state_tokens name specs) (symbols_from text p n) = Some action
           \<and> (\<forall>k > n. within text p k
                \<longrightarrow> first_match (state_tokens name specs) (symbols_from text p k) = None))
        \<and> token = take (cur_pos p' - cur_pos p) (drop (cur_pos p) text)
        \<and> ready text p' inp'
    | Some r \<Rightarrow> \<forall>k. within text p k \<longrightarrow> first_match (state_tokens name specs) (symbols_from text p k) = None
    | None \<Rightarrow> False"
  by (rule scan_lexicon_spec [OF assms])

lemma scan_lexicon_witness:
  "\<exists>fm s. lexicon_init (Some example_specs) = Some (Inr fm) \<and> dict_get (fm_initial_states fm) [] = Some s
     \<and> scan_a_token fm s scan_pos_init (scan_input_init [[97], [98]]) \<noteq> None"
proof -
  obtain fm nfa where fm: "lexicon_init (Some example_specs) = Some (Inr fm)" "machine_ok nfa"
    "nfa_to_dfa nfa = Some (Inr fm)" "dict_get (initial_states nfa) [] \<noteq> None"
    using lexicon_init_spec [OF example_specs_ok] by metis
  then have "\<forall>name. (dict_get (fm_initial_states fm) name = None) = (dict_get (initial_states nfa) name = None)"
    using nfa_to_dfa_actions [OF fm(2)] by auto
  then obtain s where s: "dict_get (fm_initial_states fm) [] = Some s"
    using fm(4) by (metis not_None_eq)
  have "ready [97, 98] scan_pos_init (scan_input_init [[97], [98]])"
    using ready_init [of "[[97], [98]]"] by (simp add: chr_ok_def)
  from scan_lexicon [OF example_specs_ok fm(1) s this] fm(1) s show ?thesis
    by (auto split: option.splits)
qed

end
