(* ===== verification/PlexScanning.thy ===== *)
theory PlexScanning
  imports PlexLexer
begin

text \<open>
  The token queue of \<open>Cython/Plex/Scanners.py\<close> and the \<open>perform\<close> methods of \<open>Actions.py\<close>. A token
  value is a Python string or \<open>None\<close>; a string is the list of its codes. An operation returns the
  exception it raises, or its value, with the scanner it leaves behind. A subclass of \<open>Scanner\<close>
  extends the record \<open>scanner\<close> and passes its methods to \<open>perform\<close>.
\<close>

definition codes :: "string \<Rightarrow> int list" where
  "codes s = map of_char s"

datatype scan_exn =
    KeyError
  | IndexError
  | TypeError
  | AssertionError
  | AttributeError
  | UnrecognizedToken scan_error
  | CompileError "nat \<times> int" "int list"

type_synonym ('a, 's) outcome = "scan_exn \<times> 's + 'a \<times> 's"

definition and_then :: "('a, 's) outcome \<Rightarrow> ('a \<Rightarrow> 's \<Rightarrow> ('b, 's) outcome) \<Rightarrow> ('b, 's) outcome" where
  "and_then r f = (case r of Inl (e, s) \<Rightarrow> Inl (e, s) | Inr (a, s) \<Rightarrow> f a s)"

lemma and_then_simps [simp]: "and_then (Inl (e, s)) f = Inl (e, s)" "and_then (Inr (a, s)) f = f a s"
  by (simp_all add: and_then_def)

type_synonym token = "(int list option \<times> int list) \<times> (nat \<times> int)"

text \<open>\<open>text\<close> is set before any token is produced; \<open>queue\<close> has the tokens with their positions.\<close>

record scanner =
  sc_pos :: scan_pos
  sc_input :: scan_input
  sc_text :: "int list"
  sc_state_name :: string
  sc_initial_state :: nat
  sc_queue :: "token list"
  sc_last_pos :: "nat \<times> int"

definition get_current_scan_pos :: "('s) scanner_scheme \<Rightarrow> nat \<times> int" where
  "get_current_scan_pos s = position (sc_input s)"

definition begin_state :: "'a FastMachine \<Rightarrow> string \<Rightarrow> 's scanner_scheme \<Rightarrow> (unit, 's scanner_scheme) outcome" where
  "begin_state fm name s =
     (case dict_get (fm_initial_states fm) name of
        None \<Rightarrow> Inl (KeyError, s)
      | Some n \<Rightarrow> Inr ((), s\<lparr>sc_initial_state := n, sc_state_name := name\<rparr>))"

text \<open>\<open>produce(value)\<close> and \<open>produce(value, text)\<close>.\<close>

definition produce_text :: "int list option \<Rightarrow> int list \<Rightarrow> 's scanner_scheme \<Rightarrow> 's scanner_scheme" where
  "produce_text v t s = s\<lparr>sc_queue := sc_queue s @ [((v, t), get_current_scan_pos s)]\<rparr>"

definition produce :: "int list option \<Rightarrow> 's scanner_scheme \<Rightarrow> 's scanner_scheme" where
  "produce v s = produce_text v (sc_text s) s"

definition unread :: "int list option \<Rightarrow> int list \<Rightarrow> nat \<times> int \<Rightarrow> 's scanner_scheme \<Rightarrow> 's scanner_scheme" where
  "unread v t pos s = s\<lparr>sc_queue := ((v, t), pos) # sc_queue s\<rparr>"

text \<open>\<open>Action.perform\<close> of the classes; \<open>call\<close> calls a function, \<open>invoke\<close> looks a method up by its name
  and calls it with keyword arguments, \<open>begin_in\<close> is the method \<open>begin\<close>.\<close>

definition perform ::
  "('v \<Rightarrow> int list) \<Rightarrow> ('f \<Rightarrow> int list \<Rightarrow> 's \<Rightarrow> (int list option, 's) outcome)
   \<Rightarrow> (string \<Rightarrow> (string, 'v) pydict \<Rightarrow> int list \<Rightarrow> 's \<Rightarrow> (int list option, 's) outcome)
   \<Rightarrow> (string \<Rightarrow> 's \<Rightarrow> (unit, 's) outcome)
   \<Rightarrow> ('v, 'f) Action \<Rightarrow> int list \<Rightarrow> 's \<Rightarrow> (int list option, 's) outcome" where
  "perform val call invoke begin_in action t s =
     (case action of
        ReturnAction v \<Rightarrow> Inr (Some (val v), s)
      | CallAction f \<Rightarrow> call f t s
      | MethodAction name kwargs \<Rightarrow> invoke name kwargs t s
      | Begin name \<Rightarrow> and_then (begin_in name s) (\<lambda>_ s. Inr (None, s))
      | IGNORE \<Rightarrow> Inr (None, s)
      | TEXT \<Rightarrow> Inr (Some t, s))"

text \<open>The variables of the scanner after a run that found no token.\<close>

definition scan_failed :: "'a FastMachine \<Rightarrow> 's scanner_scheme \<Rightarrow> 's scanner_scheme" where
  "scan_failed fm s =
     (case run_machine fm (sc_initial_state s) (sc_pos s)
         ((sc_input s)\<lparr>start_pos := cur_pos (sc_pos s),
            position := (cur_line (sc_pos s), int (cur_pos (sc_pos s)) - cur_line_start (sc_pos s))\<rparr>) of
        None \<Rightarrow> s
      | Some (_, p, inp) \<Rightarrow> s\<lparr>sc_pos := p, sc_input := inp\<rparr>)"

text \<open>One round of the loop of \<open>read\<close>: a token is scanned and its action performed.\<close>

definition read_step ::
  "'a FastMachine \<Rightarrow> ('a \<Rightarrow> int list \<Rightarrow> 's scanner_scheme \<Rightarrow> (int list option, 's scanner_scheme) outcome)
   \<Rightarrow> 's scanner_scheme \<Rightarrow> (unit, 's scanner_scheme) outcome option" where
  "read_step fm act s =
     (case scan_a_token fm (sc_initial_state s) (sc_pos s) (sc_input s) of
        None \<Rightarrow> None
      | Some (Inl e) \<Rightarrow> Some (Inl (UnrecognizedToken e, scan_failed fm s))
      | Some (Inr ((t, action), p, inp)) \<Rightarrow>
          let s = s\<lparr>sc_pos := p, sc_input := inp, sc_text := t\<rparr> in
          Some (case action of
                  None \<Rightarrow> Inr ((), produce None s)
                | Some a \<Rightarrow>
                    and_then (act a t s) (\<lambda>v s. Inr ((), if v \<noteq> None then produce v s else s))))"

partial_function (option) fill_queue ::
  "'a FastMachine \<Rightarrow> ('a \<Rightarrow> int list \<Rightarrow> 's scanner_scheme \<Rightarrow> (int list option, 's scanner_scheme) outcome)
   \<Rightarrow> 's scanner_scheme \<Rightarrow> (unit, 's scanner_scheme) outcome option" where
  "fill_queue fm act s =
     (if sc_queue s \<noteq> [] then Some (Inr ((), s))
      else case read_step fm act s of
             None \<Rightarrow> None
           | Some (Inl e) \<Rightarrow> Some (Inl e)
           | Some (Inr (_, s)) \<Rightarrow> fill_queue fm act s)"

declare fill_queue.simps [code]

definition read_token ::
  "'a FastMachine \<Rightarrow> ('a \<Rightarrow> int list \<Rightarrow> 's scanner_scheme \<Rightarrow> (int list option, 's scanner_scheme) outcome)
   \<Rightarrow> 's scanner_scheme \<Rightarrow> (int list option \<times> int list, 's scanner_scheme) outcome option" where
  "read_token fm act s =
     map_option (\<lambda>r. and_then r (\<lambda>_ s.
         Inr (fst (hd (sc_queue s)), s\<lparr>sc_last_pos := snd (hd (sc_queue s)), sc_queue := tl (sc_queue s)\<rparr>)))
       (fill_queue fm act s)"

subsection \<open>Progress\<close>

text \<open>The characters of a token are those of the symbols the match went over.\<close>

definition char_at :: "int list \<Rightarrow> scan_pos \<Rightarrow> bool" where
  "char_at text p \<longleftrightarrow>
     (case cur_char p of
        KChar c \<Rightarrow> cur_pos p < length text \<and> text ! cur_pos p = c \<and> next_pos p = cur_pos p + 1
          \<and> input_state p \<in> {1, 3} \<and> (input_state p = 3 \<longrightarrow> c = nl_code)
      | KSym s \<Rightarrow>
          (input_state p = 2 \<and> KSym s = EOL \<and> next_pos p = cur_pos p + 1 \<and> cur_pos p < length text
             \<and> text ! cur_pos p = nl_code)
          \<or> (input_state p = 1 \<and> KSym s = BOL \<and> next_pos p = cur_pos p)
          \<or> (input_state p \<in> {4, 5} \<and> next_pos p = cur_pos p \<and> length text \<le> cur_pos p))"

lemma char_at_init: "char_at text scan_pos_init"
  by (simp add: char_at_def scan_pos_init_def BOL_def)

lemma char_at_next: "char_at text p \<Longrightarrow> char_at text (text_next text p)"
  by (cases "cur_char p") (auto simp: char_at_def text_next_def Let_def BOL_def EOL_def EOF_def)

lemma char_at_step:
  assumes "char_at text p"
  shows "drop (cur_pos p) text = chars_of [cur_char p] @ drop (cur_pos (text_next text p)) text
    \<and> cur_pos (text_next text p) = cur_pos p + length (chars_of [cur_char p])"
proof (cases "cur_char p")
  case (KChar c)
  then have k: "cur_pos p < length text" "text ! cur_pos p = c" "next_pos p = cur_pos p + 1" "input_state p \<in> {1, 3}"
    using assms by (simp_all add: char_at_def)
  then have "cur_pos (text_next text p) = cur_pos p + 1" by (auto simp: text_next_def Let_def)
  then show ?thesis using Cons_nth_drop_Suc [OF k(1)] k(2) KChar by simp
next
  case (KSym e)
  then have "cur_pos (text_next text p) = cur_pos p"
    using assms by (auto simp: char_at_def text_next_def Let_def)
  then show ?thesis using KSym by simp
qed

lemma position_chars:
  "char_at text p \<Longrightarrow> drop (cur_pos p) text
       = chars_of (symbols_from text p n) @ drop (cur_pos (position_after text p n)) text
     \<and> cur_pos (position_after text p n) = cur_pos p + length (chars_of (symbols_from text p n))
     \<and> char_at text (position_after text p n)"
proof (induction n arbitrary: p)
  case (Suc n)
  have c: "chars_of (cur_char p # w) = chars_of [cur_char p] @ chars_of w" for w
    by (cases "cur_char p") auto
  show ?case
    using Suc.IH [OF char_at_next [OF Suc.prems]] char_at_step [OF Suc.prems]
      c [of "symbols_from text (text_next text p) n"] by simp
qed simp

lemma token_chars:
  assumes "char_at text p" and "p' = position_after text p n"
  shows "take (cur_pos p' - cur_pos p) (drop (cur_pos p) text) = chars_of (symbols_from text p n)"
  using position_chars [OF assms(1), of n] assms(2) by simp

lemma symbols_left_after:
  "within text p n \<Longrightarrow> 0 < n \<Longrightarrow> symbols_left text (position_after text p n) < symbols_left text p"
proof (induction n arbitrary: p)
  case (Suc n)
  have "input_ok (cur_char p)" and w: "within text (text_next text p) n"
    using Suc.prems(1) by (simp_all add: within_def)
  then have "cur_char p \<noteq> KSym []" by (auto simp: input_ok_def)
  note less = symbols_left_next [OF this, of "text"]
  show ?case using Suc.IH [OF w] less by (cases n) auto
qed simp

text \<open>Where the scanner stops when the end of the file is all it finds.\<close>

lemma scan_nothing:
  assumes fm: "fm_ok fm" and s: "s \<in> {1..length (fm_states fm)}" and ready: "ready text p inp"
    and scan: "scan_a_token fm s p inp = Some (Inr ((t, None), p', inp'))"
  obtains n where "p' = position_after text p n" "within text p n" "ready text p' inp'" "cur_char p' = EOF"
proof -
  let ?inp = "inp\<lparr>start_pos := cur_pos p, position := (cur_line p, int (cur_pos p) - cur_line_start p)\<rparr>"
  have holds: "input_holds text (next_pos p) ?inp" and char: "symbol_ok text p"
    using ready by (simp_all add: ready_def)
  have pos: "cur_pos p \<le> next_pos p" using holds by (simp add: input_holds_def)
  obtain n spn r inp'' where r: "run_loop fm s p ?inp None = Some (fst r, snd r, inp'')"
    "trace text fm (s, p) n = Some spn" "input_holds text (next_pos (snd spn)) inp''"
    "start_pos inp'' = cur_pos p"
    "longest text fm (s, p) n r \<or> never_accepts text fm (s, p) n \<and> r = (None, snd spn)"
    using run_loop_spec [OF fm s char holds, of None] by auto
  have "fst r = None" "p' = snd r" "inp' = inp''" "cur_char p' = EOF"
    using scan r(1) by (auto simp: scan_a_token_def run_machine_def Let_def split: option.splits if_splits)
  moreover from this r(5) have spn: "snd r = snd spn" by (auto simp: longest_def)
  moreover have "snd spn = position_after text p n" "within text p n"
    using trace_run [OF fm s char, of n] r(2) by (auto split: option.splits)
  moreover have "ready text (snd spn) inp''"
    using r(3,4) trace_pos [OF r(2)] pos trace_symbol_ok [OF r(2)] char
    by (simp add: ready_def input_holds_def)
  ultimately show thesis using that [of n] by simp
qed

text \<open>A pattern that matches the end of the file, for every scanner state.\<close>

lemma first_match_Some: "first_match tokens w = Some a \<Longrightarrow> \<exists>re. (re, a) \<in> set tokens \<and> w \<in> lang True False re"
  by (auto simp: first_match_def dest!: find_Some_mem split: option.splits prod.splits)

lemma first_match_None: "first_match tokens w = None \<Longrightarrow> (re, a) \<in> set tokens \<Longrightarrow> w \<notin> lang True False re"
  by (force simp: first_match_def find_None_iff split: option.splits)

end
