(* ===== verification/UnicodeTables.thy ===== *)
theory UnicodeTables
  imports PlexRegexps
begin

text \<open>
  The generated block of \<open>Cython/Compiler/Lexicon.py\<close>: the characters that may start and continue an
  identifier, single ones and the ends of ranges.
\<close>

definition unicode_start_ch_any :: "int list" where
  "unicode_start_ch_any = [
    95, 170, 181, 186, 748, 750, 895, 902, 908, 1369, 1749, 1791, 1808, 1969, 2042, 2074, 2084,
    2088, 2365, 2384, 2482, 2493, 2510, 2556, 2654, 2749, 2768, 2809, 2877, 2929, 2947, 2972, 3024,
    3133, 3200, 3261, 3389, 3406, 3517, 3634, 3716, 3749, 3762, 3773, 3782, 3840, 4159, 4193, 4238,
    4295, 4301, 4696, 4800, 6103, 6108, 6314, 6823, 7418, 8025, 8027, 8029, 8126, 8305, 8319, 8450,
    8455, 8469, 8484, 8486, 8488, 8526, 11559, 11565, 11631, 43259, 43471, 43642, 43697, 43712,
    43714, 64285, 64318, 65137, 65139, 65143, 65145, 65147, 65149, 67592, 67644, 68096, 69415,
    69749, 69956, 69959, 70006, 70106, 70108, 70280, 70461, 70480, 70539, 70542, 70583, 70609,
    70611, 70855, 71236, 71352, 71945, 71999, 72001, 72161, 72163, 72192, 72250, 72272, 72349,
    72768, 73030, 73112, 73474, 73648, 94032, 94179, 110898, 110933, 119970, 119995, 120134,
    123214, 124400, 125259, 126500, 126503, 126521, 126523, 126530, 126535, 126537, 126539, 126548,
    126551, 126553, 126555, 126557, 126559, 126564, 126590]"

definition unicode_start_ch_range :: "int list" where
  "unicode_start_ch_range = [
    65, 90, 97, 122, 192, 214, 216, 246, 248, 705, 710, 721, 736, 740, 880, 884, 886, 887, 891,
    893, 904, 906, 910, 929, 931, 1013, 1015, 1153, 1162, 1327, 1329, 1366, 1376, 1416, 1488, 1514,
    1519, 1522, 1568, 1610, 1646, 1647, 1649, 1747, 1765, 1766, 1774, 1775, 1786, 1788, 1810, 1839,
    1869, 1957, 1994, 2026, 2036, 2037, 2048, 2069, 2112, 2136, 2144, 2154, 2160, 2183, 2185, 2191,
    2208, 2249, 2308, 2361, 2392, 2401, 2417, 2432, 2437, 2444, 2447, 2448, 2451, 2472, 2474, 2480,
    2486, 2489, 2524, 2525, 2527, 2529, 2544, 2545, 2565, 2570, 2575, 2576, 2579, 2600, 2602, 2608,
    2610, 2611, 2613, 2614, 2616, 2617, 2649, 2652, 2674, 2676, 2693, 2701, 2703, 2705, 2707, 2728,
    2730, 2736, 2738, 2739, 2741, 2745, 2784, 2785, 2821, 2828, 2831, 2832, 2835, 2856, 2858, 2864,
    2866, 2867, 2869, 2873, 2908, 2909, 2911, 2913, 2949, 2954, 2958, 2960, 2962, 2965, 2969, 2970,
    2974, 2975, 2979, 2980, 2984, 2986, 2990, 3001, 3077, 3084, 3086, 3088, 3090, 3112, 3114, 3129,
    3160, 3162, 3164, 3165, 3168, 3169, 3205, 3212, 3214, 3216, 3218, 3240, 3242, 3251, 3253, 3257,
    3292, 3294, 3296, 3297, 3313, 3314, 3332, 3340, 3342, 3344, 3346, 3386, 3412, 3414, 3423, 3425,
    3450, 3455, 3461, 3478, 3482, 3505, 3507, 3515, 3520, 3526, 3585, 3632, 3648, 3654, 3713, 3714,
    3718, 3722, 3724, 3747, 3751, 3760, 3776, 3780, 3804, 3807, 3904, 3911, 3913, 3948, 3976, 3980,
    4096, 4138, 4176, 4181, 4186, 4189, 4197, 4198, 4206, 4208, 4213, 4225, 4256, 4293, 4304, 4346,
    4348, 4680, 4682, 4685, 4688, 4694, 4698, 4701, 4704, 4744, 4746, 4749, 4752, 4784, 4786, 4789,
    4792, 4798, 4802, 4805, 4808, 4822, 4824, 4880, 4882, 4885, 4888, 4954, 4992, 5007, 5024, 5109,
    5112, 5117, 5121, 5740, 5743, 5759, 5761, 5786, 5792, 5866, 5870, 5880, 5888, 5905, 5919, 5937,
    5952, 5969, 5984, 5996, 5998, 6000, 6016, 6067, 6176, 6264, 6272, 6312, 6320, 6389, 6400, 6430,
    6480, 6509, 6512, 6516, 6528, 6571, 6576, 6601, 6656, 6678, 6688, 6740, 6917, 6963, 6981, 6988,
    7043, 7072, 7086, 7087, 7098, 7141, 7168, 7203, 7245, 7247, 7258, 7293, 7296, 7306, 7312, 7354,
    7357, 7359, 7401, 7404, 7406, 7411, 7413, 7414, 7424, 7615, 7680, 7957, 7960, 7965, 7968, 8005,
    8008, 8013, 8016, 8023, 8031, 8061, 8064, 8116, 8118, 8124, 8130, 8132, 8134, 8140, 8144, 8147,
    8150, 8155, 8160, 8172, 8178, 8180, 8182, 8188, 8336, 8348, 8458, 8467, 8472, 8477, 8490, 8505,
    8508, 8511, 8517, 8521, 8544, 8584, 11264, 11492, 11499, 11502, 11506, 11507, 11520, 11557,
    11568, 11623, 11648, 11670, 11680, 11686, 11688, 11694, 11696, 11702, 11704, 11710, 11712,
    11718, 11720, 11726, 11728, 11734, 11736, 11742, 12293, 12295, 12321, 12329, 12337, 12341,
    12344, 12348, 12353, 12438, 12445, 12447, 12449, 12538, 12540, 12543, 12549, 12591, 12593,
    12686, 12704, 12735, 12784, 12799, 13312, 19903, 19968, 42124, 42192, 42237, 42240, 42508,
    42512, 42527, 42538, 42539, 42560, 42606, 42623, 42653, 42656, 42735, 42775, 42783, 42786,
    42888, 42891, 42972, 42993, 43009, 43011, 43013, 43015, 43018, 43020, 43042, 43072, 43123,
    43138, 43187, 43250, 43255, 43261, 43262, 43274, 43301, 43312, 43334, 43360, 43388, 43396,
    43442, 43488, 43492, 43494, 43503, 43514, 43518, 43520, 43560, 43584, 43586, 43588, 43595,
    43616, 43638, 43646, 43695, 43701, 43702, 43705, 43709, 43739, 43741, 43744, 43754, 43762,
    43764, 43777, 43782, 43785, 43790, 43793, 43798, 43808, 43814, 43816, 43822, 43824, 43866,
    43868, 43881, 43888, 44002, 44032, 55203, 55216, 55238, 55243, 55291, 63744, 64109, 64112,
    64217, 64256, 64262, 64275, 64279, 64287, 64296, 64298, 64310, 64312, 64316, 64320, 64321,
    64323, 64324, 64326, 64433, 64467, 64605, 64612, 64829, 64848, 64911, 64914, 64967, 65008,
    65017, 65151, 65276, 65313, 65338, 65345, 65370, 65382, 65437, 65440, 65470, 65474, 65479,
    65482, 65487, 65490, 65495, 65498, 65500, 65536, 65547, 65549, 65574, 65576, 65594, 65596,
    65597, 65599, 65613, 65616, 65629, 65664, 65786, 65856, 65908, 66176, 66204, 66208, 66256,
    66304, 66335, 66349, 66378, 66384, 66421, 66432, 66461, 66464, 66499, 66504, 66511, 66513,
    66517, 66560, 66717, 66736, 66771, 66776, 66811, 66816, 66855, 66864, 66915, 66928, 66938,
    66940, 66954, 66956, 66962, 66964, 66965, 66967, 66977, 66979, 66993, 66995, 67001, 67003,
    67004, 67008, 67059, 67072, 67382, 67392, 67413, 67424, 67431, 67456, 67461, 67463, 67504,
    67506, 67514, 67584, 67589, 67594, 67637, 67639, 67640, 67647, 67669, 67680, 67702, 67712,
    67742, 67808, 67826, 67828, 67829, 67840, 67861, 67872, 67897, 67904, 67929, 67968, 68023,
    68030, 68031, 68112, 68115, 68117, 68119, 68121, 68149, 68192, 68220, 68224, 68252, 68288,
    68295, 68297, 68324, 68352, 68405, 68416, 68437, 68448, 68466, 68480, 68497, 68608, 68680,
    68736, 68786, 68800, 68850, 68864, 68899, 68938, 68965, 68975, 68997, 69248, 69289, 69296,
    69297, 69314, 69319, 69376, 69404, 69424, 69445, 69488, 69505, 69552, 69572, 69600, 69622,
    69635, 69687, 69745, 69746, 69763, 69807, 69840, 69864, 69891, 69926, 69968, 70002, 70019,
    70066, 70081, 70084, 70144, 70161, 70163, 70187, 70207, 70208, 70272, 70278, 70282, 70285,
    70287, 70301, 70303, 70312, 70320, 70366, 70405, 70412, 70415, 70416, 70419, 70440, 70442,
    70448, 70450, 70451, 70453, 70457, 70493, 70497, 70528, 70537, 70544, 70581, 70656, 70708,
    70727, 70730, 70751, 70753, 70784, 70831, 70852, 70853, 71040, 71086, 71128, 71131, 71168,
    71215, 71296, 71338, 71424, 71450, 71488, 71494, 71680, 71723, 71840, 71903, 71935, 71942,
    71948, 71955, 71957, 71958, 71960, 71983, 72096, 72103, 72106, 72144, 72203, 72242, 72284,
    72329, 72368, 72440, 72640, 72672, 72704, 72712, 72714, 72750, 72818, 72847, 72960, 72966,
    72968, 72969, 72971, 73008, 73056, 73061, 73063, 73064, 73066, 73097, 73136, 73179, 73440,
    73458, 73476, 73488, 73490, 73523, 73728, 74649, 74752, 74862, 74880, 75075, 77712, 77808,
    77824, 78895, 78913, 78918, 78944, 82938, 82944, 83526, 90368, 90397, 92160, 92728, 92736,
    92766, 92784, 92862, 92880, 92909, 92928, 92975, 92992, 92995, 93027, 93047, 93053, 93071,
    93504, 93548, 93760, 93823, 93856, 93880, 93883, 93907, 93952, 94026, 94099, 94111, 94176,
    94177, 94194, 94198, 94208, 101589, 101631, 101662, 101760, 101874, 110576, 110579, 110581,
    110587, 110589, 110590, 110592, 110882, 110928, 110930, 110948, 110951, 110960, 111355, 113664,
    113770, 113776, 113788, 113792, 113800, 113808, 113817, 119808, 119892, 119894, 119964, 119966,
    119967, 119973, 119974, 119977, 119980, 119982, 119993, 119997, 120003, 120005, 120069, 120071,
    120074, 120077, 120084, 120086, 120092, 120094, 120121, 120123, 120126, 120128, 120132, 120138,
    120144, 120146, 120485, 120488, 120512, 120514, 120538, 120540, 120570, 120572, 120596, 120598,
    120628, 120630, 120654, 120656, 120686, 120688, 120712, 120714, 120744, 120746, 120770, 120772,
    120779, 122624, 122654, 122661, 122666, 122928, 122989, 123136, 123180, 123191, 123197, 123536,
    123565, 123584, 123627, 124112, 124139, 124368, 124397, 124608, 124638, 124640, 124642, 124644,
    124645, 124647, 124653, 124656, 124660, 124670, 124671, 124896, 124902, 124904, 124907, 124909,
    124910, 124912, 124926, 124928, 125124, 125184, 125251, 126464, 126467, 126469, 126495, 126497,
    126498, 126505, 126514, 126516, 126519, 126541, 126543, 126545, 126546, 126561, 126562, 126567,
    126570, 126572, 126578, 126580, 126583, 126585, 126588, 126592, 126601, 126603, 126619, 126625,
    126627, 126629, 126633, 126635, 126651, 131072, 173791, 173824, 178205, 178208, 183981, 183984,
    191456, 191472, 192093, 194560, 195101, 196608, 201546, 201552, 210041]"

definition unicode_continuation_ch_any :: "int list" where
  "unicode_continuation_ch_any = [
    183, 903, 1471, 1479, 1648, 1809, 2045, 2492, 2519, 2558, 2620, 2641, 2677, 2748, 2876, 2946,
    3031, 3132, 3260, 3315, 3415, 3530, 3542, 3633, 3761, 3893, 3895, 3897, 4038, 6109, 6313, 7405,
    7412, 8276, 8417, 11647, 12539, 42607, 43010, 43014, 43019, 43052, 43493, 43587, 43696, 43713,
    64286, 65343, 65381, 66045, 66272, 68159, 69826, 70003, 70206, 70209, 70487, 70594, 70597,
    70610, 70750, 72000, 72164, 72263, 73018, 73031, 73475, 78912, 94031, 94180, 121461, 121476,
    123023, 123566, 124643, 124646, 124661]"

definition unicode_continuation_ch_range :: "int list" where
  "unicode_continuation_ch_range = [
    48, 57, 768, 879, 1155, 1159, 1425, 1469, 1473, 1474, 1476, 1477, 1552, 1562, 1611, 1641, 1750,
    1756, 1759, 1764, 1767, 1768, 1770, 1773, 1776, 1785, 1840, 1866, 1958, 1968, 1984, 1993, 2027,
    2035, 2070, 2073, 2075, 2083, 2085, 2087, 2089, 2093, 2137, 2139, 2199, 2207, 2250, 2273, 2275,
    2307, 2362, 2364, 2366, 2383, 2385, 2391, 2402, 2403, 2406, 2415, 2433, 2435, 2494, 2500, 2503,
    2504, 2507, 2509, 2530, 2531, 2534, 2543, 2561, 2563, 2622, 2626, 2631, 2632, 2635, 2637, 2662,
    2673, 2689, 2691, 2750, 2757, 2759, 2761, 2763, 2765, 2786, 2787, 2790, 2799, 2810, 2815, 2817,
    2819, 2878, 2884, 2887, 2888, 2891, 2893, 2901, 2903, 2914, 2915, 2918, 2927, 3006, 3010, 3014,
    3016, 3018, 3021, 3046, 3055, 3072, 3076, 3134, 3140, 3142, 3144, 3146, 3149, 3157, 3158, 3170,
    3171, 3174, 3183, 3201, 3203, 3262, 3268, 3270, 3272, 3274, 3277, 3285, 3286, 3298, 3299, 3302,
    3311, 3328, 3331, 3387, 3388, 3390, 3396, 3398, 3400, 3402, 3405, 3426, 3427, 3430, 3439, 3457,
    3459, 3535, 3540, 3544, 3551, 3558, 3567, 3570, 3571, 3635, 3642, 3655, 3662, 3664, 3673, 3763,
    3772, 3784, 3790, 3792, 3801, 3864, 3865, 3872, 3881, 3902, 3903, 3953, 3972, 3974, 3975, 3981,
    3991, 3993, 4028, 4139, 4158, 4160, 4169, 4182, 4185, 4190, 4192, 4194, 4196, 4199, 4205, 4209,
    4212, 4226, 4237, 4239, 4253, 4957, 4959, 4969, 4977, 5906, 5909, 5938, 5940, 5970, 5971, 6002,
    6003, 6068, 6099, 6112, 6121, 6155, 6157, 6159, 6169, 6432, 6443, 6448, 6459, 6470, 6479, 6608,
    6618, 6679, 6683, 6741, 6750, 6752, 6780, 6783, 6793, 6800, 6809, 6832, 6845, 6847, 6877, 6880,
    6891, 6912, 6916, 6964, 6980, 6992, 7001, 7019, 7027, 7040, 7042, 7073, 7085, 7088, 7097, 7142,
    7155, 7204, 7223, 7232, 7241, 7248, 7257, 7376, 7378, 7380, 7400, 7415, 7417, 7616, 7679, 8204,
    8205, 8255, 8256, 8400, 8412, 8421, 8432, 11503, 11505, 11744, 11775, 12330, 12335, 12441,
    12442, 42528, 42537, 42612, 42621, 42654, 42655, 42736, 42737, 43043, 43047, 43136, 43137,
    43188, 43205, 43216, 43225, 43232, 43249, 43263, 43273, 43302, 43309, 43335, 43347, 43392,
    43395, 43443, 43456, 43472, 43481, 43504, 43513, 43561, 43574, 43596, 43597, 43600, 43609,
    43643, 43645, 43698, 43700, 43703, 43704, 43710, 43711, 43755, 43759, 43765, 43766, 44003,
    44010, 44012, 44013, 44016, 44025, 65024, 65039, 65056, 65071, 65075, 65076, 65101, 65103,
    65296, 65305, 65438, 65439, 66422, 66426, 66720, 66729, 68097, 68099, 68101, 68102, 68108,
    68111, 68152, 68154, 68325, 68326, 68900, 68903, 68912, 68921, 68928, 68937, 68969, 68973,
    69291, 69292, 69370, 69375, 69446, 69456, 69506, 69509, 69632, 69634, 69688, 69702, 69734,
    69744, 69747, 69748, 69759, 69762, 69808, 69818, 69872, 69881, 69888, 69890, 69927, 69940,
    69942, 69951, 69957, 69958, 70016, 70018, 70067, 70080, 70089, 70092, 70094, 70105, 70188,
    70199, 70367, 70378, 70384, 70393, 70400, 70403, 70459, 70460, 70462, 70468, 70471, 70472,
    70475, 70477, 70498, 70499, 70502, 70508, 70512, 70516, 70584, 70592, 70599, 70602, 70604,
    70608, 70625, 70626, 70709, 70726, 70736, 70745, 70832, 70851, 70864, 70873, 71087, 71093,
    71096, 71104, 71132, 71133, 71216, 71232, 71248, 71257, 71339, 71351, 71360, 71369, 71376,
    71395, 71453, 71467, 71472, 71481, 71724, 71738, 71904, 71913, 71984, 71989, 71991, 71992,
    71995, 71998, 72002, 72003, 72016, 72025, 72145, 72151, 72154, 72160, 72193, 72202, 72243,
    72249, 72251, 72254, 72273, 72283, 72330, 72345, 72544, 72551, 72688, 72697, 72751, 72758,
    72760, 72767, 72784, 72793, 72850, 72871, 72873, 72886, 73009, 73014, 73020, 73021, 73023,
    73029, 73040, 73049, 73098, 73102, 73104, 73105, 73107, 73111, 73120, 73129, 73184, 73193,
    73459, 73462, 73472, 73473, 73524, 73530, 73534, 73538, 73552, 73562, 78919, 78933, 90398,
    90425, 92768, 92777, 92864, 92873, 92912, 92916, 92976, 92982, 93008, 93017, 93552, 93561,
    94033, 94087, 94095, 94098, 94192, 94193, 113821, 113822, 118000, 118009, 118528, 118573,
    118576, 118598, 119141, 119145, 119149, 119154, 119163, 119170, 119173, 119179, 119210, 119213,
    119362, 119364, 120782, 120831, 121344, 121398, 121403, 121452, 121499, 121503, 121505, 121519,
    122880, 122886, 122888, 122904, 122907, 122913, 122915, 122916, 122918, 122922, 123184, 123190,
    123200, 123209, 123628, 123641, 124140, 124153, 124398, 124399, 124401, 124410, 124654, 124655,
    125136, 125142, 125252, 125258, 125264, 125273, 130032, 130041, 917760, 917999]"

text \<open>The tables hold code points in ascending order; the ranges come in pairs.\<close>

fun ascending :: "int list \<Rightarrow> bool" where
  "ascending (a # b # cs) \<longleftrightarrow> a < b \<and> ascending (b # cs)"
| "ascending _ \<longleftrightarrow> True"

lemma ascending_sorted: "ascending cs \<Longrightarrow> sorted_wrt (<) cs"
  by (induction cs rule: ascending.induct) (auto dest: less_trans)

lemma start_any_table: "ascending unicode_start_ch_any \<and> list_all chr_ok unicode_start_ch_any"
  by code_simp

lemma start_range_table: "list_all chr_ok unicode_start_ch_range \<and> even (length unicode_start_ch_range)"
  by code_simp

lemma continuation_any_table:
  "ascending unicode_continuation_ch_any \<and> list_all chr_ok unicode_continuation_ch_any"
  by code_simp

lemma continuation_range_table:
  "list_all chr_ok unicode_continuation_ch_range \<and> even (length unicode_continuation_ch_range)"
  by code_simp

end
