(* ===== verification/PyrexLexicon.thy ===== *)
theory PyrexLexicon
  imports PlexScanning UnicodeTables
begin

text \<open>
  \<open>make_lexicon\<close> of \<open>Cython/Compiler/Lexicon.py\<close>: the tokens of the Cython language as a specification
  for \<open>Lexicon\<close>. The lemmas show that it is well formed, that no pattern matches the empty text, and
  what the texts of the patterns look like that the methods of the scanner take apart.
\<close>

subsection \<open>Patterns\<close>

text \<open>\<open>a + b + c\<close> and \<open>a | b | c\<close>; both operators associate to the left.\<close>

fun re_add :: "RE list \<Rightarrow> RE" where
  "re_add [] = Empty"
| "re_add (re # res) = foldl (\<lambda>a b. Seq [a, b]) re res"

fun re_or :: "RE list \<Rightarrow> RE" where
  "re_or [] = Alt []"
| "re_or (re # res) = foldl (\<lambda>a b. Alt [a, b]) re res"

definition StrC :: "string \<Rightarrow> RE" where "StrC s = Str [codes s]"
definition AnyC :: "string \<Rightarrow> RE" where "AnyC s = AnyOf (codes s)"
definition AnyButC :: "string \<Rightarrow> RE" where "AnyButC s = AnyBut (codes s)"

definition raw_prefixes :: string where "raw_prefixes = ''rR''"
definition bytes_prefixes :: string where "bytes_prefixes = ''bB''"
definition string_prefixes :: string where "string_prefixes = ''uU'' @ bytes_prefixes"
definition ft_string_prefixes :: string where "ft_string_prefixes = ''fFtT''"
definition char_prefixes :: string where "char_prefixes = ''cC''"
definition any_string_prefix :: string where
  "any_string_prefix = raw_prefixes @ string_prefixes @ char_prefixes"

definition nonzero_digit :: RE where "nonzero_digit = AnyC ''123456789''"
definition digit :: RE where "digit = AnyC ''0123456789''"
definition bindigit :: RE where "bindigit = AnyC ''01''"
definition octdigit :: RE where "octdigit = AnyC ''01234567''"
definition hexdigit :: RE where "hexdigit = AnyC ''0123456789ABCDEFabcdef''"
definition indentation :: RE where
  "indentation = re_add [Bol, Rep (AnyC [CHR '' '', CHR 0x09])]"

text \<open>A range pattern; \<open>None\<close> where \<open>Range\<close> raises.\<close>

definition unicode_start_character :: "RE \<Rightarrow> RE" where
  "unicode_start_character start_range = re_or [AnyOf unicode_start_ch_any, start_range]"

definition unicode_continuation_character :: "RE \<Rightarrow> RE \<Rightarrow> RE" where
  "unicode_continuation_character start_range continuation_range =
     re_or [unicode_start_character start_range, AnyOf unicode_continuation_ch_any, continuation_range]"

definition underscore_digits :: "RE \<Rightarrow> RE" where
  "underscore_digits d = re_add [Rep1 d, Rep (re_add [StrC ''_'', Rep1 d])]"

definition prefixed_digits :: "RE \<Rightarrow> RE \<Rightarrow> RE" where
  "prefixed_digits pre digits = re_add [pre, Opt (StrC ''_''), underscore_digits digits]"

definition decimal :: RE where "decimal = underscore_digits digit"
definition dot :: RE where "dot = StrC ''.''"
definition exponent :: RE where "exponent = re_add [AnyC ''Ee'', Opt (AnyC ''+-''), decimal]"
definition decimal_fract :: RE where
  "decimal_fract = re_or [re_add [decimal, dot, Opt decimal], re_add [dot, decimal]]"

definition name_re :: "RE \<Rightarrow> RE \<Rightarrow> RE" where
  "name_re start_range continuation_range =
     re_add [unicode_start_character start_range,
       Rep (unicode_continuation_character start_range continuation_range)]"

definition intconst :: RE where
  "intconst =
     re_or [prefixed_digits nonzero_digit digit,
       re_add [StrC ''0'', re_or [prefixed_digits (AnyC ''Xx'') hexdigit,
         prefixed_digits (AnyC ''Oo'') octdigit, prefixed_digits (AnyC ''Bb'') bindigit]],
       underscore_digits (StrC ''0''), Rep1 digit]"

definition intsuffix :: RE where
  "intsuffix =
     re_or [re_add [Opt (AnyC ''Uu''), Opt (AnyC ''Ll''), Opt (AnyC ''Ll'')],
       re_add [Opt (AnyC ''Ll''), Opt (AnyC ''Ll''), Opt (AnyC ''Uu'')]]"

definition intliteral :: RE where "intliteral = re_add [intconst, intsuffix]"
definition fltconst :: RE where
  "fltconst = re_or [re_add [decimal_fract, Opt exponent], re_add [decimal, exponent]]"
definition imagconst :: RE where "imagconst = re_add [re_or [intconst, fltconst], AnyC ''jJ'']"

abbreviation sq :: string where "sq \<equiv> [CHR 0x27]"
abbreviation dq :: string where "dq \<equiv> [CHR 0x22]"
abbreviation bs :: string where "bs \<equiv> [CHR 0x5C]"
abbreviation nl :: string where "nl \<equiv> [CHR 0x0A]"

definition tsq :: string where "tsq = sq @ sq @ sq"
definition tdq :: string where "tdq = dq @ dq @ dq"

definition quote_re :: RE where "quote_re = re_or [StrC sq, StrC dq, StrC tsq, StrC tdq]"

definition beginstring :: RE where
  "beginstring =
     re_add [Opt (re_or [Rep (AnyC (string_prefixes @ raw_prefixes)), AnyC char_prefixes]), quote_re]"

definition begin_ft_string :: RE where
  "begin_ft_string =
     re_add [re_or [re_add [AnyC ft_string_prefixes, Opt (AnyC raw_prefixes)],
         re_add [AnyC raw_prefixes, AnyC ft_string_prefixes]], quote_re]"

definition two_oct :: RE where "two_oct = re_add [octdigit, octdigit]"
definition three_oct :: RE where "three_oct = re_add [octdigit, octdigit, octdigit]"
definition two_hex :: RE where "two_hex = re_add [hexdigit, hexdigit]"
definition four_hex :: RE where "four_hex = re_add [two_hex, two_hex]"

text \<open>\<open>letters\<close> is \<open>Range('azAZ')\<close>.\<close>

definition escapeseq :: "RE \<Rightarrow> RE" where
  "escapeseq letters =
     re_add [StrC bs, re_or [octdigit, two_oct, three_oct,
       re_add [StrC ''N{'', Rep (re_or [letters, AnyC ''- '']), StrC ''}''],
       re_add [StrC ''u'', four_hex], re_add [StrC ''x'', two_hex],
       re_add [StrC ''U'', four_hex, four_hex],
       Opt (AnyC (nl @ bs @ sq @ dq @ ''abfnrtvNxuU''))]]"

definition rawescapeseq :: RE where
  "rawescapeseq = re_or [StrC (bs @ bs), re_add [StrC bs, Opt (AnyC (dq @ sq))]]"

definition bra :: RE where "bra = AnyC ''([''"
definition ket :: RE where "ket = AnyC '')]''"
definition open_brace :: RE where "open_brace = StrC ''{''"
definition close_brace :: RE where "close_brace = StrC ''}''"
definition ellipsis :: RE where "ellipsis = StrC ''...''"
definition punct :: RE where "punct = AnyC '':,;+-*/|&<>=.%`~^?!@''"
definition diphthong :: RE where
  "diphthong =
     Str (map codes [''=='', ''<>'', ''!='', ''<='', ''>='', ''<<'', ''>>'', ''**'', ''//'',
       ''+='', ''-='', ''*='', ''/='', ''%='', ''|='', ''^='', ''&='',
       ''<<='', ''>>='', ''**='', ''//='', ''->'', ''@='', ''&&'', ''||'', '':=''])"
definition spaces :: RE where "spaces = Rep1 (AnyC [CHR '' '', CHR 0x09, CHR 0x0C])"
definition escaped_newline :: RE where "escaped_newline = StrC (bs @ nl)"
definition lineterm :: RE where "lineterm = re_add [Eol, Opt (StrC nl)]"
definition comment :: RE where "comment = re_add [StrC ''#'', Rep (AnyButC nl)]"

subsection \<open>Tokens\<close>

type_synonym pyrex_token = "(string, unit) token_spec"

definition method_token :: "RE \<Rightarrow> string \<Rightarrow> pyrex_token" where
  "method_token re name = TokenSpec re (IsAction (MethodAction name []))"

definition value_token :: "RE \<Rightarrow> string \<Rightarrow> pyrex_token" where
  "value_token re value = TokenSpec re (IsValue value)"

definition ignore_token :: "RE \<Rightarrow> pyrex_token" where
  "ignore_token re = TokenSpec re (IsAction IGNORE)"

definition number_token :: "RE \<Rightarrow> string \<Rightarrow> pyrex_token" where
  "number_token re symbol = TokenSpec re (IsAction (MethodAction ''strip_underscores'' [(''symbol'', symbol)]))"

text \<open>\<open>generate_ft_string_states\<close>.\<close>

definition prescan_tokens :: "pyrex_token list" where
  "prescan_tokens =
     [value_token (Rep1 (AnyButC (dq @ sq @ ''{}()[]:#''))) ''CHARS'',
      ignore_token comment,
      method_token (StrC '':'') ''colon_action'',
      method_token open_brace ''open_brace_action'',
      method_token close_brace ''close_brace_action'',
      method_token bra ''open_bracket_action'',
      method_token ket ''close_bracket_action'',
      method_token beginstring ''begin_string_action'',
      method_token begin_ft_string ''begin_ft_string_action'',
      value_token Eof ''EOF'']"

definition ft_state_name :: "string \<Rightarrow> bool \<Rightarrow> string" where
  "ft_state_name pre raw =
     (if length pre > 1 then ''T'' else '''') @ (if CHR 0x27 \<in> set pre then ''SQ'' else ''DQ'')
     @ ''_STRING_FT'' @ (if raw then ''R'' else '''')"

definition ft_string_tokens :: "RE \<Rightarrow> string \<Rightarrow> bool \<Rightarrow> pyrex_token list" where
  "ft_string_tokens letters pre raw =
     [value_token (if raw then rawescapeseq else escapeseq letters) ''ESCAPE'',
      method_token (Rep1 (StrC ''{'')) ''open_ft_string_brace_action'',
      method_token (Rep1 (StrC ''}'')) ''close_ft_string_brace_action'',
      value_token (Rep1 (AnyButC (sq @ dq @ nl @ bs @ ''{}''))) ''CHARS'',
      value_token (if length pre > 1 then AnyC (sq @ dq) else StrC (if CHR 0x27 \<in> set pre then dq else sq)) ''CHARS'',
      (if length pre > 1 then value_token (StrC nl) ''NEWLINE'' else method_token (StrC nl) ''unclosed_string_action''),
      method_token (StrC pre) ''end_ft_string_action'',
      value_token Eof ''EOF'']"

definition generate_ft_string_states :: "RE \<Rightarrow> (string, unit) spec_item list" where
  "generate_ft_string_states letters =
     StateItem ''FT_STRING_EXPR_PRESCAN'' prescan_tokens
     # concat (map (\<lambda>pre. map (\<lambda>raw. StateItem (ft_state_name pre raw) (ft_string_tokens letters pre raw))
         [False, True]) [sq, dq, tsq, tdq])"

text \<open>The four string states differ in the quotes.\<close>

definition single_string_tokens :: "RE \<Rightarrow> string \<Rightarrow> string \<Rightarrow> string \<Rightarrow> pyrex_token list" where
  "single_string_tokens letters but other own =
     [value_token (escapeseq letters) ''ESCAPE'',
      value_token (Rep1 (AnyButC but)) ''CHARS'',
      value_token (StrC other) ''CHARS'',
      method_token (StrC nl) ''unclosed_string_action'',
      method_token (StrC own) ''end_string_action'',
      value_token Eof ''EOF'']"

definition triple_string_tokens :: "RE \<Rightarrow> string \<Rightarrow> string \<Rightarrow> pyrex_token list" where
  "triple_string_tokens letters but own =
     [value_token (escapeseq letters) ''ESCAPE'',
      value_token (Rep1 (AnyButC but)) ''CHARS'',
      value_token (AnyC (sq @ dq)) ''CHARS'',
      value_token (StrC nl) ''NEWLINE'',
      method_token (StrC own) ''end_string_action'',
      value_token Eof ''EOF'']"

definition indent_tokens :: "pyrex_token list" where
  "indent_tokens =
     [method_token (re_add [comment, lineterm]) ''commentline'',
      ignore_token (re_add [Opt spaces, Opt comment, lineterm]),
      method_token indentation ''indentation_action'',
      method_token Eof ''eof_action'']"

definition default_tokens :: "RE \<Rightarrow> RE \<Rightarrow> pyrex_token list" where
  "default_tokens start_range continuation_range =
     [method_token (name_re start_range continuation_range) ''normalize_ident'',
      number_token intliteral ''INT'',
      number_token fltconst ''FLOAT'',
      number_token imagconst ''IMAG'',
      TokenSpec (re_or [ellipsis, punct, diphthong]) (IsAction TEXT),
      method_token bra ''open_bracket_action'',
      method_token ket ''close_bracket_action'',
      method_token open_brace ''open_brace_action'',
      method_token close_brace ''close_brace_action'',
      method_token lineterm ''newline_action'',
      method_token beginstring ''begin_string_action'',
      method_token begin_ft_string ''begin_ft_string_action'',
      ignore_token comment, ignore_token spaces, ignore_token escaped_newline]"

definition lexicon_specs :: "RE \<Rightarrow> RE \<Rightarrow> RE \<Rightarrow> (string, unit) spec_item list" where
  "lexicon_specs start_range continuation_range letters =
     map TokenItem (default_tokens start_range continuation_range)
     @ [StateItem ''INDENT'' indent_tokens,
        StateItem ''SQ_STRING'' (single_string_tokens letters (sq @ dq @ nl @ bs) dq sq),
        StateItem ''DQ_STRING'' (single_string_tokens letters (dq @ nl @ bs) sq dq),
        StateItem ''TSQ_STRING'' (triple_string_tokens letters (sq @ dq @ nl @ bs) tsq),
        StateItem ''TDQ_STRING'' (triple_string_tokens letters (dq @ sq @ nl @ bs) tdq)]
     @ generate_ft_string_states letters
     @ [TokenItem (method_token Eof ''eof_action'')]"

definition pyrex_specs :: "(string, unit) spec_item list option" where
  "pyrex_specs =
     (case (Range_pairs unicode_start_ch_range, Range_pairs unicode_continuation_ch_range,
            Range_pairs (codes ''azAZ'')) of
        (Some start_range, Some continuation_range, Some letters) \<Rightarrow>
          Some (lexicon_specs start_range continuation_range letters)
      | _ \<Rightarrow> None)"

text \<open>\<open>make_lexicon\<close>; \<open>None\<close> is also the \<open>IndexError\<close> of a table of odd length.\<close>

definition make_lexicon :: "(lexicon_error + (string, unit) Action FastMachine) option" where
  "make_lexicon = Option.bind pyrex_specs (\<lambda>specs. lexicon_init (Some specs))"

subsection \<open>The specification is well formed\<close>

definition letters_re :: RE where "letters_re = Alt [RawCodeRange 97 123, RawCodeRange 65 91]"

lemma letters_range: "Range_pairs (codes ''azAZ'') = Some letters_re"
  by code_simp

text \<open>A pattern for single characters, as the ones made of the tables.\<close>

definition char_re :: "RE \<Rightarrow> bool" where
  "char_re re \<longleftrightarrow> re_ok re \<and> \<not> low re \<and> \<not> high re \<and> \<not> nullable re"

lemma chr_ok_code: "chr_ok c \<Longrightarrow> code_ok c \<and> c \<noteq> - maxint \<and> c \<noteq> maxint"
  "chr_ok c \<Longrightarrow> code_ok (c + 1) \<and> c + 1 \<noteq> - maxint \<and> c + 1 \<noteq> maxint"
  by (auto simp: chr_ok_def code_ok_def maxint_def)

lemma char_re_CodeRange:
  assumes "code_ok a" "a \<noteq> - maxint" "a \<noteq> maxint" "code_ok b" "b \<noteq> - maxint" "b \<noteq> maxint"
  shows "char_re (CodeRange a b)"
  using assms by (auto simp: char_re_def CodeRange_def code_ok_def nl_code_def maxint_def)

lemma char_re_Alt: "(\<And>re. re \<in> set res \<Longrightarrow> char_re re) \<Longrightarrow> char_re (Alt res)"
  by (auto simp: char_re_def list_all_iff list_ex_iff balanced_def)

lemma char_re_pairs:
  "list_all chr_ok s \<Longrightarrow> even (length s) \<Longrightarrow> \<exists>re. Range_pairs s = Some re \<and> char_re re"
proof -
  assume s: "list_all chr_ok s" "even (length s)"
  have "chr_ok a \<and> chr_ok b" if "(a, b) \<in> set (code_pairs s)" for a b
    using s(1) that by (induction s rule: code_pairs.induct) auto
  then have "char_re (Alt (map (\<lambda>(c1, c2). CodeRange c1 (c2 + 1)) (code_pairs s)))"
    using chr_ok_code by (intro char_re_Alt) (auto intro!: char_re_CodeRange)
  with s(2) show ?thesis by (simp add: Range_pairs_def)
qed

lemma ranges_codes:
  "sorted cs \<Longrightarrow> \<forall>c \<in> set cs. chr_ok c \<Longrightarrow> distinct cs \<Longrightarrow> (a, b) \<in> set (code_pairs (ranges_of_sorted cs))
   \<Longrightarrow> chr_ok a \<and> chr_ok (b - 1)"
proof (induction cs rule: ranges_of_sorted.induct)
  case (2 c cs)
  obtain code2 rest where e: "extend_range (c + 1) cs = (code2, rest)" by fastforce
  obtain pre where pre: "cs = pre @ rest" "code2 = c + 1 + int (length pre)" "\<forall>x \<in> set pre. x < code2"
    "\<forall>x \<in> set rest. code2 < x"
    using extend_range_spec [OF e] "2.prems"(1) by auto
  have "chr_ok (code2 - 1)"
  proof (cases pre)
    case Nil
    then show ?thesis using pre(2) "2.prems"(2) by simp
  next
    case (Cons p ps)
    let ?S = "set pre"
    have "c + 1 \<le> x" if "x \<in> ?S" for x
    proof -
      have "c \<le> x" "c \<noteq> x" using that pre(1) "2.prems"(1,3) by auto
      then show ?thesis by linarith
    qed
    then have "?S \<subseteq> {c + 1..<code2}" using pre(3) by auto
    moreover have "card ?S = length pre" using pre(1) "2.prems"(3) by (simp add: distinct_card)
    ultimately have "?S = {c + 1..<code2}" using pre(2) by (intro card_subset_eq) auto
    moreover have "code2 - 1 \<in> {c + 1..<code2}" using pre(2) Cons by simp
    ultimately show ?thesis using pre(1) "2.prems"(2) by auto
  qed
  moreover have "sorted rest" "distinct rest" "\<forall>x \<in> set rest. chr_ok x"
    using pre(1) "2.prems"(1-3) by (auto simp: sorted_append)
  ultimately show ?case
    using "2.IH" [OF e [symmetric] refl] "2.prems"(2,4) e by auto
qed simp

lemma char_re_AnyOf:
  assumes "list_all chr_ok s" and "distinct s"
  shows "char_re (AnyOf s)"
proof -
  have "chr_ok a \<and> chr_ok (b - 1)" if "(a, b) \<in> set (code_pairs (chars_to_ranges s))" for a b
    using that assms by (intro ranges_codes [of "sort s"]) (auto simp: chars_to_ranges_def list_all_iff)
  then show ?thesis
    using chr_ok_code(1) chr_ok_code(2) [of "b - 1" for b] unfolding AnyOf_def CodeRanges_def
    by (intro char_re_Alt) (fastforce intro!: char_re_CodeRange)
qed

lemma char_re_table: "ascending s \<and> list_all chr_ok s \<Longrightarrow> char_re (AnyOf s)"
  using ascending_sorted strict_sorted_iff by (blast intro: char_re_AnyOf)

lemma char_re_simps: "char_re re \<Longrightarrow> re_ok re" "char_re re \<Longrightarrow> balanced re" "char_re re \<Longrightarrow> \<not> nullable re"
  by (auto simp: char_re_def balanced_def)

lemma name_re_ok:
  assumes "char_re s" and "char_re c"
  shows "re_ok (name_re s c) \<and> balanced (name_re s c) \<and> \<not> nullable (name_re s c)"
proof -
  have "char_re (unicode_start_character s)" "char_re (unicode_continuation_character s c)"
    using assms char_re_table [OF start_any_table] char_re_table [OF continuation_any_table]
    by (auto simp: unicode_start_character_def unicode_continuation_character_def intro!: char_re_Alt)
  then show ?thesis
    by (auto simp: name_re_def char_re_def balanced_def Rep_def Opt_def Empty_def)
qed

lemma default_rest_ok: "list_all token_ok (drop 1 (default_tokens s c))"
  by code_simp

lemma state_items_ok:
  "list_all item_ok [StateItem ''INDENT'' indent_tokens,
     StateItem ''SQ_STRING'' (single_string_tokens letters_re (sq @ dq @ nl @ bs) dq sq),
     StateItem ''DQ_STRING'' (single_string_tokens letters_re (dq @ nl @ bs) sq dq),
     StateItem ''TSQ_STRING'' (triple_string_tokens letters_re (sq @ dq @ nl @ bs) tsq),
     StateItem ''TDQ_STRING'' (triple_string_tokens letters_re (dq @ sq @ nl @ bs) tdq)]"
  by code_simp

lemma ft_items_ok: "list_all item_ok (generate_ft_string_states letters_re)"
  by code_simp

lemma pyrex_specs_cases:
  obtains s c where "pyrex_specs = Some (lexicon_specs s c letters_re)" "char_re s" "char_re c"
proof -
  obtain s c where "Range_pairs unicode_start_ch_range = Some s" "char_re s"
    "Range_pairs unicode_continuation_ch_range = Some c" "char_re c"
    using char_re_pairs start_range_table continuation_range_table by metis
  then show thesis using that by (simp add: pyrex_specs_def letters_range)
qed

definition pyrex_state_names :: "string list" where
  "pyrex_state_names =
     [''INDENT'', ''SQ_STRING'', ''DQ_STRING'', ''TSQ_STRING'', ''TDQ_STRING'', ''FT_STRING_EXPR_PRESCAN'',
      ''SQ_STRING_FT'', ''SQ_STRING_FTR'', ''DQ_STRING_FT'', ''DQ_STRING_FTR'',
      ''TSQ_STRING_FT'', ''TSQ_STRING_FTR'', ''TDQ_STRING_FT'', ''TDQ_STRING_FTR'']"

lemma pyrex_names: "state_names (lexicon_specs s c letters_re) = pyrex_state_names"
  by code_simp

lemma pyrex_count: "token_count (lexicon_specs s c letters_re) = 118"
  by code_simp

lemma pyrex_specs_ok:
  assumes "char_re s" and "char_re c"
  shows "specs_ok (lexicon_specs s c letters_re)"
proof -
  have "default_tokens s c = method_token (name_re s c) ''normalize_ident'' # drop 1 (default_tokens s c)"
    by (simp add: default_tokens_def)
  moreover have "token_ok (method_token (name_re s c) ''normalize_ident'')"
    using name_re_ok [OF assms] by (simp add: method_token_def)
  ultimately have "list_all token_ok (default_tokens s c)" using default_rest_ok [of s c]
    by (metis list.pred_inject(2))
  moreover have "token_ok (method_token Eof ''eof_action'')" by code_simp
  ultimately have "list_all item_ok (lexicon_specs s c letters_re)"
    using state_items_ok ft_items_ok by (auto simp: lexicon_specs_def list_all_iff)
  moreover have "distinct ([] # pyrex_state_names)" by code_simp
  ultimately show ?thesis by (simp add: specs_ok_def pyrex_names pyrex_count maxint_def)
qed

subsection \<open>The texts of the tokens\<close>

text \<open>Every character an expression can match, from a predicate that is evaluated.\<close>

fun chars_within :: "(int \<Rightarrow> bool) \<Rightarrow> RE \<Rightarrow> bool" where
  "chars_within P (RawCodeRange a b) \<longleftrightarrow> list_all P [a..b - 1]"
| "chars_within P RawNewline \<longleftrightarrow> P nl_code"
| "chars_within P (SpecialSymbol symb) \<longleftrightarrow> True"
| "chars_within P (Seq res) \<longleftrightarrow> list_all (chars_within P) res"
| "chars_within P (Alt res) \<longleftrightarrow> list_all (chars_within P) res"
| "chars_within P (Rep1 re) \<longleftrightarrow> chars_within P re"
| "chars_within P (SwitchCase re nocase) \<longleftrightarrow> \<not> nocase \<and> chars_within P re"

lemma plus_list_all: "t \<in> plus A \<Longrightarrow> (\<And>u. u \<in> A \<Longrightarrow> list_all P u) \<Longrightarrow> list_all P t"
  by (induction rule: plus.induct) auto

lemma foldr_conc_list_all:
  "t \<in> foldr (\<lambda>re. conc (f re)) res {[]} \<Longrightarrow> (\<And>re u. re \<in> set res \<Longrightarrow> u \<in> f re \<Longrightarrow> list_all P u)
   \<Longrightarrow> list_all P t"
proof (induction res arbitrary: t)
  case (Cons re res)
  from Cons.prems(1) obtain u v where uv: "t = u @ v" "u \<in> f re"
    "v \<in> foldr (\<lambda>re. conc (f re)) res {[]}" by (auto elim!: concE)
  have "list_all P v" by (rule Cons.IH [OF uv(3)], rule Cons.prems(2)) auto
  then show ?case using uv Cons.prems(2) [of re u] by simp
qed simp

lemma chars_within_text:
  "t \<in> text_lang nc re \<Longrightarrow> \<not> nc \<Longrightarrow> chars_within P re \<Longrightarrow> list_all P t"
proof (induction nc re arbitrary: t rule: text_lang.induct)
  case (1 nc a b)
  then show ?case by (auto simp: in_range_def list_all_iff)
next
  case (4 nc res)
  have "list_all P u" if "re \<in> set res" "u \<in> text_lang nc re" for re u
    using "4.IH" [OF that] "4.prems"(2,3) that(1) by (simp add: list_all_iff)
  then show ?case using foldr_conc_list_all [of t "text_lang nc" res P] "4.prems"(1) by simp
next
  case (5 nc res)
  then show ?case by (auto simp: list_all_iff)
next
  case (6 nc re)
  then show ?case by (auto intro: plus_list_all)
qed auto

lemma Nil_conc: "[] \<in> conc A B \<longleftrightarrow> [] \<in> A \<and> [] \<in> B"
  by (auto simp: conc_def)

lemma lang_nullable:
  "[] \<in> lang mb nc re \<Longrightarrow> nullable re"
  "[] \<in> lang_seq mb nc res \<Longrightarrow> list_all nullable res"
proof (induction mb nc re and mb nc res rule: lang_lang_seq.induct)
  case (5 mb nc res)
  from "5.prems" consider re where "re \<in> set res" "nullable re"
    | re where "re \<in> set (filter (\<lambda>re. \<not> nullable re) res)" "[] \<in> lang False nc re"
    unfolding lang.simps Nil_conc Un_iff UN_iff by auto
  then show ?case
  proof cases
    case 2
    then show ?thesis using "5.IH"(2) [OF 2] by auto
  qed (auto simp: list_ex_iff)
next
  case (6 mb nc re)
  then show ?case using plus_Nil [of "lang (mb \<or> match_nl re) nc re"] by simp
qed (simp_all add: Nil_conc)

lemma text_lang_StrC: "text_lang False (StrC s) = {codes s}"
proof -
  have "text_lang False (Char (KChar c)) = {[c]}" for c
    by (auto simp: Char_def code_range_text in_range_def)
  then have "text_lang False (Str1 t) = {t}" for t
    by (induction t) (auto simp: Str1_def conc_def)
  then show ?thesis by (simp add: StrC_def Str_def)
qed

text \<open>What the methods that take a text apart rely on.\<close>

definition quotes :: "string list" where "quotes = [sq, dq, tsq, tdq]"

definition upper :: "int \<Rightarrow> bool" where "upper c \<longleftrightarrow> 65 \<le> c \<and> c \<le> 90"

definition token_text :: "(string, unit) Action \<Rightarrow> int list \<Rightarrow> bool" where
  "token_text action t \<longleftrightarrow>
     (case action of
        MethodAction m kwargs \<Rightarrow>
          (m = ''begin_string_action'' \<longrightarrow>
             dropWhile (\<lambda>c. c \<in> set (codes any_string_prefix)) t \<in> set (map codes quotes))
          \<and> (m = ''begin_ft_string_action'' \<longrightarrow>
             dropWhile (\<lambda>c. c \<in> set (codes (any_string_prefix @ ft_string_prefixes))) t \<in> set (map codes quotes))
          \<and> (m = ''close_brace_action'' \<longrightarrow> t = codes ''}'')
          \<and> (m \<in> {''open_bracket_action'', ''close_bracket_action'', ''open_brace_action'', ''colon_action''}
               \<longrightarrow> list_all (\<lambda>c. \<not> upper c) t)
      | TEXT \<Rightarrow> list_all (\<lambda>c. \<not> upper c) t
      | _ \<Rightarrow> True)"

definition token_pattern :: "RE \<times> (string, unit) Action \<Rightarrow> bool" where
  "token_pattern token \<longleftrightarrow> (case token of (re, action) \<Rightarrow> \<not> nullable re \<and>
     (case action of
        MethodAction m kwargs \<Rightarrow>
          (m = ''begin_string_action'' \<longrightarrow> re = beginstring)
          \<and> (m = ''begin_ft_string_action'' \<longrightarrow> re = begin_ft_string)
          \<and> (m = ''close_brace_action'' \<longrightarrow> re = close_brace)
          \<and> (m \<in> {''open_bracket_action'', ''close_bracket_action'', ''open_brace_action'', ''colon_action''}
               \<longrightarrow> text_re re \<and> chars_within (\<lambda>c. \<not> upper c) re)
      | TEXT \<Rightarrow> text_re re \<and> chars_within (\<lambda>c. \<not> upper c) re
      | _ \<Rightarrow> True))"

lemma text_lang_seq2: "text_lang nc (re_add [a, b]) = conc (text_lang nc a) (text_lang nc b)"
  by simp

lemma quote_texts: "text_lang False quote_re = set (map codes quotes)"
  by (auto simp: quote_re_def text_lang_StrC quotes_def)

lemma quotes_not_prefix: "t \<in> set (map codes quotes) \<Longrightarrow> \<exists>c cs. t = c # cs \<and> c \<in> {39, 34}"
  by (auto simp: quotes_def codes_def tsq_def tdq_def)

lemma prefixed_quote:
  assumes t: "t \<in> conc (text_lang False p) (text_lang False quote_re)"
    and p: "chars_within (\<lambda>c. c \<in> set (codes s)) p" and s: "39 \<notin> set (codes s)" "34 \<notin> set (codes s)"
  shows "dropWhile (\<lambda>c. c \<in> set (codes s)) t \<in> set (map codes quotes)"
proof -
  obtain u v where uv: "t = u @ v" "u \<in> text_lang False p" "v \<in> set (map codes quotes)"
    using t unfolding quote_texts by (auto elim: concE)
  have "list_all (\<lambda>c. c \<in> set (codes s)) u" using chars_within_text [OF uv(2) _ p] by simp
  moreover have "dropWhile (\<lambda>c. c \<in> set (codes s)) v = v"
    using quotes_not_prefix [OF uv(3)] s by auto
  ultimately show ?thesis using uv(1,3) by (simp add: dropWhile_append2 list_all_iff)
qed

lemma beginstring_text:
  "text_re beginstring" "text_re begin_ft_string" "text_re close_brace"
  "chars_within (\<lambda>c. c \<in> set (codes any_string_prefix))
     (Opt (re_or [Rep (AnyC (string_prefixes @ raw_prefixes)), AnyC char_prefixes]))"
  "chars_within (\<lambda>c. c \<in> set (codes (any_string_prefix @ ft_string_prefixes)))
     (re_or [re_add [AnyC ft_string_prefixes, Opt (AnyC raw_prefixes)],
        re_add [AnyC raw_prefixes, AnyC ft_string_prefixes]])"
  "39 \<notin> set (codes any_string_prefix)" "34 \<notin> set (codes any_string_prefix)"
  "39 \<notin> set (codes (any_string_prefix @ ft_string_prefixes))"
  "34 \<notin> set (codes (any_string_prefix @ ft_string_prefixes))"
  by code_simp+

lemma token_pattern_text:
  assumes "token_pattern (re, action)" and w: "w \<in> lang True False re"
  shows "token_text action (chars_of w)" "w \<noteq> []"
proof -
  have string: "dropWhile (\<lambda>c. c \<in> set (codes any_string_prefix)) (chars_of w) \<in> set (map codes quotes)"
    if "re = beginstring"
  proof -
    have "chars_of w \<in> text_lang False beginstring"
      using lang_chars(1) [OF beginstring_text(1)] w that by simp
    then show ?thesis unfolding beginstring_def text_lang_seq2
      by (rule prefixed_quote [OF _ beginstring_text(4,6,7)])
  qed
  have ft_string: "dropWhile (\<lambda>c. c \<in> set (codes (any_string_prefix @ ft_string_prefixes))) (chars_of w)
      \<in> set (map codes quotes)" if "re = begin_ft_string"
  proof -
    have "chars_of w \<in> text_lang False begin_ft_string"
      using lang_chars(1) [OF beginstring_text(2)] w that by simp
    then show ?thesis unfolding begin_ft_string_def text_lang_seq2
      by (rule prefixed_quote [OF _ beginstring_text(5,8,9)])
  qed
  have brace: "chars_of w = codes ''}''" if "re = close_brace"
    using lang_chars(1) [OF beginstring_text(3), of w True False] w that
    by (simp add: close_brace_def text_lang_StrC)
  have plain: "list_all (\<lambda>c. \<not> upper c) (chars_of w)" if "text_re re" "chars_within (\<lambda>c. \<not> upper c) re"
    using chars_within_text [OF lang_chars(1) [OF that(1) w] _ that(2)] by simp
  show "token_text action (chars_of w)"
    using assms(1) string ft_string brace plain
    by (cases action) (simp_all add: token_text_def token_pattern_def)
  show "w \<noteq> []" using assms(1) lang_nullable(1) w by (auto simp: token_pattern_def)
qed

subsection \<open>The tokens of the scanner states\<close>

definition pyrex_states :: "string list" where
  "pyrex_states = [] # pyrex_state_names"

definition state_ok :: "(RE \<times> (string, unit) Action) list \<Rightarrow> bool" where
  "state_ok tokens \<longleftrightarrow> list_all token_pattern tokens \<and> list_ex (\<lambda>(re, a). re = Eof) tokens"

lemma name_state_ok:
  assumes "char_re s" and "char_re c"
  shows "token_pattern (name_re s c, MethodAction ''normalize_ident'' [])"
  using name_re_ok [OF assms] by (simp add: token_pattern_def)

lemma default_state_tokens:
  "state_tokens [] (lexicon_specs s c letters_re) =
     (name_re s c, MethodAction ''normalize_ident'' [])
     # drop 1 (state_tokens [] (lexicon_specs s c letters_re))"
  by (simp add: lexicon_specs_def default_tokens_def method_token_def token_action_def)

lemma default_state_ok: "state_ok (drop 1 (state_tokens [] (lexicon_specs s c letters_re)))"
  by code_simp

lemma named_states_ok: "list_all (\<lambda>name. state_ok (state_tokens name (lexicon_specs s c letters_re))) pyrex_state_names"
  by code_simp

lemma pyrex_tokens_ok:
  assumes "char_re s" and "char_re c" and "name \<in> set pyrex_states"
  shows "state_ok (state_tokens name (lexicon_specs s c letters_re))"
proof (cases "name = []")
  case True
  then show ?thesis
    using default_state_ok [of s c] name_state_ok [OF assms(1,2)]
    by (subst True, subst default_state_tokens) (simp add: state_ok_def)
next
  case False
  then show ?thesis using named_states_ok [of s c] assms(3) by (simp add: pyrex_states_def list_all_iff)
qed

text \<open>The actions of each scanner state.\<close>

definition default_actions :: "(string, unit) Action list" where
  "default_actions =
     [MethodAction ''normalize_ident'' [], MethodAction ''strip_underscores'' [(''symbol'', ''INT'')],
      MethodAction ''strip_underscores'' [(''symbol'', ''FLOAT'')],
      MethodAction ''strip_underscores'' [(''symbol'', ''IMAG'')], TEXT,
      MethodAction ''open_bracket_action'' [], MethodAction ''close_bracket_action'' [],
      MethodAction ''open_brace_action'' [], MethodAction ''close_brace_action'' [],
      MethodAction ''newline_action'' [], MethodAction ''begin_string_action'' [],
      MethodAction ''begin_ft_string_action'' [], IGNORE, MethodAction ''eof_action'' []]"

definition indent_actions :: "(string, unit) Action list" where
  "indent_actions =
     [MethodAction ''commentline'' [], IGNORE, MethodAction ''indentation_action'' [],
      MethodAction ''eof_action'' []]"

definition string_actions :: "(string, unit) Action list" where
  "string_actions =
     [ReturnAction ''ESCAPE'', ReturnAction ''CHARS'', ReturnAction ''NEWLINE'', ReturnAction ''EOF'',
      MethodAction ''unclosed_string_action'' [], MethodAction ''end_string_action'' []]"

definition prescan_actions :: "(string, unit) Action list" where
  "prescan_actions =
     [ReturnAction ''CHARS'', IGNORE, MethodAction ''colon_action'' [], MethodAction ''open_brace_action'' [],
      MethodAction ''close_brace_action'' [], MethodAction ''open_bracket_action'' [],
      MethodAction ''close_bracket_action'' [], MethodAction ''begin_string_action'' [],
      MethodAction ''begin_ft_string_action'' [], ReturnAction ''EOF'']"

definition ft_actions :: "(string, unit) Action list" where
  "ft_actions =
     [ReturnAction ''ESCAPE'', ReturnAction ''CHARS'', ReturnAction ''NEWLINE'', ReturnAction ''EOF'',
      MethodAction ''open_ft_string_brace_action'' [], MethodAction ''close_ft_string_brace_action'' [],
      MethodAction ''unclosed_string_action'' [], MethodAction ''end_ft_string_action'' []]"

definition string_state_names :: "string list" where
  "string_state_names = [''SQ_STRING'', ''DQ_STRING'', ''TSQ_STRING'', ''TDQ_STRING'']"

definition ft_state_names :: "string list" where
  "ft_state_names =
     [''SQ_STRING_FT'', ''SQ_STRING_FTR'', ''DQ_STRING_FT'', ''DQ_STRING_FTR'',
      ''TSQ_STRING_FT'', ''TSQ_STRING_FTR'', ''TDQ_STRING_FT'', ''TDQ_STRING_FTR'']"

definition state_actions :: "string \<Rightarrow> (string, unit) Action list" where
  "state_actions name =
     (if name = [] then default_actions else if name = ''INDENT'' then indent_actions
      else if name = ''FT_STRING_EXPR_PRESCAN'' then prescan_actions
      else if name \<in> set string_state_names then string_actions else ft_actions)"

lemma pyrex_state_actions:
  "list_all (\<lambda>name. list_all (\<lambda>(re, a). a \<in> set (state_actions name))
      (state_tokens name (lexicon_specs s c letters_re))) pyrex_states"
  by code_simp

subsection \<open>Scanning a token\<close>

text \<open>The machine of the lexicon.\<close>

definition pyrex_machine :: "(string, unit) Action FastMachine \<Rightarrow> bool" where
  "pyrex_machine fm \<longleftrightarrow> make_lexicon = Some (Inr fm)"

lemma pyrex_machine_specs:
  assumes "pyrex_machine fm"
  obtains s c where "char_re s" "char_re c" "specs_ok (lexicon_specs s c letters_re)"
    "lexicon_init (Some (lexicon_specs s c letters_re)) = Some (Inr fm)" "fm_ok fm"
    "\<And>name. name \<in> set pyrex_states \<Longrightarrow> \<exists>n. dict_get (fm_initial_states fm) name = Some n"
proof -
  obtain s c where sc: "pyrex_specs = Some (lexicon_specs s c letters_re)" "char_re s" "char_re c"
    using pyrex_specs_cases .
  note ok = pyrex_specs_ok [OF sc(2,3)]
  have init: "lexicon_init (Some (lexicon_specs s c letters_re)) = Some (Inr fm)"
    using assms unfolding pyrex_machine_def make_lexicon_def sc(1) by simp
  obtain fm' nfa where fm': "lexicon_init (Some (lexicon_specs s c letters_re)) = Some (Inr fm')"
    "machine_ok nfa" "nfa_to_dfa nfa = Some (Inr fm')"
    "\<And>name. dict_get (initial_states nfa) name = None \<longleftrightarrow> name \<noteq> []
       \<and> name \<notin> set (state_names (lexicon_specs s c letters_re))"
    by (rule lexicon_init_spec [OF ok]) blast
  have eq: "fm' = fm" using init fm'(1) by simp
  have fm: "fm_ok fm" and names: "\<forall>name. (dict_get (fm_initial_states fm) name = None)
      = (dict_get (initial_states nfa) name = None)"
    using nfa_to_dfa_actions [OF fm'(2)] fm'(3) eq by auto
  have "\<exists>n. dict_get (fm_initial_states fm) name = Some n" if "name \<in> set pyrex_states" for name
    using that names fm'(4) [of name] by (auto simp: pyrex_states_def pyrex_names)
  with that sc(2,3) ok init fm show thesis by blast
qed

lemma make_lexicon_returns: "\<exists>fm. make_lexicon = Some (Inr fm)"
proof -
  obtain s c where sc: "pyrex_specs = Some (lexicon_specs s c letters_re)" "char_re s" "char_re c"
    using pyrex_specs_cases .
  obtain fm nfa where "lexicon_init (Some (lexicon_specs s c letters_re)) = Some (Inr fm)"
    by (rule lexicon_init_spec [OF pyrex_specs_ok [OF sc(2,3)]]) blast
  then show ?thesis unfolding make_lexicon_def sc(1) by simp
qed

text \<open>Every scan moves on, with an action of the state and a text its method can take apart.\<close>

lemma scan_pyrex:
  assumes fm: "pyrex_machine fm" and name: "name \<in> set pyrex_states"
    and st: "dict_get (fm_initial_states fm) name = Some st" and ready: "ready text p inp" "char_at text p"
  shows "case scan_a_token fm st p inp of
      None \<Rightarrow> False
    | Some (Inl e) \<Rightarrow> True
    | Some (Inr ((t, action), p', inp')) \<Rightarrow>
        ready text p' inp' \<and> char_at text p' \<and> symbols_left text p' < symbols_left text p
        \<and> (case action of None \<Rightarrow> True | Some a \<Rightarrow> a \<in> set (state_actions name) \<and> token_text a t)"
proof -
  obtain s c where sc: "char_re s" "char_re c" "specs_ok (lexicon_specs s c letters_re)"
    "lexicon_init (Some (lexicon_specs s c letters_re)) = Some (Inr fm)" "fm_ok fm"
    using pyrex_machine_specs [OF fm] by metis
  let ?tokens = "state_tokens name (lexicon_specs s c letters_re)"
  have ok: "state_ok ?tokens" by (rule pyrex_tokens_ok [OF sc(1,2) name])
  have st_in: "st \<in> {1..length (fm_states fm)}" using sc(5) st by (simp add: fm_ok_def)
  note spec = scan_lexicon_spec [OF sc(3,4) st ready(1)]
  consider (error) e where "scan_a_token fm st p inp = Some (Inl e)"
    | (none) t p' inp' where "scan_a_token fm st p inp = Some (Inr ((t, None), p', inp'))"
    | (some) t a p' inp' where "scan_a_token fm st p inp = Some (Inr ((t, Some a), p', inp'))"
  proof (cases "scan_a_token fm st p inp")
    case (Some r)
    show thesis
    proof (cases r)
      case (Inr x)
      obtain t action p' inp' where "x = ((t, action), p', inp')" by (metis surj_pair)
      then show thesis using none some Some Inr by (cases action) auto
    qed (use error Some in simp)
  qed (use spec in simp)
  then show ?thesis
  proof cases
    case none
    obtain n where n: "p' = position_after text p n" "within text p n" "ready text p' inp'" "cur_char p' = EOF"
      using scan_nothing [OF sc(5) st_in ready(1) none] .
    obtain a where a: "(Eof, a) \<in> set ?tokens" using ok by (auto simp: state_ok_def list_ex_iff)
    have "n \<noteq> 0"
    proof
      assume "n = 0"
      then have "symbols_from text p 1 = [EOF]" using n(1,4) by simp
      moreover have "within text p 1" using \<open>symbols_from text p 1 = [EOF]\<close>
        by (simp add: within_def input_ok_def EOF_def)
      ultimately have "[EOF] \<notin> lang True False Eof"
        using spec none first_match_None [OF _ a] by auto
      then show False by (simp add: Eof_def Char_def EOF_def opt_symbol_def)
    qed
    then show ?thesis
      using none n symbols_left_after [OF n(2)] position_chars [OF ready(2), of n] by simp
  next
    case some
    then obtain n where n: "within text p n" "p' = position_after text p n"
      "first_match ?tokens (symbols_from text p n) = Some a"
      "t = take (cur_pos p' - cur_pos p) (drop (cur_pos p) text)" "ready text p' inp'"
      using spec by auto
    obtain re where re: "(re, a) \<in> set ?tokens" "symbols_from text p n \<in> lang True False re"
      using first_match_Some [OF n(3)] by blast
    have pattern: "token_pattern (re, a)" using ok re(1) by (auto simp: state_ok_def list_all_iff)
    have "a \<in> set (state_actions name)"
      using pyrex_state_actions [of s c] name re(1) by (fastforce simp: list_all_iff)
    moreover have "n \<noteq> 0" using token_pattern_text(2) [OF pattern re(2)] by (cases n) auto
    moreover have "token_text a t"
      using token_pattern_text(1) [OF pattern re(2)] token_chars [OF ready(2) n(2)] n(4) by simp
    ultimately show ?thesis
      using some n symbols_left_after [OF n(1)] position_chars [OF ready(2), of n] by simp
  qed simp
qed

end
