(* ===== verification/PyrexScanner.thy ===== *)
theory PyrexScanner
  imports PyrexLexicon
begin

text \<open>
  \<open>PyrexScanner\<close> of \<open>Cython/Compiler/Scanning.py\<close>: the methods that the lexicon calls, which open and
  close blocks, brackets and strings, and the operations of the parser on the stream of tokens. A
  Python list used as a stack has its top first. The source descriptors and the tracing output are
  not modelled; interning a string does not change its value.
\<close>

subsection \<open>State\<close>

text \<open>\<open>FTStringBracketState\<close> is a bracket nesting level and whether a format specifier follows.\<close>

record ft_string_state =
  scanner_state :: string
  bracket_states :: "(int \<times> bool) list"

definition ft_bracket_nesting_level :: "ft_string_state \<Rightarrow> int option" where
  "ft_bracket_nesting_level f = (case bracket_states f of [] \<Rightarrow> None | b # _ \<Rightarrow> Some (fst b))"

definition in_format_specifier :: "ft_string_state \<Rightarrow> bool" where
  "in_format_specifier f = (case bracket_states f of [] \<Rightarrow> False | b # _ \<Rightarrow> snd b)"

text \<open>What the scanner reads and does not change: the lexicon, \<open>unicodedata.normalize('NFKC', text)\<close>,
  and of the context whether \<open>print_function\<close> is among the future directives and the language
  level.\<close>

record scan_env =
  env_lexicon :: "(string, unit) Action FastMachine"
  env_nfkc :: "int list \<Rightarrow> int list"
  env_print_function :: bool
  env_language_level :: int

type_synonym scan_message = "(nat \<times> int) \<times> int list"

text \<open>\<open>error_stack\<close> holds the lists of \<open>hold_errors\<close>, the innermost first; \<open>error_listing\<close> has the
  errors reported outside of them and \<open>warning_listing\<close> the warnings.\<close>

record pyrex = scanner +
  in_python_file :: bool
  kw_table :: "(int list, int list) pydict"
  async_enabled :: int
  parse_comments :: bool
  indentation_stack :: "int list"
  indentation_char :: int
  bracket_nesting_level :: int
  ft_string_state_stack :: "ft_string_state list"
  in_ft_string_expr_prescan :: int
  put_back_on_failure :: "token list option"
  sy :: "int list option"
  systring :: "int list"
  error_stack :: "scan_message list list"
  error_listing :: "scan_message list"
  warning_listing :: "scan_message list"

type_synonym 'a scanned = "('a, pyrex) outcome"

definition py_reserved_words :: "string list" where
  "py_reserved_words =
     [''global'', ''nonlocal'', ''def'', ''class'', ''print'', ''del'', ''pass'', ''break'',
      ''continue'', ''return'', ''raise'', ''import'', ''exec'', ''try'',
      ''except'', ''finally'', ''while'', ''if'', ''elif'', ''else'', ''for'',
      ''in'', ''assert'', ''and'', ''or'', ''not'', ''is'', ''lambda'',
      ''from'', ''yield'', ''with'']"

definition pyx_reserved_words :: "string list" where
  "pyx_reserved_words =
     py_reserved_words @
     [''include'', ''ctypedef'', ''cdef'', ''cpdef'', ''cimport'', ''DEF'', ''IF'', ''ELIF'', ''ELSE'']"

subsection \<open>Errors\<close>

definition report_error :: "scan_message \<Rightarrow> pyrex \<Rightarrow> pyrex" where
  "report_error err s =
     (case error_stack s of
        [] \<Rightarrow> s\<lparr>error_listing := error_listing s @ [err]\<rparr>
      | errors # rest \<Rightarrow> s\<lparr>error_stack := (errors @ [err]) # rest\<rparr>)"

text \<open>The method \<open>error\<close>: what it reports, and the call with \<open>fatal=True\<close>. The option \<open>--fast-fail\<close>, with
  which \<open>report_error\<close> also raises \<open>AbortError\<close>, is off.\<close>

definition error_pos :: "(nat \<times> int) option \<Rightarrow> pyrex \<Rightarrow> nat \<times> int" where
  "error_pos pos s = (case pos of None \<Rightarrow> sc_last_pos s | Some pos \<Rightarrow> pos)"

definition scanner_error :: "int list \<Rightarrow> (nat \<times> int) option \<Rightarrow> pyrex \<Rightarrow> pyrex" where
  "scanner_error message pos s =
     report_error (error_pos pos s, message)
       (if sy s = Some (codes ''INDENT'')
        then report_error (error_pos pos s, codes ''Possible inconsistent indentation'') s else s)"

definition raise_error :: "int list \<Rightarrow> (nat \<times> int) option \<Rightarrow> pyrex \<Rightarrow> 'a scanned" where
  "raise_error message pos s = Inl (CompileError (error_pos pos s) message, scanner_error message pos s)"

definition error_at_scanpos :: "int list \<Rightarrow> pyrex \<Rightarrow> 'a scanned" where
  "error_at_scanpos message s = raise_error message (Some (get_current_scan_pos s)) s"

subsection \<open>Names, numbers and comments\<close>

definition IDENT :: "int list" where "IDENT = codes ''IDENT''"

text \<open>\<open>produce\<close> with constant strings.\<close>

definition produce_value :: "string \<Rightarrow> pyrex \<Rightarrow> pyrex" where
  "produce_value v s = produce (Some (codes v)) s"

definition produce_pair :: "string \<Rightarrow> string \<Rightarrow> pyrex \<Rightarrow> pyrex" where
  "produce_pair v t s = produce_text (Some (codes v)) (codes t) s"

definition normalize_ident :: "scan_env \<Rightarrow> int list \<Rightarrow> pyrex \<Rightarrow> int list option scanned" where
  "normalize_ident env t s =
     (let t = (if list_all (\<lambda>c. c < 128) t then t else env_nfkc env t)
      in Inr (None, produce_text (Some IDENT) t s))"

definition commentline :: "int list \<Rightarrow> pyrex \<Rightarrow> int list option scanned" where
  "commentline t s = Inr (None, if parse_comments s then produce_text (Some (codes ''commentline'')) t s else s)"

definition strip_underscores :: "int list \<Rightarrow> int list \<Rightarrow> pyrex \<Rightarrow> int list option scanned" where
  "strip_underscores t symbol s = Inr (None, produce_text (Some symbol) (filter (\<lambda>c. c \<noteq> 95) t) s)"

subsection \<open>Brackets\<close>

definition begin_in :: "scan_env \<Rightarrow> string \<Rightarrow> pyrex \<Rightarrow> unit scanned" where
  "begin_in env name s = begin_state (env_lexicon env) name s"

definition open_bracket_action :: "int list \<Rightarrow> pyrex \<Rightarrow> int list option scanned" where
  "open_bracket_action t s = Inr (Some t, s\<lparr>bracket_nesting_level := bracket_nesting_level s + 1\<rparr>)"

definition close_bracket_action :: "int list \<Rightarrow> pyrex \<Rightarrow> int list option scanned" where
  "close_bracket_action t s =
     (let s = s\<lparr>bracket_nesting_level := bracket_nesting_level s - 1\<rparr> in
      case ft_string_state_stack s of
        [] \<Rightarrow> Inr (Some t, s)
      | f # _ \<Rightarrow>
          (case ft_bracket_nesting_level f of
             None \<Rightarrow> Inl (TypeError, s)
           | Some level \<Rightarrow>
               if level > bracket_nesting_level s
               then error_at_scanpos (codes ''Unmatched '' @ [39] @ t @ [39]) s
               else Inr (Some t, s)))"

definition open_brace_action :: "int list \<Rightarrow> pyrex \<Rightarrow> int list option scanned" where
  "open_brace_action t s = open_bracket_action t s"

text \<open>The end of the expression of a replacement field: the pre-scan is one level less deep.\<close>

definition leave_prescan :: "pyrex \<Rightarrow> pyrex" where
  "leave_prescan s =
     (let s = s\<lparr>in_ft_string_expr_prescan := in_ft_string_expr_prescan s - 1\<rparr>
      in if in_ft_string_expr_prescan s = 0 then produce_value ''END_FT_STRING_EXPR'' s else s)"

text \<open>\<open>pop_bracket_state\<close> and \<open>set_in_format_specifier\<close> of the innermost string.\<close>

definition pop_bracket_state :: "pyrex \<Rightarrow> unit scanned" where
  "pop_bracket_state s =
     (case ft_string_state_stack s of
        [] \<Rightarrow> Inl (IndexError, s)
      | f # fs \<Rightarrow>
          (case bracket_states f of
             [] \<Rightarrow> Inl (IndexError, s)
           | _ # brackets \<Rightarrow> Inr ((), s\<lparr>ft_string_state_stack := f\<lparr>bracket_states := brackets\<rparr> # fs\<rparr>)))"

definition set_in_format_specifier :: "pyrex \<Rightarrow> unit scanned" where
  "set_in_format_specifier s =
     (case ft_string_state_stack s of
        [] \<Rightarrow> Inl (IndexError, s)
      | f # fs \<Rightarrow>
          (case bracket_states f of
             [] \<Rightarrow> Inl (IndexError, s)
           | b # brackets \<Rightarrow> Inr ((), s\<lparr>ft_string_state_stack := f\<lparr>bracket_states := (fst b, True) # brackets\<rparr> # fs\<rparr>)))"

definition close_brace_action :: "scan_env \<Rightarrow> int list \<Rightarrow> pyrex \<Rightarrow> int list option scanned" where
  "close_brace_action env t s =
     (if t \<noteq> codes ''}'' then Inl (AssertionError, s)
      else and_then
        (case ft_string_state_stack s of
           [] \<Rightarrow> Inr ((), s)
         | f # _ \<Rightarrow>
             if ft_bracket_nesting_level f = Some (bracket_nesting_level s)
             then let s = (if \<not> in_format_specifier f then leave_prescan s else s)
               in and_then (begin_in env (scanner_state f) s) (\<lambda>_ s. pop_bracket_state s)
             else Inr ((), s))
        (\<lambda>_ s. Inr (Some t, s\<lparr>bracket_nesting_level := bracket_nesting_level s - 1\<rparr>)))"

definition colon_action :: "scan_env \<Rightarrow> int list \<Rightarrow> pyrex \<Rightarrow> int list option scanned" where
  "colon_action env t s =
     and_then
       (case ft_string_state_stack s of
          [] \<Rightarrow> Inr ((), s)
        | f # _ \<Rightarrow>
            if ft_bracket_nesting_level f = Some (bracket_nesting_level s)
            then and_then (begin_in env (scanner_state f) (leave_prescan s)) (\<lambda>_ s. set_in_format_specifier s)
            else Inr ((), s))
       (\<lambda>_ s. Inr (Some t, s))"

definition newline_action :: "scan_env \<Rightarrow> int list \<Rightarrow> pyrex \<Rightarrow> int list option scanned" where
  "newline_action env t s =
     (if bracket_nesting_level s = 0
      then and_then (begin_in env ''INDENT'' s) (\<lambda>_ s. Inr (None, produce_pair ''NEWLINE'' '''' s))
      else Inr (None, s))"

subsection \<open>Strings\<close>

definition string_states :: "(int list, string) pydict" where
  "string_states =
     [(codes sq, ''SQ_STRING''), (codes dq, ''DQ_STRING''), (codes tsq, ''TSQ_STRING''),
      (codes tdq, ''TDQ_STRING'')]"

definition after_string :: "pyrex \<Rightarrow> string" where
  "after_string s = (if in_ft_string_expr_prescan s \<noteq> 0 then ''FT_STRING_EXPR_PRESCAN'' else '''')"

definition begin_string_action :: "scan_env \<Rightarrow> int list \<Rightarrow> pyrex \<Rightarrow> int list option scanned" where
  "begin_string_action env t s =
     (case dict_get string_states (dropWhile (\<lambda>c. c \<in> set (codes any_string_prefix)) t) of
        None \<Rightarrow> Inl (KeyError, s)
      | Some name \<Rightarrow> and_then (begin_in env name s) (\<lambda>_ s. Inr (None, produce_value ''BEGIN_STRING'' s)))"

definition end_string_action :: "scan_env \<Rightarrow> int list \<Rightarrow> pyrex \<Rightarrow> int list option scanned" where
  "end_string_action env t s =
     and_then (begin_in env (after_string s) s) (\<lambda>_ s. Inr (None, produce_value ''END_STRING'' s))"

definition begin_ft_string_action :: "scan_env \<Rightarrow> int list \<Rightarrow> pyrex \<Rightarrow> int list option scanned" where
  "begin_ft_string_action env t s =
     (let is_raw = set (codes ''rR'') \<inter> set t \<noteq> {} in
      case dict_get string_states
          (dropWhile (\<lambda>c. c \<in> set (codes (any_string_prefix @ ft_string_prefixes))) t) of
        None \<Rightarrow> Inl (KeyError, s)
      | Some name \<Rightarrow>
          let name = name @ ''_FT'' @ (if is_raw then ''R'' else '''');
              s = s\<lparr>ft_string_state_stack :=
                     \<lparr>scanner_state = name, bracket_states = []\<rparr> # ft_string_state_stack s\<rparr>
          in and_then (begin_in env name s) (\<lambda>_ s. Inr (None, produce_value ''BEGIN_FT_STRING'' s)))"

definition end_ft_string_action :: "scan_env \<Rightarrow> int list \<Rightarrow> pyrex \<Rightarrow> int list option scanned" where
  "end_ft_string_action env t s =
     (case ft_string_state_stack s of
        [] \<Rightarrow> Inl (IndexError, s)
      | _ # fs \<Rightarrow>
          and_then (begin_in env (after_string s) (s\<lparr>ft_string_state_stack := fs\<rparr>))
            (\<lambda>_ s. Inr (None, produce_value ''END_FT_STRING'' s)))"

text \<open>\<open>_handle_open_single_ft_string_brace\<close>.\<close>

definition handle_open_single_brace :: "scan_env \<Rightarrow> bool \<Rightarrow> pyrex \<Rightarrow> unit scanned" where
  "handle_open_single_brace env started s =
     (let s = s\<lparr>bracket_nesting_level := bracket_nesting_level s + 1\<rparr> in
      and_then
        (if started then Inr ((), s)
         else case ft_string_state_stack s of
             [] \<Rightarrow> Inl (IndexError, s)
           | f # fs \<Rightarrow>
               let s = s\<lparr>ft_string_state_stack :=
                     f\<lparr>bracket_states := (bracket_nesting_level s, False) # bracket_states f\<rparr> # fs\<rparr>
               in and_then (begin_in env ''FT_STRING_EXPR_PRESCAN'' s)
                 (\<lambda>_ s. Inr ((), s\<lparr>in_ft_string_expr_prescan := in_ft_string_expr_prescan s + 1\<rparr>)))
        (\<lambda>_ s. Inr ((), produce_value ''{'' s)))"

definition produce_braces :: "int \<Rightarrow> string \<Rightarrow> pyrex \<Rightarrow> pyrex" where
  "produce_braces n brace s = (produce_pair ''CHARS'' brace ^^ nat n) s"

definition open_ft_string_brace_action :: "scan_env \<Rightarrow> int list \<Rightarrow> pyrex \<Rightarrow> int list option scanned" where
  "open_ft_string_brace_action env t s =
     (case ft_string_state_stack s of
        [] \<Rightarrow> Inl (IndexError, s)
      | f # _ \<Rightarrow>
          and_then
            (if in_format_specifier f
             then and_then (handle_open_single_brace env False s) (\<lambda>_ s. Inr ((int (length t) - 1, True), s))
             else Inr ((int (length t), False), s))
            (\<lambda>(len_text, started) s.
               case ft_string_state_stack s of
                 [] \<Rightarrow> Inl (IndexError, s)
               | f # _ \<Rightarrow>
                   if in_format_specifier f then Inl (AssertionError, s)
                   else
                     let s = produce_braces (len_text div 2) ''{'' s;
                         len_text = len_text - len_text div 2 * 2
                     in if len_text = 0 then Inr (None, s)
                       else if len_text \<noteq> 1 then Inl (AssertionError, s)
                       else and_then (handle_open_single_brace env started s) (\<lambda>_ s. Inr (None, s))))"

text \<open>\<open>_handle_close_single_ft_string_brace\<close>.\<close>

definition handle_close_single_brace :: "scan_env \<Rightarrow> pyrex \<Rightarrow> unit scanned" where
  "handle_close_single_brace env s =
     (case ft_string_state_stack s of
        [] \<Rightarrow> Inl (IndexError, s)
      | f # _ \<Rightarrow>
          if (case ft_bracket_nesting_level f of None \<Rightarrow> True | Some level \<Rightarrow> bracket_nesting_level s < level)
          then Inr ((), produce_pair ''}'' ''}''
            (scanner_error (codes ''f-string or t-string: single '' @ [39, 125, 39] @ codes '' is not allowed'')
               (Some (get_current_scan_pos s)) s))
          else and_then (close_brace_action env (codes ''}'') s)
            (\<lambda>v s. Inr ((), produce_text v (codes ''}'') s)))"

fun close_format_braces :: "scan_env \<Rightarrow> nat \<Rightarrow> pyrex \<Rightarrow> nat scanned" where
  "close_format_braces env 0 s = Inr (0, s)"
| "close_format_braces env (Suc n) s =
     (case ft_string_state_stack s of
        [] \<Rightarrow> Inl (IndexError, s)
      | f # _ \<Rightarrow>
          if in_format_specifier f
          then and_then (handle_close_single_brace env s) (\<lambda>_ s. close_format_braces env n s)
          else Inr (Suc n, s))"

definition close_ft_string_brace_action :: "scan_env \<Rightarrow> int list \<Rightarrow> pyrex \<Rightarrow> int list option scanned" where
  "close_ft_string_brace_action env t s =
     and_then (close_format_braces env (length t) s)
       (\<lambda>len_text s.
          let s = produce_braces (int (len_text div 2)) ''}'' s
          in if len_text - len_text div 2 * 2 = 0 then Inr (None, s)
            else and_then (handle_close_single_brace env s) (\<lambda>_ s. Inr (None, s)))"

definition unclosed_string_action :: "scan_env \<Rightarrow> int list \<Rightarrow> pyrex \<Rightarrow> int list option scanned" where
  "unclosed_string_action env t s =
     and_then (end_string_action env t s) (\<lambda>_ s. error_at_scanpos (codes ''Unclosed string literal'') s)"

subsection \<open>Indentation\<close>

text \<open>The loops that close blocks.\<close>

function dedent_to :: "int \<Rightarrow> pyrex \<Rightarrow> unit scanned" where
  "dedent_to new_level s =
     (case indentation_stack s of
        [] \<Rightarrow> Inl (IndexError, s)
      | level # levels \<Rightarrow>
          if new_level < level
          then dedent_to new_level (produce_pair ''DEDENT'' '''' (s\<lparr>indentation_stack := levels\<rparr>))
          else Inr ((), s))"
  by pat_completeness auto

lemma produce_fields [simp]:
  "indentation_stack (produce_text v t s) = indentation_stack s"
  "indentation_stack (produce_pair a b s) = indentation_stack s"
  by (simp_all add: produce_text_def produce_pair_def)

termination dedent_to
  by (relation "measure (\<lambda>(n, s). length (indentation_stack s))") auto

function close_blocks :: "pyrex \<Rightarrow> pyrex" where
  "close_blocks s =
     (if length (indentation_stack s) > 1
      then close_blocks ((produce_pair ''DEDENT'' '''' s)\<lparr>indentation_stack := tl (indentation_stack s)\<rparr>)
      else s)"
  by pat_completeness auto

termination close_blocks
  by (relation "measure (\<lambda>s. length (indentation_stack s))") auto

declare dedent_to.simps [simp del] close_blocks.simps [simp del]

definition check_indentation_char :: "int list \<Rightarrow> pyrex \<Rightarrow> unit scanned" where
  "check_indentation_char t s =
     (case t of
        [] \<Rightarrow> Inr ((), s)
      | c # _ \<Rightarrow>
          and_then
            (if indentation_char s = 0 then Inr ((), s\<lparr>indentation_char := c\<rparr>)
             else if indentation_char s \<noteq> c then error_at_scanpos (codes ''Mixed use of tabs and spaces'') s
             else Inr ((), s))
            (\<lambda>_ s. if filter (\<lambda>d. d \<noteq> c) t \<noteq> []
               then error_at_scanpos (codes ''Mixed use of tabs and spaces'') s else Inr ((), s)))"

definition change_level :: "int \<Rightarrow> pyrex \<Rightarrow> int list option scanned" where
  "change_level new_level s =
     (case indentation_stack s of
        [] \<Rightarrow> Inl (IndexError, s)
      | current_level # _ \<Rightarrow>
          if new_level = current_level then Inr (None, s)
          else if new_level > current_level
          then Inr (None, produce_pair ''INDENT'' '''' (s\<lparr>indentation_stack := new_level # indentation_stack s\<rparr>))
          else and_then (dedent_to new_level s)
            (\<lambda>_ s. case indentation_stack s of
                [] \<Rightarrow> Inl (IndexError, s)
              | level # _ \<Rightarrow>
                  if new_level \<noteq> level then error_at_scanpos (codes ''Inconsistent indentation'') s
                  else Inr (None, s)))"

definition indentation_action :: "scan_env \<Rightarrow> int list \<Rightarrow> pyrex \<Rightarrow> int list option scanned" where
  "indentation_action env t s =
     and_then (begin_in env '''' s)
       (\<lambda>_ s. and_then (check_indentation_char t s) (\<lambda>_ s. change_level (int (length t)) s))"

definition eof_action :: "int list \<Rightarrow> pyrex \<Rightarrow> int list option scanned" where
  "eof_action t s = Inr (None, produce_pair ''EOF'' '''' (close_blocks s))"

subsection \<open>Calling a method\<close>

text \<open>\<open>getattr(token_stream, name)\<close> and the call with keyword arguments.\<close>

definition scanner_methods ::
  "scan_env \<Rightarrow> (string, int list \<Rightarrow> pyrex \<Rightarrow> int list option scanned) pydict" where
  "scanner_methods env =
     [(''normalize_ident'', normalize_ident env), (''commentline'', commentline),
      (''open_bracket_action'', open_bracket_action), (''close_bracket_action'', close_bracket_action),
      (''open_brace_action'', open_brace_action), (''close_brace_action'', close_brace_action env),
      (''colon_action'', colon_action env), (''newline_action'', newline_action env),
      (''begin_string_action'', begin_string_action env), (''end_string_action'', end_string_action env),
      (''begin_ft_string_action'', begin_ft_string_action env),
      (''end_ft_string_action'', end_ft_string_action env),
      (''open_ft_string_brace_action'', open_ft_string_brace_action env),
      (''close_ft_string_brace_action'', close_ft_string_brace_action env),
      (''unclosed_string_action'', unclosed_string_action env),
      (''indentation_action'', indentation_action env), (''eof_action'', eof_action)]"

definition invoke ::
  "scan_env \<Rightarrow> string \<Rightarrow> (string, string) pydict \<Rightarrow> int list \<Rightarrow> pyrex \<Rightarrow> int list option scanned" where
  "invoke env name kwargs t s =
     (if name = ''strip_underscores'' then
        (if map fst kwargs = [''symbol''] then strip_underscores t (codes (snd (hd kwargs))) s
         else Inl (TypeError, s))
      else case dict_get (scanner_methods env) name of
             None \<Rightarrow> Inl (AttributeError, s)
           | Some method \<Rightarrow> if kwargs \<noteq> [] then Inl (TypeError, s) else method t s)"

text \<open>No token of the lexicon has a function as its action.\<close>

definition pyrex_action ::
  "scan_env \<Rightarrow> (string, unit) Action \<Rightarrow> int list \<Rightarrow> pyrex \<Rightarrow> int list option scanned" where
  "pyrex_action env = perform codes (\<lambda>_ t s. Inl (TypeError, s)) (invoke env) (begin_in env)"

subsection \<open>The stream of tokens\<close>

text \<open>The conversion of an identifier that is a keyword, which may drop \<open>print\<close> or \<open>exec\<close> from the
  keywords.\<close>

definition keyword_token ::
  "scan_env \<Rightarrow> int list option \<Rightarrow> int list \<Rightarrow> pyrex \<Rightarrow> int list option \<times> pyrex" where
  "keyword_token env v t s =
     (if v \<noteq> Some IDENT then (v, s)
      else case dict_get (kw_table s) t of
          None \<Rightarrow> (v, s)
        | Some keyword \<Rightarrow>
            if t = codes ''print'' \<and> env_print_function env
            then (v, s\<lparr>kw_table := dict_del (codes ''print'') (kw_table s)\<rparr>)
            else if t = codes ''exec'' \<and> env_language_level env \<ge> 3
            then (v, s\<lparr>kw_table := dict_del (codes ''exec'') (kw_table s)\<rparr>)
            else (Some keyword, s))"

definition accept_token :: "scan_env \<Rightarrow> int list option \<Rightarrow> int list \<Rightarrow> pyrex \<Rightarrow> pyrex" where
  "accept_token env v t s =
     (case keyword_token env v t s of
        (v, s) \<Rightarrow>
          let s = s\<lparr>put_back_on_failure :=
                map_option (\<lambda>ts. ts @ [((v, t), sc_last_pos s)]) (put_back_on_failure s)\<rparr>
          in s\<lparr>sy := v, systring := t\<rparr>)"

definition next_token :: "scan_env \<Rightarrow> pyrex \<Rightarrow> unit scanned option" where
  "next_token env s =
     (case read_token (env_lexicon env) (pyrex_action env) s of
        None \<Rightarrow> None
      | Some (Inl (UnrecognizedToken _, s)) \<Rightarrow> Some (error_at_scanpos (codes ''Unrecognized character'') s)
      | Some (Inl e) \<Rightarrow> Some (Inl e)
      | Some (Inr ((v, t), s)) \<Rightarrow> Some (Inr ((), accept_token env v t s)))"

text \<open>The current token and \<open>put_back\<close>, which makes a token the current one and unreads the one
  before.\<close>

definition current_token :: "pyrex \<Rightarrow> token" where
  "current_token s = ((sy s, systring s), sc_last_pos s)"

definition set_current :: "token \<Rightarrow> pyrex \<Rightarrow> pyrex" where
  "set_current tok s = s\<lparr>sy := fst (fst tok), systring := snd (fst tok), sc_last_pos := snd tok\<rparr>"

definition put_back :: "token \<Rightarrow> pyrex \<Rightarrow> pyrex" where
  "put_back tok s = set_current tok (unread (sy s) (systring s) (sc_last_pos s) s)"

definition peek :: "scan_env \<Rightarrow> pyrex \<Rightarrow> (int list option \<times> int list) scanned option" where
  "peek env s =
     (case next_token env s of
        None \<Rightarrow> None
      | Some (Inl e) \<Rightarrow> Some (Inl e)
      | Some (Inr (_, s')) \<Rightarrow>
          Some (Inr ((sy s', systring s'),
            set_current (current_token s) (unread (sy s') (systring s') (sc_last_pos s') s'))))"

text \<open>The operations that require a token; a message is \<open>None\<close> or a string.\<close>

definition expected :: "int list \<Rightarrow> int list option \<Rightarrow> pyrex \<Rightarrow> 'a scanned" where
  "expected what message s =
     (let m = (case message of None \<Rightarrow> [] | Some m \<Rightarrow> m) in
      if m \<noteq> [] then raise_error m None s
      else raise_error (codes ''Expected '' @ [39] @ what @ [39] @ codes '', found '' @ [39]
          @ (if sy s = Some IDENT then systring s
             else case sy s of None \<Rightarrow> codes ''None'' | Some v \<Rightarrow> v) @ [39]) None s)"

definition expect :: "scan_env \<Rightarrow> int list \<Rightarrow> int list option \<Rightarrow> pyrex \<Rightarrow> unit scanned option" where
  "expect env what message s =
     (if sy s = Some what then next_token env s else Some (expected what message s))"

definition expect_keyword :: "scan_env \<Rightarrow> int list \<Rightarrow> int list option \<Rightarrow> pyrex \<Rightarrow> unit scanned option" where
  "expect_keyword env what message s =
     (if sy s = Some IDENT \<and> systring s = what then next_token env s else Some (expected what message s))"

definition expect_indent :: "scan_env \<Rightarrow> pyrex \<Rightarrow> unit scanned option" where
  "expect_indent env =
     expect env (codes ''INDENT'') (Some (codes ''Expected an increase in indentation level''))"

definition expect_dedent :: "scan_env \<Rightarrow> pyrex \<Rightarrow> unit scanned option" where
  "expect_dedent env =
     expect env (codes ''DEDENT'') (Some (codes ''Expected a decrease in indentation level''))"

definition then_scan :: "'a scanned option \<Rightarrow> (pyrex \<Rightarrow> 'b scanned option) \<Rightarrow> 'b scanned option" where
  "then_scan r f =
     (case r of None \<Rightarrow> None | Some (Inl e) \<Rightarrow> Some (Inl e) | Some (Inr (_, s)) \<Rightarrow> f s)"

definition expect_newline :: "scan_env \<Rightarrow> int list \<Rightarrow> bool \<Rightarrow> pyrex \<Rightarrow> unit scanned option" where
  "expect_newline env message ignore_semicolon s =
     (let semicolon = ignore_semicolon \<and> sy s = Some (codes '';''); pos = sc_last_pos s in
      then_scan (if semicolon then next_token env s else Some (Inr ((), s)))
        (\<lambda>s. then_scan
           (if sy s \<noteq> Some (codes ''EOF'') then expect env (codes ''NEWLINE'') (Some message) s
            else Some (Inr ((), s)))
           (\<lambda>s. Some (Inr ((), if semicolon
              then s\<lparr>warning_listing := warning_listing s @ [(pos, codes ''useless trailing semicolon'')]\<rparr>
              else s)))))"

definition enter_async :: "pyrex \<Rightarrow> pyrex" where
  "enter_async s =
     (let s = s\<lparr>async_enabled := async_enabled s + 1\<rparr> in
      if async_enabled s = 1
      then s\<lparr>kw_table := dict_set (codes ''await'') (codes ''await'')
               (dict_set (codes ''async'') (codes ''async'') (kw_table s))\<rparr>
      else s)"

definition exit_async :: "pyrex \<Rightarrow> unit scanned" where
  "exit_async s =
     (if \<not> async_enabled s > 0 then Inl (AssertionError, s)
      else
        let s = s\<lparr>async_enabled := async_enabled s - 1\<rparr> in
        if async_enabled s \<noteq> 0 then Inr ((), s)
        else if dict_get (kw_table s) (codes ''await'') = None then Inl (KeyError, s)
        else
          let s = s\<lparr>kw_table := dict_del (codes ''await'') (kw_table s)\<rparr> in
          if dict_get (kw_table s) (codes ''async'') = None then Inl (KeyError, s)
          else
            let s = s\<lparr>kw_table := dict_del (codes ''async'') (kw_table s)\<rparr> in
            Inr ((), case sy s of
                None \<Rightarrow> s
              | Some v \<Rightarrow>
                  if v = codes ''async'' \<or> v = codes ''await'' then s\<lparr>sy := Some IDENT, systring := v\<rparr> else s))"

text \<open>\<open>tentatively_scan\<close>: the body runs with errors held back; when there are any, its tokens are put
  back. The result tells whether the body raised a \<open>CompileError\<close>, and the errors.\<close>

definition restore_tokens :: "token \<Rightarrow> pyrex \<Rightarrow> pyrex" where
  "restore_tokens initial_state s =
     (case put_back_on_failure s of
        Some (t # ts) \<Rightarrow> put_back initial_state (foldl (\<lambda>s tok. put_back tok s) s (rev (butlast (t # ts))))
      | _ \<Rightarrow> s)"

definition end_tentative :: "token list option \<Rightarrow> token \<Rightarrow> pyrex \<Rightarrow> scan_message list \<times> pyrex" where
  "end_tentative outer initial_state s =
     (let errors = hd (error_stack s);
          s = (if errors \<noteq> [] then restore_tokens initial_state s else s);
          outer = (if errors \<noteq> [] then outer
            else map_option (\<lambda>ts. ts @ (case put_back_on_failure s of None \<Rightarrow> [] | Some ts' \<Rightarrow> ts')) outer)
      in (errors, s\<lparr>put_back_on_failure := outer, error_stack := tl (error_stack s)\<rparr>))"

definition tentatively_scan ::
  "(pyrex \<Rightarrow> 'a scanned option) \<Rightarrow> pyrex \<Rightarrow> ('a option \<times> scan_message list) scanned option" where
  "tentatively_scan body s =
     (let outer = put_back_on_failure s; initial_state = current_token s in
      case body (s\<lparr>error_stack := [] # error_stack s, put_back_on_failure := Some []\<rparr>) of
        None \<Rightarrow> None
      | Some (Inr (a, s)) \<Rightarrow>
          (case end_tentative outer initial_state s of (errors, s) \<Rightarrow> Some (Inr ((Some a, errors), s)))
      | Some (Inl (CompileError pos message, s)) \<Rightarrow>
          (case end_tentative outer initial_state s of (errors, s) \<Rightarrow> Some (Inr ((None, errors), s)))
      | Some (Inl (e, s)) \<Rightarrow> Some (Inl (e, snd (end_tentative outer initial_state s))))"

text \<open>\<open>__init__\<close> up to the first token; \<open>parent_async\<close> is \<open>parent_scanner.async_enabled\<close>, \<open>pos\<close> the
  line and column of \<open>initial_pos\<close>.\<close>

definition pyrex_start ::
  "scan_env \<Rightarrow> bool \<Rightarrow> bool \<Rightarrow> bool \<Rightarrow> (nat \<times> int) option \<Rightarrow> int list list \<Rightarrow> unit scanned" where
  "pyrex_start env python_file comments parent_async pos chunks =
     (let p = scan_pos_init;
          p = (case pos of None \<Rightarrow> p | Some (line, col) \<Rightarrow> p\<lparr>cur_line := line, cur_line_start := - col\<rparr>);
          words = (if python_file then py_reserved_words else pyx_reserved_words);
          s = \<lparr>sc_pos = p, sc_input = scan_input_init chunks, sc_text = [], sc_state_name = '''',
            sc_initial_state = 0, sc_queue = [], sc_last_pos = (0, 0),
            in_python_file = python_file, kw_table = map (\<lambda>w. (codes w, codes w)) words,
            async_enabled = 0, parse_comments = comments, indentation_stack = [0], indentation_char = 0,
            bracket_nesting_level = 0, ft_string_state_stack = [], in_ft_string_expr_prescan = 0,
            put_back_on_failure = None, sy = Some [], systring = [], error_stack = [],
            error_listing = [], warning_listing = []\<rparr>
      in and_then (begin_in env '''' s)
           (\<lambda>_ s. begin_in env ''INDENT'' (if parent_async then enter_async s else s)))"

definition pyrex_init ::
  "scan_env \<Rightarrow> bool \<Rightarrow> bool \<Rightarrow> bool \<Rightarrow> (nat \<times> int) option \<Rightarrow> int list list \<Rightarrow> unit scanned option" where
  "pyrex_init env python_file comments parent_async pos chunks =
     then_scan (Some (pyrex_start env python_file comments parent_async pos chunks)) (next_token env)"

subsection \<open>Names known at compile time\<close>

text \<open>\<open>CompileTimeScope\<close>, the scopes from the inner one outwards.\<close>

type_synonym 'v compile_time_scope = "(string, 'v) pydict list"

fun scope_lookup :: "'v compile_time_scope \<Rightarrow> string \<Rightarrow> scan_exn + 'v" where
  "scope_lookup [] name = Inl KeyError"
| "scope_lookup (entries # outer) name =
     (case dict_get entries name of Some v \<Rightarrow> Inr v | None \<Rightarrow> scope_lookup outer name)"

definition scope_declare :: "string \<Rightarrow> 'v \<Rightarrow> 'v compile_time_scope \<Rightarrow> 'v compile_time_scope" where
  "scope_declare name v scope =
     (case scope of [] \<Rightarrow> [] | entries # outer \<Rightarrow> dict_set name v entries # outer)"

definition scope_update :: "(string, 'v) pydict \<Rightarrow> 'v compile_time_scope \<Rightarrow> 'v compile_time_scope" where
  "scope_update other scope =
     (case scope of [] \<Rightarrow> []
      | entries # outer \<Rightarrow> foldl (\<lambda>d (k, v). dict_set k v d) entries other # outer)"

definition scope_contains :: "'v compile_time_scope \<Rightarrow> string \<Rightarrow> bool" where
  "scope_contains scope name \<longleftrightarrow> (case scope of [] \<Rightarrow> False | entries # _ \<Rightarrow> dict_has entries name)"

end
