(* ===== verification/PyrexSafety.thy ===== *)
theory PyrexSafety
  imports PyrexScanner "HOL-Library.Sublist"
begin

text \<open>
  The invariant of the scanner: in each scanner state the stacks have the shape that its methods
  need, so no method fails on an empty stack, a missing level or an unknown state, and the only
  exception that leaves it is \<open>CompileError\<close>.
\<close>

subsection \<open>Token values\<close>

lemma codes_inject [simp]: "codes a = codes b \<longleftrightarrow> a = b"
  by (auto simp: codes_def inj_map_eq_map inj_on_def)

definition INDENT_value :: "int list option" where "INDENT_value = Some (codes ''INDENT'')"
definition DEDENT_value :: "int list option" where "DEDENT_value = Some (codes ''DEDENT'')"
definition EOF_value :: "int list option" where "EOF_value = Some (codes ''EOF'')"

lemmas block_values = INDENT_value_def DEDENT_value_def EOF_value_def

definition plain :: "int list option \<Rightarrow> bool" where
  "plain v \<longleftrightarrow> v \<notin> {INDENT_value, DEDENT_value, EOF_value}"

lemma plain_codes [simp]: "plain (Some (codes v)) \<longleftrightarrow> v \<notin> {''INDENT'', ''DEDENT'', ''EOF''}"
  by (simp add: plain_def block_values)

lemma plain_None [simp]: "plain None"
  by (simp add: plain_def block_values)

lemma plain_lower:
  assumes "list_all (\<lambda>c. \<not> upper c) t"
  shows "plain (Some t)"
proof -
  have "\<not> list_all (\<lambda>c. \<not> upper c) (codes v)" if "v \<in> {''INDENT'', ''DEDENT'', ''EOF''}" for v
    using that by (auto simp: codes_def upper_def)
  then show ?thesis using assms by (auto simp: plain_def block_values)
qed

abbreviation tok_value :: "token \<Rightarrow> int list option" where "tok_value tok \<equiv> fst (fst tok)"

subsection \<open>Relations between states\<close>

text \<open>What no method changes.\<close>

definition same :: "pyrex \<Rightarrow> pyrex \<Rightarrow> bool" where
  "same s s' \<longleftrightarrow>
     sc_pos s' = sc_pos s \<and> sc_input s' = sc_input s \<and> sc_text s' = sc_text s \<and> kw_table s' = kw_table s
     \<and> put_back_on_failure s' = put_back_on_failure s \<and> async_enabled s' = async_enabled s
     \<and> tl (error_stack s') = tl (error_stack s) \<and> (error_stack s' = []) = (error_stack s = [])"

text \<open>Only tokens that open and close no block are added to the queue.\<close>

definition quiet :: "pyrex \<Rightarrow> pyrex \<Rightarrow> bool" where
  "quiet s s' \<longleftrightarrow>
     same s s' \<and> indentation_stack s' = indentation_stack s \<and> prefix (sc_queue s) (sc_queue s')
     \<and> list_all (\<lambda>tok. plain (tok_value tok)) (drop (length (sc_queue s)) (sc_queue s'))"

lemma quiet_refl [simp]: "quiet s s"
  by (simp add: quiet_def same_def)

lemma quiet_trans: "quiet s s' \<Longrightarrow> quiet s' s'' \<Longrightarrow> quiet s s''"
  by (auto simp: quiet_def same_def prefix_def)

text \<open>A replacement field is open in a string that waits for its end; the fields around it are in
  their format specifiers.\<close>

definition waiting :: "ft_string_state \<Rightarrow> bool" where
  "waiting f \<longleftrightarrow>
     scanner_state f \<in> set ft_state_names
     \<and> (case bracket_states f of [] \<Rightarrow> False | b # brackets \<Rightarrow> \<not> snd b \<and> list_all snd brackets)"

definition formatting :: "ft_string_state \<Rightarrow> bool" where
  "formatting f \<longleftrightarrow> scanner_state f \<in> set ft_state_names \<and> list_all snd (bracket_states f)"

definition mode_ok :: "pyrex \<Rightarrow> bool" where
  "mode_ok s \<longleftrightarrow>
     (if sc_state_name s \<in> set ft_state_names then
        (case ft_string_state_stack s of
           [] \<Rightarrow> False
         | f # fs \<Rightarrow> formatting f \<and> scanner_state f = sc_state_name s \<and> list_all waiting fs
             \<and> in_ft_string_expr_prescan s = int (length fs))
      else
        list_all waiting (ft_string_state_stack s)
        \<and> in_ft_string_expr_prescan s = int (length (ft_string_state_stack s))
        \<and> (sc_state_name s \<in> {'''', ''INDENT''} \<longrightarrow> ft_string_state_stack s = [])
        \<and> (sc_state_name s = ''FT_STRING_EXPR_PRESCAN'' \<longrightarrow> ft_string_state_stack s \<noteq> []))"

definition name_ok :: "scan_env \<Rightarrow> pyrex \<Rightarrow> bool" where
  "name_ok env s \<longleftrightarrow>
     sc_state_name s \<in> set pyrex_states
     \<and> dict_get (fm_initial_states (env_lexicon env)) (sc_state_name s) = Some (sc_initial_state s)"

text \<open>The outcome of a method that opens and closes no block.\<close>

definition fine :: "scan_env \<Rightarrow> pyrex \<Rightarrow> 'a scanned \<Rightarrow> bool" where
  "fine env s r \<longleftrightarrow>
     (case r of
        Inl (e, s') \<Rightarrow> \<exists>pos message. e = CompileError pos message
      | Inr (a, s') \<Rightarrow> name_ok env s' \<and> mode_ok s' \<and> quiet s s')"

lemma fine_simps [simp]:
  "fine env s (Inl (e, s')) \<longleftrightarrow> (\<exists>pos message. e = CompileError pos message)"
  "fine env s (Inr (a, s')) \<longleftrightarrow> name_ok env s' \<and> mode_ok s' \<and> quiet s s'"
  by (simp_all add: fine_def)

lemma fine_quiet: "quiet s s' \<Longrightarrow> fine env s' r \<Longrightarrow> fine env s r"
  using quiet_trans [of s s'] by (auto simp: fine_def split: sum.splits prod.splits)

lemma fine_and_then:
  assumes "fine env s r"
    and "\<And>a s'. r = Inr (a, s') \<Longrightarrow> name_ok env s' \<Longrightarrow> mode_ok s' \<Longrightarrow> quiet s s' \<Longrightarrow> fine env s' (f a s')"
  shows "fine env s (and_then r f)"
proof (cases r)
  case (Inr x)
  obtain a s' where x: "x = (a, s')" by (cases x)
  then have "fine env s' (f a s')" "quiet s s'" using assms Inr by auto
  then show ?thesis using x Inr quiet_trans [of s s'] by (cases "f a s'") (auto simp: fine_def split: prod.splits)
qed (use assms(1) in \<open>auto simp: and_then_def split: prod.splits\<close>)

lemma fine_map [simp]:
  "fine env s (and_then r (\<lambda>_ s. Inr (g s, s))) = fine env s r"
  by (auto simp: and_then_def fine_def split: sum.splits prod.splits)

lemma raise_error_fine [simp]: "fine env s (raise_error m pos s')" "fine env s (error_at_scanpos m s')"
  by (simp_all add: raise_error_def error_at_scanpos_def)

subsection \<open>Entering a scanner state\<close>

definition entered :: "scan_env \<Rightarrow> string \<Rightarrow> pyrex \<Rightarrow> pyrex" where
  "entered env name s =
     s\<lparr>sc_initial_state := the (dict_get (fm_initial_states (env_lexicon env)) name), sc_state_name := name\<rparr>"

lemma begin_entered:
  assumes "pyrex_machine (env_lexicon env)" and "name \<in> set pyrex_states"
  shows "begin_in env name s = Inr ((), entered env name s)"
    and "name_ok env (entered env name s)"
proof -
  obtain n where "dict_get (fm_initial_states (env_lexicon env)) name = Some n"
    using pyrex_machine_specs [OF assms(1)] assms(2) by metis
  then show "begin_in env name s = Inr ((), entered env name s)" "name_ok env (entered env name s)"
    using assms(2) by (simp_all add: begin_in_def begin_state_def entered_def name_ok_def)
qed

lemma states [simp]:
  "[] \<in> set pyrex_states" "''INDENT'' \<in> set pyrex_states" "''FT_STRING_EXPR_PRESCAN'' \<in> set pyrex_states"
  "name \<in> set string_state_names \<Longrightarrow> name \<in> set pyrex_states"
  "name \<in> set ft_state_names \<Longrightarrow> name \<in> set pyrex_states"
  by (auto simp: pyrex_states_def pyrex_state_names_def string_state_names_def ft_state_names_def)

lemma not_ft [simp]:
  "[] \<notin> set ft_state_names" "''INDENT'' \<notin> set ft_state_names" "''FT_STRING_EXPR_PRESCAN'' \<notin> set ft_state_names"
  "name \<in> set string_state_names \<Longrightarrow> name \<notin> set ft_state_names"
  "name \<in> set string_state_names \<Longrightarrow> name \<noteq> []"
  "name \<in> set string_state_names \<Longrightarrow> name \<noteq> ''INDENT''"
  "name \<in> set string_state_names \<Longrightarrow> name \<noteq> ''FT_STRING_EXPR_PRESCAN''"
  by (auto simp: string_state_names_def ft_state_names_def)

text \<open>How the queue and the stacks change.\<close>

lemmas produce_defs = produce_value_def produce_pair_def produce_def produce_text_def

lemma entered_fields [simp]:
  "sc_state_name (entered env name s) = name" "ft_string_state_stack (entered env name s) = ft_string_state_stack s"
  "in_ft_string_expr_prescan (entered env name s) = in_ft_string_expr_prescan s"
  "indentation_stack (entered env name s) = indentation_stack s" "sc_queue (entered env name s) = sc_queue s"
  "same s0 (entered env name s) = same s0 s"
  by (simp_all add: entered_def same_def)

lemma quiet_entered [simp]: "quiet s0 (entered env name s) = quiet s0 s"
  by (simp add: quiet_def)

lemma produced [simp]:
  "sc_state_name (produce_text v t s) = sc_state_name s"
  "ft_string_state_stack (produce_text v t s) = ft_string_state_stack s"
  "in_ft_string_expr_prescan (produce_text v t s) = in_ft_string_expr_prescan s"
  "mode_ok (produce_text v t s) = mode_ok s" "name_ok env (produce_text v t s) = name_ok env s"
  "same s0 (produce_text v t s) = same s0 s"
  by (auto simp: produce_text_def mode_ok_def name_ok_def same_def split: list.splits)

lemma quiet_produce [simp]: "plain v \<Longrightarrow> quiet s0 s \<Longrightarrow> quiet s0 (produce_text v t s)"
  by (auto simp: quiet_def produce_text_def same_def prefix_def)

lemmas produce_values = produce_value_def produce_pair_def produce_def

lemma level_update [simp]:
  "mode_ok (s\<lparr>bracket_nesting_level := n\<rparr>) = mode_ok s" "name_ok env (s\<lparr>bracket_nesting_level := n\<rparr>) = name_ok env s"
  "quiet s0 (s\<lparr>bracket_nesting_level := n\<rparr>) = quiet s0 s"
  by (auto simp: mode_ok_def name_ok_def quiet_def same_def split: list.splits)

lemma stack_update [simp]:
  "quiet s0 (s\<lparr>ft_string_state_stack := fs\<rparr>) = quiet s0 s"
  "quiet s0 (s\<lparr>in_ft_string_expr_prescan := n\<rparr>) = quiet s0 s"
  "name_ok env (s\<lparr>ft_string_state_stack := fs\<rparr>) = name_ok env s"
  "name_ok env (s\<lparr>in_ft_string_expr_prescan := n\<rparr>) = name_ok env s"
  by (simp_all add: quiet_def same_def name_ok_def)

lemma report_update [simp]:
  "mode_ok (scanner_error m pos s) = mode_ok s" "name_ok env (scanner_error m pos s) = name_ok env s"
  "quiet s0 (scanner_error m pos s) = quiet s0 s"
  by (auto simp: scanner_error_def report_error_def mode_ok_def name_ok_def quiet_def same_def split: list.splits)

lemma leave_prescan_fields [simp]:
  "sc_state_name (leave_prescan s) = sc_state_name s"
  "ft_string_state_stack (leave_prescan s) = ft_string_state_stack s"
  "in_ft_string_expr_prescan (leave_prescan s) = in_ft_string_expr_prescan s - 1"
  "quiet s0 s \<Longrightarrow> quiet s0 (leave_prescan s)"
  by (simp_all add: leave_prescan_def produce_values Let_def)

subsection \<open>The methods\<close>

text \<open>Where brackets, strings and names are scanned.\<close>

definition code_mode :: "pyrex \<Rightarrow> bool" where
  "code_mode s \<longleftrightarrow> sc_state_name s \<in> {'''', ''FT_STRING_EXPR_PRESCAN''}"

lemma code_mode_cases:
  assumes "mode_ok s" and "code_mode s"
  obtains "sc_state_name s = []" "ft_string_state_stack s = []" "in_ft_string_expr_prescan s = 0"
  | f fs where "sc_state_name s = ''FT_STRING_EXPR_PRESCAN''" "ft_string_state_stack s = f # fs" "waiting f"
      "list_all waiting fs" "in_ft_string_expr_prescan s = 1 + int (length fs)"
  using assms by (cases "ft_string_state_stack s") (auto simp: mode_ok_def code_mode_def)

lemma ft_mode_cases:
  assumes "mode_ok s" and "sc_state_name s \<in> set ft_state_names"
  obtains f fs where "ft_string_state_stack s = f # fs" "formatting f" "scanner_state f = sc_state_name s"
    "list_all waiting fs" "in_ft_string_expr_prescan s = int (length fs)"
  using assms by (cases "ft_string_state_stack s") (auto simp: mode_ok_def)

lemma waiting_cases:
  assumes "waiting f"
  obtains level brackets where "bracket_states f = (level, False) # brackets" "list_all snd brackets"
    "scanner_state f \<in> set ft_state_names"
  using assms by (cases "bracket_states f") (auto simp: waiting_def)

lemma simple_methods_fine:
  assumes "name_ok env s" and "mode_ok s"
  shows "fine env s (normalize_ident env t s)" "fine env s (commentline t s)"
    "plain (Some symbol) \<Longrightarrow> fine env s (strip_underscores t symbol s)"
    "fine env s (open_bracket_action t s)" "fine env s (open_brace_action t s)"
  using assms
  by (simp_all add: normalize_ident_def commentline_def strip_underscores_def open_brace_action_def
      open_bracket_action_def IDENT_def Let_def)

lemma close_bracket_fine:
  assumes "name_ok env s" and "mode_ok s" and "code_mode s"
  shows "fine env s (close_bracket_action t s)"
  using assms(2,3)
proof (cases rule: code_mode_cases)
  case 1
  then show ?thesis using assms by (simp add: close_bracket_action_def)
next
  case (2 f fs)
  obtain level brackets where "bracket_states f = (level, False) # brackets"
    using waiting_cases [OF 2(3)] .
  then show ?thesis using 2 assms by (simp add: close_bracket_action_def ft_bracket_nesting_level_def Let_def)
qed

lemma mode_ft:
  assumes "list_all snd brackets" "name \<in> set ft_state_names" "list_all waiting fs"
    and "sc_state_name s = name" "ft_string_state_stack s = f # fs" "scanner_state f = name"
      "bracket_states f = brackets" "in_ft_string_expr_prescan s = int (length fs)"
  shows "mode_ok s"
  using assms by (simp add: mode_ok_def formatting_def)

lemma close_brace_fine:
  assumes env: "pyrex_machine (env_lexicon env)" and s: "name_ok env s" "mode_ok s"
    and mode: "code_mode s \<or> sc_state_name s \<in> set ft_state_names" and t: "t = codes ''}''"
  shows "fine env s (close_brace_action env t s)"
proof (cases "ft_string_state_stack s")
  case Nil
  then show ?thesis using s t by (simp add: close_brace_action_def)
next
  case (Cons f fs)
  show ?thesis
  proof (cases "ft_bracket_nesting_level f = Some (bracket_nesting_level s)")
    case False
    then show ?thesis using s t Cons by (simp add: close_brace_action_def)
  next
    case True
    let ?s = "if \<not> in_format_specifier f then leave_prescan s else s"
    obtain b brackets where b: "bracket_states f = b # brackets" "list_all snd brackets"
      "scanner_state f \<in> set ft_state_names" "list_all waiting fs"
      "in_ft_string_expr_prescan s = (if snd b then 0 else 1) + int (length fs)"
    proof (cases "sc_state_name s \<in> set ft_state_names")
      case True
      obtain "formatting f" "scanner_state f = sc_state_name s" "list_all waiting fs"
        "in_ft_string_expr_prescan s = int (length fs)"
        using ft_mode_cases [OF s(2) True] Cons by auto
      moreover from this obtain b brackets where "bracket_states f = b # brackets"
        using \<open>ft_bracket_nesting_level f = _\<close> by (auto simp: ft_bracket_nesting_level_def split: list.splits)
      ultimately show thesis using that [of b brackets] by (auto simp: formatting_def)
    next
      case False
      then have "code_mode s" using mode by simp
      from s(2) this show thesis
      proof (cases rule: code_mode_cases)
        case (2 f' fs')
        then have eq: "fs' = fs" "f' = f" using Cons by auto
        obtain level brackets where "bracket_states f = (level, False) # brackets" "list_all snd brackets"
          "scanner_state f \<in> set ft_state_names" using waiting_cases 2(3) unfolding eq by blast
        then show thesis using that [of "(level, False)" brackets] 2(4,5) unfolding eq by simp
      qed (use Cons in simp)
    qed
    have "mode_ok (entered env (scanner_state f) ?s\<lparr>ft_string_state_stack := f\<lparr>bracket_states := brackets\<rparr> # fs\<rparr>)"
      using b Cons
      by (intro mode_ft [of brackets "scanner_state f" fs _ "f\<lparr>bracket_states := brackets\<rparr>"])
        (auto simp: in_format_specifier_def)
    moreover have "quiet s ?s" by simp
    ultimately show ?thesis
      using begin_entered [OF env states(5) [OF b(3)], of ?s] b(1) Cons t True
      by (cases "in_format_specifier f") (simp_all add: close_brace_action_def pop_bracket_state_def Let_def)
  qed
qed

lemma colon_fine:
  assumes env: "pyrex_machine (env_lexicon env)" and s: "name_ok env s" "mode_ok s"
    and mode: "code_mode s"
  shows "fine env s (colon_action env t s)"
  using s(2) mode
proof (cases rule: code_mode_cases)
  case 1
  then show ?thesis using s by (simp add: colon_action_def)
next
  case (2 f fs)
  obtain level brackets where b: "bracket_states f = (level, False) # brackets" "list_all snd brackets"
    "scanner_state f \<in> set ft_state_names" using waiting_cases [OF 2(3)] .
  have "mode_ok (entered env (scanner_state f) (leave_prescan s)
      \<lparr>ft_string_state_stack := f\<lparr>bracket_states := (level, True) # brackets\<rparr> # fs\<rparr>)"
    using b 2
    by (intro mode_ft [of "(level, True) # brackets" "scanner_state f" fs _
          "f\<lparr>bracket_states := (level, True) # brackets\<rparr>"]) auto
  then show ?thesis
    using begin_entered [OF env states(5) [OF b(3)], of "leave_prescan s"] b 2 s
    by (simp add: colon_action_def set_in_format_specifier_def Let_def)
qed

lemma newline_fine:
  assumes env: "pyrex_machine (env_lexicon env)" and s: "name_ok env s" "mode_ok s" "sc_state_name s = []"
  shows "fine env s (newline_action env t s)"
proof -
  have "mode_ok (entered env ''INDENT'' s)" using s by (simp add: mode_ok_def)
  then show ?thesis using begin_entered [OF env states(2), of s] s by (simp add: newline_action_def produce_values)
qed

lemma string_states_mem:
  "q \<in> set (map codes quotes) \<Longrightarrow> \<exists>name \<in> set string_state_names. dict_get string_states q = Some name"
  by (auto simp: quotes_def string_states_def string_state_names_def tsq_def tdq_def)

lemma begin_string_text:
  "token_text (MethodAction ''begin_string_action'' []) t \<Longrightarrow>
     dropWhile (\<lambda>c. c \<in> set (codes any_string_prefix)) t \<in> set (map codes quotes)"
  "token_text (MethodAction ''begin_ft_string_action'' []) t \<Longrightarrow>
     dropWhile (\<lambda>c. c \<in> set (codes (any_string_prefix @ ft_string_prefixes))) t \<in> set (map codes quotes)"
  unfolding token_text_def by simp_all

lemma begin_string_fine:
  assumes env: "pyrex_machine (env_lexicon env)" and s: "name_ok env s" "mode_ok s" "code_mode s"
    and t: "token_text (MethodAction ''begin_string_action'' []) t"
  shows "fine env s (begin_string_action env t s)"
proof -
  obtain name where name: "name \<in> set string_state_names"
    "dict_get string_states (dropWhile (\<lambda>c. c \<in> set (codes any_string_prefix)) t) = Some name"
    using string_states_mem begin_string_text(1) [OF t] by blast
  have "mode_ok (entered env name s)"
    using s name(1) by (auto simp: mode_ok_def code_mode_def)
  then show ?thesis
    using begin_entered [OF env states(4) [OF name(1)], of s] name(2)
    by (simp add: begin_string_action_def produce_values)
qed

lemma ft_names: "name \<in> set string_state_names \<Longrightarrow> name @ ''_FT'' @ (if raw then ''R'' else '''') \<in> set ft_state_names"
  by (auto simp: string_state_names_def ft_state_names_def)

lemma begin_ft_string_fine:
  assumes env: "pyrex_machine (env_lexicon env)" and s: "name_ok env s" "mode_ok s" "code_mode s"
    and t: "token_text (MethodAction ''begin_ft_string_action'' []) t"
  shows "fine env s (begin_ft_string_action env t s)"
proof -
  obtain name where name: "name \<in> set string_state_names"
    "dict_get string_states (dropWhile (\<lambda>c. c \<in> set (codes (any_string_prefix @ ft_string_prefixes))) t) = Some name"
    using string_states_mem begin_string_text(2) [OF t] by blast
  let ?raw = "set (codes ''rR'') \<inter> set t \<noteq> {}"
  let ?name = "name @ ''_FT'' @ (if ?raw then ''R'' else '''')"
  let ?s = "s\<lparr>ft_string_state_stack := \<lparr>scanner_state = ?name, bracket_states = []\<rparr> # ft_string_state_stack s\<rparr>"
  have ft: "?name \<in> set ft_state_names" by (rule ft_names [OF name(1)])
  have "list_all waiting (ft_string_state_stack s)
      \<and> in_ft_string_expr_prescan s = int (length (ft_string_state_stack s))"
    using s(2,3) by (auto simp: mode_ok_def code_mode_def)
  then have "mode_ok (entered env ?name ?s)"
    using ft
    by (intro mode_ft [of "[]" ?name "ft_string_state_stack s" _ "\<lparr>scanner_state = ?name, bracket_states = []\<rparr>"])
      simp_all
  then show ?thesis
    using begin_entered [OF env states(5) [OF ft], of ?s] name(2)
    by (simp add: begin_ft_string_action_def produce_values Let_def del: append_assoc)
qed

lemma after_string_state: "after_string s \<in> set pyrex_states"
  by (simp add: after_string_def)

lemma end_string_fine:
  assumes env: "pyrex_machine (env_lexicon env)"
    and s: "name_ok env s" "mode_ok s" "sc_state_name s \<in> set string_state_names"
  shows "fine env s (end_string_action env t s)"
proof -
  have "mode_ok (entered env (after_string s) s)"
    using s(2,3) by (auto simp: mode_ok_def after_string_def)
  then show ?thesis
    using begin_entered [OF env after_string_state, of s s] by (simp add: end_string_action_def produce_values)
qed

lemma unclosed_string_fine:
  assumes env: "pyrex_machine (env_lexicon env)"
  shows "fine env s (unclosed_string_action env t s)"
  using begin_entered(1) [OF env after_string_state, of s s]
  by (simp add: unclosed_string_action_def end_string_action_def)

lemma end_ft_string_fine:
  assumes env: "pyrex_machine (env_lexicon env)"
    and s: "name_ok env s" "mode_ok s" "sc_state_name s \<in> set ft_state_names"
  shows "fine env s (end_ft_string_action env t s)"
proof -
  obtain f fs where f: "ft_string_state_stack s = f # fs" "list_all waiting fs"
    "in_ft_string_expr_prescan s = int (length fs)"
    using ft_mode_cases [OF s(2,3)] by metis
  let ?s = "s\<lparr>ft_string_state_stack := fs\<rparr>"
  have "mode_ok (entered env (after_string s) ?s)"
    using f by (auto simp: mode_ok_def after_string_def)
  then show ?thesis
    using begin_entered [OF env after_string_state, of s ?s] f(1)
    by (simp add: end_ft_string_action_def produce_values)
qed

lemma produce_braces_fields [simp]:
  "sc_state_name (produce_braces n b s) = sc_state_name s"
  "ft_string_state_stack (produce_braces n b s) = ft_string_state_stack s"
  "in_ft_string_expr_prescan (produce_braces n b s) = in_ft_string_expr_prescan s"
  "mode_ok (produce_braces n b s) = mode_ok s" "name_ok env (produce_braces n b s) = name_ok env s"
  "quiet s0 s \<Longrightarrow> quiet s0 (produce_braces n b s)"
proof -
  have "sc_state_name ((produce_pair ''CHARS'' b ^^ k) s) = sc_state_name s
      \<and> ft_string_state_stack ((produce_pair ''CHARS'' b ^^ k) s) = ft_string_state_stack s
      \<and> in_ft_string_expr_prescan ((produce_pair ''CHARS'' b ^^ k) s) = in_ft_string_expr_prescan s
      \<and> mode_ok ((produce_pair ''CHARS'' b ^^ k) s) = mode_ok s
      \<and> name_ok env ((produce_pair ''CHARS'' b ^^ k) s) = name_ok env s
      \<and> (quiet s0 s \<longrightarrow> quiet s0 ((produce_pair ''CHARS'' b ^^ k) s))" for k s0
    by (induction k) (simp_all add: produce_values)
  then show "sc_state_name (produce_braces n b s) = sc_state_name s"
    "ft_string_state_stack (produce_braces n b s) = ft_string_state_stack s"
    "in_ft_string_expr_prescan (produce_braces n b s) = in_ft_string_expr_prescan s"
    "mode_ok (produce_braces n b s) = mode_ok s" "name_ok env (produce_braces n b s) = name_ok env s"
    "quiet s0 s \<Longrightarrow> quiet s0 (produce_braces n b s)"
    by (simp_all add: produce_braces_def)
qed

text \<open>Opening a replacement field leaves a string for the pre-scan of its expression.\<close>

lemma handle_open_spec:
  assumes env: "pyrex_machine (env_lexicon env)" and s: "name_ok env s" "mode_ok s"
  shows "fine env s (handle_open_single_brace env True s)"
    and "sc_state_name s \<in> set ft_state_names \<Longrightarrow>
      \<exists>s'. handle_open_single_brace env False s = Inr ((), s') \<and> fine env s (Inr ((), s'))
        \<and> (\<exists>f fs. ft_string_state_stack s' = f # fs \<and> \<not> in_format_specifier f)"
proof -
  show "fine env s (handle_open_single_brace env True s)"
    using s by (simp add: handle_open_single_brace_def produce_values)
next
  assume ft: "sc_state_name s \<in> set ft_state_names"
  obtain f fs where f: "ft_string_state_stack s = f # fs" "formatting f" "list_all waiting fs"
    "in_ft_string_expr_prescan s = int (length fs)"
    using ft_mode_cases [OF s(2) ft] by metis
  let ?f = "f\<lparr>bracket_states := (bracket_nesting_level s + 1, False) # bracket_states f\<rparr>"
  let ?s = "s\<lparr>bracket_nesting_level := bracket_nesting_level s + 1, ft_string_state_stack := ?f # fs\<rparr>"
  let ?t = "entered env ''FT_STRING_EXPR_PRESCAN'' ?s
      \<lparr>in_ft_string_expr_prescan := in_ft_string_expr_prescan s + 1\<rparr>"
  have "waiting ?f" using f(2) by (simp add: waiting_def formatting_def)
  then have "mode_ok ?t" using f by (simp add: mode_ok_def)
  moreover have "handle_open_single_brace env False s = Inr ((), produce_value ''{'' ?t)"
    using f(1) begin_entered(1) [OF env states(3), of ?s] by (simp add: handle_open_single_brace_def Let_def)
  moreover have "name_ok env ?t" using begin_entered(2) [OF env states(3), of ?s] by simp
  moreover have "quiet s ?t" by simp
  moreover have "\<not> in_format_specifier ?f" by (simp add: in_format_specifier_def)
  ultimately show "\<exists>s'. handle_open_single_brace env False s = Inr ((), s') \<and> fine env s (Inr ((), s'))
        \<and> (\<exists>f fs. ft_string_state_stack s' = f # fs \<and> \<not> in_format_specifier f)"
    by (intro exI [of _ "produce_value ''{'' ?t"]) (simp add: produce_values)
qed

lemma open_ft_brace_fine:
  assumes env: "pyrex_machine (env_lexicon env)"
    and s: "name_ok env s" "mode_ok s" "sc_state_name s \<in> set ft_state_names"
  shows "fine env s (open_ft_string_brace_action env t s)"
proof -
  obtain f fs where f: "ft_string_state_stack s = f # fs" using ft_mode_cases [OF s(2,3)] by metis
  have odd: "n - n div 2 * 2 = 0 \<or> n - n div 2 * 2 = 1" for n :: int by presburger
  show ?thesis
  proof (cases "in_format_specifier f")
    case True
    obtain s' f' fs' where s': "handle_open_single_brace env False s = Inr ((), s')" "fine env s (Inr ((), s'))"
      "ft_string_state_stack s' = f' # fs'" "\<not> in_format_specifier f'"
      using handle_open_spec(2) [OF env s] by blast
    let ?n = "int (length t) - 1"
    let ?s = "produce_braces (?n div 2) ''{'' s'"
    have fine: "name_ok env ?s" "mode_ok ?s" "quiet s ?s" using s'(2) by simp_all
    have last: "fine env ?s (handle_open_single_brace env True ?s)"
      by (rule handle_open_spec(1) [OF env fine(1,2)])
    have "fine env s (handle_open_single_brace env True ?s)"
      by (rule fine_quiet [OF fine(3) last])
    then show ?thesis
      using s'(1,3,4) f True odd [of ?n] fine by (auto simp: open_ft_string_brace_action_def Let_def)
  next
    case False
    let ?n = "int (length t)"
    let ?s = "produce_braces (?n div 2) ''{'' s"
    have fine: "name_ok env ?s" "mode_ok ?s" "sc_state_name ?s \<in> set ft_state_names" "quiet s ?s"
      using s by simp_all
    obtain s' where "handle_open_single_brace env False ?s = Inr ((), s')" "fine env ?s (Inr ((), s'))"
      using handle_open_spec(2) [OF env fine(1-3)] by blast
    then show ?thesis
      using f False odd [of ?n] fine quiet_trans [OF fine(4)]
      by (auto simp: open_ft_string_brace_action_def Let_def)
  qed
qed

text \<open>A closing brace in a string leaves the scanner in a string.\<close>

lemma close_brace_value:
  "close_brace_action env t s = Inr (v, s') \<Longrightarrow> v = Some t"
  by (auto simp: close_brace_action_def and_then_def split: sum.splits prod.splits if_splits list.splits)

lemma begin_name: "begin_in env name s = Inr (a, s') \<Longrightarrow> sc_state_name s' = name \<and> ft_string_state_stack s' = ft_string_state_stack s"
  by (auto simp: begin_in_def begin_state_def split: option.splits)

lemma pop_name: "pop_bracket_state s = Inr (a, s') \<Longrightarrow> sc_state_name s' = sc_state_name s"
  by (auto simp: pop_bracket_state_def split: list.splits)

lemma close_brace_ft:
  assumes "mode_ok s" and "sc_state_name s \<in> set ft_state_names" and "close_brace_action env t s = Inr (v, s')"
  shows "sc_state_name s' \<in> set ft_state_names"
proof -
  obtain f fs where "ft_string_state_stack s = f # fs" "scanner_state f \<in> set ft_state_names"
    using ft_mode_cases [OF assms(1,2)] assms(2) by metis
  then show ?thesis
    using assms(2,3)
    by (auto simp: close_brace_action_def and_then_def Let_def split: sum.splits prod.splits if_splits
        dest!: begin_name pop_name)
qed

lemma handle_close_spec:
  assumes env: "pyrex_machine (env_lexicon env)"
    and s: "name_ok env s" "mode_ok s" "sc_state_name s \<in> set ft_state_names"
  shows "fine env s (handle_close_single_brace env s)"
    and "handle_close_single_brace env s = Inr (a, s') \<Longrightarrow> sc_state_name s' \<in> set ft_state_names"
proof -
  obtain f fs where f: "ft_string_state_stack s = f # fs" using ft_mode_cases [OF s(2,3)] by metis
  have close: "fine env s (close_brace_action env (codes ''}'') s)"
    using close_brace_fine [OF env s(1,2)] s(3) by simp
  show "fine env s (handle_close_single_brace env s)"
    using f s close close_brace_value [of env "codes ''}''" s]
    by (auto simp: handle_close_single_brace_def and_then_def produce_values fine_def split: sum.splits prod.splits)
  show "sc_state_name s' \<in> set ft_state_names" if "handle_close_single_brace env s = Inr (a, s')"
    using that f s(3) close_brace_ft [OF s(2,3)]
    by (auto simp: handle_close_single_brace_def and_then_def produce_values scanner_error_def
        report_error_def split: sum.splits prod.splits if_splits list.splits option.splits)
qed

lemma close_format_spec:
  assumes env: "pyrex_machine (env_lexicon env)"
  shows "name_ok env s \<Longrightarrow> mode_ok s \<Longrightarrow> sc_state_name s \<in> set ft_state_names \<Longrightarrow>
    fine env s (close_format_braces env n s)
    \<and> (\<forall>k s'. close_format_braces env n s = Inr (k, s') \<longrightarrow> sc_state_name s' \<in> set ft_state_names)"
proof (induction n arbitrary: s)
  case (Suc n)
  obtain f fs where f: "ft_string_state_stack s = f # fs" using ft_mode_cases Suc.prems by metis
  show ?case
  proof (cases "in_format_specifier f")
    case True
    have eq: "close_format_braces env (Suc n) s
        = and_then (handle_close_single_brace env s) (\<lambda>_ s. close_format_braces env n s)"
      using True f by simp
    have 1: "fine env s (close_format_braces env (Suc n) s)"
      unfolding eq
    proof (rule fine_and_then)
      fix a s' assume "handle_close_single_brace env s = Inr (a, s')" "name_ok env s'" "mode_ok s'"
      then show "fine env s' (close_format_braces env n s')"
        using Suc.IH [of s'] handle_close_spec(2) [OF env Suc.prems] by blast
    qed (rule handle_close_spec(1) [OF env Suc.prems])
    have "sc_state_name s' \<in> set ft_state_names" if r: "close_format_braces env (Suc n) s = Inr (k, s')" for k s'
    proof -
      obtain s1 where s1: "handle_close_single_brace env s = Inr ((), s1)" "close_format_braces env n s1 = Inr (k, s')"
        using r unfolding eq by (auto simp: and_then_def split: sum.splits prod.splits)
      have "name_ok env s1" "mode_ok s1" using handle_close_spec(1) [OF env Suc.prems] s1(1) by simp_all
      then show ?thesis using Suc.IH [of s1] s1 handle_close_spec(2) [OF env Suc.prems] by blast
    qed
    with 1 show ?thesis by blast
  qed (use f Suc.prems in simp)
qed simp

lemma close_ft_brace_fine:
  assumes env: "pyrex_machine (env_lexicon env)"
    and s: "name_ok env s" "mode_ok s" "sc_state_name s \<in> set ft_state_names"
  shows "fine env s (close_ft_string_brace_action env t s)"
  unfolding close_ft_string_brace_action_def
proof (rule fine_and_then)
  show "fine env s (close_format_braces env (length t) s)" using close_format_spec [OF env s] by blast
  fix n s' assume r: "close_format_braces env (length t) s = Inr (n, s')" and s': "name_ok env s'" "mode_ok s'" "quiet s s'"
  then have ft: "sc_state_name s' \<in> set ft_state_names" using close_format_spec [OF env s] by blast
  let ?s = "produce_braces (int (n div 2)) ''}'' s'"
  have fine: "name_ok env ?s" "mode_ok ?s" "sc_state_name ?s \<in> set ft_state_names" "quiet s' ?s"
    using s' ft by simp_all
  have "fine env s' (and_then (handle_close_single_brace env ?s) (\<lambda>_ s. Inr (None :: int list option, s)))"
    unfolding fine_map by (rule fine_quiet [OF fine(4) handle_close_spec(1) [OF env fine(1-3)]])
  moreover have "fine env s' (Inr (None :: int list option, ?s))" unfolding fine_simps using fine by blast
  ultimately show "fine env s' (let s = ?s in if n - n div 2 * 2 = 0 then Inr (None :: int list option, s)
      else and_then (handle_close_single_brace env s) (\<lambda>_ s. Inr (None, s)))"
    by (cases "n - n div 2 * 2 = 0") (simp_all only: Let_def if_True if_False simp_thms)
qed

subsection \<open>Blocks\<close>

text \<open>The levels of the open blocks, and the number of blocks that a sequence of tokens leaves open;
  \<open>None\<close> when one is closed that was not opened.\<close>

definition blocks_ok :: "pyrex \<Rightarrow> bool" where
  "blocks_ok s \<longleftrightarrow>
     indentation_stack s \<noteq> [] \<and> last (indentation_stack s) = 0 \<and> sorted_wrt (>) (indentation_stack s)"

definition depth :: "pyrex \<Rightarrow> nat" where
  "depth s = length (indentation_stack s) - 1"

fun nest :: "int list option list \<Rightarrow> nat \<Rightarrow> nat option" where
  "nest [] d = Some d"
| "nest (v # vs) d =
     (if v = INDENT_value then nest vs (Suc d)
      else if v = DEDENT_value then (case d of 0 \<Rightarrow> None | Suc d \<Rightarrow> nest vs d)
      else nest vs d)"

lemma nest_append: "nest (us @ vs) d = (case nest us d of None \<Rightarrow> None | Some d' \<Rightarrow> nest vs d')"
  by (induction us arbitrary: d) (auto split: nat.split)

lemma nest_plain: "list_all plain vs \<Longrightarrow> nest vs d = Some d"
  by (induction vs) (auto simp: plain_def)

text \<open>The tokens a step adds, with the value it returns, account for the change of the stack; the end
  of the file outside of strings closes all blocks.\<close>

definition accounts :: "pyrex \<Rightarrow> int list option \<Rightarrow> pyrex \<Rightarrow> bool" where
  "accounts s v s' \<longleftrightarrow>
     (\<exists>new vs. sc_queue s' = sc_queue s @ new \<and> vs = map tok_value new @ (if v = None then [] else [v])
        \<and> nest vs (depth s) = Some (depth s')
        \<and> EOF_value \<notin> set (butlast vs)
        \<and> (EOF_value \<in> set vs \<longrightarrow> sc_state_name s' \<in> {'''', ''INDENT''} \<longrightarrow> indentation_stack s' = [0]))"

definition acted :: "scan_env \<Rightarrow> pyrex \<Rightarrow> int list option scanned \<Rightarrow> bool" where
  "acted env s r \<longleftrightarrow>
     (case r of
        Inl (e, s') \<Rightarrow> \<exists>pos message. e = CompileError pos message
      | Inr (v, s') \<Rightarrow> name_ok env s' \<and> mode_ok s' \<and> blocks_ok s' \<and> same s s' \<and> accounts s v s')"

lemma acted_simps [simp]:
  "acted env s (Inl (e, s')) \<longleftrightarrow> (\<exists>pos message. e = CompileError pos message)"
  "acted env s (Inr (v, s')) \<longleftrightarrow>
     name_ok env s' \<and> mode_ok s' \<and> blocks_ok s' \<and> same s s' \<and> accounts s v s'"
  by (simp_all add: acted_def)

lemma quiet_accounts:
  assumes "quiet s s'" and "plain v"
  shows "accounts s v s'"
proof -
  obtain new where new: "sc_queue s' = sc_queue s @ new" "list_all (\<lambda>tok. plain (tok_value tok)) new"
    using assms(1) by (auto simp: quiet_def prefix_def)
  let ?vs = "map tok_value new @ (if v = None then [] else [v])"
  have "list_all plain ?vs" using new(2) assms(2) by (simp add: list_all_iff)
  moreover from this have "EOF_value \<notin> set ?vs" unfolding list_all_iff plain_def by blast
  moreover from this have "EOF_value \<notin> set (butlast ?vs)" by (meson in_set_butlastD)
  ultimately show ?thesis
    using new(1) assms(1) nest_plain [of ?vs] unfolding accounts_def depth_def quiet_def by auto
qed

lemma fine_acted:
  assumes "fine env s r" and "blocks_ok s" and "\<And>v s'. r = Inr (v, s') \<Longrightarrow> plain v"
  shows "acted env s r"
proof (cases r)
  case (Inr x)
  obtain v s' where "x = (v, s')" by (cases x)
  with Inr have "r = Inr (v, s')" by simp
  moreover from this have "quiet s s'" "name_ok env s'" "mode_ok s'" "plain v" using assms by auto
  ultimately show ?thesis
    using assms(2) quiet_accounts by (simp add: blocks_ok_def quiet_def)
qed (use assms(1) in \<open>auto simp: fine_def acted_def split: prod.splits\<close>)

text \<open>What closing blocks leaves alone.\<close>

definition frame :: "pyrex \<Rightarrow> pyrex \<Rightarrow> bool" where
  "frame s s' \<longleftrightarrow>
     same s s' \<and> sc_state_name s' = sc_state_name s \<and> sc_initial_state s' = sc_initial_state s
     \<and> ft_string_state_stack s' = ft_string_state_stack s
     \<and> in_ft_string_expr_prescan s' = in_ft_string_expr_prescan s"

lemma frame_ok: "frame s s' \<Longrightarrow> name_ok env s' = name_ok env s \<and> mode_ok s' = mode_ok s \<and> same s s'"
  by (auto simp: frame_def name_ok_def mode_ok_def split: list.splits)

definition dedents :: "nat \<Rightarrow> pyrex \<Rightarrow> pyrex \<Rightarrow> bool" where
  "dedents n s s' \<longleftrightarrow>
     frame s s' \<and> (\<exists>new. sc_queue s' = sc_queue s @ new \<and> map tok_value new = replicate n DEDENT_value)
     \<and> indentation_stack s' = drop n (indentation_stack s) \<and> n < length (indentation_stack s)"

lemma dedents_0: "indentation_stack s \<noteq> [] \<Longrightarrow> dedents 0 s s"
  by (simp add: dedents_def frame_def same_def)

lemma dedents_Suc:
  assumes "indentation_stack s = level # levels" and "levels \<noteq> []"
    and d: "dedents n (produce_pair ''DEDENT'' '''' (s\<lparr>indentation_stack := levels\<rparr>)) s'"
  shows "dedents (Suc n) s s'"
proof -
  let ?s = "produce_pair ''DEDENT'' '''' (s\<lparr>indentation_stack := levels\<rparr>)"
  have "frame s ?s" by (simp add: frame_def same_def produce_defs)
  then have "frame s s'" using d by (simp add: dedents_def frame_def same_def)
  moreover obtain new where "sc_queue s' = sc_queue ?s @ new" "map tok_value new = replicate n DEDENT_value"
    using d by (auto simp: dedents_def)
  ultimately show ?thesis using d assms(1,2)
    by (auto simp: dedents_def produce_defs block_values)
qed

lemma dedent_to_spec:
  "blocks_ok s \<Longrightarrow> 0 \<le> new_level \<Longrightarrow>
     \<exists>n s'. dedent_to new_level s = Inr ((), s') \<and> dedents n s s' \<and> hd (indentation_stack s') \<le> new_level"
proof (induction "length (indentation_stack s)" arbitrary: s)
  case 0
  then show ?case by (simp add: blocks_ok_def)
next
  case (Suc k)
  obtain level levels where st: "indentation_stack s = level # levels" using Suc.hyps(2) by (cases "indentation_stack s") auto
  let ?s = "produce_pair ''DEDENT'' '''' (s\<lparr>indentation_stack := levels\<rparr>)"
  show ?case
  proof (cases "new_level < level")
    case True
    have levels: "levels \<noteq> []" using Suc.prems st True by (auto simp: blocks_ok_def)
    then have "blocks_ok ?s" using Suc.prems(1) st by (simp add: blocks_ok_def)
    moreover have "k = length (indentation_stack ?s)" using Suc.hyps(2) st by simp
    ultimately obtain n s' where "dedent_to new_level ?s = Inr ((), s')" "dedents n ?s s'"
      "hd (indentation_stack s') \<le> new_level"
      using Suc.hyps(1) [of ?s] Suc.prems(2) by blast
    moreover have "dedent_to new_level s = dedent_to new_level ?s"
      using st True by (simp add: dedent_to.simps [of new_level s])
    ultimately show ?thesis using dedents_Suc [OF st levels] by metis
  next
    case False
    then show ?thesis using st dedents_0 [of s]
      by (intro exI [of _ 0] exI [of _ s]) (simp add: dedent_to.simps [of new_level s])
  qed
qed

lemma produce_pair_stack:
  "produce_pair a b (s\<lparr>indentation_stack := l\<rparr>) = (produce_pair a b s)\<lparr>indentation_stack := l\<rparr>"
  by (cases s) (simp add: produce_defs get_current_scan_pos_def)

lemma close_blocks_spec:
  "blocks_ok s \<Longrightarrow> \<exists>n. dedents n s (close_blocks s) \<and> indentation_stack (close_blocks s) = [0]"
proof (induction "length (indentation_stack s)" arbitrary: s)
  case 0
  then show ?case by (simp add: blocks_ok_def)
next
  case (Suc k)
  obtain level levels where st: "indentation_stack s = level # levels" using Suc.hyps(2) by (cases "indentation_stack s") auto
  let ?s = "produce_pair ''DEDENT'' '''' (s\<lparr>indentation_stack := levels\<rparr>)"
  show ?case
  proof (cases "levels = []")
    case False
    then have "blocks_ok ?s" using Suc.prems(1) st by (simp add: blocks_ok_def)
    moreover have "k = length (indentation_stack ?s)" using Suc.hyps(2) st by simp
    ultimately obtain n where "dedents n ?s (close_blocks ?s)" "indentation_stack (close_blocks ?s) = [0]"
      using Suc.hyps(1) [of ?s] by blast
    moreover have "close_blocks s = close_blocks ?s"
      using st False by (simp add: close_blocks.simps [of s] produce_pair_stack)
    ultimately show ?thesis using dedents_Suc [OF st False] by metis
  next
    case True
    then have "indentation_stack s = [0]" "close_blocks s = s"
      using Suc.prems st by (auto simp: blocks_ok_def close_blocks.simps [of s])
    then show ?thesis using dedents_0 [of s] by auto
  qed
qed

lemma nest_dedents: "n \<le> d \<Longrightarrow> nest (replicate n DEDENT_value) d = Some (d - n)"
proof (induction n arbitrary: d)
  case (Suc n)
  then show ?case by (cases d) (auto simp: block_values)
qed simp

lemma sorted_drop: "sorted_wrt P xs \<Longrightarrow> sorted_wrt P (drop n xs)"
  by (metis append_take_drop_id sorted_wrt_append)

lemma dedents_ok:
  assumes "dedents n s s'" and "blocks_ok s"
  shows "blocks_ok s'" and "nest (replicate n DEDENT_value) (depth s) = Some (depth s')"
proof -
  show "blocks_ok s'"
    using assms sorted_drop [of "(>)" "indentation_stack s" n] by (auto simp: dedents_def blocks_ok_def)
  show "nest (replicate n DEDENT_value) (depth s) = Some (depth s')"
    using assms(1) nest_dedents [of n "depth s"] by (auto simp: dedents_def depth_def)
qed

subsection \<open>Indentation and the end of the file\<close>

lemma value_distinct [simp]:
  "DEDENT_value \<noteq> INDENT_value" "EOF_value \<noteq> INDENT_value" "EOF_value \<noteq> DEDENT_value"
  "INDENT_value \<noteq> DEDENT_value" "INDENT_value \<noteq> EOF_value" "DEDENT_value \<noteq> EOF_value"
  by (simp_all add: block_values)

lemma check_indentation_spec:
  "case check_indentation_char t s of
     Inl (e, s') \<Rightarrow> \<exists>pos message. e = CompileError pos message
   | Inr (a, s') \<Rightarrow> \<exists>c. s' = s\<lparr>indentation_char := c\<rparr>"
proof -
  have "\<exists>c. s = s\<lparr>indentation_char := c\<rparr>" by (intro exI [of _ "indentation_char s"]) simp
  then show ?thesis
    by (auto simp: check_indentation_char_def and_then_def error_at_scanpos_def raise_error_def
        split: list.split sum.split prod.split)
qed

lemma change_level_acted:
  assumes s: "name_ok env s" "mode_ok s" "blocks_ok s" "0 \<le> new_level"
  shows "acted env s (change_level new_level s)"
proof -
  obtain level levels where st: "indentation_stack s = level # levels"
    using s(3) by (cases "indentation_stack s") (auto simp: blocks_ok_def)
  consider "new_level = level" | "new_level > level" | "new_level < level" by linarith
  then show ?thesis
  proof cases
    case 1
    then show ?thesis using s st by (simp add: change_level_def accounts_def same_def)
  next
    case 2
    let ?s = "produce_pair ''INDENT'' '''' (s\<lparr>indentation_stack := new_level # indentation_stack s\<rparr>)"
    have "frame s ?s" by (simp add: frame_def same_def produce_defs)
    note f = frame_ok [OF this, of env]
    have "blocks_ok ?s" using s(3) st 2 by (auto simp: blocks_ok_def)
    moreover have "accounts s None ?s"
      using st by (simp add: accounts_def depth_def produce_defs block_values)
    ultimately show ?thesis using f s(1,2) st 2 by (simp add: change_level_def)
  next
    case 3
    obtain n s' where d: "dedent_to new_level s = Inr ((), s')" "dedents n s s'"
      using dedent_to_spec [OF s(3,4)] by blast
    note ok = dedents_ok [OF d(2) s(3)]
    obtain l ls where st': "indentation_stack s' = l # ls"
      using ok(1) by (cases "indentation_stack s'") (auto simp: blocks_ok_def)
    have "frame s s'" using d(2) by (simp add: dedents_def)
    note f = frame_ok [OF this, of env]
    obtain new where "sc_queue s' = sc_queue s @ new" "map tok_value new = replicate n DEDENT_value"
      using d(2) by (auto simp: dedents_def)
    then have "accounts s None s'" using ok(2) unfolding accounts_def
      by (intro exI [of _ new] exI [of _ "replicate n DEDENT_value"]) (auto dest: in_set_butlastD)
    then show ?thesis using d(1) st st' 3 ok(1) f s(1,2) by (simp add: change_level_def error_at_scanpos_def raise_error_def)
  qed
qed

lemma acted_frame:
  assumes "acted env s' r" and "sc_queue s' = sc_queue s" "indentation_stack s' = indentation_stack s" "same s s'"
  shows "acted env s r"
  using assms by (auto simp: acted_def accounts_def depth_def same_def split: sum.splits prod.splits)

lemma indentation_acted:
  assumes env: "pyrex_machine (env_lexicon env)"
    and s: "name_ok env s" "mode_ok s" "blocks_ok s" "sc_state_name s = ''INDENT''"
  shows "acted env s (indentation_action env t s)"
proof -
  let ?s = "entered env '''' s"
  have m: "mode_ok ?s" using s(2,4) by (simp add: mode_ok_def)
  have same: "same s ?s" by (simp add: same_def entered_def)
  show ?thesis
  proof (cases "check_indentation_char t ?s")
    case (Inl x)
    then show ?thesis
      using check_indentation_spec [where t = t and s = "?s"] begin_entered(1) [OF env states(1), of s]
      by (auto simp: indentation_action_def split: prod.splits)
  next
    case (Inr x)
    then obtain a c where x: "x = (a, ?s\<lparr>indentation_char := c\<rparr>)"
      using check_indentation_spec [where t = t and s = "?s"] by (auto split: prod.splits)
    let ?t = "?s\<lparr>indentation_char := c\<rparr>"
    have "name_ok env ?t" using begin_entered(2) [OF env states(1), of s] by (simp add: name_ok_def)
    moreover have "mode_ok ?t" using m by (simp add: mode_ok_def)
    moreover have "blocks_ok ?t" using s(3) by (simp add: blocks_ok_def)
    ultimately have "acted env ?t (change_level (int (length t)) ?t)" by (intro change_level_acted) simp_all
    then have "acted env s (change_level (int (length t)) ?t)"
      by (rule acted_frame) (use same in \<open>simp_all add: same_def\<close>)
    then show ?thesis
      using begin_entered(1) [OF env states(1), of s] Inr x by (simp add: indentation_action_def)
  qed
qed

lemma eof_acted:
  assumes s: "name_ok env s" "mode_ok s" "blocks_ok s"
  shows "acted env s (eof_action t s)"
proof -
  obtain n where d: "dedents n s (close_blocks s)" "indentation_stack (close_blocks s) = [0]"
    using close_blocks_spec [OF s(3)] by blast
  let ?s = "produce_pair ''EOF'' '''' (close_blocks s)"
  obtain new where new: "sc_queue (close_blocks s) = sc_queue s @ new" "map tok_value new = replicate n DEDENT_value"
    using d(1) by (auto simp: dedents_def)
  have "frame s (close_blocks s)" using d(1) by (simp add: dedents_def)
  then have f: "name_ok env ?s = name_ok env s \<and> mode_ok ?s = mode_ok s \<and> same s ?s"
    using frame_ok [of s "close_blocks s" env] by (simp add: produce_values)
  have "nest (replicate n DEDENT_value @ [EOF_value]) (depth s) = Some (depth ?s)"
    using dedents_ok(2) [OF d(1) s(3)] by (simp add: nest_append depth_def)
  then have "accounts s None ?s"
    using new d(2) unfolding accounts_def
    by (intro exI [of _ "new @ [((EOF_value, codes ''''), get_current_scan_pos (close_blocks s))]"]
        exI [of _ "replicate n DEDENT_value @ [EOF_value]"]) (simp add: produce_defs block_values)
  then show ?thesis using f s d(2) by (simp add: eof_action_def blocks_ok_def)
qed

subsection \<open>Every action of a state\<close>

lemma invoke_methods:
  "invoke env ''normalize_ident'' [] t s = normalize_ident env t s"
  "invoke env ''commentline'' [] t s = commentline t s"
  "invoke env ''strip_underscores'' [(''symbol'', symbol)] t s = strip_underscores t (codes symbol) s"
  "invoke env ''open_bracket_action'' [] t s = open_bracket_action t s"
  "invoke env ''close_bracket_action'' [] t s = close_bracket_action t s"
  "invoke env ''open_brace_action'' [] t s = open_brace_action t s"
  "invoke env ''close_brace_action'' [] t s = close_brace_action env t s"
  "invoke env ''colon_action'' [] t s = colon_action env t s"
  "invoke env ''newline_action'' [] t s = newline_action env t s"
  "invoke env ''begin_string_action'' [] t s = begin_string_action env t s"
  "invoke env ''end_string_action'' [] t s = end_string_action env t s"
  "invoke env ''begin_ft_string_action'' [] t s = begin_ft_string_action env t s"
  "invoke env ''end_ft_string_action'' [] t s = end_ft_string_action env t s"
  "invoke env ''open_ft_string_brace_action'' [] t s = open_ft_string_brace_action env t s"
  "invoke env ''close_ft_string_brace_action'' [] t s = close_ft_string_brace_action env t s"
  "invoke env ''unclosed_string_action'' [] t s = unclosed_string_action env t s"
  "invoke env ''indentation_action'' [] t s = indentation_action env t s"
  "invoke env ''eof_action'' [] t s = eof_action t s"
  by (simp_all add: invoke_def scanner_methods_def)

lemma action_simps [simp]:
  "pyrex_action env (MethodAction m kwargs) t s = invoke env m kwargs t s"
  "pyrex_action env (ReturnAction v) t s = Inr (Some (codes v), s)"
  "pyrex_action env IGNORE t s = Inr (None, s)"
  "pyrex_action env TEXT t s = Inr (Some t, s)"
  by (simp_all add: pyrex_action_def perform_def)

text \<open>What a method can return.\<close>

definition returns :: "int list \<Rightarrow> int list option scanned \<Rightarrow> bool" where
  "returns t r \<longleftrightarrow> (\<forall>v s'. r = Inr (v, s') \<longrightarrow> v \<in> {None, Some t})"

lemma returns_simps [simp]:
  "returns t (Inl e)" "returns t (Inr (v, s)) \<longleftrightarrow> v \<in> {None, Some t}"
  by (auto simp: returns_def)

lemma returns_and_then [simp]:
  "(\<And>a s. returns t (f a s)) \<Longrightarrow> returns t (and_then r f)"
  by (auto simp: and_then_def returns_def split: sum.splits prod.splits)

lemma returns_raise [simp]: "returns t (error_at_scanpos m s)"
  by (simp add: error_at_scanpos_def raise_error_def)

lemma methods_return:
  "returns t (normalize_ident env t s)" "returns t (commentline t s)" "returns t (strip_underscores t symbol s)"
  "returns t (open_bracket_action t s)" "returns t (close_bracket_action t s)" "returns t (open_brace_action t s)"
  "returns t (close_brace_action env t s)" "returns t (colon_action env t s)" "returns t (newline_action env t s)"
  by (simp_all add: normalize_ident_def commentline_def strip_underscores_def open_bracket_action_def
      close_bracket_action_def open_brace_action_def close_brace_action_def colon_action_def newline_action_def
      Let_def split: list.split option.split)

lemma string_methods_return:
  "returns [] (begin_string_action env t s)" "returns [] (end_string_action env t s)"
  "returns [] (begin_ft_string_action env t s)" "returns [] (end_ft_string_action env t s)"
  "returns [] (open_ft_string_brace_action env t s)" "returns [] (close_ft_string_brace_action env t s)"
  "returns [] (unclosed_string_action env t s)"
  by (simp_all add: begin_string_action_def end_string_action_def begin_ft_string_action_def end_ft_string_action_def
      open_ft_string_brace_action_def close_ft_string_brace_action_def unclosed_string_action_def Let_def
      split: list.split option.split prod.split)

lemma fine_returns:
  assumes "fine env s r" and "blocks_ok s" and "returns t r" and "plain (Some t)"
  shows "acted env s r"
  using assms by (intro fine_acted) (auto simp: returns_def)

lemma plain_empty: "plain (Some [])"
  using plain_lower [of "[]"] by simp

lemma ignore_acted: "name_ok env s \<Longrightarrow> mode_ok s \<Longrightarrow> blocks_ok s \<Longrightarrow> plain v \<Longrightarrow> acted env s (Inr (v, s))"
  by (rule fine_acted) auto

lemma eof_value_acted:
  "name_ok env s \<Longrightarrow> mode_ok s \<Longrightarrow> blocks_ok s \<Longrightarrow> sc_state_name s \<notin> {'''', ''INDENT''} \<Longrightarrow>
     acted env s (Inr (Some (codes ''EOF''), s))"
  by (simp add: accounts_def same_def block_values)

text \<open>The cases of the scanner states, one lemma for each kind of state.\<close>

lemma token_text_plain:
  "token_text (MethodAction ''open_bracket_action'' []) t \<Longrightarrow> plain (Some t)"
  "token_text (MethodAction ''close_bracket_action'' []) t \<Longrightarrow> plain (Some t)"
  "token_text (MethodAction ''open_brace_action'' []) t \<Longrightarrow> plain (Some t)"
  "token_text (MethodAction ''colon_action'' []) t \<Longrightarrow> plain (Some t)"
  "token_text TEXT t \<Longrightarrow> plain (Some t)"
  "token_text (MethodAction ''close_brace_action'' []) t \<Longrightarrow> t = codes ''}''"
  "token_text (MethodAction ''close_brace_action'' []) t \<Longrightarrow> plain (Some t)"
  by (simp_all add: token_text_def plain_lower)

lemma bracket_acted:
  assumes env: "pyrex_machine (env_lexicon env)" and s: "name_ok env s" "mode_ok s" "blocks_ok s" "code_mode s"
  shows "token_text (MethodAction ''open_bracket_action'' []) t \<Longrightarrow> acted env s (open_bracket_action t s)"
    and "token_text (MethodAction ''close_bracket_action'' []) t \<Longrightarrow> acted env s (close_bracket_action t s)"
    and "token_text (MethodAction ''open_brace_action'' []) t \<Longrightarrow> acted env s (open_brace_action t s)"
    and "token_text (MethodAction ''close_brace_action'' []) t \<Longrightarrow> acted env s (close_brace_action env t s)"
    and "token_text (MethodAction ''begin_string_action'' []) t \<Longrightarrow> acted env s (begin_string_action env t s)"
    and "token_text (MethodAction ''begin_ft_string_action'' []) t \<Longrightarrow> acted env s (begin_ft_string_action env t s)"
proof -
  have fine: "acted env s r" if "fine env s r" "returns u r" "plain (Some u)" for r u
    by (rule fine_returns [OF that(1) s(3) that(2,3)])
  show "acted env s (open_bracket_action t s)" if "token_text (MethodAction ''open_bracket_action'' []) t"
    by (rule fine [OF simple_methods_fine(4) [OF s(1,2)] methods_return(4) token_text_plain(1) [OF that]])
  show "acted env s (close_bracket_action t s)" if "token_text (MethodAction ''close_bracket_action'' []) t"
    by (rule fine [OF close_bracket_fine [OF s(1,2,4)] methods_return(5) token_text_plain(2) [OF that]])
  show "acted env s (open_brace_action t s)" if "token_text (MethodAction ''open_brace_action'' []) t"
    by (rule fine [OF simple_methods_fine(5) [OF s(1,2)] methods_return(6) token_text_plain(3) [OF that]])
  show "acted env s (close_brace_action env t s)" if "token_text (MethodAction ''close_brace_action'' []) t"
    by (rule fine [OF close_brace_fine [OF env s(1,2) disjI1 [OF s(4)] token_text_plain(6) [OF that]] methods_return(7)
          token_text_plain(7) [OF that]])
  show "acted env s (begin_string_action env t s)" if "token_text (MethodAction ''begin_string_action'' []) t"
    by (rule fine [OF begin_string_fine [OF env s(1,2,4) that] string_methods_return(1) plain_empty])
  show "acted env s (begin_ft_string_action env t s)" if "token_text (MethodAction ''begin_ft_string_action'' []) t"
    by (rule fine [OF begin_ft_string_fine [OF env s(1,2,4) that] string_methods_return(3) plain_empty])
qed

lemma fine_silent: "fine env s r \<Longrightarrow> blocks_ok s \<Longrightarrow> returns [] r \<Longrightarrow> acted env s r"
  by (rule fine_returns [OF _ _ _ plain_empty])

lemma silent_returns:
  "returns [] (normalize_ident env t s)" "returns [] (commentline t s)" "returns [] (strip_underscores t symbol s)"
  "returns [] (newline_action env t s)"
  by (simp_all add: normalize_ident_def commentline_def strip_underscores_def newline_action_def Let_def)

lemma value_acted:
  assumes "name_ok env s" "mode_ok s" "blocks_ok s"
  shows "acted env s (Inr (Some (codes ''ESCAPE''), s))" "acted env s (Inr (Some (codes ''CHARS''), s))"
    "acted env s (Inr (Some (codes ''NEWLINE''), s))" "acted env s (Inr (None, s))"
  by (rule ignore_acted [OF assms], simp)+

lemmas action_unfold = list.set ball_simps(5,7) action_simps invoke_methods

lemma default_acted:
  assumes env: "pyrex_machine (env_lexicon env)" and s: "name_ok env s" "mode_ok s" "blocks_ok s"
    and name: "sc_state_name s = ''''"
  shows "\<forall>a \<in> set default_actions. token_text a t \<longrightarrow> acted env s (pyrex_action env a t s)"
proof -
  have mode: "code_mode s" using name by (simp add: code_mode_def)
  have "acted env s (strip_underscores t (codes v) s)" if "plain (Some (codes v))" for v
    by (rule fine_silent [OF simple_methods_fine(3) [OF s(1,2) that] s(3) silent_returns(3)])
  then have "acted env s (strip_underscores t (codes ''INT'') s)" "acted env s (strip_underscores t (codes ''FLOAT'') s)"
    "acted env s (strip_underscores t (codes ''IMAG'') s)" by simp_all
  moreover have "acted env s (normalize_ident env t s)"
    by (rule fine_silent [OF simple_methods_fine(1) [OF s(1,2)] s(3) silent_returns(1)])
  moreover have "acted env s (newline_action env t s)"
    by (rule fine_silent [OF newline_fine [OF env s(1,2) name] s(3) silent_returns(4)])
  moreover have "acted env s (Inr (Some t, s))" if "token_text TEXT t"
    by (rule ignore_acted [OF s token_text_plain(5) [OF that]])
  ultimately show ?thesis
    unfolding default_actions_def action_unfold
    using bracket_acted [OF env s mode] value_acted(4) [OF s] eof_acted [OF s]
    by (intro conjI impI TrueI) assumption+
qed

lemma indent_acted:
  assumes env: "pyrex_machine (env_lexicon env)" and s: "name_ok env s" "mode_ok s" "blocks_ok s"
    and name: "sc_state_name s = ''INDENT''"
  shows "\<forall>a \<in> set indent_actions. token_text a t \<longrightarrow> acted env s (pyrex_action env a t s)"
  unfolding indent_actions_def action_unfold
  using fine_silent [OF simple_methods_fine(2) [OF s(1,2)] s(3) silent_returns(2)]
    indentation_acted [OF env s name] eof_acted [OF s] value_acted(4) [OF s]
  by (intro conjI impI TrueI)

lemma string_acted:
  assumes env: "pyrex_machine (env_lexicon env)" and s: "name_ok env s" "mode_ok s" "blocks_ok s"
    and name: "sc_state_name s \<in> set string_state_names"
  shows "\<forall>a \<in> set string_actions. token_text a t \<longrightarrow> acted env s (pyrex_action env a t s)"
proof -
  have "acted env s (Inr (Some (codes ''EOF''), s))" using s name by (intro eof_value_acted) simp_all
  moreover have "acted env s (unclosed_string_action env t s)"
    by (rule fine_silent [OF unclosed_string_fine [OF env] s(3) string_methods_return(7)])
  moreover have "acted env s (end_string_action env t s)"
    by (rule fine_silent [OF end_string_fine [OF env s(1,2) name] s(3) string_methods_return(2)])
  ultimately show ?thesis unfolding string_actions_def action_unfold
    using value_acted [OF s] by (intro conjI impI TrueI)
qed

lemma prescan_acted:
  assumes env: "pyrex_machine (env_lexicon env)" and s: "name_ok env s" "mode_ok s" "blocks_ok s"
    and name: "sc_state_name s = ''FT_STRING_EXPR_PRESCAN''"
  shows "\<forall>a \<in> set prescan_actions. token_text a t \<longrightarrow> acted env s (pyrex_action env a t s)"
proof -
  have mode: "code_mode s" using name by (simp add: code_mode_def)
  have "acted env s (Inr (Some (codes ''EOF''), s))" by (rule eof_value_acted [OF s]) (simp add: name)
  moreover have "acted env s (colon_action env t s)" if "token_text (MethodAction ''colon_action'' []) t"
    by (rule fine_returns [OF colon_fine [OF env s(1,2) mode] s(3) methods_return(8) token_text_plain(4) [OF that]])
  ultimately show ?thesis
    unfolding prescan_actions_def action_unfold
    using bracket_acted [OF env s mode] value_acted [OF s] by (intro conjI impI TrueI) assumption+
qed

lemma ft_acted:
  assumes env: "pyrex_machine (env_lexicon env)" and s: "name_ok env s" "mode_ok s" "blocks_ok s"
    and name: "sc_state_name s \<in> set ft_state_names"
  shows "\<forall>a \<in> set ft_actions. token_text a t \<longrightarrow> acted env s (pyrex_action env a t s)"
proof -
  have "sc_state_name s \<noteq> ''''" "sc_state_name s \<noteq> ''INDENT''" using name not_ft(1,2) by metis+
  then have "acted env s (Inr (Some (codes ''EOF''), s))" by (intro eof_value_acted [OF s]) blast
  moreover have "acted env s (unclosed_string_action env t s)"
    by (rule fine_silent [OF unclosed_string_fine [OF env] s(3) string_methods_return(7)])
  moreover have "acted env s (end_ft_string_action env t s)"
    by (rule fine_silent [OF end_ft_string_fine [OF env s(1,2) name] s(3) string_methods_return(4)])
  moreover have "acted env s (open_ft_string_brace_action env t s)"
    by (rule fine_silent [OF open_ft_brace_fine [OF env s(1,2) name] s(3) string_methods_return(5)])
  moreover have "acted env s (close_ft_string_brace_action env t s)"
    by (rule fine_silent [OF close_ft_brace_fine [OF env s(1,2) name] s(3) string_methods_return(6)])
  ultimately show ?thesis unfolding ft_actions_def action_unfold
    using value_acted [OF s] by (intro conjI impI TrueI)
qed

lemma states_actions:
  "state_actions '''' = default_actions" "state_actions ''INDENT'' = indent_actions"
  "state_actions ''FT_STRING_EXPR_PRESCAN'' = prescan_actions"
  "name \<in> set string_state_names \<Longrightarrow> state_actions name = string_actions"
  "name \<in> set ft_state_names \<Longrightarrow> state_actions name = ft_actions"
  by (auto simp: state_actions_def string_state_names_def ft_state_names_def)

lemma pyrex_states_cases:
  "name \<in> set pyrex_states \<Longrightarrow>
     name = '''' \<or> name = ''INDENT'' \<or> name = ''FT_STRING_EXPR_PRESCAN'' \<or> name \<in> set string_state_names
     \<or> name \<in> set ft_state_names"
  by (auto simp: pyrex_states_def pyrex_state_names_def string_state_names_def ft_state_names_def)

lemma pyrex_action_acted:
  assumes env: "pyrex_machine (env_lexicon env)" and s: "name_ok env s" "mode_ok s" "blocks_ok s"
    and t: "token_text a t" and a: "a \<in> set (state_actions (sc_state_name s))"
  shows "acted env s (pyrex_action env a t s)"
proof -
  have "sc_state_name s \<in> set pyrex_states" using s(1) by (simp add: name_ok_def)
  from pyrex_states_cases [OF this] have "\<forall>a \<in> set (state_actions (sc_state_name s)).
      token_text a t \<longrightarrow> acted env s (pyrex_action env a t s)"
  proof (elim disjE)
    assume n: "sc_state_name s = ''''"
    show ?thesis using default_acted [OF env s n] unfolding n states_actions .
  next
    assume n: "sc_state_name s = ''INDENT''"
    show ?thesis using indent_acted [OF env s n] unfolding n states_actions .
  next
    assume n: "sc_state_name s = ''FT_STRING_EXPR_PRESCAN''"
    show ?thesis using prescan_acted [OF env s n] unfolding n states_actions .
  next
    assume n: "sc_state_name s \<in> set string_state_names"
    show ?thesis using string_acted [OF env s n] unfolding states_actions(4) [OF n] .
  next
    assume n: "sc_state_name s \<in> set ft_state_names"
    show ?thesis using ft_acted [OF env s n] unfolding states_actions(5) [OF n] .
  qed
  then show ?thesis using a t by blast
qed

end
