(* ===== verification/PyrexStream.thy ===== *)
theory PyrexStream
  imports PyrexSafety
begin

text \<open>
  The tokens that the parser reads: every operation returns, nothing but \<open>CompileError\<close> is raised,
  the end of the file is reached, and blocks are closed as often as they are opened.
\<close>

subsection \<open>One round of scanning\<close>

definition scanner_ok :: "scan_env \<Rightarrow> int list \<Rightarrow> pyrex \<Rightarrow> bool" where
  "scanner_ok env text s \<longleftrightarrow>
     name_ok env s \<and> mode_ok s \<and> blocks_ok s
     \<and> ready text (sc_pos s) (sc_input s) \<and> char_at text (sc_pos s)"

definition only_compile_error :: "scan_exn \<Rightarrow> bool" where
  "only_compile_error e \<longleftrightarrow> (\<exists>pos message. e = CompileError pos message)"

definition left :: "int list \<Rightarrow> pyrex \<Rightarrow> nat" where
  "left text s = symbols_left text (sc_pos s)"

abbreviation queued :: "pyrex \<Rightarrow> int list option list" where
  "queued s \<equiv> map tok_value (sc_queue s)"

text \<open>What a round of \<open>read\<close> leaves: the scanner is in order, it has moved on, and the new tokens
  account for the change of the stack.\<close>

definition advanced :: "scan_env \<Rightarrow> int list \<Rightarrow> pyrex \<Rightarrow> pyrex \<Rightarrow> bool" where
  "advanced env text s s' \<longleftrightarrow>
     scanner_ok env text s' \<and> left text s' < left text s \<and> accounts s None s'
     \<and> kw_table s' = kw_table s \<and> async_enabled s' = async_enabled s
     \<and> put_back_on_failure s' = put_back_on_failure s
     \<and> tl (error_stack s') = tl (error_stack s) \<and> (error_stack s' = []) = (error_stack s = [])"

lemma scanned_ok:
  assumes "name_ok env s" "mode_ok s" "blocks_ok s"
  shows "name_ok env (s\<lparr>sc_pos := p, sc_input := i, sc_text := t\<rparr>)" "mode_ok (s\<lparr>sc_pos := p, sc_input := i, sc_text := t\<rparr>)"
    "blocks_ok (s\<lparr>sc_pos := p, sc_input := i, sc_text := t\<rparr>)"
  using assms by (auto simp: name_ok_def mode_ok_def blocks_ok_def split: list.splits)

lemma accounts_produce:
  assumes "accounts s v s'" and "v \<noteq> None"
  shows "accounts s None (produce v s')"
proof -
  obtain new where "sc_queue s' = sc_queue s @ new"
    "nest (map tok_value new @ [v]) (depth s) = Some (depth s')"
    "EOF_value \<notin> set (butlast (map tok_value new @ [v]))"
    "EOF_value \<in> set (map tok_value new @ [v]) \<longrightarrow> sc_state_name s' \<in> {'''', ''INDENT''} \<longrightarrow> indentation_stack s' = [0]"
    using assms by (auto simp: accounts_def)
  then show ?thesis
    unfolding accounts_def
    by (intro exI [of _ "new @ [((v, sc_text s'), get_current_scan_pos s')]"] exI [of _ "map tok_value new @ [v]"])
      (simp add: produce_defs depth_def)
qed

lemma read_step_spec:
  assumes env: "pyrex_machine (env_lexicon env)" and s: "scanner_ok env text s"
  shows "case read_step (env_lexicon env) (pyrex_action env) s of
      None \<Rightarrow> False
    | Some (Inl (e, s')) \<Rightarrow> only_compile_error e \<or> (\<exists>u. e = UnrecognizedToken u)
    | Some (Inr (_, s')) \<Rightarrow> advanced env text s s'"
proof -
  have ok: "name_ok env s" "mode_ok s" "blocks_ok s" "ready text (sc_pos s) (sc_input s)" "char_at text (sc_pos s)"
    using s by (simp_all add: scanner_ok_def)
  have name: "sc_state_name s \<in> set pyrex_states"
    "dict_get (fm_initial_states (env_lexicon env)) (sc_state_name s) = Some (sc_initial_state s)"
    using ok(1) by (simp_all add: name_ok_def)
  note scan = scan_pyrex [OF env name ok(4,5)]
  let ?r = "scan_a_token (env_lexicon env) (sc_initial_state s) (sc_pos s) (sc_input s)"
  obtain x where x: "?r = Some x" using scan by (cases ?r) simp_all
  consider (error) e where "?r = Some (Inl e)"
    | (token) t action p i where "?r = Some (Inr ((t, action), p, i))"
  proof (cases x)
    case (Inr y)
    moreover obtain t action p i where "y = ((t, action), p, i)" by (metis surj_pair)
    ultimately show thesis using x token by simp
  qed (use x error in simp)
  then show ?thesis
  proof cases
    case error
    then show ?thesis by (simp add: read_step_def)
  next
    case token
    let ?s = "s\<lparr>sc_pos := p, sc_input := i, sc_text := t\<rparr>"
    have p: "ready text p i" "char_at text p" "symbols_left text p < symbols_left text (sc_pos s)"
      using scan token by auto
    note ok' = scanned_ok [OF ok(1-3), where p = p and i = i and t = t]
    have final: "advanced env text s s'"
      if "name_ok env s'" "mode_ok s'" "blocks_ok s'" "same ?s s'" "accounts ?s None s'" for s'
      using that p by (auto simp: advanced_def scanner_ok_def left_def same_def accounts_def depth_def)
    show ?thesis
    proof (cases action)
      case None
      have "accounts ?s None (produce None ?s)"
        using quiet_accounts [of ?s "produce None ?s" None] by (simp add: produce_values)
      moreover have "same ?s (produce None ?s)" by (simp add: produce_def) (simp add: same_def)
      ultimately have "advanced env text s (produce None ?s)"
        using ok' by (intro final) (simp_all add: produce_values, simp add: blocks_ok_def)
      then show ?thesis using token None by (simp add: read_step_def Let_def)
    next
      case (Some a)
      have "acted env ?s (pyrex_action env a t ?s)"
        using pyrex_action_acted [OF env ok', of a t] scan token Some by simp
      then consider (raises) e s' where "pyrex_action env a t ?s = Inl (e, s')" "only_compile_error e"
        | (returns) v s' where "pyrex_action env a t ?s = Inr (v, s')" "name_ok env s'" "mode_ok s'" "blocks_ok s'"
            "same ?s s'" "accounts ?s v s'"
        by (auto simp: acted_def only_compile_error_def split: sum.splits prod.splits)
      then show ?thesis
      proof cases
        case raises
        then show ?thesis using token Some by (simp add: read_step_def Let_def)
      next
        case returns
        have "advanced env text s (if v \<noteq> None then produce v s' else s')"
        proof (cases "v = None")
          case True
          then show ?thesis using returns final by simp
        next
          case False
          then have "advanced env text s (produce v s')"
            using returns accounts_produce [OF returns(6) False]
            by (intro final) (simp_all add: produce_values, simp add: blocks_ok_def)
          with False show ?thesis by simp
        qed
        then show ?thesis using token Some returns(1) by (simp add: read_step_def Let_def)
      qed
    qed
  qed
qed

lemma accounts_empty:
  assumes "accounts s None s1" and "sc_queue s = []" "sc_queue s1 = []" and "accounts s1 None s'"
  shows "accounts s None s'"
proof -
  have "depth s1 = depth s" using assms(1-3) by (auto simp: accounts_def)
  then show ?thesis using assms by (auto simp: accounts_def)
qed

lemma fill_queue_spec:
  assumes env: "pyrex_machine (env_lexicon env)"
  shows "scanner_ok env text s \<Longrightarrow> sc_queue s = [] \<Longrightarrow>
    \<exists>r. fill_queue (env_lexicon env) (pyrex_action env) s = Some r
      \<and> (case r of
           Inl (e, s') \<Rightarrow> only_compile_error e \<or> (\<exists>u. e = UnrecognizedToken u)
         | Inr (_, s') \<Rightarrow> advanced env text s s' \<and> sc_queue s' \<noteq> [])"
proof (induction "left text s" arbitrary: s rule: less_induct)
  case less
  note step = read_step_spec [OF env less.prems(1)]
  note unfold = fill_queue.simps [of "env_lexicon env" "pyrex_action env" s]
  let ?step = "read_step (env_lexicon env) (pyrex_action env) s"
  consider (raises) e s' where "?step = Some (Inl (e, s'))" "only_compile_error e \<or> (\<exists>u. e = UnrecognizedToken u)"
    | (returns) s1 where "?step = Some (Inr ((), s1))" "advanced env text s s1"
    using step by (auto split: option.splits sum.splits prod.splits)
  then show ?case
  proof cases
    case raises
    then show ?thesis using less.prems(2) unfold by auto
  next
    case returns
    have eq: "fill_queue (env_lexicon env) (pyrex_action env) s
        = fill_queue (env_lexicon env) (pyrex_action env) s1"
      using returns(1) less.prems(2) unfold by simp
    show ?thesis
    proof (cases "sc_queue s1 = []")
      case False
      then show ?thesis
        unfolding eq fill_queue.simps [of "env_lexicon env" "pyrex_action env" s1] using returns(2) by simp
    next
      case True
      have "left text s1 < left text s" "scanner_ok env text s1" using returns(2) by (simp_all add: advanced_def)
      from less.hyps [OF this True] obtain r where
        r: "fill_queue (env_lexicon env) (pyrex_action env) s1 = Some r"
          "case r of Inl (e, s') \<Rightarrow> only_compile_error e \<or> (\<exists>u. e = UnrecognizedToken u)
           | Inr (_, s') \<Rightarrow> advanced env text s1 s' \<and> sc_queue s' \<noteq> []" by blast
      have "advanced env text s s'" if "advanced env text s1 s'" for s'
        using that returns(2) accounts_empty [of s s1 s'] less.prems(2) True by (auto simp: advanced_def)
      then show ?thesis
        unfolding eq using r by (intro exI [of _ r]) (auto split: sum.splits)
    qed
  qed
qed


subsection \<open>One token\<close>

definition only_compile_errors :: "'a scanned \<Rightarrow> bool" where
  "only_compile_errors r \<longleftrightarrow> (case r of Inl (e, _) \<Rightarrow> only_compile_error e | Inr _ \<Rightarrow> True)"

lemma raise_error_only [simp]:
  "only_compile_errors (raise_error m pos s)" "only_compile_errors (error_at_scanpos m s)"
  by (simp_all add: only_compile_errors_def raise_error_def error_at_scanpos_def only_compile_error_def)

definition keywords_ok :: "pyrex \<Rightarrow> bool" where
  "keywords_ok s \<longleftrightarrow>
     (\<forall>k v. dict_get (kw_table s) k = Some v \<longrightarrow> plain (Some v))
     \<and> 0 \<le> async_enabled s
     \<and> (0 < async_enabled s \<longrightarrow>
          dict_get (kw_table s) (codes ''async'') \<noteq> None \<and> dict_get (kw_table s) (codes ''await'') \<noteq> None)"

lemma keyword_token_spec:
  assumes "keywords_ok s" and "keyword_token env v t s = (v', s')"
  shows "keywords_ok s'" and "v' = v \<or> plain v \<and> plain v'"
    and "\<exists>table. s' = s\<lparr>kw_table := table\<rparr>"
proof -
  have id: "\<exists>table. s = s\<lparr>kw_table := table\<rparr>" by (intro exI [of _ "kw_table s"]) simp
  have kw: "plain (dict_get (kw_table s) k)" for k
    using assms(1) by (cases "dict_get (kw_table s) k") (simp_all add: keywords_ok_def)
  have "plain (Some IDENT)" by (simp add: IDENT_def)
  then show "v' = v \<or> plain v \<and> plain v'"
    using assms(2) kw [of t] by (auto simp: keyword_token_def split: if_splits option.splits)
  show "keywords_ok s'"
    using assms by (auto simp: keyword_token_def keywords_ok_def dict_get_del_fun split: if_splits option.splits)
  show "\<exists>table. s' = s\<lparr>kw_table := table\<rparr>"
    using assms(2) id by (auto simp: keyword_token_def split: if_splits option.splits)
qed

lemma accept_token_spec:
  assumes "keywords_ok s" and s': "s' = accept_token env v t s"
  shows "keywords_ok s'" and "sy s' = v \<or> plain v \<and> plain (sy s')"
    and "scanner_ok env text s' = scanner_ok env text s" and "left text s' = left text s"
    and "sc_queue s' = sc_queue s" "depth s' = depth s" "async_enabled s' = async_enabled s"
    and "sc_state_name s' = sc_state_name s" "indentation_stack s' = indentation_stack s"
proof -
  obtain v' s1 where k: "keyword_token env v t s = (v', s1)" by (cases "keyword_token env v t s")
  note spec = keyword_token_spec [OF assms(1) k]
  obtain table where s1: "s1 = s\<lparr>kw_table := table\<rparr>" using spec(3) by blast
  obtain table b where eq: "s' = s\<lparr>kw_table := table, put_back_on_failure := b, sy := v', systring := t\<rparr>"
    using s' k s1 by (simp add: accept_token_def)
  show "keywords_ok s'" using spec(1) s' k by (simp add: accept_token_def keywords_ok_def)
  show "sy s' = v \<or> plain v \<and> plain (sy s')" using spec(2) eq by auto
  show "scanner_ok env text s' = scanner_ok env text s"
    unfolding eq by (auto simp: scanner_ok_def name_ok_def mode_ok_def blocks_ok_def split: list.splits)
  show "left text s' = left text s" "sc_queue s' = sc_queue s" "depth s' = depth s"
    "async_enabled s' = async_enabled s" "sc_state_name s' = sc_state_name s"
    "indentation_stack s' = indentation_stack s"
    unfolding eq by (simp_all add: left_def depth_def)
qed

text \<open>What \<open>next\<close> does: it takes the first token of the queue, which is filled when it is empty.\<close>

definition took :: "scan_env \<Rightarrow> int list \<Rightarrow> pyrex \<Rightarrow> int list option \<Rightarrow> pyrex \<Rightarrow> bool" where
  "took env text s v s' \<longleftrightarrow>
     scanner_ok env text s' \<and> keywords_ok s' \<and> async_enabled s' = async_enabled s
     \<and> (sy s' = v \<or> plain v \<and> plain (sy s'))
     \<and> (queued s = v # queued s' \<and> left text s' = left text s \<and> depth s' = depth s
          \<and> sc_state_name s' = sc_state_name s \<and> indentation_stack s' = indentation_stack s
        \<or> queued s = [] \<and> left text s' < left text s \<and> nest (v # queued s') (depth s) = Some (depth s')
          \<and> EOF_value \<notin> set (butlast (v # queued s'))
          \<and> (EOF_value \<in> set (v # queued s') \<longrightarrow> sc_state_name s' \<in> {'''', ''INDENT''} \<longrightarrow> indentation_stack s' = [0]))"

lemma next_token_spec:
  assumes env: "pyrex_machine (env_lexicon env)" and s: "scanner_ok env text s" "keywords_ok s"
  obtains (raises) e where "next_token env s = Some (Inl e)" "only_compile_errors (Inl e :: unit scanned)"
  | (returns) v s' where "next_token env s = Some (Inr ((), s'))" "took env text s v s'"
proof -
  let ?fill = "fill_queue (env_lexicon env) (pyrex_action env) s"
  consider (error) e s' where "?fill = Some (Inl (e, s'))" "only_compile_error e \<or> (\<exists>u. e = UnrecognizedToken u)"
    | (token) s1 where "?fill = Some (Inr ((), s1))" "sc_queue s1 \<noteq> []"
        "s1 = s \<or> sc_queue s = [] \<and> advanced env text s s1"
  proof (cases "sc_queue s = []")
    case True
    from fill_queue_spec [OF env s(1) True] obtain r where "?fill = Some r" "case r of
           Inl (e, s') \<Rightarrow> only_compile_error e \<or> (\<exists>u. e = UnrecognizedToken u)
         | Inr (_, s') \<Rightarrow> advanced env text s s' \<and> sc_queue s' \<noteq> []" by blast
    then show thesis using error token True by (cases r) auto
  next
    case False
    then show thesis using token [of s] by (simp add: fill_queue.simps)
  qed
  then show thesis
  proof cases
    case error
    show thesis
    proof (cases e)
      case (UnrecognizedToken u)
      then show thesis
        using raises error raise_error_only(2)
        by (auto simp: next_token_def read_token_def error_at_scanpos_def raise_error_def)
    qed (use raises error in \<open>auto simp: next_token_def read_token_def only_compile_error_def only_compile_errors_def\<close>)
  next
    case token
    obtain v t pos toks where q: "sc_queue s1 = ((v, t), pos) # toks"
      using token(2) by (cases "sc_queue s1") auto
    let ?s = "s1\<lparr>sc_last_pos := pos, sc_queue := toks\<rparr>"
    let ?s' = "accept_token env v t ?s"
    have "next_token env s = Some (Inr ((), ?s'))" using token(1) q by (simp add: next_token_def read_token_def)
    moreover have "scanner_ok env text s1" "keywords_ok s1" "async_enabled s1 = async_enabled s"
      using token(3) s by (auto simp: advanced_def keywords_ok_def)
    then have ok: "scanner_ok env text ?s" "keywords_ok ?s" "async_enabled ?s = async_enabled s"
      by (auto simp: scanner_ok_def name_ok_def mode_ok_def blocks_ok_def keywords_ok_def split: list.splits)
    note acc = accept_token_spec [OF ok(2), where s' = "?s'", OF refl]
    have "took env text s v ?s'"
      using token(3)
    proof
      assume "s1 = s"
      then show ?thesis using q acc ok by (simp add: took_def left_def depth_def)
    next
      assume a: "sc_queue s = [] \<and> advanced env text s s1"
      then have "accounts s None s1" "left text s1 < left text s" by (simp_all add: advanced_def)
      then show ?thesis using a q acc ok by (auto simp: took_def left_def depth_def accounts_def)
    qed
    ultimately show thesis by (rule returns)
  qed
qed

subsection \<open>A new scanner\<close>

lemma new_keywords_ok:
  assumes "words \<in> {py_reserved_words, pyx_reserved_words}" and "kw_table s = map (\<lambda>w. (codes w, codes w)) words"
    and "async_enabled s = 0"
  shows "keywords_ok s" and "keywords_ok (enter_async s)"
proof -
  have "plain (Some v)" if "dict_get (kw_table s) k = Some v" for k v
  proof -
    have "(k, v) \<in> set (kw_table s)" using that by (rule map_of_SomeD)
    then obtain w where "w \<in> set words" "v = codes w" using assms(2) by auto
    then show ?thesis using assms(1) by (auto simp: py_reserved_words_def pyx_reserved_words_def)
  qed
  then show "keywords_ok s" using assms(3) by (simp add: keywords_ok_def)
  then show "keywords_ok (enter_async s)"
    using assms(3) by (auto simp: keywords_ok_def enter_async_def dict_get_set_fun)
qed

lemma enter_async_frame:
  "\<exists>n table. (if b then enter_async s else s) = s\<lparr>async_enabled := n, kw_table := table\<rparr>"
proof (cases "b \<longrightarrow> async_enabled s \<noteq> 0")
  case True
  have "s = s\<lparr>async_enabled := async_enabled s, kw_table := kw_table s\<rparr>" by simp
  then have ?thesis if "\<not> b" using that by metis
  moreover from True have ?thesis if b using that
    by (intro exI [of _ "async_enabled s + 1"] exI [of _ "kw_table s"]) (simp add: enter_async_def)
  ultimately show ?thesis by blast
qed (auto simp: enter_async_def)

lemma pyrex_start_spec:
  assumes env: "pyrex_machine (env_lexicon env)" and ok: "list_all chr_ok (concat chunks)" "[] \<notin> set chunks"
  obtains s where "pyrex_start env python_file comments parent_async pos chunks = Inr ((), s)"
    "scanner_ok env (concat chunks) s" "keywords_ok s" "depth s = 0" "sc_queue s = []"
proof -
  let ?words = "if python_file then py_reserved_words else pyx_reserved_words"
  let ?p = "case pos of None \<Rightarrow> scan_pos_init | Some (line, col) \<Rightarrow>
      scan_pos_init\<lparr>cur_line := line, cur_line_start := - col\<rparr>"
  let ?s = "\<lparr>sc_pos = ?p, sc_input = scan_input_init chunks, sc_text = [], sc_state_name = '''',
            sc_initial_state = 0, sc_queue = [], sc_last_pos = (0, 0),
            in_python_file = python_file, kw_table = map (\<lambda>w. (codes w, codes w)) ?words,
            async_enabled = 0, parse_comments = comments, indentation_stack = [0], indentation_char = 0,
            bracket_nesting_level = 0, ft_string_state_stack = [], in_ft_string_expr_prescan = 0,
            put_back_on_failure = None, sy = Some [], systring = [], error_stack = [],
            error_listing = [], warning_listing = []\<rparr>"
  let ?t = "entered env '''' ?s"
  let ?u = "if parent_async then enter_async ?t else ?t"
  obtain n table where u: "?u = ?t\<lparr>async_enabled := n, kw_table := table\<rparr>"
    using enter_async_frame [of parent_async ?t] by blast
  have p: "ready (concat chunks) ?p (scan_input_init chunks)" "char_at (concat chunks) ?p"
    using ready_init [OF ok(2,1)] char_at_init [of "concat chunks"]
    by (cases pos; simp add: ready_def char_at_def symbol_ok_def scan_pos_init_def BOL_def split: prod.split)+
  have k: "keywords_ok ?t" "keywords_ok (enter_async ?t)"
    by (rule new_keywords_ok [of ?words], simp, simp add: entered_def, simp add: entered_def)+
  have "pyrex_start env python_file comments parent_async pos chunks = Inr ((), entered env ''INDENT'' ?u)"
    using begin_entered(1) [OF env states(1), of ?s] begin_entered(1) [OF env states(2), of ?u]
    by (simp add: pyrex_start_def Let_def)
  moreover have "name_ok env (entered env ''INDENT'' ?u)" by (rule begin_entered(2) [OF env states(2)])
  then have "scanner_ok env (concat chunks) (entered env ''INDENT'' ?u)"
    using p unfolding u by (simp add: scanner_ok_def mode_ok_def blocks_ok_def entered_def)
  moreover have "keywords_ok (entered env ''INDENT'' ?u)"
    using k by (auto simp: keywords_ok_def entered_def)
  moreover have "depth (entered env ''INDENT'' ?u) = 0" "sc_queue (entered env ''INDENT'' ?u) = []"
    unfolding u by (simp_all add: depth_def entered_def)
  ultimately show thesis by (rule that)
qed

subsection \<open>A whole file\<close>

text \<open>The tokens up to the end of the file.\<close>

partial_function (option) scan_all ::
  "scan_env \<Rightarrow> int list option list \<Rightarrow> pyrex \<Rightarrow> (int list option list) scanned option" where
  "scan_all env tokens s =
     (case next_token env s of
        None \<Rightarrow> None
      | Some (Inl e) \<Rightarrow> Some (Inl e)
      | Some (Inr (_, s)) \<Rightarrow>
          if sy s = EOF_value then Some (Inr (tokens @ [sy s], s)) else scan_all env (tokens @ [sy s]) s)"

declare scan_all.simps [code]

text \<open>The tokens read and those in the queue account for the stack; the end of the file is last.\<close>

definition stream_ok :: "int list option list \<Rightarrow> pyrex \<Rightarrow> bool" where
  "stream_ok tokens s \<longleftrightarrow>
     nest (tokens @ queued s) 0 = Some (depth s) \<and> EOF_value \<notin> set tokens
     \<and> EOF_value \<notin> set (butlast (queued s))
     \<and> (EOF_value \<in> set (queued s) \<longrightarrow> sc_state_name s \<in> {'''', ''INDENT''} \<longrightarrow> indentation_stack s = [0])"

lemma nest_same: "v' = v \<or> plain v \<and> plain v' \<Longrightarrow> nest (us @ v' # vs) d = nest (us @ v # vs) d"
  by (auto simp: nest_append plain_def split: option.split)

lemma butlast_Cons_mem: "x \<in> set (butlast (v # vs)) \<longleftrightarrow> vs \<noteq> [] \<and> (x = v \<or> x \<in> set (butlast vs))"
  by auto

lemma took_stream:
  assumes "stream_ok tokens s" and "took env text s v s'"
  shows "nest (tokens @ sy s' # queued s') 0 = Some (depth s')"
    and "sy s' \<noteq> EOF_value \<Longrightarrow> stream_ok (tokens @ [sy s']) s'"
    and "sy s' = EOF_value \<Longrightarrow> queued s' = [] \<and> (sc_state_name s' \<in> {'''', ''INDENT''} \<longrightarrow> indentation_stack s' = [0])"
    and "left text s' < left text s \<or> left text s' = left text s \<and> length (queued s') < length (queued s)"
proof -
  have v: "sy s' = v \<or> plain v \<and> plain (sy s')" using assms(2) by (simp add: took_def)
  then have eof: "sy s' = EOF_value \<longleftrightarrow> v = EOF_value" by (auto simp: plain_def)
  have key: "nest (tokens @ v # queued s') 0 = Some (depth s') \<and> EOF_value \<notin> set (butlast (v # queued s'))
      \<and> (EOF_value \<in> set (v # queued s') \<longrightarrow> sc_state_name s' \<in> {'''', ''INDENT''} \<longrightarrow> indentation_stack s' = [0])"
  proof (cases "queued s = []")
    case True
    then have "nest tokens 0 = Some (depth s)" using assms(1) by (auto simp: stream_ok_def nest_append split: option.splits)
    moreover have "nest (v # queued s') (depth s) = Some (depth s')" using True assms(2) by (auto simp: took_def)
    ultimately show ?thesis using True assms(2) by (auto simp: took_def nest_append simp del: nest.simps)
  next
    case False
    then have "queued s = v # queued s'" "depth s' = depth s" "sc_state_name s' = sc_state_name s"
      "indentation_stack s' = indentation_stack s" using assms(2) by (auto simp: took_def)
    then show ?thesis using assms(1) by (simp add: stream_ok_def)
  qed
  then show nest: "nest (tokens @ sy s' # queued s') 0 = Some (depth s')" using nest_same [OF v] by simp
  show "stream_ok (tokens @ [sy s']) s'" if "sy s' \<noteq> EOF_value"
    using that nest key assms(1) by (auto simp: stream_ok_def split: if_splits)
  show "queued s' = [] \<and> (sc_state_name s' \<in> {'''', ''INDENT''} \<longrightarrow> indentation_stack s' = [0])"
    if "sy s' = EOF_value"
    using that eof key by (auto split: if_splits)
  show "left text s' < left text s \<or> left text s' = left text s \<and> length (queued s') < length (queued s)"
    using assms(2) by (auto simp: took_def dest: arg_cong [of _ _ length])
qed

definition whole_file :: "int list option list \<Rightarrow> pyrex \<Rightarrow> bool" where
  "whole_file tokens s \<longleftrightarrow>
     (\<exists>before. tokens = before @ [EOF_value] \<and> EOF_value \<notin> set before)
     \<and> (\<exists>d. nest tokens 0 = Some d \<and> (sc_state_name s \<in> {'''', ''INDENT''} \<longrightarrow> d = 0))"

lemma scan_all_spec:
  assumes env: "pyrex_machine (env_lexicon env)"
  shows "scanner_ok env text s \<Longrightarrow> keywords_ok s \<Longrightarrow> stream_ok tokens s \<Longrightarrow>
    \<exists>r. scan_all env tokens s = Some r \<and> only_compile_errors r
      \<and> (\<forall>all s'. r = Inr (all, s') \<longrightarrow> whole_file all s')"
proof (induction s arbitrary: tokens rule: wf_induct_rule [OF wf_measures [of "[left text, \<lambda>s. length (queued s)]"]])
  case (1 s)
  note unfold = scan_all.simps [of env tokens s]
  from env 1(2,3) show ?case
  proof (cases rule: next_token_spec)
    case (raises e)
    then show ?thesis unfolding unfold by (auto simp: only_compile_errors_def split: sum.splits prod.splits)
  next
    case (returns v s')
    note stream = took_stream [OF 1(4) returns(2)]
    show ?thesis
    proof (cases "sy s' = EOF_value")
      case False
      have smaller: "(s', s) \<in> measures [left text, \<lambda>s. length (queued s)]" using stream(4) by simp
      have ok: "scanner_ok env text s'" "keywords_ok s'" using returns(2) by (simp_all add: took_def)
      from 1(1) [OF smaller ok stream(2) [OF False]] show ?thesis
        unfolding unfold using returns(1) False by simp
    next
      case True
      have "whole_file (tokens @ [sy s']) s'"
        using stream(1) stream(3) [OF True] True 1(4)
        by (auto simp: whole_file_def stream_ok_def depth_def)
      then show ?thesis unfolding unfold using returns(1) True by (simp add: only_compile_errors_def)
    qed
  qed
qed

subsection \<open>The operations of the parser\<close>

text \<open>What \<open>Parsing.py\<close> does with the scanner outside of \<open>tentatively_scan\<close>; \<open>InAsync\<close> is the body of
  a function between \<open>enter_async\<close> and \<open>exit_async\<close>.\<close>

datatype scanner_call =
    Next
  | Peek
  | PutBack token
  | Expect "int list" "int list option"
  | ExpectKeyword "int list" "int list option"
  | ExpectNewline "int list" bool
  | ExpectIndent
  | ExpectDedent
  | Expected "int list" "int list option"
  | Error "int list" "(nat \<times> int) option" bool
  | InAsync "scanner_call list"

definition call_scanner :: "scan_env \<Rightarrow> scanner_call \<Rightarrow> pyrex \<Rightarrow> unit scanned option" where
  "call_scanner env call s =
     (case call of
        Next \<Rightarrow> next_token env s
      | Peek \<Rightarrow> then_scan (peek env s) (\<lambda>s. Some (Inr ((), s)))
      | PutBack tok \<Rightarrow> Some (Inr ((), put_back tok s))
      | Expect what message \<Rightarrow> expect env what message s
      | ExpectKeyword what message \<Rightarrow> expect_keyword env what message s
      | ExpectNewline message ignore_semicolon \<Rightarrow> expect_newline env message ignore_semicolon s
      | ExpectIndent \<Rightarrow> expect_indent env s
      | ExpectDedent \<Rightarrow> expect_dedent env s
      | Expected what message \<Rightarrow> Some (expected what message s)
      | Error message pos fatal \<Rightarrow>
          Some (if fatal then raise_error message pos s else Inr ((), scanner_error message pos s))
      | InAsync _ \<Rightarrow> Some (Inr ((), s)))"

fun call_all :: "scan_env \<Rightarrow> scanner_call list \<Rightarrow> pyrex \<Rightarrow> unit scanned option" where
  "call_all env [] s = Some (Inr ((), s))"
| "call_all env (InAsync body # calls) s =
     then_scan (then_scan (call_all env body (enter_async s)) (\<lambda>s. Some (exit_async s)))
       (\<lambda>s. call_all env calls s)"
| "call_all env (call # calls) s = then_scan (call_scanner env call s) (\<lambda>s. call_all env calls s)"

text \<open>A call returns, raises nothing but \<open>CompileError\<close>, keeps the scanner in order and changes
  \<open>async_enabled\<close> by \<open>n\<close>.\<close>

definition in_order :: "scan_env \<Rightarrow> int list \<Rightarrow> pyrex \<Rightarrow> bool" where
  "in_order env text s \<longleftrightarrow> scanner_ok env text s \<and> keywords_ok s"

definition safe :: "scan_env \<Rightarrow> int list \<Rightarrow> int \<Rightarrow> 'a scanned option \<Rightarrow> bool" where
  "safe env text n r \<longleftrightarrow>
     (case r of None \<Rightarrow> False
      | Some r \<Rightarrow> only_compile_errors r
          \<and> (\<forall>a s'. r = Inr (a, s') \<longrightarrow> in_order env text s' \<and> async_enabled s' = n))"

lemma safe_simps [simp]:
  "safe env text n (Some (Inr (a, s))) \<longleftrightarrow> in_order env text s \<and> async_enabled s = n"
  "safe env text n (Some (raise_error m pos s))" "safe env text n (Some (error_at_scanpos m s))"
  "safe env text n (Some (expected what message s))"
  by (auto simp: safe_def only_compile_errors_def raise_error_def error_at_scanpos_def expected_def
      only_compile_error_def Let_def)

lemma safe_then [intro]:
  assumes "safe env text n r"
    and "\<And>s. in_order env text s \<Longrightarrow> async_enabled s = n \<Longrightarrow> safe env text m (f s)"
  shows "safe env text m (then_scan r f)"
proof (cases r)
  case (Some x)
  show ?thesis
  proof (cases x)
    case (Inl y)
    then show ?thesis using assms(1) Some by (cases y) (auto simp: safe_def then_scan_def only_compile_errors_def)
  next
    case (Inr y)
    then show ?thesis using assms Some by (cases y) (auto simp: safe_def then_scan_def)
  qed
qed (use assms(1) in \<open>simp add: safe_def\<close>)

lemma next_token_safe [intro]:
  assumes env: "pyrex_machine (env_lexicon env)" and s: "in_order env text s"
  shows "safe env text (async_enabled s) (next_token env s)"
proof -
  have "scanner_ok env text s" "keywords_ok s" using s by (simp_all add: in_order_def)
  from env this show ?thesis
    by (cases rule: next_token_spec)
      (auto simp: safe_def only_compile_errors_def in_order_def took_def split: sum.splits prod.splits)
qed

lemma in_order_tokens [simp]:
  "in_order env text (set_current tok s) = in_order env text s"
  "in_order env text (unread v t pos s) = in_order env text s"
  "in_order env text (put_back tok s) = in_order env text s"
  "async_enabled (put_back tok s) = async_enabled s"
  "async_enabled (set_current tok s) = async_enabled s" "async_enabled (unread v t pos s) = async_enabled s"
  by (auto simp: in_order_def scanner_ok_def name_ok_def mode_ok_def blocks_ok_def keywords_ok_def
      set_current_def unread_def put_back_def split: list.splits)

lemma peek_safe:
  assumes env: "pyrex_machine (env_lexicon env)" and s: "in_order env text s"
  shows "safe env text (async_enabled s) (peek env s)"
proof -
  have ok: "scanner_ok env text s" "keywords_ok s" using s by (simp_all add: in_order_def)
  from env ok show ?thesis
  proof (cases rule: next_token_spec)
    case (raises e)
    then show ?thesis by (auto simp: peek_def safe_def only_compile_errors_def split: sum.splits prod.splits)
  next
    case (returns v s')
    then have "in_order env text s'" "async_enabled s' = async_enabled s" by (simp_all add: took_def in_order_def)
    then show ?thesis using returns(1) by (simp add: peek_def)
  qed
qed

lemma expect_safe:
  assumes env: "pyrex_machine (env_lexicon env)" and s: "in_order env text s" "async_enabled s = n"
  shows "safe env text n (expect env what message s)" "safe env text n (expect_keyword env what message s)"
  using next_token_safe [OF env s(1)] s by (simp_all add: expect_def expect_keyword_def)

lemma expect_newline_safe:
  assumes env: "pyrex_machine (env_lexicon env)" and s: "in_order env text s"
  shows "safe env text (async_enabled s) (expect_newline env message ignore_semicolon s)"
  unfolding expect_newline_def Let_def
proof (rule safe_then)
  show "safe env text (async_enabled s)
      (if ignore_semicolon \<and> sy s = Some (codes '';'') then next_token env s else Some (Inr ((), s)))"
    using next_token_safe [OF env s] s by simp
next
  fix t assume t: "in_order env text t" "async_enabled t = async_enabled s"
  have warn: "in_order env text (u\<lparr>warning_listing := w\<rparr>) = in_order env text u" for u w
    by (auto simp: in_order_def scanner_ok_def name_ok_def mode_ok_def blocks_ok_def keywords_ok_def
        split: list.splits)
  show "safe env text (async_enabled s)
      (then_scan (if sy t \<noteq> Some (codes ''EOF'') then expect env (codes ''NEWLINE'') (Some message) t
          else Some (Inr ((), t)))
        (\<lambda>u. Some (Inr ((), if ignore_semicolon \<and> sy s = Some (codes '';'')
          then u\<lparr>warning_listing := warning_listing u @ [(sc_last_pos s, codes ''useless trailing semicolon'')]\<rparr>
          else u))))"
    by (rule safe_then [of _ _ "async_enabled s"]) (use t expect_safe(1) [OF env t] warn in simp_all)
qed

lemma enter_async_order:
  assumes "in_order env text s"
  shows "in_order env text (enter_async s)" and "async_enabled (enter_async s) = async_enabled s + 1"
    and "0 \<le> async_enabled s"
proof -
  obtain n table where e: "enter_async s = s\<lparr>async_enabled := n, kw_table := table\<rparr>"
    using enter_async_frame [of True s] by auto
  have "scanner_ok env text (enter_async s)"
    using assms unfolding e
    by (auto simp: in_order_def scanner_ok_def name_ok_def mode_ok_def blocks_ok_def split: list.splits)
  moreover have "keywords_ok (enter_async s)"
    using assms by (auto simp: in_order_def keywords_ok_def enter_async_def dict_get_set_fun Let_def)
  ultimately show "in_order env text (enter_async s)" by (simp add: in_order_def)
  show "async_enabled (enter_async s) = async_enabled s + 1" by (simp add: enter_async_def Let_def)
  show "0 \<le> async_enabled s" using assms by (simp add: in_order_def keywords_ok_def)
qed

lemma in_order_frame:
  "in_order env text s \<Longrightarrow> keywords_ok (s\<lparr>async_enabled := n, kw_table := table\<rparr>) \<Longrightarrow>
     in_order env text (s\<lparr>async_enabled := n, kw_table := table, sy := v, systring := t\<rparr>)
     \<and> in_order env text (s\<lparr>async_enabled := n, kw_table := table\<rparr>)
     \<and> in_order env text (s\<lparr>async_enabled := n\<rparr>) = keywords_ok (s\<lparr>async_enabled := n\<rparr>)"
  by (auto simp: in_order_def scanner_ok_def name_ok_def mode_ok_def blocks_ok_def keywords_ok_def
      split: list.splits)

lemma exit_async_safe:
  assumes s: "in_order env text s" "async_enabled s = n + 1" "0 \<le> n"
  shows "safe env text n (Some (exit_async s))"
proof -
  have k: "keywords_ok s" using s(1) by (simp add: in_order_def)
  let ?table = "dict_del (codes ''async'') (dict_del (codes ''await'') (kw_table s))"
  show ?thesis
  proof (cases "n = 0")
    case True
    have "keywords_ok (s\<lparr>async_enabled := n, kw_table := ?table\<rparr>)"
      using k True by (auto simp: keywords_ok_def dict_get_del_fun)
    note ok = in_order_frame [OF s(1) this]
    have "dict_get (kw_table s) (codes ''await'') \<noteq> None" "dict_get (kw_table s) (codes ''async'') \<noteq> None"
      using k s(2,3) by (auto simp: keywords_ok_def)
    then show ?thesis
      using ok s(2) True by (auto simp: exit_async_def dict_get_del_fun Let_def split: option.split)
  next
    case False
    have "keywords_ok (s\<lparr>async_enabled := n, kw_table := kw_table s\<rparr>)"
      using k s by (auto simp: keywords_ok_def)
    note ok = in_order_frame [OF s(1) this]
    then have "in_order env text (s\<lparr>async_enabled := n\<rparr>)" using k s by (auto simp: keywords_ok_def)
    then show ?thesis using s False by (simp add: exit_async_def Let_def)
  qed
qed

lemma scanner_error_order:
  "in_order env text (scanner_error message pos s) = in_order env text s"
  "async_enabled (scanner_error message pos s) = async_enabled s"
  by (auto simp: scanner_error_def report_error_def in_order_def scanner_ok_def name_ok_def mode_ok_def
      blocks_ok_def keywords_ok_def Let_def split: list.splits)

lemma call_scanner_safe:
  assumes env: "pyrex_machine (env_lexicon env)" and s: "in_order env text s"
  shows "safe env text (async_enabled s) (call_scanner env call s)"
proof (cases call)
  case Peek
  then show ?thesis
    using safe_then [OF peek_safe [OF env s], of "async_enabled s" "\<lambda>s. Some (Inr ((), s))"]
    by (simp add: call_scanner_def)
qed (use next_token_safe [OF env s] expect_safe [OF env s refl] expect_newline_safe [OF env s] s in
    \<open>simp_all add: call_scanner_def expect_indent_def expect_dedent_def scanner_error_order\<close>)

lemma call_step:
  assumes "pyrex_machine (env_lexicon env)" and "in_order env text s"
    and "\<And>s. in_order env text s \<Longrightarrow> safe env text (async_enabled s) (call_all env calls s)"
  shows "safe env text (async_enabled s) (then_scan (call_scanner env call s) (\<lambda>s. call_all env calls s))"
  by (rule safe_then [OF call_scanner_safe [OF assms(1,2)]]) (use assms(3) in force)

lemma call_all_safe:
  "pyrex_machine (env_lexicon env) \<Longrightarrow> in_order env text s \<Longrightarrow>
     safe env text (async_enabled s) (call_all env calls s)"
proof (induction env calls s rule: call_all.induct)
  case (2 env body calls s)
  note enter = enter_async_order [OF 2(4)]
  have "safe env text (async_enabled s + 1) (call_all env body (enter_async s))"
    using 2(1) [OF 2(3) enter(1)] enter(2) by simp
  then have "safe env text (async_enabled s)
      (then_scan (call_all env body (enter_async s)) (\<lambda>s. Some (exit_async s)))"
    by (rule safe_then) (use exit_async_safe enter(3) in blast)
  then show ?case
    unfolding call_all.simps by (rule safe_then) (use 2(2) [OF 2(3)] in force)
qed (auto intro: call_step)

subsection \<open>The properties\<close>

text \<open>C26. Whatever calls the parser makes of the scanner outside of \<open>tentatively_scan\<close> (reading, peeking at and
  putting back tokens, requiring tokens, indents, dedents and line ends, reporting errors that are
  fatal or not, with the bodies of async functions between \<open>enter_async\<close> and \<open>exit_async\<close>), on any text
  of characters in chunks of any sizes, every call returns, and the only exception that leaves the
  scanner is \<open>CompileError\<close>: no method pops from an empty stack, finds no open level, enters an unknown
  state, looks up a missing key, or is called with wrong arguments. The option \<open>--fast-fail\<close>, with which
  the first reported error also raises \<open>AbortError\<close>, is off.\<close>

theorem scanner_calls_safe:
  assumes "pyrex_machine (env_lexicon env)" and "list_all chr_ok (concat chunks)" "[] \<notin> set chunks"
  shows "\<exists>r. then_scan (pyrex_init env python_file comments parent_async pos chunks)
        (\<lambda>s. call_all env calls s) = Some r
      \<and> (case r of Inl (e, _) \<Rightarrow> \<exists>pos message. e = CompileError pos message | Inr _ \<Rightarrow> True)"
proof -
  obtain s where s: "pyrex_start env python_file comments parent_async pos chunks = Inr ((), s)"
    "in_order env (concat chunks) s"
    using pyrex_start_spec [OF assms, of python_file comments parent_async pos] by (metis in_order_def)
  have "safe env (concat chunks) (async_enabled s)
      (then_scan (pyrex_init env python_file comments parent_async pos chunks) (\<lambda>s. call_all env calls s))"
  proof (rule safe_then)
    show "safe env (concat chunks) (async_enabled s)
        (pyrex_init env python_file comments parent_async pos chunks)"
      using next_token_safe [OF assms(1) s(2)] s(1) by (simp add: pyrex_init_def then_scan_def)
  qed (use call_all_safe [OF assms(1)] in force)
  then show ?thesis
    by (auto simp: safe_def only_compile_errors_def only_compile_error_def split: option.splits sum.splits prod.splits)
qed

lemma example_chunks: "list_all chr_ok (concat [codes ''if x:'', codes '' y''])" "[] \<notin> set [codes ''if x:'', codes '' y'']"
  by (simp_all add: codes_def chr_ok_def)

lemma scanner_calls_safe_witness:
  "\<exists>fm r. make_lexicon = Some (Inr fm)
     \<and> then_scan (pyrex_init \<lparr>env_lexicon = fm, env_nfkc = id, env_print_function = True, env_language_level = 3\<rparr>
           False True False None [codes ''if x:'', codes '' y''])
         (\<lambda>s. call_all \<lparr>env_lexicon = fm, env_nfkc = id, env_print_function = True, env_language_level = 3\<rparr>
           [Peek, InAsync [Next, Expect (codes '':'') None], ExpectNewline [] True] s) = Some r"
proof -
  obtain fm where fm: "make_lexicon = Some (Inr fm)" using make_lexicon_returns by blast
  let ?env = "\<lparr>env_lexicon = fm, env_nfkc = id, env_print_function = True, env_language_level = 3\<rparr>"
  have "pyrex_machine (env_lexicon ?env)" using fm by (simp add: pyrex_machine_def)
  from scanner_calls_safe [OF this example_chunks, of False True False None] fm show ?thesis by blast
qed

text \<open>C27. The end of every file is reached: reading tokens one after the other returns, with a
  \<open>CompileError\<close> or with the tokens up to an \<open>EOF\<close> that is the last and the only one. In these tokens
  no block is closed that was not opened, and when the file ends outside of strings, all blocks that
  were opened are closed. As in C26, \<open>--fast-fail\<close> is off.\<close>

theorem scan_to_end:
  assumes "pyrex_machine (env_lexicon env)" and "list_all chr_ok (concat chunks)" "[] \<notin> set chunks"
  shows "\<exists>s r. pyrex_start env python_file comments parent_async pos chunks = Inr ((), s)
      \<and> scan_all env [] s = Some r
      \<and> (case r of
           Inl (e, _) \<Rightarrow> \<exists>pos message. e = CompileError pos message
         | Inr (tokens, s') \<Rightarrow>
             (\<exists>before. tokens = before @ [EOF_value] \<and> EOF_value \<notin> set before)
             \<and> (\<exists>d. nest tokens 0 = Some d \<and> (sc_state_name s' \<in> {'''', ''INDENT''} \<longrightarrow> d = 0)))"
proof -
  obtain s where s: "pyrex_start env python_file comments parent_async pos chunks = Inr ((), s)"
    "scanner_ok env (concat chunks) s" "keywords_ok s" "depth s = 0" "sc_queue s = []"
    using pyrex_start_spec [OF assms, of python_file comments parent_async pos] .
  have "stream_ok [] s" using s(4,5) by (simp add: stream_ok_def)
  from scan_all_spec [OF assms(1) s(2,3) this] obtain r where
    "scan_all env [] s = Some r" "only_compile_errors r" "\<forall>all s'. r = Inr (all, s') \<longrightarrow> whole_file all s'"
    by blast
  then show ?thesis
    using s(1) by (intro exI [of _ s] exI [of _ r])
      (auto simp: only_compile_errors_def only_compile_error_def whole_file_def split: sum.splits prod.splits)
qed

lemma scan_to_end_witness:
  "\<exists>fm s r. make_lexicon = Some (Inr fm)
     \<and> pyrex_start \<lparr>env_lexicon = fm, env_nfkc = id, env_print_function = True, env_language_level = 3\<rparr>
         False True False None [codes ''if x:'', codes '' y''] = Inr ((), s)
     \<and> scan_all \<lparr>env_lexicon = fm, env_nfkc = id, env_print_function = True, env_language_level = 3\<rparr> [] s = Some r"
proof -
  obtain fm where fm: "make_lexicon = Some (Inr fm)" using make_lexicon_returns by blast
  let ?env = "\<lparr>env_lexicon = fm, env_nfkc = id, env_print_function = True, env_language_level = 3\<rparr>"
  have "pyrex_machine (env_lexicon ?env)" using fm by (simp add: pyrex_machine_def)
  from scan_to_end [OF this example_chunks, of False True False None] fm show ?thesis by blast
qed

end
