(* ===== verification/PyrexTentative.thy ===== *)
theory PyrexTentative
  imports PyrexStream
begin

text \<open>
  \<open>tentatively_scan\<close>: a block that reads tokens and then fails leaves the scanner at the token where
  the block began, with the tokens it read waiting in the queue.
\<close>

subsection \<open>Reading tokens\<close>

text \<open>The tokens that \<open>n\<close> calls of \<open>next\<close> make current.\<close>

fun read_tokens :: "scan_env \<Rightarrow> nat \<Rightarrow> pyrex \<Rightarrow> token list scanned option" where
  "read_tokens env 0 s = Some (Inr ([], s))"
| "read_tokens env (Suc n) s =
     (case next_token env s of
        None \<Rightarrow> None
      | Some (Inl e) \<Rightarrow> Some (Inl e)
      | Some (Inr (_, s)) \<Rightarrow>
          (case read_tokens env n s of
             None \<Rightarrow> None
           | Some (Inl e) \<Rightarrow> Some (Inl e)
           | Some (Inr (toks, s')) \<Rightarrow> Some (Inr (current_token s # toks, s'))))"

text \<open>A token that reading once more does not change: it is no identifier that is a keyword.\<close>

definition settled :: "pyrex \<Rightarrow> token \<Rightarrow> bool" where
  "settled s tok \<longleftrightarrow>
     (fst (fst tok) = Some IDENT \<longrightarrow> dict_get (kw_table s) (snd (fst tok)) \<in> {None, Some IDENT})"

text \<open>The keywords of \<open>s'\<close> are some of those of \<open>s\<close>.\<close>

definition fewer_keywords :: "pyrex \<Rightarrow> pyrex \<Rightarrow> bool" where
  "fewer_keywords s s' \<longleftrightarrow>
     (\<forall>k. dict_get (kw_table s') k = dict_get (kw_table s) k \<or> dict_get (kw_table s') k = None)"

lemma fewer_keywords_trans: "fewer_keywords s s' \<Longrightarrow> fewer_keywords s' s'' \<Longrightarrow> fewer_keywords s s''"
  unfolding fewer_keywords_def by metis

lemma settled_fewer: "settled s tok \<Longrightarrow> fewer_keywords s s' \<Longrightarrow> settled s' tok"
  unfolding settled_def fewer_keywords_def by (metis insert_iff)

lemma settled_table: "kw_table s' = kw_table s \<Longrightarrow> settled s' = settled s"
  by (simp add: fun_eq_iff settled_def)

lemma keyword_token_settled:
  assumes "keyword_token env v t s = (v', s')"
  shows "settled s' ((v', t), pos)" and "fewer_keywords s s'"
  using assms
  by (auto simp: keyword_token_def settled_def fewer_keywords_def dict_get_del_fun
      split: if_splits option.splits)

lemma keyword_token_again:
  assumes "settled s ((v, t), pos)"
  shows "fst (keyword_token env v t s) = v"
  using assms by (auto simp: keyword_token_def settled_def split: option.splits)

lemma keyword_token_frame: "\<exists>table. snd (keyword_token env v t s) = s\<lparr>kw_table := table\<rparr>"
proof -
  have "\<exists>table. s = s\<lparr>kw_table := table\<rparr>" by (intro exI [of _ "kw_table s"]) simp
  then show ?thesis by (auto simp: keyword_token_def split: option.splits)
qed

text \<open>What \<open>accept_token\<close> leaves.\<close>

lemma accept_token_current:
  assumes s'_def: "s' = accept_token env v t s"
  shows "settled s' (current_token s')" and "fewer_keywords s s'"
    and "put_back_on_failure s' = map_option (\<lambda>ts. ts @ [current_token s']) (put_back_on_failure s)"
    and "error_stack s' = error_stack s" and "sc_queue s' = sc_queue s"
    and "settled s ((v, t), sc_last_pos s) \<Longrightarrow> current_token s' = ((v, t), sc_last_pos s)"
proof -
  obtain v' s1 where k: "keyword_token env v t s = (v', s1)" by (cases "keyword_token env v t s")
  obtain table where s1: "s1 = s\<lparr>kw_table := table\<rparr>"
    using keyword_token_frame [of env v t s] k by auto
  have s': "s' = s1\<lparr>put_back_on_failure :=
        map_option (\<lambda>ts. ts @ [((v', t), sc_last_pos s)]) (put_back_on_failure s), sy := v', systring := t\<rparr>"
    by (simp add: s'_def accept_token_def k s1)
  note spec = keyword_token_settled [OF k]
  have "kw_table s' = kw_table s1" by (simp add: s')
  then show "settled s' (current_token s')" "fewer_keywords s s'"
    using spec settled_table [of s' s1] by (simp_all add: fewer_keywords_def current_token_def s' s1)
  show "put_back_on_failure s' = map_option (\<lambda>ts. ts @ [current_token s']) (put_back_on_failure s)"
    "error_stack s' = error_stack s" "sc_queue s' = sc_queue s"
    by (simp_all add: s' s1 current_token_def)
  show "settled s ((v, t), sc_last_pos s) \<Longrightarrow> current_token s' = ((v, t), sc_last_pos s)"
    using keyword_token_again [of s v t "sc_last_pos s" env] k by (simp add: s' s1 current_token_def)
qed

lemma accept_token_order:
  assumes "in_order env text s"
  shows "in_order env text (accept_token env v t s)"
  using accept_token_spec [where s = s and s' = "accept_token env v t s" and env = env and v = v and t = t]
    assms by (simp add: in_order_def)

text \<open>One \<open>next\<close>: the queue keeps its tokens, the token read is settled and is noted in
  \<open>put_back_on_failure\<close>, and only the innermost list of held errors may have grown.\<close>

lemma next_token_reads:
  assumes env: "pyrex_machine (env_lexicon env)" and s: "in_order env text s"
    and run: "next_token env s = Some (Inr (u, s'))"
  shows "in_order env text s'" and "settled s' (current_token s')" and "fewer_keywords s s'"
    and "put_back_on_failure s' = map_option (\<lambda>ts. ts @ [current_token s']) (put_back_on_failure s)"
    and "tl (error_stack s') = tl (error_stack s)" and "(error_stack s' = []) = (error_stack s = [])"
proof -
  have ok: "scanner_ok env text s" "keywords_ok s" using s by (simp_all add: in_order_def)
  let ?fill = "fill_queue (env_lexicon env) (pyrex_action env) s"
  obtain s1 where s1: "?fill = Some (Inr ((), s1))" "s' = accept_token env (fst (fst (hd (sc_queue s1))))
      (snd (fst (hd (sc_queue s1)))) (s1\<lparr>sc_last_pos := snd (hd (sc_queue s1)), sc_queue := tl (sc_queue s1)\<rparr>)"
    using run
    by (auto simp: next_token_def read_token_def error_at_scanpos_def raise_error_def and_then_def
        split: option.splits sum.splits prod.splits scan_exn.splits)
  let ?s = "s1\<lparr>sc_last_pos := snd (hd (sc_queue s1)), sc_queue := tl (sc_queue s1)\<rparr>"
  have "s1 = s \<or> advanced env text s s1"
  proof (cases "sc_queue s = []")
    case True
    from fill_queue_spec [OF env ok(1) True] s1(1) show ?thesis by auto
  next
    case False
    then show ?thesis using s1(1) by (simp add: fill_queue.simps)
  qed
  then have fill: "in_order env text s1" "kw_table s1 = kw_table s" "put_back_on_failure s1 = put_back_on_failure s"
    "tl (error_stack s1) = tl (error_stack s)" "(error_stack s1 = []) = (error_stack s = [])"
    using s by (auto simp: advanced_def in_order_def keywords_ok_def)
  have "in_order env text ?s"
    using fill(1) by (auto simp: in_order_def scanner_ok_def name_ok_def mode_ok_def blocks_ok_def keywords_ok_def
        split: list.splits)
  then show "in_order env text s'" unfolding s1(2) by (rule accept_token_order)
  note acc = accept_token_current [where env = env and s = "?s"
      and v = "fst (fst (hd (sc_queue s1)))" and t = "snd (fst (hd (sc_queue s1)))", OF s1(2)]
  show "settled s' (current_token s')" by (rule acc(1))
  show "fewer_keywords s s'" using acc(2) fill(2) by (simp add: fewer_keywords_def)
  show "put_back_on_failure s' = map_option (\<lambda>ts. ts @ [current_token s']) (put_back_on_failure s)"
    using acc(3) fill(3) by simp
  show "tl (error_stack s') = tl (error_stack s)" "(error_stack s' = []) = (error_stack s = [])"
    using acc(4) fill(4,5) by simp_all
qed

text \<open>A settled token that waits in the queue is read as it is.\<close>

lemma next_token_queued:
  assumes "sc_queue s = tok # toks" and "settled s tok"
  obtains s' where "next_token env s = Some (Inr ((), s'))" "current_token s' = tok" "sc_queue s' = toks"
    "fewer_keywords s s'" "put_back_on_failure s' = map_option (\<lambda>ts. ts @ [tok]) (put_back_on_failure s)"
proof -
  obtain v t pos where tok: "tok = ((v, t), pos)" by (metis surj_pair)
  let ?s = "s\<lparr>sc_last_pos := pos, sc_queue := toks\<rparr>"
  have "next_token env s = Some (Inr ((), accept_token env v t ?s))"
    using assms(1) by (simp add: next_token_def read_token_def fill_queue.simps tok and_then_def)
  moreover have "settled ?s ((v, t), sc_last_pos ?s)"
    using assms(2) settled_table [of ?s s] by (simp add: tok)
  moreover have "fewer_keywords s (accept_token env v t ?s)"
    using accept_token_current(2) [OF refl, where env = env and v = v and t = t and s = ?s] by (simp add: fewer_keywords_def)
  ultimately show thesis
    using that accept_token_current(3,5,6) [OF refl, where env = env and v = v and t = t and s = ?s] by (simp add: tok)
qed

text \<open>A token that is peeked at and then read is noted twice.\<close>

lemma peek_noted_twice:
  assumes "sc_queue s = tok # toks" and "settled s tok" and "put_back_on_failure s = Some seen"
  obtains s1 s2 where "peek env s = Some (Inr (fst tok, s1))" "next_token env s1 = Some (Inr ((), s2))"
    "current_token s2 = tok" "put_back_on_failure s2 = Some (seen @ [tok, tok])"
proof -
  obtain s' where s': "next_token env s = Some (Inr ((), s'))" "current_token s' = tok" "sc_queue s' = toks"
    "fewer_keywords s s'" "put_back_on_failure s' = Some (seen @ [tok])"
    using next_token_queued [OF assms(1,2), of env] assms(3) by auto
  let ?s1 = "set_current (current_token s) (unread (sy s') (systring s') (sc_last_pos s') s')"
  have s1: "sc_queue ?s1 = tok # toks" "put_back_on_failure ?s1 = Some (seen @ [tok])" "kw_table ?s1 = kw_table s'"
    using s' by (auto simp: set_current_def unread_def current_token_def)
  have "settled ?s1 tok" using settled_fewer [OF assms(2) s'(4)] settled_table [OF s1(3)] by simp
  from next_token_queued [OF s1(1) this, of env] obtain s2 where
    "next_token env ?s1 = Some (Inr ((), s2))" "current_token s2 = tok"
    "put_back_on_failure s2 = Some ((seen @ [tok]) @ [tok])" using s1(2) by auto
  moreover have "peek env s = Some (Inr (fst tok, ?s1))" using s'(1,2) by (auto simp: peek_def current_token_def)
  ultimately show thesis using that by simp
qed

lemma read_tokens_queued:
  "sc_queue s = toks @ rest \<Longrightarrow> list_all (settled s) toks \<Longrightarrow>
     \<exists>s'. read_tokens env (length toks) s = Some (Inr (toks, s')) \<and> sc_queue s' = rest"
proof (induction toks arbitrary: s)
  case Nil
  then show ?case by simp
next
  case (Cons tok toks)
  obtain s1 where s1: "next_token env s = Some (Inr ((), s1))" "current_token s1 = tok"
    "sc_queue s1 = toks @ rest" "fewer_keywords s s1"
    using next_token_queued [of s tok "toks @ rest" env] Cons.prems by auto
  have "list_all (settled s1) toks"
    using Cons.prems(2) settled_fewer [OF _ s1(4)] by (auto simp: list_all_iff)
  with Cons.IH [OF s1(3)] s1(1,2) show ?case by auto
qed

lemma read_tokens_spec:
  assumes env: "pyrex_machine (env_lexicon env)"
  shows "in_order env text s \<Longrightarrow> put_back_on_failure s = Some seen \<Longrightarrow>
    read_tokens env n s = Some (Inr (toks, s')) \<Longrightarrow>
      in_order env text s' \<and> list_all (settled s') toks \<and> put_back_on_failure s' = Some (seen @ toks)
      \<and> fewer_keywords s s' \<and> current_token s' = last (current_token s # toks)
      \<and> tl (error_stack s') = tl (error_stack s) \<and> (error_stack s' = []) = (error_stack s = [])"
proof (induction n arbitrary: s seen toks)
  case 0
  then show ?case by (simp add: fewer_keywords_def)
next
  case (Suc n)
  obtain s1 toks1 where run: "next_token env s = Some (Inr ((), s1))"
    "read_tokens env n s1 = Some (Inr (toks1, s'))" "toks = current_token s1 # toks1"
    using Suc.prems(3) by (auto split: option.splits sum.splits prod.splits)
  note reads = next_token_reads [OF env Suc.prems(1) run(1)]
  have "put_back_on_failure s1 = Some (seen @ [current_token s1])" using reads(4) Suc.prems(2) by simp
  note rest = Suc.IH [OF reads(1) this run(2)]
  then have "settled s' (current_token s1)" using settled_fewer [OF reads(2)] by blast
  with rest reads run(3) fewer_keywords_trans [OF reads(3)] show ?case by auto
qed

subsection \<open>Putting tokens back\<close>

text \<open>The current token and the tokens after it.\<close>

definition upcoming :: "pyrex \<Rightarrow> token list" where
  "upcoming s = current_token s # sc_queue s"

lemma put_back_upcoming: "upcoming (put_back tok s) = tok # upcoming s"
  by (simp add: upcoming_def put_back_def set_current_def unread_def current_token_def)

lemma put_back_frame [simp]:
  "kw_table (put_back tok s) = kw_table s" "put_back_on_failure (put_back tok s) = put_back_on_failure s"
  "error_stack (put_back tok s) = error_stack s"
  by (simp_all add: put_back_def set_current_def unread_def)

lemma put_all_back:
  "upcoming (foldl (\<lambda>s tok. put_back tok s) s toks) = rev toks @ upcoming s
   \<and> kw_table (foldl (\<lambda>s tok. put_back tok s) s toks) = kw_table s
   \<and> put_back_on_failure (foldl (\<lambda>s tok. put_back tok s) s toks) = put_back_on_failure s
   \<and> error_stack (foldl (\<lambda>s tok. put_back tok s) s toks) = error_stack s"
  by (induction toks arbitrary: s) (simp_all add: put_back_upcoming)

lemma restore_tokens_upcoming:
  assumes "put_back_on_failure s = Some toks" and "current_token s = last (tok # toks)"
  shows "upcoming (restore_tokens tok s) = tok # toks @ sc_queue s"
    and "kw_table (restore_tokens tok s) = kw_table s" "error_stack (restore_tokens tok s) = error_stack s"
proof -
  have "upcoming (restore_tokens tok s) = tok # toks @ sc_queue s
    \<and> kw_table (restore_tokens tok s) = kw_table s \<and> error_stack (restore_tokens tok s) = error_stack s"
  proof (cases toks)
    case Nil
    then show ?thesis using assms by (simp add: restore_tokens_def upcoming_def)
  next
    case (Cons t ts)
    have "rev (rev (butlast toks)) @ upcoming s = toks @ sc_queue s"
      using assms(2) Cons append_butlast_last_id [of toks] by (simp add: upcoming_def)
    then show ?thesis
      using put_all_back [of s "rev (butlast toks)"] assms(1) Cons
      by (simp add: restore_tokens_def put_back_upcoming)
  qed
  then show "upcoming (restore_tokens tok s) = tok # toks @ sc_queue s"
    "kw_table (restore_tokens tok s) = kw_table s" "error_stack (restore_tokens tok s) = error_stack s"
    by blast+
qed

subsection \<open>A tentative block\<close>

text \<open>The scanner as a block finds it.\<close>

definition tentative_start :: "pyrex \<Rightarrow> pyrex" where
  "tentative_start s = s\<lparr>error_stack := [] # error_stack s, put_back_on_failure := Some []\<rparr>"

lemma tentative_start_simps [simp]:
  "in_order env text (tentative_start s) = in_order env text s"
  "current_token (tentative_start s) = current_token s" "sc_queue (tentative_start s) = sc_queue s"
  "put_back_on_failure (tentative_start s) = Some []" "tl (error_stack (tentative_start s)) = error_stack s"
  "error_stack (tentative_start s) \<noteq> []" "settled (tentative_start s) = settled s"
  by (auto simp: tentative_start_def in_order_def scanner_ok_def name_ok_def mode_ok_def blocks_ok_def
      keywords_ok_def current_token_def settled_def fun_eq_iff split: list.splits)

lemma read_tokens_length: "read_tokens env n s = Some (Inr (toks, s')) \<Longrightarrow> length toks = n"
  by (induction n arbitrary: s toks) (auto split: option.splits sum.splits prod.splits)

lemma call_all_next:
  "read_tokens env n s = Some (Inr (toks, s')) \<Longrightarrow>
     call_all env (replicate n Next @ calls) s = call_all env calls s'"
  by (induction n arbitrary: s toks)
     (auto simp: call_scanner_def then_scan_def split: option.splits sum.splits prod.splits)

lemma scanner_error_fields:
  "current_token (scanner_error m pos s) = current_token s" "sc_queue (scanner_error m pos s) = sc_queue s"
  "put_back_on_failure (scanner_error m pos s) = put_back_on_failure s"
  "tl (error_stack (scanner_error m pos s)) = tl (error_stack s)"
  "kw_table (scanner_error m pos s) = kw_table s"
  "error_stack s \<noteq> [] \<Longrightarrow> hd (error_stack (scanner_error m pos s)) \<noteq> []"
  by (auto simp: scanner_error_def report_error_def current_token_def split: list.splits)

text \<open>The end of a block whose tokens are \<open>toks\<close>.\<close>

lemma end_tentative_undone:
  assumes "hd (error_stack s) \<noteq> []" and "put_back_on_failure s = Some toks"
    and "current_token s = last (tok # toks)" and "list_all (settled s) toks"
  obtains s' where "end_tentative outer tok s = (hd (error_stack s), s')"
    "current_token s' = tok" "sc_queue s' = toks @ sc_queue s" "error_stack s' = tl (error_stack s)"
    "put_back_on_failure s' = outer" "list_all (settled s') toks"
proof
  let ?r = "restore_tokens tok s"
  let ?s' = "?r\<lparr>put_back_on_failure := outer, error_stack := tl (error_stack ?r)\<rparr>"
  note r = restore_tokens_upcoming [OF assms(2,3)]
  show "end_tentative outer tok s = (hd (error_stack s), ?s')"
    using assms(1) by (simp add: end_tentative_def Let_def)
  show "current_token ?s' = tok" "sc_queue ?s' = toks @ sc_queue s"
    using r(1) by (simp_all add: upcoming_def current_token_def)
  show "error_stack ?s' = tl (error_stack s)" using r(3) by simp
  show "put_back_on_failure ?s' = outer" by simp
  show "list_all (settled ?s') toks" using assms(4) settled_table [of ?s' s] r(2) by simp
qed

text \<open>C28. Undo: a \<open>tentatively_scan\<close> block that reads any number of tokens with \<open>next\<close> and then reports
  an error, fatal or not, leaves the current token of before, and the tokens it has read are the first
  of the queue, in their order; the errors are no longer held, an enclosing block sees nothing of the
  reading, and reading again gives the same tokens, also where identifiers had become keywords. A
  block that reports no error keeps its place, and its tokens are added to those that an enclosing
  block would put back. A block that also peeks does not have this property (\<open>peek_noted_twice\<close>).\<close>

theorem tentative_scan_restores:
  assumes env: "pyrex_machine (env_lexicon env)" and s: "in_order env text s"
    and read: "read_tokens env n (tentative_start s) = Some (Inr (toks, s1))"
  shows "(\<exists>errors s' s2.
      tentatively_scan (call_all env (replicate n Next @ [Error message pos fatal])) s =
        Some (Inr ((if fatal then None else Some (), errors), s'))
      \<and> errors \<noteq> [] \<and> current_token s' = current_token s \<and> sc_queue s' = toks @ sc_queue s1
      \<and> error_stack s' = error_stack s \<and> put_back_on_failure s' = put_back_on_failure s
      \<and> read_tokens env n s' = Some (Inr (toks, s2)) \<and> sc_queue s2 = sc_queue s1)
    \<and> (hd (error_stack s1) = [] \<longrightarrow> (\<exists>s'.
      tentatively_scan (call_all env (replicate n Next)) s = Some (Inr ((Some (), []), s'))
      \<and> current_token s' = last (current_token s # toks) \<and> sc_queue s' = sc_queue s1
      \<and> error_stack s' = error_stack s
      \<and> put_back_on_failure s' = map_option (\<lambda>ts. ts @ toks) (put_back_on_failure s)))"
proof (intro conjI impI)
  have start: "in_order env text (tentative_start s)" using s by simp
  have s1: "list_all (settled s1) toks" "put_back_on_failure s1 = Some toks"
    "current_token s1 = last (current_token s # toks)" "tl (error_stack s1) = error_stack s" "error_stack s1 \<noteq> []"
    using read_tokens_spec [OF env start _ read] by auto
  let ?e = "scanner_error message pos s1"
  note e = scanner_error_fields [where m = message and pos = pos and s = s1]
  have "list_all (settled ?e) toks" using s1(1) settled_table [OF e(5)] by simp
  then obtain s' where s': "end_tentative (put_back_on_failure s) (current_token s) ?e = (hd (error_stack ?e), s')"
    "current_token s' = current_token s" "sc_queue s' = toks @ sc_queue s1" "error_stack s' = error_stack s"
    "put_back_on_failure s' = put_back_on_failure s" "list_all (settled s') toks"
    using end_tentative_undone [of ?e toks "current_token s" "put_back_on_failure s"] s1 e by auto
  have "call_all env (replicate n Next @ [Error message pos fatal]) (tentative_start s) =
      Some (if fatal then raise_error message pos s1 else Inr ((), ?e))"
    using call_all_next [OF read, of "[Error message pos fatal]"]
    by (simp add: call_scanner_def then_scan_def raise_error_def)
  then have "tentatively_scan (call_all env (replicate n Next @ [Error message pos fatal])) s =
      Some (Inr ((if fatal then None else Some (), hd (error_stack ?e)), s'))"
    using s'(1) by (simp add: tentatively_scan_def tentative_start_def raise_error_def Let_def)
  moreover obtain s2 where "read_tokens env n s' = Some (Inr (toks, s2))" "sc_queue s2 = sc_queue s1"
    using read_tokens_queued [OF s'(3,6), of env] read_tokens_length [OF read] by auto
  ultimately show "\<exists>errors s' s2.
      tentatively_scan (call_all env (replicate n Next @ [Error message pos fatal])) s =
        Some (Inr ((if fatal then None else Some (), errors), s'))
      \<and> errors \<noteq> [] \<and> current_token s' = current_token s \<and> sc_queue s' = toks @ sc_queue s1
      \<and> error_stack s' = error_stack s \<and> put_back_on_failure s' = put_back_on_failure s
      \<and> read_tokens env n s' = Some (Inr (toks, s2)) \<and> sc_queue s2 = sc_queue s1"
    using s' e(6) [OF s1(5)] by blast
  assume quiet: "hd (error_stack s1) = []"
  have "call_all env (replicate n Next) (tentative_start s) = Some (Inr ((), s1))"
    using call_all_next [OF read, of "[]"] by simp
  with quiet s1(2-4) show "\<exists>s'.
      tentatively_scan (call_all env (replicate n Next)) s = Some (Inr ((Some (), []), s'))
      \<and> current_token s' = last (current_token s # toks) \<and> sc_queue s' = sc_queue s1
      \<and> error_stack s' = error_stack s
      \<and> put_back_on_failure s' = map_option (\<lambda>ts. ts @ toks) (put_back_on_failure s)"
    by (simp add: tentatively_scan_def tentative_start_def end_tentative_def Let_def current_token_def)
qed

theorem tentative_scan_restores_witness:
  "\<exists>fm s errors s'. make_lexicon = Some (Inr fm)
     \<and> sc_queue s = [((Some (codes ''(''), codes ''(''), (1, 4)), ((Some IDENT, codes ''spam''), (1, 5))]
     \<and> tentatively_scan (call_all \<lparr>env_lexicon = fm, env_nfkc = id, env_print_function = True, env_language_level = 3\<rparr>
         [Next, Next, Error (codes ''bad'') None True]) s = Some (Inr ((None, errors), s'))
     \<and> current_token s' = current_token s \<and> sc_queue s' = sc_queue s"
proof -
  obtain fm where fm: "make_lexicon = Some (Inr fm)" using make_lexicon_returns by blast
  let ?env = "\<lparr>env_lexicon = fm, env_nfkc = id, env_print_function = True, env_language_level = 3\<rparr>"
  have env: "pyrex_machine (env_lexicon ?env)" using fm by (simp add: pyrex_machine_def)
  let ?text = "concat [codes ''if x:'', codes '' y'']"
  obtain s0 where s0: "scanner_ok ?env ?text s0" "keywords_ok s0"
    using pyrex_start_spec [OF env example_chunks, of False True False None] by metis
  let ?toks = "[((Some (codes ''(''), codes ''(''), (1, 4)), ((Some IDENT, codes ''spam''), (1, 5))] :: token list"
  have s: "in_order ?env ?text (s0\<lparr>sc_queue := ?toks, kw_table := [], async_enabled := 0\<rparr>)"
    using s0 by (auto simp: in_order_def scanner_ok_def name_ok_def mode_ok_def blocks_ok_def keywords_ok_def
        split: list.splits)
  let ?s = "s0\<lparr>sc_queue := ?toks, kw_table := [], async_enabled := 0\<rparr>"
  have "list_all (settled (tentative_start ?s)) ?toks" by (simp add: settled_def IDENT_def codes_def)
  then obtain s1 where s1: "read_tokens ?env 2 (tentative_start ?s) = Some (Inr (?toks, s1))" "sc_queue s1 = []"
    using read_tokens_queued [of "tentative_start ?s" ?toks "[]" ?env] by (auto simp: numeral_2_eq_2)
  from tentative_scan_restores [OF env s s1(1), of "codes ''bad''" None True] fm s1(2)
  show ?thesis
    by (intro exI [of _ fm] exI [of _ ?s]) (auto simp: numeral_2_eq_2)
qed

end
