(* ===== verification/StringLiterals.thy ===== *)
theory StringLiterals
  imports Prelude "HOL-Library.Sublist"
begin

text \<open>
  The C string literals of \<open>Cython/Compiler/StringEncoding.py\<close>: escaping a byte string, splitting
  a long literal, and the representations of unicode strings. A byte is a \<open>char\<close>, and so is a
  character of a text that is ASCII; the characters of a unicode string are code points.
\<close>

subsection \<open>Python slices\<close>

definition slice_bound :: "'a list \<Rightarrow> int \<Rightarrow> int" where
  "slice_bound xs i = (if i < 0 then max 0 (i + int (length xs)) else min i (int (length xs)))"

definition py_slice :: "'a list \<Rightarrow> int \<Rightarrow> int \<Rightarrow> 'a list" where
  "py_slice xs i j =
     take (nat (slice_bound xs j - slice_bound xs i)) (drop (nat (slice_bound xs i)) xs)"

definition py_index :: "'a list \<Rightarrow> int \<Rightarrow> 'a option" where
  "py_index xs i =
     (if 0 \<le> i \<and> i < int (length xs) then Some (xs ! nat i)
      else if i < 0 \<and> 0 \<le> i + int (length xs) then Some (xs ! nat (i + int (length xs)))
      else None)"

text \<open>\<open>find\<close> with one character.\<close>

definition str_find :: "'a list \<Rightarrow> 'a \<Rightarrow> int" where
  "str_find xs c = (if c \<in> set xs then int (length (takeWhile (\<lambda>x. x \<noteq> c) xs)) else -1)"

subsection \<open>Escapes\<close>

abbreviation backslash :: char where "backslash \<equiv> CHR 0x5C"
abbreviation quote_char :: char where "quote_char \<equiv> CHR 0x22"

text \<open>The format \<open>03o\<close> of a byte.\<close>

definition octal3 :: "nat \<Rightarrow> string" where
  "octal3 n = [digit_char (n div 64), digit_char (n div 8 mod 8), digit_char (n mod 8)]"

text \<open>\<open>repr(s)[1:-1]\<close> for a text of the characters newline, carriage return and tab.\<close>

definition repr_inner :: "string \<Rightarrow> string" where
  "repr_inner s = concat (map (\<lambda>c.
     if c = CHR 0x0A then [backslash, CHR ''n''] else if c = CHR 0x0D then [backslash, CHR ''r'']
     else if c = CHR 0x09 then [backslash, CHR ''t''] else [c]) s)"

definition to_escape_sequence :: "string \<Rightarrow> string" where
  "to_escape_sequence s =
     (if sublist s [CHR 0x0A, CHR 0x0D, CHR 0x09] then repr_inner s
      else if s = [quote_char] then [backslash, quote_char]
      else if s = [backslash] then [backslash, backslash]
      else concat (map (\<lambda>c. backslash # octal3 (of_char c)) s))"

definition c_special :: "string list" where
  "c_special =
     [[backslash], ''??'', [quote_char], [CHR 0x27]] @ map (\<lambda>n. [char_of (n :: nat)]) [0..<32]"

definition replacements :: "(string, string) pydict" where
  "replacements = map (\<lambda>special. (special, to_escape_sequence special)) c_special"

text \<open>The regular expression tries the specials in their order at each position; the replaced text
  is not scanned again.\<close>

definition match_special :: "string \<Rightarrow> string option" where
  "match_special s = find (\<lambda>special. prefix special s) c_special"

function replace_specials :: "string \<Rightarrow> string" where
  "replace_specials [] = []"
| "replace_specials (c # cs) =
     (case match_special (c # cs) of
        None \<Rightarrow> c # replace_specials cs
      | Some special \<Rightarrow>
          (case dict_get replacements special of None \<Rightarrow> [] | Some r \<Rightarrow> r)
          @ replace_specials (drop (length special) (c # cs)))"
  by pat_completeness auto

lemma c_special_nonempty: "sp \<in> set c_special \<Longrightarrow> sp \<noteq> []"
  by (auto simp: c_special_def)

lemma match_special_nonempty: "match_special s = Some special \<Longrightarrow> 0 < length special"
  by (auto simp: match_special_def dest!: find_Some_mem c_special_nonempty)

termination replace_specials
  by (relation "measure length") (auto dest!: match_special_nonempty)

definition escape_byte_string :: "string \<Rightarrow> string" where
  "escape_byte_string bytestring =
     (let s = replace_specials bytestring in
      if list_all (\<lambda>b. of_char b < (128 :: nat)) s then s
      else concat (map (\<lambda>b. if of_char b \<ge> (127 :: nat) then backslash # octal3 (of_char b) else [b]) s))"

text \<open>\<open>escape_char\<close> of one byte; two upper case hexadecimal digits.\<close>

definition hex_digit :: "nat \<Rightarrow> char" where
  "hex_digit n = char_of (if n < 10 then 48 + n else 55 + n)"

definition escape_char :: "char \<Rightarrow> string" where
  "escape_char c =
     (if c \<in> {CHR 0x0A, CHR 0x0D, CHR 0x09} then repr_inner [c]
      else if c = backslash then [backslash, backslash]
      else if c = CHR 0x27 then [backslash, CHR 0x27]
      else let n = of_char c :: nat in
        if n < 32 \<or> n \<ge> 127 then [backslash, CHR ''x'', hex_digit (n div 16), hex_digit (n mod 16)]
        else [c])"

subsection \<open>Splitting\<close>

datatype index_error = IndexOutOfRange

text \<open>The inner loop, which moves \<open>end\<close> back over a run of backslashes.\<close>

function back_over :: "string \<Rightarrow> int \<Rightarrow> int \<Rightarrow> int \<Rightarrow> index_error + int" where
  "back_over s start limit end_pos =
     (case py_index s (end_pos - 1) of
        None \<Rightarrow> Inl IndexOutOfRange
      | Some c \<Rightarrow>
          if c \<noteq> backslash then Inr end_pos
          else if end_pos - 1 = start then Inr (start + limit - limit mod 2 - 4)
          else back_over s start limit (end_pos - 1))"
  by pat_completeness auto

termination back_over
  by (relation "measure (\<lambda>(s, start, limit, end_pos). nat (end_pos + int (length s)))")
    (auto simp: py_index_def split: if_splits)

definition chunk_end :: "string \<Rightarrow> int \<Rightarrow> int \<Rightarrow> index_error + int" where
  "chunk_end s start limit =
     (let end_pos = start + limit in
      if int (length s) > end_pos - 4 \<and> backslash \<in> set (py_slice s (end_pos - 4) end_pos)
      then back_over s start limit (end_pos - (4 - str_find (py_slice s (end_pos - 4) end_pos) backslash))
      else Inr end_pos)"

text \<open>The outer loop; it need not end for a limit below six.\<close>

partial_function (option) split_chunks ::
  "string \<Rightarrow> int \<Rightarrow> int \<Rightarrow> string list \<Rightarrow> (index_error + string list) option" where
  "split_chunks s limit start chunks =
     (if start < int (length s) then
        (case chunk_end s start limit of
           Inl e \<Rightarrow> Some (Inl e)
         | Inr end_pos \<Rightarrow> split_chunks s limit end_pos (chunks @ [py_slice s start end_pos]))
      else Some (Inr chunks))"

declare split_chunks.simps [code]

text \<open>\<open>sep.join(chunks)\<close>.\<close>

fun str_join :: "string \<Rightarrow> string list \<Rightarrow> string" where
  "str_join sep [] = []"
| "str_join sep [x] = x"
| "str_join sep (x # y # xs) = x @ sep @ str_join sep (y # xs)"

definition split_string_literal :: "string \<Rightarrow> int \<Rightarrow> (index_error + string) option" where
  "split_string_literal s limit =
     (if int (length s) < limit then Some (Inr s)
      else map_option (map_sum id (str_join [quote_char, quote_char])) (split_chunks s limit 0 []))"

text \<open>\<open>BytesLiteral.as_c_string_literal\<close>.\<close>

definition as_c_string_literal :: "string \<Rightarrow> (index_error + string) option" where
  "as_c_string_literal bytestring =
     map_option (map_sum id (\<lambda>value. [quote_char] @ value @ [quote_char]))
       (split_string_literal (escape_byte_string bytestring) 2000)"

subsection \<open>Literals with an encoding\<close>

text \<open>A codec of the standard library: the bytes of a unicode string, or \<open>None\<close> where it raises
  \<open>UnicodeEncodeError\<close>. UTF-8 refuses the surrogates.\<close>

type_synonym codec = "nat list \<Rightarrow> string option"

definition byte :: "nat \<Rightarrow> char" where "byte n = char_of n"

definition utf8_char :: "nat \<Rightarrow> string option" where
  "utf8_char n =
     (if n < 0x80 then Some [byte n]
      else if n < 0x800 then Some [byte (0xC0 + n div 0x40), byte (0x80 + n mod 0x40)]
      else if 0xD800 \<le> n \<and> n \<le> 0xDFFF then None
      else if n < 0x10000 then
        Some [byte (0xE0 + n div 0x1000), byte (0x80 + n div 0x40 mod 0x40), byte (0x80 + n mod 0x40)]
      else Some [byte (0xF0 + n div 0x40000), byte (0x80 + n div 0x1000 mod 0x40),
        byte (0x80 + n div 0x40 mod 0x40), byte (0x80 + n mod 0x40)])"

fun utf8_encode :: codec where
  "utf8_encode [] = Some []"
| "utf8_encode (c # cs) =
     (case utf8_char c of
        None \<Rightarrow> None
      | Some b \<Rightarrow> (case utf8_encode cs of None \<Rightarrow> None | Some bs \<Rightarrow> Some (b @ bs)))"

text \<open>\<open>ISO-8859-1\<close>.\<close>

definition latin1_encode :: codec where
  "latin1_encode s = (if list_all (\<lambda>c. c < 256) s then Some (map byte s) else None)"

text \<open>\<open>EncodedString\<close> and \<open>BytesLiteral\<close>; \<open>encoding\<close> is the name of a codec, and \<open>codecs\<close> the
  registry that finds it.\<close>

record EncodedString =
  es_chars :: "nat list"
  es_encoding :: "string option"

record BytesLiteral =
  bl_bytes :: string
  bl_encoding :: string

datatype encode_error = UnicodeEncodeError | AssertionFailed | SplitFailed index_error

definition bytes_literal :: "string \<Rightarrow> string \<Rightarrow> BytesLiteral" where
  "bytes_literal s encoding = \<lparr>bl_bytes = s, bl_encoding = encoding\<rparr>"

definition encoded_string :: "nat list \<Rightarrow> string option \<Rightarrow> EncodedString" where
  "encoded_string s encoding = \<lparr>es_chars = s, es_encoding = encoding\<rparr>"

datatype py_text = StrText "nat list" | BytesText string

definition encoded_string_or_bytes_literal :: "py_text \<Rightarrow> string \<Rightarrow> EncodedString + BytesLiteral" where
  "encoded_string_or_bytes_literal s encoding =
     (case s of BytesText b \<Rightarrow> Inr (bytes_literal b encoding)
      | StrText u \<Rightarrow> Inl (encoded_string u (Some encoding)))"

definition byteencode :: "(string \<Rightarrow> codec) \<Rightarrow> EncodedString \<Rightarrow> encode_error + string" where
  "byteencode codecs s =
     (case es_encoding s of
        None \<Rightarrow> Inl AssertionFailed
      | Some e \<Rightarrow> (case codecs e (es_chars s) of None \<Rightarrow> Inl UnicodeEncodeError | Some b \<Rightarrow> Inr b))"

definition utf8encode :: "EncodedString \<Rightarrow> encode_error + string" where
  "utf8encode s =
     (case es_encoding s of
        Some _ \<Rightarrow> Inl AssertionFailed
      | None \<Rightarrow> (case utf8_encode (es_chars s) of None \<Rightarrow> Inl UnicodeEncodeError | Some b \<Rightarrow> Inr b))"

definition is_unicode :: "EncodedString \<Rightarrow> bool" where
  "is_unicode s \<longleftrightarrow> es_encoding s = None"

definition as_utf8_string :: "EncodedString \<Rightarrow> encode_error + BytesLiteral" where
  "as_utf8_string s = map_sum id (\<lambda>b. bytes_literal b ''utf8'') (utf8encode s)"

text \<open>\<open>EncodedString.as_c_string_literal\<close>.\<close>

definition encoded_c_string_literal ::
  "(string \<Rightarrow> codec) \<Rightarrow> EncodedString \<Rightarrow> (encode_error + string) option" where
  "encoded_c_string_literal codecs s =
     (case (case es_encoding s of
              None \<Rightarrow> as_utf8_string s
            | Some e \<Rightarrow> map_sum id (\<lambda>b. bytes_literal b e) (byteencode codecs s)) of
        Inl e \<Rightarrow> Some (Inl e)
      | Inr b \<Rightarrow> map_option (map_sum SplitFailed id) (as_c_string_literal (bl_bytes b)))"

definition string_contains_lone_surrogates :: "nat list \<Rightarrow> bool" where
  "string_contains_lone_surrogates ustring \<longleftrightarrow> list_ex (\<lambda>c. 0xD800 \<le> c \<and> c \<le> 0xDFFF) ustring"

subsection \<open>Assembling a literal\<close>

text \<open>\<open>UnicodeLiteralBuilder\<close> is the list of the strings appended.\<close>

type_synonym unicode_builder = "nat list list"

definition unicode_append :: "nat list \<Rightarrow> unicode_builder \<Rightarrow> unicode_builder" where
  "unicode_append characters b = b @ [characters]"

definition unicode_append_charval :: "nat \<Rightarrow> unicode_builder \<Rightarrow> unicode_builder" where
  "unicode_append_charval char_number b = b @ [[char_number]]"

definition unicode_append_uescape :: "nat \<Rightarrow> nat list \<Rightarrow> unicode_builder \<Rightarrow> unicode_builder" where
  "unicode_append_uescape char_number escape_string = unicode_append_charval char_number"

definition unicode_getstring :: "unicode_builder \<Rightarrow> EncodedString" where
  "unicode_getstring b = encoded_string (concat b) None"

record bytes_builder =
  bb_chars :: "string list"
  bb_target_encoding :: string

definition bytes_append ::
  "(string \<Rightarrow> codec) \<Rightarrow> py_text \<Rightarrow> bytes_builder \<Rightarrow> encode_error + bytes_builder" where
  "bytes_append codecs characters b =
     (case (case characters of
              StrText u \<Rightarrow> codecs (bb_target_encoding b) u | BytesText s \<Rightarrow> Some s) of
        None \<Rightarrow> Inl UnicodeEncodeError
      | Some s \<Rightarrow> Inr (b\<lparr>bb_chars := bb_chars b @ [s]\<rparr>))"

definition bytes_append_charval :: "nat \<Rightarrow> bytes_builder \<Rightarrow> encode_error + bytes_builder" where
  "bytes_append_charval char_number b =
     (case latin1_encode [char_number] of
        None \<Rightarrow> Inl UnicodeEncodeError
      | Some s \<Rightarrow> Inr (b\<lparr>bb_chars := bb_chars b @ [s]\<rparr>))"

definition bytes_append_uescape ::
  "(string \<Rightarrow> codec) \<Rightarrow> nat \<Rightarrow> nat list \<Rightarrow> bytes_builder \<Rightarrow> encode_error + bytes_builder" where
  "bytes_append_uescape codecs char_number escape_string = bytes_append codecs (StrText escape_string)"

definition bytes_getstring :: "bytes_builder \<Rightarrow> BytesLiteral" where
  "bytes_getstring b = bytes_literal (concat (bb_chars b)) (bb_target_encoding b)"

text \<open>\<open>StrLiteralBuilder\<close>.\<close>

record str_builder =
  sb_bytes :: bytes_builder
  sb_unicode :: unicode_builder

definition str_builder_init :: "string \<Rightarrow> str_builder" where
  "str_builder_init target_encoding =
     \<lparr>sb_bytes = \<lparr>bb_chars = [], bb_target_encoding = target_encoding\<rparr>, sb_unicode = []\<rparr>"

definition str_append :: "(string \<Rightarrow> codec) \<Rightarrow> nat list \<Rightarrow> str_builder \<Rightarrow> encode_error + str_builder" where
  "str_append codecs characters b =
     map_sum id
       (\<lambda>bb. b\<lparr>sb_bytes := bb, sb_unicode := unicode_append characters (sb_unicode b)\<rparr>)
       (bytes_append codecs (StrText characters) (sb_bytes b))"

definition str_append_charval :: "nat \<Rightarrow> str_builder \<Rightarrow> encode_error + str_builder" where
  "str_append_charval char_number b =
     map_sum id
       (\<lambda>bb. b\<lparr>sb_bytes := bb, sb_unicode := unicode_append_charval char_number (sb_unicode b)\<rparr>)
       (bytes_append_charval char_number (sb_bytes b))"

definition str_append_uescape ::
  "(string \<Rightarrow> codec) \<Rightarrow> nat \<Rightarrow> nat list \<Rightarrow> str_builder \<Rightarrow> encode_error + str_builder" where
  "str_append_uescape codecs char_number escape_string b =
     map_sum id
       (\<lambda>bb. b\<lparr>sb_bytes := bb, sb_unicode := unicode_append_charval char_number (sb_unicode b)\<rparr>)
       (bytes_append codecs (StrText escape_string) (sb_bytes b))"

definition str_getstrings :: "str_builder \<Rightarrow> BytesLiteral \<times> EncodedString" where
  "str_getstrings b = (bytes_getstring (sb_bytes b), unicode_getstring (sb_unicode b))"

subsection \<open>Py_UNICODE arrays\<close>

text \<open>The loop of \<open>encode_pyunicode_string\<close>; the first component is \<open>utf16\<close>, \<open>None\<close> until a character
  needs two units.\<close>

definition pyunicode_step :: "string list option \<times> string list \<Rightarrow> nat \<Rightarrow> string list option \<times> string list" where
  "pyunicode_step st charval =
     (case st of (utf16, utf32) \<Rightarrow>
        let ch = py_str_nat charval;
            utf16 =
              (if charval \<ge> 0x10000 then
                 Some ((case utf16 of None \<Rightarrow> utf32 | Some u \<Rightarrow> u)
                   @ [py_str_nat ((charval - 0x10000) div 1024 + 0xD800),
                      py_str_nat ((charval - 0x10000) mod 1024 + 0xDC00)])
               else map_option (\<lambda>u. u @ [ch]) utf16)
        in (utf16, utf32 @ [ch]))"

definition encode_pyunicode_string :: "nat list \<Rightarrow> string option \<times> string" where
  "encode_pyunicode_string s =
     (case foldl pyunicode_step (None, []) s of (utf16, utf32) \<Rightarrow>
        (map_option (\<lambda>u. str_join '','' (u @ [''0''])) utf16, str_join '','' (utf32 @ [''0''])))"

end
