(* ===== verification/StringLiteralsCorrect.thy ===== *)
theory StringLiteralsCorrect
  imports StringLiterals
begin

text \<open>
  What the C compiler reads from an emitted literal: a reader of adjacent string literals with
  their escapes, and the proof that it gives the bytes back. The escaped text is a sequence of
  units, one for each byte, and the splitter cuts between units.
\<close>

subsection \<open>Reading C string literals\<close>

definition octal_digit :: "char \<Rightarrow> bool" where
  "octal_digit c \<longleftrightarrow> 48 \<le> (of_char c :: nat) \<and> (of_char c :: nat) \<le> 55"

text \<open>The characters of adjacent literals; the first argument tells whether the reader is inside
  one. An octal escape takes up to three digits, a line cannot end inside a literal.\<close>

fun octal_escape :: "nat \<Rightarrow> nat \<Rightarrow> string \<Rightarrow> nat \<times> string" where
  "octal_escape 0 v cs = (v, cs)"
| "octal_escape (Suc n) v [] = (v, [])"
| "octal_escape (Suc n) v (c # cs) =
     (if octal_digit c then octal_escape n (8 * v + digit_value c) cs else (v, c # cs))"

lemma octal_escape_length: "octal_escape n v cs = (v', rest) \<Longrightarrow> length rest \<le> length cs"
  by (induction n v cs rule: octal_escape.induct) (auto split: if_splits)

definition simple_escapes :: "(char, char) pydict" where
  "simple_escapes =
     [(CHR ''n'', CHR 0x0A), (CHR ''r'', CHR 0x0D), (CHR ''t'', CHR 0x09), (backslash, backslash),
      (quote_char, quote_char), (CHR 0x27, CHR 0x27), (CHR ''?'', CHR ''?''), (CHR ''a'', CHR 0x07),
      (CHR ''b'', CHR 0x08), (CHR ''f'', CHR 0x0C), (CHR ''v'', CHR 0x0B)]"

function read_literals :: "bool \<Rightarrow> string \<Rightarrow> string option" where
  "read_literals False [] = Some []"
| "read_literals False (c # cs) =
     (if c = quote_char then read_literals True cs
      else if c \<in> {CHR 0x20, CHR 0x09, CHR 0x0A} then read_literals False cs else None)"
| "read_literals True [] = None"
| "read_literals True (c # cs) =
     (if c = quote_char then read_literals False cs
      else if c = CHR 0x0A then None
      else if c = backslash then
        (case cs of
           [] \<Rightarrow> None
         | d # ds \<Rightarrow>
             if octal_digit d then
               (case octal_escape 3 0 cs of (v, rest) \<Rightarrow>
                  if v < 256 \<and> length rest \<le> length cs
                  then map_option (Cons (char_of v)) (read_literals True rest) else None)
             else (case dict_get simple_escapes d of
                     None \<Rightarrow> None | Some e \<Rightarrow> map_option (Cons e) (read_literals True ds)))
      else map_option (Cons c) (read_literals True cs))"
  by pat_completeness auto

termination read_literals
  by (relation "measure (\<lambda>(b, s). length s)") auto

text \<open>No trigraph.\<close>

fun no_trigraph :: "string \<Rightarrow> bool" where
  "no_trigraph (c # d # s) \<longleftrightarrow> \<not> (c = CHR ''?'' \<and> d = CHR ''?'') \<and> no_trigraph (d # s)"
| "no_trigraph _ \<longleftrightarrow> True"

subsection \<open>Units\<close>

inductive unit :: "string \<Rightarrow> char \<Rightarrow> bool" where
  plain: "c \<noteq> backslash \<Longrightarrow> c \<noteq> quote_char \<Longrightarrow> 32 \<le> (of_char c :: nat) \<Longrightarrow> unit [c] c"
| simple: "dict_get simple_escapes e = Some c \<Longrightarrow> unit [backslash, e] c"
| octal: "unit (backslash # octal3 (of_char c)) c"

inductive_cases unit_cases: "unit u c"

lemma octal_digit_char: "n < 8 \<Longrightarrow> octal_digit (digit_char n)"
  by (simp add: octal_digit_def digit_char.simps)

lemma of_char_less: "of_char (c :: char) < (256 :: nat)"
  using nat_of_char_less_256 [of c] .

lemma octal_escape_digits:
  "a < 8 \<Longrightarrow> b < 8 \<Longrightarrow> c < 8 \<Longrightarrow>
     octal_escape (Suc (Suc (Suc 0))) 0 ([digit_char a, digit_char b, digit_char c] @ s)
     = (64 * a + 8 * b + c, s)"
  by (simp add: octal_digit_char digit_value_char)

lemma octal_digits_value: "64 * (n div 64) + 8 * (n div 8 mod 8) + n mod 8 = (n :: nat)"
proof -
  have "n div 8 = 8 * (n div 64) + n div 8 mod 8"
    using mult_div_mod_eq [of 8 "n div 8"] by (simp add: div_mult2_eq [symmetric])
  then show ?thesis using mult_div_mod_eq [of 8 n] by linarith
qed

lemma octal_first: "of_char (c :: char) div 64 < (8 :: nat)"
  using of_char_less [of c] by (intro less_mult_imp_div_less) linarith

lemma octal_escape_octal3: "octal_escape 3 0 (octal3 (of_char c) @ s) = (of_char c, s)"
  using octal_escape_digits [OF octal_first, of "of_char c div 8 mod 8" "of_char c mod 8" c s]
  unfolding numeral_3_eq_3 octal3_def octal_digits_value by simp

lemma simple_not_octal: "dict_get simple_escapes e = Some c \<Longrightarrow> \<not> octal_digit e"
  by (auto simp: simple_escapes_def octal_digit_def split: if_splits)

lemma read_unit:
  assumes "unit u c"
  shows "read_literals True (u @ s) = map_option (Cons c) (read_literals True s)"
  using assms
proof cases
  case octal
  have "octal_digit (hd (octal3 (of_char c)))"
    using octal_digit_char [OF octal_first [of c]] by (simp add: octal3_def)
  moreover have "octal3 (of_char c) \<noteq> []" by (simp add: octal3_def)
  ultimately show ?thesis
    using octal octal_escape_octal3 [of c s] of_char_less [of c]
    by (cases "octal3 (of_char c)") auto
qed (auto simp: simple_not_octal)

lemma read_units: "list_all2 unit us bs \<Longrightarrow>
    read_literals True (concat us @ s) = map_option (append bs) (read_literals True s)"
proof (induction rule: list_all2_induct)
  case Nil
  then show ?case by (simp add: option.map_ident)
next
  case (Cons u us b bs)
  then show ?case by (simp add: read_unit option.map_comp comp_def)
qed

subsection \<open>Escaping makes units\<close>

lemma find_append:
  "find P (xs @ ys) = (case find P xs of None \<Rightarrow> find P ys | Some x \<Rightarrow> Some x)"
  by (induction xs) auto

lemma find_control:
  "find (\<lambda>special. prefix special (c # cs)) (map (\<lambda>n. [char_of (n :: nat)]) [0..<32])
   = (if (of_char c :: nat) < 32 then Some [c] else None)"
proof (cases "find (\<lambda>special. prefix special (c # cs)) (map (\<lambda>n. [char_of (n :: nat)]) [0..<32])")
  case None
  then have "\<forall>n \<in> {0..<32::nat}. \<not> prefix [char_of n] (c # cs)" by (auto simp: find_None_iff)
  then have "\<not> (of_char c :: nat) < 32" by (metis Cons_prefix_Cons Nil_prefix atLeastLessThan_iff char_of_char le0)
  with None show ?thesis by simp
next
  case (Some sp)
  then obtain n :: nat where "sp = [char_of n]" "n < 32" "char_of n = c" by (auto dest!: find_Some_mem)
  then show ?thesis using Some by (auto simp: of_char_of)
qed

lemma match_special_Cons:
  "match_special (c # cs) =
     (if c = backslash then Some [c]
      else if c = CHR ''?'' \<and> (\<exists>ds. cs = CHR ''?'' # ds) then Some ''??''
      else if c = quote_char \<or> c = CHR 0x27 \<or> (of_char c :: nat) < 32 then Some [c] else None)"
  unfolding match_special_def c_special_def find_append find_control by (cases cs) auto

lemma replacement: "sp \<in> set c_special \<Longrightarrow> dict_get replacements sp = Some (to_escape_sequence sp)"
  by (simp add: replacements_def map_of_map_restrict)

lemma special_mem: "match_special s = Some sp \<Longrightarrow> sp \<in> set c_special"
  by (auto simp: match_special_def dest!: find_Some_mem)

lemma unit_escape: "unit (to_escape_sequence [c]) c"
proof -
  have "dict_get simple_escapes backslash = Some backslash"
    "dict_get simple_escapes quote_char = Some quote_char"
    "dict_get simple_escapes (CHR ''n'') = Some (CHR 0x0A)"
    "dict_get simple_escapes (CHR ''r'') = Some (CHR 0x0D)"
    "dict_get simple_escapes (CHR ''t'') = Some (CHR 0x09)"
    by (simp_all add: simple_escapes_def)
  then show ?thesis
    by (auto simp: to_escape_sequence_def repr_inner_def sublist_Cons_right intro: unit.intros)
qed

lemma digit_chars: "digit_char 0 = CHR ''0''" "digit_char 7 = CHR ''7''"
  by code_simp+

lemma escape_trigraph: "to_escape_sequence ''??'' = [backslash, CHR ''0'', CHR ''7'', CHR ''7'', backslash, CHR ''0'', CHR ''7'', CHR ''7'']"
  by (simp add: to_escape_sequence_def sublist_Cons_right octal3_def digit_chars)

lemma replace_specials_units: "\<exists>us. replace_specials s = concat us \<and> list_all2 unit us s"
proof (induction s rule: replace_specials.induct)
  case 1
  then show ?case by (intro exI [of _ "[]"]) simp
next
  case (2 c cs)
  consider (none) "match_special (c # cs) = None" "c \<noteq> backslash" "c \<noteq> quote_char" "32 \<le> (of_char c :: nat)"
    | (one) "match_special (c # cs) = Some [c]"
    | (two) ds where "match_special (c # cs) = Some ''??''" "c = CHR ''?''" "cs = CHR ''?'' # ds"
    by (cases "match_special (c # cs)") (auto simp: match_special_Cons split: if_splits)
  then show ?case
  proof cases
    case none
    then obtain us where "replace_specials cs = concat us" "list_all2 unit us cs" using "2.IH"(1) by auto
    then show ?thesis using none by (intro exI [of _ "[c] # us"]) (simp add: unit.plain)
  next
    case one
    then obtain us where "replace_specials cs = concat us" "list_all2 unit us cs" using "2.IH"(2) [OF one] by auto
    then show ?thesis using one replacement [OF special_mem [OF one]] unit_escape [of c]
      by (intro exI [of _ "to_escape_sequence [c] # us"]) simp
  next
    case two
    then obtain us where "replace_specials ds = concat us" "list_all2 unit us ds" using "2.IH"(2) [OF two(1)] by auto
    moreover have "unit [backslash, CHR ''0'', CHR ''7'', CHR ''7''] (CHR ''?'')"
      using unit.octal [of "CHR ''?''"] by (simp add: octal3_def digit_chars)
    ultimately show ?thesis using two replacement [OF special_mem [OF two(1)]]
      by (intro exI [of _ "[backslash, CHR ''0'', CHR ''7'', CHR ''7'']
          # [backslash, CHR ''0'', CHR ''7'', CHR ''7''] # us"]) (simp add: escape_trigraph)
  qed
qed

text \<open>The second pass.\<close>

definition escape_high :: "char \<Rightarrow> string" where
  "escape_high b = (if of_char b \<ge> (127 :: nat) then backslash # octal3 (of_char b) else [b])"

lemma escape_high_digit: "n < 8 \<Longrightarrow> escape_high (digit_char n) = [digit_char n]"
  by (simp add: escape_high_def digit_char.simps)

lemma escape_high_octal3: "concat (map escape_high (octal3 (of_char c))) = octal3 (of_char c)"
  using octal_first [of c] by (simp add: octal3_def escape_high_digit)

lemma unit_escape_high: "unit u c \<Longrightarrow> unit (concat (map escape_high u)) c"
proof (induction rule: unit.induct)
  case (plain c)
  then show ?case by (cases "of_char c \<ge> (127 :: nat)") (auto simp: escape_high_def intro: unit.intros)
next
  case (simple e c)
  then have "escape_high e = [e]" by (auto simp: simple_escapes_def escape_high_def split: if_splits)
  then show ?case using unit.simple [OF simple] by (simp add: escape_high_def)
next
  case (octal c)
  have "escape_high backslash = [backslash]" by (simp add: escape_high_def)
  then show ?case using escape_high_octal3 [of c] unit.octal [of c] by simp
qed

lemma escape_units: "\<exists>us. escape_byte_string s = concat us \<and> list_all2 unit us s"
proof -
  obtain us where us: "replace_specials s = concat us" "list_all2 unit us s"
    using replace_specials_units by blast
  show ?thesis
  proof (cases "list_all (\<lambda>b. of_char b < (128 :: nat)) (replace_specials s)")
    case True
    then show ?thesis using us by (auto simp: escape_byte_string_def)
  next
    case False
    have "concat (map escape_high (concat us)) = concat (map (\<lambda>u. concat (map escape_high u)) us)"
      by (induction us) auto
    moreover have "list_all2 unit (map (\<lambda>u. concat (map escape_high u)) us) s"
      using us(2) by (auto simp: list_all2_conv_all_nth unit_escape_high)
    ultimately show ?thesis
      using False us(1) by (auto simp: escape_byte_string_def Let_def simp flip: escape_high_def)
  qed
qed

subsection \<open>No trigraphs, printable characters\<close>

lemma replace_first: "replace_specials s = CHR ''?'' # t \<Longrightarrow> \<exists>s'. s = CHR ''?'' # s'"
proof (cases s)
  case (Cons c cs)
  assume r: "replace_specials s = CHR ''?'' # t"
  have e: "\<exists>x xs. to_escape_sequence sp = x # xs \<and> x \<noteq> CHR ''?''" if "sp = ''??'' \<or> sp = [c]" for sp
    using that unfolding escape_trigraph [symmetric]
    by (auto simp: to_escape_sequence_def repr_inner_def sublist_Cons_right escape_trigraph split: if_splits)
  show ?thesis
  proof (cases "match_special s")
    case (Some sp)
    then have "sp = ''??'' \<or> sp = [c]" using Cons by (auto simp: match_special_Cons split: if_splits)
    then show ?thesis using e [of sp] r Some Cons replacement [OF special_mem [OF Some]] by auto
  qed (use r Cons in simp)
qed simp

lemma no_trigraph_append:
  "no_trigraph (x @ y) \<longleftrightarrow>
     no_trigraph x \<and> no_trigraph y \<and> \<not> (x \<noteq> [] \<and> last x = CHR ''?'' \<and> (\<exists>z. y = CHR ''?'' # z))"
  by (induction x rule: no_trigraph.induct; cases y) auto

lemma escape_last: "match_special (c # cs) = Some sp \<Longrightarrow>
    no_trigraph (to_escape_sequence sp) \<and> last (to_escape_sequence sp) \<noteq> CHR ''?''"
proof -
  assume sp: "match_special (c # cs) = Some sp"
  have "digit_char (n mod 8) \<noteq> CHR ''?''" for n
    using octal_digit_char [of "n mod 8"] by (auto simp: octal_digit_def)
  moreover have "digit_char (of_char c div 64) \<noteq> CHR ''?''"
    using octal_digit_char [OF octal_first [of c]] by (auto simp: octal_digit_def)
  moreover have "sp = ''??'' \<or> sp = [c] \<and> c \<noteq> CHR ''?''" using sp by (auto simp: match_special_Cons split: if_splits)
  ultimately show ?thesis
    unfolding escape_trigraph [symmetric]
    by (auto simp: to_escape_sequence_def repr_inner_def octal3_def sublist_Cons_right digit_chars split: if_splits)
qed

lemma replace_no_trigraph: "no_trigraph (replace_specials s)"
proof (induction s rule: replace_specials.induct)
  case (2 c cs)
  show ?case
  proof (cases "match_special (c # cs)")
    case None
    then have "\<not> (c = CHR ''?'' \<and> (\<exists>t. replace_specials cs = CHR ''?'' # t))"
      using replace_first [of cs] by (auto simp: match_special_Cons split: if_splits)
    then show ?thesis using "2.IH"(1) [OF None] None no_trigraph_append [of "[c]" "replace_specials cs"] by auto
  next
    case (Some sp)
    then show ?thesis
      using "2.IH"(2) [OF Some] escape_last [OF Some] replacement [OF special_mem [OF Some]]
      by (auto simp: no_trigraph_append)
  qed
qed simp

lemma escape_high_trigraph: "no_trigraph s \<Longrightarrow> no_trigraph (concat (map escape_high s))"
proof (induction s)
  case (Cons c s)
  have oct: "digit_char (of_char c mod 8) \<noteq> CHR ''?''" "digit_char (of_char c div 8 mod 8) \<noteq> CHR ''?''"
    "digit_char (of_char c div 64) \<noteq> CHR ''?''"
    using octal_digit_char [of "of_char c mod 8"] octal_digit_char [of "of_char c div 8 mod 8"]
      octal_digit_char [OF octal_first [of c]] by (auto simp: octal_digit_def)
  have first: "s' = [] \<and> t = [] \<or> (\<exists>z. s' = CHR ''?'' # z) = (\<exists>z. t = CHR ''?'' # z)"
    if "s' = concat (map escape_high t)" for s' t
    using that by (cases t) (auto simp: escape_high_def)
  have "no_trigraph s" "\<not> (c = CHR ''?'' \<and> (\<exists>z. s = CHR ''?'' # z))"
    using Cons.prems no_trigraph_append [of "[c]" s] by auto
  with Cons.IH first [OF refl, of s] oct show ?case
    by (auto simp: no_trigraph_append escape_high_def [of c] octal3_def)
qed simp

lemma escape_no_trigraph: "no_trigraph (escape_byte_string s)"
  using replace_no_trigraph [of s] escape_high_trigraph [OF replace_no_trigraph [of s]]
  by (auto simp: escape_byte_string_def Let_def simp flip: escape_high_def)

lemma list_all2_member: "list_all2 P xs ys \<Longrightarrow> x \<in> set xs \<Longrightarrow> \<exists>y. P x y"
  by (induction rule: list_all2_induct) auto

subsection \<open>The splitter cuts between units\<close>

lemma unit_length: "unit u c \<Longrightarrow> 0 < length u \<and> length u \<le> 4"
  by (induction rule: unit.induct) (auto simp: octal3_def)

lemma unit_backslash: "unit u c \<Longrightarrow> 1 < length u \<Longrightarrow> u ! 0 = backslash"
  by (induction rule: unit.induct) auto

lemma unit_inner:
  assumes "unit u c" and "0 < k" and "k < length u" and "u ! k = backslash"
  shows "u = [backslash, backslash]"
  using assms
proof (induction rule: unit.induct)
  case (octal c)
  have "digit_char (of_char c mod 8) \<noteq> backslash" "digit_char (of_char c div 8 mod 8) \<noteq> backslash"
    "digit_char (of_char c div 64) \<noteq> backslash"
    using octal_digit_char [of "of_char c mod 8"] octal_digit_char [of "of_char c div 8 mod 8"]
      octal_digit_char [OF octal_first [of c]] by (auto simp: octal_digit_def)
  with octal show ?case by (auto simp: octal3_def nth_Cons split: nat.splits)
qed (auto simp: nth_Cons split: nat.splits)

definition units :: "string list \<Rightarrow> bool" where
  "units us \<longleftrightarrow> (\<forall>u \<in> set us. \<exists>c. unit u c)"

definition boundary :: "string list \<Rightarrow> nat \<Rightarrow> bool" where
  "boundary us k \<longleftrightarrow> (\<exists>us1 us2. us = us1 @ us2 \<and> length (concat us1) = k)"

lemma boundary_0: "boundary us 0"
  by (auto simp: boundary_def intro: exI [of _ "[]"])

lemma boundary_Cons: "length u \<le> k \<Longrightarrow> boundary us (k - length u) \<Longrightarrow> boundary (u # us) k"
  unfolding boundary_def by (metis add_diff_inverse_nat append_Cons concat.simps(2) length_append not_le)

lemma boundary_plain:
  "units us \<Longrightarrow> k \<le> length (concat us) \<Longrightarrow> (\<And>j. j < k \<Longrightarrow> k \<le> j + 3 \<Longrightarrow> concat us ! j \<noteq> backslash)
   \<Longrightarrow> boundary us k"
proof (induction us arbitrary: k)
  case (Cons u us)
  obtain c where u: "unit u c" using Cons.prems(1) by (auto simp: units_def)
  show ?case
  proof (cases "length u \<le> k")
    case True
    have "boundary us (k - length u)"
    proof (rule Cons.IH)
      fix j assume "j < k - length u" "k - length u \<le> j + 3"
      then show "concat us ! j \<noteq> backslash" using Cons.prems(3) [of "j + length u"] by (simp add: nth_append)
    qed (use Cons.prems in \<open>auto simp: units_def\<close>)
    with True show ?thesis by (rule boundary_Cons)
  next
    case False
    show ?thesis
    proof (cases k)
      case (Suc m)
      then have "u ! 0 = backslash" "k \<le> 3" using unit_backslash [OF u] unit_length [OF u] False by auto
      then have "concat (u # us) ! 0 = backslash" using unit_length [OF u] by (simp add: nth_append)
      then show ?thesis using Cons.prems(3) [of 0] Suc \<open>k \<le> 3\<close> by simp
    qed (simp add: boundary_0)
  qed
qed (simp add: boundary_0)

lemma boundary_run_start:
  "units us \<Longrightarrow> k < length (concat us) \<Longrightarrow> concat us ! k = backslash
   \<Longrightarrow> 0 < k \<Longrightarrow> concat us ! (k - 1) \<noteq> backslash \<Longrightarrow> boundary us k"
proof (induction us arbitrary: k)
  case (Cons u us)
  obtain c where u: "unit u c" using Cons.prems(1) by (auto simp: units_def)
  show ?case
  proof (cases "length u \<le> k")
    case True
    have "boundary us (k - length u)"
    proof (cases "k = length u")
      case False
      then show ?thesis
        using Cons.prems True by (intro Cons.IH) (auto simp: units_def nth_append diff_diff_left split: if_splits)
    qed (simp add: boundary_0)
    with True show ?thesis by (rule boundary_Cons)
  next
    case False
    then have k: "u ! k = backslash" "u ! (k - 1) \<noteq> backslash"
      using Cons.prems by (auto simp: nth_append split: if_splits)
    then have "u = [backslash, backslash]" using unit_inner [OF u] Cons.prems(4) False by simp
    with k(2) False Cons.prems(4) show ?thesis by (auto simp: nth_Cons split: nat.splits)
  qed
qed simp

lemma boundary_run_even:
  "units us \<Longrightarrow> 2 * m \<le> length (concat us) \<Longrightarrow> (\<And>j. j < 2 * m \<Longrightarrow> concat us ! j = backslash)
   \<Longrightarrow> boundary us (2 * m)"
proof (induction m arbitrary: us)
  case (Suc m)
  then obtain u us' where us: "us = u # us'" by (cases us) auto
  obtain c where u: "unit u c" using Suc.prems(1) us by (auto simp: units_def)
  have "u ! 0 = backslash" using Suc.prems(3) [of 0] unit_length [OF u] us by (simp add: nth_append)
  moreover have "length u \<noteq> 1"
    using u \<open>u ! 0 = backslash\<close> by (auto elim!: unit.cases simp: octal3_def)
  ultimately have len: "1 < length u" using unit_length [OF u] by linarith
  then have "u ! 1 = backslash" using Suc.prems(3) [of 1] us by (simp add: nth_append)
  then have two: "u = [backslash, backslash]" using unit_inner [OF u, of 1] len by simp
  have "boundary us' (2 * m)"
  proof (rule Suc.IH)
    fix j assume "j < 2 * m"
    then show "concat us' ! j = backslash" using Suc.prems(3) [of "j + 2"] us two by (simp add: nth_append)
  qed (use Suc.prems us two in \<open>auto simp: units_def\<close>)
  then show ?case using boundary_Cons [of u "2 * Suc m" us'] us two by simp
qed (simp add: boundary_0)

declare back_over.simps [simp del]

lemma back_over_spec:
  "st < n \<Longrightarrow> n \<le> length s \<Longrightarrow>
     (\<exists>e. st < e \<and> e \<le> n \<and> back_over s (int st) limit (int n) = Inr (int e) \<and> s ! (e - 1) \<noteq> backslash
        \<and> (\<forall>j. e \<le> j \<and> j < n \<longrightarrow> s ! j = backslash))
     \<or> back_over s (int st) limit (int n) = Inr (int st + limit - limit mod 2 - 4)
        \<and> (\<forall>j. st \<le> j \<and> j < n \<longrightarrow> s ! j = backslash)"
proof (induction n)
  case (Suc m)
  have b: "back_over s (int st) limit (int (Suc m)) =
      (if s ! m \<noteq> backslash then Inr (int (Suc m))
       else if m = st then Inr (int st + limit - limit mod 2 - 4)
       else back_over s (int st) limit (int m))"
    using Suc.prems by (simp add: back_over.simps [of s "int st" limit "1 + int m"] py_index_def)
  consider (stop) "s ! m \<noteq> backslash" | (run) "s ! m = backslash" "m = st"
    | (go) "s ! m = backslash" "st < m" using Suc.prems by fastforce
  then show ?case
  proof cases
    case stop
    then show ?thesis unfolding b using Suc.prems by (intro disjI1 exI [of _ "Suc m"]) auto
  next
    case run
    then show ?thesis unfolding b by (auto simp: less_Suc_eq)
  next
    case go
    then have r: "back_over s (int st) limit (int (Suc m)) = back_over s (int st) limit (int m)"
      using b by simp
    from Suc.IH [OF go(2)] Suc.prems(2) go(1) show ?thesis
      unfolding r by (auto simp: less_Suc_eq)
  qed
qed simp

lemma py_slice_nat: "0 \<le> i \<Longrightarrow> 0 \<le> j \<Longrightarrow> py_slice s i j = take (nat j - nat i) (drop (nat i) s)"
proof -
  assume "0 \<le> i" "0 \<le> j"
  then obtain m n where "i = int m" "j = int n" by (metis nonneg_int_cases)
  moreover have "nat (int n - int m) = n - m" for m n by linarith
  ultimately show ?thesis by (auto simp: py_slice_def slice_bound_def min_def)
qed

lemma str_find_spec:
  assumes "c \<in> set xs"
  obtains k where "str_find xs c = int k" "k < length xs" "xs ! k = c"
proof -
  let ?k = "length (takeWhile (\<lambda>x. x \<noteq> c) xs)"
  have "takeWhile (\<lambda>x. x \<noteq> c) xs \<noteq> xs" using assms by (metis set_takeWhileD)
  then have "?k < length xs" by (metis length_takeWhile_le nat_less_le take_all takeWhile_eq_take)
  moreover from this have "xs ! ?k = c" using nth_length_takeWhile by blast
  ultimately show thesis using that [of ?k] assms by (simp add: str_find_def)
qed

lemma boundary_all: "boundary us (length (concat us))"
  by (auto simp: boundary_def intro: exI [of _ us])

lemma chunk_end_spec:
  assumes us: "units us" "concat us = drop st s" and limit: "6 \<le> limit" and st: "st < length s"
  obtains e where "chunk_end s (int st) (int limit) = Inr (int e)" "st < e" "e \<le> st + limit"
    "boundary us (min (e - st) (length s - st))"
proof -
  let ?t = "concat us"
  have len: "length ?t = length s - st" by (simp add: us(2))
  have nth: "?t ! j = s ! (st + j)" if "st + j < length s" for j using that by (simp add: us(2))
  let ?w = "take 4 (drop (st + limit - 4) s)"
  have slice: "py_slice s (int st + int limit - 4) (int st + int limit) = ?w"
    using limit py_slice_nat [of "int st + int limit - 4" "int st + int limit" s]
    by (simp add: nat_diff_distrib nat_add_distrib)
  show thesis
  proof (cases "st + limit - 4 < length s \<and> backslash \<in> set ?w")
    case True
    then obtain i where i: "str_find ?w backslash = int i" "i < length ?w" "?w ! i = backslash"
      using str_find_spec [of backslash ?w] by blast
    define n where "n = st + limit - 4 + i"
    have n: "st < n" "n < length s" "s ! n = backslash" "n < st + limit"
      using i limit True by (auto simp: n_def)
    have c: "chunk_end s (int st) (int limit) = back_over s (int st) (int limit) (int n)"
    proof -
      have "int (length s) > int st + int limit - 4" using True limit by linarith
      moreover have "int st + int limit - (4 - int i) = int n" using limit by (simp add: n_def of_nat_diff)
      ultimately show ?thesis using True i(1) by (simp add: chunk_end_def slice Let_def)
    qed
    from back_over_spec [OF n(1) less_imp_le [OF n(2)], of "int limit"] show thesis
    proof (elim disjE exE conjE)
      fix e assume e: "st < e" "e \<le> n" "back_over s (int st) (int limit) (int n) = Inr (int e)"
        "s ! (e - 1) \<noteq> backslash" "\<forall>j. e \<le> j \<and> j < n \<longrightarrow> s ! j = backslash"
      have "s ! e = backslash" using e(2,5) n(3) by (cases "e = n") auto
      then have "boundary us (e - st)"
        using e(1,2,4) n len nth [of "e - st"] nth [of "e - st - 1"]
        by (intro boundary_run_start [OF us(1)]) auto
      moreover have "min (e - st) (length s - st) = e - st" using e(2) n(2) by simp
      ultimately show thesis using that [of e] c e(1,2,3) n by simp
    next
      assume e: "back_over s (int st) (int limit) (int n) = Inr (int st + int limit - int limit mod 2 - 4)"
        "\<forall>j. st \<le> j \<and> j < n \<longrightarrow> s ! j = backslash"
      define m where "m = (limit - 4) div 2"
      have m: "int st + int limit - int limit mod 2 - 4 = int (st + 2 * m)" "0 < m" "2 * m \<le> limit - 4"
        using limit by (auto simp: m_def) presburger+
      have "boundary us (2 * m)"
      proof (rule boundary_run_even [OF us(1)])
        show "2 * m \<le> length ?t" using m(3) n len by (simp add: n_def)
        fix j assume "j < 2 * m"
        then show "?t ! j = backslash" using e(2) nth [of j] m(3) n by (simp add: n_def)
      qed
      moreover have "2 * m \<le> length s - st" using m(3) n by (simp add: n_def)
      ultimately show thesis using that [of "st + 2 * m"] c e(1) m by (simp add: min_def)
    qed
  next
    case False
    then have c: "chunk_end s (int st) (int limit) = Inr (int (st + limit))"
      using limit by (auto simp: chunk_end_def slice Let_def)
    have "boundary us (min limit (length s - st))"
    proof (cases "limit \<le> length s - st")
      case True
      have "boundary us limit"
      proof (rule boundary_plain [OF us(1)])
        fix j assume j: "j < limit" "limit \<le> j + 3"
        then have "?w ! (j + 4 - limit) = s ! (st + j)" "j + 4 - limit < length ?w"
          using True limit st by (auto simp: add.commute add.left_commute)
        moreover have "backslash \<notin> set ?w" using False True limit st by auto
        ultimately have "s ! (st + j) \<noteq> backslash" using nth_mem [of "j + 4 - limit" ?w] by auto
        then show "?t ! j \<noteq> backslash" using nth [of j] j True st by simp
      qed (use True len in simp)
      with True show ?thesis by (simp add: min_def)
    next
      case False
      then show ?thesis using boundary_all [of us] len by (simp add: min_def)
    qed
    then show thesis using that [of "st + limit"] c limit by simp
  qed
qed

lemma units_bytes: "units us \<Longrightarrow> \<exists>bs. list_all2 unit us bs"
proof (induction us)
  case (Cons u us)
  then obtain c bs where "unit u c" "list_all2 unit us bs" by (auto simp: units_def)
  then show ?case by (intro exI [of _ "c # bs"]) simp
qed auto

lemma units_append: "units (us1 @ us2) \<longleftrightarrow> units us1 \<and> units us2"
  by (auto simp: units_def)

lemma take_min_length: "take (min n (length xs)) xs = take n xs"
  by (simp add: min_def)

lemma drop_min_length: "drop (min n (length xs)) xs = drop n xs"
  by (simp add: min_def)

lemma split_chunks_spec:
  assumes limit: "6 \<le> limit"
  shows "units us \<Longrightarrow> concat us = drop st s \<Longrightarrow>
    \<exists>uss. split_chunks s (int limit) (int st) acc = Some (Inr (acc @ map concat uss)) \<and> concat uss = us
      \<and> (\<forall>us' \<in> set uss. length (concat us') \<le> limit)"
proof (induction "length s - st" arbitrary: st us acc rule: less_induct)
  case less
  show ?case
  proof (cases "st < length s")
    case True
    obtain e where e: "chunk_end s (int st) (int limit) = Inr (int e)" "st < e" "e \<le> st + limit"
      "boundary us (min (e - st) (length s - st))"
      using chunk_end_spec [OF less.prems limit True] .
    obtain us1 us2 where us: "us = us1 @ us2" "length (concat us1) = min (e - st) (length s - st)"
      using e(4) by (auto simp: boundary_def)
    have "concat us1 @ concat us2 = drop st s" using less.prems(2) us(1) by simp
    then have parts: "concat us1 = take (length (concat us1)) (drop st s)"
      "concat us2 = drop (length (concat us1)) (drop st s)" by (simp_all add: append_eq_conv_conj)
    have one: "concat us1 = take (e - st) (drop st s)"
      using parts(1) unfolding us(2) length_drop [symmetric] take_min_length .
    have two: "concat us2 = drop e s"
      using parts(2) e(2) unfolding us(2) length_drop [symmetric] drop_min_length by simp
    have slice: "py_slice s (int st) (int e) = concat us1" using e(2) by (simp add: py_slice_nat one)
    obtain uss where uss: "split_chunks s (int limit) (int e) (acc @ [concat us1])
        = Some (Inr ((acc @ [concat us1]) @ map concat uss))" "concat uss = us2"
      "\<forall>us' \<in> set uss. length (concat us') \<le> limit"
      using less.hyps [of e us2 "acc @ [concat us1]"] less.prems(1) two us(1) e(2) True
      by (auto simp: units_append diff_less_mono2)
    show ?thesis
      using uss e True slice us by (intro exI [of _ "us1 # uss"]) (simp add: split_chunks.simps [of s _ "int st"])
  next
    case False
    then have "us = []"
      using less.prems unit_length by (cases us) (fastforce simp: units_def)+
    then show ?thesis using False by (intro exI [of _ "[]"]) (simp add: split_chunks.simps)
  qed
qed

subsection \<open>Adjacent literals\<close>

abbreviation literal_gap :: string where "literal_gap \<equiv> [quote_char, quote_char]"

lemma str_join_Cons: "xs \<noteq> [] \<Longrightarrow> str_join sep (x # xs) = x @ sep @ str_join sep xs"
  by (cases xs) auto

lemma read_join:
  "list_all2 unit (concat uss) bs \<Longrightarrow> read_literals True (str_join literal_gap (map concat uss) @ [quote_char]) = Some bs"
proof (induction uss arbitrary: bs)
  case (Cons us uss)
  then obtain b1 b2 where b: "bs = b1 @ b2" "list_all2 unit us b1" "list_all2 unit (concat uss) b2"
    by (auto simp: list_all2_append1)
  note read = read_units [OF b(2)] and rest = Cons.IH [OF b(3)]
  show ?case
  proof (cases uss)
    case Nil
    then show ?thesis using b read by simp
  next
    case (Cons x xs)
    then have j: "str_join literal_gap (map concat (us # uss))
        = concat us @ literal_gap @ str_join literal_gap (map concat uss)"
      by (simp add: str_join_Cons)
    show ?thesis unfolding j using read [of "literal_gap @ str_join literal_gap (map concat uss) @ [quote_char]"] rest b(1) by simp
  qed
qed simp

lemma no_trigraph_quote [simp]: "no_trigraph (quote_char # s) \<longleftrightarrow> no_trigraph s"
  by (cases s) auto

lemma trigraph_join: "no_trigraph (concat xs) \<Longrightarrow> no_trigraph (str_join literal_gap xs)"
proof (induction xs)
  case (Cons x xs)
  then have "no_trigraph x" "no_trigraph (str_join literal_gap xs)" by (auto simp: no_trigraph_append)
  then show ?case by (cases xs) (auto simp: str_join_Cons no_trigraph_append [of x])
qed simp

lemma no_trigraph_quotes: "no_trigraph s \<Longrightarrow> no_trigraph ([quote_char] @ s @ [quote_char])"
  using no_trigraph_append [of s "[quote_char]"] by auto

definition printable :: "char \<Rightarrow> bool" where
  "printable c \<longleftrightarrow> 32 \<le> (of_char c :: nat) \<and> (of_char c :: nat) < 128"

lemma unit_printable: "unit u c \<Longrightarrow> x \<in> set u \<Longrightarrow> 32 \<le> (of_char x :: nat)"
proof (induction rule: unit.induct)
  case (simple e c)
  then show ?case by (auto simp: simple_escapes_def split: if_splits)
next
  case (octal c)
  have "32 \<le> (of_char (digit_char n) :: nat)" if "n < 8" for n
    using octal_digit_char [OF that] by (simp add: octal_digit_def)
  with octal show ?case using octal_first [of c] by (auto simp: octal3_def)
qed auto

lemma escape_high_ascii: "x \<in> set (escape_high c) \<Longrightarrow> (of_char x :: nat) < 128"
  using octal_first [of c] by (auto simp: escape_high_def octal3_def digit_char.simps split: if_splits)

lemma escape_printable: "x \<in> set (escape_byte_string s) \<Longrightarrow> printable x"
proof -
  assume x: "x \<in> set (escape_byte_string s)"
  obtain us where "escape_byte_string s = concat us" "list_all2 unit us s" using escape_units by blast
  then have "32 \<le> (of_char x :: nat)"
    using x by (auto dest: list_all2_member intro: unit_printable)
  moreover have "(of_char x :: nat) < 128"
    using x escape_high_ascii by (fastforce simp: escape_byte_string_def Let_def list_all_iff simp flip: escape_high_def split: if_splits)
  ultimately show ?thesis by (simp add: printable_def)
qed

lemma concat_map_concat: "concat (map concat xss) = concat (concat xss)"
  by (induction xss) auto

lemma join_mem: "x \<in> set (str_join sep xs) \<Longrightarrow> x \<in> set sep \<or> (\<exists>y \<in> set xs. x \<in> set y)"
  by (induction sep xs rule: str_join.induct) auto

text \<open>Every limit of at least six characters.\<close>

lemma split_string_literal_spec:
  assumes us: "escape_byte_string s = concat us" "list_all2 unit us s" and limit: "6 \<le> limit"
  obtains uss where "split_string_literal (concat us) (int limit) = Some (Inr (str_join literal_gap (map concat uss)))"
    "concat uss = us" "\<forall>us' \<in> set uss. length (concat us') \<le> limit"
proof (cases "length (concat us) < limit")
  case True
  then show thesis using that [of "[us]"] by (simp add: split_string_literal_def)
next
  case False
  have "units us" using us(2) by (auto simp: units_def dest: list_all2_member)
  then obtain uss where "split_chunks (concat us) (int limit) 0 [] = Some (Inr (map concat uss))"
    "concat uss = us" "\<forall>us' \<in> set uss. length (concat us') \<le> limit"
    using split_chunks_spec [OF limit, of us 0 "concat us" "[]"] by auto
  then show thesis using that [of uss] False by (simp add: split_string_literal_def)
qed

text \<open>C29. Whatever bytes it is given, \<open>as_c_string_literal\<close> emits C string literals that denote them: it
  returns, a C compiler that joins adjacent literals reads exactly the bytes, there is no trigraph in
  the text, every character of it is printable ASCII or 127, and it consists of literals of at most
  2000 characters each of which is complete, so no escape is cut in two.\<close>

theorem c_string_literal_reads:
  "\<exists>text chunks. as_c_string_literal bytestring = Some (Inr text)
     \<and> read_literals False text = Some bytestring
     \<and> no_trigraph text \<and> list_all printable text
     \<and> text = [quote_char] @ str_join literal_gap chunks @ [quote_char]
     \<and> list_all (\<lambda>chunk. length chunk \<le> 2000 \<and> read_literals True (chunk @ [quote_char]) \<noteq> None) chunks"
proof -
  obtain us where us: "escape_byte_string bytestring = concat us" "list_all2 unit us bytestring"
    using escape_units by blast
  obtain uss where uss: "split_string_literal (concat us) (int 2000) = Some (Inr (str_join literal_gap (map concat uss)))"
    "concat uss = us" "\<forall>us' \<in> set uss. length (concat us') \<le> 2000"
    by (rule split_string_literal_spec [OF us, of 2000]) auto
  let ?chunks = "map concat uss"
  let ?text = "[quote_char] @ str_join literal_gap ?chunks @ [quote_char]"
  have join: "concat ?chunks = escape_byte_string bytestring" using us(1) uss(2) by (simp add: concat_map_concat)
  have "no_trigraph ?text"
    using escape_no_trigraph [of bytestring] by (intro no_trigraph_quotes trigraph_join) (simp only: join)
  moreover have "list_all printable ?text"
    using escape_printable [of _ bytestring] join_mem [of _ literal_gap ?chunks]
    by (fastforce simp: list_all_iff printable_def simp flip: join)
  moreover have "read_literals False ?text = Some bytestring" using read_join [of uss bytestring] us(2) uss(2) by simp
  moreover have "read_literals True (chunk @ [quote_char]) \<noteq> None" if "chunk \<in> set ?chunks" for chunk
  proof -
    obtain us' where us': "us' \<in> set uss" "chunk = concat us'" using \<open>chunk \<in> set ?chunks\<close> by auto
    then have "units us'"
      using list_all2_member [OF us(2)] unfolding uss(2) [symmetric] set_concat units_def by blast
    then obtain bs' where "list_all2 unit us' bs'" using units_bytes by blast
    then show ?thesis using read_units [of us' bs' "[quote_char]"] us'(2) by simp
  qed
  ultimately show ?thesis
    using uss us(1) by (intro exI [of _ ?text] exI [of _ ?chunks])
      (auto simp: as_c_string_literal_def list_all_iff)
qed

subsection \<open>Py\_UNICODE arrays\<close>

text \<open>The code units of a character in UTF-16, and the characters of a sequence of units.\<close>

definition utf16_char :: "nat \<Rightarrow> nat list" where
  "utf16_char c =
     (if c \<ge> 0x10000 then [(c - 0x10000) div 1024 + 0xD800, (c - 0x10000) mod 1024 + 0xDC00] else [c])"

fun utf16_decode :: "nat list \<Rightarrow> nat list" where
  "utf16_decode (h # l # us) =
     (if 0xD800 \<le> h \<and> h < 0xDC00 \<and> 0xDC00 \<le> l \<and> l < 0xE000
      then ((h - 0xD800) * 1024 + (l - 0xDC00) + 0x10000) # utf16_decode us
      else h # utf16_decode (l # us))"
| "utf16_decode us = us"

lemma pyunicode_foldl:
  "foldl pyunicode_step (None, []) s =
     (if \<exists>c \<in> set s. c \<ge> 0x10000 then Some (map py_str_nat (concat (map utf16_char s))) else None,
      map py_str_nat s)"
proof (induction s rule: rev_induct)
  case (snoc c s)
  have "map py_str_nat (concat (map utf16_char s)) = map py_str_nat s" if "\<not> (\<exists>c \<in> set s. c \<ge> 0x10000)"
    using that by (induction s) (auto simp: utf16_char_def)
  with snoc show ?case by (auto simp: pyunicode_step_def utf16_char_def Let_def)
qed simp

lemma utf16_decode_char:
  assumes "c < 0x110000" and "\<not> (0xD800 \<le> c \<and> c < 0xE000)"
  shows "utf16_decode (utf16_char c @ us) = c # utf16_decode us"
proof (cases "c \<ge> 0x10000")
  case True
  have "(c - 0x10000) div 1024 < 1024" using assms(1) by (intro less_mult_imp_div_less) simp
  moreover have "(c - 0x10000) div 1024 * 1024 + (c - 0x10000) mod 1024 + 0x10000 = c" using True by simp
  ultimately show ?thesis using True by (simp add: utf16_char_def)
next
  case False
  then show ?thesis using assms(2) by (cases us) (auto simp: utf16_char_def)
qed

text \<open>The array for two-byte characters is UTF-16, and no character of the string is lost.\<close>

lemma pyunicode_utf16:
  assumes "\<forall>c \<in> set s. c < 0x110000 \<and> \<not> (0xD800 \<le> c \<and> c < 0xE000)"
  shows "utf16_decode (concat (map utf16_char s)) = s"
  using assms by (induction s) (auto simp: utf16_decode_char)

end
