(* ===== verification/LineTable.thy ===== *)
theory LineTable
  imports Prelude "HOL-Library.Product_Lexorder"
begin

text \<open>
  \<open>Cython/Compiler/LineTable.py\<close> and \<open>_build_positions\<close> of \<open>ParseTreeTransforms.py\<close>: the source
  ranges of the nodes of a function and their encoding as the location table of a code object
  (PEP 626). A table is the list of the codes of its characters. Numbers are unbounded, as in Python;
  the module annotates them as \<open>cython.int\<close>, so when it is compiled a line or column beyond the range
  of a C \<open>int\<close> is refused or wraps around, which the model does not show.
\<close>

unbundle bit_operations_syntax

subsection \<open>The encoder\<close>

text \<open>\<open>(start_lineno, end_lineno, start_column, end_column)\<close>.\<close>

type_synonym position_info = "int \<times> int \<times> int \<times> int"

text \<open>A failing \<open>assert\<close>, or a character code below zero.\<close>

datatype table_error = AssertionFailed | NegativeCharacter

definition char_codes :: "int list \<Rightarrow> table_error + int list" where
  "char_codes cs = (if \<exists>c\<in>set cs. c < 0 then Inl NegativeCharacter else Inr cs)"

function varint_bytes :: "int \<Rightarrow> int list" where
  "varint_bytes v = (if v \<ge> 64 then (64 OR (v AND 63)) # varint_bytes (drop_bit 6 v) else [v])"
  by pat_completeness auto
termination
  by (relation "measure nat") (auto simp: drop_bit_eq_div)

declare varint_bytes.simps [simp del]

definition encode_varint :: "int \<Rightarrow> table_error + int list" where
  "encode_varint v = (if v > 0 \<or> v = 0 then Inr (varint_bytes v) else Inl AssertionFailed)"

definition encode_location_start :: "int \<Rightarrow> table_error + int list" where
  "encode_location_start code = char_codes [128 OR push_bit 3 code]"

definition encode_location_short :: "int \<Rightarrow> int \<Rightarrow> table_error + int list" where
  "encode_location_short start_column end_column =
     (let low_bits = start_column AND 7; code = drop_bit 3 start_column
      in char_codes [128 OR push_bit 3 code, push_bit 4 low_bits OR (end_column - start_column)])"

definition encode_location_oneline :: "int \<Rightarrow> int \<Rightarrow> int \<Rightarrow> table_error + int list" where
  "encode_location_oneline line_delta start_column end_column =
     (let code = 10 + line_delta in char_codes [128 OR push_bit 3 code, start_column, end_column])"

text \<open>The appended characters and the returned line.\<close>

definition encode_single_position :: "position_info \<Rightarrow> int \<Rightarrow> table_error + int list \<times> int" where
  "encode_single_position position_info last_lineno =
     (case position_info of (start_lineno, end_lineno, start_column, end_column) \<Rightarrow>
        if \<not> start_lineno \<ge> last_lineno then Inl AssertionFailed
        else
          let last_lineno_delta = start_lineno - last_lineno in
          if end_lineno = start_lineno \<and> last_lineno_delta = 0 \<and> start_column < 80
             \<and> 0 \<le> end_column - start_column \<and> end_column - start_column < 16
          then bind_result (encode_location_short start_column end_column) (\<lambda>b. Inr (b, end_lineno))
          else if end_lineno = start_lineno \<and> 0 \<le> last_lineno_delta \<and> last_lineno_delta < 3
             \<and> start_column < 128 \<and> end_column < 128
          then bind_result (encode_location_oneline last_lineno_delta start_column end_column)
                 (\<lambda>b. Inr (b, end_lineno))
          else
            bind_result (encode_location_start 14) (\<lambda>b1.
            bind_result (encode_varint (push_bit 1 last_lineno_delta)) (\<lambda>b2.
            bind_result (encode_varint (end_lineno - start_lineno)) (\<lambda>b3.
            bind_result (encode_varint (start_column + 1)) (\<lambda>b4.
            bind_result (encode_varint (end_column + 1)) (\<lambda>b5.
              Inr (b1 @ b2 @ b3 @ b4 @ b5, end_lineno)))))))"

fun encode_positions :: "position_info list \<Rightarrow> int \<Rightarrow> table_error + int list" where
  "encode_positions [] last_lineno = Inr []"
| "encode_positions (position_info # positions) last_lineno =
     bind_result (encode_single_position position_info last_lineno) (\<lambda>(b, last_lineno).
     bind_result (encode_positions positions last_lineno) (\<lambda>bs. Inr (b @ bs)))"

definition build_line_table :: "position_info list \<Rightarrow> int \<Rightarrow> table_error + int list" where
  "build_line_table positions firstlineno = encode_positions positions firstlineno"

subsection \<open>The ranges of a function\<close>

text \<open>A node position \<open>(source, line, column)\<close>.\<close>

type_synonym 's node_pos = "'s \<times> int \<times> int"

definition line_column :: "'s node_pos \<Rightarrow> int \<times> int" where
  "line_column p = (case p of (source, line, column) \<Rightarrow> (line, column))"

text \<open>\<open>sorted(positions, key=itemgetter(1, 2), reverse=True)\<close>: Python keeps the order of equal keys
  also when it sorts in reverse. The argument is the set in the order it is iterated.\<close>

definition sorted_positions :: "'s node_pos list \<Rightarrow> 's node_pos list" where
  "sorted_positions positions = rev (sort_key line_column (rev positions))"

fun position_ranges :: "int \<Rightarrow> int \<Rightarrow> 's node_pos list \<Rightarrow> position_info list" where
  "position_ranges next_line next_column_in_line [] = []"
| "position_ranges next_line next_column_in_line ((source, line, start_column) # positions) =
     (line, line, start_column,
      if line = next_line then next_column_in_line else start_column + 1)
     # position_ranges line start_column positions"

fun position_offsets ::
  "nat \<Rightarrow> ('s node_pos, nat) pydict \<Rightarrow> 's node_pos list \<Rightarrow> ('s node_pos, nat) pydict" where
  "position_offsets i d [] = d"
| "position_offsets i d (position # positions) =
     position_offsets (i + 1) (dict_set position i d) positions"

definition build_positions ::
  "'s node_pos list \<Rightarrow> position_info list \<times> ('s node_pos, nat) pydict" where
  "build_positions positions =
     (let positions = sorted_positions positions;
          ranges = rev (position_ranges (-1) 0 positions)
      in (ranges, position_offsets 0 [] (rev positions)))"

subsection \<open>Reading a table\<close>

text \<open>The format as CPython documents it: six bits of a number in each byte with a continuation
  flag, signed numbers with the sign in the lowest bit, an entry with a code of four bits in its
  first byte. The line of an entry is relative to the line where the entry before it starts.\<close>

fun read_varint :: "int list \<Rightarrow> (int \<times> int list) option" where
  "read_varint [] = None"
| "read_varint (b # bs) =
     (if b AND 64 = 0 then Some (b AND 63, bs)
      else map_option (\<lambda>(v, rest). (push_bit 6 v + (b AND 63), rest)) (read_varint bs))"

definition read_svarint :: "int list \<Rightarrow> (int \<times> int list) option" where
  "read_svarint bs =
     map_option (\<lambda>(v, rest). (if odd v then - drop_bit 1 v else drop_bit 1 v, rest)) (read_varint bs)"

definition read_long :: "int \<Rightarrow> int list \<Rightarrow> (position_info \<times> int list) option" where
  "read_long line bs =
     Option.bind (read_svarint bs) (\<lambda>(delta, bs).
     Option.bind (read_varint bs) (\<lambda>(lines, bs).
     Option.bind (read_varint bs) (\<lambda>(start, bs).
     Option.bind (read_varint bs) (\<lambda>(stop, bs).
       Some ((line + delta, line + delta + lines, start - 1, stop - 1), bs)))))"

definition read_entry :: "int \<Rightarrow> int list \<Rightarrow> (position_info \<times> int list) option" where
  "read_entry line bs =
     (case bs of
        [] \<Rightarrow> None
      | b # bs \<Rightarrow>
          if b AND 128 = 0 then None
          else let code = drop_bit 3 b AND 15 in
            if code < 10 then
              (case bs of
                 [] \<Rightarrow> None
               | c # bs \<Rightarrow>
                   let start = push_bit 3 code + drop_bit 4 c
                   in Some ((line, line, start, start + (c AND 15)), bs))
            else if code < 13 then
              (case bs of
                 start # stop # bs \<Rightarrow> Some ((line + (code - 10), line + (code - 10), start, stop), bs)
               | _ \<Rightarrow> None)
            else if code = 14 then read_long line bs
            else None)"

text \<open>An entry takes at least one byte, so the length of the table is enough fuel.\<close>

fun read_entries :: "nat \<Rightarrow> int \<Rightarrow> int list \<Rightarrow> position_info list option" where
  "read_entries fuel line [] = Some []"
| "read_entries 0 line (b # bs) = None"
| "read_entries (Suc fuel) line (b # bs) =
     Option.bind (read_entry line (b # bs)) (\<lambda>(p, bs).
       map_option ((#) p) (read_entries fuel (fst p) bs))"

definition read_line_table :: "int \<Rightarrow> int list \<Rightarrow> position_info list option" where
  "read_line_table firstlineno table = read_entries (length table) firstlineno table"


subsection \<open>Bits of an entry\<close>

lemma push_or_add:
  fixes a b :: int
  assumes "0 \<le> b" "b < 2 ^ n"
  shows "push_bit n a OR b = a * 2 ^ n + b"
proof -
  have "take_bit n b = b" using assms by (simp add: take_bit_int_eq_self)
  then show ?thesis
    using concat_bit_def [of n b a] concat_bit_eq [of n b a]
    by (simp add: push_bit_eq_mult or.commute)
qed

lemma or_128: "0 \<le> (c :: int) \<Longrightarrow> c < 16 \<Longrightarrow> 128 OR push_bit 3 c = 128 + 8 * c"
  using push_or_add [of "push_bit 3 c" 7 1] by (simp add: push_bit_eq_mult)

lemma and_mask_6: "(v :: int) AND 63 = v mod 64"
  using take_bit_eq_mask [of 6 v] by (simp add: take_bit_eq_mod mask_numeral)

lemma or_64: "64 OR ((v :: int) mod 64) = 64 + v mod 64"
  using push_or_add [of "v mod 64" 6 1] by simp

lemma and_64: "(b :: int) AND 64 = 0 \<longleftrightarrow> even (b div 64)"
  using and_exp_eq_0_iff_not_bit [of b 6] by (simp add: bit_iff_odd)

lemma and_128: "(b :: int) AND 128 = 0 \<longleftrightarrow> even (b div 128)"
  using and_exp_eq_0_iff_not_bit [of b 7] by (simp add: bit_iff_odd)

lemma and_mask_4: "(v :: int) AND 15 = v mod 16"
  using take_bit_eq_mask [of 4 v] by (simp add: take_bit_eq_mod mask_numeral)

lemma and_mask_3: "(v :: int) AND 7 = v mod 8"
  using take_bit_eq_mask [of 3 v] by (simp add: take_bit_eq_mod mask_numeral)

definition bytes_ok :: "int list \<Rightarrow> bool" where
  "bytes_ok bs \<longleftrightarrow> list_all (\<lambda>b. 0 \<le> b \<and> b < 256) bs"

lemma bytes_ok_simps [simp]:
  "bytes_ok []" "bytes_ok (b # bs) \<longleftrightarrow> 0 \<le> b \<and> b < 256 \<and> bytes_ok bs"
  "bytes_ok (bs @ cs) \<longleftrightarrow> bytes_ok bs \<and> bytes_ok cs"
  by (auto simp: bytes_ok_def)

lemma varint_ok: "0 \<le> v \<Longrightarrow> bytes_ok (varint_bytes v)"
proof (induction v rule: varint_bytes.induct)
  case (1 v)
  then show ?case
    by (subst varint_bytes.simps) (auto simp: or_64 and_mask_6 pos_mod_bound [THEN order_less_trans] add_strict_left_mono
        intro!: "1.IH")
qed

lemma read_varint_bytes: "0 \<le> v \<Longrightarrow> read_varint (varint_bytes v @ rest) = Some (v, rest)"
proof (induction v rule: varint_bytes.induct)
  case (1 v)
  show ?case
  proof (cases "v \<ge> 64")
    case True
    let ?m = "v mod 64"
    have m: "0 \<le> ?m" "?m < 64" by simp_all
    then have "(64 + ?m) div 64 = 1" "(64 + ?m) mod 64 = ?m" by simp_all
    moreover have "read_varint (varint_bytes (drop_bit 6 v) @ rest) = Some (drop_bit 6 v, rest)"
      using 1 True by simp
    moreover have "push_bit 6 (drop_bit 6 v) + ?m = v"
      by (simp add: push_bit_eq_mult drop_bit_eq_div)
    ultimately show ?thesis
      using True by (subst varint_bytes.simps) (simp add: or_64 and_64 and_mask_6 del: mod_add_self1)
  next
    case False
    then show ?thesis using 1 by (subst varint_bytes.simps) (simp add: and_64 and_mask_6)
  qed
qed

subsection \<open>One entry\<close>

text \<open>What the caller provides: lines that do not go back, and columns from zero on.\<close>

definition position_ok :: "int \<Rightarrow> position_info \<Rightarrow> bool" where
  "position_ok last_lineno p =
     (case p of (start_lineno, end_lineno, start_column, end_column) \<Rightarrow>
        last_lineno \<le> start_lineno \<and> start_lineno \<le> end_lineno \<and> 0 \<le> start_column \<and> 0 \<le> end_column)"

definition entry_of :: "int \<Rightarrow> position_info \<Rightarrow> int list \<Rightarrow> bool" where
  "entry_of last_lineno p b =
     (case p of (start_lineno, end_lineno, start_column, end_column) \<Rightarrow>
        b \<noteq> [] \<and> bytes_ok b
        \<and> (\<forall>line rest. read_entry line (b @ rest) =
              Some ((line + (start_lineno - last_lineno), line + (end_lineno - last_lineno),
                     start_column, end_column), rest)))"

lemma entry_of_short:
  assumes "0 \<le> c" "c < 10" "0 \<le> low" "low < 8" "0 \<le> w" "w < 16"
  shows "entry_of l (l, l, 8 * c + low, 8 * c + low + w) [128 + 8 * c, low * 16 + w]"
proof -
  have "(128 + 8 * c) div 8 = 16 + c" "(128 + 8 * c) div 128 = 1" "(16 + c) mod 16 = c"
    "(low * 16 + w) div 16 = low" "(low * 16 + w) mod 16 = w"
    using assms by simp_all
  then show ?thesis
    using assms by (simp add: entry_of_def read_entry_def and_128 and_mask_4 drop_bit_eq_div
        push_bit_eq_mult Let_def del: mod_mult_self3 mod_mult_self4)
qed

lemma entry_short:
  assumes "0 \<le> start" "start < 80" "0 \<le> stop - start" "stop - start < 16"
  obtains b where "encode_location_short start stop = Inr b" "entry_of l (l, l, start, stop) b"
proof -
  define c low w where "c = start div 8" and "low = start mod 8" and "w = stop - start"
  have ranges: "0 \<le> c" "c < 10" "0 \<le> low" "low < 8" "0 \<le> w" "w < 16"
    using assms by (simp_all add: c_def low_def w_def)
  have start: "start = 8 * c + low" "stop = 8 * c + low + w" by (simp_all add: c_def low_def w_def)
  have "128 OR push_bit 3 c = 128 + 8 * c" using or_128 ranges by simp
  moreover have "push_bit 4 low OR w = low * 16 + w" using push_or_add [of w 4 low] ranges by simp
  moreover have "encode_location_short start stop = char_codes [128 OR push_bit 3 c, push_bit 4 low OR w]"
    by (simp add: encode_location_short_def Let_def and_mask_3 drop_bit_eq_div c_def low_def w_def)
  ultimately have "encode_location_short start stop = Inr [128 + 8 * c, low * 16 + w]"
    using ranges by (simp add: char_codes_def)
  with entry_of_short [OF ranges, of l] show thesis using that by (simp add: start)
qed

lemma entry_oneline:
  assumes "0 \<le> d" "d < 3" "0 \<le> start" "start < 128" "0 \<le> stop" "stop < 128"
  obtains b where "encode_location_oneline d start stop = Inr b" "entry_of l (l + d, l + d, start, stop) b"
proof -
  have head: "128 OR push_bit 3 (10 + d) = 208 + 8 * d"
    using or_128 [of "10 + d"] assms by simp
  then have enc: "encode_location_oneline d start stop = Inr [208 + 8 * d, start, stop]"
    using assms by (simp add: encode_location_oneline_def char_codes_def Let_def)
  have code: "(208 + 8 * d) div 8 mod 16 = 10 + d" "(208 + 8 * d) div 128 = 1"
  proof -
    have "d = 0 \<or> d = 1 \<or> d = 2" using assms by arith
    then show "(208 + 8 * d) div 8 mod 16 = 10 + d" "(208 + 8 * d) div 128 = 1" by auto
  qed
  have "entry_of l (l + d, l + d, start, stop) [208 + 8 * d, start, stop]"
    using assms code
    by (simp add: entry_of_def read_entry_def and_128 and_mask_4 drop_bit_eq_div Let_def)
  with enc show thesis by (rule that)
qed

lemma read_svarint_bytes: "0 \<le> d \<Longrightarrow> read_svarint (varint_bytes (d * 2) @ rest) = Some (d, rest)"
  by (simp add: read_svarint_def read_varint_bytes drop_bit_eq_div)

lemma entry_long:
  assumes "0 \<le> d" "0 \<le> lines" "0 \<le> start" "0 \<le> stop"
  shows "entry_of l (l + d, l + d + lines, start, stop)
    (240 # varint_bytes (push_bit 1 d) @ varint_bytes lines @ varint_bytes (start + 1)
      @ varint_bytes (stop + 1))"
  using assms
  by (simp add: entry_of_def read_entry_def read_long_def and_128 and_mask_4 drop_bit_eq_div Let_def
      read_svarint_bytes read_varint_bytes varint_ok push_bit_eq_mult)

lemma encode_entry:
  assumes "position_ok last_lineno p"
  obtains b where "encode_single_position p last_lineno = Inr (b, fst (snd p))"
    "entry_of last_lineno p b"
proof -
  obtain sl el start stop where p: "p = (sl, el, start, stop)" by (cases p)
  let ?d = "sl - last_lineno"
  have ok: "0 \<le> ?d" "0 \<le> el - sl" "0 \<le> start" "0 \<le> stop"
    using assms by (simp_all add: position_ok_def p)
  consider (short) "el = sl" "?d = 0" "start < 80" "0 \<le> stop - start" "stop - start < 16"
    | (oneline) "el = sl" "?d < 3" "start < 128" "stop < 128"
        "\<not> (?d = 0 \<and> start < 80 \<and> 0 \<le> stop - start \<and> stop - start < 16)"
    | (long) "\<not> (el = sl \<and> ?d = 0 \<and> start < 80 \<and> 0 \<le> stop - start \<and> stop - start < 16)"
        "\<not> (el = sl \<and> ?d < 3 \<and> start < 128 \<and> stop < 128)" by blast
  then show thesis
  proof cases
    case short
    obtain b where "encode_location_short start stop = Inr b" "entry_of sl (sl, sl, start, stop) b"
      using entry_short [OF ok(3) short(3-5)] .
    then show thesis using that [of b] short ok by (simp add: p encode_single_position_def)
  next
    case oneline
    obtain b where "encode_location_oneline ?d start stop = Inr b"
      "entry_of last_lineno (last_lineno + ?d, last_lineno + ?d, start, stop) b"
      using entry_oneline [OF ok(1) oneline(2) ok(3) oneline(3) ok(4) oneline(4)] .
    then show thesis using that [of b] oneline ok
      by (auto simp: p encode_single_position_def Let_def split: if_splits)
  next
    case long
    have "encode_single_position p last_lineno = Inr (240 # varint_bytes (push_bit 1 ?d)
        @ varint_bytes (el - sl) @ varint_bytes (start + 1) @ varint_bytes (stop + 1), el)"
      using long ok or_128 [of 14]
      by (auto simp: p encode_single_position_def Let_def encode_location_start_def encode_varint_def
          char_codes_def push_bit_eq_mult)
    with entry_long [OF ok, of last_lineno] show thesis using that by (simp add: p)
  qed
qed


subsection \<open>A whole table\<close>

text \<open>Positions in order: each starts no earlier than the one before it ends.\<close>

fun positions_ok :: "int \<Rightarrow> position_info list \<Rightarrow> bool" where
  "positions_ok last_lineno [] \<longleftrightarrow> True"
| "positions_ok last_lineno (p # ps) \<longleftrightarrow> position_ok last_lineno p \<and> positions_ok (fst (snd p)) ps"

text \<open>The encoder counts from the last line of the entry before, a reader from its first: what is
  read lies \<open>drift\<close> lines before what was meant.\<close>

fun drifted :: "int \<Rightarrow> position_info list \<Rightarrow> position_info list" where
  "drifted drift [] = []"
| "drifted drift ((sl, el, start, stop) # ps) =
     (sl - drift, el - drift, start, stop) # drifted (drift + (el - sl)) ps"

lemma encode_positions_spec:
  "positions_ok last_lineno ps \<Longrightarrow> \<exists>bs. encode_positions ps last_lineno = Inr bs \<and> bytes_ok bs
     \<and> (\<forall>fuel \<ge> length bs. \<forall>drift.
          read_entries fuel (last_lineno - drift) bs = Some (drifted drift ps))"
proof (induction ps arbitrary: last_lineno)
  case (Cons p ps)
  obtain sl el start stop where p: "p = (sl, el, start, stop)" by (cases p)
  obtain b where b: "encode_single_position p last_lineno = Inr (b, el)" "entry_of last_lineno p b"
    using encode_entry [of last_lineno p] Cons.prems by (auto simp: p)
  obtain bs where bs: "encode_positions ps el = Inr bs" "bytes_ok bs"
    "\<And>fuel drift. length bs \<le> fuel \<Longrightarrow> read_entries fuel (el - drift) bs = Some (drifted drift ps)"
    using Cons.IH [of el] Cons.prems by (auto simp: p)
  have entry: "b \<noteq> []" "bytes_ok b"
    "read_entry line (b @ rest) = Some ((line + (sl - last_lineno), line + (el - last_lineno), start, stop), rest)"
    for line rest using b(2) by (simp_all add: entry_of_def p)
  have "read_entries fuel (last_lineno - drift) (b @ bs) = Some (drifted drift (p # ps))"
    if "length (b @ bs) \<le> fuel" for fuel drift
  proof -
    obtain c b' where c: "b = c # b'" using entry(1) by (cases b) auto
    then have "length bs < fuel" using that by simp
    then obtain fuel' where fuel: "fuel = Suc fuel'" "length bs \<le> fuel'" by (cases fuel) auto
    have "sl - drift = el - (drift + (el - sl))" by simp
    then have "read_entries fuel' (sl - drift) bs = Some (drifted (drift + (el - sl)) ps)"
      using bs(3) [OF fuel(2)] by metis
    then show ?thesis
      using entry(3) [of "last_lineno - drift" bs] by (simp add: c fuel(1) p)
  qed
  then show ?case using b(1) bs(1,2) entry(2) by auto
qed simp

lemma drifted_single: "list_all (\<lambda>(sl, el, start, stop). sl = el) ps \<Longrightarrow> drifted 0 ps = ps"
  by (induction ps) auto

lemma build_line_table_read:
  assumes "positions_ok firstlineno positions"
  obtains table where "build_line_table positions firstlineno = Inr table" "bytes_ok table"
    "read_line_table firstlineno table = Some (drifted 0 positions)"
proof -
  obtain bs where "encode_positions positions firstlineno = Inr bs" "bytes_ok bs"
    "\<And>fuel drift. length bs \<le> fuel
       \<Longrightarrow> read_entries fuel (firstlineno - drift) bs = Some (drifted drift positions)"
    using encode_positions_spec [OF assms] by auto
  from this(1,2) this(3) [of "length bs" 0] show thesis
    using that by (simp add: build_line_table_def read_line_table_def)
qed

text \<open>C39. Location tables: for positions that do not go back and have no negative column, the
  encoder raises no error and emits bytes only, and a reader of the documented format gets back
  every column and every length in lines; a start line is read too low by the number of lines that
  the entries before it span, since the encoder goes on from the last line of an entry and the
  format from its first.\<close>

theorem line_table_roundtrip:
  assumes "positions_ok firstlineno positions"
  shows "\<exists>table. build_line_table positions firstlineno = Inr table \<and> bytes_ok table
    \<and> read_line_table firstlineno table = Some (drifted 0 positions)
    \<and> (list_all (\<lambda>(sl, el, start, stop). sl = el) positions
         \<longrightarrow> read_line_table firstlineno table = Some positions)"
proof -
  obtain table where "build_line_table positions firstlineno = Inr table" "bytes_ok table"
    "read_line_table firstlineno table = Some (drifted 0 positions)"
    using build_line_table_read [OF assms] .
  then show ?thesis by (auto simp: drifted_single)
qed

lemma line_table_roundtrip_witness:
  "\<exists>table. build_line_table [(3, 5, 0, 7), (6, 6, 4, 300)] 3 = Inr table
     \<and> read_line_table 3 table = Some [(3, 5, 0, 7), (4, 4, 4, 300)]"
  using line_table_roundtrip [of 3 "[(3, 5, 0, 7), (6, 6, 4, 300)]"]
  by (auto simp: position_ok_def)


subsection \<open>The ranges of a function\<close>

lemma position_ranges_length [simp]: "length (position_ranges nl nc ps) = length ps"
  by (induction nl nc ps rule: position_ranges.induct) auto

text \<open>The range at a position whose successor in the source is \<open>q\<close>.\<close>

definition range_at :: "int \<times> int \<Rightarrow> 's node_pos \<Rightarrow> position_info" where
  "range_at q p = (case p of (source, line, column) \<Rightarrow>
     (line, line, column, if line = fst q then snd q else column + 1))"

lemma position_ranges_nth:
  "i < length ps \<Longrightarrow> position_ranges nl nc ps ! i =
     range_at (if i = 0 then (nl, nc) else line_column (ps ! (i - 1))) (ps ! i)"
proof (induction nl nc ps arbitrary: i rule: position_ranges.induct)
  case (2 nl nc source line column ps)
  show ?case
  proof (cases i)
    case 0
    then show ?thesis by (simp add: range_at_def)
  next
    case (Suc j)
    then show ?thesis using 2 by (cases j) (simp_all add: line_column_def)
  qed
qed simp

lemma position_offsets_other:
  "x \<notin> set ps \<Longrightarrow> dict_get (position_offsets k d ps) x = dict_get d x"
  by (induction k d ps rule: position_offsets.induct) (auto simp: dict_get_set)

lemma position_offsets_nth:
  "distinct ps \<Longrightarrow> i < length ps \<Longrightarrow> dict_get (position_offsets k d ps) (ps ! i) = Some (k + i)"
proof (induction k d ps arbitrary: i rule: position_offsets.induct)
  case (2 k d p ps)
  then show ?case
    by (cases i) (auto simp: position_offsets_other dict_get_set)
qed simp

lemma positions_ok_nth:
  "(\<And>i. i < length ps \<Longrightarrow> position_ok (if i = 0 then l else fst (snd (ps ! (i - 1)))) (ps ! i))
   \<Longrightarrow> positions_ok l ps"
proof (induction ps arbitrary: l)
  case (Cons p ps)
  have "position_ok (if i = 0 then fst (snd p) else fst (snd (ps ! (i - 1)))) (ps ! i)"
    if "i < length ps" for i
    using Cons.prems [of "Suc i"] that by (cases i) auto
  then show ?case using Cons.prems [of 0] Cons.IH by simp
qed simp

text \<open>The ranges in the order of the source: the one of the position with index \<open>i\<close> ends where the
  next position in its line starts.\<close>

definition next_start :: "'s node_pos list \<Rightarrow> nat \<Rightarrow> int \<times> int" where
  "next_start ps i = (if Suc i < length ps then line_column (ps ! Suc i) else (- 1, 0))"

lemma build_positions_spec:
  fixes positions :: "'s node_pos list"
  defines "ps \<equiv> sort_key line_column (rev positions)"
  obtains ranges where "build_positions positions = (ranges, position_offsets 0 [] ps)"
    "length ranges = length ps" "\<And>i. i < length ps \<Longrightarrow> ranges ! i = range_at (next_start ps i) (ps ! i)"
proof -
  let ?r = "rev (position_ranges (- 1) 0 (rev ps))"
  have "?r ! i = range_at (next_start ps i) (ps ! i)" if "i < length ps" for i
  proof -
    let ?j = "length ps - Suc i"
    have j: "?j < length (rev ps)" "rev ps ! ?j = ps ! i" using that by (simp_all add: rev_nth)
    have "line_column (rev ps ! (?j - 1)) = next_start ps i" if "?j \<noteq> 0"
      using that by (auto simp: next_start_def rev_nth Suc_diff_Suc intro!: arg_cong [of _ _ "\<lambda>i. line_column (ps ! i)"])
    moreover have "next_start ps i = (- 1, 0)" if "?j = 0" using that by (simp add: next_start_def)
    ultimately show ?thesis
      using position_ranges_nth [OF j(1), of "- 1" 0] that j(2) by (auto simp: rev_nth)
  qed
  moreover have "build_positions positions = (?r, position_offsets 0 [] ps)"
    by (simp add: build_positions_def sorted_positions_def ps_def Let_def)
  ultimately show thesis using that by simp
qed


lemma sorted_nth_le:
  "i < j \<Longrightarrow> j < length ps \<Longrightarrow> sorted (map f ps) \<Longrightarrow> f (ps ! i) \<le> f (ps ! j)"
  using sorted_nth_mono [of "map f ps" i j] by simp

lemma line_column_le:
  "line_column (s, l, c) \<le> line_column (s', l', c') \<longleftrightarrow> l < l' \<or> l = l' \<and> c \<le> c'"
  by (auto simp: line_column_def less_eq_prod_def)

text \<open>The range at a position of a sorted list.\<close>

lemma range_at_next:
  fixes ps :: "'s node_pos list"
  assumes sorted: "sorted (map line_column ps)" and i: "i < length ps" "ps ! i = (s, line, column)"
    and "0 \<le> line"
  obtains e where "range_at (next_start ps i) (ps ! i) = (line, line, column, e)" "column \<le> e"
    "\<And>j s' column'. j < length ps \<Longrightarrow> ps ! j = (s', line, column') \<Longrightarrow> column < column' \<Longrightarrow> e \<le> column'"
proof -
  let ?e = "if line = fst (next_start ps i) then snd (next_start ps i) else column + 1"
  have later: "line_column (ps ! i) \<le> line_column (ps ! j)" if "i < j" "j < length ps" for i j
    using sorted_nth_le [OF that sorted] .
  have succ: "Suc i < length ps \<and> (\<exists>s'. ps ! Suc i = (s', line, ?e))" if "line = fst (next_start ps i)"
    using that assms(4) by (cases "ps ! Suc i") (auto simp: next_start_def line_column_def split: if_splits)
  have "column \<le> ?e" using succ later [of i "Suc i"] i(2) line_column_le by fastforce
  moreover have "?e \<le> column'"
    if j: "j < length ps" "ps ! j = (s', line, column')" "column < column'" for j s' column'
  proof -
    have "i < j"
      using later [of j i] i j line_column_le [of s' line column' s line column]
      by (cases i j rule: linorder_cases) auto
    then have n: "Suc i < length ps" "line_column (ps ! i) \<le> line_column (ps ! Suc i)"
      "line_column (ps ! Suc i) \<le> line_column (ps ! j)"
      using j(1) later [of i "Suc i"] later [of "Suc i" j] by (auto simp: le_less Suc_le_eq dest: Suc_lessI)
    obtain s2 l2 c2 where q: "ps ! Suc i = (s2, l2, c2)" by (cases "ps ! Suc i")
    then have "l2 = line" "c2 \<le> column'" using n(2,3) by (auto simp: i(2) j(2) line_column_le)
    then show ?thesis using n(1) q by (simp add: next_start_def line_column_def)
  qed
  ultimately show thesis using that [of ?e] by (simp add: range_at_def i(2))
qed

lemma ranges_ok:
  fixes ps :: "'s node_pos list"
  assumes "sorted (map line_column ps)" and "length ranges = length ps"
    and nth: "\<And>i. i < length ps \<Longrightarrow> ranges ! i = range_at (next_start ps i) (ps ! i)"
    and pos: "\<And>i. i < length ps \<Longrightarrow> firstlineno \<le> fst (snd (ps ! i)) \<and> 0 \<le> snd (snd (ps ! i))"
    and "0 \<le> firstlineno"
  shows "positions_ok firstlineno ranges"
proof (rule positions_ok_nth)
  fix i assume "i < length ranges"
  then have i: "i < length ps" by (simp add: assms(2))
  obtain s line column where p: "ps ! i = (s, line, column)" by (cases "ps ! i")
  have line: "firstlineno \<le> line" "0 \<le> line" "0 \<le> column" using pos [OF i] assms(5) by (simp_all add: p)
  obtain e where r: "ranges ! i = (line, line, column, e)" "column \<le> e"
    using range_at_next [OF assms(1) i p line(2)] nth [OF i] by metis
  have "fst (snd (ranges ! (i - 1))) \<le> line" if "i \<noteq> 0"
    using that i sorted_nth_le [OF _ i assms(1), of "i - 1"] nth [of "i - 1"] p
    by (auto simp: range_at_def line_column_le split: prod.splits)
  then show "position_ok (if i = 0 then firstlineno else fst (snd (ranges ! (i - 1)))) (ranges ! i)"
    using line r by (simp add: position_ok_def)
qed

text \<open>A function of which a node lies in a line before its first: the first assertion fails.\<close>

lemma ranges_before_first:
  fixes ps :: "'s node_pos list"
  assumes "sorted (map line_column ps)" and len: "length ranges = length ps"
    and nth: "\<And>i. i < length ps \<Longrightarrow> ranges ! i = range_at (next_start ps i) (ps ! i)"
    and before: "(s, line, column) \<in> set ps" "line < firstlineno"
  shows "build_line_table ranges firstlineno = Inl AssertionFailed"
proof -
  obtain i where i: "i < length ps" "ps ! i = (s, line, column)"
    using before(1) by (metis in_set_conv_nth)
  obtain s0 l0 c0 where p0: "ps ! 0 = (s0, l0, c0)" by (cases "ps ! 0")
  have "l0 \<le> line"
    using sorted_nth_le [OF _ i(1) assms(1), of 0] i p0 by (cases "i = 0") (auto simp: line_column_le)
  moreover obtain r rs where r: "ranges = r # rs" using i(1) len by (cases ranges) auto
  have "0 < length ps" using i(1) by (rule le_less_trans [OF le0])
  from nth [OF this] have "r = range_at (next_start ps 0) (ps ! 0)" by (simp add: r)
  ultimately show ?thesis
    using before(2) r by (simp add: p0 range_at_def build_line_table_def encode_single_position_def)
qed

text \<open>C38. The node positions of a function become one range for each position, and every position is
  mapped to the index of its own range, which starts at the position, stays in its line and ends no
  later than the next position of that line starts. When no position lies in a line before the first
  one of the function, encoding the ranges succeeds and a reader of the table gets them back; when one
  does, as a node that comes from another file can, the encoder fails with an \<open>AssertionError\<close>.\<close>

theorem node_positions_roundtrip:
  fixes positions :: "'s node_pos list"
  assumes "distinct positions" and "0 \<le> firstlineno"
    and "\<And>s line column. (s, line, column) \<in> set positions \<Longrightarrow> 0 \<le> line \<and> 0 \<le> column"
  shows "case build_positions positions of (ranges, offsets) \<Rightarrow>
    (if \<exists>(s, line, column) \<in> set positions. line < firstlineno
     then build_line_table ranges firstlineno = Inl AssertionFailed
     else \<exists>table. build_line_table ranges firstlineno = Inr table
       \<and> read_line_table firstlineno table = Some ranges)
    \<and> (\<forall>(s, line, column) \<in> set positions. \<exists>i end_column.
         dict_get offsets (s, line, column) = Some i \<and> i < length ranges
         \<and> ranges ! i = (line, line, column, end_column) \<and> column \<le> end_column
         \<and> (\<forall>(s', line', column') \<in> set positions.
              line' = line \<and> column < column' \<longrightarrow> end_column \<le> column'))"
proof -
  define ps where "ps = sort_key line_column (rev positions)"
  obtain ranges where build: "build_positions positions = (ranges, position_offsets 0 [] ps)"
    and len: "length ranges = length ps"
    and nth: "\<And>i. i < length ps \<Longrightarrow> ranges ! i = range_at (next_start ps i) (ps ! i)"
    using build_positions_spec [of positions] unfolding ps_def by metis
  have ps: "set ps = set positions" "distinct ps" "sorted (map line_column ps)"
    using assms(1) by (simp_all add: ps_def)
  have single: "list_all (\<lambda>(sl, el, start, stop). sl = el) ranges"
    unfolding list_all_length by (auto simp: len nth range_at_def split: prod.splits)
  have early: "build_line_table ranges firstlineno = Inl AssertionFailed"
    if "(s, line, column) \<in> set positions" "line < firstlineno" for s line column
    using ranges_before_first [OF ps(3) len nth] that ps(1) by blast
  have encodes: "\<exists>table. build_line_table ranges firstlineno = Inr table
       \<and> read_line_table firstlineno table = Some ranges"
    if lines: "\<not> (\<exists>(s, line, column) \<in> set positions. line < firstlineno)"
  proof -
    have pos: "firstlineno \<le> fst (snd (ps ! i)) \<and> 0 \<le> snd (snd (ps ! i))" if "i < length ps" for i
    proof -
      obtain s line column where p: "ps ! i = (s, line, column)" by (cases "ps ! i")
      then have "(s, line, column) \<in> set positions" using nth_mem [OF that] by (simp add: ps(1))
      with lines assms(3) [OF this] show ?thesis by (auto simp: p not_less)
    qed
    show ?thesis
      using build_line_table_read [OF ranges_ok [OF ps(3) len nth pos assms(2)]] drifted_single [OF single]
      by metis
  qed
  have "\<exists>i e. dict_get (position_offsets 0 [] ps) (s, line, column) = Some i \<and> i < length ranges
      \<and> ranges ! i = (line, line, column, e) \<and> column \<le> e
      \<and> (\<forall>(s', line', column') \<in> set positions. line' = line \<and> column < column' \<longrightarrow> e \<le> column')"
    if mem: "(s, line, column) \<in> set positions" for s line column
  proof -
    obtain i where i: "i < length ps" "ps ! i = (s, line, column)"
      using mem by (metis in_set_conv_nth ps(1))
    have "0 \<le> line" using assms(3) [OF mem] by simp
    then obtain e where e: "ranges ! i = (line, line, column, e)" "column \<le> e"
      "\<And>j s' column'. j < length ps \<Longrightarrow> ps ! j = (s', line, column') \<Longrightarrow> column < column' \<Longrightarrow> e \<le> column'"
      using range_at_next [OF ps(3) i] nth [OF i(1)] by metis
    have "dict_get (position_offsets 0 [] ps) (s, line, column) = Some i"
      using position_offsets_nth [OF ps(2) i(1), of 0 "[]"] by (simp add: i(2))
    moreover have "e \<le> column'" if "(s', line, column') \<in> set positions" "column < column'" for s' column'
      using that e(3) by (metis in_set_conv_nth ps(1))
    ultimately show ?thesis using e(1,2) i(1) len by auto
  qed
  with early encodes show ?thesis by (auto simp: build)
qed

lemma node_positions_roundtrip_witness:
  "(\<exists>table. build_line_table (fst (build_positions [(0 :: nat, 4, 8), (0, 3, 4), (0, 4, 2)])) 3 = Inr table
      \<and> read_line_table 3 table = Some [(3, 3, 4, 5), (4, 4, 2, 8), (4, 4, 8, 9)])
   \<and> build_line_table (fst (build_positions [(0 :: nat, 4, 8), (0, 3, 4), (0, 4, 2)])) 4 = Inl AssertionFailed"
proof -
  have "build_positions [(0 :: nat, 4, 8), (0, 3, 4), (0, 4, 2)] =
      ([(3, 3, 4, 5), (4, 4, 2, 8), (4, 4, 8, 9)], [((0, 3, 4), 0), ((0, 4, 2), 1), ((0, 4, 8), 2)])"
    by (simp add: build_positions_def sorted_positions_def line_column_def)
  moreover have "0 \<le> line \<and> 0 \<le> column"
    if "(s, line, column) \<in> set [(0 :: nat, 4, 8), (0, 3, 4), (0, 4, 2)]" for s and line column :: int
    using that by auto
  ultimately show ?thesis
    using node_positions_roundtrip [of "[(0 :: nat, 4, 8), (0, 3, 4), (0, 4, 2)]" 3]
      node_positions_roundtrip [of "[(0 :: nat, 4, 8), (0, 3, 4), (0, 4, 2)]" 4] by simp
qed

end
