(* ===== verification/FlowGraph.thy ===== *)
theory FlowGraph
  imports Prelude
begin

text \<open>
  The control flow graph of \<open>Cython/Compiler/FlowControl.py\<close>: blocks, the operations that extend
  the graph and record assignments and references, and \<open>normalize\<close>. Blocks are objects with links
  in both directions, so they live in a heap, and a block is its index there. A Python set is a list
  without duplicates in the order in which it happens to be iterated; nothing below depends on
  that order.
\<close>

subsection \<open>Entries, nodes and statements\<close>

text \<open>The attributes of a symbol table entry, and of its type, that the analysis reads.\<close>

record cf_entry =
  entry_id :: nat
  entry_name :: string
  entry_pos :: "int \<times> int"
  is_anonymous :: bool
  is_local :: bool
  is_pyclass_attr :: bool
  is_arg :: bool
  from_closure :: bool
  in_closure :: bool
  error_on_uninitialized :: bool
  is_variable :: bool
  is_cpp_optional :: bool
  is_predefined :: bool
  type_is_struct_or_union :: bool
  type_is_complex :: bool
  type_is_array :: bool
  type_is_cython_lock :: bool
  type_is_cpp_class :: bool
  type_is_pyobject :: bool
  type_is_unspecified :: bool
  type_is_error :: bool

record cf_node =
  node_id :: nat
  node_pos :: "int \<times> int"
  allow_null :: bool

text \<open>\<open>NameAssignment\<close>, its subclasses \<open>Argument\<close> and \<open>NameDeletion\<close>, and \<open>NameReference\<close>. Two
  objects with the same attributes are different statements, hence the number. \<open>rhs_fake\<close> is
  \<open>rhs is fake_rhs_expr\<close>.\<close>

datatype stat_kind = NameAssignment | Argument | NameDeletion | NameReference

record flow_stat =
  stat_id :: nat
  stat_kind :: stat_kind
  stat_node :: cf_node
  stat_entry :: cf_entry
  rhs_fake :: bool

definition is_assignment :: "flow_stat \<Rightarrow> bool" where
  "is_assignment s \<longleftrightarrow> stat_kind s \<noteq> NameReference"

definition is_deletion :: "flow_stat \<Rightarrow> bool" where
  "is_deletion s \<longleftrightarrow> stat_kind s = NameDeletion"

subsection \<open>Blocks\<close>

text \<open>A value of \<open>gen\<close> is an assignment, or \<open>None\<close> for \<open>Uninitialized\<close>. \<open>is_exit\<close> tells an
  \<open>ExitBlock\<close>.\<close>

record block =
  b_children :: "nat list"
  b_parents :: "nat list"
  b_positions :: "(int \<times> int) list"
  b_stats :: "flow_stat list"
  b_gen :: "(cf_entry, flow_stat option) pydict"
  b_bounded :: "cf_entry list"
  i_input :: int
  i_output :: int
  i_gen :: int
  i_kill :: int
  is_exit :: bool

definition block_init :: "bool \<Rightarrow> block" where
  "block_init exit =
     \<lparr>b_children = [], b_parents = [], b_positions = [], b_stats = [], b_gen = [], b_bounded = [],
      i_input = 0, i_output = 0, i_gen = 0, i_kill = 0, is_exit = exit\<rparr>"

definition block_empty :: "block \<Rightarrow> bool" where
  "block_empty b \<longleftrightarrow> \<not> is_exit b \<and> b_stats b = [] \<and> b_positions b = []"

type_synonym heap = "block list"

definition update_block :: "nat \<Rightarrow> (block \<Rightarrow> block) \<Rightarrow> heap \<Rightarrow> heap" where
  "update_block b g h = h[b := g (h ! b)]"

definition add_child :: "nat \<Rightarrow> nat \<Rightarrow> heap \<Rightarrow> heap" where
  "add_child parent child h =
     update_block child (\<lambda>b. b\<lparr>b_parents := List.insert parent (b_parents b)\<rparr>)
       (update_block parent (\<lambda>b. b\<lparr>b_children := List.insert child (b_children b)\<rparr>) h)"

text \<open>\<open>child.parents.remove(self)\<close> and \<open>parent.children.remove(self)\<close>; a block that is its own
  child loses itself as a parent in the first loop.\<close>

definition detach :: "nat \<Rightarrow> heap \<Rightarrow> heap" where
  "detach block h =
     (let h = fold (\<lambda>child. update_block child (\<lambda>b. b\<lparr>b_parents := remove1 block (b_parents b)\<rparr>))
                (b_children (h ! block)) h;
          h = fold (\<lambda>parent. update_block parent (\<lambda>b. b\<lparr>b_children := remove1 block (b_children b)\<rparr>))
                (b_parents (h ! block)) h
      in update_block block (\<lambda>b. b\<lparr>b_parents := [], b_children := []\<rparr>) h)"

subsection \<open>The flow of a function\<close>

text \<open>The blocks where an exception goes and where a \<open>finally\<close> clause starts and ends.\<close>

record exception_descr =
  exc_entry_point :: nat
  finally_enter :: "nat option"
  finally_exit :: "nat option"

record loop_descr =
  next_block :: nat
  loop_block :: nat
  loop_exceptions :: "exception_descr list"

record assignment_list =
  al_bit :: int
  al_mask :: int
  al_stats :: "flow_stat list"

record flow =
  fl_heap :: heap
  fl_blocks :: "nat list"
  fl_entries :: "cf_entry list"
  fl_loops :: "loop_descr list"
  fl_exceptions :: "exception_descr list"
  fl_block :: "nat option"
  in_try_block :: nat
  next_stat :: nat
  fl_assmts :: "(cf_entry, assignment_list) pydict"
  stat_bits :: "(nat, int) pydict"

definition entry_point :: nat where "entry_point = 0"
definition exit_point :: nat where "exit_point = 1"

definition flow_init :: flow where
  "flow_init =
     \<lparr>fl_heap = [block_init False, block_init True], fl_blocks = [exit_point], fl_entries = [],
      fl_loops = [], fl_exceptions = [], fl_block = Some entry_point, in_try_block = 0,
      next_stat = 0, fl_assmts = [], stat_bits = []\<rparr>"

definition flow_add_child :: "nat \<Rightarrow> nat \<Rightarrow> flow \<Rightarrow> flow" where
  "flow_add_child parent child f = f\<lparr>fl_heap := add_child parent child (fl_heap f)\<rparr>"

definition new_block :: "flow \<Rightarrow> nat \<times> flow" where
  "new_block f =
     (length (fl_heap f),
      f\<lparr>fl_heap := fl_heap f @ [block_init False],
        fl_blocks := List.insert (length (fl_heap f)) (fl_blocks f)\<rparr>)"

definition newblock :: "nat option \<Rightarrow> flow \<Rightarrow> nat \<times> flow" where
  "newblock parent f =
     (let (block, f) = new_block f
      in (block, case parent of None \<Rightarrow> f | Some p \<Rightarrow> flow_add_child p block f))"

definition nextblock :: "nat option \<Rightarrow> flow \<Rightarrow> nat \<times> flow" where
  "nextblock parent f =
     (let (block, f) = new_block f;
          f = (case parent of
                 Some p \<Rightarrow> flow_add_child p block f
               | None \<Rightarrow> (case fl_block f of None \<Rightarrow> f | Some p \<Rightarrow> flow_add_child p block f))
      in (block, f\<lparr>fl_block := Some block\<rparr>))"

definition is_tracked :: "cf_entry \<Rightarrow> bool" where
  "is_tracked e \<longleftrightarrow>
     (if is_anonymous e then False
      else is_local e \<or> is_pyclass_attr e \<or> is_arg e \<or> from_closure e \<or> in_closure e
           \<or> error_on_uninitialized e)"

definition is_statically_assigned :: "cf_entry \<Rightarrow> bool" where
  "is_statically_assigned e \<longleftrightarrow>
     is_local e \<and> is_variable e
     \<and> (type_is_struct_or_union e \<or> type_is_complex e \<or> type_is_array e \<or> type_is_cython_lock e
        \<or> (type_is_cpp_class e \<and> \<not> is_cpp_optional e))"

definition flow_mark_position :: "int \<times> int \<Rightarrow> flow \<Rightarrow> flow" where
  "flow_mark_position pos f =
     (case fl_block f of
        None \<Rightarrow> f
      | Some b \<Rightarrow>
          f\<lparr>fl_heap := update_block b (\<lambda>b. b\<lparr>b_positions := List.insert pos (b_positions b)\<rparr>) (fl_heap f)\<rparr>)"

text \<open>What the four \<open>mark_\<close> methods share: a new statement at the end of the current block, its value
  in \<open>gen\<close> unless it is a reference, and the entry among the tracked ones.\<close>

definition mark_stat :: "stat_kind \<Rightarrow> cf_node \<Rightarrow> cf_entry \<Rightarrow> bool \<Rightarrow> flow \<Rightarrow> flow" where
  "mark_stat kind node entry fake f =
     (case fl_block f of
        None \<Rightarrow> f
      | Some b \<Rightarrow>
          if \<not> is_tracked entry then f
          else
            let stat = \<lparr>stat_id = next_stat f, stat_kind = kind, stat_node = node, stat_entry = entry,
                        rhs_fake = fake\<rparr>;
                record_gen = (\<lambda>b.
                  if kind = NameReference then b
                  else b\<lparr>b_gen := dict_set entry (if kind = NameDeletion then None else Some stat) (b_gen b)\<rparr>)
            in f\<lparr>fl_heap := update_block b (\<lambda>b. record_gen (b\<lparr>b_stats := b_stats b @ [stat]\<rparr>)) (fl_heap f),
                 fl_entries := List.insert entry (fl_entries f), next_stat := next_stat f + 1\<rparr>)"

definition flow_mark_assignment :: "cf_node \<Rightarrow> bool \<Rightarrow> cf_entry \<Rightarrow> flow \<Rightarrow> flow" where
  "flow_mark_assignment lhs fake entry f = mark_stat NameAssignment lhs entry fake f"

definition flow_mark_argument :: "cf_node \<Rightarrow> cf_entry \<Rightarrow> flow \<Rightarrow> flow" where
  "flow_mark_argument lhs entry f = mark_stat Argument lhs entry False f"

definition flow_mark_deletion :: "cf_node \<Rightarrow> cf_entry \<Rightarrow> flow \<Rightarrow> flow" where
  "flow_mark_deletion node entry f = mark_stat NameDeletion node entry False f"

definition flow_mark_reference :: "cf_node \<Rightarrow> cf_entry \<Rightarrow> flow \<Rightarrow> flow" where
  "flow_mark_reference node entry f = mark_stat NameReference node entry False f"

subsection \<open>Removing unreachable and empty blocks\<close>

partial_function (option) reach_loop :: "heap \<Rightarrow> nat list \<Rightarrow> nat list \<Rightarrow> nat list option" where
  "reach_loop h queue visited =
     (case queue of
        [] \<Rightarrow> Some visited
      | root # queue \<Rightarrow>
          let visited = List.insert root visited;
              queue = fold (\<lambda>child queue. if child \<notin> set visited then List.insert child queue else queue)
                        (b_children (h ! root)) queue
          in reach_loop h queue visited)"

declare reach_loop.simps [code]

definition reparent :: "nat \<Rightarrow> heap \<Rightarrow> heap" where
  "reparent block h =
     fold (\<lambda>parent h. fold (\<lambda>child h. add_child parent child h) (b_children (h ! block)) h)
       (b_parents (h ! block)) h"

fun remove_empty :: "nat list \<Rightarrow> nat list \<Rightarrow> heap \<Rightarrow> nat list \<times> heap" where
  "remove_empty [] unreachable h = (unreachable, h)"
| "remove_empty (block # blocks) unreachable h =
     (if block_empty (h ! block)
      then remove_empty blocks (List.insert block unreachable) (detach block (reparent block h))
      else remove_empty blocks unreachable h)"

definition normalize :: "flow \<Rightarrow> flow option" where
  "normalize f =
     (case reach_loop (fl_heap f) [entry_point] [] of
        None \<Rightarrow> None
      | Some visited \<Rightarrow>
          let unreachable = filter (\<lambda>b. b \<notin> set visited) (fl_blocks f);
              h = fold detach unreachable (fl_heap f);
              (unreachable, h) = remove_empty (remove1 entry_point visited) unreachable h
          in Some (f\<lparr>fl_heap := h, fl_blocks := filter (\<lambda>b. b \<notin> set unreachable) (fl_blocks f)\<rparr>))"

end
