(* ===== verification/FlowPaths.thy ===== *)
theory FlowPaths
  imports FlowGraph
begin

text \<open>
  Walks in the control flow graph, the effect of each operation on the edges, and the proof that
  \<open>normalize\<close> keeps exactly the reachable blocks with content and what executions do.
\<close>

subsection \<open>Edges of a heap\<close>

type_synonym edges = "(nat \<times> nat) set"

definition edges_of :: "heap \<Rightarrow> edges" where
  "edges_of h = {(p, c). p < length h \<and> c \<in> set (b_children (h ! p))}"

text \<open>Links in both directions agree and stay inside the heap.\<close>

definition linked :: "heap \<Rightarrow> bool" where
  "linked h \<longleftrightarrow>
     (\<forall>b < length h. distinct (b_children (h ! b)) \<and> distinct (b_parents (h ! b))
        \<and> set (b_children (h ! b)) \<subseteq> {..<length h} \<and> set (b_parents (h ! b)) \<subseteq> {..<length h}
        \<and> (\<forall>c < length h. c \<in> set (b_children (h ! b)) \<longleftrightarrow> b \<in> set (b_parents (h ! c))))"

text \<open>Everything but the links.\<close>

definition content :: "block \<Rightarrow> block" where
  "content b = b\<lparr>b_children := [], b_parents := []\<rparr>"

definition same_content :: "heap \<Rightarrow> heap \<Rightarrow> bool" where
  "same_content h h' \<longleftrightarrow> map content h = map content h'"

lemma same_content_refl [simp]: "same_content h h"
  by (simp add: same_content_def)

lemma same_content_trans [trans]: "same_content h h' \<Longrightarrow> same_content h' h'' \<Longrightarrow> same_content h h''"
  by (simp add: same_content_def)

lemma same_content_length: "same_content h h' \<Longrightarrow> length h' = length h"
  unfolding same_content_def by (drule arg_cong [of _ _ length]) simp

lemma same_content_nth: "same_content h h' \<Longrightarrow> b < length h \<Longrightarrow> content (h' ! b) = content (h ! b)"
  using same_content_length [of h h'] unfolding same_content_def by (metis nth_map)

lemma content_fields:
  assumes "content b = content b'"
  shows "b_stats b = b_stats b'" "b_positions b = b_positions b'" "b_gen b = b_gen b'"
    "b_bounded b = b_bounded b'" "is_exit b = is_exit b'" "block_empty b = block_empty b'"
  using assms by (cases b; cases b'; simp add: content_def block_empty_def)+

lemma length_update_block [simp]: "length (update_block b g h) = length h"
  by (simp add: update_block_def)

lemma nth_update_block:
  "i < length h \<Longrightarrow> update_block b g h ! i = (if i = b then g (h ! i) else h ! i)"
  by (simp add: update_block_def nth_list_update)

lemma same_content_update:
  "(\<And>x. content (g x) = content x) \<Longrightarrow> same_content h (update_block b g h)"
  by (metis (no_types, lifting) same_content_def update_block_def list_update_beyond list_update_id
      map_update not_le)

lemma content_links [simp]:
  "content (b\<lparr>b_children := xs\<rparr>) = content b" "content (b\<lparr>b_parents := ys\<rparr>) = content b"
  by (simp_all add: content_def)

lemma fold_update_block:
  "distinct bs \<Longrightarrow> i < length h \<Longrightarrow>
     fold (\<lambda>b. update_block b g) bs h ! i = (if i \<in> set bs then g (h ! i) else h ! i)"
  by (induction bs arbitrary: h) (auto simp: nth_update_block)

lemma length_fold_update_block [simp]: "length (fold (\<lambda>b. update_block b g) bs h) = length h"
  by (induction bs arbitrary: h) simp_all

lemma same_content_fold:
  "(\<And>x h. same_content h (g x h)) \<Longrightarrow> same_content h (fold g xs h)"
  by (induction xs arbitrary: h) (auto intro: same_content_trans)

subsection \<open>Adding an edge\<close>

lemma same_content_add_child [simp]: "same_content h (add_child p c h)"
  unfolding add_child_def by (rule same_content_trans; rule same_content_update; simp)

lemma length_add_child [simp]: "length (add_child p c h) = length h"
  by (simp add: add_child_def)

lemma add_child_links:
  "i < length h \<Longrightarrow> set (b_children (add_child p c h ! i)) =
      (if i = p then insert c (set (b_children (h ! i))) else set (b_children (h ! i)))"
  "i < length h \<Longrightarrow> set (b_parents (add_child p c h ! i)) =
      (if i = c then insert p (set (b_parents (h ! i))) else set (b_parents (h ! i)))"
  by (auto simp: add_child_def nth_update_block)

lemma add_child_distinct:
  "i < length h \<Longrightarrow> distinct (b_children (h ! i)) \<Longrightarrow> distinct (b_children (add_child p c h ! i))"
  "i < length h \<Longrightarrow> distinct (b_parents (h ! i)) \<Longrightarrow> distinct (b_parents (add_child p c h ! i))"
  by (auto simp: add_child_def nth_update_block)

lemma edges_add_child: "p < length h \<Longrightarrow> edges_of (add_child p c h) = insert (p, c) (edges_of h)"
  by (auto simp: edges_of_def add_child_links split: if_splits)

lemma linked_add_child:
  assumes "linked h" "p < length h" "c < length h"
  shows "linked (add_child p c h)"
  using assms unfolding linked_def
  by (auto simp: add_child_links add_child_distinct)

lemma edges_of_mem: "v < length h \<Longrightarrow> (v, c) \<in> edges_of h \<longleftrightarrow> c \<in> set (b_children (h ! v))"
  by (simp add: edges_of_def)

lemma linkedD:
  assumes "linked h"
  shows "(p, c) \<in> edges_of h \<Longrightarrow> p < length h \<and> c < length h"
    and "c < length h \<Longrightarrow> p \<in> set (b_parents (h ! c)) \<longleftrightarrow> (p, c) \<in> edges_of h"
    and "b < length h \<Longrightarrow> distinct (b_children (h ! b)) \<and> distinct (b_parents (h ! b))"
proof -
  show "(p, c) \<in> edges_of h \<Longrightarrow> p < length h \<and> c < length h"
    using assms by (auto simp: edges_of_def linked_def)
  show "c < length h \<Longrightarrow> p \<in> set (b_parents (h ! c)) \<longleftrightarrow> (p, c) \<in> edges_of h"
    using assms unfolding edges_of_def linked_def by blast
  show "b < length h \<Longrightarrow> distinct (b_children (h ! b)) \<and> distinct (b_parents (h ! b))"
    using assms by (auto simp: linked_def)
qed

subsection \<open>Detaching a block\<close>

lemma detach_spec:
  assumes "linked h" "v < length h"
  shows "edges_of (detach v h) = edges_of h - {(p, c). p = v \<or> c = v}"
    and "linked (detach v h)" and "same_content h (detach v h)"
proof -
  define remove_parent remove_child :: "block \<Rightarrow> block" where
    "remove_parent = (\<lambda>b. b\<lparr>b_parents := remove1 v (b_parents b)\<rparr>)" and
    "remove_child = (\<lambda>b. b\<lparr>b_children := remove1 v (b_children b)\<rparr>)"
  define h1 where "h1 = fold (\<lambda>c. update_block c remove_parent) (b_children (h ! v)) h"
  define h2 where "h2 = fold (\<lambda>p. update_block p remove_child) (b_parents (h1 ! v)) h1"
  have detach: "detach v h = update_block v (\<lambda>b. b\<lparr>b_parents := [], b_children := []\<rparr>) h2"
    by (simp add: detach_def h2_def h1_def Let_def remove_parent_def remove_child_def)
  note d = linkedD(3) [OF assms(1)]
  have h1: "h1 ! i = (if i \<in> set (b_children (h ! v)) then remove_parent (h ! i) else h ! i)"
    if "i < length h" for i
    unfolding h1_def using d [OF assms(2)] that by (intro fold_update_block) simp_all
  have len1: "length h1 = length h" by (simp add: h1_def)
  have "distinct (b_parents (h1 ! v))" using d [OF assms(2)] h1 [OF assms(2)] by (simp add: remove_parent_def)
  then have h2: "h2 ! i = (if i \<in> set (b_parents (h1 ! v)) then remove_child (h1 ! i) else h1 ! i)"
    if "i < length h" for i
    unfolding h2_def using that len1 by (intro fold_update_block) simp_all
  have len2: "length h2 = length h" by (simp add: h2_def len1)
  have p1: "set (b_parents (h1 ! v)) = set (b_parents (h ! v)) - {v}"
  proof (cases "v \<in> set (b_children (h ! v))")
    case True
    then show ?thesis using h1 [OF assms(2)] d [OF assms(2)] by (simp add: remove_parent_def)
  next
    case False
    then have "v \<notin> set (b_parents (h ! v))" using assms by (simp add: linked_def)
    then show ?thesis using h1 [OF assms(2)] False by simp
  qed
  have children: "set (b_children (detach v h ! i)) = (if i = v then {} else set (b_children (h ! i)) - {v})"
    if "i < length h" for i
  proof -
    have "i \<in> set (b_parents (h ! v)) \<longleftrightarrow> v \<in> set (b_children (h ! i))"
      using assms that by (simp add: linked_def)
    then show ?thesis
      using that d [OF that] h2 [OF that] h1 [OF that] p1
      by (auto simp: detach nth_update_block len2 remove_child_def remove_parent_def)
  qed
  have parents: "set (b_parents (detach v h ! i)) = (if i = v then {} else set (b_parents (h ! i)) - {v})"
    if "i < length h" for i
  proof -
    have "i \<in> set (b_children (h ! v)) \<longleftrightarrow> v \<in> set (b_parents (h ! i))"
      using assms that by (simp add: linked_def)
    then show ?thesis
      using that d [OF that] h2 [OF that] h1 [OF that]
      by (auto simp: detach nth_update_block len2 remove_child_def remove_parent_def)
  qed
  have dist: "distinct (b_children (detach v h ! i))" "distinct (b_parents (detach v h ! i))"
    if "i < length h" for i
    using that d [OF that] h2 [OF that] h1 [OF that]
    by (auto simp: detach nth_update_block len2 remove_child_def remove_parent_def distinct_remove1)
  have len: "length (detach v h) = length h" by (simp add: detach len2)
  show "edges_of (detach v h) = edges_of h - {(p, c). p = v \<or> c = v}"
    by (auto simp: edges_of_def len children split: if_splits)
  show "linked (detach v h)"
    using assms dist by (auto simp: linked_def len children parents)
  have "same_content h h1" "same_content h1 h2"
    unfolding h1_def h2_def remove_parent_def remove_child_def
    by (rule same_content_fold, rule same_content_update, simp)+
  moreover have "same_content h2 (detach v h)"
    unfolding detach by (rule same_content_update) simp
  ultimately show "same_content h (detach v h)" by (blast intro: same_content_trans)
qed


subsection \<open>Bypassing an empty block\<close>

definition bypass :: "nat \<Rightarrow> edges \<Rightarrow> edges" where
  "bypass v E = {(p, c). p \<noteq> v \<and> c \<noteq> v \<and> ((p, c) \<in> E \<or> (p, v) \<in> E \<and> (v, c) \<in> E)}"

lemma fold_add_children:
  "linked h \<Longrightarrow> p < length h \<Longrightarrow> set cs \<subseteq> {..<length h} \<Longrightarrow>
     edges_of (fold (add_child p) cs h) = edges_of h \<union> {p} \<times> set cs
     \<and> linked (fold (add_child p) cs h) \<and> same_content h (fold (add_child p) cs h)"
proof (induction cs arbitrary: h)
  case (Cons c cs)
  then have "linked (add_child p c h)" by (simp add: linked_add_child)
  from Cons.IH [OF this] Cons.prems show ?case
    by (auto simp: edges_add_child intro: same_content_trans [OF same_content_add_child])
qed simp

lemma fold_reparent:
  assumes "linked h" "v < length h" "set ps \<subseteq> {..<length h}" "C = {c. (v, c) \<in> edges_of h}"
  defines "h' \<equiv> fold (\<lambda>p h. fold (add_child p) (b_children (h ! v)) h) ps h"
  shows "edges_of h' = edges_of h \<union> set ps \<times> C \<and> linked h' \<and> same_content h h'"
  using assms(1-4) unfolding h'_def
proof (induction ps arbitrary: h)
  case (Cons p ps)
  let ?h = "fold (add_child p) (b_children (h ! v)) h"
  have C: "set (b_children (h ! v)) = C" using Cons.prems by (auto simp: edges_of_mem)
  have "C \<subseteq> {..<length h}" using linkedD(1) [OF Cons.prems(1)] by (auto simp: Cons.prems(4))
  then have h: "edges_of ?h = edges_of h \<union> {p} \<times> C" "linked ?h" "same_content h ?h"
    using fold_add_children [OF Cons.prems(1), of p "b_children (h ! v)"] Cons.prems(3) by (simp_all add: C)
  have "C = {c. (v, c) \<in> edges_of ?h}" using Cons.prems(4) by (auto simp: h(1))
  from Cons.IH [OF h(2) _ _ this] h Cons.prems(2,3) same_content_length [OF h(3)] show ?case
    by (auto intro: same_content_trans)
qed simp

lemma bypass_spec:
  assumes "linked h" "v < length h"
  defines "h' \<equiv> detach v (reparent v h)"
  shows "edges_of h' = bypass v (edges_of h)" and "linked h'" and "same_content h h'"
proof -
  let ?C = "{c. (v, c) \<in> edges_of h}"
  have P: "set (b_parents (h ! v)) = {p. (p, v) \<in> edges_of h}"
    using linkedD(2) [OF assms(1,2)] by auto
  have "set (b_parents (h ! v)) \<subseteq> {..<length h}" using linkedD(1) [OF assms(1)] by (auto simp: P)
  from fold_reparent [OF assms(1,2) this refl]
  have r: "edges_of (reparent v h) = edges_of h \<union> {p. (p, v) \<in> edges_of h} \<times> ?C"
    "linked (reparent v h)" "same_content h (reparent v h)"
    by (simp_all add: reparent_def P)
  have v: "v < length (reparent v h)" using same_content_length [OF r(3)] assms(2) by simp
  show "edges_of h' = bypass v (edges_of h)"
    unfolding h'_def detach_spec(1) [OF r(2) v] r(1) bypass_def by auto
  show "linked h'" unfolding h'_def by (rule detach_spec(2) [OF r(2) v])
  show "same_content h h'"
    unfolding h'_def by (rule same_content_trans [OF r(3) detach_spec(3) [OF r(2) v]])
qed

subsection \<open>Walks\<close>

text \<open>\<open>walk E u xs w\<close>: \<open>xs\<close> are the blocks before \<open>w\<close> on a walk that starts at \<open>u\<close>.\<close>

inductive walk :: "edges \<Rightarrow> nat \<Rightarrow> nat list \<Rightarrow> nat \<Rightarrow> bool" for E u where
  walk_start: "walk E u [] u"
| walk_step: "walk E u xs v \<Longrightarrow> (v, w) \<in> E \<Longrightarrow> walk E u (xs @ [v]) w"

lemma walk_bypass_to:
  assumes "u \<noteq> v"
  shows "walk E u xs w \<Longrightarrow>
    (if w = v then \<exists>p ys. p \<noteq> v \<and> (p, v) \<in> E \<and> filter (\<lambda>b. b \<noteq> v) xs = ys @ [p] \<and> walk (bypass v E) u ys p
     else walk (bypass v E) u (filter (\<lambda>b. b \<noteq> v) xs) w)"
proof (induction rule: walk.induct)
  case (walk_step xs y w)
  show ?case
  proof (cases "y = v")
    case True
    then obtain p ys where p: "p \<noteq> v" "(p, v) \<in> E" "filter (\<lambda>b. b \<noteq> v) xs = ys @ [p]"
      "walk (bypass v E) u ys p" using walk_step.IH by auto
    show ?thesis
    proof (cases "w = v")
      case False
      then have "(p, w) \<in> bypass v E" using p walk_step.hyps(2) True by (simp add: bypass_def)
      from walk.walk_step [OF p(4) this] show ?thesis using False True p(3) by simp
    qed (use True p in auto)
  next
    case False
    show ?thesis
    proof (cases "w = v")
      case True
      then show ?thesis using False walk_step by auto
    next
      case w: False
      then have "(y, w) \<in> bypass v E" using False walk_step.hyps(2) by (simp add: bypass_def)
      then show ?thesis using walk.walk_step [of _ u _ y] walk_step.IH False w by simp
    qed
  qed
qed (use assms in \<open>auto intro: walk.walk_start\<close>)

lemma walk_bypass_from:
  "walk (bypass v E) u xs w \<Longrightarrow> u \<noteq> v \<Longrightarrow>
     w \<noteq> v \<and> (\<exists>ys. walk E u ys w \<and> filter (\<lambda>b. b \<noteq> v) ys = xs)"
proof (induction rule: walk.induct)
  case (walk_step xs y w)
  then obtain ys where ys: "walk E u ys y" "filter (\<lambda>b. b \<noteq> v) ys = xs" by auto
  have y: "y \<noteq> v" "w \<noteq> v" using walk_step by (auto simp: bypass_def)
  from walk_step.hyps(2) consider "(y, w) \<in> E" | "(y, v) \<in> E" "(v, w) \<in> E"
    by (auto simp: bypass_def)
  then show ?case
  proof cases
    case 1
    from walk.walk_step [OF ys(1) this] y ys(2) show ?thesis by fastforce
  next
    case 2
    from walk.walk_step [OF walk.walk_step [OF ys(1) 2(1)] 2(2)] y ys(2) show ?thesis
      by (intro conjI exI [of _ "(ys @ [y]) @ [v]"]) simp_all
  qed
qed (auto intro: walk.walk_start)

text \<open>The statements that executions run before they enter a block.\<close>

definition trace_of :: "heap \<Rightarrow> nat list \<Rightarrow> flow_stat list" where
  "trace_of h xs = concat (map (\<lambda>b. b_stats (h ! b)) xs)"

definition runs_to :: "heap \<Rightarrow> nat \<Rightarrow> flow_stat list set" where
  "runs_to h w = {trace_of h xs | xs. walk (edges_of h) entry_point xs w}"

lemma trace_of_simps [simp]:
  "trace_of h [] = []" "trace_of h (b # bs) = b_stats (h ! b) @ trace_of h bs"
  "trace_of h (bs @ cs) = trace_of h bs @ trace_of h cs"
  by (simp_all add: trace_of_def)

lemma trace_of_filter: "b_stats (h ! v) = [] \<Longrightarrow> trace_of h (filter (\<lambda>b. b \<noteq> v) xs) = trace_of h xs"
  by (induction xs) auto

lemma walk_in: "walk E u xs w \<Longrightarrow> u \<in> A \<Longrightarrow> E \<subseteq> A \<times> A \<Longrightarrow> set xs \<subseteq> A \<and> w \<in> A"
  by (induction rule: walk.induct) auto

lemma edges_bounds: "linked h \<Longrightarrow> edges_of h \<subseteq> {..<length h} \<times> {..<length h}"
  using linkedD(1) [of h] by auto

lemma trace_of_same:
  "same_content h h' \<Longrightarrow> set xs \<subseteq> {..<length h} \<Longrightarrow> trace_of h' xs = trace_of h xs"
  by (induction xs) (auto dest: same_content_nth content_fields(1))

lemma runs_to_bypass:
  assumes "linked h" "v < length h" "b_stats (h ! v) = []" "entry_point < length h"
    and "v \<noteq> entry_point" "w \<noteq> v"
  shows "runs_to (detach v (reparent v h)) w = runs_to h w"
proof -
  let ?h = "detach v (reparent v h)"
  note b = bypass_spec [OF assms(1,2)]
  have bounds: "set xs \<subseteq> {..<length h}" if "walk (edges_of h) entry_point xs w" for xs
    using walk_in [OF that _ edges_bounds [OF assms(1)]] assms(4) by simp
  have in_h: "trace_of ?h xs = trace_of h xs" if "set xs \<subseteq> {..<length h}" for xs
    using trace_of_same [OF b(3) that] .
  show ?thesis
  proof (intro equalityI subsetI)
    fix t assume "t \<in> runs_to ?h w"
    then obtain xs where xs: "t = trace_of ?h xs" "walk (bypass v (edges_of h)) entry_point xs w"
      by (auto simp: runs_to_def b(1))
    then obtain ys where ys: "walk (edges_of h) entry_point ys w" "filter (\<lambda>b. b \<noteq> v) ys = xs"
      using walk_bypass_from [OF xs(2)] assms(5) by blast
    then have "t = trace_of h ys"
      using xs(1) in_h [of xs] bounds [OF ys(1)] trace_of_filter [OF assms(3), of ys] by fastforce
    then show "t \<in> runs_to h w" using ys(1) by (auto simp: runs_to_def)
  next
    fix t assume "t \<in> runs_to h w"
    then obtain xs where xs: "t = trace_of h xs" "walk (edges_of h) entry_point xs w"
      by (auto simp: runs_to_def)
    have "walk (edges_of ?h) entry_point (filter (\<lambda>b. b \<noteq> v) xs) w"
      using walk_bypass_to [OF _ xs(2), of v] assms(5,6) by (simp add: b(1))
    moreover have "trace_of ?h (filter (\<lambda>b. b \<noteq> v) xs) = t"
      using in_h [of "filter (\<lambda>b. b \<noteq> v) xs"] bounds [OF xs(2)] trace_of_filter [OF assms(3), of xs] xs(1)
      by auto
    ultimately show "t \<in> runs_to ?h w" by (auto simp: runs_to_def)
  qed
qed


subsection \<open>The reachable blocks\<close>

definition reachable :: "heap \<Rightarrow> nat set" where
  "reachable h = {b. (entry_point, b) \<in> (edges_of h)\<^sup>*}"

lemma walk_iff_reachable: "(\<exists>xs. walk E u xs w) \<longleftrightarrow> (u, w) \<in> E\<^sup>*"
proof
  show "\<exists>xs. walk E u xs w \<Longrightarrow> (u, w) \<in> E\<^sup>*"
  proof (elim exE)
    fix xs show "walk E u xs w \<Longrightarrow> (u, w) \<in> E\<^sup>*" by (induction rule: walk.induct) auto
  qed
  show "(u, w) \<in> E\<^sup>* \<Longrightarrow> \<exists>xs. walk E u xs w"
    by (induction rule: rtrancl_induct) (auto intro: walk.intros)
qed

lemma reachable_runs: "b \<in> reachable h \<longleftrightarrow> runs_to h b \<noteq> {}"
  using walk_iff_reachable [of "edges_of h" entry_point b] by (auto simp: reachable_def runs_to_def)

lemma queue_children:
  "set (fold (\<lambda>c q. if c \<notin> V then List.insert c q else q) cs q) = set q \<union> (set cs - V)"
  by (induction cs arbitrary: q) auto

lemma queue_distinct:
  "distinct q \<Longrightarrow> distinct (fold (\<lambda>c q. if c \<notin> V then List.insert c q else q) cs q)"
  by (induction cs arbitrary: q) auto

text \<open>What the loop keeps: everything seen is reachable, and the children of a visited block are
  seen.\<close>

definition reach_inv :: "heap \<Rightarrow> nat list \<Rightarrow> nat list \<Rightarrow> bool" where
  "reach_inv h queue visited \<longleftrightarrow>
     distinct queue \<and> distinct visited \<and> set queue \<inter> set visited = {}
     \<and> entry_point \<in> set queue \<union> set visited \<and> set queue \<union> set visited \<subseteq> reachable h
     \<and> (\<forall>v \<in> set visited. \<forall>c. (v, c) \<in> edges_of h \<longrightarrow> c \<in> set queue \<union> set visited)"

lemma reachable_bound:
  assumes "linked h" "entry_point < length h" "b \<in> reachable h"
  shows "b < length h"
proof -
  obtain xs where "walk (edges_of h) entry_point xs b"
    using assms(3) walk_iff_reachable [of "edges_of h" entry_point b] by (auto simp: reachable_def)
  from walk_in [OF this _ edges_bounds [OF assms(1)]] assms(2) show ?thesis by simp
qed

lemma reach_loop_spec:
  assumes "linked h" "entry_point < length h"
  shows "reach_inv h queue visited \<Longrightarrow>
    \<exists>r. reach_loop h queue visited = Some r \<and> distinct r \<and> set r = reachable h"
proof (induction "card ({..<length h} - set visited)" arbitrary: queue visited rule: less_induct)
  case less
  show ?case
  proof (cases queue)
    case Nil
    have "b \<in> set visited" if "(entry_point, b) \<in> (edges_of h)\<^sup>*" for b
      using that by (induction rule: rtrancl_induct) (use less.prems Nil in \<open>auto simp: reach_inv_def\<close>)
    then show ?thesis
      using less.prems Nil by (subst reach_loop.simps) (auto simp: reach_inv_def reachable_def)
  next
    case (Cons root rest)
    let ?v = "List.insert root visited"
    let ?q = "fold (\<lambda>c q. if c \<notin> set ?v then List.insert c q else q) (b_children (h ! root)) rest"
    have root: "root \<in> reachable h" "root \<notin> set visited"
      using less.prems by (auto simp: reach_inv_def Cons)
    have len: "root < length h" by (rule reachable_bound [OF assms root(1)])
    have q: "set ?q = set rest \<union> ({c. (root, c) \<in> edges_of h} - set ?v)"
      unfolding queue_children using edges_of_mem [OF len] by auto
    have old: "distinct (root # rest)" "distinct visited" "set (root # rest) \<inter> set visited = {}"
      "entry_point \<in> set (root # rest) \<union> set visited" "set rest \<union> set visited \<subseteq> reachable h"
      "\<And>v c. v \<in> set visited \<Longrightarrow> (v, c) \<in> edges_of h \<Longrightarrow> c \<in> set (root # rest) \<union> set visited"
      using less.prems unfolding reach_inv_def Cons by simp_all
    have "{c. (root, c) \<in> edges_of h} \<subseteq> reachable h"
      using root(1) by (auto simp: reachable_def intro: rtrancl_into_rtrancl)
    then have inv: "reach_inv h ?q ?v"
      unfolding reach_inv_def q
    proof (intro conjI ballI allI impI)
      show "distinct ?q" using old(1) by (intro queue_distinct) simp
      show "distinct ?v" using old(2) by simp
    qed (use root(1) old(1,3-6) in auto)
    have "{..<length h} - set ?v \<subset> {..<length h} - set visited" using root(2) len by auto
    then have "card ({..<length h} - set ?v) < card ({..<length h} - set visited)"
      by (intro psubset_card_mono) simp_all
    from less.hyps [OF this inv] show ?thesis
      by (subst reach_loop.simps) (simp add: Cons Let_def)
  qed
qed


subsection \<open>Normalisation\<close>

lemma walk_mono: "walk E u xs w \<Longrightarrow> E \<subseteq> E' \<Longrightarrow> walk E' u xs w"
  by (induction rule: walk.induct) (auto intro: walk.intros)

lemma walk_avoids:
  "walk E u xs w \<Longrightarrow> (\<And>b. (u, b) \<in> E\<^sup>* \<Longrightarrow> b \<notin> U) \<Longrightarrow> walk (E - {(p, c). p \<in> U \<or> c \<in> U}) u xs w"
proof (induction rule: walk.induct)
  case (walk_step xs v w)
  have v: "(u, v) \<in> E\<^sup>*" using walk_step.hyps(1) walk_iff_reachable [of E u v] by blast
  then have "(u, w) \<in> E\<^sup>*" using walk_step.hyps(2) by simp
  with v walk_step show ?case by (intro walk.walk_step) auto
qed (rule walk.walk_start)

lemma fold_detach:
  assumes "linked h" "set us \<subseteq> {..<length h}"
  shows "edges_of (fold detach us h) = edges_of h - {(p, c). p \<in> set us \<or> c \<in> set us}
    \<and> linked (fold detach us h) \<and> same_content h (fold detach us h)"
  using assms
proof (induction us arbitrary: h)
  case (Cons u us)
  then have u: "u < length h" by simp
  note d = detach_spec [OF Cons.prems(1) u]
  from Cons.IH [OF d(2)] Cons.prems(2) same_content_length [OF d(3)] show ?case
    by (auto simp: d(1) intro: same_content_trans [OF d(3)])
qed simp

lemma detach_unreachable:
  assumes "linked h" "entry_point < length h" "set us \<subseteq> {..<length h}" "set us \<inter> reachable h = {}"
  shows "runs_to (fold detach us h) w = runs_to h w"
proof -
  let ?h = "fold detach us h"
  note f = fold_detach [OF assms(1,3)]
  have "walk (edges_of ?h) entry_point xs w \<longleftrightarrow> walk (edges_of h) entry_point xs w" for xs
    using walk_avoids [of "edges_of h" entry_point xs w "set us"] walk_mono [of "edges_of ?h" entry_point xs w "edges_of h"]
      f assms(4) by (auto simp: reachable_def)
  moreover have "trace_of ?h xs = trace_of h xs" if "walk (edges_of h) entry_point xs w" for xs
    using walk_in [OF that _ edges_bounds [OF assms(1)]] assms(2) trace_of_same f by blast
  ultimately have "t \<in> runs_to ?h w \<longleftrightarrow> t \<in> runs_to h w" for t
    unfolding runs_to_def mem_Collect_eq by metis
  then show ?thesis by blast
qed

definition empties :: "heap \<Rightarrow> nat list \<Rightarrow> nat set" where
  "empties h bs = {b \<in> set bs. block_empty (h ! b)}"

lemma empties_Cons:
  "empties h (b # bs) = (if block_empty (h ! b) then insert b (empties h bs) else empties h bs)"
  by (auto simp: empties_def)

lemma empties_same:
  assumes "same_content h h'" "set bs \<subseteq> {..<length h}"
  shows "empties h' bs = empties h bs"
  using content_fields(6) [OF same_content_nth [OF assms(1)]] assms(2) unfolding empties_def by blast

lemma remove_empty_spec:
  "linked h \<Longrightarrow> entry_point < length h \<Longrightarrow> set bs \<subseteq> {..<length h} \<Longrightarrow> entry_point \<notin> set bs
   \<Longrightarrow> edges_of h \<subseteq> A \<times> A \<Longrightarrow>
   \<exists>us' h'. remove_empty bs us h = (us', h') \<and> set us' = set us \<union> empties h bs
    \<and> linked h' \<and> same_content h h'
    \<and> edges_of h' \<subseteq> (A - empties h bs) \<times> (A - empties h bs) \<and> Range (edges_of h') \<subseteq> Range (edges_of h)
    \<and> (\<forall>w. w \<notin> empties h bs \<longrightarrow> runs_to h' w = runs_to h w)"
proof (induction bs arbitrary: us h A)
  case Nil
  then show ?case by (simp add: empties_def)
next
  case (Cons b bs)
  show ?case
  proof (cases "block_empty (h ! b)")
    case False
    then show ?thesis
      using Cons.IH [of h A us] Cons.prems by (simp add: empties_Cons)
  next
    case True
    let ?h = "detach b (reparent b h)"
    have b: "b < length h" "b \<noteq> entry_point" "set bs \<subseteq> {..<length h}" using Cons.prems(3,4) by auto
    note s = bypass_spec [OF Cons.prems(1) b(1)]
    have len: "length ?h = length h" by (rule same_content_length [OF s(3)])
    have edges: "edges_of ?h \<subseteq> (A - {b}) \<times> (A - {b})"
      using Cons.prems(5) by (auto simp: s(1) bypass_def)
    have "b_stats (h ! b) = []" using True by (simp add: block_empty_def)
    then have runs: "runs_to ?h w = runs_to h w" if "w \<noteq> b" for w
      using runs_to_bypass [OF Cons.prems(1) b(1) _ Cons.prems(2)] b(2) that by blast
    have "set bs \<subseteq> {..<length ?h}" "entry_point < length ?h" "entry_point \<notin> set bs"
      using Cons.prems(2-4) by (auto simp: len)
    from Cons.IH [OF s(2) this(2,1,3) edges, of "List.insert b us"] obtain us' h' where
      r: "remove_empty bs (List.insert b us) ?h = (us', h')"
      "set us' = set (List.insert b us) \<union> empties h bs" "linked h'" "same_content ?h h'"
      "edges_of h' \<subseteq> (A - {b} - empties h bs) \<times> (A - {b} - empties h bs)"
      "Range (edges_of h') \<subseteq> Range (edges_of ?h)"
      "\<And>w. w \<notin> empties h bs \<Longrightarrow> runs_to h' w = runs_to ?h w"
      unfolding empties_same [OF s(3) b(3)] by blast
    have e: "empties h (b # bs) = insert b (empties h bs)" using True by (simp add: empties_Cons)
    have "same_content h h'" by (rule same_content_trans [OF s(3) r(4)])
    moreover have "edges_of h' \<subseteq> (A - empties h (b # bs)) \<times> (A - empties h (b # bs))"
      using r(5) by (auto simp: e)
    moreover have "runs_to h' w = runs_to h w" if "w \<notin> empties h (b # bs)" for w
      using r(7) [of w] runs [of w] that unfolding e by blast
    moreover have "Range (edges_of h') \<subseteq> Range (edges_of h)"
      using r(6) by (auto simp: s(1) bypass_def)
    moreover have "set us' = set us \<union> empties h (b # bs)" using r(2) by (auto simp: e)
    moreover have "remove_empty (b # bs) us h = (us', h')" using True r(1) by simp
    ultimately show ?thesis using r(3) by blast
  qed
qed

text \<open>The shape of a graph: consistent links, and every block but the entry point in \<open>blocks\<close>.\<close>

definition flow_ok :: "flow \<Rightarrow> bool" where
  "flow_ok f \<longleftrightarrow>
     linked (fl_heap f) \<and> exit_point < length (fl_heap f) \<and> distinct (fl_blocks f)
     \<and> set (fl_blocks f) = {0<..<length (fl_heap f)}"

lemma normalize_run:
  assumes "flow_ok f"
  obtains f' where "normalize f = Some f'" "linked (fl_heap f')" "same_content (fl_heap f) (fl_heap f')"
    "fl_blocks f' = filter (\<lambda>b. b \<in> reachable (fl_heap f) \<and> \<not> block_empty (fl_heap f ! b)) (fl_blocks f)"
    "f' = f\<lparr>fl_heap := fl_heap f', fl_blocks := fl_blocks f'\<rparr>"
    "edges_of (fl_heap f') \<subseteq> insert entry_point (set (fl_blocks f')) \<times> insert entry_point (set (fl_blocks f'))"
    "Range (edges_of (fl_heap f')) \<subseteq> Range (edges_of (fl_heap f))"
    "\<And>b. b = entry_point \<or> b \<in> set (fl_blocks f') \<Longrightarrow> runs_to (fl_heap f') b = runs_to (fl_heap f) b"
proof -
  let ?h = "fl_heap f"
  have ok: "linked ?h" "entry_point < length ?h" "set (fl_blocks f) = {0<..<length ?h}"
    using assms by (auto simp: flow_ok_def entry_point_def)
  have "reach_inv ?h [entry_point] []" by (simp add: reach_inv_def reachable_def)
  then obtain vs where vs: "reach_loop ?h [entry_point] [] = Some vs" "distinct vs" "set vs = reachable ?h"
    using reach_loop_spec [OF ok(1,2)] by blast
  define us where "us = filter (\<lambda>b. b \<notin> set vs) (fl_blocks f)"
  define h1 where "h1 = fold detach us ?h"
  have us: "set us \<subseteq> {..<length ?h}" "set us \<inter> reachable ?h = {}" "set us = set (fl_blocks f) - reachable ?h"
    using ok(3) vs(3) by (auto simp: us_def)
  note d = fold_detach [OF ok(1) us(1), folded h1_def]
  have runs1: "runs_to h1 w = runs_to ?h w" for w unfolding h1_def by (rule detach_unreachable [OF ok(1,2) us(1,2)])
  have len1: "length h1 = length ?h" using d same_content_length by blast
  have bound: "reachable ?h \<subseteq> {..<length ?h}" using reachable_bound [OF ok(1,2)] by auto
  have "edges_of h1 \<subseteq> reachable ?h \<times> reachable ?h"
  proof -
    have "v \<in> reachable ?h" if "v < length ?h" "v \<notin> set us" for v
      using that ok(3) by (cases "v = 0") (auto simp: us(3) reachable_def entry_point_def)
    then show ?thesis using edges_bounds [OF ok(1)] d by blast
  qed
  moreover define gone where "gone = empties h1 (remove1 entry_point vs)"
  moreover have "linked h1" "entry_point < length h1" "set (remove1 entry_point vs) \<subseteq> {..<length h1}"
    "entry_point \<notin> set (remove1 entry_point vs)"
    using d ok(2) bound vs(2,3) by (simp_all add: len1 set_remove1_eq subset_iff)
  ultimately obtain us' h' where r: "remove_empty (remove1 entry_point vs) us h1 = (us', h')" "linked h'"
    "same_content h1 h'" "set us' = set us \<union> gone"
    "edges_of h' \<subseteq> (reachable ?h - gone) \<times> (reachable ?h - gone)"
    "\<And>w. w \<notin> gone \<Longrightarrow> runs_to h' w = runs_to h1 w" "Range (edges_of h') \<subseteq> Range (edges_of h1)"
    using remove_empty_spec [of h1 "remove1 entry_point vs" "reachable ?h" us] unfolding gone_def by blast
  let ?bs = "filter (\<lambda>b. b \<notin> set us') (fl_blocks f)"
  have gone: "gone = {b \<in> reachable ?h. b \<noteq> entry_point \<and> block_empty (?h ! b)}"
    using empties_same [of ?h h1 "remove1 entry_point vs"] d bound vs(2,3)
    by (auto simp: gone_def empties_def set_remove1_eq)
  have bs: "?bs = filter (\<lambda>b. b \<in> reachable ?h \<and> \<not> block_empty (?h ! b)) (fl_blocks f)"
    using ok(3) by (intro filter_cong refl) (auto simp: r(4) gone us(3) entry_point_def)
  have kept: "reachable ?h - {b \<in> reachable ?h. b \<noteq> entry_point \<and> block_empty (?h ! b)}
      \<subseteq> insert entry_point (set ?bs)"
    using bound ok(3) by (auto simp: bs entry_point_def)
  have run: "normalize f = Some (f\<lparr>fl_heap := h', fl_blocks := ?bs\<rparr>)"
    using r(1) by (simp add: normalize_def vs(1) us_def h1_def)
  show thesis
  proof (rule that [OF run])
    show "edges_of (fl_heap (f\<lparr>fl_heap := h', fl_blocks := ?bs\<rparr>))
      \<subseteq> insert entry_point (set (fl_blocks (f\<lparr>fl_heap := h', fl_blocks := ?bs\<rparr>)))
        \<times> insert entry_point (set (fl_blocks (f\<lparr>fl_heap := h', fl_blocks := ?bs\<rparr>)))"
      using r(5) kept unfolding gone by auto
    show "Range (edges_of (fl_heap (f\<lparr>fl_heap := h', fl_blocks := ?bs\<rparr>))) \<subseteq> Range (edges_of ?h)"
      using r(7) d by auto
    show "same_content ?h (fl_heap (f\<lparr>fl_heap := h', fl_blocks := ?bs\<rparr>))"
      using same_content_trans [of ?h h1 h'] d r(3) by simp
    show "runs_to (fl_heap (f\<lparr>fl_heap := h', fl_blocks := ?bs\<rparr>)) b = runs_to ?h b"
      if "b = entry_point \<or> b \<in> set (fl_blocks (f\<lparr>fl_heap := h', fl_blocks := ?bs\<rparr>))" for b
      using that r(6) [of b] runs1 unfolding gone by (auto simp: bs)
  qed (simp_all add: r(2) bs)
qed

end
