(* ===== verification/FlowReach.thy ===== *)
theory FlowReach
  imports FlowPaths
begin

text \<open>
  Reaching definitions in \<open>Cython/Compiler/FlowControl.py\<close>: \<open>initialize\<close> gives every tracked entry
  and every assignment a bit, \<open>reaching_definitions\<close> iterates over the blocks until nothing
  changes, and \<open>map_one\<close> reads the bits of an entry.
\<close>

unbundle bit_operations_syntax

subsection \<open>Initial states\<close>

fun init_entries ::
  "cf_entry list \<Rightarrow> int \<Rightarrow> (cf_entry, assignment_list) pydict \<Rightarrow> int \<times> (cf_entry, assignment_list) pydict" where
  "init_entries [] next_bit assmts = (next_bit, assmts)"
| "init_entries (entry # entries) next_bit assmts =
     init_entries entries (push_bit 1 next_bit)
       (dict_set entry \<lparr>al_bit = next_bit, al_mask = next_bit, al_stats = []\<rparr> assmts)"

text \<open>The loop over the statements of all blocks; a missing entry is a \<open>KeyError\<close>.\<close>

fun init_stats ::
  "flow_stat list \<Rightarrow> int \<Rightarrow> (cf_entry, assignment_list) pydict \<Rightarrow> (nat, int) pydict
   \<Rightarrow> ((cf_entry, assignment_list) pydict \<times> (nat, int) pydict) option" where
  "init_stats [] next_bit assmts bits = Some (assmts, bits)"
| "init_stats (stat # stats) next_bit assmts bits =
     (if is_assignment stat then
        (case dict_get assmts (stat_entry stat) of
           None \<Rightarrow> None
         | Some a \<Rightarrow>
             init_stats stats (push_bit 1 next_bit)
               (dict_set (stat_entry stat)
                  (a\<lparr>al_stats := al_stats a @ [stat], al_mask := al_mask a OR next_bit\<rparr>) assmts)
               (dict_set (stat_id stat) next_bit bits))
      else init_stats stats next_bit assmts bits)"

fun gen_kill ::
  "(cf_entry, assignment_list) pydict \<Rightarrow> (nat, int) pydict \<Rightarrow> (cf_entry, flow_stat option) pydict
   \<Rightarrow> int \<times> int \<Rightarrow> (int \<times> int) option" where
  "gen_kill assmts bits [] gk = Some gk"
| "gen_kill assmts bits ((entry, stat) # items) (g, k) =
     (case dict_get assmts entry of
        None \<Rightarrow> None
      | Some a \<Rightarrow>
          (case stat of
             None \<Rightarrow> gen_kill assmts bits items (g OR al_bit a, k OR al_mask a)
           | Some s \<Rightarrow>
               (case dict_get bits (stat_id s) of
                  None \<Rightarrow> None
                | Some b \<Rightarrow> gen_kill assmts bits items (g OR b, k OR al_mask a))))"

fun kill_bounded :: "(cf_entry, assignment_list) pydict \<Rightarrow> cf_entry list \<Rightarrow> int \<Rightarrow> int option" where
  "kill_bounded assmts [] k = Some k"
| "kill_bounded assmts (entry # entries) k =
     (case dict_get assmts entry of
        None \<Rightarrow> None
      | Some a \<Rightarrow> kill_bounded assmts entries (k OR al_bit a))"

definition init_block ::
  "(cf_entry, assignment_list) pydict \<Rightarrow> (nat, int) pydict \<Rightarrow> block \<Rightarrow> block option" where
  "init_block assmts bits b =
     (case gen_kill assmts bits (b_gen b) (i_gen b, i_kill b) of
        None \<Rightarrow> None
      | Some (g, k) \<Rightarrow>
          (case kill_bounded assmts (b_bounded b) k of
             None \<Rightarrow> None
           | Some k \<Rightarrow> Some (b\<lparr>i_gen := g, i_kill := k, i_output := g\<rparr>)))"

fun init_blocks ::
  "(cf_entry, assignment_list) pydict \<Rightarrow> (nat, int) pydict \<Rightarrow> nat list \<Rightarrow> heap \<Rightarrow> heap option" where
  "init_blocks assmts bits [] h = Some h"
| "init_blocks assmts bits (b # bs) h =
     (case init_block assmts bits (h ! b) of
        None \<Rightarrow> None
      | Some block \<Rightarrow> init_blocks assmts bits bs (h[b := block]))"

definition init_entry_point :: "(cf_entry, assignment_list) pydict \<Rightarrow> block \<Rightarrow> block" where
  "init_entry_point assmts b =
     (let g = foldl (\<lambda>g (entry, a). g OR al_bit a) (i_gen b) assmts in b\<lparr>i_gen := g, i_output := g\<rparr>)"

definition initialize :: "flow \<Rightarrow> flow option" where
  "initialize f =
     (case init_entries (fl_entries f) 1 [] of (next_bit, assmts) \<Rightarrow>
        (case init_stats (concat (map (\<lambda>b. b_stats (fl_heap f ! b)) (fl_blocks f))) next_bit assmts [] of
           None \<Rightarrow> None
         | Some (assmts, bits) \<Rightarrow>
             (case init_blocks assmts bits (fl_blocks f) (fl_heap f) of
                None \<Rightarrow> None
              | Some h \<Rightarrow>
                  Some (f\<lparr>fl_heap := update_block entry_point (init_entry_point assmts) h,
                          fl_assmts := assmts, stat_bits := bits\<rparr>))))"

subsection \<open>The fixed point\<close>

definition block_input :: "heap \<Rightarrow> nat \<Rightarrow> int" where
  "block_input h b = foldl (\<lambda>i parent. i OR i_output (h ! parent)) 0 (b_parents (h ! b))"

fun reaching_pass :: "nat list \<Rightarrow> bool \<Rightarrow> heap \<Rightarrow> bool \<times> heap" where
  "reaching_pass [] dirty h = (dirty, h)"
| "reaching_pass (b # bs) dirty h =
     (let inp = block_input h b;
          out = (inp AND NOT (i_kill (h ! b))) OR i_gen (h ! b);
          dirty = (dirty \<or> out \<noteq> i_output (h ! b))
      in reaching_pass bs dirty (h[b := (h ! b)\<lparr>i_input := inp, i_output := out\<rparr>]))"

partial_function (option) reaching_loop :: "nat list \<Rightarrow> heap \<Rightarrow> heap option" where
  "reaching_loop bs h =
     (case reaching_pass bs False h of (dirty, h) \<Rightarrow>
        if dirty then reaching_loop bs h else Some h)"

declare reaching_loop.simps [code]

definition reaching_definitions :: "flow \<Rightarrow> flow option" where
  "reaching_definitions f =
     (case reaching_loop (fl_blocks f) (fl_heap f) of
        None \<Rightarrow> None
      | Some h \<Rightarrow> Some (f\<lparr>fl_heap := h\<rparr>))"

text \<open>An element of the set that \<open>map_one\<close> returns.\<close>

datatype cf_state =
    StaticAssignment cf_entry
  | Unknown
  | Uninitialized
  | Assigned flow_stat

definition map_one :: "flow \<Rightarrow> int \<Rightarrow> cf_entry \<Rightarrow> cf_state list option" where
  "map_one f istate entry =
     (case dict_get (fl_assmts f) entry of
        None \<Rightarrow> None
      | Some a \<Rightarrow>
          Some ((if istate AND al_bit a \<noteq> 0
                 then [if is_statically_assigned entry then StaticAssignment entry
                       else if from_closure entry then Unknown else Uninitialized]
                 else [])
                @ map Assigned
                    (filter (\<lambda>s. istate AND (case dict_get (stat_bits f) (stat_id s) of None \<Rightarrow> 0 | Some b \<Rightarrow> b) \<noteq> 0)
                       (al_stats a))))"

subsection \<open>The last assignment of a run\<close>

definition gen_of :: "cf_entry \<Rightarrow> flow_stat list \<Rightarrow> flow_stat option option" where
  "gen_of e ss =
     foldl (\<lambda>d s. if is_assignment s \<and> stat_entry s = e
                   then Some (if is_deletion s then None else Some s) else d) None ss"

text \<open>The value of an entry after a run: the assignment that set it, or \<open>None\<close> when it has no
  value.\<close>

definition value_after :: "cf_entry \<Rightarrow> flow_stat list \<Rightarrow> flow_stat option" where
  "value_after e ss = (case gen_of e ss of None \<Rightarrow> None | Some d \<Rightarrow> d)"

lemma gen_of_Nil [simp]: "gen_of e [] = None"
  by (simp add: gen_of_def)

lemma gen_of_snoc [simp]:
  "gen_of e (ss @ [s]) =
     (if is_assignment s \<and> stat_entry s = e then Some (if is_deletion s then None else Some s)
      else gen_of e ss)"
  by (simp add: gen_of_def)

lemma gen_of_append:
  "gen_of e (xs @ ys) = (case gen_of e ys of None \<Rightarrow> gen_of e xs | Some d \<Rightarrow> Some d)"
  by (induction ys rule: rev_induct) (simp_all flip: append_assoc)

lemma gen_of_mem:
  "gen_of e ss = Some (Some s) \<Longrightarrow> s \<in> set ss \<and> is_assignment s \<and> \<not> is_deletion s \<and> stat_entry s = e"
  by (induction ss rule: rev_induct) (auto split: if_splits)

lemma value_after_append:
  "value_after e (xs @ ys) = (case gen_of e ys of None \<Rightarrow> value_after e xs | Some d \<Rightarrow> d)"
  by (auto simp: value_after_def gen_of_append split: option.splits)

end
