(* ===== verification/FlowFix.thy ===== *)
theory FlowFix
  imports FlowReach
begin

text \<open>
  The loop of \<open>reaching_definitions\<close> ends, and its result is the least fixed point: a bit is in the
  input of a block exactly when it flows there along the edges.
\<close>

subsection \<open>Masks as sets of bits\<close>

definition bits :: "int \<Rightarrow> nat set" where
  "bits x = {n. bit x n}"

lemma bits_simps [simp]:
  "bits 0 = {}" "bits (x OR y) = bits x \<union> bits y" "bits (x AND y) = bits x \<inter> bits y"
  "bits (NOT x) = - bits x"
  by (auto simp: bits_def bit_or_iff bit_and_iff bit_not_iff)

lemma bits_inject: "bits x = bits y \<longleftrightarrow> x = y"
  by (auto simp: bits_def set_eq_iff intro: bit_eqI)

lemma bits_power [simp]: "bits (2 ^ n) = {n}"
  by (auto simp: bits_def bit_exp_iff)

lemma bits_foldl_or: "bits (foldl (\<lambda>i p. i OR f p) x ps) = bits x \<union> (\<Union>p \<in> set ps. bits (f p))"
  by (induction ps arbitrary: x) auto

lemma bits_input: "bits (block_input h b) = (\<Union>p \<in> set (b_parents (h ! b)). bits (i_output (h ! p)))"
  by (simp add: block_input_def bits_foldl_or)

subsection \<open>One pass\<close>

text \<open>What a pass leaves alone.\<close>

definition fixed_part :: "block \<Rightarrow> block" where
  "fixed_part b = b\<lparr>i_input := 0, i_output := 0\<rparr>"

definition same_static :: "heap \<Rightarrow> heap \<Rightarrow> bool" where
  "same_static h h' \<longleftrightarrow> map fixed_part h = map fixed_part h'"

lemma fixed_part_fields:
  assumes "fixed_part b = fixed_part b'"
  shows "b_children b = b_children b'" "b_parents b = b_parents b'" "b_stats b = b_stats b'"
    "b_gen b = b_gen b'" "i_gen b = i_gen b'" "i_kill b = i_kill b'" "b_positions b = b_positions b'"
    "b_bounded b = b_bounded b'" "is_exit b = is_exit b'"
  using assms by (cases b; cases b'; simp add: fixed_part_def)+

lemma same_static_refl [simp]: "same_static h h"
  by (simp add: same_static_def)

lemma same_static_length: "same_static h h' \<Longrightarrow> length h' = length h"
  unfolding same_static_def by (drule arg_cong [of _ _ length]) simp

lemma same_static_nth: "same_static h h' \<Longrightarrow> b < length h \<Longrightarrow> fixed_part (h' ! b) = fixed_part (h ! b)"
  using same_static_length [of h h'] unfolding same_static_def by (metis nth_map)

lemma same_static_fields:
  assumes "same_static h h'" "b < length h"
  shows "b_parents (h' ! b) = b_parents (h ! b)" "i_gen (h' ! b) = i_gen (h ! b)"
    "i_kill (h' ! b) = i_kill (h ! b)" "b_children (h' ! b) = b_children (h ! b)"
    "b_stats (h' ! b) = b_stats (h ! b)"
  using fixed_part_fields [OF same_static_nth [OF assms]] by simp_all

lemma same_static_update:
  "same_static h h' \<Longrightarrow> b < length h \<Longrightarrow> same_static h (h'[b := (h' ! b)\<lparr>i_input := i, i_output := j\<rparr>])"
  by (simp add: same_static_def fixed_part_def map_update)
    (metis (no_types, lifting) fixed_part_def length_map list_update_id nth_map)

text \<open>A bit reaches the end of a block when the block generates it or takes it over from a parent;
  the outputs of blocks outside the list are given.\<close>

inductive reaches :: "heap \<Rightarrow> nat list \<Rightarrow> nat \<Rightarrow> nat \<Rightarrow> bool" for h bs n where
  reaches_given: "b \<notin> set bs \<Longrightarrow> n \<in> bits (i_output (h ! b)) \<Longrightarrow> reaches h bs n b"
| reaches_gen: "b \<in> set bs \<Longrightarrow> n \<in> bits (i_gen (h ! b)) \<Longrightarrow> reaches h bs n b"
| reaches_flow: "b \<in> set bs \<Longrightarrow> p \<in> set (b_parents (h ! b)) \<Longrightarrow> reaches h bs n p
    \<Longrightarrow> n \<notin> bits (i_kill (h ! b)) \<Longrightarrow> reaches h bs n b"

definition out_bits :: "heap \<Rightarrow> nat \<Rightarrow> nat set" where
  "out_bits h b = bits (i_output (h ! b))"

definition transfer :: "heap \<Rightarrow> nat \<Rightarrow> nat set" where
  "transfer h b =
     (\<Union>p \<in> set (b_parents (h ! b)). out_bits h p) - bits (i_kill (h ! b)) \<union> bits (i_gen (h ! b))"

text \<open>Masks only grow, stay below what reaches the block, and have bits below \<open>N\<close> only.\<close>

definition pass_inv :: "heap \<Rightarrow> nat list \<Rightarrow> nat \<Rightarrow> heap \<Rightarrow> bool" where
  "pass_inv h0 bs N h \<longleftrightarrow>
     same_static h0 h
     \<and> (\<forall>b \<in> set bs. out_bits h b \<subseteq> transfer h b \<and> out_bits h b \<subseteq> {n. reaches h0 bs n b})
     \<and> (\<forall>b. b < length h0 \<longrightarrow> b \<notin> set bs \<longrightarrow> out_bits h b = out_bits h0 b)
     \<and> (\<forall>b < length h0. out_bits h b \<subseteq> {..<N} \<and> bits (i_gen (h0 ! b)) \<subseteq> {..<N})"

text \<open>The parts of a graph the loop relies on.\<close>

definition in_heap :: "heap \<Rightarrow> nat list \<Rightarrow> bool" where
  "in_heap h bs \<longleftrightarrow> set bs \<subseteq> {..<length h} \<and> (\<forall>b \<in> set bs. set (b_parents (h ! b)) \<subseteq> {..<length h})"

abbreviation block_step :: "heap \<Rightarrow> nat \<Rightarrow> heap" where
  "block_step h b \<equiv> h[b := (h ! b)\<lparr>i_input := block_input h b,
     i_output := (block_input h b AND NOT (i_kill (h ! b))) OR i_gen (h ! b)\<rparr>]"

lemma out_bits_step:
  "b < length h \<Longrightarrow> out_bits (block_step h b) i = (if i = b then transfer h b else out_bits h i)"
  by (auto simp: out_bits_def transfer_def nth_list_update bits_input)

lemma transfer_mono:
  assumes "same_static h h'" "b < length h" "\<And>p. p \<in> set (b_parents (h ! b)) \<Longrightarrow> out_bits h p \<subseteq> out_bits h' p"
  shows "transfer h b \<subseteq> transfer h' b"
  using assms(3) unfolding transfer_def same_static_fields [OF assms(1,2)] by blast

lemma pass_inv_step:
  assumes inv: "pass_inv h0 bs N h" and heap: "in_heap h0 bs" and b: "b \<in> set bs"
  shows "pass_inv h0 bs N (block_step h b)"
    and "out_bits h i \<subseteq> out_bits (block_step h b) i"
proof -
  let ?h = "block_step h b"
  have st: "same_static h0 h" "length h = length h0"
    using inv same_static_length by (auto simp: pass_inv_def)
  have len: "b < length h" "b < length h0" using heap b st(2) by (auto simp: in_heap_def)
  note f = same_static_fields [OF st(1)]
  have out: "out_bits ?h i = (if i = b then transfer h b else out_bits h i)" for i
    by (rule out_bits_step [OF len(1)])
  show grow: "out_bits h i \<subseteq> out_bits ?h i" for i using inv b by (auto simp: out pass_inv_def)
  have st': "same_static h0 ?h" by (rule same_static_update [OF st(1) len(2)])
  have tr: "transfer h i \<subseteq> transfer ?h i" if "i < length h" for i
    using st same_static_update [OF same_static_refl [of h] len(1)] that grow by (intro transfer_mono) auto
  have reach: "transfer h b \<subseteq> {n. reaches h0 bs n b}"
  proof
    fix n assume "n \<in> transfer h b"
    then consider "n \<in> bits (i_gen (h0 ! b))"
      | p where "p \<in> set (b_parents (h0 ! b))" "n \<in> out_bits h p" "n \<notin> bits (i_kill (h0 ! b))"
      unfolding transfer_def f [OF len(2)] by blast
    then show "n \<in> {n. reaches h0 bs n b}"
    proof cases
      case 1
      then show ?thesis using b by (auto intro: reaches_gen)
    next
      case 2
      have "p < length h0" using heap b 2(1) by (auto simp: in_heap_def)
      then have "reaches h0 bs n p"
        using inv 2(2) by (cases "p \<in> set bs") (auto simp: pass_inv_def out_bits_def intro: reaches_given)
      then show ?thesis using b 2(1,3) by (auto intro: reaches_flow)
    qed
  qed
  have bound: "transfer h b \<subseteq> {..<N}"
  proof -
    have "out_bits h p \<subseteq> {..<N}" if "p \<in> set (b_parents (h0 ! b))" for p
    proof -
      have "p < length h0" using heap b that by (auto simp: in_heap_def)
      then show ?thesis using inv by (simp add: pass_inv_def)
    qed
    moreover have "bits (i_gen (h0 ! b)) \<subseteq> {..<N}" using inv len(2) by (auto simp: pass_inv_def)
    ultimately show ?thesis unfolding transfer_def f [OF len(2)] by blast
  qed
  have tr': "out_bits ?h i \<subseteq> transfer ?h i" if "i \<in> set bs" for i
  proof -
    have "i < length h" using that heap st(2) by (auto simp: in_heap_def)
    then show ?thesis using tr [of i] inv that by (auto simp: out pass_inv_def)
  qed
  show "pass_inv h0 bs N ?h"
    unfolding pass_inv_def
    using inv st' tr' reach bound b by (auto simp: out pass_inv_def)
qed

lemma reaching_pass_Cons:
  "reaching_pass (b # bs) dirty h =
     reaching_pass bs (dirty \<or> transfer h b \<noteq> out_bits h b) (block_step h b)"
proof -
  have "bits ((block_input h b AND NOT (i_kill (h ! b))) OR i_gen (h ! b)) = transfer h b"
    by (auto simp: transfer_def bits_input out_bits_def)
  then have "(block_input h b AND NOT (i_kill (h ! b))) OR i_gen (h ! b) \<noteq> i_output (h ! b)
      \<longleftrightarrow> transfer h b \<noteq> out_bits h b"
    by (simp add: out_bits_def flip: bits_inject)
  then show ?thesis by (simp add: Let_def)
qed

declare reaching_pass.simps(2) [simp del]

lemma reaching_pass_dirty: "fst (reaching_pass bs True h)"
  by (induction bs arbitrary: h) (simp_all add: reaching_pass_Cons)

lemma reaching_pass_inv:
  assumes "in_heap h0 bs"
  shows "pass_inv h0 bs N h \<Longrightarrow> set cs \<subseteq> set bs \<Longrightarrow>
    pass_inv h0 bs N (snd (reaching_pass cs d h))
    \<and> (\<forall>i. out_bits h i \<subseteq> out_bits (snd (reaching_pass cs d h)) i)"
proof (induction cs arbitrary: h d)
  case (Cons b cs)
  have b: "b \<in> set bs" using Cons.prems(2) by simp
  note step = pass_inv_step [OF Cons.prems(1) assms b]
  from Cons.IH [OF step(1)] Cons.prems(2) step(2) show ?case
    by (auto simp: reaching_pass_Cons) blast
qed simp

text \<open>A pass that changes an output is dirty, and one that changes none leaves the inputs of all its
  blocks as they should be.\<close>

lemma reaching_pass_result:
  assumes "in_heap h0 bs"
  shows "pass_inv h0 bs N h \<Longrightarrow> set cs \<subseteq> set bs \<Longrightarrow>
    (case reaching_pass cs d h of (dirty, h') \<Rightarrow>
       if dirty then d \<or> (\<exists>i \<in> set cs. out_bits h i \<noteq> out_bits h' i)
       else out_bits h' = out_bits h
            \<and> (\<forall>b \<in> set cs. transfer h b = out_bits h b
                   \<and> bits (i_input (h' ! b)) = (\<Union>p \<in> set (b_parents (h0 ! b)). out_bits h p))
            \<and> (\<forall>b. b \<notin> set cs \<longrightarrow> h' ! b = h ! b))"
proof (induction cs arbitrary: h d)
  case (Cons b cs)
  have b: "b \<in> set bs" using Cons.prems(2) by simp
  have st: "same_static h0 h" using Cons.prems(1) by (simp add: pass_inv_def)
  have len: "b < length h" "b < length h0"
    using assms b same_static_length [OF st] by (auto simp: in_heap_def)
  note step = pass_inv_step [OF Cons.prems(1) assms b]
  have cs: "set cs \<subseteq> set bs" using Cons.prems(2) by simp
  let ?h = "block_step h b"
  have out: "out_bits ?h i = (if i = b then transfer h b else out_bits h i)" for i
    by (rule out_bits_step [OF len(1)])
  show ?case
  proof (cases "transfer h b = out_bits h b")
    case False
    obtain h' where h': "reaching_pass cs True ?h = (True, h')"
      using reaching_pass_dirty [of cs ?h] by (cases "reaching_pass cs True ?h") auto
    have "out_bits h b \<subset> out_bits ?h b" using False Cons.prems(1) b by (auto simp: out pass_inv_def)
    moreover have "out_bits ?h b \<subseteq> out_bits h' b"
      using reaching_pass_inv [OF assms step(1) cs, of True] h' by simp
    ultimately show ?thesis using False h' by (auto simp: reaching_pass_Cons)
  next
    case True
    then have same: "out_bits ?h = out_bits h" by (simp add: out fun_eq_iff)
    have tr: "transfer ?h i = transfer h i" if "i < length h" for i
      using same_static_fields [OF same_static_update [OF same_static_refl [of h] len(1)] that]
      by (simp add: transfer_def same)
    have inp: "bits (i_input (?h ! b)) = (\<Union>p \<in> set (b_parents (h0 ! b)). out_bits h p)"
      using len(1) same_static_fields(1) [OF st len(2)] by (simp add: bits_input out_bits_def)
    obtain dirty h' where r: "reaching_pass cs d ?h = (dirty, h')" by force
    have IH: "if dirty then d \<or> (\<exists>i \<in> set cs. out_bits ?h i \<noteq> out_bits h' i)
       else out_bits h' = out_bits ?h
            \<and> (\<forall>b \<in> set cs. transfer ?h b = out_bits ?h b
                   \<and> bits (i_input (h' ! b)) = (\<Union>p \<in> set (b_parents (h0 ! b)). out_bits ?h p))
            \<and> (\<forall>b. b \<notin> set cs \<longrightarrow> h' ! b = ?h ! b)"
      using Cons.IH [OF step(1) cs, of d] by (simp add: r)
    have lens: "i < length h" if "i \<in> set cs" for i
      using that cs assms same_static_length [OF st] by (auto simp: in_heap_def)
    show ?thesis
    proof (cases dirty)
      case True
      then show ?thesis using IH r \<open>transfer h b = out_bits h b\<close> by (auto simp: reaching_pass_Cons same)
    next
      case False
      have "bits (i_input (h' ! b)) = (\<Union>p \<in> set (b_parents (h0 ! b)). out_bits h p)"
        using IH False inp same by (cases "b \<in> set cs") auto
      then show ?thesis
        using IH False r \<open>transfer h b = out_bits h b\<close> tr lens
        by (auto simp: reaching_pass_Cons same)
    qed
  qed
qed simp

subsection \<open>The loop\<close>

text \<open>The pairs of a block and a bit that can still be set.\<close>

definition unset_bits :: "nat list \<Rightarrow> nat \<Rightarrow> heap \<Rightarrow> (nat \<times> nat) set" where
  "unset_bits bs N h = {(b, n). b \<in> set bs \<and> n < N \<and> n \<notin> out_bits h b}"

lemma finite_unset_bits [simp]: "finite (unset_bits bs N h)"
  by (rule finite_subset [of _ "set bs \<times> {..<N}"]) (auto simp: unset_bits_def)

lemma fixed_point_least:
  assumes inv: "pass_inv h0 bs N h" and heap: "in_heap h0 bs"
    and stable: "\<And>b. b \<in> set bs \<Longrightarrow> transfer h b = out_bits h b"
  shows "b < length h0 \<Longrightarrow> out_bits h b = {n. reaches h0 bs n b}"
proof -
  have st: "same_static h0 h" using inv by (simp add: pass_inv_def)
  have "n \<in> out_bits h b" if "reaches h0 bs n b" "b < length h0" for n b
    using that
  proof (induction rule: reaches.induct)
    case (reaches_given b)
    then show ?case using inv by (auto simp: pass_inv_def out_bits_def)
  next
    case (reaches_gen b)
    then show ?case
      using stable [of b] same_static_fields(2) [OF st, of b] by (auto simp: transfer_def)
  next
    case (reaches_flow b p)
    then have "p < length h0" using heap by (auto simp: in_heap_def)
    then have "n \<in> out_bits h p" by (rule reaches_flow.IH)
    then have "n \<in> transfer h b"
      using reaches_flow same_static_fields(1,3) [OF st reaches_flow.prems] by (auto simp: transfer_def)
    then show ?case using stable reaches_flow.hyps(1) by blast
  qed
  moreover have "reaches h0 bs n b" if "b < length h0" "n \<in> out_bits h b" for n b
    using inv that by (cases "b \<in> set bs") (auto simp: pass_inv_def out_bits_def intro: reaches_given)
  ultimately show "b < length h0 \<Longrightarrow> out_bits h b = {n. reaches h0 bs n b}" by blast
qed

lemma reaching_loop_result:
  assumes "in_heap h0 bs"
  shows "pass_inv h0 bs N h \<Longrightarrow> \<exists>h'. reaching_loop bs h = Some h' \<and> pass_inv h0 bs N h'
    \<and> (\<forall>b \<in> set bs. bits (i_input (h' ! b)) = {n. \<exists>p \<in> set (b_parents (h0 ! b)). reaches h0 bs n p})"
proof (induction "card (unset_bits bs N h)" arbitrary: h rule: less_induct)
  case less
  obtain dirty h' where r: "reaching_pass bs False h = (dirty, h')" by force
  note res = reaching_pass_result [OF assms less.prems subset_refl, of False, unfolded r prod.case]
  have inv': "pass_inv h0 bs N h'" "\<And>i. out_bits h i \<subseteq> out_bits h' i"
    using reaching_pass_inv [OF assms less.prems subset_refl, of False] by (simp_all add: r)
  show ?case
  proof (cases dirty)
    case True
    then obtain b where b: "b \<in> set bs" "out_bits h b \<noteq> out_bits h' b" using res by auto
    then obtain n where n: "n \<in> out_bits h' b" "n \<notin> out_bits h b" using inv'(2) [of b] by blast
    moreover have "b < length h0" using b(1) assms by (auto simp: in_heap_def)
    then have "n < N" using inv'(1) n(1) by (auto simp: pass_inv_def)
    ultimately have "(b, n) \<in> unset_bits bs N h - unset_bits bs N h'"
      using b(1) by (simp add: unset_bits_def)
    moreover have "unset_bits bs N h' \<subseteq> unset_bits bs N h"
      using inv'(2) by (auto simp: unset_bits_def)
    ultimately have "card (unset_bits bs N h') < card (unset_bits bs N h)"
      by (intro psubset_card_mono) auto
    from less.hyps [OF this inv'(1)] show ?thesis
      using True by (subst reaching_loop.simps) (simp add: r)
  next
    case False
    then have f: "out_bits h' = out_bits h" "\<And>b. b \<in> set bs \<Longrightarrow> transfer h b = out_bits h b"
      "\<And>b. b \<in> set bs \<Longrightarrow> bits (i_input (h' ! b)) = (\<Union>p \<in> set (b_parents (h0 ! b)). out_bits h p)"
      using res by auto
    have "bits (i_input (h' ! b)) = {n. \<exists>p \<in> set (b_parents (h0 ! b)). reaches h0 bs n p}"
      if b: "b \<in> set bs" for b
    proof -
      have "out_bits h p = {n. reaches h0 bs n p}" if "p \<in> set (b_parents (h0 ! b))" for p
        using assms b that by (intro fixed_point_least [OF less.prems assms f(2)]) (auto simp: in_heap_def)
      then show ?thesis unfolding f(3) [OF b] by auto
    qed
    then show ?thesis using False inv'(1) by (subst reaching_loop.simps) (simp add: r)
  qed
qed

lemma reaching_loop_spec:
  assumes heap: "in_heap h bs"
    and start: "\<And>b. b < length h \<Longrightarrow> i_output (h ! b) = i_gen (h ! b) \<and> finite (bits (i_gen (h ! b)))"
  obtains h' where "reaching_loop bs h = Some h'" "same_static h h'"
    "\<And>b. b \<in> set bs \<Longrightarrow> bits (i_input (h' ! b)) = {n. \<exists>p \<in> set (b_parents (h ! b)). reaches h bs n p}"
proof -
  have "finite (\<Union>b < length h. bits (i_gen (h ! b)))" using start by blast
  then obtain N where N: "\<And>b. b < length h \<Longrightarrow> bits (i_gen (h ! b)) \<subseteq> {..<N}"
    using finite_nat_set_iff_bounded by (metis (no_types, lifting) UN_I lessThan_iff subsetI)
  have out: "out_bits h b = bits (i_gen (h ! b))" if "b < length h" for b
    using start that by (simp add: out_bits_def)
  have "pass_inv h bs N h"
    unfolding pass_inv_def
  proof (intro conjI ballI allI impI)
    fix b assume b: "b \<in> set bs"
    then have "b < length h" using heap by (auto simp: in_heap_def)
    with b show "out_bits h b \<subseteq> transfer h b" "out_bits h b \<subseteq> {n. reaches h bs n b}"
      by (auto simp: out transfer_def intro: reaches_gen)
  qed (simp_all add: out N)
  from reaching_loop_result [OF heap this] show thesis
    using that by (auto simp: pass_inv_def)
qed

end
