(* ===== verification/FlowInit.thy ===== *)
theory FlowInit
  imports FlowFix
begin

text \<open>
  What \<open>initialize\<close> sets up: different bits for the unset states of the entries and for the
  assignments, and for each block the masks of what it generates and of what it kills.
\<close>

subsection \<open>Numbers of entries and assignments\<close>

definition position_of :: "'a \<Rightarrow> 'a list \<Rightarrow> nat" where
  "position_of x xs = length (takeWhile (\<lambda>y. y \<noteq> x) xs)"

lemma position_of_simps [simp]:
  "position_of x [] = 0" "position_of x (y # ys) = (if y = x then 0 else Suc (position_of x ys))"
  by (simp_all add: position_of_def)

lemma position_of_nth: "x \<in> set xs \<Longrightarrow> position_of x xs < length xs \<and> xs ! position_of x xs = x"
  by (induction xs) auto

lemma position_of_inject: "x \<in> set xs \<Longrightarrow> y \<in> set xs \<Longrightarrow> position_of x xs = position_of y xs \<longleftrightarrow> x = y"
  by (metis position_of_nth)

lemma init_entries_spec:
  "distinct es \<Longrightarrow> \<exists>A. init_entries es (2 ^ k) d = (2 ^ (k + length es), A)
    \<and> (\<forall>e. dict_get A e = (if e \<in> set es
         then Some \<lparr>al_bit = 2 ^ (k + position_of e es), al_mask = 2 ^ (k + position_of e es), al_stats = []\<rparr>
         else dict_get d e))
    \<and> (dict_wf d \<longrightarrow> dict_wf A)"
proof (induction es arbitrary: k d)
  case (Cons e es)
  have e: "distinct es" "e \<notin> set es" using Cons.prems by auto
  let ?d = "dict_set e \<lparr>al_bit = 2 ^ k, al_mask = 2 ^ k, al_stats = []\<rparr> d"
  obtain A where A: "init_entries es (2 ^ Suc k) ?d = (2 ^ (Suc k + length es), A)"
    "\<And>e. dict_get A e = (if e \<in> set es
         then Some \<lparr>al_bit = 2 ^ (Suc k + position_of e es), al_mask = 2 ^ (Suc k + position_of e es), al_stats = []\<rparr>
         else dict_get ?d e)" "dict_wf ?d \<longrightarrow> dict_wf A"
    using Cons.IH [OF e(1), of "Suc k" ?d] by blast
  have run: "init_entries (e # es) (2 ^ k) d = (2 ^ (k + length (e # es)), A)"
    using A(1) by (simp add: mult.commute [of _ 2])
  show ?case
    using A(2,3) e(2) by (intro exI [of _ A] conjI run) (auto simp: dict_get_set dict_wf_set)
qed simp

text \<open>The assignments of an entry, and the number of an assignment among the assignments \<open>ss\<close>.\<close>

definition own_stats :: "cf_entry \<Rightarrow> flow_stat list \<Rightarrow> flow_stat list" where
  "own_stats e ss = filter (\<lambda>s. stat_entry s = e) ss"

lemma own_stats_simps [simp]:
  "own_stats e [] = []"
  "own_stats e (s # ss) = (if stat_entry s = e then s # own_stats e ss else own_stats e ss)"
  by (simp_all add: own_stats_def)

abbreviation stat_number :: "nat \<Rightarrow> flow_stat list \<Rightarrow> nat" where
  "stat_number i ss \<equiv> position_of i (map stat_id ss)"

lemma init_stats_assignments: "init_stats (filter is_assignment ss) b A B = init_stats ss b A B"
  by (induction ss b A B rule: init_stats.induct) (auto split: option.splits)

definition numbers_of :: "nat \<Rightarrow> flow_stat list \<Rightarrow> flow_stat list \<Rightarrow> nat set" where
  "numbers_of k ss ts = (\<lambda>s. k + stat_number (stat_id s) ss) ` set ts"

lemma numbers_of_Cons:
  assumes "stat_id s \<notin> stat_id ` set ss"
  shows "numbers_of k (s # ss) (own_stats e ss) = numbers_of (Suc k) ss (own_stats e ss)"
proof -
  have "k + stat_number (stat_id t) (s # ss) = Suc k + stat_number (stat_id t) ss"
    if "t \<in> set (own_stats e ss)" for t
    using that assms by (force simp: own_stats_def)
  then show ?thesis unfolding numbers_of_def by (intro image_cong refl)
qed

lemma numbers_of_insert: "numbers_of k (s # ss) (s # ts) = insert k (numbers_of k (s # ss) ts)"
  by (simp add: numbers_of_def)

definition list_extended :: "nat \<Rightarrow> flow_stat list \<Rightarrow> cf_entry \<Rightarrow> assignment_list \<Rightarrow> assignment_list \<Rightarrow> bool" where
  "list_extended k ss e a a' \<longleftrightarrow>
     al_bit a' = al_bit a \<and> al_stats a' = al_stats a @ own_stats e ss
     \<and> bits (al_mask a') = bits (al_mask a) \<union> numbers_of k ss (own_stats e ss)"

lemma list_extended_Cons:
  assumes "stat_id s \<notin> stat_id ` set ss"
    and "list_extended (Suc k) ss e
      (if stat_entry s = e then a\<lparr>al_stats := al_stats a @ [s], al_mask := al_mask a OR 2 ^ k\<rparr> else a) a'"
  shows "list_extended k (s # ss) e a a'"
  using assms(2)
  by (cases "stat_entry s = e") (auto simp: list_extended_def numbers_of_insert numbers_of_Cons [OF assms(1)])

definition stats_numbered ::
  "nat \<Rightarrow> flow_stat list \<Rightarrow> (cf_entry, assignment_list) pydict \<Rightarrow> (nat, int) pydict
   \<Rightarrow> (cf_entry, assignment_list) pydict \<Rightarrow> (nat, int) pydict \<Rightarrow> bool" where
  "stats_numbered k ss A B A' B' \<longleftrightarrow>
     (\<forall>i. dict_get B' i = (if i \<in> stat_id ` set ss then Some (2 ^ (k + stat_number i ss)) else dict_get B i))
    \<and> (\<forall>e. case dict_get A e of None \<Rightarrow> dict_get A' e = None
          | Some a \<Rightarrow> \<exists>a'. dict_get A' e = Some a' \<and> list_extended k ss e a a')
    \<and> (dict_wf A \<longrightarrow> dict_wf A')"

lemma init_stats_spec:
  "list_all is_assignment ss \<Longrightarrow> distinct (map stat_id ss)
   \<Longrightarrow> \<forall>s \<in> set ss. dict_get A (stat_entry s) \<noteq> None \<Longrightarrow>
   \<exists>A' B'. init_stats ss (2 ^ k) A B = Some (A', B') \<and> stats_numbered k ss A B A' B'"
proof (induction ss arbitrary: k A B)
  case Nil
  then show ?case by (auto simp: stats_numbered_def list_extended_def numbers_of_def split: option.splits)
next
  case (Cons s ss)
  then obtain a where a: "dict_get A (stat_entry s) = Some a" by auto
  let ?a = "a\<lparr>al_stats := al_stats a @ [s], al_mask := al_mask a OR 2 ^ k\<rparr>"
  let ?A = "dict_set (stat_entry s) ?a A" and ?B = "dict_set (stat_id s) (2 ^ k) B"
  have d: "list_all is_assignment ss" "distinct (map stat_id ss)" "stat_id s \<notin> stat_id ` set ss"
    using Cons.prems(1,2) by auto
  have dom: "\<forall>t \<in> set ss. dict_get ?A (stat_entry t) \<noteq> None"
    using Cons.prems(3) by (simp add: dict_get_set)
  obtain A' B' where r: "init_stats ss (2 ^ Suc k) ?A ?B = Some (A', B')"
    and n: "stats_numbered (Suc k) ss ?A ?B A' B'"
    using Cons.IH [OF d(1,2) dom, of "Suc k" ?B] by (elim exE conjE)
  have B': "dict_get B' i = (if i \<in> stat_id ` set ss then Some (2 ^ (Suc k + stat_number i ss))
      else dict_get ?B i)" for i
    using n by (simp add: stats_numbered_def)
  have A': "case dict_get ?A e of None \<Rightarrow> dict_get A' e = None
      | Some a \<Rightarrow> \<exists>a'. dict_get A' e = Some a' \<and> list_extended (Suc k) ss e a a'" for e
    using n unfolding stats_numbered_def by blast
  have wf: "dict_wf A \<longrightarrow> dict_wf A'" using n dict_wf_set unfolding stats_numbered_def by blast
  have run: "init_stats (s # ss) (2 ^ k) A B = Some (A', B')"
    using Cons.prems(1) a r by (simp add: mult.commute [of _ 2])
  have "case dict_get A e of None \<Rightarrow> dict_get A' e = None
      | Some a \<Rightarrow> \<exists>a'. dict_get A' e = Some a' \<and> list_extended k (s # ss) e a a'" for e
    using A' [of e] list_extended_Cons [OF d(3), of k e] a
    by (cases "e = stat_entry s") (auto simp: dict_get_set split: option.splits)
  moreover have "dict_get B' i = (if i \<in> stat_id ` set (s # ss)
      then Some (2 ^ (k + stat_number i (s # ss))) else dict_get B i)" for i
    using B' [of i] d(3) by (auto simp: dict_get_set)
  ultimately show ?case using run wf unfolding stats_numbered_def by blast
qed


subsection \<open>The numbering\<close>

text \<open>\<open>def_bit\<close> is the bit of one way an entry can be set (or unset), \<open>entry_bits\<close> all of them.\<close>

definition def_bit :: "cf_entry list \<Rightarrow> flow_stat list \<Rightarrow> cf_entry \<Rightarrow> flow_stat option \<Rightarrow> nat" where
  "def_bit es ss e d =
     (case d of None \<Rightarrow> position_of e es | Some s \<Rightarrow> length es + stat_number (stat_id s) ss)"

definition entry_bits :: "cf_entry list \<Rightarrow> flow_stat list \<Rightarrow> cf_entry \<Rightarrow> nat set" where
  "entry_bits es ss e = insert (def_bit es ss e None) ((\<lambda>s. def_bit es ss e (Some s)) ` set (own_stats e ss))"

definition numbering ::
  "cf_entry list \<Rightarrow> flow_stat list \<Rightarrow> (cf_entry, assignment_list) pydict \<Rightarrow> (nat, int) pydict \<Rightarrow> bool" where
  "numbering es ss A B \<longleftrightarrow>
     dict_wf A \<and> (\<forall>e. e \<notin> set es \<longrightarrow> dict_get A e = None)
     \<and> (\<forall>e \<in> set es. \<exists>a. dict_get A e = Some a \<and> al_bit a = 2 ^ def_bit es ss e None
          \<and> al_stats a = own_stats e ss \<and> bits (al_mask a) = entry_bits es ss e)
     \<and> (\<forall>e. \<forall>s \<in> set ss. dict_get B (stat_id s) = Some (2 ^ def_bit es ss e (Some s)))"

lemma numbering_init:
  assumes "distinct es" "list_all is_assignment ss" "distinct (map stat_id ss)"
    and "\<And>s. s \<in> set ss \<Longrightarrow> stat_entry s \<in> set es"
  obtains n A0 A B where "init_entries es 1 [] = (n, A0)" "init_stats ss n A0 [] = Some (A, B)"
    "numbering es ss A B"
proof -
  obtain A0 where A0: "init_entries es (2 ^ 0) [] = (2 ^ (0 + length es), A0)"
    "\<And>e. dict_get A0 e = (if e \<in> set es
         then Some \<lparr>al_bit = 2 ^ (0 + position_of e es), al_mask = 2 ^ (0 + position_of e es), al_stats = []\<rparr>
         else dict_get [] e)" "dict_wf A0"
    using init_entries_spec [OF assms(1), of 0 "[]"] dict_wf_Nil by blast
  have "\<forall>s \<in> set ss. dict_get A0 (stat_entry s) \<noteq> None" using assms(4) by (simp add: A0(2))
  from init_stats_spec [OF assms(2,3) this, of "length es" "[]"] obtain A B where
    run: "init_stats ss (2 ^ length es) A0 [] = Some (A, B)" and n: "stats_numbered (length es) ss A0 [] A B"
    by (elim exE conjE)
  have "\<exists>a. dict_get A e = Some a \<and> al_bit a = 2 ^ def_bit es ss e None
          \<and> al_stats a = own_stats e ss \<and> bits (al_mask a) = entry_bits es ss e" if e: "e \<in> set es" for e
  proof -
    obtain a where "dict_get A e = Some a"
      "list_extended (length es) ss e \<lparr>al_bit = 2 ^ position_of e es, al_mask = 2 ^ position_of e es, al_stats = []\<rparr> a"
      using n A0(2) [of e] e unfolding stats_numbered_def by (auto dest!: spec [of _ e])
    then show ?thesis
      by (intro exI [of _ a]) (simp add: list_extended_def def_bit_def entry_bits_def numbers_of_def)
  qed
  moreover have "dict_get A e = None" if "e \<notin> set es" for e
  proof -
    have "dict_get A0 e = None" using that by (simp add: A0(2))
    moreover have "case dict_get A0 e of None \<Rightarrow> dict_get A e = None
        | Some a \<Rightarrow> \<exists>a'. dict_get A e = Some a' \<and> list_extended (length es) ss e a a'"
      using n unfolding stats_numbered_def by blast
    ultimately show ?thesis by simp
  qed
  moreover have "dict_wf A" using n A0(3) unfolding stats_numbered_def by blast
  moreover have "dict_get B (stat_id s) = Some (2 ^ def_bit es ss e (Some s))" if "s \<in> set ss" for e s
    using n that by (simp add: stats_numbered_def def_bit_def)
  ultimately have "numbering es ss A B" unfolding numbering_def by blast
  then show thesis using that A0(1) run by simp
qed

lemma numbering_get:
  assumes "numbering es ss A B" "e \<in> set es"
  obtains a where "dict_get A e = Some a" "al_bit a = 2 ^ def_bit es ss e None" "al_stats a = own_stats e ss"
    "bits (al_mask a) = entry_bits es ss e"
  using assms unfolding numbering_def by blast

text \<open>Bits of different states differ.\<close>

lemma def_bit_inject:
  assumes "e \<in> set es" "e' \<in> set es" "\<And>s. d = Some s \<Longrightarrow> s \<in> set ss \<and> stat_entry s = e"
    and "\<And>s. d' = Some s \<Longrightarrow> s \<in> set ss \<and> stat_entry s = e'" and "distinct (map stat_id ss)"
  shows "def_bit es ss e d = def_bit es ss e' d' \<longleftrightarrow> e = e' \<and> d = d'"
proof -
  have less: "position_of e es < length es" "position_of e' es < length es"
    using position_of_nth assms(1,2) by fast+
  show ?thesis
  proof (cases d)
    case None
    then show ?thesis
      using less position_of_inject [OF assms(1,2)] by (cases d') (simp_all add: def_bit_def)
  next
    case (Some s)
    then have s: "s \<in> set ss" "stat_entry s = e" using assms(3) by auto
    show ?thesis
    proof (cases d')
      case None
      then show ?thesis using Some less by (simp add: def_bit_def)
    next
      case (Some s')
      then have s': "s' \<in> set ss" "stat_entry s' = e'" using assms(4) by auto
      have "stat_number (stat_id s) ss = stat_number (stat_id s') ss \<longleftrightarrow> stat_id s = stat_id s'"
        using s(1) s'(1) by (intro position_of_inject) simp_all
      also have "\<dots> \<longleftrightarrow> s = s'" using assms(5) s(1) s'(1) by (auto simp: distinct_map inj_on_def)
      finally show ?thesis using Some \<open>d = Some s\<close> s(2) s'(2) by (auto simp: def_bit_def)
    qed
  qed
qed

lemma def_bit_entry_bits:
  assumes "distinct (map stat_id ss)" "e \<in> set es" "e' \<in> set es"
    and "\<And>s. d = Some s \<Longrightarrow> s \<in> set ss \<and> stat_entry s = e"
  shows "def_bit es ss e d \<in> entry_bits es ss e' \<longleftrightarrow> e = e'"
proof
  assume "def_bit es ss e d \<in> entry_bits es ss e'"
  then obtain d' where d': "def_bit es ss e d = def_bit es ss e' d'"
    "\<And>s. d' = Some s \<Longrightarrow> s \<in> set ss \<and> stat_entry s = e'"
    by (auto simp: entry_bits_def own_stats_def)
  then show "e = e'" using def_bit_inject [OF assms(2,3) assms(4) d'(2) assms(1)] by simp
next
  assume "e = e'"
  then show "def_bit es ss e d \<in> entry_bits es ss e'"
    using assms(4) by (cases d) (auto simp: entry_bits_def own_stats_def)
qed

subsection \<open>What the blocks generate and kill\<close>

lemma gen_kill_spec:
  assumes "numbering es ss A B"
  shows "(\<forall>(e, d) \<in> set items. e \<in> set es \<and> (\<forall>s. d = Some s \<longrightarrow> s \<in> set ss)) \<Longrightarrow>
    \<exists>g' k'. gen_kill A B items (g, k) = Some (g', k')
      \<and> bits g' = bits g \<union> (\<lambda>(e, d). def_bit es ss e d) ` set items
      \<and> bits k' = bits k \<union> (\<Union>(e, d) \<in> set items. entry_bits es ss e)"
proof (induction items arbitrary: g k)
  case (Cons i items)
  obtain e d where i: "i = (e, d)" by (cases i)
  obtain a where a: "dict_get A e = Some a" "al_bit a = 2 ^ def_bit es ss e None"
    "bits (al_mask a) = entry_bits es ss e"
  proof -
    have "e \<in> set es" using Cons.prems by (simp add: i)
    from numbering_get [OF assms this] show thesis using that by blast
  qed
  have B: "dict_get B (stat_id s) = Some (2 ^ def_bit es ss e (Some s))" if "d = Some s" for s
    using assms Cons.prems that by (auto simp: numbering_def i)
  show ?case
    using Cons.IH [of "g OR 2 ^ def_bit es ss e d" "k OR al_mask a"] Cons.prems a B
    by (cases d) (auto simp: i Un_assoc)
qed auto

definition block_masks :: "cf_entry list \<Rightarrow> flow_stat list \<Rightarrow> block \<Rightarrow> block \<Rightarrow> bool" where
  "block_masks es ss b b' \<longleftrightarrow>
     content b' = (content b)\<lparr>i_gen := i_gen b', i_kill := i_kill b', i_output := i_gen b'\<rparr>
     \<and> b_children b' = b_children b \<and> b_parents b' = b_parents b
     \<and> bits (i_gen b') = (\<lambda>(e, d). def_bit es ss e d) ` set (b_gen b)
     \<and> bits (i_kill b') = (\<Union>(e, d) \<in> set (b_gen b). entry_bits es ss e)"

lemma init_block_spec:
  assumes "numbering es ss A B" "b_bounded b = []" "i_gen b = 0" "i_kill b = 0"
    and "\<forall>(e, d) \<in> set (b_gen b). e \<in> set es \<and> (\<forall>s. d = Some s \<longrightarrow> s \<in> set ss)"
  obtains b' where "init_block A B b = Some b'" "block_masks es ss b b'"
  using gen_kill_spec [OF assms(1,5), of 0 0] that assms(2-4)
  by (auto simp: init_block_def block_masks_def content_def)

lemma init_blocks_spec:
  assumes "numbering es ss A B"
  shows "distinct bs \<Longrightarrow> set bs \<subseteq> {..<length h} \<Longrightarrow>
    (\<forall>b \<in> set bs. b_bounded (h ! b) = [] \<and> i_gen (h ! b) = 0 \<and> i_kill (h ! b) = 0
       \<and> (\<forall>(e, d) \<in> set (b_gen (h ! b)). e \<in> set es \<and> (\<forall>s. d = Some s \<longrightarrow> s \<in> set ss))) \<Longrightarrow>
    \<exists>h'. init_blocks A B bs h = Some h' \<and> length h' = length h
      \<and> (\<forall>b. if b \<in> set bs then block_masks es ss (h ! b) (h' ! b) else h' ! b = h ! b)"
proof (induction bs arbitrary: h)
  case (Cons b bs)
  obtain b' where b': "init_block A B (h ! b) = Some b'" "block_masks es ss (h ! b) b'"
  proof -
    have "b_bounded (h ! b) = []" "i_gen (h ! b) = 0" "i_kill (h ! b) = 0"
      "\<forall>(e, d) \<in> set (b_gen (h ! b)). e \<in> set es \<and> (\<forall>s. d = Some s \<longrightarrow> s \<in> set ss)"
      using Cons.prems(3) by simp_all
    from init_block_spec [OF assms this] show thesis using that by blast
  qed
  have b: "b \<notin> set bs" "b < length h" using Cons.prems(1,2) by auto
  then have other: "h[b := b'] ! c = h ! c" if "c \<in> set bs" for c
    using that b(1) by (metis nth_list_update_neq)
  have "\<exists>h'. init_blocks A B bs (h[b := b']) = Some h' \<and> length h' = length (h[b := b'])
      \<and> (\<forall>c. if c \<in> set bs then block_masks es ss (h[b := b'] ! c) (h' ! c) else h' ! c = h[b := b'] ! c)"
    using Cons.prems other by (intro Cons.IH) auto
  then obtain h' where h': "init_blocks A B bs (h[b := b']) = Some h'" "length h' = length h"
    "\<And>c. if c \<in> set bs then block_masks es ss (h[b := b'] ! c) (h' ! c) else h' ! c = h[b := b'] ! c"
    by auto
  have "if c \<in> set (b # bs) then block_masks es ss (h ! c) (h' ! c) else h' ! c = h ! c" for c
    using h'(3) [of c] other [of c] b b'(2) by (cases "c = b") auto
  then show ?case using h'(1,2) b'(1) by auto
qed simp


subsection \<open>A flow with its marks\<close>

text \<open>What the marking methods keep: the statements of all blocks are about tracked entries and have
  different numbers, and \<open>gen\<close> holds the last assignment to each entry.\<close>

definition block_marked :: "cf_entry list \<Rightarrow> block \<Rightarrow> bool" where
  "block_marked es b \<longleftrightarrow>
     dict_wf (b_gen b) \<and> (\<forall>e. dict_get (b_gen b) e = gen_of e (b_stats b))
     \<and> (\<forall>s \<in> set (b_stats b). stat_entry s \<in> set es) \<and> b_bounded b = []
     \<and> i_gen b = 0 \<and> i_kill b = 0 \<and> i_output b = 0"

definition all_assignments :: "flow \<Rightarrow> flow_stat list" where
  "all_assignments f = filter is_assignment (concat (map (\<lambda>b. b_stats (fl_heap f ! b)) (fl_blocks f)))"

definition flow_marked :: "flow \<Rightarrow> bool" where
  "flow_marked f \<longleftrightarrow>
     distinct (fl_entries f) \<and> distinct (map stat_id (all_assignments f))
     \<and> (\<forall>b < length (fl_heap f). block_marked (fl_entries f) (fl_heap f ! b))
     \<and> b_stats (fl_heap f ! entry_point) = []"

lemma marked_gen:
  assumes "block_marked es b"
  shows "(e, d) \<in> set (b_gen b) \<longleftrightarrow> gen_of e (b_stats b) = Some d"
  using assms dict_wf_mem [of "b_gen b"] by (simp add: block_marked_def)

lemma gen_of_entry: "gen_of e ss = Some d \<Longrightarrow> \<exists>s \<in> set ss. is_assignment s \<and> stat_entry s = e"
  by (induction ss rule: rev_induct) (auto split: if_splits)

lemma marked_items:
  assumes "block_marked es b" "(e, d) \<in> set (b_gen b)"
  shows "e \<in> set es \<and> (\<forall>s. d = Some s \<longrightarrow> s \<in> set (filter is_assignment (b_stats b)) \<and> stat_entry s = e)"
  using gen_of_entry [of e "b_stats b" d] gen_of_mem [of e "b_stats b"] marked_gen [OF assms(1), of e d] assms
  by (auto simp: block_marked_def)

lemma init_entry_point_bits:
  assumes "numbering es ss A B" "i_gen b = 0"
  shows "bits (i_gen (init_entry_point A b)) = (\<lambda>e. def_bit es ss e None) ` set es"
proof -
  have "bits (foldl (\<lambda>g (e, a). g OR al_bit a) x A) = bits x \<union> (\<Union>(e, a) \<in> set A. bits (al_bit a))" for x
    by (induction A arbitrary: x) auto
  moreover have "(\<Union>(e, a) \<in> set A. bits (al_bit a)) = (\<lambda>e. def_bit es ss e None) ` set es"
  proof -
    have mem: "(e, a) \<in> set A \<longleftrightarrow> dict_get A e = Some a" for e a
      using assms(1) dict_wf_mem [of A] by (auto simp: numbering_def)
    have dom: "e \<in> set es" if "dict_get A e = Some a" for e a
      using that assms(1) by (cases "e \<in> set es") (simp_all add: numbering_def)
    have bit: "bits (al_bit a) = {def_bit es ss e None}" if "dict_get A e = Some a" for e a
      using numbering_get [OF assms(1) dom [OF that]] that by (metis bits_power option.inject)
    have "x \<in> (\<Union>(e, a) \<in> set A. bits (al_bit a)) \<longleftrightarrow> (\<exists>e \<in> set es. x = def_bit es ss e None)" for x
    proof
      assume "x \<in> (\<Union>(e, a) \<in> set A. bits (al_bit a))"
      then obtain e a where "dict_get A e = Some a" "x \<in> bits (al_bit a)" using mem by auto
      then show "\<exists>e \<in> set es. x = def_bit es ss e None" using bit dom by blast
    next
      assume "\<exists>e \<in> set es. x = def_bit es ss e None"
      then obtain e a where "dict_get A e = Some a" "x = def_bit es ss e None"
        using numbering_get [OF assms(1)] by metis
      then show "x \<in> (\<Union>(e, a) \<in> set A. bits (al_bit a))" using bit mem by fastforce
    qed
    then show ?thesis by blast
  qed
  ultimately show ?thesis using assms(2) by (simp add: init_entry_point_def Let_def)
qed

lemma initialize_spec:
  assumes "flow_marked f" "distinct (fl_blocks f)" "set (fl_blocks f) \<subseteq> {0<..<length (fl_heap f)}"
    and "entry_point < length (fl_heap f)"
  defines "ss \<equiv> all_assignments f"
  obtains f' where "initialize f = Some f'" "numbering (fl_entries f) ss (fl_assmts f') (stat_bits f')"
    "f' = f\<lparr>fl_heap := fl_heap f', fl_assmts := fl_assmts f', stat_bits := stat_bits f'\<rparr>"
    "length (fl_heap f') = length (fl_heap f)"
    "\<And>b. b \<in> set (fl_blocks f) \<Longrightarrow> block_masks (fl_entries f) ss (fl_heap f ! b) (fl_heap f' ! b)"
    "fl_heap f' ! entry_point = init_entry_point (fl_assmts f') (fl_heap f ! entry_point)"
    "\<And>b. b \<notin> set (fl_blocks f) \<Longrightarrow> b \<noteq> entry_point \<Longrightarrow> fl_heap f' ! b = fl_heap f ! b"
proof -
  let ?h = "fl_heap f" and ?es = "fl_entries f"
  have mark: "block_marked ?es (?h ! b)" if "b \<in> set (fl_blocks f)" for b
    using assms(1,3) that by (auto simp: flow_marked_def)
  have "stat_entry s \<in> set ?es" if "s \<in> set ss" for s
    using that mark by (auto simp: ss_def all_assignments_def block_marked_def)
  moreover have "distinct ?es" "list_all is_assignment ss" "distinct (map stat_id ss)"
    using assms(1) by (auto simp: flow_marked_def ss_def all_assignments_def list_all_iff)
  ultimately obtain n A0 A B where n: "init_entries ?es 1 [] = (n, A0)" "init_stats ss n A0 [] = Some (A, B)"
    "numbering ?es ss A B" using numbering_init [of ?es ss] by blast
  have "b_bounded (?h ! b) = [] \<and> i_gen (?h ! b) = 0 \<and> i_kill (?h ! b) = 0
       \<and> (\<forall>(e, d) \<in> set (b_gen (?h ! b)). e \<in> set ?es \<and> (\<forall>s. d = Some s \<longrightarrow> s \<in> set ss))"
    if "b \<in> set (fl_blocks f)" for b
    using mark [OF that] marked_items [OF mark [OF that]] that
    by (auto simp: block_marked_def ss_def all_assignments_def)
  moreover have "set (fl_blocks f) \<subseteq> {..<length ?h}" using assms(3) by auto
  ultimately obtain h where h: "init_blocks A B (fl_blocks f) ?h = Some h" "length h = length ?h"
    "\<And>b. if b \<in> set (fl_blocks f) then block_masks ?es ss (?h ! b) (h ! b) else h ! b = ?h ! b"
    using init_blocks_spec [OF n(3) assms(2), of ?h] by blast
  let ?f = "f\<lparr>fl_heap := update_block entry_point (init_entry_point A) h, fl_assmts := A, stat_bits := B\<rparr>"
  have entry: "entry_point \<notin> set (fl_blocks f)" using assms(3) by (auto simp: entry_point_def)
  have "initialize f = Some ?f"
    using n(1,2) h(1) by (simp add: initialize_def ss_def all_assignments_def init_stats_assignments)
  moreover have "numbering ?es ss (fl_assmts ?f) (stat_bits ?f)" using n(3) by simp
  moreover have "length (fl_heap ?f) = length ?h" using h(2) by simp
  moreover have "block_masks ?es ss (?h ! b) (fl_heap ?f ! b)" if "b \<in> set (fl_blocks f)" for b
    using h(3) [of b] that entry assms(3) h(2) nth_update_block [of b h entry_point "init_entry_point A"]
    by (auto simp: subset_iff split: if_splits)
  moreover have "fl_heap ?f ! entry_point = init_entry_point (fl_assmts ?f) (?h ! entry_point)"
    using h(3) [of entry_point] entry assms(4) h(2) by (simp add: nth_update_block)
  moreover have "fl_heap ?f ! b = ?h ! b" if "b \<notin> set (fl_blocks f)" "b \<noteq> entry_point" for b
    using h(3) [of b] that by (simp add: update_block_def)
  ultimately show thesis by (intro that [of ?f]) simp_all
qed

end
