(* ===== verification/FlowCorrect.thy ===== *)
theory FlowCorrect
  imports FlowInit
begin

text \<open>
  The three steps together: after \<open>normalize\<close>, \<open>initialize\<close> and \<open>reaching_definitions\<close>, the states
  that \<open>map_one\<close> reads at the start of a block are the values an entry can have there.
\<close>

subsection \<open>A normalised graph\<close>

definition flow_normal :: "flow \<Rightarrow> bool" where
  "flow_normal f \<longleftrightarrow>
     linked (fl_heap f) \<and> distinct (fl_blocks f) \<and> set (fl_blocks f) \<subseteq> {0<..<length (fl_heap f)}
     \<and> entry_point < length (fl_heap f)
     \<and> edges_of (fl_heap f) \<subseteq> insert entry_point (set (fl_blocks f)) \<times> set (fl_blocks f)
     \<and> (\<forall>b \<in> set (fl_blocks f). runs_to (fl_heap f) b \<noteq> {})"

lemma distinct_assignments_filter:
  "distinct (map stat_id (filter is_assignment (concat (map g xs))))
   \<Longrightarrow> distinct (map stat_id (filter is_assignment (concat (map g (filter P xs)))))"
proof (induction xs)
  case (Cons x xs)
  have "set (filter is_assignment (concat (map g (filter P xs)))) \<subseteq> set (filter is_assignment (concat (map g xs)))"
    by auto
  then show ?case using Cons by (auto simp: image_iff)
qed simp

lemma marked_same_content:
  assumes "flow_marked f" "same_content (fl_heap f) h" "set bs \<subseteq> {0<..<length (fl_heap f)}"
    and "entry_point < length (fl_heap f)" "bs = filter P (fl_blocks f)"
  shows "flow_marked (f\<lparr>fl_heap := h, fl_blocks := bs\<rparr>)"
proof -
  note nth = same_content_nth [OF assms(2)]
  have stats: "b_stats (h ! b) = b_stats (fl_heap f ! b)" if "b < length (fl_heap f)" for b
    using content_fields(1) [OF nth [OF that]] .
  have mark: "block_marked (fl_entries f) (h ! b)" if "b < length (fl_heap f)" for b
  proof -
    have "block_marked (fl_entries f) (fl_heap f ! b)" using assms(1) that by (simp add: flow_marked_def)
    then show ?thesis
      using nth [OF that] by (cases "h ! b"; cases "fl_heap f ! b") (simp add: block_marked_def content_def)
  qed
  have map_same: "map (\<lambda>b. b_stats (h ! b)) bs = map (\<lambda>b. b_stats (fl_heap f ! b)) bs"
    using stats assms(3) by (intro map_cong refl) auto
  have "all_assignments (f\<lparr>fl_heap := h, fl_blocks := bs\<rparr>)
      = filter is_assignment (concat (map (\<lambda>b. b_stats (h ! b)) bs))"
    by (simp add: all_assignments_def)
  also have "\<dots> = filter is_assignment (concat (map (\<lambda>b. b_stats (fl_heap f ! b)) (filter P (fl_blocks f))))"
    unfolding map_same by (simp add: assms(5))
  finally have all: "all_assignments (f\<lparr>fl_heap := h, fl_blocks := bs\<rparr>)
      = filter is_assignment (concat (map (\<lambda>b. b_stats (fl_heap f ! b)) (filter P (fl_blocks f))))" .
  have "distinct (map stat_id (filter is_assignment (concat (map (\<lambda>b. b_stats (fl_heap f ! b)) (fl_blocks f)))))"
    using assms(1) by (simp only: flow_marked_def all_assignments_def)
  from distinct_assignments_filter [OF this, of P]
  have "distinct (map stat_id (all_assignments (f\<lparr>fl_heap := h, fl_blocks := bs\<rparr>)))"
    by (simp only: all)
  then show ?thesis
    using assms(1) mark stats [OF assms(4)] same_content_length [OF assms(2)]
    by (auto simp: flow_marked_def)
qed

lemma normalize_normal:
  assumes "flow_ok f" "flow_marked f" "entry_point \<notin> Range (edges_of (fl_heap f))"
  obtains f' where "normalize f = Some f'" "flow_normal f'" "flow_marked f'" "fl_entries f' = fl_entries f"
    "fl_blocks f' = filter (\<lambda>b. b \<in> reachable (fl_heap f) \<and> \<not> block_empty (fl_heap f ! b)) (fl_blocks f)"
    "\<And>b. b \<in> set (fl_blocks f') \<Longrightarrow> runs_to (fl_heap f') b = runs_to (fl_heap f) b"
    "same_content (fl_heap f) (fl_heap f')"
proof (rule normalize_run [OF assms(1)])
  fix f' assume f': "normalize f = Some f'" "linked (fl_heap f')" "same_content (fl_heap f) (fl_heap f')"
    "fl_blocks f' = filter (\<lambda>b. b \<in> reachable (fl_heap f) \<and> \<not> block_empty (fl_heap f ! b)) (fl_blocks f)"
    "f' = f\<lparr>fl_heap := fl_heap f', fl_blocks := fl_blocks f'\<rparr>"
    "edges_of (fl_heap f') \<subseteq> insert entry_point (set (fl_blocks f')) \<times> insert entry_point (set (fl_blocks f'))"
    "Range (edges_of (fl_heap f')) \<subseteq> Range (edges_of (fl_heap f))"
    "\<And>b. b = entry_point \<or> b \<in> set (fl_blocks f') \<Longrightarrow> runs_to (fl_heap f') b = runs_to (fl_heap f) b"
  have len: "length (fl_heap f') = length (fl_heap f)" by (rule same_content_length [OF f'(3)])
  have "1 < length (fl_heap f)" using assms(1) by (simp add: flow_ok_def exit_point_def)
  then have "entry_point < length (fl_heap f)" by (simp only: entry_point_def)
  moreover have "distinct (fl_blocks f)" "set (fl_blocks f) = {0<..<length (fl_heap f)}"
    using assms(1) by (simp_all only: flow_ok_def)
  ultimately have ok: "entry_point < length (fl_heap f)" "distinct (fl_blocks f)"
    "set (fl_blocks f) = {0<..<length (fl_heap f)}" .
  have sub: "set (fl_blocks f') \<subseteq> {0<..<length (fl_heap f)}" unfolding f'(4) ok(3) [symmetric] by (rule filter_is_subset)
  have "edges_of (fl_heap f') \<subseteq> insert entry_point (set (fl_blocks f')) \<times> set (fl_blocks f')"
    using f'(6,7) assms(3) by fastforce
  moreover have "runs_to (fl_heap f') b \<noteq> {}" if "b \<in> set (fl_blocks f')" for b
    using that f'(4,8) reachable_runs [of b "fl_heap f"] by auto
  ultimately have "flow_normal f'"
    using f'(2,4) ok sub len by (simp add: flow_normal_def)
  moreover have "flow_marked f'"
    using marked_same_content [OF assms(2) f'(3) sub ok(1) f'(4)] f'(5) by simp
  moreover have "fl_entries f' = fl_entries f" by (subst f'(5)) simp
  ultimately show thesis using that f'(1,3,4,8) by blast
qed


subsection \<open>What reaches a block\<close>

text \<open>A state of an entry: unset, or set by one of its assignments.\<close>

definition state_of_entry :: "flow_stat list \<Rightarrow> cf_entry \<Rightarrow> flow_stat option \<Rightarrow> bool" where
  "state_of_entry ss e d \<longleftrightarrow> (\<forall>s. d = Some s \<longrightarrow> s \<in> set ss \<and> stat_entry s = e)"

text \<open>\<open>h\<close> is the heap of a flow after \<open>initialize\<close>.\<close>

definition initialized :: "flow \<Rightarrow> heap \<Rightarrow> bool" where
  "initialized f h \<longleftrightarrow>
     length h = length (fl_heap f)
     \<and> (\<forall>b \<in> set (fl_blocks f). block_masks (fl_entries f) (all_assignments f) (fl_heap f ! b) (h ! b))
     \<and> i_output (h ! entry_point) = i_gen (h ! entry_point)
     \<and> bits (i_gen (h ! entry_point)) = (\<lambda>e. def_bit (fl_entries f) (all_assignments f) e None) ` set (fl_entries f)
     \<and> b_parents (h ! entry_point) = b_parents (fl_heap f ! entry_point)
     \<and> (\<forall>b. b \<notin> set (fl_blocks f) \<longrightarrow> b \<noteq> entry_point \<longrightarrow> h ! b = fl_heap f ! b)"

lemma block_masks_kill:
  assumes "flow_marked f" "b < length (fl_heap f)" "b \<in> set (fl_blocks f)" "e \<in> set (fl_entries f)"
    and masks: "block_masks (fl_entries f) (all_assignments f) (fl_heap f ! b) b'"
    and d: "state_of_entry (all_assignments f) e d"
  shows "def_bit (fl_entries f) (all_assignments f) e d \<in> bits (i_gen b')
      \<longleftrightarrow> gen_of e (b_stats (fl_heap f ! b)) = Some d"
    and "def_bit (fl_entries f) (all_assignments f) e d \<in> bits (i_kill b')
      \<longleftrightarrow> gen_of e (b_stats (fl_heap f ! b)) \<noteq> None"
proof -
  let ?es = "fl_entries f" and ?ss = "all_assignments f" and ?b = "fl_heap f ! b"
  have mark: "block_marked ?es ?b" and dist: "distinct (map stat_id ?ss)"
    using assms(1,2) by (simp_all add: flow_marked_def)
  have item: "e' \<in> set ?es" "state_of_entry ?ss e' d'" if "(e', d') \<in> set (b_gen ?b)" for e' d'
    using marked_items [OF mark that] assms(3) by (auto simp: state_of_entry_def all_assignments_def)
  have "def_bit ?es ?ss e d \<in> bits (i_gen b') \<longleftrightarrow> (\<exists>(e', d') \<in> set (b_gen ?b). def_bit ?es ?ss e d = def_bit ?es ?ss e' d')"
    using masks by (auto simp: block_masks_def)
  also have "\<dots> \<longleftrightarrow> (e, d) \<in> set (b_gen ?b)"
  proof -
    have "def_bit ?es ?ss e d = def_bit ?es ?ss e' d' \<longleftrightarrow> e = e' \<and> d = d'" if "(e', d') \<in> set (b_gen ?b)" for e' d'
      using def_bit_inject [OF assms(4) item(1) [OF that] _ _ dist] d item(2) [OF that]
      by (simp add: state_of_entry_def)
    then show ?thesis by blast
  qed
  finally show "def_bit ?es ?ss e d \<in> bits (i_gen b') \<longleftrightarrow> gen_of e (b_stats ?b) = Some d"
    by (simp add: marked_gen [OF mark])
  have "def_bit ?es ?ss e d \<in> bits (i_kill b') \<longleftrightarrow> (\<exists>(e', d') \<in> set (b_gen ?b). def_bit ?es ?ss e d \<in> entry_bits ?es ?ss e')"
    using masks by (auto simp: block_masks_def)
  also have "\<dots> \<longleftrightarrow> (\<exists>d'. (e, d') \<in> set (b_gen ?b))"
  proof -
    have "def_bit ?es ?ss e d \<in> entry_bits ?es ?ss e' \<longleftrightarrow> e = e'" if "(e', d') \<in> set (b_gen ?b)" for e' d'
      using def_bit_entry_bits [OF dist assms(4) item(1) [OF that]] d by (simp add: state_of_entry_def)
    then show ?thesis by blast
  qed
  finally show "def_bit ?es ?ss e d \<in> bits (i_kill b') \<longleftrightarrow> gen_of e (b_stats ?b) \<noteq> None"
    by (simp add: marked_gen [OF mark])
qed

lemma reaches_walk:
  assumes normal: "flow_normal f" and marked: "flow_marked f" and init: "initialized f h"
    and e: "e \<in> set (fl_entries f)" and d: "state_of_entry (all_assignments f) e d"
  shows "reaches h (fl_blocks f) (def_bit (fl_entries f) (all_assignments f) e d) b
    \<Longrightarrow> b = entry_point \<or> b \<in> set (fl_blocks f)
    \<Longrightarrow> \<exists>xs. walk (edges_of (fl_heap f)) entry_point xs b
          \<and> value_after e (trace_of (fl_heap f) xs @ b_stats (fl_heap f ! b)) = d"
proof (induction rule: reaches.induct)
  case (reaches_given b)
  then have b: "b = entry_point" by simp
  have "b_stats (fl_heap f ! entry_point) = []" using marked by (simp add: flow_marked_def)
  moreover have "d = None"
  proof -
    obtain e' where "e' \<in> set (fl_entries f)"
      "def_bit (fl_entries f) (all_assignments f) e d = def_bit (fl_entries f) (all_assignments f) e' None"
      using reaches_given init by (auto simp: b initialized_def)
    then show ?thesis
      using def_bit_inject [OF e, of e' d "all_assignments f" None] d marked
      by (simp add: state_of_entry_def flow_marked_def)
  qed
  ultimately show ?case
    by (intro exI [of _ "[]"]) (simp add: b walk.walk_start value_after_def)
next
  case (reaches_gen b)
  have len: "b < length (fl_heap f)" using normal reaches_gen(1) by (auto simp: flow_normal_def)
  have masks: "block_masks (fl_entries f) (all_assignments f) (fl_heap f ! b) (h ! b)"
    using init reaches_gen(1) by (simp add: initialized_def)
  have "gen_of e (b_stats (fl_heap f ! b)) = Some d"
    using block_masks_kill(1) [OF marked len reaches_gen(1) e masks d] reaches_gen(2) by simp
  moreover obtain xs where "walk (edges_of (fl_heap f)) entry_point xs b"
    using normal reaches_gen(1) by (auto simp: flow_normal_def runs_to_def)
  ultimately show ?case by (auto simp: value_after_append)
next
  case (reaches_flow b p)
  have len: "b < length (fl_heap f)" using normal reaches_flow(1) by (auto simp: flow_normal_def)
  have masks: "block_masks (fl_entries f) (all_assignments f) (fl_heap f ! b) (h ! b)"
    using init reaches_flow(1) by (simp add: initialized_def)
  have "gen_of e (b_stats (fl_heap f ! b)) = None"
    using block_masks_kill(2) [OF marked len reaches_flow(1) e masks d] reaches_flow(4) by simp
  moreover have edge: "(p, b) \<in> edges_of (fl_heap f)"
    using linkedD(2) [of "fl_heap f" b p] normal len reaches_flow(2) masks
    by (simp add: flow_normal_def block_masks_def)
  moreover have "p = entry_point \<or> p \<in> set (fl_blocks f)"
    using edge normal by (auto simp: flow_normal_def)
  then obtain xs where "walk (edges_of (fl_heap f)) entry_point xs p"
    "value_after e (trace_of (fl_heap f) xs @ b_stats (fl_heap f ! p)) = d"
    using reaches_flow.IH by blast
  ultimately show ?case
    by (intro exI [of _ "xs @ [p]"]) (simp add: walk.walk_step value_after_append del: append_assoc)
qed

lemma walk_reaches:
  assumes normal: "flow_normal f" and marked: "flow_marked f" and init: "initialized f h"
    and e: "e \<in> set (fl_entries f)" and d: "state_of_entry (all_assignments f) e d"
  shows "walk (edges_of (fl_heap f)) entry_point xs b
    \<Longrightarrow> value_after e (trace_of (fl_heap f) xs @ b_stats (fl_heap f ! b)) = d
    \<Longrightarrow> reaches h (fl_blocks f) (def_bit (fl_entries f) (all_assignments f) e d) b"
proof (induction rule: walk.induct)
  case walk_start
  have "b_stats (fl_heap f ! entry_point) = []" using marked by (simp add: flow_marked_def)
  then have "d = None" using walk_start by (simp add: value_after_def)
  moreover have "entry_point \<notin> set (fl_blocks f)" using normal by (auto simp: flow_normal_def entry_point_def)
  ultimately show ?case using init e by (auto simp: initialized_def intro: reaches_given)
next
  case (walk_step xs v w)
  have w: "w \<in> set (fl_blocks f)" "w < length (fl_heap f)"
    using normal walk_step.hyps(2) by (auto simp: flow_normal_def)
  have masks: "block_masks (fl_entries f) (all_assignments f) (fl_heap f ! w) (h ! w)"
    using init w(1) by (simp add: initialized_def)
  note km = block_masks_kill [OF marked w(2,1) e masks d]
  show ?case
  proof (cases "gen_of e (b_stats (fl_heap f ! w))")
    case None
    then have "value_after e (trace_of (fl_heap f) xs @ b_stats (fl_heap f ! v)) = d"
      using walk_step.prems by (simp add: value_after_append gen_of_append)
    moreover have "v \<in> set (b_parents (h ! w))"
      using linkedD(2) [of "fl_heap f" w v] normal w(2) walk_step.hyps(2) masks
      by (simp add: flow_normal_def block_masks_def)
    ultimately show ?thesis using w(1) walk_step.IH km(2) None by (auto intro: reaches_flow)
  next
    case (Some d')
    then have "d' = d" using walk_step.prems by (simp add: value_after_append gen_of_append)
    then show ?thesis using w(1) km(1) Some by (auto intro: reaches_gen)
  qed
qed


subsection \<open>The analysis as a whole\<close>

lemma walk_last:
  "(\<exists>xs. walk E u xs w \<and> P xs) \<longleftrightarrow> w = u \<and> P [] \<or> (\<exists>xs v. walk E u xs v \<and> (v, w) \<in> E \<and> P (xs @ [v]))"
  by (auto elim: walk.cases intro: walk.intros)

lemma block_masks_start:
  assumes "block_masks es ss b b'"
  shows "i_output b' = i_gen b' \<and> b_parents b' = b_parents b \<and> finite (bits (i_gen b'))"
proof -
  have "i_output b' = i_output (content b')" by (simp add: content_def)
  also have "\<dots> = i_gen b'" using assms by (simp add: block_masks_def)
  finally show ?thesis using assms by (simp add: block_masks_def)
qed

lemma initialize_initialized:
  assumes "flow_normal f" "flow_marked f"
  obtains f' where "initialize f = Some f'" "initialized f (fl_heap f')"
    "numbering (fl_entries f) (all_assignments f) (fl_assmts f') (stat_bits f')"
    "f' = f\<lparr>fl_heap := fl_heap f', fl_assmts := fl_assmts f', stat_bits := stat_bits f'\<rparr>"
proof -
  have ok: "distinct (fl_blocks f)" "set (fl_blocks f) \<subseteq> {0<..<length (fl_heap f)}"
    "entry_point < length (fl_heap f)"
    using assms(1) by (simp_all add: flow_normal_def)
  have "block_marked (fl_entries f) (fl_heap f ! entry_point)" using assms(2) ok(3) by (simp add: flow_marked_def)
  then have g: "i_gen (fl_heap f ! entry_point) = 0" by (simp add: block_marked_def)
  show thesis
  proof (rule initialize_spec [OF assms(2) ok])
    fix f' assume f': "initialize f = Some f'"
      "numbering (fl_entries f) (all_assignments f) (fl_assmts f') (stat_bits f')"
      "f' = f\<lparr>fl_heap := fl_heap f', fl_assmts := fl_assmts f', stat_bits := stat_bits f'\<rparr>"
      "length (fl_heap f') = length (fl_heap f)"
      "\<And>b. b \<in> set (fl_blocks f) \<Longrightarrow> block_masks (fl_entries f) (all_assignments f) (fl_heap f ! b) (fl_heap f' ! b)"
      "fl_heap f' ! entry_point = init_entry_point (fl_assmts f') (fl_heap f ! entry_point)"
      "\<And>b. b \<notin> set (fl_blocks f) \<Longrightarrow> b \<noteq> entry_point \<Longrightarrow> fl_heap f' ! b = fl_heap f ! b"
    have "initialized f (fl_heap f')"
      unfolding initialized_def f'(6)
      using f'(4,5,7) init_entry_point_bits [OF f'(2) g] by (simp add: init_entry_point_def Let_def)
    with f'(1-3) show thesis by (intro that)
  qed
qed

lemma reaching_run:
  assumes "flow_normal f" "flow_marked f" "initialized f h"
  obtains h' where "reaching_loop (fl_blocks f) h = Some h'" "same_static h h'"
    "\<And>b e d. b \<in> set (fl_blocks f) \<Longrightarrow> e \<in> set (fl_entries f) \<Longrightarrow> state_of_entry (all_assignments f) e d
       \<Longrightarrow> def_bit (fl_entries f) (all_assignments f) e d \<in> bits (i_input (h' ! b))
           \<longleftrightarrow> d \<in> value_after e ` runs_to (fl_heap f) b"
proof -
  have ok: "linked (fl_heap f)" "set (fl_blocks f) \<subseteq> {0<..<length (fl_heap f)}" "length h = length (fl_heap f)"
    "edges_of (fl_heap f) \<subseteq> insert entry_point (set (fl_blocks f)) \<times> set (fl_blocks f)"
    using assms(1,3) by (simp_all add: flow_normal_def initialized_def)
  have masks: "i_output (h ! b) = i_gen (h ! b) \<and> b_parents (h ! b) = b_parents (fl_heap f ! b)
      \<and> finite (bits (i_gen (h ! b)))" if "b < length h" for b
  proof -
    consider "b \<in> set (fl_blocks f)" | "b = entry_point" | "h ! b = fl_heap f ! b"
      using assms(3) by (auto simp: initialized_def)
    then show ?thesis
    proof cases
      case 1
      then show ?thesis using assms(3) block_masks_start unfolding initialized_def by metis
    next
      case 2
      then show ?thesis using assms(3) by (simp add: initialized_def)
    next
      case 3
      have "block_marked (fl_entries f) (fl_heap f ! b)"
        using assms(2) that ok(3) by (simp add: flow_marked_def)
      then show ?thesis using 3 by (simp add: block_marked_def)
    qed
  qed
  have parent: "p \<in> set (b_parents (h ! b)) \<longleftrightarrow> (p, b) \<in> edges_of (fl_heap f)" if "b \<in> set (fl_blocks f)" for p b
    using linkedD(2) [OF ok(1), of b p] masks [of b] ok(2,3) that by auto
  have "in_heap h (fl_blocks f)"
    using ok(2,3) parent linkedD(1) [OF ok(1)] unfolding in_heap_def by fastforce
  then obtain h' where h': "reaching_loop (fl_blocks f) h = Some h'" "same_static h h'"
    "\<And>b. b \<in> set (fl_blocks f) \<Longrightarrow> bits (i_input (h' ! b))
        = {n. \<exists>p \<in> set (b_parents (h ! b)). reaches h (fl_blocks f) n p}"
    using reaching_loop_spec [of h "fl_blocks f"] masks by blast
  have "def_bit (fl_entries f) (all_assignments f) e d \<in> bits (i_input (h' ! b))
      \<longleftrightarrow> d \<in> value_after e ` runs_to (fl_heap f) b"
    if b: "b \<in> set (fl_blocks f)" and e: "e \<in> set (fl_entries f)"
      and d: "state_of_entry (all_assignments f) e d" for b e d
  proof -
    let ?n = "def_bit (fl_entries f) (all_assignments f) e d" and ?E = "edges_of (fl_heap f)"
    have "b \<noteq> entry_point" using b ok(2) by (auto simp: entry_point_def)
    have "d \<in> value_after e ` runs_to (fl_heap f) b
        \<longleftrightarrow> (\<exists>xs. walk ?E entry_point xs b \<and> value_after e (trace_of (fl_heap f) xs) = d)"
      by (auto simp: runs_to_def)
    also have "\<dots> \<longleftrightarrow> (\<exists>xs v. walk ?E entry_point xs v \<and> (v, b) \<in> ?E \<and> value_after e (trace_of (fl_heap f) (xs @ [v])) = d)"
      using walk_last [of ?E entry_point b "\<lambda>xs. value_after e (trace_of (fl_heap f) xs) = d"]
      \<open>b \<noteq> entry_point\<close> by blast
    also have "\<dots> \<longleftrightarrow> (\<exists>v. (v, b) \<in> ?E \<and> reaches h (fl_blocks f) ?n v)"
    proof -
      have "(\<exists>xs. walk ?E entry_point xs v \<and> value_after e (trace_of (fl_heap f) (xs @ [v])) = d)
          \<longleftrightarrow> reaches h (fl_blocks f) ?n v" if "(v, b) \<in> ?E" for v
      proof -
        have "v = entry_point \<or> v \<in> set (fl_blocks f)" using ok(4) that by auto
        then show ?thesis
          using reaches_walk [OF assms e d, of v] walk_reaches [OF assms e d, of _ v] by auto
      qed
      then show ?thesis by blast
    qed
    finally show ?thesis using h'(3) [OF b] parent [OF b] by auto
  qed
  with h'(1,2) show thesis by (rule that)
qed

text \<open>The element of the result of \<open>map_one\<close> for a state.\<close>

definition cf_state_of :: "cf_entry \<Rightarrow> flow_stat option \<Rightarrow> cf_state" where
  "cf_state_of e d =
     (case d of
        Some s \<Rightarrow> Assigned s
      | None \<Rightarrow> if is_statically_assigned e then StaticAssignment e
                 else if from_closure e then Unknown else Uninitialized)"

lemma and_bit_iff: "(x :: int) AND 2 ^ n \<noteq> 0 \<longleftrightarrow> n \<in> bits x"
  by (simp add: bits_def and_exp_eq_0_iff_not_bit)

lemma map_one_spec:
  assumes "numbering es ss (fl_assmts f) (stat_bits f)" "e \<in> set es"
  obtains states where "map_one f i e = Some states"
    "set states = cf_state_of e ` {d. state_of_entry ss e d \<and> def_bit es ss e d \<in> bits i}"
proof -
  obtain a where a: "dict_get (fl_assmts f) e = Some a" "al_bit a = 2 ^ def_bit es ss e None"
    "al_stats a = own_stats e ss"
    by (rule numbering_get [OF assms])
  have bit: "i AND (case dict_get (stat_bits f) (stat_id s) of None \<Rightarrow> 0 | Some b \<Rightarrow> b) \<noteq> 0
      \<longleftrightarrow> def_bit es ss e (Some s) \<in> bits i" if "s \<in> set ss" for s
  proof -
    have "dict_get (stat_bits f) (stat_id s) = Some (2 ^ def_bit es ss e (Some s))"
      using assms(1) that by (simp add: numbering_def)
    then show ?thesis by (simp add: and_bit_iff)
  qed
  let ?p = "\<lambda>s. i AND (case dict_get (stat_bits f) (stat_id s) of None \<Rightarrow> 0 | Some b \<Rightarrow> b) \<noteq> 0"
  have run: "map_one f i e = Some ((if def_bit es ss e None \<in> bits i then [cf_state_of e None] else [])
      @ map Assigned (filter ?p (own_stats e ss)))"
    by (simp add: map_one_def a and_bit_iff cf_state_of_def)
  have "filter ?p (own_stats e ss) = filter (\<lambda>s. def_bit es ss e (Some s) \<in> bits i) (own_stats e ss)"
    using bit by (intro filter_cong refl) (auto simp: own_stats_def)
  moreover have "cf_state_of e ` {d. state_of_entry ss e d \<and> def_bit es ss e d \<in> bits i}
      = (if def_bit es ss e None \<in> bits i then {cf_state_of e None} else {})
        \<union> Assigned ` {s. s \<in> set (own_stats e ss) \<and> def_bit es ss e (Some s) \<in> bits i}"
    (is "?l = ?r")
  proof
    show "?l \<subseteq> ?r"
    proof
      fix x assume "x \<in> ?l"
      then obtain d where "x = cf_state_of e d" "state_of_entry ss e d" "def_bit es ss e d \<in> bits i" by blast
      then show "x \<in> ?r"
        by (cases d) (auto simp: cf_state_of_def state_of_entry_def own_stats_def)
    qed
    have "Assigned s \<in> ?l" if "s \<in> set (own_stats e ss)" "def_bit es ss e (Some s) \<in> bits i" for s
      using that by (intro image_eqI [of _ _ "Some s"]) (auto simp: cf_state_of_def state_of_entry_def own_stats_def)
    moreover have "cf_state_of e None \<in> ?l" if "def_bit es ss e None \<in> bits i"
      using that by (intro image_eqI [of _ _ None]) (auto simp: state_of_entry_def)
    ultimately show "?r \<subseteq> ?l" by auto
  qed
  ultimately show thesis using that [OF run] by auto
qed

end
