(* ===== verification/FlowCheck.thy ===== *)
theory FlowCheck
  imports FlowReach "HOL-Library.Product_Lexorder"
begin

text \<open>
  \<open>check_definitions\<close> of \<open>Cython/Compiler/FlowControl.py\<close>: the states each name node can see, the
  hints for code generation, and the messages about unset and unused names. What the code stores in
  attributes of nodes, assignments and entries is kept in dictionaries.
\<close>

unbundle bit_operations_syntax

subsection \<open>Collecting states\<close>

record check_state =
  cf_states :: "(cf_node, cf_state list) pydict"
  assmt_nodes :: "cf_node list"
  cs_assignments :: "flow_stat list"
  cs_references :: "(cf_node, cf_entry) pydict"
  assmt_refs :: "(nat, flow_stat list) pydict"
  cf_assignments :: "(cf_entry, flow_stat list) pydict"
  cf_references :: "(cf_entry, flow_stat list) pydict"

text \<open>The lists of an entry that comes from an enclosing scope are shared with it, so the state starts
  with the lists that earlier functions have left.\<close>

definition check_state_init ::
  "(cf_entry, flow_stat list) pydict \<Rightarrow> (cf_entry, flow_stat list) pydict \<Rightarrow> check_state" where
  "check_state_init assignments references =
     \<lparr>cf_states = [], assmt_nodes = [], cs_assignments = [], cs_references = [], assmt_refs = [],
      cf_assignments = assignments, cf_references = references\<rparr>"

definition dict_list :: "('k, 'v list) pydict \<Rightarrow> 'k \<Rightarrow> 'v list" where
  "dict_list d k = (case dict_get d k of None \<Rightarrow> [] | Some xs \<Rightarrow> xs)"

text \<open>\<open>set.update\<close>: every \<open>StaticAssignment\<close> is a new object, the other states are compared.\<close>

fun update_states :: "cf_state list \<Rightarrow> cf_state list \<Rightarrow> cf_state list" where
  "update_states [] states = states"
| "update_states (s # new) states =
     update_states new
       (case s of StaticAssignment e \<Rightarrow> states @ [s] | _ \<Rightarrow> if s \<in> set states then states else states @ [s])"

definition add_states :: "cf_node \<Rightarrow> cf_state list \<Rightarrow> check_state \<Rightarrow> check_state" where
  "add_states node new c =
     c\<lparr>cf_states := dict_set node (update_states new (dict_list (cf_states c) node)) (cf_states c)\<rparr>"

text \<open>\<open>assmt.refs.add(stat)\<close> for the assignments among the states.\<close>

fun add_refs :: "cf_state list \<Rightarrow> flow_stat \<Rightarrow> (nat, flow_stat list) pydict \<Rightarrow> (nat, flow_stat list) pydict" where
  "add_refs [] stat refs = refs"
| "add_refs (Assigned a # states) stat refs =
     add_refs states stat (dict_set (stat_id a) (List.insert stat (dict_list refs (stat_id a))) refs)"
| "add_refs (s # states) stat refs = add_refs states stat refs"

definition check_assignment :: "flow_stat \<Rightarrow> cf_state list \<Rightarrow> check_state \<Rightarrow> check_state" where
  "check_assignment stat states c =
     (let c = add_states (stat_node stat) states c;
          c = c\<lparr>assmt_nodes := List.insert (stat_node stat) (assmt_nodes c),
                cs_assignments := List.insert stat (cs_assignments c)\<rparr>
      in if rhs_fake stat then c
         else c\<lparr>cf_assignments := dict_set (stat_entry stat)
                  (dict_list (cf_assignments c) (stat_entry stat) @ [stat]) (cf_assignments c)\<rparr>)"

definition check_reference :: "flow_stat \<Rightarrow> cf_state list \<Rightarrow> check_state \<Rightarrow> check_state" where
  "check_reference stat states c =
     (let c = add_states (stat_node stat) states c
      in c\<lparr>cs_references := dict_set (stat_node stat) (stat_entry stat) (cs_references c),
           cf_references := dict_set (stat_entry stat)
              (dict_list (cf_references c) (stat_entry stat) @ [stat]) (cf_references c),
           assmt_refs := add_refs states stat (assmt_refs c)\<rparr>)"

text \<open>The mask after an assignment; \<open>None\<close> is a missing key.\<close>

definition assigned_mask :: "flow \<Rightarrow> flow_stat \<Rightarrow> int \<Rightarrow> int option" where
  "assigned_mask f stat i_state =
     (case dict_get (fl_assmts f) (stat_entry stat) of
        None \<Rightarrow> None
      | Some a \<Rightarrow>
          let i_state = i_state AND NOT (al_mask a) in
          if is_deletion stat then Some (i_state OR al_bit a)
          else (case dict_get (stat_bits f) (stat_id stat) of
                  None \<Rightarrow> None
                | Some b \<Rightarrow> Some (i_state OR b)))"

fun check_stats :: "flow \<Rightarrow> flow_stat list \<Rightarrow> int \<Rightarrow> check_state \<Rightarrow> check_state option" where
  "check_stats f [] i_state c = Some c"
| "check_stats f (stat # stats) i_state c =
     (case map_one f i_state (stat_entry stat) of
        None \<Rightarrow> None
      | Some states \<Rightarrow>
          if is_assignment stat then
            (case assigned_mask f stat i_state of
               None \<Rightarrow> None
             | Some i_state \<Rightarrow> check_stats f stats i_state (check_assignment stat states c))
          else check_stats f stats i_state (check_reference stat states c))"

fun check_blocks :: "flow \<Rightarrow> nat list \<Rightarrow> check_state \<Rightarrow> check_state option" where
  "check_blocks f [] c = Some c"
| "check_blocks f (b # bs) c =
     (case check_stats f (b_stats (fl_heap f ! b)) (i_input (fl_heap f ! b)) c of
        None \<Rightarrow> None
      | Some c \<Rightarrow> check_blocks f bs c)"

subsection \<open>Hints and messages\<close>

record directives =
  warn_maybe_uninitialized :: bool
  warn_unused_result :: bool
  warn_unused :: bool
  warn_unused_arg :: bool
  opt_error_on_uninitialized :: bool

text \<open>\<open>(pos, is_error, message)\<close>.\<close>

type_synonym message = "(int \<times> int) \<times> bool \<times> string"

text \<open>\<open>cf_maybe_null\<close> and \<open>cf_is_null\<close> of a node; the default is the one of the class \<open>NameNode\<close>.\<close>

record node_hint =
  cf_maybe_null :: bool
  cf_is_null :: bool

definition hint_default :: node_hint where
  "hint_default = \<lparr>cf_maybe_null = True, cf_is_null = False\<rparr>"

type_synonym hints = "(cf_node, node_hint) pydict"

definition hint_of :: "hints \<Rightarrow> cf_node \<Rightarrow> node_hint" where
  "hint_of hints node = (case dict_get hints node of None \<Rightarrow> hint_default | Some h \<Rightarrow> h)"

definition assignment_hint :: "check_state \<Rightarrow> hints \<Rightarrow> cf_node \<Rightarrow> hints" where
  "assignment_hint c hints node =
     (let states = dict_list (cf_states c) node; hint = hint_of hints node in
      dict_set node
        (if Uninitialized \<in> set states
         then hint\<lparr>cf_maybe_null := True, cf_is_null := (length states = 1)\<rparr>
         else if Unknown \<in> set states then hint\<lparr>cf_maybe_null := True\<rparr>
         else hint\<lparr>cf_is_null := False, cf_maybe_null := False\<rparr>) hints)"

definition local_variable_message :: "cf_entry \<Rightarrow> string \<Rightarrow> string" where
  "local_variable_message entry what = ''local variable '' @ [CHR 0x27] @ entry_name entry @ [CHR 0x27] @ what"

definition reference_hint :: "check_state \<Rightarrow> hints \<Rightarrow> cf_node \<Rightarrow> cf_entry \<Rightarrow> node_hint" where
  "reference_hint c hints node entry =
     (let states = dict_list (cf_states c) node; hint = hint_of hints node in
      if Uninitialized \<in> set states then
        let hint = hint\<lparr>cf_maybe_null := True\<rparr> in
        if \<not> from_closure entry \<and> length states = 1 \<and> \<not> is_predefined entry
        then hint\<lparr>cf_is_null := True\<rparr> else hint
      else if Unknown \<in> set states then hint\<lparr>cf_maybe_null := True\<rparr>
      else hint\<lparr>cf_is_null := False, cf_maybe_null := False\<rparr>)"

definition reference_messages ::
  "directives \<Rightarrow> check_state \<Rightarrow> node_hint \<Rightarrow> cf_node \<Rightarrow> cf_entry \<Rightarrow> message list" where
  "reference_messages d c hint node entry =
     (if Uninitialized \<notin> set (dict_list (cf_states c) node) then []
      else if allow_null node \<or> from_closure entry \<or> is_pyclass_attr entry \<or> type_is_error entry then []
      else if cf_is_null hint \<and> \<not> in_closure entry then
        [(node_pos node,
          error_on_uninitialized entry
            \<or> opt_error_on_uninitialized d \<and> (type_is_pyobject entry \<or> type_is_unspecified entry),
          local_variable_message entry '' referenced before assignment'')]
      else if warn_maybe_uninitialized d then
        [(node_pos node, False,
          local_variable_message entry '' might be referenced before assignment''
            @ (if in_closure entry then '' (maybe initialized inside a closure)'' else []))]
      else [])"

fun check_references ::
  "directives \<Rightarrow> check_state \<Rightarrow> (cf_node \<times> cf_entry) list \<Rightarrow> hints \<Rightarrow> message list \<Rightarrow> hints \<times> message list" where
  "check_references d c [] hints msgs = (hints, msgs)"
| "check_references d c ((node, entry) # refs) hints msgs =
     (let hint = reference_hint c hints node entry
      in check_references d c refs (dict_set node hint hints) (msgs @ reference_messages d c hint node entry))"

definition unused_message :: "string \<Rightarrow> cf_entry \<Rightarrow> string" where
  "unused_message what entry = what @ [CHR 0x27] @ entry_name entry @ [CHR 0x27]"

definition unused_result_messages :: "directives \<Rightarrow> check_state \<Rightarrow> flow_stat \<Rightarrow> message list" where
  "unused_result_messages d c assmt =
     (let entry = stat_entry assmt in
      if dict_list (assmt_refs c) (stat_id assmt) = [] \<and> \<not> is_pyclass_attr entry \<and> \<not> in_closure entry
         \<and> dict_list (cf_references c) entry \<noteq> [] \<and> warn_unused_result d
      then [(node_pos (stat_node assmt), False,
             unused_message (if stat_kind assmt = Argument then ''Unused argument value '' else ''Unused result in '') entry)]
      else [])"

text \<open>The assignments and entries whose \<open>cf_used\<close> becomes false.\<close>

definition unused_assignments :: "check_state \<Rightarrow> cf_node list" where
  "unused_assignments c =
     map stat_node
       (filter (\<lambda>a. dict_list (assmt_refs c) (stat_id a) = [] \<and> \<not> is_pyclass_attr (stat_entry a)
                     \<and> \<not> in_closure (stat_entry a)) (cs_assignments c))"

definition unused_entries :: "check_state \<Rightarrow> cf_entry list \<Rightarrow> cf_entry list" where
  "unused_entries c entries =
     filter (\<lambda>e. dict_list (cf_references c) e = [] \<and> \<not> is_pyclass_attr e) entries"

definition unused_entry_messages :: "directives \<Rightarrow> cf_entry \<Rightarrow> message list" where
  "unused_entry_messages d e =
     (if entry_name e = ''_'' \<or> take 6 (entry_name e) = ''unused'' then []
      else if is_arg e then
        (if warn_unused_arg d then [(entry_pos e, False, unused_message ''Unused argument '' e)] else [])
      else (if warn_unused d then [(entry_pos e, False, unused_message ''Unused entry '' e)] else []))"

text \<open>\<open>ControlFlowState\<close>: its flags and its list.\<close>

record flow_state =
  fs_maybe_null :: bool
  fs_is_null :: bool
  fs_is_single :: bool
  fs_items :: "cf_state list"

definition is_fake :: "cf_state \<Rightarrow> bool" where
  "is_fake s = (case s of Assigned a \<Rightarrow> rhs_fake a | _ \<Rightarrow> False)"

definition control_flow_state :: "cf_state list \<Rightarrow> flow_state" where
  "control_flow_state state =
     (if Uninitialized \<in> set state then
        let state = removeAll Uninitialized state in
        \<lparr>fs_maybe_null = True, fs_is_null = (state = []), fs_is_single = False,
         fs_items = filter (\<lambda>i. \<not> is_fake i) state\<rparr>
      else if Unknown \<in> set state then
        \<lparr>fs_maybe_null = True, fs_is_null = False, fs_is_single = False,
         fs_items = filter (\<lambda>i. \<not> is_fake i) (removeAll Unknown state)\<rparr>
      else
        \<lparr>fs_maybe_null = False, fs_is_null = False, fs_is_single = (length state = 1),
         fs_items = filter (\<lambda>i. \<not> is_fake i) state\<rparr>)"

text \<open>The two last loops: a node that is assigned and referenced, the target of a \<open>del\<close>, has its list
  wrapped again.\<close>

definition final_flow_state :: "check_state \<Rightarrow> cf_node \<Rightarrow> cf_state list \<Rightarrow> flow_state" where
  "final_flow_state c node states =
     (let fs = control_flow_state states
      in if node \<in> set (assmt_nodes c) \<and> dict_has (cs_references c) node
         then control_flow_state (fs_items fs) else fs)"

record check_result =
  cr_state :: check_state
  cr_hints :: hints
  cr_messages :: "message list"
  cr_unused_nodes :: "cf_node list"
  cr_unused_entries :: "cf_entry list"
  cr_flow_states :: "(cf_node, flow_state) pydict"

definition check_messages :: "directives \<Rightarrow> flow \<Rightarrow> check_state \<Rightarrow> check_result" where
  "check_messages d f c =
     (let hints = foldl (assignment_hint c) [] (assmt_nodes c);
          (hints, msgs) = check_references d c (cs_references c) hints [];
          msgs = msgs @ concat (map (unused_result_messages d c) (cs_assignments c));
          msgs = msgs @ concat (map (unused_entry_messages d) (unused_entries c (fl_entries f)))
      in \<lparr>cr_state = c, cr_hints = hints, cr_messages = sort (remdups msgs),
          cr_unused_nodes = unused_assignments c, cr_unused_entries = unused_entries c (fl_entries f),
          cr_flow_states = map (\<lambda>(node, states). (node, final_flow_state c node states)) (cf_states c)\<rparr>)"

definition check_definitions ::
  "directives \<Rightarrow> (cf_entry, flow_stat list) pydict \<Rightarrow> (cf_entry, flow_stat list) pydict \<Rightarrow> flow
   \<Rightarrow> check_result option" where
  "check_definitions d assignments references f =
     (case initialize f of
        None \<Rightarrow> None
      | Some f \<Rightarrow>
          (case reaching_definitions f of
             None \<Rightarrow> None
           | Some f \<Rightarrow>
               (case check_blocks f (fl_blocks f) (check_state_init assignments references) of
                  None \<Rightarrow> None
                | Some c \<Rightarrow> Some (check_messages d f c))))"

end
