(* ===== verification/FlowSound.thy ===== *)
theory FlowSound
  imports FlowCorrect FlowCheck
begin

text \<open>
  The results of \<open>check_definitions\<close> against the runs of the graph: the states of a name node are
  the values its entry can have there, and the hints and messages follow from them.
\<close>

subsection \<open>Masks inside a block\<close>

definition tracks :: "cf_entry list \<Rightarrow> flow_stat list \<Rightarrow> int \<Rightarrow> flow_stat list set \<Rightarrow> bool" where
  "tracks es ss i R \<longleftrightarrow>
     (\<forall>e \<in> set es. \<forall>d. state_of_entry ss e d \<longrightarrow> (def_bit es ss e d \<in> bits i \<longleftrightarrow> d \<in> value_after e ` R))"

lemma value_after_snoc:
  "value_after e (r @ [s]) =
     (if is_assignment s \<and> stat_entry s = e then (if is_deletion s then None else Some s) else value_after e r)"
  by (simp add: value_after_def)

lemma assigned_mask_spec:
  assumes num: "numbering es ss (fl_assmts f) (stat_bits f)" and dist: "distinct (map stat_id ss)"
    and tr: "tracks es ss i R" and "R \<noteq> {}" and s: "is_assignment s" "s \<in> set ss" "stat_entry s \<in> set es"
  obtains i' where "assigned_mask f s i = Some i'" "tracks es ss i' ((\<lambda>r. r @ [s]) ` R)"
proof -
  let ?e = "stat_entry s" and ?d = "if is_deletion s then None else Some s"
  obtain a where a: "dict_get (fl_assmts f) ?e = Some a" "al_bit a = 2 ^ def_bit es ss ?e None"
    "bits (al_mask a) = entry_bits es ss ?e"
    by (rule numbering_get [OF num s(3)])
  have "dict_get (stat_bits f) (stat_id s) = Some (2 ^ def_bit es ss ?e (Some s))"
    using num s(2) by (simp add: numbering_def)
  then obtain i' where i': "assigned_mask f s i = Some i'"
    "bits i' = bits i - entry_bits es ss ?e \<union> {def_bit es ss ?e ?d}"
    using a by (cases "is_deletion s") (auto simp: assigned_mask_def Let_def)
  have d: "state_of_entry ss ?e ?d" using s by (simp add: state_of_entry_def)
  have "tracks es ss i' ((\<lambda>r. r @ [s]) ` R)"
    unfolding tracks_def
  proof (intro ballI allI impI)
    fix e d' assume e: "e \<in> set es" and d': "state_of_entry ss e d'"
    have inj: "def_bit es ss e d' = def_bit es ss ?e ?d \<longleftrightarrow> e = ?e \<and> d' = ?d"
      using def_bit_inject [OF e s(3) _ _ dist, of d' ?d] d d' by (simp add: state_of_entry_def)
    have own: "def_bit es ss e d' \<in> entry_bits es ss ?e \<longleftrightarrow> e = ?e"
      using def_bit_entry_bits [OF dist e s(3), of d'] d' by (simp add: state_of_entry_def)
    have "(value_after e \<circ> (\<lambda>r. r @ [s])) ` R = (if e = ?e then {?d} else value_after e ` R)"
      using \<open>R \<noteq> {}\<close> s(1) by (auto simp: value_after_snoc image_iff)
    moreover have "def_bit es ss e d' \<in> bits i \<longleftrightarrow> d' \<in> value_after e ` R"
      using tr e d' by (simp add: tracks_def)
    ultimately show "def_bit es ss e d' \<in> bits i' \<longleftrightarrow> d' \<in> value_after e ` (\<lambda>r. r @ [s]) ` R"
      unfolding i'(2) image_comp using inj own by auto
  qed
  with i'(1) show thesis by (rule that)
qed

lemma tracks_states:
  assumes "numbering es ss (fl_assmts f) (stat_bits f)" and "tracks es ss i R" and "e \<in> set es"
    and "\<And>r s. r \<in> R \<Longrightarrow> s \<in> set r \<Longrightarrow> is_assignment s \<Longrightarrow> s \<in> set ss"
  obtains states where "map_one f i e = Some states" "set states = (\<lambda>r. cf_state_of e (value_after e r)) ` R"
proof -
  obtain states where st: "map_one f i e = Some states"
    "set states = cf_state_of e ` {d. state_of_entry ss e d \<and> def_bit es ss e d \<in> bits i}"
    by (rule map_one_spec [OF assms(1,3)])
  have "{d. state_of_entry ss e d \<and> def_bit es ss e d \<in> bits i} = value_after e ` R"
  proof -
    have "state_of_entry ss e (value_after e r)" if "r \<in> R" for r
      using gen_of_mem [of e r] assms(4) [OF that]
      by (auto simp: state_of_entry_def value_after_def split: option.splits)
    then show ?thesis using assms(2,3) unfolding tracks_def by blast
  qed
  with st show thesis by (intro that) (auto simp: image_image)
qed

subsection \<open>The collected states\<close>

lemma set_update_states: "set (update_states new states) = set states \<union> set new"
  by (induction new states rule: update_states.induct) (auto split: cf_state.splits)

definition states_at :: "check_state \<Rightarrow> cf_node \<Rightarrow> cf_state set" where
  "states_at c node = set (dict_list (cf_states c) node)"

lemma states_at_add:
  "states_at (add_states n new c) node = states_at c node \<union> (if node = n then set new else {})"
  by (auto simp: states_at_def add_states_def dict_list_def dict_get_set set_update_states)

lemma states_at_check:
  "states_at (check_assignment s new c) node = states_at c node \<union> (if node = stat_node s then set new else {})"
  "states_at (check_reference s new c) node = states_at c node \<union> (if node = stat_node s then set new else {})"
proof -
  have "states_at (check_assignment s new c) node = states_at (add_states (stat_node s) new c) node"
    "states_at (check_reference s new c) node = states_at (add_states (stat_node s) new c) node"
    by (simp_all add: check_assignment_def check_reference_def states_at_def Let_def)
  then show "states_at (check_assignment s new c) node = states_at c node \<union> (if node = stat_node s then set new else {})"
    "states_at (check_reference s new c) node = states_at c node \<union> (if node = stat_node s then set new else {})"
    by (simp_all only: states_at_add)
qed

text \<open>The states the statements of a block contribute to a node.\<close>

definition seen :: "flow_stat list \<Rightarrow> flow_stat list set \<Rightarrow> cf_node \<Rightarrow> cf_state set" where
  "seen stats R node =
     {cf_state_of (stat_entry s) (value_after (stat_entry s) (r @ pre)) | r pre s post.
        stats = pre @ s # post \<and> stat_node s = node \<and> r \<in> R}"

lemma seen_Nil [simp]: "seen [] R node = {}"
  by (simp add: seen_def)

lemma seen_Cons:
  "seen (s # stats) R node =
     (if node = stat_node s then (\<lambda>r. cf_state_of (stat_entry s) (value_after (stat_entry s) r)) ` R else {})
     \<union> seen stats ((\<lambda>r. r @ [s]) ` R) node"
  (is "?l = ?a \<union> ?b")
proof
  show "?l \<subseteq> ?a \<union> ?b"
  proof
    fix x assume "x \<in> ?l"
    then obtain r pre t post where x: "x = cf_state_of (stat_entry t) (value_after (stat_entry t) (r @ pre))"
      "s # stats = pre @ t # post" "stat_node t = node" "r \<in> R" by (auto simp: seen_def)
    show "x \<in> ?a \<union> ?b"
    proof (cases pre)
      case Nil
      then show ?thesis using x by auto
    next
      case (Cons p pre')
      then have "x = cf_state_of (stat_entry t) (value_after (stat_entry t) ((r @ [s]) @ pre'))" "stats = pre' @ t # post"
        using x(1,2) by simp_all
      then have "x \<in> ?b" unfolding seen_def using x(3,4) by blast
      then show ?thesis ..
    qed
  qed
  have "?a \<subseteq> ?l"
  proof
    fix x assume "x \<in> ?a"
    then obtain r where r: "node = stat_node s" "r \<in> R"
      "x = cf_state_of (stat_entry s) (value_after (stat_entry s) (r @ []))"
      by (auto split: if_splits)
    moreover have "s # stats = [] @ s # stats" by simp
    ultimately show "x \<in> ?l" unfolding seen_def by blast
  qed
  moreover have "?b \<subseteq> ?l"
  proof
    fix x assume "x \<in> ?b"
    then obtain r pre t post where x: "x = cf_state_of (stat_entry t) (value_after (stat_entry t) ((r @ [s]) @ pre))"
      "stats = pre @ t # post" "stat_node t = node" "r \<in> R" by (auto simp: seen_def)
    then have "x = cf_state_of (stat_entry t) (value_after (stat_entry t) (r @ (s # pre)))"
      "s # stats = (s # pre) @ t # post" by simp_all
    then show "x \<in> ?l" unfolding seen_def using x(3,4) by blast
  qed
  ultimately show "?a \<union> ?b \<subseteq> ?l" by simp
qed

lemma tracks_reference:
  assumes "tracks es ss i R" "\<not> is_assignment s"
  shows "tracks es ss i ((\<lambda>r. r @ [s]) ` R)"
  using assms by (simp add: tracks_def image_image value_after_snoc)

lemma check_stats_spec:
  assumes num: "numbering es ss (fl_assmts f) (stat_bits f)" and dist: "distinct (map stat_id ss)"
  shows "tracks es ss i R \<Longrightarrow> R \<noteq> {} \<Longrightarrow> (\<And>s. s \<in> set stats \<Longrightarrow> stat_entry s \<in> set es)
    \<Longrightarrow> (\<And>s. s \<in> set stats \<Longrightarrow> is_assignment s \<Longrightarrow> s \<in> set ss)
    \<Longrightarrow> (\<And>r s. r \<in> R \<Longrightarrow> s \<in> set r \<Longrightarrow> is_assignment s \<Longrightarrow> s \<in> set ss)
    \<Longrightarrow> \<exists>c'. check_stats f stats i c = Some c' \<and> (\<forall>node. states_at c' node = states_at c node \<union> seen stats R node)"
proof (induction stats arbitrary: i R c)
  case (Cons s stats)
  have e: "stat_entry s \<in> set es" using Cons.prems(3) by simp
  obtain states where st: "map_one f i (stat_entry s) = Some states"
    "set states = (\<lambda>r. cf_state_of (stat_entry s) (value_after (stat_entry s) r)) ` R"
    by (rule tracks_states [OF num Cons.prems(1) e Cons.prems(5)])
  let ?R = "(\<lambda>r. r @ [s]) ` R"
  have R: "?R \<noteq> {}" using Cons.prems(2) by simp
  have in_ss: "t \<in> set ss" if "r \<in> ?R" "t \<in> set r" "is_assignment t" for r t
    using that Cons.prems(4,5) by auto
  have rest: "\<exists>c'. check_stats f stats j c0 = Some c'
      \<and> (\<forall>node. states_at c' node = states_at c0 node \<union> seen stats ?R node)"
    if "tracks es ss j ?R" for j c0
    using that R in_ss Cons.prems(3,4) by (intro Cons.IH) simp_all
  show ?case
  proof (cases "is_assignment s")
    case True
    obtain i' where i': "assigned_mask f s i = Some i'" "tracks es ss i' ?R"
      using assigned_mask_spec [OF num dist Cons.prems(1,2) True _ e] Cons.prems(4) True by auto
    obtain c' where c': "check_stats f stats i' (check_assignment s states c) = Some c'"
      "\<forall>node. states_at c' node = states_at (check_assignment s states c) node \<union> seen stats ?R node"
      using rest [OF i'(2), of "check_assignment s states c"] by (elim exE conjE)
    have "states_at c' node = states_at c node \<union> seen (s # stats) R node" for node
      unfolding seen_Cons c'(2) [rule_format] states_at_check st(2) by (simp add: Un_assoc)
    then show ?thesis using True st(1) i'(1) c'(1) by simp
  next
    case False
    obtain c' where c': "check_stats f stats i (check_reference s states c) = Some c'"
      "\<forall>node. states_at c' node = states_at (check_reference s states c) node \<union> seen stats ?R node"
      using rest [OF tracks_reference [OF Cons.prems(1) False], of "check_reference s states c"]
      by (elim exE conjE)
    have "states_at c' node = states_at c node \<union> seen (s # stats) R node" for node
      unfolding seen_Cons c'(2) [rule_format] states_at_check st(2) by (simp add: Un_assoc)
    then show ?thesis using False st(1) c'(1) by simp
  qed
qed simp


subsection \<open>The analysis of a flow\<close>

text \<open>What a run of \<open>initialize\<close> and \<open>reaching_definitions\<close> on a normalised flow gives: the statements
  are those of the flow, and the masks track the runs.\<close>

definition analysed :: "flow \<Rightarrow> flow \<Rightarrow> bool" where
  "analysed f f' \<longleftrightarrow>
     fl_blocks f' = fl_blocks f \<and> fl_entries f' = fl_entries f
     \<and> numbering (fl_entries f) (all_assignments f) (fl_assmts f') (stat_bits f')
     \<and> (\<forall>b \<in> set (fl_blocks f). b_stats (fl_heap f' ! b) = b_stats (fl_heap f ! b)
          \<and> tracks (fl_entries f) (all_assignments f) (i_input (fl_heap f' ! b)) (runs_to (fl_heap f) b))"

lemma masked_stats:
  "content b' = content b\<lparr>i_gen := g, i_kill := k, i_output := out\<rparr> \<Longrightarrow> b_stats b' = b_stats b"
  by (drule arg_cong [of _ _ b_stats]) (simp add: content_def)

lemma analysis_run:
  assumes "flow_normal f" "flow_marked f"
  obtains f1 f2 where "initialize f = Some f1" "reaching_definitions f1 = Some f2" "analysed f f2"
proof -
  obtain f1 where f1: "initialize f = Some f1" "initialized f (fl_heap f1)"
    "numbering (fl_entries f) (all_assignments f) (fl_assmts f1) (stat_bits f1)"
    "f1 = f\<lparr>fl_heap := fl_heap f1, fl_assmts := fl_assmts f1, stat_bits := stat_bits f1\<rparr>"
    by (rule initialize_initialized [OF assms])
  have same: "fl_blocks f1 = fl_blocks f" "fl_entries f1 = fl_entries f"
    by (subst f1(4), simp)+
  show thesis
  proof (rule reaching_run [OF assms f1(2)])
    fix h'
    assume h': "reaching_loop (fl_blocks f) (fl_heap f1) = Some h'" "same_static (fl_heap f1) h'"
      and inp: "\<And>b e d. b \<in> set (fl_blocks f) \<Longrightarrow> e \<in> set (fl_entries f) \<Longrightarrow> state_of_entry (all_assignments f) e d
         \<Longrightarrow> def_bit (fl_entries f) (all_assignments f) e d \<in> bits (i_input (h' ! b))
             \<longleftrightarrow> d \<in> value_after e ` runs_to (fl_heap f) b"
    let ?f2 = "f1\<lparr>fl_heap := h'\<rparr>"
    have run: "reaching_definitions f1 = Some ?f2" by (simp add: reaching_definitions_def same h'(1))
    have "b_stats (h' ! b) = b_stats (fl_heap f ! b)" if "b \<in> set (fl_blocks f)" for b
    proof -
      have len: "length (fl_heap f1) = length (fl_heap f)"
        and masks: "block_masks (fl_entries f) (all_assignments f) (fl_heap f ! b) (fl_heap f1 ! b)"
        using f1(2) that by (simp_all add: initialized_def)
      have "b < length (fl_heap f1)" using that assms(1) len by (auto simp: flow_normal_def)
      then have "b_stats (h' ! b) = b_stats (fl_heap f1 ! b)" using same_static_fields(5) [OF h'(2)] by simp
      moreover have "content (fl_heap f1 ! b) = content (fl_heap f ! b)
            \<lparr>i_gen := i_gen (fl_heap f1 ! b), i_kill := i_kill (fl_heap f1 ! b), i_output := i_gen (fl_heap f1 ! b)\<rparr>"
        using masks by (simp only: block_masks_def)
      then have "b_stats (fl_heap f1 ! b) = b_stats (fl_heap f ! b)"
        by (rule masked_stats)
      ultimately show ?thesis by simp
    qed
    then have "analysed f ?f2" using f1(3) inp by (simp add: analysed_def same tracks_def)
    with f1(1) run show thesis by (rule that)
  qed
qed

lemma trace_of_mem: "s \<in> set (trace_of h xs) \<longleftrightarrow> (\<exists>b \<in> set xs. s \<in> set (b_stats (h ! b)))"
  by (induction xs) auto

lemma runs_assignments:
  assumes "flow_normal f" "flow_marked f" "r \<in> runs_to (fl_heap f) b" "s \<in> set r" "is_assignment s"
  shows "s \<in> set (all_assignments f)"
proof -
  obtain xs where xs: "walk (edges_of (fl_heap f)) entry_point xs b" "r = trace_of (fl_heap f) xs"
    using assms(3) by (auto simp: runs_to_def)
  have "set xs \<subseteq> insert entry_point (set (fl_blocks f))"
    using walk_in [OF xs(1), of "insert entry_point (set (fl_blocks f))"] assms(1)
    by (auto simp: flow_normal_def)
  moreover have "b_stats (fl_heap f ! entry_point) = []" using assms(2) by (simp add: flow_marked_def)
  ultimately show ?thesis using assms(4,5) xs(2) by (auto simp: trace_of_mem all_assignments_def)
qed

lemma check_blocks_spec:
  assumes "flow_normal f" "flow_marked f" "analysed f f'"
  shows "set bs \<subseteq> set (fl_blocks f) \<Longrightarrow> \<exists>c'. check_blocks f' bs c = Some c'
    \<and> (\<forall>node. states_at c' node
         = states_at c node \<union> (\<Union>b \<in> set bs. seen (b_stats (fl_heap f ! b)) (runs_to (fl_heap f) b) node))"
proof (induction bs arbitrary: c)
  case (Cons b bs)
  let ?es = "fl_entries f" and ?ss = "all_assignments f" and ?R = "runs_to (fl_heap f) b"
  have b: "b \<in> set (fl_blocks f)" "set bs \<subseteq> set (fl_blocks f)" using Cons.prems by auto
  have num: "numbering ?es ?ss (fl_assmts f') (stat_bits f')" "b_stats (fl_heap f' ! b) = b_stats (fl_heap f ! b)"
    "tracks ?es ?ss (i_input (fl_heap f' ! b)) ?R"
    using assms(3) b(1) by (simp_all add: analysed_def)
  have dist: "distinct (map stat_id ?ss)" using assms(2) by (simp add: flow_marked_def)
  have mark: "block_marked ?es (fl_heap f ! b)"
    using assms(1,2) b(1) by (auto simp: flow_normal_def flow_marked_def)
  have "\<exists>c1. check_stats f' (b_stats (fl_heap f ! b)) (i_input (fl_heap f' ! b)) c = Some c1
      \<and> (\<forall>node. states_at c1 node = states_at c node \<union> seen (b_stats (fl_heap f ! b)) ?R node)"
  proof (rule check_stats_spec [OF num(1) dist num(3)])
    show "?R \<noteq> {}" using assms(1) b(1) by (simp add: flow_normal_def)
    show "stat_entry s \<in> set ?es" if "s \<in> set (b_stats (fl_heap f ! b))" for s
      using mark that by (simp add: block_marked_def)
    show "s \<in> set ?ss" if "s \<in> set (b_stats (fl_heap f ! b))" "is_assignment s" for s
      using that b(1) by (auto simp: all_assignments_def)
    show "s \<in> set ?ss" if "r \<in> ?R" "s \<in> set r" "is_assignment s" for r s
      using runs_assignments [OF assms(1,2) that] .
  qed
  then obtain c1 where c1: "check_stats f' (b_stats (fl_heap f ! b)) (i_input (fl_heap f' ! b)) c = Some c1"
    "\<And>node. states_at c1 node = states_at c node \<union> seen (b_stats (fl_heap f ! b)) ?R node" by blast
  obtain c' where "check_blocks f' bs c1 = Some c'"
    "\<And>node. states_at c' node = states_at c1 node
       \<union> (\<Union>b \<in> set bs. seen (b_stats (fl_heap f ! b)) (runs_to (fl_heap f) b) node)"
    using Cons.IH [OF b(2), of c1] by blast
  then show ?case using c1 num(2) by (simp add: Un_assoc)
qed simp

text \<open>All states the runs of a flow give a node, in its reachable blocks.\<close>

definition run_states :: "flow \<Rightarrow> cf_node \<Rightarrow> cf_state set" where
  "run_states f node =
     {cf_state_of (stat_entry s) (value_after (stat_entry s) (r @ pre)) | r pre s post b.
        b \<in> set (fl_blocks f) \<and> r \<in> runs_to (fl_heap f) b
        \<and> b_stats (fl_heap f ! b) = pre @ s # post \<and> stat_node s = node}"

lemma run_states_seen:
  "run_states f node = (\<Union>b \<in> set (fl_blocks f). seen (b_stats (fl_heap f ! b)) (runs_to (fl_heap f) b) node)"
  unfolding run_states_def seen_def by blast

lemma check_definitions_run:
  assumes "flow_normal f" "flow_marked f"
  obtains f2 c where "check_definitions d as rs f = Some (check_messages d f2 c)"
    "check_blocks f2 (fl_blocks f) (check_state_init as rs) = Some c" "analysed f f2"
    "\<And>node. states_at c node = run_states f node"
proof -
  obtain f1 f2 where f: "initialize f = Some f1" "reaching_definitions f1 = Some f2" "analysed f f2"
    by (rule analysis_run [OF assms])
  have "states_at (check_state_init as rs) node = {}" for node
    by (simp add: states_at_def check_state_init_def dict_list_def)
  with check_blocks_spec [OF assms f(3), of "fl_blocks f" "check_state_init as rs"]
  obtain c where c: "check_blocks f2 (fl_blocks f) (check_state_init as rs) = Some c"
    "\<And>node. states_at c node = run_states f node"
    by (auto simp: run_states_seen)
  have "check_definitions d as rs f = Some (check_messages d f2 c)"
    using f c(1) by (simp add: check_definitions_def analysed_def)
  with c f(3) show thesis by (intro that)
qed

end
