(* ===== verification/FlowHints.thy ===== *)
theory FlowHints
  imports FlowSound
begin

text \<open>
  The hints and the messages that \<open>check_definitions\<close> derives from the states it has collected.
\<close>

subsection \<open>Runs that reach a statement\<close>

definition reaches_stat :: "flow \<Rightarrow> flow_stat list \<Rightarrow> flow_stat \<Rightarrow> bool" where
  "reaches_stat f run s \<longleftrightarrow>
     (\<exists>b r pre post. b \<in> set (fl_blocks f) \<and> r \<in> runs_to (fl_heap f) b
        \<and> b_stats (fl_heap f ! b) = pre @ s # post \<and> run = r @ pre)"

lemma run_states_reach:
  "run_states f node =
     {cf_state_of (stat_entry s) (value_after (stat_entry s) run) | s run. reaches_stat f run s \<and> stat_node s = node}"
  unfolding run_states_def reaches_stat_def by blast

lemma reaches_stat_normalize:
  assumes "flow_ok f" "normalize f = Some f'"
  shows "reaches_stat f' run s \<longleftrightarrow> reaches_stat f run s"
proof (rule normalize_run [OF assms(1)])
  fix f1
  assume f1: "normalize f = Some f1" "same_content (fl_heap f) (fl_heap f1)"
    "fl_blocks f1 = filter (\<lambda>b. b \<in> reachable (fl_heap f) \<and> \<not> block_empty (fl_heap f ! b)) (fl_blocks f)"
    "\<And>b. b = entry_point \<or> b \<in> set (fl_blocks f1) \<Longrightarrow> runs_to (fl_heap f1) b = runs_to (fl_heap f) b"
  have f': "f' = f1" using f1(1) assms(2) by simp
  have stats: "b_stats (fl_heap f1 ! b) = b_stats (fl_heap f ! b)" if "b \<in> set (fl_blocks f)" for b
    using content_fields(1) [OF same_content_nth [OF f1(2)]] that assms(1) by (auto simp: flow_ok_def)
  have mem: "b \<in> set (fl_blocks f1)" if "b \<in> set (fl_blocks f)" "r \<in> runs_to (fl_heap f) b" "s \<in> set (b_stats (fl_heap f ! b))" for b r
  proof -
    have "b \<in> reachable (fl_heap f)"
      using that(2) walk_iff_reachable [of "edges_of (fl_heap f)" entry_point b]
      by (auto simp: runs_to_def reachable_def)
    then show ?thesis using that(1,3) by (auto simp: f1(3) block_empty_def)
  qed
  have sub: "b \<in> set (fl_blocks f)" if "b \<in> set (fl_blocks f1)" for b
    using that by (simp add: f1(3))
  show ?thesis
    unfolding f' reaches_stat_def
  proof (intro iffI; elim exE conjE)
    fix b r pre post
    assume *: "b \<in> set (fl_blocks f1)" "r \<in> runs_to (fl_heap f1) b"
      "b_stats (fl_heap f1 ! b) = pre @ s # post" "run = r @ pre"
    have "r \<in> runs_to (fl_heap f) b" "b_stats (fl_heap f ! b) = pre @ s # post"
      using * f1(4) [of b] stats [OF sub [OF *(1)]] by simp_all
    then show "\<exists>b r pre post. b \<in> set (fl_blocks f) \<and> r \<in> runs_to (fl_heap f) b
        \<and> b_stats (fl_heap f ! b) = pre @ s # post \<and> run = r @ pre"
      using sub [OF *(1)] *(4) by blast
  next
    fix b r pre post
    assume *: "b \<in> set (fl_blocks f)" "r \<in> runs_to (fl_heap f) b"
      "b_stats (fl_heap f ! b) = pre @ s # post" "run = r @ pre"
    then have b: "b \<in> set (fl_blocks f1)" by (intro mem) auto
    then have "r \<in> runs_to (fl_heap f1) b" "b_stats (fl_heap f1 ! b) = pre @ s # post"
      using * f1(4) [of b] stats [OF *(1)] by simp_all
    then show "\<exists>b r pre post. b \<in> set (fl_blocks f1) \<and> r \<in> runs_to (fl_heap f1) b
        \<and> b_stats (fl_heap f1 ! b) = pre @ s # post \<and> run = r @ pre"
      using b *(4) by blast
  qed
qed

subsection \<open>Hints\<close>

definition hint_sound :: "check_state \<Rightarrow> cf_node \<Rightarrow> node_hint \<Rightarrow> bool" where
  "hint_sound c node h \<longleftrightarrow>
     (\<not> cf_maybe_null h \<longrightarrow> Uninitialized \<notin> states_at c node \<and> Unknown \<notin> states_at c node)
     \<and> (cf_is_null h \<longrightarrow> states_at c node = {Uninitialized})"

lemma single_state: "x \<in> set xs \<Longrightarrow> length xs = 1 \<Longrightarrow> set xs = {x}"
  by (cases xs) auto

lemma hint_of_set: "hint_of (dict_set n h hints) node = (if node = n then h else hint_of hints node)"
  by (simp add: hint_of_def dict_get_set)

lemma assignment_hint_sound:
  assumes "\<And>node. hint_sound c node (hint_of hints node)"
  shows "hint_sound c node (hint_of (assignment_hint c hints n) node)"
  using assms [of n] assms [of node]
  by (auto simp: assignment_hint_def Let_def hint_of_set hint_sound_def states_at_def dest: single_state)

lemma assignment_hints_sound:
  "(\<And>node. hint_sound c node (hint_of hints node))
    \<Longrightarrow> hint_sound c node (hint_of (foldl (assignment_hint c) hints nodes) node)"
  by (induction nodes arbitrary: hints node) (simp_all add: assignment_hint_sound)

lemma reference_hint_sound:
  assumes "hint_sound c n (hint_of hints n)"
  shows "hint_sound c n (reference_hint c hints n e)"
  using assms by (auto simp: reference_hint_def Let_def hint_sound_def states_at_def dest: single_state)

lemma check_references_sound:
  "(\<And>node. hint_sound c node (hint_of hints node))
    \<Longrightarrow> hint_sound c node (hint_of (fst (check_references d c refs hints msgs)) node)"
proof (induction refs arbitrary: hints msgs)
  case (Cons ref refs)
  obtain n e where ref: "ref = (n, e)" by force
  have "hint_sound c node (hint_of (dict_set n (reference_hint c hints n e) hints) node)" for node
    using Cons.prems reference_hint_sound by (simp add: hint_of_set)
  then show ?case using Cons.IH by (simp add: ref Let_def)
qed simp

lemma check_messages_hints: "hint_sound c node (hint_of (cr_hints (check_messages d f c)) node)"
proof -
  have "hint_sound c node (hint_of [] node)" for node
    by (simp add: hint_sound_def hint_of_def hint_default_def)
  then have "hint_sound c node (hint_of (foldl (assignment_hint c) [] (assmt_nodes c)) node)" for node
    by (rule assignment_hints_sound)
  then show ?thesis
    using check_references_sound by (simp add: check_messages_def Let_def split_beta)
qed

subsection \<open>Messages\<close>

lemma check_references_messages:
  "(node, e) \<in> set refs \<Longrightarrow>
     \<exists>hint. set (reference_messages d c hint node e) \<subseteq> set (snd (check_references d c refs hints msgs))"
proof (induction refs arbitrary: hints msgs)
  case (Cons ref refs)
  obtain n e' where ref: "ref = (n, e')" by force
  have mono: "set msgs \<subseteq> set (snd (check_references d c refs hints msgs))" for refs hints msgs
  proof (induction refs arbitrary: hints msgs)
    case (Cons r refs)
    obtain m e where r: "r = (m, e)" by force
    from Cons [of "msgs @ reference_messages d c (reference_hint c hints m e) m e"
        "dict_set m (reference_hint c hints m e) hints"]
    show ?case by (auto simp: r Let_def)
  qed simp
  show ?case
  proof (cases "ref = (node, e)")
    case True
    then show ?thesis
      using mono [of "msgs @ reference_messages d c (reference_hint c hints node e) node e" refs
          "dict_set node (reference_hint c hints node e) hints"]
      by (auto simp: Let_def)
  next
    case False
    then show ?thesis using Cons by (auto simp: ref Let_def)
  qed
qed simp

lemma check_references_in_messages:
  assumes "(node, e) \<in> set (cs_references c)"
  obtains hint where "set (reference_messages d c hint node e) \<subseteq> set (cr_messages (check_messages d f c))"
  using check_references_messages [OF assms, of d c "foldl (assignment_hint c) [] (assmt_nodes c)" "[]"]
  by (fastforce simp: check_messages_def Let_def split_beta)

text \<open>A reference that may be unset is reported, when the warning is on and the entry is not exempt.\<close>

lemma reference_reported:
  assumes "Uninitialized \<in> states_at c node" "warn_maybe_uninitialized d"
    and "\<not> allow_null node" "\<not> from_closure e" "\<not> is_pyclass_attr e" "\<not> type_is_error e"
  shows "\<exists>m \<in> set (reference_messages d c hint node e). fst m = node_pos node"
  using assms by (auto simp: reference_messages_def states_at_def)

subsection \<open>The references that are collected\<close>

lemma cs_references_check:
  "cs_references (check_assignment s st c) = cs_references c"
  "cs_references (check_reference s st c) = dict_set (stat_node s) (stat_entry s) (cs_references c)"
  by (simp_all add: check_assignment_def check_reference_def add_states_def Let_def)

lemma check_stats_Cons:
  assumes "check_stats f (s # ss) i c = Some c'"
  obtains i' c1 where "check_stats f ss i' c1 = Some c'"
    "cs_references c1 = (if is_assignment s then cs_references c
                         else dict_set (stat_node s) (stat_entry s) (cs_references c))"
  using assms by (auto simp: cs_references_check split: option.splits if_splits)

text \<open>When all references of a node are to one entry, that is the entry it is collected with.\<close>

lemma check_stats_references:
  assumes "\<And>s. s \<in> set ss \<Longrightarrow> \<not> is_assignment s \<Longrightarrow> stat_node s = n \<Longrightarrow> stat_entry s = e"
  shows "check_stats f ss i c = Some c' \<Longrightarrow> dict_get (cs_references c) n \<in> {None, Some e}
    \<Longrightarrow> dict_get (cs_references c') n \<in> {None, Some e}
      \<and> (dict_get (cs_references c) n = Some e \<or> (\<exists>s \<in> set ss. \<not> is_assignment s \<and> stat_node s = n)
           \<longrightarrow> dict_get (cs_references c') n = Some e)"
  using assms
proof (induction ss arbitrary: i c)
  case (Cons s ss)
  obtain i' c1 where c1: "check_stats f ss i' c1 = Some c'"
    "cs_references c1 = (if is_assignment s then cs_references c
                         else dict_set (stat_node s) (stat_entry s) (cs_references c))"
    by (rule check_stats_Cons [OF Cons.prems(1)])
  have "dict_get (cs_references c1) n \<in> {None, Some e}"
    using Cons.prems(2,3) c1(2) by (auto simp: dict_get_set)
  from Cons.IH [OF c1(1) this] Cons.prems(3) show ?case
    using c1(2) Cons.prems(3) [of s] by (auto simp: dict_get_set split: if_splits)
qed simp

lemma check_blocks_references:
  assumes "\<And>b s. b \<in> set bs \<Longrightarrow> s \<in> set (b_stats (fl_heap f ! b)) \<Longrightarrow> \<not> is_assignment s \<Longrightarrow> stat_node s = n
    \<Longrightarrow> stat_entry s = e"
  shows "check_blocks f bs c = Some c' \<Longrightarrow> dict_get (cs_references c) n \<in> {None, Some e}
    \<Longrightarrow> dict_get (cs_references c') n \<in> {None, Some e}
      \<and> (dict_get (cs_references c) n = Some e
           \<or> (\<exists>b \<in> set bs. \<exists>s \<in> set (b_stats (fl_heap f ! b)). \<not> is_assignment s \<and> stat_node s = n)
           \<longrightarrow> dict_get (cs_references c') n = Some e)"
  using assms
proof (induction bs arbitrary: c)
  case (Cons b bs)
  obtain c1 where c1: "check_stats f (b_stats (fl_heap f ! b)) (i_input (fl_heap f ! b)) c = Some c1"
    "check_blocks f bs c1 = Some c'"
    using Cons.prems(1) by (auto split: option.splits)
  have "\<And>s. s \<in> set (b_stats (fl_heap f ! b)) \<Longrightarrow> \<not> is_assignment s \<Longrightarrow> stat_node s = n \<Longrightarrow> stat_entry s = e"
    by (rule Cons.prems(3) [of b]) simp_all
  from check_stats_references [OF this c1(1) Cons.prems(2)] Cons.IH [OF c1(2)] Cons.prems(3)
  show ?case by fastforce
qed simp

end
