(* ===== verification/FlowVisit.thy ===== *)
theory FlowVisit
  imports FlowGraph "HOL-Library.Monad_Syntax"
begin

text \<open>
  \<open>ControlFlowAnalysis\<close> of \<open>Cython/Compiler/FlowControl.py\<close>: the visitor that builds the graph of a
  function body. A method that uses an attribute of a block that is \<open>None\<close> raises
  \<open>AttributeError\<close>, which is the result \<open>None\<close> here.
\<close>

subsection \<open>Syntax trees\<close>

text \<open>What \<open>mark_forloop_target\<close> looks at in the sequence of a loop: a call with its arguments and
  what the name of the function stands for, a name and whether its type is a builtin one, or
  something else.\<close>

datatype name_lookup = NotFound | BuiltinName | RangeType | OtherName

datatype loop_sequence =
    SimpleCallNode bool "(string \<times> name_lookup) option" "loop_sequence list"
  | IteratedName bool
  | OtherSequence

text \<open>The parts of a node that are not nodes of their own, over the type of nodes: what can stand on
  the left of an assignment (a name with the entry that its attribute or the scope gives, a sequence
  constructor, another expression), the cases of a \<open>match\<close> and the clauses of a \<open>try\<close>.\<close>

datatype 'n target =
    NameTarget cf_node "cf_entry option"
  | SequenceTarget "int \<times> int" "'n target list"
  | OtherTarget 'n

datatype 'n match_case =
    MatchCaseNode 'n "'n option" "'n option" 'n
  | SubstitutedMatchCaseNode 'n

datatype 'n except_clause = ExceptClauseNode "'n list" "'n target option" 'n

text \<open>The nodes that the visitor tells apart, with their subnodes in the order it visits them.
  \<open>VisitChildren\<close> is a node whose method only visits its children (an assignment expression, a
  pattern, an iterator, a class, a nested function with its defaults and decorators), \<open>OtherNode\<close>
  one that is left to \<open>visit_Node\<close>, \<open>SkippedNode\<close> one whose method does nothing.\<close>

datatype cnode =
    NameNode cf_node "cf_entry option"
  | OtherNode "int \<times> int" "cnode list"
  | VisitChildren "cnode list"
  | SkippedNode
  | CArgDeclNode cf_node "cf_entry option"
  | FromImportStatNode "cnode target list" "cnode list"
  | SingleAssignmentNode "cnode target" cnode
  | CascadedAssignmentNode "cnode target list" cnode
  | ParallelAssignmentNode "cnode target list" "cnode list"
  | InPlaceAssignmentNode "cnode target" cnode
  | DelStatNode bool "cnode target list"
  | StatListNode "cnode list"
  | IfStatNode "(cnode \<times> cnode) list" "cnode option"
  | MatchNode cnode "cnode match_case list"
  | AssertStatNode "int \<times> int" cnode cnode
  | WhileStatNode "cnode option" cnode "cnode option"
  | ForInStatNode cnode loop_sequence "cnode target" cnode "cnode option"
  | AsyncForStatNode cnode "cnode target" cnode "cnode option"
  | ForFromStatNode cnode cnode "cnode option" "cnode target" cnode "cnode option"
  | WithTargetAssignmentStatNode "cnode target"
  | WithStatNode cnode cnode cnode
  | TryExceptStatNode cnode "cnode except_clause list" "cnode option"
  | TryFinallyStatNode cnode cnode cnode
  | RaiseStatNode "int \<times> int" "cnode list"
  | ReraiseStatNode "int \<times> int"
  | ReturnStatNode "int \<times> int" "cnode list"
  | BreakStatNode "int \<times> int"
  | ContinueStatNode "int \<times> int"
  | ComprehensionNode cnode
  | PyClassDefNode "cnode list" cf_node "cf_entry option" "(cf_node \<times> cf_entry) option" cnode
  | AmpersandNode "cnode target"
  | BoolBinopNode cnode cnode
  | CondExprNode cnode cnode cnode

subsection \<open>The state of the visitor\<close>

text \<open>The flow of the function, the errors reported on the way, and the directive
  \<open>control_flow.dot_output\<close>.\<close>

record visitor =
  v_flow :: flow
  v_errors :: "((int \<times> int) \<times> string) list"
  dot_output :: bool

definition on_flow :: "(flow \<Rightarrow> flow) \<Rightarrow> visitor \<Rightarrow> visitor" where
  "on_flow g v = v\<lparr>v_flow := g (v_flow v)\<rparr>"

abbreviation cur :: "visitor \<Rightarrow> nat option" where
  "cur v \<equiv> fl_block (v_flow v)"

definition v_newblock :: "nat option \<Rightarrow> visitor \<Rightarrow> nat \<times> visitor" where
  "v_newblock parent v = (let (b, f) = newblock parent (v_flow v) in (b, v\<lparr>v_flow := f\<rparr>))"

definition v_nextblock :: "nat option \<Rightarrow> visitor \<Rightarrow> visitor" where
  "v_nextblock parent v = on_flow (\<lambda>f. snd (nextblock parent f)) v"

text \<open>\<open>parent.add_child(child)\<close>.\<close>

definition v_add_child :: "nat option \<Rightarrow> nat \<Rightarrow> visitor \<Rightarrow> visitor option" where
  "v_add_child parent child v =
     (case parent of None \<Rightarrow> None | Some p \<Rightarrow> Some (on_flow (flow_add_child p child) v))"

text \<open>\<open>if self.flow.block: self.flow.block.add_child(child)\<close>.\<close>

definition leave_to :: "nat \<Rightarrow> visitor \<Rightarrow> visitor" where
  "leave_to child v =
     (case cur v of None \<Rightarrow> v | Some p \<Rightarrow> on_flow (flow_add_child p child) v)"

definition set_block :: "nat option \<Rightarrow> visitor \<Rightarrow> visitor" where
  "set_block b v = on_flow (\<lambda>f. f\<lparr>fl_block := b\<rparr>) v"

text \<open>The end of the methods that join at a new block.\<close>

definition continue_at :: "nat \<Rightarrow> visitor \<Rightarrow> visitor" where
  "continue_at nxt v = set_block (if b_parents (fl_heap (v_flow v) ! nxt) \<noteq> [] then Some nxt else None) v"

definition push_loop :: "nat \<Rightarrow> nat \<Rightarrow> visitor \<Rightarrow> visitor" where
  "push_loop nxt lp v =
     on_flow (\<lambda>f. f\<lparr>fl_loops := fl_loops f @ [\<lparr>next_block = nxt, loop_block = lp, loop_exceptions = []\<rparr>]\<rparr>) v"

definition pop_loop :: "visitor \<Rightarrow> visitor" where
  "pop_loop v = on_flow (\<lambda>f. f\<lparr>fl_loops := butlast (fl_loops f)\<rparr>) v"

definition push_exception :: "exception_descr \<Rightarrow> visitor \<Rightarrow> visitor" where
  "push_exception d v = on_flow (\<lambda>f. f\<lparr>fl_exceptions := fl_exceptions f @ [d]\<rparr>) v"

definition pop_exception :: "visitor \<Rightarrow> visitor" where
  "pop_exception v = on_flow (\<lambda>f. f\<lparr>fl_exceptions := butlast (fl_exceptions f)\<rparr>) v"

text \<open>The exceptions of the innermost loop, when there is one.\<close>

definition on_loop_exceptions :: "(exception_descr list \<Rightarrow> exception_descr list) \<Rightarrow> visitor \<Rightarrow> visitor" where
  "on_loop_exceptions g v =
     on_flow (\<lambda>f. if fl_loops f = [] then f
                  else f\<lparr>fl_loops := butlast (fl_loops f) @
                         [last (fl_loops f)\<lparr>loop_exceptions := g (loop_exceptions (last (fl_loops f)))\<rparr>]\<rparr>) v"

definition enter_try :: "visitor \<Rightarrow> visitor" where
  "enter_try v = on_flow (\<lambda>f. f\<lparr>in_try_block := in_try_block f + 1\<rparr>) v"

definition leave_try :: "visitor \<Rightarrow> visitor" where
  "leave_try v = on_flow (\<lambda>f. f\<lparr>in_try_block := in_try_block f - 1\<rparr>) v"

definition mark_position :: "int \<times> int \<Rightarrow> visitor \<Rightarrow> visitor" where
  "mark_position pos v = (if dot_output v then on_flow (flow_mark_position pos) v else v)"

text \<open>An edge to the innermost handler, if there is one.\<close>

definition exception_edge :: "visitor \<Rightarrow> visitor option" where
  "exception_edge v =
     (if fl_exceptions (v_flow v) = [] then Some v
      else v_add_child (cur v) (exc_entry_point (last (fl_exceptions (v_flow v)))) v)"

text \<open>The first lines and the last lines of \<open>mark_assignment\<close>.\<close>

definition assignment_edge :: "visitor \<Rightarrow> visitor option" where
  "assignment_edge v =
     (if fl_exceptions (v_flow v) = [] then Some v
      else map_option (v_nextblock None) (exception_edge v))"

subsection \<open>Jumps\<close>

text \<open>\<open>for handler in handlers: if handler.finally_enter: ... break\<close>: the first handler with a
  \<open>finally\<close> clause, and those after it.\<close>

fun first_finally :: "exception_descr list \<Rightarrow> (nat \<times> nat option \<times> exception_descr list) option" where
  "first_finally [] = None"
| "first_finally (d # ds) =
     (case finally_enter d of None \<Rightarrow> first_finally ds | Some e \<Rightarrow> Some (e, finally_exit d, ds))"

text \<open>A jump goes to its target, or to the innermost \<open>finally\<close> clause, whose end then goes on to
  \<open>onward\<close> of the handlers that are left.\<close>

definition return_onward :: "exception_descr list \<Rightarrow> nat" where
  "return_onward ds = (case first_finally ds of None \<Rightarrow> exit_point | Some (e, _) \<Rightarrow> e)"

definition visit_return :: "visitor \<Rightarrow> visitor option" where
  "visit_return v =
     (case first_finally (rev (fl_exceptions (v_flow v))) of
        Some (enter, exit, ds) \<Rightarrow> do {
          v \<leftarrow> v_add_child (cur v) enter v;
          v \<leftarrow> (case exit of None \<Rightarrow> Some v | Some e \<Rightarrow> v_add_child (Some e) (return_onward ds) v);
          Some (set_block None v) }
      | None \<Rightarrow> Some (set_block None (leave_to exit_point v)))"

definition visit_jump :: "(loop_descr \<Rightarrow> nat) \<Rightarrow> int \<times> int \<Rightarrow> visitor \<Rightarrow> visitor option" where
  "visit_jump target pos v =
     (if fl_loops (v_flow v) = [] then Some v
      else
        let loop = last (fl_loops (v_flow v)); v = mark_position pos v in
        (case first_finally (rev (loop_exceptions loop)) of
           Some (enter, exit, ds) \<Rightarrow> do {
             v \<leftarrow> v_add_child (cur v) enter v;
             v \<leftarrow> (case exit of None \<Rightarrow> Some v | Some e \<Rightarrow> v_add_child (Some e) (target loop) v);
             Some (set_block None v) }
         | None \<Rightarrow> map_option (set_block None) (v_add_child (cur v) (target loop) v)))"

subsection \<open>The targets of a loop\<close>

text \<open>\<open>mark_forloop_target\<close>: whether the loop counts with \<open>enumerate\<close>, which assigns the two
  targets of a pair in turn, and otherwise how often the target is assigned.\<close>

definition is_enumerate_of_builtin :: "loop_sequence \<Rightarrow> bool" where
  "is_enumerate_of_builtin s =
     (case s of
        SimpleCallNode True (Some (name, found)) [IteratedName builtin] \<Rightarrow>
          name = ''enumerate'' \<and> found \<in> {NotFound, BuiltinName} \<and> builtin
      | _ \<Rightarrow> False)"

definition unwrap_reversed :: "loop_sequence \<Rightarrow> loop_sequence" where
  "unwrap_reversed s =
     (case s of
        SimpleCallNode True (Some (name, found)) [arg] \<Rightarrow>
          if name = ''reversed'' \<and> found \<in> {NotFound, BuiltinName} then arg else s
      | _ \<Rightarrow> s)"

definition target_assignments :: "loop_sequence \<Rightarrow> nat" where
  "target_assignments s =
     (case unwrap_reversed s of
        SimpleCallNode True (Some (name, RangeType)) args \<Rightarrow>
          if name \<in> {''range'', ''xrange''} then min (length args) 3 else 1
      | _ \<Rightarrow> 1)"

fun is_pair :: "'n target \<Rightarrow> bool" where
  "is_pair (SequenceTarget _ [_, _]) = True"
| "is_pair _ = False"

subsection \<open>The methods of the visitor\<close>

text \<open>Each method works on what visiting its subnodes does.\<close>

type_synonym act = "visitor \<Rightarrow> visitor option"

fun visit_all :: "act list \<Rightarrow> act" where
  "visit_all [] v = Some v"
| "visit_all (a # as) v = do { v \<leftarrow> a v; visit_all as v }"

definition visit_opt :: "act option \<Rightarrow> act" where
  "visit_opt a v = (case a of None \<Rightarrow> Some v | Some a \<Rightarrow> a v)"

definition visit_Node :: "int \<times> int \<Rightarrow> act list \<Rightarrow> act" where
  "visit_Node pos children v = map_option (mark_position pos) (visit_all children v)"

definition visit_NameNode :: "cf_node \<Rightarrow> cf_entry option \<Rightarrow> act" where
  "visit_NameNode node entry v =
     (case cur v of None \<Rightarrow> Some v
      | Some _ \<Rightarrow>
          (case entry of None \<Rightarrow> Some v | Some e \<Rightarrow> Some (on_flow (flow_mark_reference node e) v)))"

fun visit_target :: "act target \<Rightarrow> act" where
  "visit_target (NameTarget node entry) v = visit_NameNode node entry v"
| "visit_target (SequenceTarget pos args) v = visit_Node pos (map visit_target args) v"
| "visit_target (OtherTarget a) v = a v"

definition visit_CArgDeclNode :: "cf_node \<Rightarrow> cf_entry option \<Rightarrow> act" where
  "visit_CArgDeclNode node entry v =
     (case entry of None \<Rightarrow> Some v | Some e \<Rightarrow> Some (on_flow (flow_mark_argument node e) v))"

text \<open>\<open>ControlFlowAnalysis.mark_assignment\<close>; the assigned value only matters when it is
  \<open>fake_rhs_expr\<close>.\<close>

fun mark_assignment :: "bool \<Rightarrow> act target \<Rightarrow> act" where
  "mark_assignment fake (NameTarget node entry) v =
     (case cur v of None \<Rightarrow> Some v
      | Some _ \<Rightarrow> do {
          v \<leftarrow> assignment_edge v;
          (case entry of None \<Rightarrow> Some v
           | Some e \<Rightarrow> assignment_edge (on_flow (flow_mark_assignment node fake e) v)) })"
| "mark_assignment fake (SequenceTarget pos args) v =
     (case cur v of None \<Rightarrow> Some v
      | Some _ \<Rightarrow> do {
          v \<leftarrow> assignment_edge v;
          v \<leftarrow> visit_all (map (mark_assignment fake) args) v;
          assignment_edge v })"
| "mark_assignment fake (OtherTarget a) v =
     (case cur v of None \<Rightarrow> Some v
      | Some _ \<Rightarrow> do { v \<leftarrow> assignment_edge v; v \<leftarrow> a v; assignment_edge v })"

definition assign_all :: "act target list \<Rightarrow> act" where
  "assign_all targets v = visit_all (map (mark_assignment False) targets) v"

definition visit_FromImportStatNode :: "act target list \<Rightarrow> act list \<Rightarrow> act" where
  "visit_FromImportStatNode targets children v = do { v \<leftarrow> assign_all targets v; visit_all children v }"

definition visit_SingleAssignmentNode :: "act target \<Rightarrow> act \<Rightarrow> act" where
  "visit_SingleAssignmentNode lhs rhs v = do { v \<leftarrow> rhs v; mark_assignment False lhs v }"

definition visit_CascadedAssignmentNode :: "act target list \<Rightarrow> act \<Rightarrow> act" where
  "visit_CascadedAssignmentNode lhs_list rhs v = do { v \<leftarrow> rhs v; assign_all lhs_list v }"

definition visit_ParallelAssignmentNode :: "act target list \<Rightarrow> act list \<Rightarrow> act" where
  "visit_ParallelAssignmentNode lhs_list rhs_list v = do { v \<leftarrow> visit_all rhs_list v; assign_all lhs_list v }"

definition visit_InPlaceAssignmentNode :: "act target \<Rightarrow> act \<Rightarrow> act" where
  "visit_InPlaceAssignmentNode lhs rhs v =
     do { v \<leftarrow> visit_target lhs v; v \<leftarrow> rhs v; mark_assignment False lhs v }"

definition delete_error :: "cf_node \<Rightarrow> cf_entry \<Rightarrow> visitor \<Rightarrow> visitor" where
  "delete_error node e v =
     (if in_closure e \<or> from_closure e then
        v\<lparr>v_errors := v_errors v @ [(node_pos node,
          ''can not delete variable '' @ [CHR 0x27] @ entry_name e @ [CHR 0x27] @ '' referenced in nested scope'')]\<rparr>
      else v)"

text \<open>One round of the loop of \<open>visit_DelStatNode\<close>.\<close>

definition delete_arg :: "bool \<Rightarrow> act target \<Rightarrow> act" where
  "delete_arg ignore_nonexisting arg v =
     (case arg of
        NameTarget node entry \<Rightarrow>
          (case entry of None \<Rightarrow> None
           | Some e \<Rightarrow> do {
               v \<leftarrow> (if ignore_nonexisting then Some (delete_error node e v)
                     else visit_NameNode node entry (delete_error node e v));
               Some (on_flow (flow_mark_deletion node e) v) })
      | _ \<Rightarrow> visit_target arg v)"

definition visit_DelStatNode :: "bool \<Rightarrow> act target list \<Rightarrow> act" where
  "visit_DelStatNode ignore_nonexisting args v = visit_all (map (delete_arg ignore_nonexisting) args) v"

fun visit_StatListNode :: "act list \<Rightarrow> act" where
  "visit_StatListNode [] v = Some v"
| "visit_StatListNode (s # ss) v =
     (case cur v of None \<Rightarrow> Some v | Some _ \<Rightarrow> do { v \<leftarrow> s v; visit_StatListNode ss v })"

text \<open>The loop over the \<open>if\<close> clauses: the block where the last condition ends.\<close>

fun visit_if_clauses :: "(act \<times> act) list \<Rightarrow> nat option \<Rightarrow> nat \<Rightarrow> visitor \<Rightarrow> (nat option \<times> visitor) option" where
  "visit_if_clauses [] parent nxt v = Some (parent, v)"
| "visit_if_clauses ((condition, body) # clauses) parent nxt v = do {
     v \<leftarrow> condition (v_nextblock parent v);
     let parent = cur v;
     v \<leftarrow> body (v_nextblock None v);
     visit_if_clauses clauses parent nxt (leave_to nxt v) }"

text \<open>The \<open>else\<close> clause of an \<open>if\<close> or a loop.\<close>

definition visit_else :: "act option \<Rightarrow> nat option \<Rightarrow> nat \<Rightarrow> act" where
  "visit_else else_clause parent nxt v =
     (case else_clause of
        Some body \<Rightarrow> map_option (leave_to nxt) (body (v_nextblock parent v))
      | None \<Rightarrow> v_add_child parent nxt v)"

definition visit_IfStatNode :: "(act \<times> act) list \<Rightarrow> act option \<Rightarrow> act" where
  "visit_IfStatNode clauses else_clause v =
     (let (nxt, v) = v_newblock None v in do {
        (parent, v) \<leftarrow> visit_if_clauses clauses (cur v) nxt v;
        v \<leftarrow> visit_else else_clause parent nxt v;
        Some (continue_at nxt v) })"

definition add_guard_edge :: "nat option \<Rightarrow> nat option \<Rightarrow> act" where
  "add_guard_edge guard_block child v =
     (case (guard_block, child) of
        (Some g, Some c) \<Rightarrow> v_add_child (Some g) c v
      | (Some g, None) \<Rightarrow> None
      | (None, _) \<Rightarrow> Some v)"

fun visit_cases ::
  "act match_case list \<Rightarrow> nat option \<Rightarrow> nat option \<Rightarrow> nat \<Rightarrow> visitor \<Rightarrow> (nat option \<times> nat option \<times> visitor) option"
where
  "visit_cases [] orig_parent guard_block nxt v = Some (orig_parent, guard_block, v)"
| "visit_cases (MatchCaseNode pattern targets guard body # cases) orig_parent guard_block nxt v =
     (let v = v_nextblock orig_parent v in do {
        v \<leftarrow> add_guard_edge guard_block (cur v) v;
        v \<leftarrow> pattern v;
        v \<leftarrow> visit_opt targets (v_nextblock None v);
        v \<leftarrow> (case guard of None \<Rightarrow> Some v | Some g \<Rightarrow> g (v_nextblock None v));
        let guard_block = (case guard of None \<Rightarrow> None | Some _ \<Rightarrow> cur v);
        v \<leftarrow> body (v_nextblock None v);
        visit_cases cases orig_parent guard_block nxt (leave_to nxt v) })"
| "visit_cases (SubstitutedMatchCaseNode body # cases) orig_parent guard_block nxt v =
     (let v = v_nextblock None v in do {
        v \<leftarrow> add_guard_edge guard_block (cur v) v;
        v \<leftarrow> body v;
        visit_cases cases (cur v) None nxt v })"

definition visit_MatchNode :: "act \<Rightarrow> act match_case list \<Rightarrow> act" where
  "visit_MatchNode subject cases v = do {
     v \<leftarrow> subject v;
     let (nxt, v) = v_newblock None v;
     (orig_parent, guard_block, v) \<leftarrow> visit_cases cases (cur v) None nxt v;
     v \<leftarrow> add_guard_edge guard_block (Some nxt) v;
     v \<leftarrow> add_guard_edge orig_parent (Some nxt) v;
     Some (continue_at nxt v) }"

definition visit_AssertStatNode :: "int \<times> int \<Rightarrow> act \<Rightarrow> act \<Rightarrow> act" where
  "visit_AssertStatNode pos condition exc v =
     (let v = mark_position pos v;
          (nxt, v) = v_newblock None v;
          v = v_nextblock (cur v) v;
          parent = cur v
      in do {
        v \<leftarrow> condition v;
        v \<leftarrow> exc (v_nextblock None v);
        v \<leftarrow> v_add_child parent nxt (leave_to nxt v);
        Some (continue_at nxt v) })"

text \<open>What the loops share: the block of the condition, the one that follows, and the end.\<close>

definition enter_loop :: "visitor \<Rightarrow> nat \<times> nat \<times> visitor" where
  "enter_loop v =
     (let v = v_nextblock None v; lp = length (fl_heap (v_flow v)) - 1;
          (nxt, v) = v_newblock None v
      in (lp, nxt, push_loop nxt lp v))"

definition leave_loop :: "act option \<Rightarrow> nat option \<Rightarrow> nat \<Rightarrow> act" where
  "leave_loop else_clause condition_block_end nxt v = do {
     v \<leftarrow> visit_else else_clause condition_block_end nxt v;
     Some (continue_at nxt v) }"

definition visit_WhileStatNode :: "act option \<Rightarrow> act \<Rightarrow> act option \<Rightarrow> act" where
  "visit_WhileStatNode condition body else_clause v =
     (let (lp, nxt, v) = enter_loop v in do {
        v \<leftarrow> visit_opt condition v;
        let condition_block_end = cur v;
        v \<leftarrow> body (v_nextblock None v);
        leave_loop else_clause condition_block_end nxt (leave_to nxt (leave_to lp (pop_loop v))) })"

definition mark_forloop_target :: "loop_sequence \<Rightarrow> act target \<Rightarrow> act" where
  "mark_forloop_target sequence target v =
     (if is_enumerate_of_builtin sequence \<and> is_pair target then
        (case target of SequenceTarget _ args \<Rightarrow> assign_all args v | _ \<Rightarrow> None)
      else assign_all (replicate (target_assignments sequence) target) v)"

definition visit_ForInStatNode :: "act \<Rightarrow> loop_sequence \<Rightarrow> act target \<Rightarrow> act \<Rightarrow> act option \<Rightarrow> act" where
  "visit_ForInStatNode iterator sequence target body else_clause v =
     (let (lp, nxt, v) = enter_loop v in do {
        v \<leftarrow> iterator v;
        let condition_block_end = cur v;
        v \<leftarrow> mark_forloop_target sequence target (v_nextblock None v);
        v \<leftarrow> body (v_nextblock None v);
        leave_loop else_clause condition_block_end nxt (leave_to lp (pop_loop v)) })"

definition visit_AsyncForStatNode :: "act \<Rightarrow> act target \<Rightarrow> act \<Rightarrow> act option \<Rightarrow> act" where
  "visit_AsyncForStatNode iterator target body else_clause v =
     (let (lp, nxt, v) = enter_loop v in do {
        v \<leftarrow> iterator v;
        let condition_block_end = cur v;
        v \<leftarrow> mark_assignment False target (v_nextblock None v);
        v \<leftarrow> body (v_nextblock None v);
        leave_loop else_clause condition_block_end nxt (leave_to lp (pop_loop v)) })"

definition visit_ForFromStatNode :: "act \<Rightarrow> act \<Rightarrow> act option \<Rightarrow> act target \<Rightarrow> act \<Rightarrow> act option \<Rightarrow> act" where
  "visit_ForFromStatNode bound1 bound2 step target body else_clause v =
     (let (lp, nxt, v) = enter_loop v in do {
        v \<leftarrow> bound1 v;
        v \<leftarrow> bound2 v;
        v \<leftarrow> visit_opt step v;
        let condition_block_end = cur v;
        v \<leftarrow> assign_all (if step = None then [target] else [target, target]) (v_nextblock None v);
        v \<leftarrow> body (v_nextblock None v);
        leave_loop else_clause condition_block_end nxt (leave_to lp (pop_loop v)) })"

definition visit_WithStatNode :: "act \<Rightarrow> act \<Rightarrow> act \<Rightarrow> act" where
  "visit_WithStatNode manager enter_call body v = do { v \<leftarrow> manager v; v \<leftarrow> enter_call v; body v }"

text \<open>The loop over the \<open>except\<close> clauses: the block where an exception that none of them matches ends
  up.\<close>

fun visit_except_clauses :: "act except_clause list \<Rightarrow> nat \<Rightarrow> nat \<Rightarrow> visitor \<Rightarrow> (nat \<times> visitor) option" where
  "visit_except_clauses [] nxt entry v = Some (entry, v)"
| "visit_except_clauses (ExceptClauseNode pattern target body # clauses) nxt entry v = do {
     v \<leftarrow> visit_all pattern (set_block (Some entry) v);
     let (entry, v) = v_newblock (cur v) v;
     let v = v_nextblock None v;
     v \<leftarrow> (case target of None \<Rightarrow> Some v | Some t \<Rightarrow> mark_assignment False t v);
     v \<leftarrow> body v;
     visit_except_clauses clauses nxt entry (leave_to nxt v) }"

text \<open>The \<open>else\<close> clause, when the body of the \<open>try\<close> reaches its end.\<close>

definition visit_try_else :: "act option \<Rightarrow> act" where
  "visit_try_else else_clause v =
     (case cur v of None \<Rightarrow> Some v
      | Some _ \<Rightarrow> (case else_clause of None \<Rightarrow> Some v | Some body \<Rightarrow> body (v_nextblock None v)))"

definition visit_TryExceptStatNode :: "act \<Rightarrow> act except_clause list \<Rightarrow> act option \<Rightarrow> act" where
  "visit_TryExceptStatNode body clauses else_clause v =
     (let (nxt, v) = v_newblock None v;
          (_, v) = v_newblock None v;
          (entry, v) = v_newblock None v;
          v = push_exception \<lparr>exc_entry_point = entry, finally_enter = None, finally_exit = None\<rparr> v;
          v = v_nextblock None v
      in do {
        v \<leftarrow> v_add_child (cur v) entry v;
        v \<leftarrow> body (enter_try (v_nextblock None v));
        let v = pop_exception (leave_try v);
        v \<leftarrow> visit_try_else else_clause v;
        (entry, v) \<leftarrow> visit_except_clauses clauses nxt entry (leave_to nxt v);
        v \<leftarrow> (if fl_exceptions (v_flow v) = [] then Some v
              else v_add_child (Some entry) (exc_entry_point (last (fl_exceptions (v_flow v)))) v);
        Some (continue_at nxt v) })"

definition visit_TryFinallyStatNode :: "act \<Rightarrow> act \<Rightarrow> act \<Rightarrow> act" where
  "visit_TryFinallyStatNode body finally_clause finally_except_clause v =
     (let v = v_nextblock None v;
          body_block = cur v;
          (entry, v) = v_newblock None v
      in do {
        v \<leftarrow> finally_except_clause (set_block (Some entry) v);
        v \<leftarrow> (if cur v = None then Some v else exception_edge v);
        let (enter, v) = v_newblock None v;
        v \<leftarrow> finally_clause (set_block (Some enter) v);
        let exit = cur v;
        let descr = \<lparr>exc_entry_point = entry, finally_enter = Some enter, finally_exit = exit\<rparr>;
        let v = on_loop_exceptions (\<lambda>ds. ds @ [descr]) (push_exception descr v);
        v \<leftarrow> v_add_child body_block entry (set_block body_block v);
        v \<leftarrow> body (enter_try (v_nextblock None v));
        let v = on_loop_exceptions butlast (pop_exception (leave_try v));
        (case cur v of
           None \<Rightarrow> Some v
         | Some _ \<Rightarrow>
             let v = leave_to enter v
             in Some (case exit of None \<Rightarrow> set_block None v | Some e \<Rightarrow> v_nextblock (Some e) v)) })"

definition visit_RaiseStatNode :: "int \<times> int \<Rightarrow> act list \<Rightarrow> act" where
  "visit_RaiseStatNode pos children v = do {
     v \<leftarrow> visit_all children (mark_position pos v);
     v \<leftarrow> exception_edge v;
     Some (set_block None v) }"

definition visit_ReraiseStatNode :: "int \<times> int \<Rightarrow> act" where
  "visit_ReraiseStatNode pos v = do {
     v \<leftarrow> exception_edge (mark_position pos v);
     Some (set_block None v) }"

definition visit_ReturnStatNode :: "int \<times> int \<Rightarrow> act list \<Rightarrow> act" where
  "visit_ReturnStatNode pos children v = do { v \<leftarrow> visit_all children (mark_position pos v); visit_return v }"

definition visit_PyClassDefNode ::
  "act list \<Rightarrow> cf_node \<Rightarrow> cf_entry option \<Rightarrow> (cf_node \<times> cf_entry) option \<Rightarrow> act \<Rightarrow> act" where
  "visit_PyClassDefNode children target entry doc body v = do {
     v \<leftarrow> visit_all children v;
     v \<leftarrow> (case (cur v, entry) of
            (None, _) \<Rightarrow> Some v
          | (Some _, None) \<Rightarrow> None
          | (Some _, Some e) \<Rightarrow> Some (on_flow (flow_mark_assignment target False e) v));
     let v = v_nextblock None v;
     let v = (case doc of None \<Rightarrow> v | Some (node, e) \<Rightarrow> on_flow (flow_mark_assignment node True e) v);
     v \<leftarrow> body v;
     Some (v_nextblock None v) }"

definition visit_AmpersandNode :: "act target \<Rightarrow> act" where
  "visit_AmpersandNode operand v = do {
     v \<leftarrow> (case operand of NameTarget _ _ \<Rightarrow> mark_assignment True operand v | _ \<Rightarrow> Some v);
     visit_target operand v }"

definition visit_BoolBinopNode :: "act \<Rightarrow> act \<Rightarrow> act" where
  "visit_BoolBinopNode operand1 operand2 v =
     (let (nxt, v) = v_newblock None v; parent = cur v in do {
        v \<leftarrow> operand1 v;
        v \<leftarrow> operand2 (v_nextblock None v);
        v \<leftarrow> v_add_child parent nxt (leave_to nxt v);
        Some (continue_at nxt v) })"

definition visit_CondExprNode :: "act \<Rightarrow> act \<Rightarrow> act \<Rightarrow> act" where
  "visit_CondExprNode condition true_val false_val v = do {
     v \<leftarrow> condition v;
     let parent = cur v;
     let (nxt, v) = v_newblock None v;
     v \<leftarrow> true_val (v_nextblock None v);
     v \<leftarrow> false_val (v_nextblock parent (leave_to nxt v));
     Some (continue_at nxt (leave_to nxt v)) }"

subsection \<open>The visitor\<close>

primrec visit :: "cnode \<Rightarrow> act" where
  "visit (NameNode node entry) = visit_NameNode node entry"
| "visit (OtherNode pos children) = visit_Node pos (map visit children)"
| "visit (VisitChildren children) = visit_all (map visit children)"
| "visit SkippedNode = Some"
| "visit (CArgDeclNode node entry) = visit_CArgDeclNode node entry"
| "visit (FromImportStatNode targets children) =
     visit_FromImportStatNode (map (map_target visit) targets) (map visit children)"
| "visit (SingleAssignmentNode lhs rhs) = visit_SingleAssignmentNode (map_target visit lhs) (visit rhs)"
| "visit (CascadedAssignmentNode lhs_list rhs) =
     visit_CascadedAssignmentNode (map (map_target visit) lhs_list) (visit rhs)"
| "visit (ParallelAssignmentNode lhs_list rhs_list) =
     visit_ParallelAssignmentNode (map (map_target visit) lhs_list) (map visit rhs_list)"
| "visit (InPlaceAssignmentNode lhs rhs) = visit_InPlaceAssignmentNode (map_target visit lhs) (visit rhs)"
| "visit (DelStatNode ignore_nonexisting args) =
     visit_DelStatNode ignore_nonexisting (map (map_target visit) args)"
| "visit (StatListNode stats) = visit_StatListNode (map visit stats)"
| "visit (IfStatNode clauses else_clause) =
     visit_IfStatNode (map (map_prod visit visit) clauses) (map_option visit else_clause)"
| "visit (MatchNode subject cases) = visit_MatchNode (visit subject) (map (map_match_case visit) cases)"
| "visit (AssertStatNode pos condition exc) = visit_AssertStatNode pos (visit condition) (visit exc)"
| "visit (WhileStatNode condition body else_clause) =
     visit_WhileStatNode (map_option visit condition) (visit body) (map_option visit else_clause)"
| "visit (ForInStatNode iterator sequence target body else_clause) =
     visit_ForInStatNode (visit iterator) sequence (map_target visit target) (visit body)
       (map_option visit else_clause)"
| "visit (AsyncForStatNode iterator target body else_clause) =
     visit_AsyncForStatNode (visit iterator) (map_target visit target) (visit body)
       (map_option visit else_clause)"
| "visit (ForFromStatNode bound1 bound2 step target body else_clause) =
     visit_ForFromStatNode (visit bound1) (visit bound2) (map_option visit step) (map_target visit target)
       (visit body) (map_option visit else_clause)"
| "visit (WithTargetAssignmentStatNode lhs) = mark_assignment False (map_target visit lhs)"
| "visit (WithStatNode manager enter_call body) =
     visit_WithStatNode (visit manager) (visit enter_call) (visit body)"
| "visit (TryExceptStatNode body clauses else_clause) =
     visit_TryExceptStatNode (visit body) (map (map_except_clause visit) clauses) (map_option visit else_clause)"
| "visit (TryFinallyStatNode body finally_clause finally_except_clause) =
     visit_TryFinallyStatNode (visit body) (visit finally_clause) (visit finally_except_clause)"
| "visit (RaiseStatNode pos children) = visit_RaiseStatNode pos (map visit children)"
| "visit (ReraiseStatNode pos) = visit_ReraiseStatNode pos"
| "visit (ReturnStatNode pos children) = visit_ReturnStatNode pos (map visit children)"
| "visit (BreakStatNode pos) = visit_jump next_block pos"
| "visit (ContinueStatNode pos) = visit_jump loop_block pos"
| "visit (ComprehensionNode loop) = visit loop"
| "visit (PyClassDefNode children target entry doc body) =
     visit_PyClassDefNode (map visit children) target entry doc (visit body)"
| "visit (AmpersandNode operand) = visit_AmpersandNode (map_target visit operand)"
| "visit (BoolBinopNode operand1 operand2) = visit_BoolBinopNode (visit operand1) (visit operand2)"
| "visit (CondExprNode condition true_val false_val) =
     visit_CondExprNode (visit condition) (visit true_val) (visit false_val)"

subsection \<open>A function\<close>

definition visitor_init :: "bool \<Rightarrow> visitor" where
  "visitor_init dot = \<lparr>v_flow = flow_init, v_errors = [], dot_output = dot\<rparr>"

definition mark_arg :: "(cf_node \<times> cf_entry) option \<Rightarrow> visitor \<Rightarrow> visitor" where
  "mark_arg arg v = (case arg of None \<Rightarrow> v | Some (node, e) \<Rightarrow> on_flow (flow_mark_argument node e) v)"

text \<open>The graph that \<open>visit_FuncDefNode\<close> builds, up to \<open>normalize\<close>. \<open>entries\<close> are those of the local
  scope.\<close>

definition build_flow ::
  "bool \<Rightarrow> cf_entry list \<Rightarrow> int \<times> int \<Rightarrow> cnode list \<Rightarrow> (cf_node \<times> cf_entry) option \<Rightarrow> (cf_node \<times> cf_entry) option
   \<Rightarrow> cnode \<Rightarrow> cnode option \<Rightarrow> visitor option" where
  "build_flow dot entries pos args star_arg starstar_arg body gbody =
     (let v = on_flow (\<lambda>f. f\<lparr>fl_entries := remdups (filter is_tracked entries)\<rparr>) (visitor_init dot);
          v = v_nextblock None (mark_position pos v)
      in do {
        v \<leftarrow> visit_all (map visit args) v;
        v \<leftarrow> visit body (mark_arg starstar_arg (mark_arg star_arg v));
        v \<leftarrow> (case gbody of None \<Rightarrow> Some v | Some g \<Rightarrow> visit g v);
        Some (leave_to exit_point v) })"

end
