(* ===== verification/FlowBuild.thy ===== *)
theory FlowBuild
  imports FlowCorrect "HOL-Library.Multiset"
begin

text \<open>
  The operations that build a graph keep what the analysis relies on: the links are consistent, no
  edge leads to the entry point, and the statements are numbered apart.
\<close>

definition stats_below :: "nat \<Rightarrow> heap \<Rightarrow> bool" where
  "stats_below n h \<longleftrightarrow> (\<forall>b < length h. \<forall>s \<in> set (b_stats (h ! b)). stat_id s < n)"

definition flow_inv :: "flow \<Rightarrow> bool" where
  "flow_inv f \<longleftrightarrow>
     flow_ok f \<and> flow_marked f \<and> entry_point \<notin> Range (edges_of (fl_heap f))
     \<and> stats_below (next_stat f) (fl_heap f)"

text \<open>The blocks a method may link or extend.\<close>

definition body_block :: "flow \<Rightarrow> nat \<Rightarrow> bool" where
  "body_block f b \<longleftrightarrow> b < length (fl_heap f) \<and> b \<noteq> entry_point"

lemma flow_inv_linked: "flow_inv f \<Longrightarrow> linked (fl_heap f)"
  by (simp add: flow_inv_def flow_ok_def)

lemma flow_inv_blocks: "flow_inv f \<Longrightarrow> b \<in> set (fl_blocks f) \<longleftrightarrow> body_block f b"
  by (auto simp: flow_inv_def flow_ok_def body_block_def entry_point_def)

lemma flow_inv_exit: "flow_inv f \<Longrightarrow> body_block f exit_point"
  by (simp add: flow_inv_def flow_ok_def body_block_def entry_point_def exit_point_def)

subsection \<open>What does not look at the links\<close>

lemma marked_same_heap:
  assumes "same_content (fl_heap f) h"
  shows "all_assignments (f\<lparr>fl_heap := h\<rparr>) = filter is_assignment
      (concat (map (\<lambda>b. if b < length h then b_stats (fl_heap f ! b) else b_stats (h ! b)) (fl_blocks f)))"
proof -
  have "b_stats (h ! b) = b_stats (fl_heap f ! b)" if "b < length h" for b
    using content_fields(1) [OF same_content_nth [OF assms]] same_content_length [OF assms] that by simp
  then show ?thesis
    unfolding all_assignments_def
    by (intro arg_cong [of _ _ "filter is_assignment"] arg_cong [of _ _ concat] map_cong) simp_all
qed

lemma flow_marked_same_content:
  assumes "flow_marked f" "same_content (fl_heap f) h" "set (fl_blocks f) = {0<..<length (fl_heap f)}"
    and "entry_point < length (fl_heap f)"
  shows "flow_marked (f\<lparr>fl_heap := h\<rparr>)"
  using marked_same_content [OF assms(1,2) _ assms(4), of "fl_blocks f" "\<lambda>b. True"] assms(3) by simp

lemma stats_below_same_content: "stats_below n h \<Longrightarrow> same_content h h' \<Longrightarrow> stats_below n h'"
  unfolding stats_below_def
  by (metis same_content_length same_content_nth content_fields(1))

lemma flow_inv_same_content:
  assumes "flow_inv f" "same_content (fl_heap f) h" "linked h" "entry_point \<notin> Range (edges_of h)"
  shows "flow_inv (f\<lparr>fl_heap := h\<rparr>)"
proof -
  have "flow_marked (f\<lparr>fl_heap := h\<rparr>)"
    using assms(1,2) by (intro flow_marked_same_content)
      (auto simp: flow_inv_def flow_ok_def exit_point_def entry_point_def)
  then show ?thesis
    using assms same_content_length [OF assms(2)] stats_below_same_content [OF _ assms(2)]
    by (simp add: flow_inv_def flow_ok_def)
qed

lemma flow_inv_add_child:
  assumes "flow_inv f" "p < length (fl_heap f)" "body_block f c"
  shows "flow_inv (flow_add_child p c f)"
  unfolding flow_add_child_def
  using assms flow_inv_linked [OF assms(1)]
  by (intro flow_inv_same_content) (auto simp: linked_add_child body_block_def edges_add_child flow_inv_def)

text \<open>Fields the analysis does not read.\<close>

lemma flow_inv_fields [simp]:
  "flow_inv (f\<lparr>fl_block := b\<rparr>) = flow_inv f" "flow_inv (f\<lparr>fl_loops := ls\<rparr>) = flow_inv f"
  "flow_inv (f\<lparr>fl_exceptions := xs\<rparr>) = flow_inv f" "flow_inv (f\<lparr>in_try_block := n\<rparr>) = flow_inv f"
  by (simp_all add: flow_inv_def flow_ok_def flow_marked_def all_assignments_def)

subsection \<open>New blocks\<close>

lemma edges_of_snoc:
  "b_children b = [] \<Longrightarrow> edges_of (h @ [b]) = edges_of h"
  by (auto simp: edges_of_def nth_append less_Suc_eq split: if_splits)

lemma linked_snoc:
  assumes "linked h" "b_children b = []" "b_parents b = []"
  shows "linked (h @ [b])"
proof -
  let ?h = "h @ [b]"
  have old: "distinct (b_children (h ! i)) \<and> distinct (b_parents (h ! i))
      \<and> set (b_children (h ! i)) \<subseteq> {..<length h} \<and> set (b_parents (h ! i)) \<subseteq> {..<length h}
      \<and> (\<forall>c < length h. c \<in> set (b_children (h ! i)) \<longleftrightarrow> i \<in> set (b_parents (h ! c)))" if "i < length h" for i
    using assms(1) that by (simp add: linked_def)
  have nth: "?h ! i = h ! i" if "i < length h" for i using that by (simp add: nth_append)
  have last: "?h ! length h = b" by simp
  have sub: "set (b_children (?h ! i)) \<subseteq> {..<length h} \<and> set (b_parents (?h ! i)) \<subseteq> {..<length h}"
    and dist: "distinct (b_children (?h ! i)) \<and> distinct (b_parents (?h ! i))" if "i < length ?h" for i
    using that old [of i] nth [of i] last assms(2,3) by (cases "i = length h"; simp)+
  have "c \<in> set (b_children (?h ! i)) \<longleftrightarrow> i \<in> set (b_parents (?h ! c))" if "i < length ?h" "c < length ?h" for i c
  proof (cases "i < length h \<and> c < length h")
    case True
    then show ?thesis using old nth by simp
  next
    case False
    then have "i = length h \<or> c = length h" using that by auto
    then show ?thesis
      using sub [OF that(1)] sub [OF that(2)] last assms(2,3) by (elim disjE) auto
  qed
  moreover have "{..<length h} \<subseteq> {..<length ?h}" by auto
  ultimately show ?thesis unfolding linked_def using sub dist by (meson subset_trans)
qed

lemma block_init_fields [simp]:
  "b_children (block_init x) = []" "b_parents (block_init x) = []" "b_stats (block_init x) = []"
  "block_marked es (block_init x)"
  by (simp_all add: block_init_def block_marked_def dict_wf_def)

lemma flow_inv_new_block:
  assumes "flow_inv f"
  shows "flow_inv (snd (new_block f))" and "fst (new_block f) = length (fl_heap f)"
    and "fl_heap (snd (new_block f)) = fl_heap f @ [block_init False]"
proof -
  let ?n = "length (fl_heap f)"
  have old: "linked (fl_heap f)" "flow_marked f" "exit_point < ?n" "distinct (fl_blocks f)"
    "set (fl_blocks f) = {0<..<?n}" "stats_below (next_stat f) (fl_heap f)" "entry_point \<notin> Range (edges_of (fl_heap f))"
    using assms by (simp_all add: flow_inv_def flow_ok_def)
  have new: "List.insert ?n (fl_blocks f) = ?n # fl_blocks f" using old(5) by (simp add: List.insert_def)
  have stats: "map (\<lambda>b. b_stats ((fl_heap f @ [block_init False]) ! b)) (fl_blocks f)
      = map (\<lambda>b. b_stats (fl_heap f ! b)) (fl_blocks f)"
    using old(5) by (intro map_cong) (auto simp: nth_append)
  then have all: "all_assignments (snd (new_block f)) = all_assignments f"
    unfolding all_assignments_def stats [symmetric] by (simp add: new_block_def new)
  have marked: "block_marked (fl_entries f) ((fl_heap f @ [block_init False]) ! b)" if "b < Suc ?n" for b
    using old(2) that by (auto simp: nth_append flow_marked_def less_Suc_eq)
  have "flow_marked (snd (new_block f))"
    unfolding flow_marked_def all
    using old(2,3) marked by (simp add: new_block_def flow_marked_def nth_append exit_point_def entry_point_def)
  moreover have "flow_ok (snd (new_block f))"
    using old by (auto simp: new_block_def flow_ok_def linked_snoc new)
  moreover have "stats_below (next_stat f) (fl_heap f @ [block_init False])"
    using old(6) by (auto simp: stats_below_def nth_append)
  ultimately show "flow_inv (snd (new_block f))"
    using old(7) by (simp add: flow_inv_def new_block_def edges_of_snoc)
qed (simp_all add: new_block_def)

lemma new_block_fields [simp]:
  "fl_block (snd (new_block f)) = fl_block f" "fl_loops (snd (new_block f)) = fl_loops f"
  "fl_exceptions (snd (new_block f)) = fl_exceptions f" "in_try_block (snd (new_block f)) = in_try_block f"
  "fl_entries (snd (new_block f)) = fl_entries f" "next_stat (snd (new_block f)) = next_stat f"
  by (simp_all add: new_block_def)

lemma flow_add_child_fields [simp]:
  "fl_block (flow_add_child p c f) = fl_block f" "fl_loops (flow_add_child p c f) = fl_loops f"
  "fl_exceptions (flow_add_child p c f) = fl_exceptions f"
  "in_try_block (flow_add_child p c f) = in_try_block f"
  "fl_entries (flow_add_child p c f) = fl_entries f" "next_stat (flow_add_child p c f) = next_stat f"
  "length (fl_heap (flow_add_child p c f)) = length (fl_heap f)"
  by (simp_all add: flow_add_child_def)

lemma newblock_fields:
  "fst (newblock parent f) = length (fl_heap f)"
  "length (fl_heap (snd (newblock parent f))) = Suc (length (fl_heap f))"
  "fl_block (snd (newblock parent f)) = fl_block f" "fl_loops (snd (newblock parent f)) = fl_loops f"
  "fl_exceptions (snd (newblock parent f)) = fl_exceptions f"
  "fl_entries (snd (newblock parent f)) = fl_entries f"
  by (simp_all add: newblock_def new_block_def split: option.split)

lemma nextblock_fields:
  "fst (nextblock parent f) = length (fl_heap f)"
  "length (fl_heap (snd (nextblock parent f))) = Suc (length (fl_heap f))"
  "fl_block (snd (nextblock parent f)) = Some (length (fl_heap f))"
  "fl_loops (snd (nextblock parent f)) = fl_loops f"
  "fl_exceptions (snd (nextblock parent f)) = fl_exceptions f"
  "fl_entries (snd (nextblock parent f)) = fl_entries f"
  by (simp_all add: nextblock_def new_block_def split: option.split)

lemma flow_inv_new_child:
  assumes "flow_inv f" "p < length (fl_heap f)"
  shows "flow_inv (flow_add_child p (length (fl_heap f)) (snd (new_block f)))"
  using flow_inv_new_block [OF assms(1)] assms
  by (intro flow_inv_add_child) (auto simp: body_block_def flow_inv_def flow_ok_def entry_point_def)

lemma flow_inv_newblock:
  assumes "flow_inv f" "\<And>p. parent = Some p \<Longrightarrow> p < length (fl_heap f)"
  shows "flow_inv (snd (newblock parent f))"
  using flow_inv_new_block [OF assms(1)] flow_inv_new_child [OF assms(1)] assms(2)
  by (cases parent) (simp_all add: newblock_def split_beta)

lemma flow_inv_nextblock:
  assumes "flow_inv f" "\<And>p. parent = Some p \<Longrightarrow> p < length (fl_heap f)"
    and "\<And>b. fl_block f = Some b \<Longrightarrow> b < length (fl_heap f)"
  shows "flow_inv (snd (nextblock parent f))"
  using flow_inv_new_block [OF assms(1)] flow_inv_new_child [OF assms(1)] assms(2,3)
  by (cases parent; cases "fl_block f") (simp_all add: nextblock_def split_beta)

subsection \<open>Marks\<close>

definition stat_of :: "stat_kind \<Rightarrow> cf_node \<Rightarrow> cf_entry \<Rightarrow> bool \<Rightarrow> nat \<Rightarrow> flow_stat" where
  "stat_of kind node entry fake n =
     \<lparr>stat_id = n, stat_kind = kind, stat_node = node, stat_entry = entry, rhs_fake = fake\<rparr>"

definition block_add_stat :: "flow_stat \<Rightarrow> block \<Rightarrow> block" where
  "block_add_stat s b =
     (let b = b\<lparr>b_stats := b_stats b @ [s]\<rparr>
      in if is_assignment s
         then b\<lparr>b_gen := dict_set (stat_entry s) (if is_deletion s then None else Some s) (b_gen b)\<rparr> else b)"

lemma mark_stat_step:
  assumes "fl_block f = Some b" "is_tracked entry"
  shows "mark_stat kind node entry fake f =
     f\<lparr>fl_heap := update_block b (block_add_stat (stat_of kind node entry fake (next_stat f))) (fl_heap f),
       fl_entries := List.insert entry (fl_entries f), next_stat := next_stat f + 1\<rparr>"
proof -
  let ?s = "stat_of kind node entry fake (next_stat f)"
  have "(\<lambda>b. let b = b\<lparr>b_stats := b_stats b @ [?s]\<rparr>
           in if kind = NameReference then b
              else b\<lparr>b_gen := dict_set entry (if kind = NameDeletion then None else Some ?s) (b_gen b)\<rparr>)
      = block_add_stat ?s"
    by (auto simp: fun_eq_iff block_add_stat_def is_assignment_def is_deletion_def stat_of_def Let_def)
  then show ?thesis using assms by (simp add: mark_stat_def stat_of_def [symmetric] Let_def)
qed

lemma mark_stat_skip:
  "fl_block f = None \<or> \<not> is_tracked entry \<Longrightarrow> mark_stat kind node entry fake f = f"
  by (auto simp: mark_stat_def split: option.split)

lemma mark_stat_fields [simp]:
  "length (fl_heap (mark_stat kind node entry fake f)) = length (fl_heap f)"
  "fl_block (mark_stat kind node entry fake f) = fl_block f"
  "fl_loops (mark_stat kind node entry fake f) = fl_loops f"
  "fl_exceptions (mark_stat kind node entry fake f) = fl_exceptions f"
  by (simp_all add: mark_stat_def Let_def split: option.split)

lemma block_marked_add_stat:
  assumes "block_marked es b" "set es \<subseteq> set es'" "stat_entry s \<in> set es'"
  shows "block_marked es' (block_add_stat s b)"
proof -
  have "\<forall>e. dict_get (b_gen (block_add_stat s b)) e = gen_of e (b_stats b @ [s])"
    using assms(1) by (auto simp: block_marked_def block_add_stat_def dict_get_set Let_def)
  moreover have "dict_wf (b_gen (block_add_stat s b))"
    using assms(1) by (simp add: block_marked_def block_add_stat_def dict_wf_set Let_def)
  moreover have "b_stats (block_add_stat s b) = b_stats b @ [s]"
    by (simp add: block_add_stat_def Let_def)
  moreover have "b_bounded (block_add_stat s b) = b_bounded b" "i_gen (block_add_stat s b) = i_gen b"
    "i_kill (block_add_stat s b) = i_kill b" "i_output (block_add_stat s b) = i_output b"
    by (simp_all add: block_add_stat_def Let_def)
  ultimately show ?thesis using assms by (auto simp: block_marked_def)
qed

lemma block_marked_mono: "block_marked es b \<Longrightarrow> set es \<subseteq> set es' \<Longrightarrow> block_marked es' b"
  by (auto simp: block_marked_def)

lemma mset_concat_update:
  assumes "distinct bs" "b \<in> set bs" "g' b = g b @ [s]" "\<And>c. c \<noteq> b \<Longrightarrow> g' c = g c"
  shows "mset (concat (map g' bs)) = add_mset s (mset (concat (map g bs)))"
  using assms(1,2)
proof (induction bs)
  case (Cons c bs)
  have same: "concat (map g' bs) = concat (map g bs)" if "b \<notin> set bs"
    using that assms(4) by (intro arg_cong [of _ _ concat]) (metis (no_types, lifting) map_eq_conv)
  show ?case
  proof (cases "c = b")
    case True
    then show ?thesis using Cons.prems(1) same assms(3) by (simp add: mset_append)
  next
    case False
    then show ?thesis using Cons assms(4) [OF False] by simp
  qed
qed simp

lemma flow_marked_mark_stat:
  assumes "flow_inv f" "fl_block f = Some b" "body_block f b" "is_tracked entry"
  shows "flow_marked (mark_stat kind node entry fake f)"
proof -
  let ?s = "stat_of kind node entry fake (next_stat f)"
  let ?h = "update_block b (block_add_stat ?s) (fl_heap f)"
  let ?f = "f\<lparr>fl_heap := ?h, fl_entries := List.insert entry (fl_entries f), next_stat := next_stat f + 1\<rparr>"
  have b: "b < length (fl_heap f)" "b \<noteq> entry_point" using assms(3) by (simp_all add: body_block_def)
  have old: "flow_marked f" "distinct (fl_blocks f)" "set (fl_blocks f) = {0<..<length (fl_heap f)}"
    "stats_below (next_stat f) (fl_heap f)"
    using assms(1) by (simp_all add: flow_inv_def flow_ok_def)
  have mem: "b \<in> set (fl_blocks f)" using flow_inv_blocks [OF assms(1)] assms(3) by simp
  have stats: "b_stats (?h ! b) = b_stats (fl_heap f ! b) @ [?s]"
    using b(1) by (simp add: nth_update_block block_add_stat_def Let_def)
  have other: "?h ! c = fl_heap f ! c" if "c \<noteq> b" for c
    using that by (simp add: update_block_def)
  have ms: "mset (concat (map (\<lambda>c. b_stats (?h ! c)) (fl_blocks f)))
      = add_mset ?s (mset (concat (map (\<lambda>c. b_stats (fl_heap f ! c)) (fl_blocks f))))"
    using stats other by (intro mset_concat_update [OF old(2) mem]) simp_all
  have "all_assignments ?f = filter is_assignment (concat (map (\<lambda>c. b_stats (?h ! c)) (fl_blocks f)))"
    by (simp add: all_assignments_def)
  then have "mset (map stat_id (all_assignments ?f))
      = image_mset stat_id (filter_mset is_assignment
          (add_mset ?s (mset (concat (map (\<lambda>c. b_stats (fl_heap f ! c)) (fl_blocks f))))))"
    using ms by (simp add: mset_filter)
  also have "\<dots> = mset (map stat_id ((if is_assignment ?s then [?s] else []) @ all_assignments f))"
    by (simp add: all_assignments_def mset_filter)
  finally have "distinct (map stat_id (all_assignments ?f)) \<longleftrightarrow>
      distinct (map stat_id ((if is_assignment ?s then [?s] else []) @ all_assignments f))"
    by (rule mset_eq_imp_distinct_iff)
  moreover have "next_stat f \<notin> stat_id ` set (all_assignments f)"
    using old(3,4) by (fastforce simp: all_assignments_def stats_below_def)
  moreover have "stat_id ?s = next_stat f" by (simp add: stat_of_def)
  ultimately have dist: "distinct (map stat_id (all_assignments ?f))"
    using old(1) by (simp add: flow_marked_def)
  have marked: "block_marked (fl_entries ?f) (?h ! c)" if "c < length (fl_heap f)" for c
  proof -
    have m: "block_marked (fl_entries f) (fl_heap f ! c)" using old(1) that by (simp add: flow_marked_def)
    have sub: "set (fl_entries f) \<subseteq> set (fl_entries ?f)" "stat_entry ?s \<in> set (fl_entries ?f)"
      by (auto simp: stat_of_def)
    show ?thesis
    proof (cases "c = b")
      case True
      then show ?thesis using block_marked_add_stat [OF m sub] b(1) by (simp add: nth_update_block)
    next
      case False
      then show ?thesis using other [OF False] block_marked_mono [OF m sub(1)] by simp
    qed
  qed
  have "distinct (fl_entries ?f)" using old(1) by (simp add: flow_marked_def)
  moreover have "b_stats (?h ! entry_point) = []"
    using old(1) other [of entry_point] b(2) by (simp add: flow_marked_def)
  ultimately have "flow_marked ?f" using dist marked by (simp add: flow_marked_def)
  then show ?thesis by (simp add: mark_stat_step [OF assms(2,4)])
qed

lemma linked_same_links:
  assumes "length h' = length h" "\<And>b. b < length h \<Longrightarrow> b_children (h' ! b) = b_children (h ! b)"
    and "\<And>b. b < length h \<Longrightarrow> b_parents (h' ! b) = b_parents (h ! b)"
  shows "linked h' = linked h" "edges_of h' = edges_of h"
  using assms by (auto simp: linked_def edges_of_def)

lemma flow_inv_mark_stat:
  assumes "flow_inv f" "\<And>b. fl_block f = Some b \<Longrightarrow> body_block f b"
  shows "flow_inv (mark_stat kind node entry fake f)"
proof (cases "\<exists>b. fl_block f = Some b \<and> is_tracked entry")
  case True
  then obtain b where b: "fl_block f = Some b" "is_tracked entry" by blast
  let ?s = "stat_of kind node entry fake (next_stat f)"
  let ?h = "update_block b (block_add_stat ?s) (fl_heap f)"
  have "b_children (?h ! c) = b_children (fl_heap f ! c)" "b_parents (?h ! c) = b_parents (fl_heap f ! c)"
    if "c < length (fl_heap f)" for c
    using that by (simp_all add: nth_update_block block_add_stat_def Let_def)
  then have links: "linked ?h = linked (fl_heap f)" "edges_of ?h = edges_of (fl_heap f)"
    by (intro linked_same_links; simp)+
  have "stats_below (next_stat f + 1) ?h"
    using assms(1) by (fastforce simp: flow_inv_def stats_below_def nth_update_block block_add_stat_def
        stat_of_def Let_def split: if_splits)
  then show ?thesis
    using assms(1) links flow_marked_mark_stat [OF assms(1) b(1) assms(2) [OF b(1)] b(2), of kind node fake]
    by (simp add: mark_stat_step [OF b] flow_inv_def flow_ok_def)
next
  case False
  then show ?thesis using assms(1) by (subst mark_stat_skip) auto
qed

end
