(* ===== verification/FlowVisitSafe.thy ===== *)
theory FlowVisitSafe
  imports FlowVisit FlowBuild
begin

text \<open>
  The visitor never uses a missing block, and keeps every property of the flow that the operations
  of \<open>ControlFlow\<close> keep. Such a property is a locale; the one the analysis of definitions needs is an
  interpretation of it.
\<close>

subsection \<open>Where statements may stand\<close>

text \<open>A node that always goes on to the next one: what may stand for an expression.\<close>

primrec completes :: "cnode \<Rightarrow> bool" where
  "completes (NameNode node entry) = True"
| "completes (OtherNode pos children) = True"
| "completes (VisitChildren children) = True"
| "completes SkippedNode = True"
| "completes (CArgDeclNode node entry) = True"
| "completes (FromImportStatNode targets children) = True"
| "completes (SingleAssignmentNode lhs rhs) = True"
| "completes (CascadedAssignmentNode lhs_list rhs) = True"
| "completes (ParallelAssignmentNode lhs_list rhs_list) = True"
| "completes (InPlaceAssignmentNode lhs rhs) = True"
| "completes (DelStatNode ignore_nonexisting args) = True"
| "completes (StatListNode stats) = list_all id (map completes stats)"
| "completes (IfStatNode clauses else_clause) = (else_clause = None)"
| "completes (MatchNode subject cases) = False"
| "completes (AssertStatNode pos condition exc) = True"
| "completes (WhileStatNode condition body else_clause) = (else_clause = None)"
| "completes (ForInStatNode iterator sequence target body else_clause) = (else_clause = None)"
| "completes (AsyncForStatNode iterator target body else_clause) = (else_clause = None)"
| "completes (ForFromStatNode bound1 bound2 step target body else_clause) = (else_clause = None)"
| "completes (WithTargetAssignmentStatNode lhs) = True"
| "completes (WithStatNode manager enter_call body) = completes body"
| "completes (TryExceptStatNode body clauses else_clause) = False"
| "completes (TryFinallyStatNode body finally_clause finally_except_clause) = False"
| "completes (RaiseStatNode pos children) = False"
| "completes (ReraiseStatNode pos) = False"
| "completes (ReturnStatNode pos children) = False"
| "completes (BreakStatNode pos) = False"
| "completes (ContinueStatNode pos) = False"
| "completes (ComprehensionNode loop) = completes loop"
| "completes (PyClassDefNode children target entry doc body) = True"
| "completes (AmpersandNode operand) = True"
| "completes (BoolBinopNode operand1 operand2) = True"
| "completes (CondExprNode condition true_val false_val) = True"

text \<open>Every node that stands for an expression completes, and a name that is deleted or that a class
  defines has an entry.\<close>

primrec well_placed :: "cnode \<Rightarrow> bool" where
  "well_placed (NameNode node entry) = True"
| "well_placed (OtherNode pos children) = (list_all id (map well_placed children) \<and> list_all completes children)"
| "well_placed (VisitChildren children) = (list_all id (map well_placed children) \<and> list_all completes children)"
| "well_placed SkippedNode = True"
| "well_placed (CArgDeclNode node entry) = True"
| "well_placed (FromImportStatNode targets children) =
     (list_all (pred_target id) (map (map_target well_placed) targets) \<and> list_all (pred_target completes) targets
      \<and> list_all id (map well_placed children) \<and> list_all completes children)"
| "well_placed (SingleAssignmentNode lhs rhs) =
     (pred_target id (map_target well_placed lhs) \<and> pred_target completes lhs \<and> well_placed rhs \<and> completes rhs)"
| "well_placed (CascadedAssignmentNode lhs_list rhs) =
     (list_all (pred_target id) (map (map_target well_placed) lhs_list) \<and> list_all (pred_target completes) lhs_list
      \<and> well_placed rhs \<and> completes rhs)"
| "well_placed (ParallelAssignmentNode lhs_list rhs_list) =
     (list_all (pred_target id) (map (map_target well_placed) lhs_list) \<and> list_all (pred_target completes) lhs_list
      \<and> list_all id (map well_placed rhs_list) \<and> list_all completes rhs_list)"
| "well_placed (InPlaceAssignmentNode lhs rhs) =
     (pred_target id (map_target well_placed lhs) \<and> pred_target completes lhs \<and> well_placed rhs \<and> completes rhs)"
| "well_placed (DelStatNode ignore_nonexisting args) =
     (list_all (pred_target id) (map (map_target well_placed) args) \<and> list_all (pred_target completes) args
      \<and> (\<forall>node. NameTarget node None \<notin> set args))"
| "well_placed (StatListNode stats) = list_all id (map well_placed stats)"
| "well_placed (IfStatNode clauses else_clause) =
     (list_all (pred_prod id id) (map (map_prod well_placed well_placed) clauses)
      \<and> list_all (completes \<circ> fst) clauses \<and> pred_option id (map_option well_placed else_clause))"
| "well_placed (MatchNode subject cases) =
     (well_placed subject \<and> completes subject \<and> list_all (pred_match_case id) (map (map_match_case well_placed) cases)
      \<and> list_all (\<lambda>c. case c of MatchCaseNode p t g b \<Rightarrow> completes p \<and> pred_option completes t \<and> pred_option completes g
                    | SubstitutedMatchCaseNode b \<Rightarrow> True) cases)"
| "well_placed (AssertStatNode pos condition exc) = (well_placed condition \<and> completes condition \<and> well_placed exc)"
| "well_placed (WhileStatNode condition body else_clause) =
     (pred_option id (map_option well_placed condition) \<and> pred_option completes condition \<and> well_placed body
      \<and> pred_option id (map_option well_placed else_clause))"
| "well_placed (ForInStatNode iterator sequence target body else_clause) =
     (well_placed iterator \<and> completes iterator \<and> pred_target id (map_target well_placed target)
      \<and> pred_target completes target \<and> well_placed body \<and> pred_option id (map_option well_placed else_clause))"
| "well_placed (AsyncForStatNode iterator target body else_clause) =
     (well_placed iterator \<and> completes iterator \<and> pred_target id (map_target well_placed target)
      \<and> pred_target completes target \<and> well_placed body \<and> pred_option id (map_option well_placed else_clause))"
| "well_placed (ForFromStatNode bound1 bound2 step target body else_clause) =
     (well_placed bound1 \<and> completes bound1 \<and> well_placed bound2 \<and> completes bound2
      \<and> pred_option id (map_option well_placed step) \<and> pred_option completes step
      \<and> pred_target id (map_target well_placed target) \<and> pred_target completes target \<and> well_placed body
      \<and> pred_option id (map_option well_placed else_clause))"
| "well_placed (WithTargetAssignmentStatNode lhs) =
     (pred_target id (map_target well_placed lhs) \<and> pred_target completes lhs)"
| "well_placed (WithStatNode manager enter_call body) =
     (well_placed manager \<and> completes manager \<and> well_placed enter_call \<and> completes enter_call \<and> well_placed body)"
| "well_placed (TryExceptStatNode body clauses else_clause) =
     (well_placed body \<and> list_all (pred_except_clause id) (map (map_except_clause well_placed) clauses)
      \<and> list_all (\<lambda>c. case c of ExceptClauseNode p t b \<Rightarrow> list_all completes p \<and> pred_option (pred_target completes) t) clauses
      \<and> pred_option id (map_option well_placed else_clause))"
| "well_placed (TryFinallyStatNode body finally_clause finally_except_clause) =
     (well_placed body \<and> well_placed finally_clause \<and> well_placed finally_except_clause)"
| "well_placed (RaiseStatNode pos children) = (list_all id (map well_placed children) \<and> list_all completes children)"
| "well_placed (ReraiseStatNode pos) = True"
| "well_placed (ReturnStatNode pos children) = (list_all id (map well_placed children) \<and> list_all completes children)"
| "well_placed (BreakStatNode pos) = True"
| "well_placed (ContinueStatNode pos) = True"
| "well_placed (ComprehensionNode loop) = well_placed loop"
| "well_placed (PyClassDefNode children target entry doc body) =
     (list_all id (map well_placed children) \<and> list_all completes children \<and> entry \<noteq> None \<and> well_placed body)"
| "well_placed (AmpersandNode operand) =
     (pred_target id (map_target well_placed operand) \<and> pred_target completes operand)"
| "well_placed (BoolBinopNode operand1 operand2) =
     (well_placed operand1 \<and> completes operand1 \<and> well_placed operand2 \<and> completes operand2)"
| "well_placed (CondExprNode condition true_val false_val) =
     (well_placed condition \<and> completes condition \<and> well_placed true_val \<and> completes true_val
      \<and> well_placed false_val \<and> completes false_val)"

subsection \<open>Properties of a flow that its operations keep\<close>

text \<open>\<open>blk f b\<close>: the block may be linked and extended.\<close>

locale flow_invariant =
  fixes inv :: "flow \<Rightarrow> bool" and blk :: "flow \<Rightarrow> nat \<Rightarrow> bool"
  assumes blk_mono: "blk f b \<Longrightarrow> length (fl_heap f) \<le> length (fl_heap f') \<Longrightarrow> blk f' b"
    and blk_bound: "blk f b \<Longrightarrow> b < length (fl_heap f)"
    and blk_new: "inv f \<Longrightarrow> blk (snd (new_block f)) (length (fl_heap f))"
    and blk_exit: "inv f \<Longrightarrow> blk f exit_point"
    and inv_new_block: "inv f \<Longrightarrow> inv (snd (new_block f))"
    and inv_add_child: "inv f \<Longrightarrow> blk f p \<Longrightarrow> blk f c \<Longrightarrow> inv (flow_add_child p c f)"
    and inv_mark_stat: "inv f \<Longrightarrow> (\<And>b. fl_block f = Some b \<Longrightarrow> blk f b) \<Longrightarrow> inv (mark_stat kind node e fake f)"
    and inv_mark_position: "inv f \<Longrightarrow> (\<And>b. fl_block f = Some b \<Longrightarrow> blk f b) \<Longrightarrow> inv (flow_mark_position pos f)"
    and inv_control: "inv (f\<lparr>fl_block := ob\<rparr>) = inv f" "inv (f\<lparr>fl_loops := ls\<rparr>) = inv f"
      "inv (f\<lparr>fl_exceptions := xs\<rparr>) = inv f" "inv (f\<lparr>in_try_block := n\<rparr>) = inv f"
begin

definition descr_ok :: "flow \<Rightarrow> exception_descr \<Rightarrow> bool" where
  "descr_ok f d \<longleftrightarrow> blk f (exc_entry_point d) \<and> pred_option (blk f) (finally_enter d)
     \<and> pred_option (blk f) (finally_exit d)"

definition loop_ok :: "flow \<Rightarrow> loop_descr \<Rightarrow> bool" where
  "loop_ok f l \<longleftrightarrow> blk f (next_block l) \<and> blk f (loop_block l) \<and> list_all (descr_ok f) (loop_exceptions l)"

definition good :: "visitor \<Rightarrow> bool" where
  "good v \<longleftrightarrow> inv (v_flow v) \<and> pred_option (blk (v_flow v)) (cur v)
     \<and> list_all (descr_ok (v_flow v)) (fl_exceptions (v_flow v)) \<and> list_all (loop_ok (v_flow v)) (fl_loops (v_flow v))"

definition extends :: "visitor \<Rightarrow> visitor \<Rightarrow> bool" where
  "extends v v' \<longleftrightarrow> length (fl_heap (v_flow v)) \<le> length (fl_heap (v_flow v'))
     \<and> fl_exceptions (v_flow v') = fl_exceptions (v_flow v) \<and> fl_loops (v_flow v') = fl_loops (v_flow v)"

lemma visitor_extends_refl [simp]: "extends v v"
  by (simp add: extends_def)

lemma visitor_extends_trans [trans]: "extends v v' \<Longrightarrow> extends v' v'' \<Longrightarrow> extends v v''"
  by (simp add: extends_def)

text \<open>What a step may rely on and what it gives; \<open>c\<close> tells whether the next statement is reached.\<close>

definition moves :: "bool \<Rightarrow> visitor \<Rightarrow> visitor \<Rightarrow> bool" where
  "moves c v v' \<longleftrightarrow> good v' \<and> extends v v' \<and> (c \<longrightarrow> cur v' \<noteq> None)"

definition act_ok :: "bool \<Rightarrow> act \<Rightarrow> bool" where
  "act_ok c a \<longleftrightarrow> (\<forall>v. good v \<longrightarrow> cur v \<noteq> None \<longrightarrow> (\<exists>v'. a v = Some v' \<and> moves c v v'))"

lemma act_okI: "(\<And>v. good v \<Longrightarrow> cur v \<noteq> None \<Longrightarrow> \<exists>v'. a v = Some v' \<and> moves c v v') \<Longrightarrow> act_ok c a"
  by (simp add: act_ok_def)

lemma act_okE:
  assumes "act_ok c a" "good v" "cur v \<noteq> None"
  obtains v' where "a v = Some v'" "good v'" "extends v v'" "c \<Longrightarrow> cur v' \<noteq> None"
  using assms by (auto simp: act_ok_def moves_def)

lemma blk_extends: "blk (v_flow v) b \<Longrightarrow> extends v v' \<Longrightarrow> blk (v_flow v') b"
  by (auto simp: extends_def intro: blk_mono)

lemma descr_ok_mono: "descr_ok f d \<Longrightarrow> length (fl_heap f) \<le> length (fl_heap f') \<Longrightarrow> descr_ok f' d"
  by (auto simp: descr_ok_def pred_option_def intro: blk_mono)

lemma loop_ok_mono: "loop_ok f l \<Longrightarrow> length (fl_heap f) \<le> length (fl_heap f') \<Longrightarrow> loop_ok f' l"
  by (auto simp: loop_ok_def list_all_iff intro: blk_mono descr_ok_mono)

text \<open>A new flow with the same descriptors.\<close>

lemma good_step:
  assumes "good v" "inv f" "length (fl_heap (v_flow v)) \<le> length (fl_heap f)"
    and "fl_exceptions f = fl_exceptions (v_flow v)" "fl_loops f = fl_loops (v_flow v)"
    and "pred_option (blk f) (fl_block f)"
  shows "good (v\<lparr>v_flow := f\<rparr>)" "extends v (v\<lparr>v_flow := f\<rparr>)"
  using assms by (auto simp: good_def extends_def list_all_iff intro: descr_ok_mono loop_ok_mono)

end

subsection \<open>Single steps\<close>

context flow_invariant
begin

lemma good_inv: "good v \<Longrightarrow> inv (v_flow v)"
  by (simp add: good_def)

lemma good_cur: "good v \<Longrightarrow> cur v = Some b \<Longrightarrow> blk (v_flow v) b"
  by (simp add: good_def)

lemma good_block: "good v \<Longrightarrow> pred_option (blk (v_flow v)) (cur v)"
  by (simp add: good_def)

lemma good_on_flow:
  assumes "good v" "inv (g (v_flow v))" "length (fl_heap (v_flow v)) \<le> length (fl_heap (g (v_flow v)))"
    and "fl_exceptions (g (v_flow v)) = fl_exceptions (v_flow v)" "fl_loops (g (v_flow v)) = fl_loops (v_flow v)"
    and "pred_option (blk (g (v_flow v))) (fl_block (g (v_flow v)))"
  shows "good (on_flow g v)" "extends v (on_flow g v)"
  using good_step [OF assms] by (simp_all add: on_flow_def)

lemma on_flow_fields [simp]: "v_flow (on_flow g v) = g (v_flow v)"
  by (simp add: on_flow_def)

lemma blk_option_mono:
  "pred_option (blk f) x \<Longrightarrow> length (fl_heap f) \<le> length (fl_heap f') \<Longrightarrow> pred_option (blk f') x"
  by (cases x) (auto intro: blk_mono)

lemma newblock_inv:
  assumes "inv f" "pred_option (blk f) parent"
  shows "inv (snd (newblock parent f))" "blk (snd (newblock parent f)) (length (fl_heap f))"
proof -
  let ?f = "snd (new_block f)"
  have le: "length (fl_heap f) \<le> length (fl_heap ?f)" by (simp add: new_block_def)
  have b: "blk ?f (length (fl_heap f))" by (rule blk_new [OF assms(1)])
  show "inv (snd (newblock parent f))"
    using inv_new_block [OF assms(1)] inv_add_child [OF inv_new_block [OF assms(1)] _ b] assms(2) blk_mono [OF _ le]
    by (cases parent) (simp_all add: newblock_def split_beta new_block_def)
  show "blk (snd (newblock parent f)) (length (fl_heap f))"
    using b by (rule blk_mono) (simp add: newblock_fields new_block_def)
qed

lemma nextblock_inv:
  assumes "inv f" "pred_option (blk f) parent" "pred_option (blk f) (fl_block f)"
  shows "inv (snd (nextblock parent f))" "blk (snd (nextblock parent f)) (length (fl_heap f))"
proof -
  let ?f = "snd (new_block f)"
  have le: "length (fl_heap f) \<le> length (fl_heap ?f)" by (simp add: new_block_def)
  have b: "blk ?f (length (fl_heap f))" by (rule blk_new [OF assms(1)])
  note child = inv_add_child [OF inv_new_block [OF assms(1)] _ b]
  have "inv (case parent of
               Some p \<Rightarrow> flow_add_child p (length (fl_heap f)) ?f
             | None \<Rightarrow> (case fl_block ?f of None \<Rightarrow> ?f | Some p \<Rightarrow> flow_add_child p (length (fl_heap f)) ?f))"
    using inv_new_block [OF assms(1)] child assms(2,3) blk_mono [OF _ le]
    by (cases parent; cases "fl_block f") (simp_all add: new_block_def)
  then show "inv (snd (nextblock parent f))"
    by (simp add: nextblock_def split_beta new_block_def inv_control cong: option.case_cong)
  show "blk (snd (nextblock parent f)) (length (fl_heap f))"
    using b by (rule blk_mono) (simp add: nextblock_fields new_block_def)
qed

lemma v_newblock_good:
  assumes "good v" "pred_option (blk (v_flow v)) parent"
  obtains n v' where "v_newblock parent v = (n, v')" "blk (v_flow v') n" "good v'" "extends v v'" "cur v' = cur v"
proof -
  let ?f = "snd (newblock parent (v_flow v))"
  note new = newblock_inv [OF good_inv [OF assms(1)] assms(2)]
  have "good (v\<lparr>v_flow := ?f\<rparr>)" "extends v (v\<lparr>v_flow := ?f\<rparr>)"
    using assms(1) new(1)
    by (intro good_step; simp add: newblock_fields good_block blk_option_mono [of "v_flow v"])+
  moreover have "v_newblock parent v = (length (fl_heap (v_flow v)), v\<lparr>v_flow := ?f\<rparr>)"
    by (simp add: v_newblock_def split_beta newblock_fields)
  ultimately show thesis using new(2) by (intro that [of _ "v\<lparr>v_flow := ?f\<rparr>"]) (simp_all add: newblock_fields)
qed

lemma v_nextblock_good:
  assumes "good v" "pred_option (blk (v_flow v)) parent"
  shows "good (v_nextblock parent v)" "extends v (v_nextblock parent v)"
    "cur (v_nextblock parent v) = Some (length (fl_heap (v_flow v)))"
proof -
  have "pred_option (blk (v_flow v)) (cur v)" using assms(1) by (simp add: good_def)
  note nb = nextblock_inv [OF good_inv [OF assms(1)] assms(2) this]
  show "good (v_nextblock parent v)" "extends v (v_nextblock parent v)"
    using nb by (simp_all add: v_nextblock_def good_on_flow [OF assms(1)] nextblock_fields)
  show "cur (v_nextblock parent v) = Some (length (fl_heap (v_flow v)))"
    by (simp add: v_nextblock_def nextblock_fields)
qed

lemma add_edge_good:
  assumes "good v" "blk (v_flow v) p" "blk (v_flow v) c"
  shows "good (on_flow (flow_add_child p c) v)" "extends v (on_flow (flow_add_child p c) v)"
    "cur (on_flow (flow_add_child p c) v) = cur v"
  using inv_add_child [OF good_inv [OF assms(1)] assms(2,3)] good_block [OF assms(1)]
  by (simp_all add: good_on_flow [OF assms(1)] blk_option_mono [of "v_flow v"])

lemma add_edge_parents:
  "c < length (fl_heap (v_flow v)) \<Longrightarrow>
     b_parents (fl_heap (v_flow (on_flow (flow_add_child p c) v)) ! c) \<noteq> []"
  using add_child_links(2) [of c "fl_heap (v_flow v)" p c]
  by (auto simp: flow_add_child_def)

lemma leave_to_good:
  assumes "good v" "blk (v_flow v) c"
  shows "good (leave_to c v)" "extends v (leave_to c v)" "cur (leave_to c v) = cur v"
    "cur v \<noteq> None \<Longrightarrow> b_parents (fl_heap (v_flow (leave_to c v)) ! c) \<noteq> []"
  using add_edge_good [OF assms(1) _ assms(2)] add_edge_parents [OF blk_bound [OF assms(2)]] good_cur [OF assms(1)]
    assms(1)
  by (auto simp: leave_to_def split: option.split)

lemma set_block_good:
  assumes "good v" "pred_option (blk (v_flow v)) b"
  shows "good (set_block b v)" "extends v (set_block b v)" "cur (set_block b v) = b"
  using good_inv [OF assms(1)] assms(2)
  by (simp_all add: set_block_def good_on_flow [OF assms(1)] inv_control blk_option_mono [of "v_flow v"])

lemma continue_at_good:
  assumes "good v" "blk (v_flow v) c"
  shows "good (continue_at c v)" "extends v (continue_at c v)"
    "b_parents (fl_heap (v_flow v) ! c) \<noteq> [] \<Longrightarrow> cur (continue_at c v) = Some c"
  using assms set_block_good [OF assms(1)] by (simp_all add: continue_at_def)

lemma mark_position_good:
  assumes "good v"
  shows "good (mark_position pos v)" "extends v (mark_position pos v)" "cur (mark_position pos v) = cur v"
proof -
  have f: "length (fl_heap (flow_mark_position pos f)) = length (fl_heap f)"
    "fl_exceptions (flow_mark_position pos f) = fl_exceptions f" "fl_loops (flow_mark_position pos f) = fl_loops f"
    "fl_block (flow_mark_position pos f) = fl_block f" for f
    by (simp_all add: flow_mark_position_def split: option.split)
  have "inv (flow_mark_position pos (v_flow v))"
    using good_inv [OF assms] good_cur [OF assms] by (intro inv_mark_position) simp_all
  then show "good (mark_position pos v)" "extends v (mark_position pos v)" "cur (mark_position pos v) = cur v"
    using assms good_block [OF assms]
    by (simp_all add: mark_position_def f good_on_flow [OF assms] blk_option_mono [of "v_flow v"])
qed

lemma mark_stat_good:
  assumes "good v"
  shows "good (on_flow (mark_stat kind node e fake) v)" "extends v (on_flow (mark_stat kind node e fake) v)"
proof -
  have "inv (mark_stat kind node e fake (v_flow v))"
    using good_inv [OF assms] good_cur [OF assms] by (intro inv_mark_stat) simp_all
  then show "good (on_flow (mark_stat kind node e fake) v)" "extends v (on_flow (mark_stat kind node e fake) v)"
    using good_block [OF assms] by (simp_all add: good_on_flow [OF assms] blk_option_mono [of "v_flow v"])
qed

lemmas mark_defs = flow_mark_assignment_def flow_mark_argument_def flow_mark_deletion_def flow_mark_reference_def

end

subsection \<open>Names and assignments\<close>

text \<open>\<open>succeeds m Q\<close>: the computation raises no error and its result has the property.\<close>

definition succeeds :: "'a option \<Rightarrow> ('a \<Rightarrow> bool) \<Rightarrow> bool" where
  "succeeds m Q \<longleftrightarrow> (case m of None \<Rightarrow> False | Some x \<Rightarrow> Q x)"

lemma succeeds_simps [simp]:
  "succeeds (Some x) Q = Q x" "succeeds None Q = False"
  "succeeds (m \<bind> g) Q = succeeds m (\<lambda>x. succeeds (g x) Q)"
  "succeeds (map_option h m) Q = succeeds m (\<lambda>x. Q (h x))"
  by (cases m; simp add: succeeds_def)+

lemma succeeds_iff: "succeeds m Q \<longleftrightarrow> (\<exists>x. m = Some x \<and> Q x)"
  by (cases m) simp_all

lemma succeeds_mono: "succeeds m P \<Longrightarrow> (\<And>x. P x \<Longrightarrow> Q x) \<Longrightarrow> succeeds m Q"
  by (cases m) (simp_all add: succeeds_def)

context flow_invariant
begin

lemma act_ok_iff: "act_ok c a \<longleftrightarrow> (\<forall>v. good v \<longrightarrow> cur v \<noteq> None \<longrightarrow> succeeds (a v) (moves c v))"
  by (simp only: act_ok_def succeeds_iff)

lemma act_okI': "(\<And>v. good v \<Longrightarrow> cur v \<noteq> None \<Longrightarrow> succeeds (a v) (moves c v)) \<Longrightarrow> act_ok c a"
  by (simp add: act_ok_iff)

lemma act_ok_weaken: "act_ok c a \<Longrightarrow> act_ok False a"
  by (auto simp: act_ok_def moves_def)

text \<open>A step from a state that the start leads to.\<close>

lemma act_step:
  assumes "act_ok c a" "good v" "cur v \<noteq> None"
    and "\<And>v'. good v' \<Longrightarrow> extends v v' \<Longrightarrow> (c \<Longrightarrow> cur v' \<noteq> None) \<Longrightarrow> Q v'"
  shows "succeeds (a v) Q"
proof -
  have "succeeds (a v) (moves c v)" using assms(1-3) by (simp add: act_ok_iff)
  then show ?thesis by (rule succeeds_mono) (auto simp: moves_def intro: assms(4))
qed

lemma exception_edge_good:
  assumes "good v" "cur v \<noteq> None"
    and "\<And>v'. good v' \<Longrightarrow> extends v v' \<Longrightarrow> cur v' = cur v \<Longrightarrow> Q v'"
  shows "succeeds (exception_edge v) Q"
proof (cases "fl_exceptions (v_flow v) = []")
  case True
  then show ?thesis using assms by (simp add: exception_edge_def)
next
  case False
  then have "descr_ok (v_flow v) (last (fl_exceptions (v_flow v)))"
    using assms(1) by (simp add: good_def list_all_iff)
  then have "blk (v_flow v) (exc_entry_point (last (fl_exceptions (v_flow v))))" by (simp add: descr_ok_def)
  moreover obtain b where "cur v = Some b" using assms(2) by auto
  ultimately show ?thesis
    using False add_edge_good [OF assms(1) good_cur [OF assms(1)]] assms(3)
    by (simp add: exception_edge_def v_add_child_def)
qed

lemma assignment_edge_good:
  assumes "good v" "cur v \<noteq> None"
    and "\<And>v'. good v' \<Longrightarrow> extends v v' \<Longrightarrow> cur v' \<noteq> None \<Longrightarrow> Q v'"
  shows "succeeds (assignment_edge v) Q"
proof (cases "fl_exceptions (v_flow v) = []")
  case True
  then show ?thesis using assms by (simp add: assignment_edge_def)
next
  case False
  have "succeeds (exception_edge v) (\<lambda>v. Q (v_nextblock None v))"
  proof (rule exception_edge_good [OF assms(1,2)])
    fix v' assume v': "good v'" "extends v v'"
    show "Q (v_nextblock None v')"
      using v_nextblock_good [OF v'(1), of None] v'(2) by (intro assms(3)) (auto intro: visitor_extends_trans)
  qed
  then show ?thesis using False by (simp add: assignment_edge_def)
qed

lemma act_ok_Some: "act_ok True Some"
  by (simp add: act_ok_def moves_def)

lemma visit_all_ok: "list_all (act_ok True) as \<Longrightarrow> act_ok True (visit_all as)"
proof (induction as)
  case Nil
  then show ?case using act_ok_Some by (simp add: act_ok_def)
next
  case (Cons a as)
  show ?case
    unfolding act_ok_iff
  proof (intro allI impI)
    fix v assume v: "good v" "cur v \<noteq> None"
    show "succeeds (visit_all (a # as) v) (moves True v)"
      unfolding visit_all.simps succeeds_simps
    proof (rule act_step [OF _ v])
      show "act_ok True a" using Cons.prems by simp
    next
      fix v' assume v': "good v'" "extends v v'" "True \<Longrightarrow> cur v' \<noteq> None"
      show "succeeds (visit_all as v') (moves True v)"
        using Cons v' by (intro act_step [of True "visit_all as"]) (auto simp: moves_def intro: visitor_extends_trans)
    qed
  qed
qed

lemma visit_opt_ok: "pred_option (act_ok True) a \<Longrightarrow> act_ok True (visit_opt a)"
  using act_ok_Some by (cases a) (simp_all add: visit_opt_def [abs_def])

lemma visit_Node_ok:
  assumes "list_all (act_ok True) as"
  shows "act_ok True (visit_Node pos as)"
proof (rule act_okI')
  fix v assume v: "good v" "cur v \<noteq> None"
  show "succeeds (visit_Node pos as v) (moves True v)"
    unfolding visit_Node_def succeeds_simps
  proof (rule act_step [OF visit_all_ok [OF assms] v])
    fix v' assume v': "good v'" "extends v v'" "True \<Longrightarrow> cur v' \<noteq> None"
    show "moves True v (mark_position pos v')"
      using mark_position_good [OF v'(1), of pos] v'(2,3) by (auto simp: moves_def intro: visitor_extends_trans)
  qed
qed

lemma act_ok_mark: "act_ok True (\<lambda>v. Some (on_flow (mark_stat kind node e fake) v))"
  using mark_stat_good by (simp add: act_ok_iff moves_def)

lemma visit_NameNode_ok: "act_ok True (visit_NameNode node entry)"
  using act_ok_mark [of NameReference node]
  by (auto simp: visit_NameNode_def act_ok_def moves_def flow_mark_reference_def [abs_def] split: option.split)

lemma visit_CArgDeclNode_ok: "act_ok True (visit_CArgDeclNode node entry)"
  using act_ok_mark [of Argument node]
  by (auto simp: visit_CArgDeclNode_def act_ok_def moves_def flow_mark_argument_def [abs_def] split: option.split)

lemma visit_target_ok: "pred_target (act_ok True) t \<Longrightarrow> act_ok True (visit_target t)"
proof (induction t)
  case (NameTarget node entry)
  then show ?case using visit_NameNode_ok [of node entry] by (simp add: act_ok_def)
next
  case (SequenceTarget pos args)
  then have "list_all (act_ok True) (map visit_target args)" by (auto simp: list_all_iff)
  then show ?case using visit_Node_ok [of "map visit_target args" pos] by (simp add: act_ok_def)
qed (simp add: act_ok_def)

lemma assignment_ok:
  assumes "act_ok True a"
  shows "act_ok True (\<lambda>v. case cur v of None \<Rightarrow> Some v
    | Some _ \<Rightarrow> do { v \<leftarrow> assignment_edge v; v \<leftarrow> a v; assignment_edge v })"
  unfolding act_ok_iff
proof (intro allI impI)
  fix v assume v: "good v" "cur v \<noteq> None"
  have "succeeds (assignment_edge v) (\<lambda>v. succeeds (a v) (\<lambda>v. succeeds (assignment_edge v) (moves True v0)))"
    if "extends v0 v" for v0
    using that
    by (intro assignment_edge_good [OF v] act_step [OF assms] assignment_edge_good)
       (auto simp: moves_def intro: visitor_extends_trans)
  from this [of v] show "succeeds (case cur v of None \<Rightarrow> Some v
      | Some _ \<Rightarrow> do { v \<leftarrow> assignment_edge v; v \<leftarrow> a v; assignment_edge v }) (moves True v)"
    using v(2) by (auto split: option.split)
qed

lemma mark_assignment_ok: "pred_target (act_ok True) t \<Longrightarrow> act_ok True (mark_assignment fake t)"
proof (induction t)
  case (NameTarget node entry)
  show ?case
  proof (cases entry)
    case None
    have "succeeds (assignment_edge v) (moves True v)" if "good v" "cur v \<noteq> None" for v
      using that by (intro assignment_edge_good) (auto simp: moves_def)
    then show ?thesis using None by (auto simp: act_ok_iff moves_def split: option.split)
  next
    case (Some e)
    have "mark_assignment fake (NameTarget node entry) = (\<lambda>v. case cur v of None \<Rightarrow> Some v
      | Some _ \<Rightarrow> do { v \<leftarrow> assignment_edge v; v \<leftarrow> Some (on_flow (mark_stat NameAssignment node e fake) v);
                        assignment_edge v })"
      using Some by (auto simp: fun_eq_iff flow_mark_assignment_def [abs_def] split: option.split)
    then show ?thesis using assignment_ok [OF act_ok_mark [of NameAssignment node e fake]] by simp
  qed
next
  case (SequenceTarget pos args)
  then have "list_all (act_ok True) (map (mark_assignment fake) args)" by (auto simp: list_all_iff)
  from assignment_ok [OF visit_all_ok [OF this]] show ?case by (simp add: act_ok_def)
next
  case (OtherTarget a)
  then show ?case using assignment_ok [of a] by (simp add: act_ok_def)
qed

lemma assign_all_ok: "list_all (pred_target (act_ok True)) ts \<Longrightarrow> act_ok True (assign_all ts)"
  using visit_all_ok [of "map (mark_assignment False) ts"] mark_assignment_ok
  by (simp add: assign_all_def [abs_def] list_all_iff)

end

subsection \<open>States inside a method\<close>

context flow_invariant
begin

text \<open>The blocks that the method holds, the two stacks, and a bound for the blocks of its start.\<close>

definition in_state :: "nat set \<Rightarrow> loop_descr list \<Rightarrow> exception_descr list \<Rightarrow> nat \<Rightarrow> visitor \<Rightarrow> bool" where
  "in_state B L E n v \<longleftrightarrow> good v \<and> (\<forall>b \<in> B. blk (v_flow v) b) \<and> fl_loops (v_flow v) = L
     \<and> fl_exceptions (v_flow v) = E \<and> n \<le> length (fl_heap (v_flow v))"

abbreviation start :: "visitor \<Rightarrow> visitor \<Rightarrow> bool" where
  "start v0 v \<equiv> in_state {} (fl_loops (v_flow v0)) (fl_exceptions (v_flow v0)) (length (fl_heap (v_flow v0))) v"

lemma start_refl: "good v \<Longrightarrow> start v v"
  by (simp add: in_state_def)

lemma moves_start: "moves c v0 v \<longleftrightarrow> start v0 v \<and> (c \<longrightarrow> cur v \<noteq> None)"
  by (auto simp: moves_def in_state_def extends_def)

lemma in_state_extends: "in_state B L E n v \<Longrightarrow> good v' \<Longrightarrow> extends v v' \<Longrightarrow> in_state B L E n v'"
  by (auto simp: in_state_def extends_def intro: blk_mono)

lemma in_state_subset: "in_state B L E n v \<Longrightarrow> B' \<subseteq> B \<Longrightarrow> in_state B' L E n v"
  by (auto simp: in_state_def)

lemma in_state_cur: "in_state B L E n v \<Longrightarrow> cur v = Some b \<Longrightarrow> in_state (insert b B) L E n v"
  using good_cur by (auto simp: in_state_def)

lemma in_state_done: "in_state B (fl_loops (v_flow v0)) (fl_exceptions (v_flow v0)) (length (fl_heap (v_flow v0))) v
    \<Longrightarrow> start v0 v"
  by (erule in_state_subset) simp

lemma state_act:
  assumes "act_ok c a" "in_state B L E n v" "cur v \<noteq> None"
    and "\<And>v'. in_state B L E n v' \<Longrightarrow> (c \<Longrightarrow> cur v' \<noteq> None) \<Longrightarrow> Q v'"
  shows "succeeds (a v) Q"
proof (rule act_step [OF assms(1) _ assms(3)])
  show "good v" using assms(2) by (simp add: in_state_def)
next
  fix v' assume "good v'" "extends v v'" "c \<Longrightarrow> cur v' \<noteq> None"
  then show "Q v'" using in_state_extends [OF assms(2)] by (intro assms(4))
qed

lemma state_newblock:
  assumes "in_state B L E n v" "\<And>b. parent = Some b \<Longrightarrow> b \<in> B"
  obtains b v' where "v_newblock parent v = (b, v')" "in_state (insert b B) L E n v'" "cur v' = cur v"
proof -
  have "pred_option (blk (v_flow v)) parent" using assms by (cases parent) (auto simp: in_state_def)
  then obtain b v' where "v_newblock parent v = (b, v')" "blk (v_flow v') b" "good v'" "extends v v'" "cur v' = cur v"
    using v_newblock_good [of v parent] assms(1) by (auto simp: in_state_def)
  moreover from this have "in_state (insert b B) L E n v'"
    using in_state_extends [OF assms(1)] by (simp add: in_state_def)
  ultimately show thesis by (intro that)
qed

lemma state_nextblock:
  assumes "in_state B L E n v" "\<And>b. parent = Some b \<Longrightarrow> b \<in> B"
  shows "in_state B L E n (v_nextblock parent v)" "cur (v_nextblock parent v) \<noteq> None"
proof -
  have "pred_option (blk (v_flow v)) parent" using assms by (cases parent) (auto simp: in_state_def)
  then show "in_state B L E n (v_nextblock parent v)" "cur (v_nextblock parent v) \<noteq> None"
    using v_nextblock_good [of v parent] in_state_extends [OF assms(1)] assms(1) by (auto simp: in_state_def)
qed

lemma state_add_child:
  assumes "in_state B L E n v" "p \<in> B" "c \<in> B"
  obtains v' where "v_add_child (Some p) c v = Some v'" "in_state B L E n v'" "cur v' = cur v"
    "b_parents (fl_heap (v_flow v') ! c) \<noteq> []"
proof -
  have v: "good v" "blk (v_flow v) p" "blk (v_flow v) c" using assms by (auto simp: in_state_def)
  show thesis
    using add_edge_good [OF v] add_edge_parents [OF blk_bound [OF v(3)]] in_state_extends [OF assms(1)]
    by (intro that [of "on_flow (flow_add_child p c) v"]) (simp_all add: v_add_child_def)
qed

lemma state_leave_to:
  assumes "in_state B L E n v" "c \<in> B"
  shows "in_state B L E n (leave_to c v)" "cur (leave_to c v) = cur v"
    "cur v \<noteq> None \<Longrightarrow> b_parents (fl_heap (v_flow (leave_to c v)) ! c) \<noteq> []"
proof -
  have "good v" "blk (v_flow v) c" using assms by (auto simp: in_state_def)
  from leave_to_good [OF this] in_state_extends [OF assms(1)]
  show "in_state B L E n (leave_to c v)" "cur (leave_to c v) = cur v"
    "cur v \<noteq> None \<Longrightarrow> b_parents (fl_heap (v_flow (leave_to c v)) ! c) \<noteq> []" by auto
qed

lemma state_set_block:
  assumes "in_state B L E n v" "\<And>b. ob = Some b \<Longrightarrow> b \<in> B"
  shows "in_state B L E n (set_block ob v)" "cur (set_block ob v) = ob"
proof -
  have "good v" "pred_option (blk (v_flow v)) ob" using assms by (cases ob; auto simp: in_state_def)+
  from set_block_good [OF this] in_state_extends [OF assms(1)]
  show "in_state B L E n (set_block ob v)" "cur (set_block ob v) = ob" by auto
qed

lemma state_continue_at:
  assumes "in_state B L E n v" "c \<in> B"
  shows "in_state B L E n (continue_at c v)"
    "b_parents (fl_heap (v_flow v) ! c) \<noteq> [] \<Longrightarrow> cur (continue_at c v) = Some c"
proof -
  have "good v" "blk (v_flow v) c" using assms by (auto simp: in_state_def)
  from continue_at_good [OF this] in_state_extends [OF assms(1)]
  show "in_state B L E n (continue_at c v)"
    "b_parents (fl_heap (v_flow v) ! c) \<noteq> [] \<Longrightarrow> cur (continue_at c v) = Some c" by auto
qed

lemma state_mark_position:
  assumes "in_state B L E n v"
  shows "in_state B L E n (mark_position pos v)" "cur (mark_position pos v) = cur v"
proof -
  have "good v" using assms by (simp add: in_state_def)
  from mark_position_good [OF this] in_state_extends [OF assms]
  show "in_state B L E n (mark_position pos v)" "cur (mark_position pos v) = cur v" by auto
qed

lemma state_mark_stat:
  assumes "in_state B L E n v"
  shows "in_state B L E n (on_flow (mark_stat kind node e fake) v)"
    "cur (on_flow (mark_stat kind node e fake) v) = cur v"
proof -
  have "good v" using assms by (simp add: in_state_def)
  from mark_stat_good [OF this] in_state_extends [OF assms]
  show "in_state B L E n (on_flow (mark_stat kind node e fake) v)"
    "cur (on_flow (mark_stat kind node e fake) v) = cur v" by auto
qed

lemma state_exception_edge:
  assumes "in_state B L E n v" "cur v \<noteq> None"
    and "\<And>v'. in_state B L E n v' \<Longrightarrow> cur v' = cur v \<Longrightarrow> Q v'"
  shows "succeeds (exception_edge v) Q"
proof (rule exception_edge_good)
  show "good v" using assms(1) by (simp add: in_state_def)
qed (use assms in \<open>auto intro: in_state_extends\<close>)

text \<open>The stacks.\<close>

lemma good_fields:
  assumes "good v" "inv f" "fl_heap f = fl_heap (v_flow v)" "fl_block f = cur v"
    and "list_all (descr_ok (v_flow v)) (fl_exceptions f)" "list_all (loop_ok (v_flow v)) (fl_loops f)"
  shows "good (v\<lparr>v_flow := f\<rparr>)"
  using assms by (auto simp: good_def list_all_iff blk_option_mono [of "v_flow v"]
      intro: descr_ok_mono loop_ok_mono)

lemma in_state_fields:
  assumes "in_state B L E n v" "inv (g (v_flow v))" "fl_heap (g (v_flow v)) = fl_heap (v_flow v)"
    and "fl_block (g (v_flow v)) = cur v" "fl_exceptions (g (v_flow v)) = E'" "fl_loops (g (v_flow v)) = L'"
    and "list_all (descr_ok (v_flow v)) E'" "list_all (loop_ok (v_flow v)) L'"
  shows "in_state B L' E' n (on_flow g v)"
proof -
  have "good (on_flow g v)"
    unfolding on_flow_def by (rule good_fields) (use assms in \<open>simp_all add: in_state_def\<close>)
  then show ?thesis using assms by (auto simp: in_state_def intro: blk_mono)
qed

lemma in_state_ok:
  assumes "in_state B L E n v"
  shows "inv (v_flow v)" "list_all (descr_ok (v_flow v)) E" "list_all (loop_ok (v_flow v)) L" "fl_loops (v_flow v) = L"
    "fl_exceptions (v_flow v) = E" "b \<in> B \<Longrightarrow> blk (v_flow v) b"
  using assms by (auto simp: in_state_def good_def)

lemma state_push_loop:
  assumes "in_state B L E n v" "nxt \<in> B" "lp \<in> B"
  shows "in_state B (L @ [\<lparr>next_block = nxt, loop_block = lp, loop_exceptions = []\<rparr>]) E n (push_loop nxt lp v)"
    "cur (push_loop nxt lp v) = cur v"
  unfolding push_loop_def using in_state_ok [OF assms(1)] assms(2,3)
  by (auto intro!: in_state_fields [OF assms(1)] simp: inv_control loop_ok_def)

lemma state_pop_loop:
  assumes "in_state B (L @ [l]) E n v"
  shows "in_state B L E n (pop_loop v)" "cur (pop_loop v) = cur v"
  unfolding pop_loop_def using in_state_ok [OF assms(1)]
  by (auto intro!: in_state_fields [OF assms(1)] simp: inv_control)

lemma state_push_exception:
  assumes "in_state B L E n v" "exc_entry_point d \<in> B" "set_option (finally_enter d) \<subseteq> B" "set_option (finally_exit d) \<subseteq> B"
  shows "in_state B L (E @ [d]) n (push_exception d v)" "cur (push_exception d v) = cur v"
proof -
  have "descr_ok (v_flow v) d"
    using in_state_ok(6) [OF assms(1)] assms(2-4) by (auto simp: descr_ok_def pred_option_def)
  then show "in_state B L (E @ [d]) n (push_exception d v)" "cur (push_exception d v) = cur v"
    unfolding push_exception_def using in_state_ok [OF assms(1)]
    by (auto intro!: in_state_fields [OF assms(1)] simp: inv_control)
qed

lemma state_pop_exception:
  assumes "in_state B L (E @ [d]) n v"
  shows "in_state B L E n (pop_exception v)" "cur (pop_exception v) = cur v"
  unfolding pop_exception_def using in_state_ok [OF assms(1)]
  by (auto intro!: in_state_fields [OF assms(1)] simp: inv_control)

lemma state_try:
  assumes "in_state B L E n v"
  shows "in_state B L E n (enter_try v)" "cur (enter_try v) = cur v"
    "in_state B L E n (leave_try v)" "cur (leave_try v) = cur v"
  unfolding enter_try_def leave_try_def using in_state_ok [OF assms(1)]
  by (auto intro!: in_state_fields [OF assms(1)] simp: inv_control)

end

end
