(* ===== verification/FlowVisitKeeps.thy ===== *)
theory FlowVisitKeeps
  imports FlowVisitSafe
begin

text \<open>
  Every method of \<open>ControlFlowAnalysis\<close> keeps the properties of the locale, and raises no error, when
  its subnodes do.
\<close>

lemma succeeds_case_prod [simp]:
  "succeeds (case x of (a, b) \<Rightarrow> g a b) Q = (case x of (a, b) \<Rightarrow> succeeds (g a b) Q)"
  by (cases x) simp

context flow_invariant
begin

text \<open>The steps as rules that run a method forwards.\<close>

lemma run_newblock:
  assumes "in_state B L E n v" "\<And>b. parent = Some b \<Longrightarrow> b \<in> B"
    and "\<And>b v'. in_state (insert b B) L E n v' \<Longrightarrow> cur v' = cur v \<Longrightarrow> Q b v'"
  shows "case v_newblock parent v of (b, v') \<Rightarrow> Q b v'"
  using state_newblock [OF assms(1,2)] assms(3) by (metis case_prod_conv)

lemma run_nextblock:
  assumes "in_state B L E n v" "\<And>b. parent = Some b \<Longrightarrow> b \<in> B"
    and "\<And>b v'. in_state (insert b B) L E n v' \<Longrightarrow> cur v' = Some b \<Longrightarrow> Q v'"
  shows "Q (v_nextblock parent v)"
proof -
  obtain b where b: "cur (v_nextblock parent v) = Some b"
    using state_nextblock(2) [OF assms(1,2)] by auto
  show ?thesis
    using assms(3) [OF in_state_cur [OF state_nextblock(1) [OF assms(1,2)] b] b] .
qed

lemma run_add_child:
  assumes "in_state B L E n v" "parent = Some p" "p \<in> B" "c \<in> B"
    and "\<And>v'. in_state B L E n v' \<Longrightarrow> cur v' = cur v \<Longrightarrow> b_parents (fl_heap (v_flow v') ! c) \<noteq> [] \<Longrightarrow> Q v'"
  shows "succeeds (v_add_child parent c v) Q"
  using state_add_child [OF assms(1,3,4)] assms(2,5) by (metis succeeds_simps(1))

lemma run_end:
  assumes "in_state B (fl_loops (v_flow v0)) (fl_exceptions (v_flow v0)) (length (fl_heap (v_flow v0))) v"
    and "c \<Longrightarrow> cur v \<noteq> None"
  shows "moves c v0 v"
  using in_state_done [OF assms(1)] assms(2) by (simp add: moves_start)

lemma run_continue_at:
  assumes "in_state B (fl_loops (v_flow v0)) (fl_exceptions (v_flow v0)) (length (fl_heap (v_flow v0))) v"
    and "nxt \<in> B" "c \<Longrightarrow> b_parents (fl_heap (v_flow v) ! nxt) \<noteq> []"
  shows "moves c v0 (continue_at nxt v)"
  using state_continue_at [OF assms(1,2)] assms(3) by (intro run_end) auto

text \<open>The current block joins the blocks that the method holds.\<close>

lemma hold_cur:
  assumes "in_state B L E n v" "cur v \<noteq> None"
  obtains b where "cur v = Some b" "in_state (insert b B) L E n v"
  using assms in_state_cur by auto

lemma run_leave_to:
  assumes "in_state B L E n v" "c \<in> B"
    and "\<And>v'. in_state B L E n v' \<Longrightarrow> cur v' = cur v
          \<Longrightarrow> (cur v \<noteq> None \<Longrightarrow> b_parents (fl_heap (v_flow v') ! c) \<noteq> []) \<Longrightarrow> Q v'"
  shows "Q (leave_to c v)"
  using state_leave_to [OF assms(1,2)] assms(3) by blast

lemma run_act:
  assumes "act_ok True a" "in_state B L E n v" "cur v \<noteq> None"
    and "\<And>b v'. in_state (insert b B) L E n v' \<Longrightarrow> cur v' = Some b \<Longrightarrow> Q v'"
  shows "succeeds (a v) Q"
proof (rule state_act [OF assms(1-3)])
  fix v' assume v': "in_state B L E n v'" "True \<Longrightarrow> cur v' \<noteq> None"
  then show "Q v'" using hold_cur [OF v'(1)] assms(4) by blast
qed

lemma run_any:
  assumes "act_ok c a" "in_state B L E n v" "cur v \<noteq> None" "\<And>v'. in_state B L E n v' \<Longrightarrow> Q v'"
  shows "succeeds (a v) Q"
  using state_act [OF assms(1-3)] assms(4) by blast

lemma visit_act_ok:
  assumes "\<And>v B L E n p. in_state B L E n v \<Longrightarrow> L = fl_loops (v_flow v) \<Longrightarrow> E = fl_exceptions (v_flow v)
      \<Longrightarrow> n = length (fl_heap (v_flow v)) \<Longrightarrow> cur v = Some p \<Longrightarrow> B = {p} \<Longrightarrow> succeeds (a v) (moves c v)"
  shows "act_ok c a"
proof (rule act_okI')
  fix v assume v: "good v" "cur v \<noteq> None"
  obtain p where "cur v = Some p"
    "in_state {p} (fl_loops (v_flow v)) (fl_exceptions (v_flow v)) (length (fl_heap (v_flow v))) v"
    by (rule hold_cur [OF start_refl [OF v(1)] v(2)])
  then show "succeeds (a v) (moves c v)" by (intro assms) auto
qed

lemmas unfold_method = Let_def succeeds_case_prod succeeds_simps

lemma visit_BoolBinopNode_ok:
  assumes "act_ok True a" "act_ok True b"
  shows "act_ok True (visit_BoolBinopNode a b)"
  apply (rule visit_act_ok)
  apply (unfold visit_BoolBinopNode_def unfold_method)
  apply (rule run_newblock, assumption, simp)
  apply (rule run_act [OF assms(1)], assumption, simp)
  apply (rule run_nextblock, assumption, simp)
  apply (rule run_act [OF assms(2)], assumption, simp)
  apply (rule run_leave_to, assumption, simp)
  apply (rule run_add_child, assumption, simp, simp, simp)
  apply (rule run_continue_at, simp, simp, assumption)
  done

lemma visit_CondExprNode_ok:
  assumes "act_ok True a" "act_ok True b" "act_ok True d"
  shows "act_ok True (visit_CondExprNode a b d)"
  apply (rule visit_act_ok)
  apply (unfold visit_CondExprNode_def unfold_method)
  apply (rule run_act [OF assms(1)], assumption, simp)
  apply (rule run_newblock, assumption, simp)
  apply (rule run_nextblock, assumption, simp)
  apply (rule run_act [OF assms(2)], assumption, simp)
  apply (rule run_leave_to, assumption, simp)
  apply (rule run_nextblock, assumption, simp)
  apply (rule run_act [OF assms(3)], assumption, simp)
  apply (rule run_leave_to, assumption, simp)
  apply (rule run_continue_at, simp, simp, simp)
  done

lemma run_else:
  assumes "pred_option (act_ok False) e" "in_state B L E n v" "parent = Some p" "p \<in> B" "nxt \<in> B"
    and "\<And>v'. in_state B L E n v' \<Longrightarrow> (e = None \<Longrightarrow> b_parents (fl_heap (v_flow v') ! nxt) \<noteq> []) \<Longrightarrow> Q v'"
  shows "succeeds (visit_else e parent nxt v) Q"
proof (cases e)
  case None
  then show ?thesis
    unfolding visit_else_def using assms(3,6) by (auto intro: run_add_child [OF assms(2) _ assms(4,5)])
next
  case (Some body)
  have body: "act_ok False body" using assms(1) Some by simp
  have "succeeds (body (v_nextblock parent v)) (\<lambda>v. Q (leave_to nxt v))"
    apply (rule run_any [OF body state_nextblock [OF assms(2)]])
    using assms(3,4) apply simp
    using assms(3,4) apply simp
    apply (rule assms(6))
    apply (erule state_leave_to(1) [OF _ assms(5)])
    apply (simp add: Some)
    done
  then show ?thesis using Some by (simp add: visit_else_def)
qed

lemma visit_if_clauses_ok:
  assumes "list_all (pred_prod (act_ok True) (act_ok False)) clauses"
  shows "in_state B L E n v \<Longrightarrow> parent = Some p \<Longrightarrow> p \<in> B \<Longrightarrow> nxt \<in> B
    \<Longrightarrow> (\<And>b v'. in_state (insert b B) L E n v' \<Longrightarrow> Q (Some b, v'))
    \<Longrightarrow> succeeds (visit_if_clauses clauses parent nxt v) Q"
  using assms
proof (induction clauses arbitrary: B v parent p)
  case Nil
  then show ?case by (metis insert_absorb succeeds_simps(1) visit_if_clauses.simps(1))
next
  case (Cons c clauses)
  obtain condition body where c: "c = (condition, body)" by force
  have ok: "act_ok True condition" "act_ok False body" using Cons.prems(6) c by simp_all
  show ?case
    unfolding c visit_if_clauses.simps unfold_method
    apply (rule run_nextblock [OF Cons.prems(1)])
    using Cons.prems(2,3) apply simp
    apply (rule run_act [OF ok(1)], assumption, simp)
    apply (rule run_nextblock, assumption, simp)
    apply (rule run_any [OF ok(2)], assumption, simp)
    apply (rule run_leave_to, assumption)
    using Cons.prems(4) apply simp
    apply (rule Cons.IH, assumption, assumption, simp)
    using Cons.prems(4) apply simp
    apply (rule Cons.prems(5), erule in_state_subset, blast)
    using Cons.prems(6) apply simp
    done
qed

lemma visit_IfStatNode_ok:
  assumes "list_all (pred_prod (act_ok True) (act_ok False)) clauses" "pred_option (act_ok False) e"
  shows "act_ok (e = None) (visit_IfStatNode clauses e)"
  apply (rule visit_act_ok)
  apply (unfold visit_IfStatNode_def unfold_method)
  apply (rule run_newblock, assumption, simp)
  apply (rule visit_if_clauses_ok [OF assms(1)], assumption, simp, simp, simp)
  apply (unfold prod.case)
  apply (rule run_else [OF assms(2)], assumption, simp, simp, simp)
  apply (rule run_continue_at, simp, simp, simp)
  done

end

context flow_invariant
begin

lemma act_ok_seq:
  assumes "act_ok True a" "act_ok c b"
  shows "act_ok c (\<lambda>v. a v \<bind> b)"
  apply (rule visit_act_ok)
  apply (unfold unfold_method)
  apply (rule run_act [OF assms(1)], assumption, simp)
  apply (rule state_act [OF assms(2)], assumption, simp)
  apply (rule run_end, simp, simp)
  done

lemma visit_SingleAssignmentNode_ok:
  assumes "pred_target (act_ok True) lhs" "act_ok True rhs"
  shows "act_ok True (visit_SingleAssignmentNode lhs rhs)"
  using act_ok_seq [OF assms(2) mark_assignment_ok [OF assms(1), of False]]
  by (simp add: visit_SingleAssignmentNode_def [abs_def])

lemma visit_CascadedAssignmentNode_ok:
  assumes "list_all (pred_target (act_ok True)) lhs_list" "act_ok True rhs"
  shows "act_ok True (visit_CascadedAssignmentNode lhs_list rhs)"
  using act_ok_seq [OF assms(2) assign_all_ok [OF assms(1)]]
  by (simp add: visit_CascadedAssignmentNode_def [abs_def])

lemma visit_ParallelAssignmentNode_ok:
  assumes "list_all (pred_target (act_ok True)) lhs_list" "list_all (act_ok True) rhs_list"
  shows "act_ok True (visit_ParallelAssignmentNode lhs_list rhs_list)"
  using act_ok_seq [OF visit_all_ok [OF assms(2)] assign_all_ok [OF assms(1)]]
  by (simp add: visit_ParallelAssignmentNode_def [abs_def])

lemma visit_FromImportStatNode_ok:
  assumes "list_all (pred_target (act_ok True)) targets" "list_all (act_ok True) children"
  shows "act_ok True (visit_FromImportStatNode targets children)"
  using act_ok_seq [OF assign_all_ok [OF assms(1)] visit_all_ok [OF assms(2)]]
  by (simp add: visit_FromImportStatNode_def [abs_def])

lemma visit_InPlaceAssignmentNode_ok:
  assumes "pred_target (act_ok True) lhs" "act_ok True rhs"
  shows "act_ok True (visit_InPlaceAssignmentNode lhs rhs)"
  using act_ok_seq [OF visit_target_ok [OF assms(1)] act_ok_seq [OF assms(2) mark_assignment_ok [OF assms(1), of False]]]
  by (simp add: visit_InPlaceAssignmentNode_def [abs_def])

lemma visit_WithStatNode_ok:
  assumes "act_ok True manager" "act_ok True enter" "act_ok c body"
  shows "act_ok c (visit_WithStatNode manager enter body)"
  using act_ok_seq [OF assms(1) act_ok_seq [OF assms(2,3)]]
  by (simp add: visit_WithStatNode_def [abs_def])

lemma visit_AmpersandNode_ok:
  assumes "pred_target (act_ok True) operand"
  shows "act_ok True (visit_AmpersandNode operand)"
proof -
  have "act_ok True (\<lambda>v. case operand of NameTarget _ _ \<Rightarrow> mark_assignment True operand v | _ \<Rightarrow> Some v)"
    using mark_assignment_ok [OF assms, of True] act_ok_Some
    by (cases operand) (simp_all del: mark_assignment.simps)
  from act_ok_seq [OF this visit_target_ok [OF assms]] show ?thesis
    by (simp add: visit_AmpersandNode_def [abs_def])
qed

lemma in_state_errors: "in_state B L E n (v\<lparr>v_errors := es\<rparr>) = in_state B L E n v"
  by (simp add: in_state_def good_def)

lemma run_delete_error:
  assumes "in_state B L E n v" "\<And>v'. in_state B L E n v' \<Longrightarrow> cur v' = cur v \<Longrightarrow> Q v'"
  shows "Q (delete_error node e v)"
  using assms by (simp add: delete_error_def in_state_errors)

lemma run_mark_stat:
  assumes "in_state B L E n v" "\<And>v'. in_state B L E n v' \<Longrightarrow> cur v' = cur v \<Longrightarrow> Q v'"
  shows "Q (on_flow (mark_stat kind node e fake) v)"
  using state_mark_stat [OF assms(1)] assms(2) by blast

lemma delete_arg_ok:
  assumes "pred_target (act_ok True) arg" "\<And>node. arg \<noteq> NameTarget node None"
  shows "act_ok True (delete_arg ignore arg)"
proof (cases arg)
  case (NameTarget node entry)
  then obtain e where e: "arg = NameTarget node (Some e)" using assms(2) by (cases entry) auto
  have del: "act_ok True (\<lambda>v. Some (on_flow (flow_mark_deletion node e) v))"
    using act_ok_mark [of NameDeletion node e False] by (simp add: flow_mark_deletion_def [abs_def])
  show ?thesis
    apply (rule visit_act_ok)
    apply (simp only: e delete_arg_def target.case option.case)
    apply (rule run_delete_error, assumption)
    apply (cases ignore)
     apply (simp only: if_True unfold_method, simp only: flow_mark_deletion_def [abs_def])
     apply (rule run_mark_stat, assumption)
     apply (rule run_end, simp, simp)
    apply (simp only: if_False unfold_method)
    apply (rule run_act [OF visit_NameNode_ok], assumption, simp)
    apply (simp only: flow_mark_deletion_def [abs_def])
    apply (rule run_mark_stat, assumption)
    apply (rule run_end, simp, simp)
    done
qed (use visit_target_ok [OF assms(1)] in \<open>simp_all add: delete_arg_def [abs_def] act_ok_def\<close>)

lemma visit_DelStatNode_ok:
  assumes "list_all (pred_target (act_ok True)) args" "\<And>node. NameTarget node None \<notin> set args"
  shows "act_ok True (visit_DelStatNode ignore args)"
proof -
  have "list_all (act_ok True) (map (delete_arg ignore) args)"
    using assms by (auto simp: list_all_iff intro!: delete_arg_ok)
  from visit_all_ok [OF this] show ?thesis by (simp add: visit_DelStatNode_def [abs_def])
qed

lemma visit_StatListNode_ok: "list_all (act_ok False) as \<Longrightarrow> act_ok False (visit_StatListNode as)"
proof (induction as)
  case Nil
  then show ?case using act_ok_Some by (simp add: act_ok_def moves_def)
next
  case (Cons a as)
  then have ok: "act_ok False a" "act_ok False (visit_StatListNode as)" by simp_all
  have rest: "succeeds (visit_StatListNode as v) (moves False v0)" if "start v0 v" for v0 v
  proof (cases "cur v")
    case None
    then have "visit_StatListNode as v = Some v" by (cases as) simp_all
    then show ?thesis using that by (simp add: moves_start)
  next
    case (Some b)
    then show ?thesis using that by (intro state_act [OF ok(2) that]) (auto simp: moves_start)
  qed
  show ?case
    apply (rule visit_act_ok)
    apply (simp only: visit_StatListNode.simps option.case unfold_method)
    apply (rule state_act [OF ok(1)], assumption, simp)
    apply (rule rest, rule in_state_done, simp)
    done
qed

lemma visit_StatListNode_completes: "list_all (act_ok True) as \<Longrightarrow> act_ok True (visit_StatListNode as)"
proof (induction as)
  case Nil
  then show ?case using act_ok_Some by (simp add: act_ok_def)
next
  case (Cons a as)
  then have "act_ok True (\<lambda>v. a v \<bind> visit_StatListNode as)" by (intro act_ok_seq) simp_all
  then show ?case by (auto simp: act_ok_def)
qed

lemma visit_AssertStatNode_ok:
  assumes "act_ok True condition" "act_ok False exc"
  shows "act_ok True (visit_AssertStatNode pos condition exc)"
  apply (rule visit_act_ok)
  apply (unfold visit_AssertStatNode_def unfold_method)
  apply (rule run_newblock, erule state_mark_position(1), simp)
  apply (rule run_nextblock, assumption, simp add: state_mark_position(2))
  apply (rule run_act [OF assms(1)], assumption, simp)
  apply (rule run_nextblock, assumption, simp)
  apply (rule run_any [OF assms(2)], assumption, simp)
  apply (rule run_leave_to, assumption, simp)
  apply (rule run_add_child, assumption, assumption, simp, simp)
  apply (rule run_continue_at, simp, simp, assumption)
  done

end

subsection \<open>Loops\<close>

context flow_invariant
begin

definition loop_at :: "nat \<Rightarrow> nat \<Rightarrow> loop_descr" where
  "loop_at nxt lp = \<lparr>next_block = nxt, loop_block = lp, loop_exceptions = []\<rparr>"

lemma run_enter_loop:
  assumes "in_state B L E n v"
    and "\<And>lp nxt v'. in_state (insert nxt (insert lp B)) (L @ [loop_at nxt lp]) E n v' \<Longrightarrow> cur v' \<noteq> None
           \<Longrightarrow> Q lp nxt v'"
  shows "case enter_loop v of (lp, nxt, v') \<Rightarrow> Q lp nxt v'"
proof -
  let ?v = "v_nextblock None v" and ?lp = "length (fl_heap (v_flow (v_nextblock None v))) - 1"
  have v: "in_state B L E n ?v" "cur ?v \<noteq> None" using state_nextblock [OF assms(1), of None] by simp_all
  have "cur ?v = Some ?lp"
    by (simp add: v_nextblock_def nextblock_fields)
  then have lp: "in_state (insert ?lp B) L E n ?v" by (rule in_state_cur [OF v(1)])
  obtain nxt v' where v': "v_newblock None ?v = (nxt, v')" "in_state (insert nxt (insert ?lp B)) L E n v'"
    "cur v' = cur ?v"
    by (rule state_newblock [OF lp, of None]) simp_all
  have "enter_loop v = (?lp, nxt, push_loop nxt ?lp v')"
    using v'(1) by (simp add: enter_loop_def Let_def)
  moreover have "Q ?lp nxt (push_loop nxt ?lp v')"
    using state_push_loop [OF v'(2), of nxt ?lp] v(2) v'(3) by (intro assms(2)) (simp_all add: loop_at_def)
  ultimately show ?thesis by simp
qed

lemma run_pop_loop:
  assumes "in_state B (L @ [l]) E n v" "\<And>v'. in_state B L E n v' \<Longrightarrow> cur v' = cur v \<Longrightarrow> Q v'"
  shows "Q (pop_loop v)"
  using state_pop_loop [OF assms(1)] assms(2) by blast

lemma run_leave_loop:
  assumes "pred_option (act_ok False) e" "in_state B (fl_loops (v_flow v0)) (fl_exceptions (v_flow v0)) (length (fl_heap (v_flow v0))) v"
    and "parent = Some p" "p \<in> B" "nxt \<in> B"
  shows "succeeds (leave_loop e parent nxt v) (moves (e = None) v0)"
  apply (unfold leave_loop_def unfold_method)
  apply (rule run_else [OF assms(1-5)])
  apply (rule run_continue_at, assumption, rule assms(5), simp)
  done

lemma visit_WhileStatNode_ok:
  assumes "pred_option (act_ok True) condition" "act_ok False body" "pred_option (act_ok False) e"
  shows "act_ok (e = None) (visit_WhileStatNode condition body e)"
  apply (rule visit_act_ok)
  apply (unfold visit_WhileStatNode_def unfold_method)
  apply (rule run_enter_loop, assumption)
  apply (rule run_act [OF visit_opt_ok [OF assms(1)]], assumption, assumption)
  apply (rule run_nextblock, assumption, simp)
  apply (rule run_any [OF assms(2)], assumption, simp)
  apply (rule run_pop_loop, assumption)
  apply (rule run_leave_to, assumption, simp)
  apply (rule run_leave_to, assumption, simp)
  apply (rule run_leave_loop [OF assms(3)], simp, assumption, simp, simp)
  done

lemma mark_forloop_target_ok:
  assumes "pred_target (act_ok True) target"
  shows "act_ok True (mark_forloop_target sequence target)"
proof (cases "is_enumerate_of_builtin sequence \<and> is_pair target")
  case True
  then obtain pos args where t: "target = SequenceTarget pos args" by (cases target) auto
  then have "list_all (pred_target (act_ok True)) args" using assms by simp
  from assign_all_ok [OF this] show ?thesis using True t by (simp add: mark_forloop_target_def [abs_def])
next
  case False
  have "list_all (pred_target (act_ok True)) (replicate (target_assignments sequence) target)"
    using assms by (simp add: list_all_iff)
  from assign_all_ok [OF this] show ?thesis
    unfolding mark_forloop_target_def [abs_def] if_not_P [OF False] .
qed

lemma visit_ForInStatNode_ok:
  assumes "act_ok True iterator" "pred_target (act_ok True) target" "act_ok False body" "pred_option (act_ok False) e"
  shows "act_ok (e = None) (visit_ForInStatNode iterator sequence target body e)"
  apply (rule visit_act_ok)
  apply (unfold visit_ForInStatNode_def unfold_method)
  apply (rule run_enter_loop, assumption)
  apply (rule run_act [OF assms(1)], assumption, assumption)
  apply (rule run_nextblock, assumption, simp)
  apply (rule run_act [OF mark_forloop_target_ok [OF assms(2)]], assumption, simp)
  apply (rule run_nextblock, assumption, simp)
  apply (rule run_any [OF assms(3)], assumption, simp)
  apply (rule run_pop_loop, assumption)
  apply (rule run_leave_to, assumption, simp)
  apply (rule run_leave_loop [OF assms(4)], simp, assumption, simp, simp)
  done

lemma visit_AsyncForStatNode_ok:
  assumes "act_ok True iterator" "pred_target (act_ok True) target" "act_ok False body" "pred_option (act_ok False) e"
  shows "act_ok (e = None) (visit_AsyncForStatNode iterator target body e)"
  apply (rule visit_act_ok)
  apply (unfold visit_AsyncForStatNode_def unfold_method)
  apply (rule run_enter_loop, assumption)
  apply (rule run_act [OF assms(1)], assumption, assumption)
  apply (rule run_nextblock, assumption, simp)
  apply (rule run_act [OF mark_assignment_ok [OF assms(2)]], assumption, simp)
  apply (rule run_nextblock, assumption, simp)
  apply (rule run_any [OF assms(3)], assumption, simp)
  apply (rule run_pop_loop, assumption)
  apply (rule run_leave_to, assumption, simp)
  apply (rule run_leave_loop [OF assms(4)], simp, assumption, simp, simp)
  done

lemma visit_ForFromStatNode_ok:
  assumes "act_ok True bound1" "act_ok True bound2" "pred_option (act_ok True) step"
    "pred_target (act_ok True) target" "act_ok False body" "pred_option (act_ok False) e"
  shows "act_ok (e = None) (visit_ForFromStatNode bound1 bound2 step target body e)"
proof -
  have targets: "list_all (pred_target (act_ok True)) (if step = None then [target] else [target, target])"
    using assms(4) by simp
  show ?thesis
    apply (rule visit_act_ok)
    apply (unfold visit_ForFromStatNode_def unfold_method)
    apply (rule run_enter_loop, assumption)
    apply (rule run_act [OF assms(1)], assumption, assumption)
    apply (rule run_act [OF assms(2)], assumption, simp)
    apply (rule run_act [OF visit_opt_ok [OF assms(3)]], assumption, simp)
    apply (rule run_nextblock, assumption, simp)
    apply (rule run_act [OF assign_all_ok [OF targets]], assumption, simp)
    apply (rule run_nextblock, assumption, simp)
    apply (rule run_any [OF assms(5)], assumption, simp)
    apply (rule run_pop_loop, assumption)
    apply (rule run_leave_to, assumption, simp)
    apply (rule run_leave_loop [OF assms(6)], simp, assumption, simp, simp)
    done
qed

subsection \<open>Jumps\<close>

lemma first_finally_blocks:
  "first_finally ds = Some (enter, exit, rest) \<Longrightarrow> list_all (descr_ok f) ds
    \<Longrightarrow> blk f enter \<and> pred_option (blk f) exit \<and> list_all (descr_ok f) rest"
proof (induction ds)
  case (Cons d ds)
  then show ?case
    by (cases "finally_enter d") (auto simp: descr_ok_def)
qed simp

lemma in_state_hold: "in_state B L E n v \<Longrightarrow> blk (v_flow v) b \<Longrightarrow> in_state (insert b B) L E n v"
  by (simp add: in_state_def)

text \<open>What a jump does with the \<open>finally\<close> clause it meets.\<close>

lemma run_finally_jump:
  assumes "in_state B L E n v" "cur v \<noteq> None" "enter \<in> B" "set_option exit \<subseteq> B" "target \<in> B"
    and "\<And>v'. in_state B L E n v' \<Longrightarrow> Q (set_block None v')"
  shows "succeeds (do {
      v \<leftarrow> v_add_child (cur v) enter v;
      v \<leftarrow> (case exit of None \<Rightarrow> Some v | Some e \<Rightarrow> v_add_child (Some e) target v);
      Some (set_block None v) }) Q"
proof -
  obtain p where p: "cur v = Some p" "in_state (insert p B) L E n v" by (rule hold_cur [OF assms(1,2)])
  have finish: "succeeds (case exit of None \<Rightarrow> Some v | Some e \<Rightarrow> v_add_child (Some e) target v) (\<lambda>v. Q (set_block None v))"
    if "in_state B L E n v" for v
    using assms(4-6) that by (auto split: option.split intro!: run_add_child [OF that])
  show ?thesis
    apply (unfold unfold_method p(1))
    apply (rule run_add_child [OF p(2) refl], simp)
    using assms(3) apply simp
    apply (rule finish, erule in_state_subset, blast)
    done
qed

lemma run_stop:
  assumes "in_state B (fl_loops (v_flow v0)) (fl_exceptions (v_flow v0)) (length (fl_heap (v_flow v0))) v"
  shows "moves False v0 (set_block None v)"
  using in_state_done [OF state_set_block(1) [OF assms, of None]] by (simp add: moves_start)

lemma visit_return_ok: "act_ok False visit_return"
proof (rule act_okI')
  fix v assume v: "good v" "cur v \<noteq> None"
  let ?E = "fl_exceptions (v_flow v)"
  note st = start_refl [OF v(1)]
  have exit: "blk (v_flow v) exit_point" using good_inv [OF v(1)] by (rule blk_exit)
  have descrs: "list_all (descr_ok (v_flow v)) (rev ?E)" using v(1) by (simp add: good_def)
  show "succeeds (visit_return v) (moves False v)"
  proof (cases "first_finally (rev ?E)")
    case None
    have "in_state {exit_point} (fl_loops (v_flow v)) ?E (length (fl_heap (v_flow v))) v"
      by (rule in_state_hold [OF st exit])
    from run_stop [OF state_leave_to(1) [OF this]] show ?thesis
      using None by (simp add: visit_return_def)
  next
    case (Some x)
    obtain enter ex rest where x: "x = (enter, ex, rest)" by (cases x)
    note f = first_finally_blocks [OF Some [unfolded x] descrs]
    have "blk (v_flow v) (return_onward rest)"
      using first_finally_blocks [of rest] f exit
      by (auto simp: return_onward_def split: option.split)
    then have "in_state ({enter, return_onward rest} \<union> set_option ex) (fl_loops (v_flow v)) ?E (length (fl_heap (v_flow v))) v"
      using st f by (auto simp: in_state_def)
    then show ?thesis
      unfolding visit_return_def Some x option.case prod.case
      by (rule run_finally_jump [OF _ v(2)]) (auto intro: run_stop)
  qed
qed

lemma visit_jump_ok:
  assumes "\<And>f l. loop_ok f l \<Longrightarrow> blk f (target l)"
  shows "act_ok False (visit_jump target pos)"
proof (rule act_okI')
  fix v assume v: "good v" "cur v \<noteq> None"
  let ?L = "fl_loops (v_flow v)" and ?v = "mark_position pos v" and ?l = "last (fl_loops (v_flow v))"
  show "succeeds (visit_jump target pos v) (moves False v)"
  proof (cases "?L = []")
    case True
    then show ?thesis using v(1) by (simp add: visit_jump_def moves_def)
  next
    case False
    have l: "loop_ok (v_flow v) ?l" using v(1) False by (simp add: good_def list_all_iff)
    then have tgt: "blk (v_flow v) (target ?l)" and descrs: "list_all (descr_ok (v_flow v)) (rev (loop_exceptions ?l))"
      using assms by (simp_all add: loop_ok_def)
    note st = start_refl [OF v(1)]
    show ?thesis
    proof (cases "first_finally (rev (loop_exceptions ?l))")
      case None
      have v': "in_state {target ?l} ?L (fl_exceptions (v_flow v)) (length (fl_heap (v_flow v))) ?v" "cur ?v \<noteq> None"
        using state_mark_position [OF in_state_hold [OF st tgt]] v(2) by simp_all
      obtain p where p: "cur ?v = Some p"
        "in_state {p, target ?l} ?L (fl_exceptions (v_flow v)) (length (fl_heap (v_flow v))) ?v"
        by (rule hold_cur [OF v'])
      have "succeeds (v_add_child (cur ?v) (target ?l) ?v) (\<lambda>x. moves False v (set_block None x))"
        by (rule run_add_child [OF p(2,1)]) (auto intro: run_stop)
      then show ?thesis using False None by (simp add: visit_jump_def Let_def)
    next
      case (Some x)
      obtain enter ex rest where x: "x = (enter, ex, rest)" by (cases x)
      note f = first_finally_blocks [OF Some [unfolded x] descrs]
      have "in_state ({enter, target ?l} \<union> set_option ex) ?L (fl_exceptions (v_flow v)) (length (fl_heap (v_flow v))) v"
        using st f tgt by (auto simp: in_state_def)
      from state_mark_position [OF this, of pos]
      have v': "in_state ({enter, target ?l} \<union> set_option ex) ?L (fl_exceptions (v_flow v)) (length (fl_heap (v_flow v))) ?v"
        "cur ?v \<noteq> None" using v(2) by simp_all
      show ?thesis
        unfolding visit_jump_def Let_def if_not_P [OF False] Some x option.case prod.case
        by (rule run_finally_jump [OF v']) (auto intro: run_stop)
    qed
  qed
qed

end

subsection \<open>Exceptions\<close>

context flow_invariant
begin

lemma visit_RaiseStatNode_ok:
  assumes "list_all (act_ok True) children"
  shows "act_ok False (visit_RaiseStatNode pos children)"
  apply (rule visit_act_ok)
  apply (unfold visit_RaiseStatNode_def unfold_method)
  apply (rule run_act [OF visit_all_ok [OF assms]], erule state_mark_position(1), simp add: state_mark_position(2))
  apply (rule state_exception_edge, assumption, simp)
  apply (rule run_stop, simp)
  done

lemma visit_ReraiseStatNode_ok: "act_ok False (visit_ReraiseStatNode pos)"
  apply (rule visit_act_ok)
  apply (unfold visit_ReraiseStatNode_def unfold_method)
  apply (rule state_exception_edge, erule state_mark_position(1), simp add: state_mark_position(2))
  apply (rule run_stop, simp)
  done

lemma visit_ReturnStatNode_ok:
  assumes "list_all (act_ok True) children"
  shows "act_ok False (visit_ReturnStatNode pos children)"
  apply (rule visit_act_ok)
  apply (unfold visit_ReturnStatNode_def unfold_method)
  apply (rule run_act [OF visit_all_ok [OF assms]], erule state_mark_position(1), simp add: state_mark_position(2))
  apply (rule run_any [OF visit_return_ok], assumption, simp)
  apply (rule run_end, simp, simp)
  done

lemma visit_PyClassDefNode_ok:
  assumes "list_all (act_ok True) children" "entry \<noteq> None" "act_ok False body"
  shows "act_ok True (visit_PyClassDefNode children target entry doc body)"
proof -
  obtain e where e: "entry = Some e" using assms(2) by auto
  have doc: "in_state B L E n (case doc of None \<Rightarrow> v | Some (node, e) \<Rightarrow> on_flow (flow_mark_assignment node True e) v)
      \<and> cur (case doc of None \<Rightarrow> v | Some (node, e) \<Rightarrow> on_flow (flow_mark_assignment node True e) v) = cur v"
    if "in_state B L E n v" for B L E n v
    using that state_mark_stat [OF that] by (auto simp: flow_mark_assignment_def [abs_def] split: option.split)
  show ?thesis
    apply (rule visit_act_ok)
    apply (unfold visit_PyClassDefNode_def unfold_method e)
    apply (rule run_act [OF visit_all_ok [OF assms(1)]], assumption, simp)
    apply (simp only: option.case prod.case succeeds_simps flow_mark_assignment_def [abs_def])
    apply (rule run_mark_stat, assumption)
    apply (rule run_nextblock, assumption, simp)
    apply (fold flow_mark_assignment_def)
    apply (rule run_any [OF assms(3)], rule doc [THEN conjunct1], assumption, simp add: doc)
    apply (rule run_nextblock, assumption, simp)
    apply (rule run_end, simp, simp)
    done
qed

lemma visit_except_clauses_ok:
  assumes "list_all (\<lambda>c. case c of ExceptClauseNode p t b \<Rightarrow>
      list_all (act_ok True) p \<and> pred_option (pred_target (act_ok True)) t \<and> act_ok False b) clauses"
  shows "in_state B L E n v \<Longrightarrow> entry \<in> B \<Longrightarrow> nxt \<in> B
    \<Longrightarrow> (\<And>b v'. in_state (insert b B) L E n v' \<Longrightarrow> Q (b, v'))
    \<Longrightarrow> succeeds (visit_except_clauses clauses nxt entry v) Q"
  using assms
proof (induction clauses arbitrary: B v entry)
  case Nil
  then show ?case by (metis insert_absorb succeeds_simps(1) visit_except_clauses.simps(1))
next
  case (Cons c clauses)
  obtain p t b where c: "c = ExceptClauseNode p t b" by (cases c)
  have ok: "list_all (act_ok True) p" "pred_option (pred_target (act_ok True)) t" "act_ok False b"
    using Cons.prems(5) c by simp_all
  have target: "act_ok True (\<lambda>v. case t of None \<Rightarrow> Some v | Some t \<Rightarrow> mark_assignment False t v)"
    using ok(2) act_ok_Some mark_assignment_ok by (cases t) (simp_all del: mark_assignment.simps)
  show ?case
    unfolding c visit_except_clauses.simps unfold_method
    apply (rule run_act [OF visit_all_ok [OF ok(1)]], rule state_set_block(1) [OF Cons.prems(1)])
    using Cons.prems(2) apply simp
    using state_set_block(2) [OF Cons.prems(1), of "Some entry"] Cons.prems(2) apply simp
    apply (rule run_newblock, assumption, simp)
    apply (rule run_nextblock, assumption, simp)
    apply (rule run_act [OF target], assumption, simp)
    apply (rule run_any [OF ok(3)], assumption, simp)
    apply (rule run_leave_to, assumption)
    using Cons.prems(3) apply simp
    apply (rule Cons.IH, assumption, simp)
    using Cons.prems(3) apply simp
    apply (rule Cons.prems(4), erule in_state_subset, blast)
    using Cons.prems(5) apply simp
    done
qed

lemma run_push_exception:
  assumes "in_state B L E n v" "exc_entry_point d \<in> B" "set_option (finally_enter d) \<subseteq> B" "set_option (finally_exit d) \<subseteq> B"
    and "\<And>v'. in_state B L (E @ [d]) n v' \<Longrightarrow> cur v' = cur v \<Longrightarrow> Q v'"
  shows "Q (push_exception d v)"
  using state_push_exception [OF assms(1-4)] assms(5) by blast

lemma run_pop_exception:
  assumes "in_state B L (E @ [d]) n v" "\<And>v'. in_state B L E n v' \<Longrightarrow> cur v' = cur v \<Longrightarrow> Q v'"
  shows "Q (pop_exception v)"
  using state_pop_exception [OF assms(1)] assms(2) by blast

lemma run_outer_handler:
  assumes "in_state B L E n v" "entry \<in> B" "\<And>v'. in_state B L E n v' \<Longrightarrow> Q v'"
  shows "succeeds (if fl_exceptions (v_flow v) = [] then Some v
    else v_add_child (Some entry) (exc_entry_point (last (fl_exceptions (v_flow v)))) v) Q"
proof (cases "fl_exceptions (v_flow v) = []")
  case True
  then show ?thesis using assms by simp
next
  case False
  let ?c = "exc_entry_point (last (fl_exceptions (v_flow v)))"
  have "descr_ok (v_flow v) (last (fl_exceptions (v_flow v)))"
    using assms(1) False by (simp add: in_state_def good_def list_all_iff)
  then have "in_state (insert ?c B) L E n v" by (intro in_state_hold [OF assms(1)]) (simp add: descr_ok_def)
  from run_add_child [OF this refl, of entry ?c Q] assms(2,3) False show ?thesis
    by (simp add: in_state_subset [of "insert ?c B", OF _ subset_insertI])
qed

lemma run_try_else:
  assumes "pred_option (act_ok False) e" "in_state B L E n v" "\<And>v'. in_state B L E n v' \<Longrightarrow> Q v'"
  shows "succeeds (visit_try_else e v) Q"
proof (cases "cur v = None \<or> e = None")
  case True
  then show ?thesis using assms by (auto simp: visit_try_else_def split: option.split)
next
  case False
  then obtain b where b: "e = Some b" "act_ok False b" "cur v \<noteq> None" using assms(1) by auto
  have "succeeds (b (v_nextblock None v)) Q"
    using state_nextblock [OF assms(2), of None] by (intro run_any [OF b(2)]) (auto intro: assms(3))
  then show ?thesis using b by (auto simp: visit_try_else_def split: option.split)
qed

lemma visit_TryExceptStatNode_ok:
  assumes "act_ok False body" "pred_option (act_ok False) e"
    and clauses: "list_all (\<lambda>c. case c of ExceptClauseNode p t b \<Rightarrow>
      list_all (act_ok True) p \<and> pred_option (pred_target (act_ok True)) t \<and> act_ok False b) clauses"
  shows "act_ok False (visit_TryExceptStatNode body clauses e)"
  apply (rule visit_act_ok)
  apply (unfold visit_TryExceptStatNode_def unfold_method)
  apply (rule run_newblock, assumption, simp)
  apply (rule run_newblock, assumption, simp)
  apply (rule run_newblock, assumption, simp)
  apply (rule run_push_exception, assumption, simp, simp, simp)
  apply (rule run_nextblock, assumption, simp)
  apply (rule run_add_child, assumption, assumption, simp, simp)
  apply (rule run_any [OF assms(1)], rule state_try(1), rule state_nextblock(1), assumption, simp)
   apply (subst state_try(2), rule state_nextblock(1), assumption, simp, rule state_nextblock(2), assumption, simp)
  apply (rule run_pop_exception, erule state_try(3))
  apply (rule run_try_else [OF assms(2)], assumption)
  apply (rule run_leave_to, assumption, simp)
  apply (rule visit_except_clauses_ok [OF clauses], assumption, simp, simp)
  apply (unfold prod.case unfold_method)
  apply (rule run_outer_handler, assumption, simp)
  apply (rule run_continue_at, simp, simp, simp)
  done

end

subsection \<open>\<open>finally\<close> and \<open>match\<close>\<close>

context flow_invariant
begin

definition loop_add :: "exception_descr \<Rightarrow> loop_descr list \<Rightarrow> loop_descr list" where
  "loop_add d L =
     (if L = [] then [] else butlast L @ [last L\<lparr>loop_exceptions := loop_exceptions (last L) @ [d]\<rparr>])"

lemma state_add_descr:
  assumes "in_state B L E n v" "exc_entry_point d \<in> B" "set_option (finally_enter d) \<subseteq> B" "set_option (finally_exit d) \<subseteq> B"
  shows "in_state B (loop_add d L) E n (on_loop_exceptions (\<lambda>ds. ds @ [d]) v)"
    "cur (on_loop_exceptions (\<lambda>ds. ds @ [d]) v) = cur v"
proof -
  have d: "descr_ok (v_flow v) d"
    using in_state_ok(6) [OF assms(1)] assms(2-4) by (auto simp: descr_ok_def pred_option_def)
  have "list_all (loop_ok (v_flow v)) (loop_add d L)"
    using in_state_ok(3) [OF assms(1)] d by (cases L rule: rev_cases) (auto simp: loop_add_def loop_ok_def)
  then show "in_state B (loop_add d L) E n (on_loop_exceptions (\<lambda>ds. ds @ [d]) v)"
    "cur (on_loop_exceptions (\<lambda>ds. ds @ [d]) v) = cur v"
    unfolding on_loop_exceptions_def using in_state_ok [OF assms(1)]
    by (auto intro!: in_state_fields [OF assms(1)] simp: inv_control loop_add_def)
qed

lemma state_remove_descr:
  assumes "in_state B (loop_add d L) E n v"
  shows "in_state B L E n (on_loop_exceptions butlast v)" "cur (on_loop_exceptions butlast v) = cur v"
proof -
  have "list_all (loop_ok (v_flow v)) L"
    using in_state_ok(3) [OF assms(1)] by (cases L rule: rev_cases) (auto simp: loop_add_def loop_ok_def)
  then show "in_state B L E n (on_loop_exceptions butlast v)" "cur (on_loop_exceptions butlast v) = cur v"
    unfolding on_loop_exceptions_def using in_state_ok [OF assms(1)]
    by (cases L rule: rev_cases; auto intro!: in_state_fields [OF assms(1)] simp: inv_control loop_add_def)+
qed

lemma run_descr:
  assumes "in_state B L E n v" "exc_entry_point d \<in> B" "set_option (finally_enter d) \<subseteq> B" "set_option (finally_exit d) \<subseteq> B"
    and "\<And>v'. in_state B (loop_add d L) (E @ [d]) n v' \<Longrightarrow> Q v'"
  shows "Q (on_loop_exceptions (\<lambda>ds. ds @ [d]) (push_exception d v))"
  by (intro assms(5) state_add_descr(1) state_push_exception(1) assms(1-4))

lemma run_any_hold:
  assumes "act_ok c a" "in_state B L E n v" "cur v \<noteq> None"
    and "\<And>v'. in_state (set_option (cur v') \<union> B) L E n v' \<Longrightarrow> Q v'"
  shows "succeeds (a v) Q"
proof (rule run_any [OF assms(1-3)])
  fix v' assume v': "in_state B L E n v'"
  have "in_state (set_option (cur v') \<union> B) L E n v'"
    using v' in_state_cur [OF v'] by (cases "cur v'") auto
  then show "Q v'" by (rule assms(4))
qed

lemma run_finally_edge:
  assumes "in_state B L E n v" "\<And>v'. in_state B L E n v' \<Longrightarrow> Q v'"
  shows "succeeds (if cur v = None then Some v else exception_edge v) Q"
  using assms by (auto intro!: state_exception_edge [OF assms(1)])

lemma visit_TryFinallyStatNode_ok:
  assumes "act_ok False body" "act_ok False finally_clause" "act_ok False finally_except_clause"
  shows "act_ok False (visit_TryFinallyStatNode body finally_clause finally_except_clause)"
proof -
  have finish: "succeeds (case cur v of None \<Rightarrow> Some v
      | Some x \<Rightarrow> Some (case exit of None \<Rightarrow> set_block None (leave_to enter v)
                         | Some e \<Rightarrow> v_nextblock (Some e) (leave_to enter v))) (moves False v0)"
    if "in_state B (fl_loops (v_flow v0)) (fl_exceptions (v_flow v0)) (length (fl_heap (v_flow v0))) v"
      "enter \<in> B" "set_option exit \<subseteq> B" for exit B v enter v0
  proof -
    note l = state_leave_to(1) [OF that(1,2)]
    have "moves False v0 (v_nextblock (Some e) (leave_to enter v))" if "exit = Some e" for e
      using state_nextblock(1) [OF l, of "Some e"] \<open>set_option exit \<subseteq> B\<close> that by (intro run_end) auto
    then show ?thesis
      using run_stop [OF l] run_end [OF that(1), of False] by (auto split: option.split)
  qed
  show ?thesis
    apply (rule visit_act_ok)
    apply (unfold visit_TryFinallyStatNode_def unfold_method)
    apply (rule run_nextblock, assumption, simp)
    apply (rule run_newblock, assumption, simp)
    apply (rule run_any [OF assms(3)], erule state_set_block(1), simp)
     apply (subst state_set_block(2), assumption, simp, simp)
    apply (rule run_finally_edge, assumption)
    apply (rule run_newblock, assumption, simp)
    apply (rule run_any_hold [OF assms(2)], erule state_set_block(1), simp)
     apply (subst state_set_block(2), assumption, simp, simp)
    apply (rule run_descr, assumption, simp, simp, simp only: exception_descr.select_convs Un_upper1)
    apply (rule run_add_child, rule state_set_block(1), assumption, simp, assumption, simp, simp)
    apply (rule run_any [OF assms(1)], rule state_try(1), rule state_nextblock(1), assumption, simp)
     apply (subst state_try(2), rule state_nextblock(1), assumption, simp, rule state_nextblock(2), assumption, simp)
    apply (rule finish)
      apply (rule state_remove_descr(1), rule state_pop_exception(1), rule state_try(3), simp)
     apply (simp, blast)
    done
qed

lemma run_guard_edge:
  assumes "in_state B L E n v" "set_option g \<subseteq> B" "child = Some c" "c \<in> B"
    and "\<And>v'. in_state B L E n v' \<Longrightarrow> cur v' = cur v \<Longrightarrow> Q v'"
  shows "succeeds (add_guard_edge g child v) Q"
proof (cases g)
  case None
  then show ?thesis using assms by (simp add: add_guard_edge_def)
next
  case (Some b)
  then show ?thesis
    using assms by (auto simp: add_guard_edge_def intro!: run_add_child [OF assms(1)])
qed

lemma visit_cases_ok:
  assumes "list_all (\<lambda>c. case c of
      MatchCaseNode p t g b \<Rightarrow> act_ok True p \<and> pred_option (act_ok True) t \<and> pred_option (act_ok True) g \<and> act_ok False b
    | SubstitutedMatchCaseNode b \<Rightarrow> act_ok False b) cases"
  shows "in_state B L E n v \<Longrightarrow> set_option parent \<subseteq> B \<Longrightarrow> set_option guard \<subseteq> B \<Longrightarrow> nxt \<in> B
    \<Longrightarrow> (\<And>B' parent guard v'. B \<subseteq> B' \<Longrightarrow> in_state B' L E n v' \<Longrightarrow> set_option parent \<subseteq> B' \<Longrightarrow> set_option guard \<subseteq> B'
          \<Longrightarrow> Q (parent, guard, v'))
    \<Longrightarrow> succeeds (visit_cases cases parent guard nxt v) Q"
  using assms
proof (induction cases arbitrary: B v parent guard)
  case Nil
  then show ?case by (simp add: Nil.prems(5) [OF subset_refl])
next
  case (Cons c cases)
  show ?case
  proof (cases c)
    case (MatchCaseNode p t g b)
    have ok: "act_ok True p" "pred_option (act_ok True) t" "pred_option (act_ok True) g" "act_ok False b"
      using Cons.prems(6) MatchCaseNode by simp_all
    have guard_ok: "succeeds (case g of None \<Rightarrow> Some v | Some g \<Rightarrow> g (v_nextblock None v)) R"
      if "in_state B L E n v" "cur v = Some p" "p \<in> B"
        "\<And>v' b. in_state (insert b B) L E n v' \<Longrightarrow> cur v' = Some b \<Longrightarrow> R v'" for B v R p
    proof (cases g)
      case None
      then show ?thesis using that(4) [of p v] that(1-3) by (simp add: insert_absorb)
    next
      case (Some a)
      then show ?thesis
        using that(4) state_nextblock [OF that(1), of None] ok(3) by (auto intro!: run_act [of a])
    qed
    show ?thesis
      unfolding MatchCaseNode visit_cases.simps unfold_method
      apply (rule run_nextblock [OF Cons.prems(1)])
      using Cons.prems(2) apply auto [1]
      apply (rule run_guard_edge, assumption)
      using Cons.prems(3) apply blast
      apply (assumption, simp)
      apply (rule run_act [OF ok(1)], assumption, simp)
      apply (rule run_nextblock, assumption, simp)
      apply (rule run_act [OF visit_opt_ok [OF ok(2)]], assumption, simp)
      apply (rule guard_ok, assumption, assumption, simp)
      apply (rule run_nextblock, assumption, simp)
      apply (rule run_any [OF ok(4)], assumption, simp)
      apply (rule run_leave_to, assumption)
      using Cons.prems(4) apply simp
      apply (rule Cons.IH, assumption)
      using Cons.prems(2) apply blast
      apply (simp split: option.split)
      using Cons.prems(4) apply simp
      apply (rule Cons.prems(5) [rotated], assumption, assumption, assumption, blast)
      using Cons.prems(6) apply simp
      done
  next
    case (SubstitutedMatchCaseNode b)
    have ok: "act_ok False b" using Cons.prems(6) SubstitutedMatchCaseNode by simp
    show ?thesis
      unfolding SubstitutedMatchCaseNode visit_cases.simps unfold_method
      apply (rule run_nextblock [OF Cons.prems(1)], simp)
      apply (rule run_guard_edge, assumption)
      using Cons.prems(3) apply blast
      apply (assumption, simp)
      apply (rule run_any_hold [OF ok], assumption, simp)
      apply (rule Cons.IH, assumption, rule Un_upper1, simp)
      using Cons.prems(4) apply simp
      apply (rule Cons.prems(5) [rotated], assumption, assumption, assumption, blast)
      using Cons.prems(6) apply simp
      done
  qed
qed

lemma visit_MatchNode_ok:
  assumes "act_ok True subject" and cases: "list_all (\<lambda>c. case c of
      MatchCaseNode p t g b \<Rightarrow> act_ok True p \<and> pred_option (act_ok True) t \<and> pred_option (act_ok True) g \<and> act_ok False b
    | SubstitutedMatchCaseNode b \<Rightarrow> act_ok False b) cases"
  shows "act_ok False (visit_MatchNode subject cases)"
  apply (rule visit_act_ok)
  apply (unfold visit_MatchNode_def unfold_method)
  apply (rule run_act [OF assms(1)], assumption, simp)
  apply (rule run_newblock, assumption, simp)
  apply (rule visit_cases_ok [OF cases], assumption, simp, simp, simp)
  apply (unfold prod.case)
  apply (rule run_guard_edge, assumption, assumption, rule refl, blast)
  apply (rule run_guard_edge, assumption, assumption, rule refl, blast)
  apply (rule run_continue_at, simp, blast, simp)
  done

end

end
