(* ===== verification/FlowVisitTotal.thy ===== *)
theory FlowVisitTotal
  imports FlowVisitKeeps
begin

text \<open>
  The visitor raises no error on a well placed tree and keeps the properties of the locale; for the
  property that the analysis of definitions needs, the graph of every function qualifies.
\<close>

subsection \<open>Every node\<close>

context flow_invariant
begin

definition visits_ok :: "cnode \<Rightarrow> bool" where
  "visits_ok n \<longleftrightarrow> (well_placed n \<longrightarrow> act_ok (completes n) (visit n))"

lemma visits_okD:
  "visits_ok n \<Longrightarrow> well_placed n \<Longrightarrow> completes n \<Longrightarrow> act_ok True (visit n)"
  "visits_ok n \<Longrightarrow> well_placed n \<Longrightarrow> act_ok False (visit n)"
  using act_ok_weaken by (auto simp: visits_ok_def)

lemma visits_ok_list:
  assumes "\<And>x. x \<in> set ns \<Longrightarrow> visits_ok x" "list_all id (map well_placed ns)" "list_all completes ns"
  shows "list_all (act_ok True) (map visit ns)"
  using assms visits_okD(1) by (auto simp: list_all_iff)

lemma visits_ok_option:
  assumes "\<And>x. x \<in> set_option e \<Longrightarrow> visits_ok x" "pred_option id (map_option well_placed e)"
  shows "pred_option (act_ok False) (map_option visit e)"
  using assms visits_okD(2) by (cases e) auto

lemma visits_ok_option_completes:
  assumes "\<And>x. x \<in> set_option e \<Longrightarrow> visits_ok x" "pred_option id (map_option well_placed e)" "pred_option completes e"
  shows "pred_option (act_ok True) (map_option visit e)"
  using assms visits_okD(1) by (cases e) auto

lemma visits_ok_target:
  assumes "\<And>x. x \<in> set_target t \<Longrightarrow> visits_ok x" "pred_target id (map_target well_placed t)" "pred_target completes t"
  shows "pred_target (act_ok True) (map_target visit t)"
  using assms visits_okD(1) by (auto simp: target.pred_set target.set_map)

lemma visits_ok_targets:
  assumes "\<And>x t. t \<in> set ts \<Longrightarrow> x \<in> set_target t \<Longrightarrow> visits_ok x" "list_all (pred_target id) (map (map_target well_placed) ts)"
    "list_all (pred_target completes) ts"
  shows "list_all (pred_target (act_ok True)) (map (map_target visit) ts)"
  using visits_ok_target assms by (auto simp: list_all_iff)

lemma visits_ok_clauses:
  assumes "\<And>x c. c \<in> set cs \<Longrightarrow> x \<in> {fst c, snd c} \<Longrightarrow> visits_ok x"
    "list_all (pred_prod id id) (map (map_prod well_placed well_placed) cs)" "list_all (completes \<circ> fst) cs"
  shows "list_all (pred_prod (act_ok True) (act_ok False)) (map (map_prod visit visit) cs)"
  using assms visits_okD by (fastforce simp: list_all_iff)

lemma visits_ok_cases:
  assumes "\<And>x c. c \<in> set cs \<Longrightarrow> x \<in> set_match_case c \<Longrightarrow> visits_ok x"
    "list_all (pred_match_case id) (map (map_match_case well_placed) cs)"
    "list_all (\<lambda>c. case c of MatchCaseNode p t g b \<Rightarrow> completes p \<and> pred_option completes t \<and> pred_option completes g
        | SubstitutedMatchCaseNode b \<Rightarrow> True) cs"
  shows "list_all (\<lambda>c. case c of
      MatchCaseNode p t g b \<Rightarrow> act_ok True p \<and> pred_option (act_ok True) t \<and> pred_option (act_ok True) g \<and> act_ok False b
    | SubstitutedMatchCaseNode b \<Rightarrow> act_ok False b) (map (map_match_case visit) cs)"
proof (subst list_all_iff, rule ballI)
  fix c assume "c \<in> set (map (map_match_case visit) cs)"
  then obtain c0 where c0: "c0 \<in> set cs" "c = map_match_case visit c0" by auto
  show "case c of
      MatchCaseNode p t g b \<Rightarrow> act_ok True p \<and> pred_option (act_ok True) t \<and> pred_option (act_ok True) g \<and> act_ok False b
    | SubstitutedMatchCaseNode b \<Rightarrow> act_ok False b"
  proof (cases c0)
    case (MatchCaseNode p t g b)
    have m: "\<And>x. x \<in> set_match_case c0 \<Longrightarrow> visits_ok x" using assms(1) c0(1) by blast
    have "well_placed p" "pred_option id (map_option well_placed t)" "pred_option id (map_option well_placed g)" "well_placed b"
      "completes p" "pred_option completes t" "pred_option completes g"
      using assms(2,3) c0(1) MatchCaseNode by (auto simp: list_all_iff dest!: bspec)
    then show ?thesis
      using m visits_okD visits_ok_option_completes [of t] visits_ok_option_completes [of g]
      by (simp add: c0(2) MatchCaseNode)
  next
    case (SubstitutedMatchCaseNode b)
    then show ?thesis
      using assms(1,2) c0 visits_okD(2) by (fastforce simp: list_all_iff)
  qed
qed

lemma visits_ok_excepts:
  assumes "\<And>x c. c \<in> set cs \<Longrightarrow> x \<in> set_except_clause c \<Longrightarrow> visits_ok x"
    "list_all (pred_except_clause id) (map (map_except_clause well_placed) cs)"
    "list_all (\<lambda>c. case c of ExceptClauseNode p t b \<Rightarrow> list_all completes p \<and> pred_option (pred_target completes) t) cs"
  shows "list_all (\<lambda>c. case c of ExceptClauseNode p t b \<Rightarrow>
      list_all (act_ok True) p \<and> pred_option (pred_target (act_ok True)) t \<and> act_ok False b)
    (map (map_except_clause visit) cs)"
proof (subst list_all_iff, rule ballI)
  fix c assume "c \<in> set (map (map_except_clause visit) cs)"
  then obtain c0 where c0: "c0 \<in> set cs" "c = map_except_clause visit c0" by auto
  obtain p t b where x: "c0 = ExceptClauseNode p t b" by (cases c0)
  have m: "\<And>x. x \<in> set_except_clause c0 \<Longrightarrow> visits_ok x" using assms(1) c0(1) by blast
  have wp: "list_all id (map well_placed p)" "pred_option (pred_target id) (map_option (map_target well_placed) t)"
    "well_placed b" "list_all completes p" "pred_option (pred_target completes) t"
    using assms(2,3) c0(1) x by (auto simp: list_all_iff dest!: bspec)
  have "pred_option (pred_target (act_ok True)) (map_option (map_target visit) t)"
    using wp(2,5) m visits_ok_target x by (cases t) simp_all
  moreover have "list_all (act_ok True) (map visit p)"
    using m x by (intro visits_ok_list [OF _ wp(1,4)]) simp
  ultimately show "case c of ExceptClauseNode p t b \<Rightarrow>
      list_all (act_ok True) p \<and> pred_option (pred_target (act_ok True)) t \<and> act_ok False b"
    using wp(3) m visits_okD(2) by (simp add: c0(2) x)
qed

end

context flow_invariant
begin

lemma visits_okI: "(well_placed n \<Longrightarrow> act_ok (completes n) (visit n)) \<Longrightarrow> visits_ok n"
  by (simp add: visits_ok_def)

lemma visit_jumps_ok: "act_ok False (visit_jump next_block pos)" "act_ok False (visit_jump loop_block pos)"
  by (rule visit_jump_ok, simp add: loop_ok_def)+

lemma visit_ok: "visits_ok n"
proof (induction n)
  case (OtherNode pos children)
  then show ?case
    by (intro visits_okI) (auto intro!: visit_Node_ok visits_ok_list)
next
  case (VisitChildren children)
  then show ?case
    by (intro visits_okI) (auto intro!: visit_all_ok visits_ok_list)
next
  case (FromImportStatNode targets children)
  then show ?case
    by (intro visits_okI) (auto intro!: visit_FromImportStatNode_ok visits_ok_targets visits_ok_list)
next
  case (SingleAssignmentNode lhs rhs)
  then show ?case
    by (intro visits_okI) (auto intro!: visit_SingleAssignmentNode_ok visits_ok_target visits_okD(1))
next
  case (CascadedAssignmentNode lhs_list rhs)
  then show ?case
    by (intro visits_okI) (auto intro!: visit_CascadedAssignmentNode_ok visits_ok_targets visits_okD(1))
next
  case (ParallelAssignmentNode lhs_list rhs_list)
  then show ?case
    by (intro visits_okI) (auto intro!: visit_ParallelAssignmentNode_ok visits_ok_targets visits_ok_list)
next
  case (InPlaceAssignmentNode lhs rhs)
  then show ?case
    by (intro visits_okI) (auto intro!: visit_InPlaceAssignmentNode_ok visits_ok_target visits_okD(1))
next
  case (DelStatNode ignore args)
  have "NameTarget node None = map_target visit t \<longleftrightarrow> t = NameTarget node None" for node t
    by (cases t) auto
  then have "NameTarget node None \<in> set (map (map_target visit) args) \<longleftrightarrow> NameTarget node None \<in> set args" for node
    by (metis (no_types, lifting) imageE image_eqI list.set_map)
  then show ?case
    using DelStatNode visit_DelStatNode_ok [OF visits_ok_targets] by (simp add: visits_ok_def)
next
  case (StatListNode stats)
  have 1: "list_all (act_ok False) (map visit stats)" if "list_all id (map well_placed stats)"
    using that StatListNode visits_okD(2) by (auto simp: list_all_iff)
  have 2: "list_all (act_ok True) (map visit stats)" if "list_all id (map well_placed stats)" "list_all completes stats"
    using visits_ok_list [OF StatListNode that] by simp
  show ?case
    using visit_StatListNode_ok [OF 1] visit_StatListNode_completes [OF 2]
    by (cases "list_all completes stats") (auto simp: visits_ok_def list.pred_map comp_def)
next
  case (IfStatNode clauses else_clause)
  then show ?case
    by (intro visits_okI) (auto intro!: visit_IfStatNode_ok [where e = "map_option visit else_clause", unfolded option.map_disc_iff]
        visits_ok_clauses visits_ok_option)
next
  case (MatchNode subject cases)
  then show ?case
    by (intro visits_okI) (auto intro!: visit_MatchNode_ok visits_okD(1) visits_ok_cases)
next
  case (AssertStatNode pos condition exc)
  then show ?case
    by (intro visits_okI) (auto intro!: visit_AssertStatNode_ok visits_okD(1,2))
next
  case (WhileStatNode condition body else_clause)
  then show ?case
    by (intro visits_okI) (auto intro!: visit_WhileStatNode_ok [where e = "map_option visit else_clause", unfolded option.map_disc_iff]
        visits_ok_option_completes visits_okD(2) visits_ok_option)
next
  case (ForInStatNode iterator sequence target body else_clause)
  then show ?case
    by (intro visits_okI) (auto intro!: visit_ForInStatNode_ok [where e = "map_option visit else_clause", unfolded option.map_disc_iff]
        visits_okD(1) visits_ok_target visits_okD(2) visits_ok_option)
next
  case (AsyncForStatNode iterator target body else_clause)
  then show ?case
    by (intro visits_okI) (auto intro!: visit_AsyncForStatNode_ok [where e = "map_option visit else_clause", unfolded option.map_disc_iff]
        visits_okD(1) visits_ok_target visits_okD(2) visits_ok_option)
next
  case (ForFromStatNode bound1 bound2 step target body else_clause)
  then show ?case
    by (intro visits_okI) (auto intro!: visit_ForFromStatNode_ok [where e = "map_option visit else_clause", unfolded option.map_disc_iff]
        visits_ok_option_completes visits_ok_target
        visits_okD visits_ok_option)
next
  case (WithTargetAssignmentStatNode lhs)
  then show ?case
    by (intro visits_okI) (auto intro!: mark_assignment_ok visits_ok_target)
next
  case (WithStatNode manager enter_call body)
  then show ?case
    by (intro visits_okI) (auto intro!: visit_WithStatNode_ok intro: visits_okD(1) simp: visits_ok_def [of body])
next
  case (TryExceptStatNode body clauses else_clause)
  then show ?case
    by (intro visits_okI) (auto intro!: visit_TryExceptStatNode_ok visits_okD(2) visits_ok_option visits_ok_excepts)
next
  case (TryFinallyStatNode body finally_clause finally_except_clause)
  then show ?case
    by (intro visits_okI) (auto intro!: visit_TryFinallyStatNode_ok visits_okD(2))
next
  case (RaiseStatNode pos children)
  then show ?case
    by (intro visits_okI) (auto intro!: visit_RaiseStatNode_ok visits_ok_list)
next
  case (ReturnStatNode pos children)
  then show ?case
    by (intro visits_okI) (auto intro!: visit_ReturnStatNode_ok visits_ok_list)
next
  case (PyClassDefNode children target entry doc body)
  then show ?case
    by (intro visits_okI) (auto intro!: visit_PyClassDefNode_ok visits_ok_list visits_okD(2))
next
  case (AmpersandNode operand)
  then show ?case
    by (intro visits_okI) (auto intro!: visit_AmpersandNode_ok visits_ok_target)
next
  case (BoolBinopNode operand1 operand2)
  then show ?case
    by (intro visits_okI) (auto intro!: visit_BoolBinopNode_ok visits_okD(1))
next
  case (CondExprNode condition true_val false_val)
  then show ?case
    by (intro visits_okI) (auto intro!: visit_CondExprNode_ok visits_okD(1))
qed (simp_all add: visits_ok_def visit_NameNode_ok visit_CArgDeclNode_ok act_ok_Some visit_ReraiseStatNode_ok
    visit_jumps_ok)

end

subsection \<open>The graph of a function\<close>

text \<open>The arguments are declarations, and a generator has its statements in a list.\<close>

definition function_ok :: "cnode list \<Rightarrow> cnode \<Rightarrow> cnode option \<Rightarrow> bool" where
  "function_ok args body gbody \<longleftrightarrow>
     list_all well_placed args \<and> list_all completes args \<and> well_placed body
     \<and> (case gbody of None \<Rightarrow> True
        | Some g \<Rightarrow> well_placed g \<and> (case g of StatListNode _ \<Rightarrow> True | _ \<Rightarrow> completes body))"

context flow_invariant
begin

lemma visit_generator_body:
  assumes "in_state B L E n v" "well_placed g" "case g of StatListNode _ \<Rightarrow> True | _ \<Rightarrow> cur v \<noteq> None"
    and "\<And>v'. in_state B L E n v' \<Longrightarrow> Q v'"
  shows "succeeds (visit g v) Q"
proof (cases "cur v")
  case None
  then obtain stats where "g = StatListNode stats" using assms(3) by (cases g) auto
  then have "visit g v = Some v" using None by (cases stats) simp_all
  then show ?thesis using assms(1,4) by simp
next
  case (Some b)
  have "act_ok False (visit g)" using visits_okD(2) [OF visit_ok assms(2)] .
  then show ?thesis using run_any assms(1,4) Some by blast
qed

lemma mark_arg_state:
  assumes "in_state B L E n v"
  shows "in_state B L E n (mark_arg arg v)" "cur (mark_arg arg v) = cur v"
  using assms state_mark_stat [OF assms]
  by (auto simp: mark_arg_def flow_mark_argument_def [abs_def] split: option.split)

lemma build_flow_keeps:
  assumes "function_ok args body gbody"
    and start: "good v0" "cur v0 \<noteq> None"
      "v0 = v_nextblock None (mark_position pos
        (on_flow (\<lambda>f. f\<lparr>fl_entries := remdups (filter is_tracked entries)\<rparr>) (visitor_init dot)))"
  obtains v where "build_flow dot entries pos args star_arg starstar_arg body gbody = Some v" "inv (v_flow v)"
proof -
  have args: "act_ok True (visit_all (map visit args))"
    using assms(1) visit_ok visits_okD(1)
    by (intro visit_all_ok) (auto simp: function_ok_def list_all_iff)
  have body: "act_ok (completes body) (visit body)"
    using assms(1) visit_ok [of body] by (simp add: function_ok_def visits_ok_def)
  have finish: "good (leave_to exit_point v)" if "in_state B L E n v" for B L E n v
  proof -
    have "in_state (insert exit_point B) L E n v"
      using in_state_hold [OF that blk_exit [OF in_state_ok(1) [OF that]]] .
    from state_leave_to(1) [OF this, of exit_point] show ?thesis by (simp add: in_state_def)
  qed
  have generator: "succeeds (case gbody of None \<Rightarrow> Some v | Some g \<Rightarrow> visit g v) (\<lambda>v. inv (v_flow (leave_to exit_point v)))"
    if "in_state B L E n v" "completes body \<Longrightarrow> cur v \<noteq> None" for B L E n v
  proof (cases gbody)
    case None
    then show ?thesis using good_inv [OF finish [OF that(1)]] by simp
  next
    case (Some g)
    then have g: "well_placed g" "case g of StatListNode _ \<Rightarrow> True | _ \<Rightarrow> cur v \<noteq> None"
      using assms(1) that(2) by (auto simp: function_ok_def split: cnode.splits)
    show ?thesis
      using Some visit_generator_body [OF that(1) g] good_inv [OF finish] by simp
  qed
  have "succeeds (build_flow dot entries pos args star_arg starstar_arg body gbody) (\<lambda>v. inv (v_flow v))"
    unfolding build_flow_def Let_def start(3) [symmetric] succeeds_simps
    apply (rule run_act [OF args start_refl [OF start(1)] start(2)])
    apply (rule state_act [OF body], rule mark_arg_state(1), rule mark_arg_state(1), assumption)
     apply (subst mark_arg_state(2), rule mark_arg_state(1), assumption, subst mark_arg_state(2), assumption, simp)
    apply (rule generator, assumption, simp)
    done
  with that show thesis by (auto simp: succeeds_iff)
qed

end

lemma flow_inv_mark_position:
  assumes "flow_inv f"
  shows "flow_inv (flow_mark_position pos f)"
proof (cases "fl_block f")
  case None
  then show ?thesis using assms by (simp add: flow_mark_position_def)
next
  case (Some b)
  let ?g = "\<lambda>b. b\<lparr>b_positions := List.insert pos (b_positions b)\<rparr>"
  let ?h = "update_block b ?g (fl_heap f)"
  have nth: "?h ! c = (if c = b then ?g (fl_heap f ! c) else fl_heap f ! c)" if "c < length (fl_heap f)" for c
    using that by (simp add: nth_update_block)
  have links: "linked ?h = linked (fl_heap f)" "edges_of ?h = edges_of (fl_heap f)"
    by (intro linked_same_links; simp add: nth)+
  have stats: "b_stats (?h ! c) = b_stats (fl_heap f ! c)" for c
    by (cases "c < length (fl_heap f)"; cases "c = b") (simp_all add: nth update_block_def list_update_beyond)
  have "all_assignments (f\<lparr>fl_heap := ?h\<rparr>) = all_assignments f"
    by (simp add: all_assignments_def stats)
  moreover have "block_marked es (?h ! c) = block_marked es (fl_heap f ! c)" if "c < length (fl_heap f)" for es c
    using that by (simp add: nth block_marked_def)
  ultimately have "flow_marked (f\<lparr>fl_heap := ?h\<rparr>)"
    using assms by (simp add: flow_inv_def flow_marked_def stats)
  moreover have "stats_below n ?h = stats_below n (fl_heap f)" for n
    by (simp add: stats_below_def stats)
  ultimately show ?thesis
    using assms links Some by (simp add: flow_mark_position_def flow_inv_def flow_ok_def)
qed

interpretation graph: flow_invariant flow_inv body_block
proof
  show "body_block (snd (new_block f)) (length (fl_heap f))" if "flow_inv f" for f
    using that by (auto simp: body_block_def new_block_def flow_inv_def flow_ok_def entry_point_def)
  show "flow_inv (flow_add_child p c f)" if "flow_inv f" "body_block f p" "body_block f c" for f p c
    using flow_inv_add_child [OF that(1) _ that(3)] that(2) by (simp add: body_block_def)
qed (auto simp: body_block_def flow_inv_exit [unfolded body_block_def] flow_inv_new_block flow_inv_mark_stat
    flow_inv_mark_position)

lemma flow_inv_init:
  "flow_inv (flow_init\<lparr>fl_entries := remdups es\<rparr>)"
proof -
  have "edges_of [block_init False, block_init True] = {}"
    by (auto simp: edges_of_def nth_Cons split: nat.splits)
  moreover have "linked [block_init False, block_init True]"
    by (auto simp: linked_def nth_Cons less_Suc_eq split: nat.splits)
  moreover have "block_marked es ([block_init False, block_init True] ! b)" if "b < 2" for es b
    using that by (auto simp: less_Suc_eq numeral_2_eq_2)
  ultimately show ?thesis
    by (auto simp: flow_inv_def flow_ok_def flow_marked_def all_assignments_def stats_below_def flow_init_def
        exit_point_def entry_point_def less_Suc_eq numeral_2_eq_2)
qed

lemma build_flow_inv:
  assumes "function_ok args body gbody"
  obtains v where "build_flow dot entries pos args star_arg starstar_arg body gbody = Some v" "flow_inv (v_flow v)"
proof -
  let ?start = "flow_init\<lparr>fl_entries := remdups (filter is_tracked entries)\<rparr>"
  let ?v = "mark_position pos (on_flow (\<lambda>f. f\<lparr>fl_entries := remdups (filter is_tracked entries)\<rparr>) (visitor_init dot))"
  let ?f = "v_flow ?v"
  have f: "?f = ?start \<or> ?f = flow_mark_position pos ?start"
    by (simp add: mark_position_def on_flow_def visitor_init_def)
  have inv: "flow_inv ?f" using f flow_inv_init flow_inv_mark_position by metis
  have fields: "fl_exceptions ?f = []" "fl_loops ?f = []" "fl_block ?f = Some entry_point" "length (fl_heap ?f) = 2"
    using f by (auto simp: flow_mark_position_def flow_init_def)
  have next_inv: "flow_inv (snd (nextblock None ?f))"
    using inv fields by (intro flow_inv_nextblock) (auto simp: entry_point_def)
  have "graph.good (v_nextblock None ?v)" "cur (v_nextblock None ?v) \<noteq> None"
    using next_inv fields
    by (simp_all add: graph.good_def v_nextblock_def on_flow_def nextblock_fields body_block_def entry_point_def)
  from graph.build_flow_keeps [OF assms this refl] show thesis using that by blast
qed

end
