(* ===== verification/FlowProperties.thy ===== *)
theory FlowProperties
  imports FlowHints FlowVisitTotal
begin

text \<open>
  \<open>visit_FuncDefNode\<close> of \<open>Cython/Compiler/FlowControl.py\<close> from the tree to the messages, and what its
  results say of the runs of the graph.
\<close>

subsection \<open>A function\<close>

definition visit_FuncDefNode ::
  "directives \<Rightarrow> bool \<Rightarrow> (cf_entry, flow_stat list) pydict \<Rightarrow> (cf_entry, flow_stat list) pydict
   \<Rightarrow> cf_entry list \<Rightarrow> int \<times> int \<Rightarrow> cnode list \<Rightarrow> (cf_node \<times> cf_entry) option \<Rightarrow> (cf_node \<times> cf_entry) option
   \<Rightarrow> cnode \<Rightarrow> cnode option \<Rightarrow> (visitor \<times> flow \<times> check_result) option" where
  "visit_FuncDefNode d dot assignments references entries pos args star_arg starstar_arg body gbody = do {
     v \<leftarrow> build_flow dot entries pos args star_arg starstar_arg body gbody;
     f \<leftarrow> normalize (v_flow v);
     r \<leftarrow> check_definitions d assignments references f;
     Some (v, f\<lparr>fl_blocks := List.insert entry_point (fl_blocks f)\<rparr>, r) }"

lemma flow_inv_parts:
  assumes "flow_inv f"
  shows "flow_ok f" "flow_marked f" "entry_point \<notin> Range (edges_of (fl_heap f))"
  using assms by (simp_all add: flow_inv_def)

lemma cr_state_messages [simp]: "cr_state (check_messages d f c) = c"
  by (simp add: check_messages_def Let_def split_beta)

text \<open>A name node stands for one entry.\<close>

definition one_entry :: "flow \<Rightarrow> cf_node \<Rightarrow> bool" where
  "one_entry f node \<longleftrightarrow>
     (\<forall>run s run' s'. reaches_stat f run s \<longrightarrow> reaches_stat f run' s' \<longrightarrow> stat_node s = node \<longrightarrow> stat_node s' = node
        \<longrightarrow> stat_entry s = stat_entry s')"

lemma normal_reaches:
  assumes "flow_normal f" "b \<in> set (fl_blocks f)" "s \<in> set (b_stats (fl_heap f ! b))"
  shows "\<exists>run. reaches_stat f run s"
proof -
  obtain r where "r \<in> runs_to (fl_heap f) b" using assms(1,2) by (metis flow_normal_def ex_in_conv)
  moreover obtain pre post where "b_stats (fl_heap f ! b) = pre @ s # post" using assms(3) by (meson split_list)
  ultimately show ?thesis using assms(2) unfolding reaches_stat_def by blast
qed

lemma references_collected:
  assumes "flow_normal f" "analysed f f'" "check_blocks f' (fl_blocks f) (check_state_init as rs) = Some c"
    and "reaches_stat f run s" "\<not> is_assignment s" "one_entry f (stat_node s)"
  shows "(stat_node s, stat_entry s) \<in> set (cs_references c)"
proof -
  have stats: "b_stats (fl_heap f' ! b) = b_stats (fl_heap f ! b)" if "b \<in> set (fl_blocks f)" for b
    using assms(2) that by (simp add: analysed_def)
  have same: "stat_entry t = stat_entry s"
    if t: "b \<in> set (fl_blocks f)" "t \<in> set (b_stats (fl_heap f' ! b))" "stat_node t = stat_node s" for b t
  proof -
    obtain run' where "reaches_stat f run' t" using normal_reaches [OF assms(1) t(1)] t(2) stats [OF t(1)] by auto
    then show ?thesis using assms(4,6) t(3) unfolding one_entry_def by metis
  qed
  obtain b where b: "b \<in> set (fl_blocks f)" "s \<in> set (b_stats (fl_heap f ! b))"
    using assms(4) by (auto simp: reaches_stat_def)
  have "dict_get (cs_references (check_state_init as rs)) (stat_node s) \<in> {None, Some (stat_entry s)}"
    by (simp add: check_state_init_def)
  moreover have "stat_entry t = stat_entry s"
    if "b' \<in> set (fl_blocks f)" "t \<in> set (b_stats (fl_heap f' ! b'))" "\<not> is_assignment t" "stat_node t = stat_node s"
    for b' t by (rule same [OF that(1,2,4)])
  ultimately have "(\<exists>b \<in> set (fl_blocks f). \<exists>t \<in> set (b_stats (fl_heap f' ! b)). \<not> is_assignment t \<and> stat_node t = stat_node s)
      \<longrightarrow> dict_get (cs_references c) (stat_node s) = Some (stat_entry s)"
    using check_blocks_references [of "fl_blocks f" f' "stat_node s" "stat_entry s", OF _ assms(3)] by blast
  then have "dict_get (cs_references c) (stat_node s) = Some (stat_entry s)"
    using b stats [OF b(1)] assms(5) by (metis (no_types))
  then show ?thesis by (rule map_of_SomeD)
qed

text \<open>What \<open>normalize\<close> and \<open>check_definitions\<close> give for a graph as it was built.\<close>

lemma check_definitions_built:
  assumes "flow_inv f"
  shows "\<exists>f' f2 c. normalize f = Some f' \<and> check_definitions d as rs f' = Some (check_messages d f2 c)
    \<and> (\<forall>node. states_at c node = run_states f node)
    \<and> (\<forall>run s. reaches_stat f run s \<longrightarrow> \<not> is_assignment s \<longrightarrow> one_entry f (stat_node s)
          \<longrightarrow> (stat_node s, stat_entry s) \<in> set (cs_references c))"
proof -
  note parts = flow_inv_parts [OF assms]
  show ?thesis
  proof (rule normalize_normal [OF parts])
    fix f' assume f': "normalize f = Some f'" "flow_normal f'" "flow_marked f'"
    have reach: "reaches_stat f' = reaches_stat f"
      using reaches_stat_normalize [OF parts(1) f'(1)] by (simp add: fun_eq_iff)
    have states: "run_states f' node = run_states f node" for node
      unfolding run_states_reach reach ..
    have one: "one_entry f' = one_entry f" by (simp add: fun_eq_iff one_entry_def reach)
    show ?thesis
    proof (rule check_definitions_run [OF f'(2,3)])
      fix f2 c
      assume c: "check_definitions d as rs f' = Some (check_messages d f2 c)"
        "check_blocks f2 (fl_blocks f') (check_state_init as rs) = Some c" "analysed f' f2"
        "\<And>node. states_at c node = run_states f' node"
      have "(stat_node s, stat_entry s) \<in> set (cs_references c)"
        if "reaches_stat f run s" "\<not> is_assignment s" "one_entry f (stat_node s)" for run s
        using references_collected [OF f'(2) c(3,2)] that reach one by metis
      then show ?thesis using f'(1) c(1,4) states by blast
    qed
  qed
qed

subsection \<open>Examples\<close>

definition local_entry :: "nat \<Rightarrow> string \<Rightarrow> cf_entry" where
  "local_entry n name =
     \<lparr>entry_id = n, entry_name = name, entry_pos = (1, 0), is_anonymous = False, is_local = True,
      is_pyclass_attr = False, is_arg = False, from_closure = False, in_closure = False,
      error_on_uninitialized = False, is_variable = True, is_cpp_optional = False, is_predefined = False,
      type_is_struct_or_union = False, type_is_complex = False, type_is_array = False,
      type_is_cython_lock = False, type_is_cpp_class = False, type_is_pyobject = True,
      type_is_unspecified = False, type_is_error = False\<rparr>"

definition name_node :: "nat \<Rightarrow> cf_node" where
  "name_node n = \<lparr>node_id = n, node_pos = (int n, 0), allow_null = False\<rparr>"

definition warn_all :: directives where
  "warn_all = \<lparr>warn_maybe_uninitialized = True, warn_unused_result = False, warn_unused = False,
     warn_unused_arg = False, opt_error_on_uninitialized = False\<rparr>"

text \<open>A call of another function, and the use and assignment of the local variable \<open>x\<close> at a line.\<close>

abbreviation "var_x \<equiv> local_entry 0 ''x''"
abbreviation "call_node \<equiv> OtherNode (0, 0) []"
abbreviation "use_x n \<equiv> NameNode (name_node n) (Some var_x)"
abbreviation "set_x n \<equiv> SingleAssignmentNode (NameTarget (name_node n) (Some var_x)) call_node"

definition analyse :: "cnode \<Rightarrow> (visitor \<times> flow \<times> check_result) option" where
  "analyse body = visit_FuncDefNode warn_all False [] [] [var_x] (1, 0) [] None None body None"

text \<open>\<open>if call(): x = call()\<close>, then \<open>return x\<close>.\<close>

definition maybe_unset :: cnode where
  "maybe_unset = StatListNode [IfStatNode [(call_node, set_x 2)] None, ReturnStatNode (3, 0) [use_x 3]]"

lemma maybe_unset_ok: "function_ok [] maybe_unset None"
  by (simp add: function_ok_def maybe_unset_def)

text \<open>The hints of the node at a line, and the positions of the messages.\<close>

definition hint_at :: "cnode \<Rightarrow> nat \<Rightarrow> (bool \<times> bool) option" where
  "hint_at body n =
     map_option (\<lambda>(v, f, r). let h = hint_of (cr_hints r) (name_node n) in (cf_maybe_null h, cf_is_null h)) (analyse body)"

definition messages_of :: "cnode \<Rightarrow> ((int \<times> int) \<times> string) list option" where
  "messages_of body = map_option (\<lambda>(v, f, r). map (\<lambda>(pos, err, msg). (pos, msg)) (cr_messages r)) (analyse body)"

lemma maybe_unset_hint: "hint_at maybe_unset 3 = Some (True, False)"
  by code_simp

subsection \<open>Properties\<close>

lemma function_analysed:
  assumes "function_ok args body gbody"
  obtains v f' f2 c where
    "build_flow dot entries pos args star_arg starstar_arg body gbody = Some v" "flow_inv (v_flow v)"
    "visit_FuncDefNode d dot as rs entries pos args star_arg starstar_arg body gbody
       = Some (v, f', check_messages d f2 c)"
    "\<forall>node. states_at c node = run_states (v_flow v) node"
    "\<forall>run s. reaches_stat (v_flow v) run s \<longrightarrow> \<not> is_assignment s \<longrightarrow> one_entry (v_flow v) (stat_node s)
          \<longrightarrow> (stat_node s, stat_entry s) \<in> set (cs_references c)"
proof -
  obtain v where v: "build_flow dot entries pos args star_arg starstar_arg body gbody = Some v" "flow_inv (v_flow v)"
    by (rule build_flow_inv [OF assms])
  obtain f' f2 c where c: "normalize (v_flow v) = Some f'" "check_definitions d as rs f' = Some (check_messages d f2 c)"
    "\<forall>node. states_at c node = run_states (v_flow v) node"
    "\<forall>run s. reaches_stat (v_flow v) run s \<longrightarrow> \<not> is_assignment s \<longrightarrow> one_entry (v_flow v) (stat_node s)
          \<longrightarrow> (stat_node s, stat_entry s) \<in> set (cs_references c)"
    using check_definitions_built [OF v(2), of d as rs] by blast
  have "visit_FuncDefNode d dot as rs entries pos args star_arg starstar_arg body gbody
      = Some (v, f'\<lparr>fl_blocks := List.insert entry_point (fl_blocks f')\<rparr>, check_messages d f2 c)"
    by (simp add: visit_FuncDefNode_def v(1) c(1,2))
  from that [OF v this c(3,4)] show thesis .
qed

lemma value_states:
  assumes "reaches_stat f run s" "\<forall>node. states_at c node = run_states f node"
  shows "cf_state_of (stat_entry s) (value_after (stat_entry s) run) \<in> states_at c (stat_node s)"
  using assms by (auto simp: run_states_reach)

text \<open>C5. For every function whose tree has its expressions and statements in place, the visitor
  raises no \<open>AttributeError\<close>, the search of \<open>normalize\<close> and the fixed point of
  \<open>reaching_definitions\<close> end, and the states collected for each name node are those that the runs of
  the graph give its entry there.\<close>

theorem function_states:
  assumes "function_ok args body gbody"
  shows "\<exists>v f r. visit_FuncDefNode d dot as rs entries pos args star_arg starstar_arg body gbody = Some (v, f, r)
    \<and> (\<forall>node. states_at (cr_state r) node =
          {cf_state_of (stat_entry s) (value_after (stat_entry s) run) | s run.
             reaches_stat (v_flow v) run s \<and> stat_node s = node})"
proof (rule function_analysed [OF assms])
  fix v f' f2 c
  assume c: "visit_FuncDefNode d dot as rs entries pos args star_arg starstar_arg body gbody
      = Some (v, f', check_messages d f2 c)" "\<forall>node. states_at c node = run_states (v_flow v) node"
  then show ?thesis by (auto simp: run_states_reach)
qed

theorem function_states_witness:
  "\<exists>v f r. visit_FuncDefNode warn_all False [] [] [var_x] (1, 0) [] None None maybe_unset None = Some (v, f, r)
    \<and> (\<forall>node. states_at (cr_state r) node =
          {cf_state_of (stat_entry s) (value_after (stat_entry s) run) | s run.
             reaches_stat (v_flow v) run s \<and> stat_node s = node})"
  by (rule function_states [OF maybe_unset_ok])

text \<open>C6. The hints for code generation are right about the runs of the graph: a name node that is
  not \<open>cf_maybe_null\<close> is reached by no run that leaves its entry unset, unless it has a static
  value, and one that is \<open>cf_is_null\<close> is reached only by such runs.\<close>

theorem hints_sound:
  assumes "function_ok args body gbody"
  shows "\<exists>v f r. visit_FuncDefNode d dot as rs entries pos args star_arg starstar_arg body gbody = Some (v, f, r)
    \<and> (\<forall>run s. reaches_stat (v_flow v) run s \<longrightarrow>
          (\<not> cf_maybe_null (hint_of (cr_hints r) (stat_node s)) \<longrightarrow>
             is_statically_assigned (stat_entry s) \<or> (\<exists>a. value_after (stat_entry s) run = Some a))
          \<and> (cf_is_null (hint_of (cr_hints r) (stat_node s)) \<longrightarrow>
             \<not> is_statically_assigned (stat_entry s) \<and> value_after (stat_entry s) run = None))"
proof (rule function_analysed [OF assms])
  fix v f' f2 c
  assume c: "visit_FuncDefNode d dot as rs entries pos args star_arg starstar_arg body gbody
      = Some (v, f', check_messages d f2 c)" "\<forall>node. states_at c node = run_states (v_flow v) node"
  let ?h = "\<lambda>s. hint_of (cr_hints (check_messages d f2 c)) (stat_node s)"
  have "(\<not> cf_maybe_null (?h s) \<longrightarrow> is_statically_assigned (stat_entry s) \<or> (\<exists>a. value_after (stat_entry s) run = Some a))
      \<and> (cf_is_null (?h s) \<longrightarrow> \<not> is_statically_assigned (stat_entry s) \<and> value_after (stat_entry s) run = None)"
    if "reaches_stat (v_flow v) run s" for run s
    using value_states [OF that c(2)] check_messages_hints [of c "stat_node s" d f2]
    by (auto simp: hint_sound_def cf_state_of_def split: option.splits if_splits)
  then show ?thesis using c(1) by blast
qed

theorem hints_sound_witness:
  "\<exists>v f r. visit_FuncDefNode warn_all False [] [] [var_x] (1, 0) [] None None maybe_unset None = Some (v, f, r)
    \<and> (\<forall>run s. reaches_stat (v_flow v) run s \<longrightarrow>
          (\<not> cf_maybe_null (hint_of (cr_hints r) (stat_node s)) \<longrightarrow>
             is_statically_assigned (stat_entry s) \<or> (\<exists>a. value_after (stat_entry s) run = Some a))
          \<and> (cf_is_null (hint_of (cr_hints r) (stat_node s)) \<longrightarrow>
             \<not> is_statically_assigned (stat_entry s) \<and> value_after (stat_entry s) run = None))"
  by (rule hints_sound [OF maybe_unset_ok])

text \<open>C7. A reference that some run of the graph reaches with its entry unset is reported when the
  warning is on: there is an error or a warning at its position, unless the node may be null or the
  entry is static, of an enclosing scope, an attribute of a class, or of an erroneous type. The
  reference is to a node whose statements are all about one entry (\<open>one_entry\<close>), as a name node's
  are.\<close>

theorem unset_references_reported:
  assumes "function_ok args body gbody" "warn_maybe_uninitialized d"
  shows "\<exists>v f r. visit_FuncDefNode d dot as rs entries pos args star_arg starstar_arg body gbody = Some (v, f, r)
    \<and> (\<forall>run s. reaches_stat (v_flow v) run s \<and> \<not> is_assignment s \<and> one_entry (v_flow v) (stat_node s)
          \<and> value_after (stat_entry s) run = None
          \<and> \<not> is_statically_assigned (stat_entry s) \<and> \<not> from_closure (stat_entry s) \<and> \<not> is_pyclass_attr (stat_entry s)
          \<and> \<not> type_is_error (stat_entry s) \<and> \<not> allow_null (stat_node s)
        \<longrightarrow> (\<exists>err text. (node_pos (stat_node s), err, text) \<in> set (cr_messages r)))"
proof (rule function_analysed [OF assms(1)])
  fix v f' f2 c
  assume c: "visit_FuncDefNode d dot as rs entries pos args star_arg starstar_arg body gbody
      = Some (v, f', check_messages d f2 c)" "\<forall>node. states_at c node = run_states (v_flow v) node"
    and refs: "\<forall>run s. reaches_stat (v_flow v) run s \<longrightarrow> \<not> is_assignment s \<longrightarrow> one_entry (v_flow v) (stat_node s)
          \<longrightarrow> (stat_node s, stat_entry s) \<in> set (cs_references c)"
  have "\<exists>err text. (node_pos (stat_node s), err, text) \<in> set (cr_messages (check_messages d f2 c))"
    if s: "reaches_stat (v_flow v) run s" "\<not> is_assignment s" "one_entry (v_flow v) (stat_node s)"
      "value_after (stat_entry s) run = None" "\<not> is_statically_assigned (stat_entry s)"
      "\<not> from_closure (stat_entry s)" "\<not> is_pyclass_attr (stat_entry s)" "\<not> type_is_error (stat_entry s)"
      "\<not> allow_null (stat_node s)" for run s
  proof -
    have "Uninitialized \<in> states_at c (stat_node s)"
      using value_states [OF s(1) c(2)] s(4-6) by (simp add: cf_state_of_def)
    note reported = reference_reported [OF this assms(2) s(9,6-8)]
    obtain hint where "set (reference_messages d c hint (stat_node s) (stat_entry s))
        \<subseteq> set (cr_messages (check_messages d f2 c))"
      using check_references_in_messages refs s(1-3) by metis
    moreover obtain m where m: "m \<in> set (reference_messages d c hint (stat_node s) (stat_entry s))"
      "fst m = node_pos (stat_node s)"
      using reported by metis
    ultimately have "m \<in> set (cr_messages (check_messages d f2 c))" by (simp only: subset_iff)
    moreover have "m = (node_pos (stat_node s), fst (snd m), snd (snd m))" using m(2) by (simp add: prod_eq_iff)
    ultimately show ?thesis by metis
  qed
  with c(1) show ?thesis by blast
qed

theorem unset_references_reported_witness:
  "\<exists>v f r. visit_FuncDefNode warn_all False [] [] [var_x] (1, 0) [] None None maybe_unset None = Some (v, f, r)
    \<and> (\<forall>run s. reaches_stat (v_flow v) run s \<and> \<not> is_assignment s \<and> one_entry (v_flow v) (stat_node s)
          \<and> value_after (stat_entry s) run = None
          \<and> \<not> is_statically_assigned (stat_entry s) \<and> \<not> from_closure (stat_entry s) \<and> \<not> is_pyclass_attr (stat_entry s)
          \<and> \<not> type_is_error (stat_entry s) \<and> \<not> allow_null (stat_node s)
        \<longrightarrow> (\<exists>err text. (node_pos (stat_node s), err, text) \<in> set (cr_messages r)))"
  by (rule unset_references_reported [OF maybe_unset_ok]) (simp add: warn_all_def)

text \<open>C32. The graph that the visitor builds for a function is in order: every link is known to both
  of its blocks, all blocks but the entry point are registered (also those of \<open>newblock\<close>, whose
  docstring says that it does not add its block to \<open>self.blocks\<close>), no edge leads to the entry point,
  and the statements of a block are about tracked entries, with \<open>gen\<close> the last assignment to each.\<close>

theorem built_flow_invariant:
  assumes "function_ok args body gbody"
  shows "\<exists>v. build_flow dot entries pos args star_arg starstar_arg body gbody = Some v
    \<and> linked (fl_heap (v_flow v)) \<and> set (fl_blocks (v_flow v)) = {0<..<length (fl_heap (v_flow v))}
    \<and> entry_point \<notin> Range (edges_of (fl_heap (v_flow v)))
    \<and> (\<forall>b < length (fl_heap (v_flow v)). block_marked (fl_entries (v_flow v)) (fl_heap (v_flow v) ! b))"
proof (rule build_flow_inv [OF assms])
  fix v assume v: "build_flow dot entries pos args star_arg starstar_arg body gbody = Some v" "flow_inv (v_flow v)"
  then show ?thesis by (auto simp: flow_inv_def flow_ok_def flow_marked_def)
qed

theorem built_flow_invariant_witness:
  "\<exists>v. build_flow False [var_x] (1, 0) [] None None maybe_unset None = Some v
    \<and> linked (fl_heap (v_flow v)) \<and> set (fl_blocks (v_flow v)) = {0<..<length (fl_heap (v_flow v))}
    \<and> entry_point \<notin> Range (edges_of (fl_heap (v_flow v)))
    \<and> (\<forall>b < length (fl_heap (v_flow v)). block_marked (fl_entries (v_flow v)) (fl_heap (v_flow v) ! b))"
  by (rule built_flow_invariant [OF maybe_unset_ok])

text \<open>C33. \<open>normalize\<close> ends, keeps exactly the blocks that can be reached and are not empty, in place,
  and every block it keeps is still entered by the same runs.\<close>

theorem normalize_keeps_runs:
  assumes "flow_ok f"
  shows "\<exists>f'. normalize f = Some f'
    \<and> fl_blocks f' = filter (\<lambda>b. b \<in> reachable (fl_heap f) \<and> \<not> block_empty (fl_heap f ! b)) (fl_blocks f)
    \<and> same_content (fl_heap f) (fl_heap f')
    \<and> (\<forall>b \<in> set (fl_blocks f'). runs_to (fl_heap f') b = runs_to (fl_heap f) b)"
proof (rule normalize_run [OF assms])
  fix f'
  assume f': "normalize f = Some f'" "same_content (fl_heap f) (fl_heap f')"
    "fl_blocks f' = filter (\<lambda>b. b \<in> reachable (fl_heap f) \<and> \<not> block_empty (fl_heap f ! b)) (fl_blocks f)"
    "\<And>b. b = entry_point \<or> b \<in> set (fl_blocks f') \<Longrightarrow> runs_to (fl_heap f') b = runs_to (fl_heap f) b"
  show ?thesis by (intro exI [of _ f'] conjI ballI f' disjI2)
qed

text \<open>Two empty blocks in a row before the exit point.\<close>

definition empty_chain :: flow where
  "empty_chain =
     (let f = snd (nextblock None flow_init); f = snd (nextblock None f)
      in flow_add_child 3 exit_point f)"

lemma empty_chain_inv: "flow_inv empty_chain"
proof -
  have init: "flow_inv flow_init" using flow_inv_init [of "[]"] by (simp add: flow_init_def)
  let ?f = "snd (nextblock None flow_init)"
  have "flow_inv (snd (nextblock None ?f))"
    using init by (intro flow_inv_nextblock) (auto simp: flow_init_def nextblock_fields entry_point_def)
  then show ?thesis
    unfolding empty_chain_def Let_def
    by (intro flow_inv_add_child flow_inv_exit) (simp_all add: nextblock_fields flow_init_def)
qed

theorem normalize_keeps_runs_witness:
  "\<exists>f'. normalize empty_chain = Some f'
    \<and> fl_blocks f' = filter (\<lambda>b. b \<in> reachable (fl_heap empty_chain) \<and> \<not> block_empty (fl_heap empty_chain ! b))
        (fl_blocks empty_chain)
    \<and> same_content (fl_heap empty_chain) (fl_heap f')
    \<and> (\<forall>b \<in> set (fl_blocks f'). runs_to (fl_heap f') b = runs_to (fl_heap empty_chain) b)"
  by (rule normalize_keeps_runs [OF flow_inv_parts(1) [OF empty_chain_inv]])

text \<open>C34. On every graph in order, \<open>normalize\<close> and \<open>check_definitions\<close> end with a result: the search
  visits each block once, and the masks of the fixed point only grow.\<close>

theorem flow_analysis_ends:
  assumes "flow_ok f" "flow_marked f" "entry_point \<notin> Range (edges_of (fl_heap f))"
  shows "\<exists>f' r. normalize f = Some f' \<and> check_definitions d as rs f' = Some r"
proof (rule normalize_normal [OF assms])
  fix f' assume f': "normalize f = Some f'" "flow_normal f'" "flow_marked f'"
  show ?thesis by (rule check_definitions_run [OF f'(2,3), of d as rs]) (use f'(1) in blast)
qed

theorem flow_analysis_ends_witness:
  "\<exists>f' r. normalize empty_chain = Some f' \<and> check_definitions warn_all [] [] f' = Some r"
  by (rule flow_analysis_ends [OF flow_inv_parts [OF empty_chain_inv]])

text \<open>Two examples of paths that the graph lacks, so that the hints are wrong. A deletion inside \<open>try\<close> leaves no
  edge to the handler: after \<open>x = call()\<close>, in \<open>try: del x; call()\<close>, \<open>except: return x\<close> the use of \<open>x\<close> is
  taken to be set. An assertion is left from the block in which its condition begins: in
  \<open>try: assert (x := call()); return x\<close>, \<open>except: return\<close> the use is taken to be unset.\<close>

lemma missing_paths_hints:
  "hint_at (StatListNode [set_x 1,
      TryExceptStatNode (StatListNode [DelStatNode False [NameTarget (name_node 3) (Some var_x)], call_node])
        [ExceptClauseNode [] None (ReturnStatNode (5, 0) [use_x 5])] None]) 5 = Some (False, False)
   \<and> hint_at (TryExceptStatNode (StatListNode [
        AssertStatNode (2, 0) (VisitChildren [call_node, set_x 2]) (RaiseStatNode (2, 0) []),
        ReturnStatNode (3, 0) [use_x 3]]) [ExceptClauseNode [] None (ReturnStatNode (5, 0) [])] None) 3
     = Some (True, True)"
  by (rule conjI; code_simp)

end
