(* ===== verification/Spec2Isabelle.thy ===== *)
theory Spec2Isabelle
  imports HandleContext HandleRefinement HandleResources LZSSCorrect RuntimeContracts PlexEquivalence
    PyrexTentative StringLiteralsCorrect LineTable FlowProperties
begin

text \<open>
  A model of core parts of the aHPy compiler, a Cython whose generated modules can use the HPy C
  API instead of the CPython one. All paths are under \<open>src/Cython/\<close>.

  The program reads a source file with a lexical analyser generated from regular expressions
  (\<open>Plex\<close>), parses and analyses it, and writes a C module. For the HPy backend every emitted
  operation comes from \<open>Compiler/RuntimeAPI.py\<close>, and the writer follows the ownership rules of
  \<open>Compiler/HandleModel.py\<close>: each handle is opened, passed on and closed exactly once. String
  constants are packed by \<open>LZSS.py\<close> and unpacked by the C code of \<open>Utility/StringTools.c\<close> when
  the module is imported.

  Conventions. A class with fields is a record, an enumeration a datatype with the members of the
  source, a dictionary an association list (\<open>pydict\<close>, theory Prelude) whose order is the insertion
  order Python iterates in, a raised exception the left side of a sum. A method that mutates its
  object returns the new object; where the object changes before an exception is raised, the result
  is a pair of the outcome and the object. Strings are lists of characters, texts of the scanner
  lists of code points. Python integers are \<open>int\<close> or, where the code keeps them non-negative,
  \<open>nat\<close>, as are the bytes and offsets of the C decompressor, whose inputs are bytes.

  \<^bold>\<open>Handles\<close> (\<open>Compiler/HandleModel.py\<close>). HandleTypes has the enumerations, the dataclasses and the
  contract tables; HandleContext the propagation of the \<open>HPyContext\<close> argument; HandleTracker the
  methods of \<open>HandleStateTracker\<close>, which follows the handles of one function through its control
  flow; HandleManagers the managers of temporaries, sequence builders and argument trackers.
  HandleLifetime reads each method of the tracker off its dictionaries and has the calls of any
  method as data; HandleSafety proves that a consumed handle stays unusable, that a cleanup plan
  closes exactly the live owned handles and that branches merge only when they agree.
  HandleRefinement has the abstract specification, a machine that knows each name only as unborn,
  permanent, held or spent, and proves that every method returns exactly when the machine allows the
  call and leaves the lifetimes that the machine says. LinearResources states the contract of a manager of resources as locales, and
  HandleResources interprets them on the three managers: nothing is acquired or consumed twice and
  the exit checks are exact.

  \<^bold>\<open>String compression\<close> (\<open>LZSS.py\<close>, \<open>Utility/StringTools.c\<close>). LZSS has the compressor and the
  decompressor, LZSSCorrect the round trip. The loop of the decompressor takes fuel, and the length
  of the compressed input plus one is enough since each group reads at least its flag byte.

  \<^bold>\<open>Backends\<close> (\<open>Compiler/RuntimeAPI.py\<close>). RuntimeTypes has the contracts and the base class,
  RuntimeHPy and RuntimeCPython one definition for each operation of the two backends, with the C
  text it emits, RuntimeBackends the selection of a backend and a reader of the emitted calls.
  RuntimeCalls shows that the operations which both backends write as a C call emit corresponding
  calls of the same operands and what the variadic HPy calls pass, RuntimeContracts that the two
  backends agree on operators and that method flags, builders and backend names are checked.

  \<^bold>\<open>Lexical analysis\<close> (\<open>Plex/\<close>). PlexRegexps has the regular expressions and the machines they build,
  PlexLexicon the token definitions and the machine of a lexicon, PlexTransitions the transition maps,
  PlexMachines the two kinds of machine, PlexDFA the subset construction, PlexScanner the buffer and
  the run of the machine. PlexLanguage gives the meaning of an expression as a set of words of
  symbols, where a line may begin or end between characters, and PlexThompson and PlexBuild show that
  \<open>build_machine\<close> accepts exactly that set. PlexSubset and PlexEquivalence prove that the subset
  construction returns and preserves the actions: its loop is a partial function, and it ends because
  a new state stands for a set of old ones, of which there are finitely many. PlexScanner proves that
  a token is the longest match however the input is cut into chunks, and PlexLexer composes all of
  it: from a lexicon whose specifications are well formed (\<open>specs_ok\<close>: codes are characters, initial
  states are balanced) the scanner returns the longest token of the first specification that matches.

  \<^bold>\<open>Scanner\<close> (\<open>Plex/Scanners.py\<close>, \<open>Plex/Actions.py\<close>, \<open>Compiler/Lexicon.py\<close>, \<open>Compiler/Scanning.py\<close>).
  PlexScanning has the queue of tokens, \<open>read\<close> and the actions; UnicodeTables and PyrexLexicon have
  \<open>make_lexicon\<close>, from which the lexicon of Cython is built, and show that its specification is well
  formed; PyrexScanner has the methods and operations of \<open>PyrexScanner\<close>. What stays the same while a
  file is scanned, with the lexicon and \<open>unicodedata.normalize\<close>, is the record \<open>scan_env\<close>; the property
  \<open>pyrex_machine\<close> says that the lexicon is the one that \<open>make_lexicon\<close> returns. PyrexSafety has the
  invariant of the stacks of strings, brackets and blocks and proves that every action keeps it, and
  PyrexStream that each call of the parser returns and raises nothing but \<open>CompileError\<close>, and that
  the end of the file is reached with all blocks closed. PyrexTentative shows that \<open>tentatively_scan\<close>
  undoes the reading of a block that fails. The loops of \<open>read\<close> are partial functions;
  they end because each token takes a symbol from the text.

  \<^bold>\<open>String literals\<close> (\<open>Compiler/StringEncoding.py\<close>). StringLiterals has the escaping and splitting of
  byte strings and the builders of literals; StringLiteralsCorrect has a reader of C string literals
  and shows that it gives the bytes back.

  \<^bold>\<open>Location tables\<close> (\<open>Compiler/LineTable.py\<close>, \<open>_build_positions\<close> of \<open>Compiler/ParseTreeTransforms.py\<close>).
  LineTable has the encoder, the ranges of the nodes of a function and a reader of the PEP 626
  format, and shows that the reader gives the ranges back.

  \<^bold>\<open>Flow analysis\<close> (\<open>Compiler/FlowControl.py\<close>). FlowGraph has the blocks and the operations of
  \<open>ControlFlow\<close>: a block is an index into a heap of records with links in both directions, a Python
  set a list without duplicates in any order. FlowReach has \<open>initialize\<close>, the fixed point over bit
  masks and \<open>map_one\<close>, FlowCheck \<open>check_definitions\<close>, FlowVisit the methods of \<open>ControlFlowAnalysis\<close>
  that turn a tree into a graph, one definition each over what visiting the subnodes does, and
  FlowProperties \<open>visit_FuncDefNode\<close>. Loops that search until nothing is left are partial functions,
  and they are proved to return. FlowPaths has the runs of a graph and shows that \<open>normalize\<close> keeps
  them, FlowFix that the fixed point is the least one and gives the bits that reach a block, FlowInit
  that the masks number the assignments, FlowCorrect and FlowSound that the states collected for a
  name are those the runs give it, FlowHints what follows for hints and messages. FlowBuild shows that
  the operations keep the graph in order; FlowVisitSafe states such properties as the locale
  \<open>flow_invariant\<close>, FlowVisitKeeps and FlowVisitTotal prove for every one of them that the visitor keeps
  it and uses no missing block, for trees in which only nodes that complete stand for expressions
  (\<open>well_placed\<close>), and interpret it on the graph. The runs are those of the graph that the visitor
  builds; where the graph lacks a path of the program (FlowProperties has two examples) the hints are
  wrong about it.

  \<^bold>\<open>Not modelled.\<close> The syntax tree beyond what the flow analysis tells apart, its analysis and
  transformations, and the C text emitted from it, which would need a semantics of C and of the
  Python runtime; the module and the parallel nodes of the flow analysis, which change entries while
  they are visited; the module writer as far as it only concatenates text; file access, processes,
  options and error messages; the parser, and of the scanner the source descriptors and the values of
  the compile-time names, which are objects of the running Python; the debugger, the Tempita copy and the release tooling. Of the modelled
  files the methods that print for debugging are left out, and an error carries its class and
  arguments but not its formatted message. Of the options, \<open>--fast-fail\<close> would change modelled code: with
  it \<open>report_error\<close> also raises \<open>AbortError\<close>, and the properties of the scanner are for a run without it.
  Integers that compiled modules hold in C variables (\<open>cython.int\<close> annotations) are unbounded, as when
  the compiler runs as plain Python.
\<close>

end
